(* ===== verification/Py_Prelude.thy ===== *)
theory Py_Prelude
  imports Main "HOL-Library.AList" "HOL-Library.Sublist" "HOL-Library.List_Lexorder"
    "HOL-Library.Char_ord"
begin

text \<open>
  The part of the Python 2 language that the modelled programs use: exceptions as values of
  \<open>py_error\<close>, computations that may raise as \<open>'a res\<close>, the values a build file is made of,
  dictionaries as association lists with distinct keys (the list order is the iteration order,
  which Python 2 leaves open), and the string methods the sources call.  Everything here is the
  language and its standard library; the modelled components start with the theories that import
  this one.
\<close>

section \<open>Exceptions\<close>

datatype py_error =
    GypError string
  | CircularException string
  | TypeError string
  | ValueError string
  | KeyError string
  | IndexError
  | AttributeError string
  | AssertionError
  | NameError string
  | CycleError "string list"
  | RegexError string
  | SyntaxError string string int
  | RuntimeError string
  | ImportError string
  | OSError string
  | Exception string

type_synonym 'a res = "py_error + 'a"

definition rbind :: "'a res \<Rightarrow> ('a \<Rightarrow> 'b res) \<Rightarrow> 'b res" where
  "rbind m f = (case m of Inl e \<Rightarrow> Inl e | Inr x \<Rightarrow> f x)"

text \<open>A \<open>for\<close> loop whose body updates a state and may raise; a list comprehension whose
  element expression may raise.\<close>

fun rfold :: "('a \<Rightarrow> 's \<Rightarrow> 's res) \<Rightarrow> 'a list \<Rightarrow> 's \<Rightarrow> 's res" where
  "rfold f [] s = Inr s"
| "rfold f (x # xs) s = rbind (f x s) (rfold f xs)"

fun rmap :: "('a \<Rightarrow> 'b res) \<Rightarrow> 'a list \<Rightarrow> 'b list res" where
  "rmap f [] = Inr []"
| "rmap f (x # xs) = rbind (f x) (\<lambda>y. rbind (rmap f xs) (\<lambda>ys. Inr (y # ys)))"

definition rassert :: "bool \<Rightarrow> py_error \<Rightarrow> unit res" where
  "rassert b e = (if b then Inr () else Inl e)"

lemma rbind_simps [simp]:
  "rbind (Inl e) f = Inl e"
  "rbind (Inr x) f = f x"
  by (simp_all add: rbind_def)

lemma rbind_eq_Inr [simp]: "rbind act f = Inr r \<longleftrightarrow> (\<exists>v. act = Inr v \<and> f v = Inr r)"
  by (cases act) auto

lemma rbind_eq_Inl [simp]:
  "rbind m f = Inl e \<longleftrightarrow> m = Inl e \<or> (\<exists>x. m = Inr x \<and> f x = Inl e)"
  by (cases m) auto

lemma rbind_assoc: "rbind (rbind m f) g = rbind m (\<lambda>x. rbind (f x) g)"
  by (cases m) simp_all

lemma rbind_cong [fundef_cong]:
  "m = m' \<Longrightarrow> (\<And>x. m' = Inr x \<Longrightarrow> f x = f' x) \<Longrightarrow> rbind m f = rbind m' f'"
  by (cases m') auto

lemma rassert_eq [simp]:
  "rassert b e = Inr u \<longleftrightarrow> b"
  "rassert b e = Inl e' \<longleftrightarrow> \<not> b \<and> e' = e"
  by (auto simp: rassert_def)

lemma rfold_cong [fundef_cong]:
  assumes "xs = ys" "s = t" "\<And>x u. x \<in> set ys \<Longrightarrow> f x u = g x u"
  shows "rfold f xs s = rfold g ys t"
  using assms(3) unfolding assms(1,2)
  by (induction ys arbitrary: t) (auto intro!: rbind_cong)

lemma rmap_cong [fundef_cong]:
  assumes "xs = ys" "\<And>x. x \<in> set ys \<Longrightarrow> f x = g x"
  shows "rmap f xs = rmap g ys"
  using assms(2) unfolding assms(1) by (induction ys) simp_all

lemma rfold_append: "rfold f (xs @ ys) s = rbind (rfold f xs s) (rfold f ys)"
proof (induction xs arbitrary: s)
  case (Cons x xs)
  then have "rfold f (xs @ ys) = (\<lambda>u. rbind (rfold f xs u) (rfold f ys))" by (rule ext)
  then show ?case by (simp add: rbind_assoc)
qed simp

text \<open>The invariant rule of the loop: the state after the loop satisfies what every iteration
  keeps.\<close>

lemma rfold_invariant:
  assumes "rfold f xs s = Inr t" "P s"
    and "\<And>x u v. x \<in> set xs \<Longrightarrow> P u \<Longrightarrow> f x u = Inr v \<Longrightarrow> P v"
  shows "P t"
  using assms
proof (induction xs arbitrary: s)
  case (Cons x xs)
  from Cons.prems(1) obtain u where u: "f x s = Inr u" "rfold f xs u = Inr t" by auto
  have "P u" by (rule Cons.prems(3)[of x s u]) (use Cons.prems(2) u(1) in simp_all)
  from u(2) this show ?case by (rule Cons.IH) (rule Cons.prems(3), auto)
qed simp

lemma rmap_length: "rmap f xs = Inr ys \<Longrightarrow> length ys = length xs"
  by (induction xs arbitrary: ys) auto

lemma rmap_total: "(\<And>x. x \<in> set xs \<Longrightarrow> f x = Inr (g x)) \<Longrightarrow> rmap f xs = Inr (map g xs)"
  by (induction xs) simp_all

lemma rfold_total: "(\<And>x u. x \<in> set xs \<Longrightarrow> f x u = Inr (g x u)) \<Longrightarrow> rfold f xs s = Inr (fold g xs s)"
  by (induction xs arbitrary: s) simp_all

lemma rmap_member: "rmap f xs = Inr ys \<Longrightarrow> y \<in> set ys \<Longrightarrow> \<exists>x \<in> set xs. f x = Inr y"
  by (induction xs arbitrary: ys) auto

lemma rmap_list_all2:
  "rmap f xs = Inr ys \<longleftrightarrow> list_all2 (\<lambda>x y. f x = Inr y) xs ys"
  by (induction xs arbitrary: ys) (auto simp: list_all2_Cons1)

section \<open>Values\<close>

text \<open>What \<open>eval\<close> of a build file yields: strings, integers, lists and dictionaries with string
  keys; \<open>PNone\<close> stands for the values of no class the programs accept.\<close>

datatype pyval =
    PStr string
  | PInt int
  | PList "pyval list"
  | PDict "(string \<times> pyval) list"
  | PNone

type_synonym pydict = "(string \<times> pyval) list"

definition is_scalar :: "pyval \<Rightarrow> bool" where
  "is_scalar v = (case v of PStr s \<Rightarrow> True | PInt i \<Rightarrow> True | _ \<Rightarrow> False)"

fun class_name :: "pyval \<Rightarrow> string" where
  "class_name (PStr s) = ''str''"
| "class_name (PInt i) = ''int''"
| "class_name (PList l) = ''list''"
| "class_name (PDict d) = ''dict''"
| "class_name PNone = ''NoneType''"

fun truthy :: "pyval \<Rightarrow> bool" where
  "truthy (PStr s) = (s \<noteq> [])"
| "truthy (PInt i) = (i \<noteq> 0)"
| "truthy (PList l) = (l \<noteq> [])"
| "truthy (PDict d) = (d \<noteq> [])"
| "truthy PNone = False"

lemma is_scalar_simps [simp]:
  "is_scalar (PStr s)" "is_scalar (PInt i)" "\<not> is_scalar (PList l)" "\<not> is_scalar (PDict d)"
  "\<not> is_scalar PNone"
  by (simp_all add: is_scalar_def)

section \<open>Dictionaries\<close>

text \<open>\<open>d[k] = v\<close> overwrites in place or adds at the end; \<open>del d[k]\<close> raises when the key is
  missing; \<open>d.get(k, dflt)\<close> does not.\<close>

abbreviation dget :: "(string \<times> 'v) list \<Rightarrow> string \<Rightarrow> 'v option" where
  "dget d k \<equiv> map_of d k"

definition dhas :: "(string \<times> 'v) list \<Rightarrow> string \<Rightarrow> bool" where
  "dhas d k = (map_of d k \<noteq> None)"

definition dset :: "string \<Rightarrow> 'v \<Rightarrow> (string \<times> 'v) list \<Rightarrow> (string \<times> 'v) list" where
  "dset k v d = AList.update k v d"

definition ddel :: "string \<Rightarrow> (string \<times> 'v) list \<Rightarrow> (string \<times> 'v) list" where
  "ddel k d = AList.delete k d"

definition dget_default :: "(string \<times> 'v) list \<Rightarrow> string \<Rightarrow> 'v \<Rightarrow> 'v" where
  "dget_default d k v = (case map_of d k of None \<Rightarrow> v | Some w \<Rightarrow> w)"

definition dlookup :: "(string \<times> 'v) list \<Rightarrow> string \<Rightarrow> 'v res" where
  "dlookup d k = (case map_of d k of None \<Rightarrow> Inl (KeyError k) | Some v \<Rightarrow> Inr v)"

abbreviation dkeys :: "(string \<times> 'v) list \<Rightarrow> string list" where
  "dkeys d \<equiv> map fst d"

text \<open>Well-formed dictionaries hold each key once, at every depth.\<close>

definition wf_dict :: "(string \<times> 'v) list \<Rightarrow> bool" where
  "wf_dict d = distinct (map fst d)"

fun wf_val :: "pyval \<Rightarrow> bool" where
  "wf_val (PStr s) = True"
| "wf_val (PInt i) = True"
| "wf_val (PList l) = (\<forall>v \<in> set l. wf_val v)"
| "wf_val (PDict d) = (distinct (map fst d) \<and> (\<forall>p \<in> set d. wf_val (snd p)))"
| "wf_val PNone = True"

lemma dhas_iff: "dhas d k \<longleftrightarrow> k \<in> set (dkeys d)"
  by (auto simp: dhas_def map_of_eq_None_iff)

lemma dget_dset [simp]: "dget (dset k v d) k' = (if k' = k then Some v else dget d k')"
  by (simp add: dset_def update_conv')

lemma dget_ddel [simp]: "dget (ddel k d) k' = (if k' = k then None else dget d k')"
  by (simp add: ddel_def delete_conv')

lemma dhas_dset [simp]: "dhas (dset k v d) k' \<longleftrightarrow> k' = k \<or> dhas d k'"
  by (simp add: dhas_def)

lemma dhas_ddel [simp]: "dhas (ddel k d) k' \<longleftrightarrow> k' \<noteq> k \<and> dhas d k'"
  by (simp add: dhas_def)

lemma dkeys_dset: "dkeys (dset k v d) = (if k \<in> set (dkeys d) then dkeys d else dkeys d @ [k])"
  unfolding dset_def by (induction d) auto

lemma dset_new: "\<not> dhas xs k \<Longrightarrow> dset k v xs = xs @ [(k, v)]"
  by (induction xs) (auto simp: dset_def dhas_def split: if_splits)

lemma dset_dset [simp]: "dset k v (dset k w d) = dset k v d"
  unfolding dset_def by (induction d) auto

lemma dset_same: "dget d k = Some x \<Longrightarrow> dset k x d = d"
  unfolding dset_def by (induction d) (auto split: if_splits)

lemma wf_dict_dset [intro]: "wf_dict d \<Longrightarrow> wf_dict (dset k v d)"
  by (auto simp: wf_dict_def dkeys_dset)

lemma wf_dict_ddel [intro]: "wf_dict d \<Longrightarrow> wf_dict (ddel k d)"
  by (simp add: wf_dict_def ddel_def distinct_delete)

lemma set_dset: "set (dset k v d) \<subseteq> insert (k, v) (set d)"
  unfolding dset_def by (induction d) auto

lemma set_ddel: "set (ddel k d) \<subseteq> set d"
  by (auto simp: ddel_def AList.delete_eq)

lemma dlookup_eq [simp]:
  "dlookup d k = Inr v \<longleftrightarrow> dget d k = Some v"
  "dlookup d k = Inl e \<longleftrightarrow> dget d k = None \<and> e = KeyError k"
  by (auto simp: dlookup_def split: option.splits)

lemma wf_val_PDict_dset:
  "wf_val (PDict d) \<Longrightarrow> wf_val v \<Longrightarrow> wf_val (PDict (dset k v d))"
  using set_dset[of k v d] wf_dict_dset[of d k v] by (auto simp: wf_dict_def)

lemma wf_val_PDict_ddel: "wf_val (PDict d) \<Longrightarrow> wf_val (PDict (ddel k d))"
  using set_ddel[of k d] wf_dict_ddel[of d k] by (auto simp: wf_dict_def)

lemma wf_val_dget: "wf_val (PDict d) \<Longrightarrow> dget d k = Some v \<Longrightarrow> wf_val v"
  by (auto dest!: map_of_SomeD)

text \<open>The contract of a dictionary, against partial maps; the association lists above meet it.\<close>

locale dict_spec =
  fixes empty :: "'d"
    and lookup :: "'d \<Rightarrow> 'k \<Rightarrow> 'v option"
    and update :: "'k \<Rightarrow> 'v \<Rightarrow> 'd \<Rightarrow> 'd"
    and remove :: "'k \<Rightarrow> 'd \<Rightarrow> 'd"
    and inv :: "'d \<Rightarrow> bool"
  assumes lookup_empty: "lookup empty k = None"
    and lookup_update: "inv d \<Longrightarrow> lookup (update k v d) = (lookup d)(k \<mapsto> v)"
    and lookup_remove: "inv d \<Longrightarrow> lookup (remove k d) = (lookup d)(k := None)"
    and inv_empty: "inv empty"
    and inv_update: "inv d \<Longrightarrow> inv (update k v d)"
    and inv_remove: "inv d \<Longrightarrow> inv (remove k d)"
begin

lemma lookup_fold_update:
  "inv d \<Longrightarrow> lookup (fold (\<lambda>(k, v). update k v) kvs d) = lookup d ++ map_of (rev kvs)
    \<and> inv (fold (\<lambda>(k, v). update k v) kvs d)"
  by (induction kvs arbitrary: d) (auto simp: lookup_update inv_update map_add_def fun_eq_iff
      split: option.splits)

lemma lookup_fold_remove:
  "inv d \<Longrightarrow> lookup (fold remove ks d) = (lookup d) |` (- set ks) \<and> inv (fold remove ks d)"
  by (induction ks arbitrary: d) (auto simp: lookup_remove inv_remove restrict_map_def fun_eq_iff)

end

interpretation pyd: dict_spec "[]" "map_of" "dset" "ddel" "wf_dict"
  by unfold_locales (auto simp: fun_eq_iff wf_dict_def intro: wf_dict_dset[unfolded wf_dict_def]
      wf_dict_ddel[unfolded wf_dict_def])


section \<open>Strings\<close>

text \<open>\<open>s.split(c)\<close>, \<open>sep.join(xs)\<close>, \<open>s.rsplit(c, 1)\<close> (\<open>None\<close> where the separator does not
  occur), \<open>s.replace(old, new)\<close> for a non-empty \<open>old\<close>, \<open>s.strip()\<close>, \<open>str(i)\<close>.\<close>

fun split_on :: "char \<Rightarrow> string \<Rightarrow> string list" where
  "split_on c [] = [[]]"
| "split_on c (x # xs) =
     (if x = c then [] # split_on c xs
      else (x # hd (split_on c xs)) # tl (split_on c xs))"

fun join_str :: "string \<Rightarrow> string list \<Rightarrow> string" where
  "join_str sep [] = []"
| "join_str sep [x] = x"
| "join_str sep (x # y # zs) = x @ sep @ join_str sep (y # zs)"

definition rsplit1 :: "char \<Rightarrow> string \<Rightarrow> (string \<times> string) option" where
  "rsplit1 c s =
     (if c \<in> set s
      then Some (rev (tl (dropWhile (\<lambda>x. x \<noteq> c) (rev s))), rev (takeWhile (\<lambda>x. x \<noteq> c) (rev s)))
      else None)"

function replace_str :: "string \<Rightarrow> string \<Rightarrow> string \<Rightarrow> string" where
  "replace_str old new [] = []"
| "replace_str old new (x # xs) =
     (if old \<noteq> [] \<and> prefix old (x # xs)
      then new @ replace_str old new (drop (length old) (x # xs))
      else x # replace_str old new xs)"
  by pat_completeness auto
termination
  by (relation "measure (\<lambda>(old, new, s). length s)") auto

lemma replace_char: "replace_str [c] new s = concat (map (\<lambda>x. if x = c then new else [x]) s)"
  by (induction s) auto

lemma replace_one: "x \<noteq> c \<Longrightarrow> replace_str [c] new [x] = [x]"
  by (simp add: replace_char)

lemma replace_append: "replace_str [c] new (xs @ ys) = replace_str [c] new xs @ replace_str [c] new ys"
  by (simp add: replace_char)

definition is_space :: "char \<Rightarrow> bool" where
  "is_space c = (c \<in> {CHR '' '', CHR 0x09, CHR 0x0A, CHR 0x0B, CHR 0x0C, CHR 0x0D})"

definition lstrip :: "string \<Rightarrow> string" where
  "lstrip s = dropWhile is_space s"

definition rstrip :: "string \<Rightarrow> string" where
  "rstrip s = rev (dropWhile is_space (rev s))"

definition strip :: "string \<Rightarrow> string" where
  "strip s = rstrip (lstrip s)"

definition rstrip_char :: "char \<Rightarrow> string \<Rightarrow> string" where
  "rstrip_char c s = rev (dropWhile (\<lambda>x. x = c) (rev s))"

definition digit_char :: "nat \<Rightarrow> char" where
  "digit_char n = char_of (48 + n)"

fun str_of_nat :: "nat \<Rightarrow> string" where
  "str_of_nat n = (if n < 10 then [digit_char n] else str_of_nat (n div 10) @ [digit_char (n mod 10)])"

declare str_of_nat.simps [simp del]

definition str_of_int :: "int \<Rightarrow> string" where
  "str_of_int i = (if i < 0 then ''-'' @ str_of_nat (nat (- i)) else str_of_nat (nat i))"

definition is_digit :: "char \<Rightarrow> bool" where
  "is_digit c = (CHR ''0'' \<le> c \<and> c \<le> CHR ''9'')"

definition is_alpha :: "char \<Rightarrow> bool" where
  "is_alpha c = (let n = (of_char c :: nat) in n \<in> {65..90} \<union> {97..122})"

text \<open>\<open>repr\<close> and \<open>str\<close> of a value (Python 2).\<close>

definition hex_char :: "nat \<Rightarrow> char" where
  "hex_char n = (if n < 10 then char_of (48 + n) else char_of (87 + n))"

definition repr_char :: "char \<Rightarrow> char \<Rightarrow> string" where
  "repr_char q c =
     (if c = q \<or> c = CHR 0x5C then [CHR 0x5C, c]
      else if c = CHR 0x09 then [CHR 0x5C, CHR ''t'']
      else if c = CHR 0x0A then [CHR 0x5C, CHR ''n'']
      else if c = CHR 0x0D then [CHR 0x5C, CHR ''r'']
      else if of_char c < (32::nat) \<or> (127::nat) \<le> of_char c
      then [CHR 0x5C, CHR ''x'', hex_char (of_char c div 16), hex_char (of_char c mod 16)]
      else [c])"

definition repr_str :: "string \<Rightarrow> string" where
  "repr_str s =
     (let q = (if CHR 0x27 \<in> set s \<and> CHR 0x22 \<notin> set s then CHR 0x22 else CHR 0x27)
      in [q] @ concat (map (repr_char q) s) @ [q])"

fun py_repr :: "pyval \<Rightarrow> string" where
  "py_repr (PStr s) = repr_str s"
| "py_repr (PInt i) = str_of_int i"
| "py_repr (PList l) = ''['' @ join_str '', '' (map py_repr l) @ '']''"
| "py_repr (PDict d) =
     ''{'' @ join_str '', '' (map (\<lambda>kv. repr_str (fst kv) @ '': '' @ py_repr (snd kv)) d) @ ''}''"
| "py_repr PNone = ''None''"

definition py_str :: "pyval \<Rightarrow> string" where
  "py_str v = (case v of PStr s \<Rightarrow> s | _ \<Rightarrow> py_repr v)"

lemma split_on_not_Nil [simp]: "split_on c s \<noteq> []"
  by (cases s) auto

lemma split_on_no_sep: "x \<in> set (split_on c s) \<Longrightarrow> c \<notin> set x"
proof (induction s arbitrary: x)
  case (Cons a s)
  have "hd (split_on c s) \<in> set (split_on c s)" by simp
  moreover have "set (tl (split_on c s)) \<subseteq> set (split_on c s)"
    by (rule list.set_sel(2)[THEN subsetI]) simp_all
  ultimately show ?case using Cons by (auto split: if_splits)
qed simp

lemma join_str_Cons: "join_str sep (x # xs) = (if xs = [] then x else x @ sep @ join_str sep xs)"
  by (cases xs) auto

lemma join_split [simp]: "join_str [c] (split_on c s) = s"
proof (induction s)
  case (Cons a s)
  then show ?case
    by (cases "split_on c s") (auto simp: join_str_Cons)
qed simp

lemma split_on_append_sep:
  "c \<notin> set x \<Longrightarrow> split_on c (x @ c # s) = x # split_on c s"
  by (induction x) auto

lemma split_on_no_occ: "c \<notin> set x \<Longrightarrow> split_on c x = [x]"
  by (induction x) auto

lemma split_join:
  "xs \<noteq> [] \<Longrightarrow> (\<And>x. x \<in> set xs \<Longrightarrow> c \<notin> set x) \<Longrightarrow> split_on c (join_str [c] xs) = xs"
proof (induction xs)
  case (Cons x xs)
  then show ?case
    by (cases xs) (simp_all add: split_on_no_occ split_on_append_sep)
qed simp

lemma join_str_append:
  "xs \<noteq> [] \<Longrightarrow> ys \<noteq> [] \<Longrightarrow> join_str sep (xs @ ys) = join_str sep xs @ sep @ join_str sep ys"
  by (induction xs) (auto simp: join_str_Cons)

lemma rsplit1_eq:
  "c \<notin> set t \<Longrightarrow> rsplit1 c (h @ c # t) = Some (h, t)"
  by (simp add: rsplit1_def takeWhile_append dropWhile_append)

lemma rsplit1_None: "rsplit1 c s = None \<longleftrightarrow> c \<notin> set s"
  by (simp add: rsplit1_def)

lemma rsplit1_Some: "rsplit1 c s = Some (h, t) \<longleftrightarrow> s = h @ c # t \<and> c \<notin> set t"
proof
  assume "rsplit1 c s = Some (h, t)"
  moreover from this have "c \<in> set s" by (auto simp: rsplit1_def split: if_splits)
  then obtain h' t' where "s = h' @ c # t'" "c \<notin> set t'"
    by (meson split_list_last)
  ultimately show "s = h @ c # t \<and> c \<notin> set t" by (simp add: rsplit1_eq)
qed (simp add: rsplit1_eq)

section \<open>Operations on values that raise\<close>

text \<open>A method that only dictionaries (lists) have; \<open>v.get(k, dflt)\<close>; iteration; \<open>v[k]\<close>;
  \<open>k in v\<close> for a string \<open>k\<close>.\<close>

definition attribute_error :: "pyval \<Rightarrow> string \<Rightarrow> py_error" where
  "attribute_error v m = AttributeError (class_name v @ '' object has no attribute '' @ m)"

definition as_dict :: "string \<Rightarrow> pyval \<Rightarrow> pydict res" where
  "as_dict m v = (case v of PDict d \<Rightarrow> Inr d | _ \<Rightarrow> Inl (attribute_error v m))"

definition as_list :: "string \<Rightarrow> pyval \<Rightarrow> pyval list res" where
  "as_list m v = (case v of PList l \<Rightarrow> Inr l | _ \<Rightarrow> Inl (attribute_error v m))"

definition as_str :: "string \<Rightarrow> pyval \<Rightarrow> string res" where
  "as_str m v = (case v of PStr s \<Rightarrow> Inr s | _ \<Rightarrow> Inl (attribute_error v m))"

definition py_get :: "pyval \<Rightarrow> string \<Rightarrow> pyval \<Rightarrow> pyval res" where
  "py_get v k dflt = rbind (as_dict ''get'' v) (\<lambda>d. Inr (dget_default d k dflt))"

definition py_iter :: "pyval \<Rightarrow> pyval list res" where
  "py_iter v =
     (case v of
        PList l \<Rightarrow> Inr l
      | PDict d \<Rightarrow> Inr (map (\<lambda>kv. PStr (fst kv)) d)
      | PStr s \<Rightarrow> Inr (map (\<lambda>c. PStr [c]) s)
      | _ \<Rightarrow> Inl (TypeError (class_name v @ '' object is not iterable'')))"

definition list_index :: "'a list \<Rightarrow> int \<Rightarrow> 'a res" where
  "list_index l i =
     (if 0 \<le> i \<and> i < int (length l) then Inr (l ! nat i)
      else if i < 0 \<and> - i \<le> int (length l) then Inr (l ! nat (int (length l) + i))
      else Inl IndexError)"

definition py_getitem :: "pyval \<Rightarrow> pyval \<Rightarrow> pyval res" where
  "py_getitem v k =
     (case v of
        PDict d \<Rightarrow>
          (case k of
             PStr s \<Rightarrow> dlookup d s
           | PList l \<Rightarrow> Inl (TypeError ''unhashable type: list'')
           | PDict e \<Rightarrow> Inl (TypeError ''unhashable type: dict'')
           | _ \<Rightarrow> Inl (KeyError (py_repr k)))
      | PList l \<Rightarrow>
          (case k of
             PInt i \<Rightarrow> list_index l i
           | _ \<Rightarrow> Inl (TypeError ''list indices must be integers''))
      | PStr s \<Rightarrow>
          (case k of
             PInt i \<Rightarrow> rbind (list_index s i) (\<lambda>c. Inr (PStr [c]))
           | _ \<Rightarrow> Inl (TypeError ''string indices must be integers''))
      | _ \<Rightarrow> Inl (TypeError (class_name v @ '' object is not subscriptable'')))"

definition py_contains :: "pyval \<Rightarrow> string \<Rightarrow> bool res" where
  "py_contains v k =
     (case v of
        PDict d \<Rightarrow> Inr (dhas d k)
      | PList l \<Rightarrow> Inr (PStr k \<in> set l)
      | PStr s \<Rightarrow> Inr (sublist k s)
      | _ \<Rightarrow> Inl (TypeError (class_name v @ '' is not iterable'')))"

lemma as_dict_eq [simp]:
  "as_dict m v = Inr d \<longleftrightarrow> v = PDict d"
  "as_dict m (PDict d) = Inr d"
  by (auto simp: as_dict_def split: pyval.splits)

lemma as_list_eq [simp]:
  "as_list m v = Inr l \<longleftrightarrow> v = PList l"
  "as_list m (PList l) = Inr l"
  by (auto simp: as_list_def split: pyval.splits)

lemma as_str_eq [simp]:
  "as_str m v = Inr s \<longleftrightarrow> v = PStr s"
  "as_str m (PStr s) = Inr s"
  by (auto simp: as_str_def split: pyval.splits)

lemma py_get_eq [simp]:
  "py_get v k dflt = Inr x \<longleftrightarrow> (\<exists>d. v = PDict d \<and> x = dget_default d k dflt)"
  by (auto simp: py_get_def)

lemma py_getitem_dict [simp]:
  "py_getitem (PDict d) (PStr k) = dlookup d k"
  by (simp add: py_getitem_def)

lemma py_getitem_PDict_Inr:
  "py_getitem (PDict d) k = Inr v \<longleftrightarrow> (\<exists>s. k = PStr s \<and> dget d s = Some v)"
  by (cases k) (auto simp: py_getitem_def)

lemma py_iter_PList [simp]: "py_iter (PList l) = Inr l"
  by (simp add: py_iter_def)

lemma py_contains_PDict [simp]: "py_contains (PDict d) k = Inr (dhas d k)"
  by (simp add: py_contains_def)

lemma dget_default_eq: "dget_default d k v = (if dhas d k then the (dget d k) else v)"
  by (auto simp: dget_default_def dhas_def)

text \<open>\<open>int(v)\<close>.\<close>

definition int_of_digits :: "string \<Rightarrow> int" where
  "int_of_digits s = fold (\<lambda>c n. 10 * n + int (of_char c) - 48) s 0"

definition split_sign :: "string \<Rightarrow> bool \<times> string" where
  "split_sign s =
     (if s \<noteq> [] \<and> hd s = CHR ''-'' then (True, tl s)
      else if s \<noteq> [] \<and> hd s = CHR ''+'' then (False, tl s)
      else (False, s))"

definition py_int :: "pyval \<Rightarrow> int res" where
  "py_int v =
     (case v of
        PInt i \<Rightarrow> Inr i
      | PStr s \<Rightarrow>
          (let (neg, ds) = split_sign (strip s)
           in if ds \<noteq> [] \<and> (\<forall>c \<in> set ds. is_digit c)
              then Inr (if neg then - int_of_digits ds else int_of_digits ds)
              else Inl (ValueError (''invalid literal for int() with base 10: '' @ repr_str s)))
      | _ \<Rightarrow> Inl (TypeError (''int() argument must be a string or a number, not '' @ class_name v)))"

text \<open>\<open>int(v, base)\<close> takes strings only; base 16 allows a prefix.\<close>

definition digit_value :: "char \<Rightarrow> nat option" where
  "digit_value c =
     (let n = of_char c :: nat
      in if 48 \<le> n \<and> n \<le> 57 then Some (n - 48)
         else if 97 \<le> n \<and> n \<le> 122 then Some (n - 87)
         else if 65 \<le> n \<and> n \<le> 90 then Some (n - 55)
         else None)"

definition base_digits :: "nat \<Rightarrow> string \<Rightarrow> bool" where
  "base_digits b ds = (ds \<noteq> [] \<and> (\<forall>c \<in> set ds. case digit_value c of Some d \<Rightarrow> d < b | None \<Rightarrow> False))"

definition py_int_base :: "nat \<Rightarrow> pyval \<Rightarrow> int res" where
  "py_int_base b v =
     (case v of
        PStr s \<Rightarrow>
          (let (neg, u) = split_sign (strip s);
               ds = (if b = 16 \<and> (prefix ''0x'' u \<or> prefix ''0X'' u) then drop 2 u else u)
           in if base_digits b ds
              then Inr ((if neg then -1 else 1)
                     * int (fold (\<lambda>c n. b * n + the (digit_value c)) ds 0))
              else Inl (ValueError (''invalid literal for int() with base '' @ str_of_nat b @ '': '' @ repr_str s)))
      | _ \<Rightarrow> Inl (TypeError (''int() can'' @ [CHR 0x27] @ ''t convert non-string with explicit base'')))"

lemma strip_id: "\<forall>c \<in> set s. \<not> is_space c \<Longrightarrow> strip s = s"
proof -
  assume a: "\<forall>c \<in> set s. \<not> is_space c"
  then have "lstrip s = s" by (cases s) (auto simp: lstrip_def)
  moreover have "\<forall>c \<in> set (rev s). \<not> is_space c" using a by simp
  then have "dropWhile is_space (rev s) = rev s" by (cases "rev s") auto
  then have "rstrip s = s" by (simp add: rstrip_def)
  ultimately show ?thesis by (simp add: strip_def)
qed

definition digits_of :: "nat \<Rightarrow> string \<Rightarrow> bool" where
  "digits_of b s \<longleftrightarrow> base_digits b s \<and> (\<forall>c \<in> set s. (48::nat) \<le> of_char c)"

lemma digit_not_special:
  assumes "(48::nat) \<le> of_char c"
  shows "\<not> is_space c" "c \<noteq> CHR ''-''" "c \<noteq> CHR ''+''"
  using assms by (auto simp: is_space_def)

lemma digits_of_digit_char: "n < 10 \<Longrightarrow> digits_of 10 [digit_char n]"
proof -
  assume n: "n < 10"
  have c: "(of_char (digit_char n) :: nat) = 48 + n" using n by (simp add: digit_char_def)
  then have "digit_value (digit_char n) = Some n" using n by (simp add: digit_value_def)
  then show ?thesis using n c by (simp add: digits_of_def base_digits_def)
qed

lemma digits_of_append: "digits_of b s \<Longrightarrow> digits_of b t \<Longrightarrow> digits_of b (s @ t)"
  by (auto simp: digits_of_def base_digits_def)

lemma digits_of_str_of_nat: "digits_of 10 (str_of_nat n)"
proof (induction n rule: str_of_nat.induct)
  case (1 n)
  then show ?case
    by (cases "n < 10") (simp_all add: str_of_nat.simps[of n] digits_of_digit_char digits_of_append)
qed

lemma split_sign_digits:
  assumes "digits_of b s"
  shows "split_sign (strip s) = (False, s)" "split_sign (strip (CHR ''-'' # s)) = (True, s)"
proof -
  have sp: "\<forall>c \<in> set s. \<not> is_space c" using assms digit_not_special(1) by (auto simp: digits_of_def)
  moreover have "\<not> is_space CHR ''-''" by (simp add: is_space_def)
  ultimately have strip: "strip s = s" "strip (CHR ''-'' # s) = CHR ''-'' # s"
    by (auto intro!: strip_id)
  have "hd s \<in> set s" using assms by (simp add: digits_of_def base_digits_def)
  then have "(48::nat) \<le> of_char (hd s)" using assms by (simp add: digits_of_def)
  from digit_not_special(2,3)[OF this]
  show "split_sign (strip s) = (False, s)" "split_sign (strip (CHR ''-'' # s)) = (True, s)"
    by (simp_all add: strip split_sign_def)
qed

lemma is_digit_digit_char: "n < 10 \<Longrightarrow> is_digit (digit_char n)"
  by (simp add: is_digit_def digit_char_def less_eq_char_def)

lemma str_of_nat_digits: "str_of_nat n \<noteq> [] \<and> (\<forall>c \<in> set (str_of_nat n). is_digit c)"
proof (induction n rule: str_of_nat.induct)
  case (1 n)
  then show ?case by (cases "n < 10") (auto simp: str_of_nat.simps[of n] is_digit_digit_char)
qed

lemma int_of_digits_snoc: "int_of_digits (s @ [c]) = 10 * int_of_digits s + int (of_char c) - 48"
  by (simp add: int_of_digits_def)

lemma int_of_digits_str_of_nat: "int_of_digits (str_of_nat n) = int n"
proof (induction n rule: str_of_nat.induct)
  case (1 n)
  have c: "int (of_char (digit_char k)) = 48 + int k" if "k < 10" for k
    using that by (simp add: digit_char_def)
  show ?case
  proof (cases "n < 10")
    case True
    then show ?thesis using int_of_digits_snoc[of "[]"] c[OF True]
      by (simp add: str_of_nat.simps[of n] int_of_digits_def)
  next
    case False
    have "int (n div 10) * 10 + int (n mod 10) = int n" by (metis div_mult_mod_eq of_nat_add of_nat_mult of_nat_numeral)
    with 1[OF False] False c[of "n mod 10"] show ?thesis
      by (simp add: str_of_nat.simps[of n] int_of_digits_snoc)
  qed
qed

text \<open>\<open>int(str(n))\<close> is \<open>n\<close>.\<close>

lemma py_int_str_of_int [simp]: "py_int (PStr (str_of_int n)) = Inr n"
proof -
  note d = digits_of_str_of_nat
  show ?thesis
  proof (cases "n < 0")
    case True
    then show ?thesis using split_sign_digits(2)[OF d[of "nat (- n)"]] str_of_nat_digits[of "nat (- n)"]
      by (simp add: py_int_def str_of_int_def int_of_digits_str_of_nat)
  next
    case False
    then show ?thesis using split_sign_digits(1)[OF d[of "nat n"]] str_of_nat_digits[of "nat n"]
      by (simp add: py_int_def str_of_int_def int_of_digits_str_of_nat)
  qed
qed

section \<open>Computations that may not return\<close>

text \<open>A loop of the source without an evident bound is a partial function; \<open>None\<close> is the run that
  never ends.\<close>

type_synonym 'a comp = "'a res option"

definition obind :: "'a comp \<Rightarrow> ('a \<Rightarrow> 'b comp) \<Rightarrow> 'b comp" where
  "obind m f =
     (case m of None \<Rightarrow> None | Some (Inl e) \<Rightarrow> Some (Inl e) | Some (Inr x) \<Rightarrow> f x)"

fun ofold :: "('a \<Rightarrow> 's \<Rightarrow> 's comp) \<Rightarrow> 'a list \<Rightarrow> 's \<Rightarrow> 's comp" where
  "ofold f [] s = Some (Inr s)"
| "ofold f (x # xs) s = obind (f x s) (ofold f xs)"

lemma obind_simps [simp]:
  "obind None f = None"
  "obind (Some (Inl e)) f = Some (Inl e)"
  "obind (Some (Inr x)) f = f x"
  by (simp_all add: obind_def)

lemma obind_Some_Inr [simp]:
  "obind m f = Some (Inr y) \<longleftrightarrow> (\<exists>x. m = Some (Inr x) \<and> f x = Some (Inr y))"
  by (auto simp: obind_def split: option.splits sum.splits)

lemma obind_returns: "m \<noteq> None \<Longrightarrow> (\<And>x. m = Some (Inr x) \<Longrightarrow> f x \<noteq> None) \<Longrightarrow> obind m f \<noteq> None"
  by (auto simp: obind_def split: option.splits sum.splits)

lemma obind_cong [fundef_cong]:
  "m = m' \<Longrightarrow> (\<And>x. m' = Some (Inr x) \<Longrightarrow> f x = f' x) \<Longrightarrow> obind m f = obind m' f'"
  by (auto simp: obind_def split: option.splits sum.splits)

lemma obind_mono [partial_function_mono]:
  assumes "mono_option B" "\<And>y. mono_option (\<lambda>f. C y f)"
  shows "mono_option (\<lambda>f. obind (B f) (\<lambda>y. C y f))"
proof -
  have *: "obind m f = Option.bind m (\<lambda>r. case r of Inl e \<Rightarrow> Some (Inl e) | Inr x \<Rightarrow> f x)" for m f
    by (auto simp: obind_def split: option.splits sum.splits)
  have "mono_option (\<lambda>f. case r of Inl e \<Rightarrow> Some (Inl e) | Inr x \<Rightarrow> C x f)" for r
    using assms(2) by (cases r) (auto intro: option.const_mono)
  with assms(1) show ?thesis unfolding * by (intro partial_function_mono)
qed

lemma ofold_invariant:
  assumes "ofold f xs s = Some (Inr t)" "P s"
    and "\<And>x u v. x \<in> set xs \<Longrightarrow> P u \<Longrightarrow> f x u = Some (Inr v) \<Longrightarrow> P v"
  shows "P t"
  using assms
proof (induction xs arbitrary: s)
  case (Cons x xs)
  from Cons.prems(1) obtain u where u: "f x s = Some (Inr u)" "ofold f xs u = Some (Inr t)" by auto
  have "P u" by (rule Cons.prems(3)[of x s u]) (use Cons.prems(2) u(1) in simp_all)
  from u(2) this show ?case by (rule Cons.IH) (rule Cons.prems(3), auto)
qed simp

lemma ofold_append: "ofold f (xs @ ys) s = obind (ofold f xs s) (ofold f ys)"
  by (induction xs arbitrary: s) (simp_all add: obind_def split: option.split sum.split)

lemma ofold_returns:
  assumes "P s"
    and "\<And>x u. x \<in> set xs \<Longrightarrow> P u \<Longrightarrow> f x u \<noteq> None \<and> (\<forall>v. f x u = Some (Inr v) \<longrightarrow> P v)"
  shows "ofold f xs s \<noteq> None"
  using assms
proof (induction xs arbitrary: s)
  case (Cons x xs)
  have step: "f x s \<noteq> None" "\<And>v. f x s = Some (Inr v) \<Longrightarrow> P v" using Cons.prems(2)[of x s] Cons.prems(1) by auto
  show ?case unfolding ofold.simps
  proof (rule obind_returns[OF step(1)])
    fix v assume "f x s = Some (Inr v)"
    then have "P v" by (rule step(2))
    then show "ofold f xs v \<noteq> None" by (rule Cons.IH) (rule Cons.prems(2), auto)
  qed
qed simp

end
