(* ===== verification/Os_Path.thy ===== *)
theory Os_Path
  imports Py_Prelude
begin

text \<open>
  The functions of \<open>os.path\<close> that the sources call, on a POSIX system (\<open>posixpath\<close> of the
  Python 2 standard library).  \<open>os.path.realpath\<close> reads the file system; it stays a parameter
  \<open>realpath\<close> of every function that needs it, and \<open>abs_normal\<close> says what the code relies on:
  its result is an absolute path without empty, \<open>.\<close> or \<open>..\<close> components.
\<close>

section \<open>Definitions\<close>

abbreviation sep :: char where "sep \<equiv> CHR ''/''"

definition isabs :: "string \<Rightarrow> bool" where
  "isabs p = prefix ''/'' p"

fun path_join :: "string \<Rightarrow> string list \<Rightarrow> string" where
  "path_join p [] = p"
| "path_join p (b # bs) =
     path_join (if prefix ''/'' b then b
                else if p = [] \<or> suffix ''/'' p then p @ b
                else p @ ''/'' @ b) bs"

definition strip_head :: "string \<Rightarrow> string" where
  "strip_head h = (if h \<noteq> [] \<and> (\<exists>c \<in> set h. c \<noteq> sep) then rstrip_char sep h else h)"

definition path_split :: "string \<Rightarrow> string \<times> string" where
  "path_split p =
     (case rsplit1 sep p of
        None \<Rightarrow> ([], p)
      | Some (h, t) \<Rightarrow> (strip_head (h @ [sep]), t))"

definition dirname :: "string \<Rightarrow> string" where
  "dirname p = fst (path_split p)"

definition basename :: "string \<Rightarrow> string" where
  "basename p = snd (path_split p)"

text \<open>\<open>splitext\<close>: the extension starts at the last dot of the last component, unless only dots
  stand before it there.\<close>

definition splitext :: "string \<Rightarrow> string \<times> string" where
  "splitext p =
     (let tail = rev (takeWhile (\<lambda>x. x \<noteq> sep) (rev p));
          head = take (length p - length tail) p
      in case rsplit1 CHR ''.'' tail of
           None \<Rightarrow> (p, [])
         | Some (r, e) \<Rightarrow>
             if \<forall>c \<in> set r. c = CHR ''.'' then (p, [])
             else (head @ r, CHR ''.'' # e))"

text \<open>\<open>normpath\<close>: the loop over the components, then the initial slashes.\<close>

definition initial_slashes :: "string \<Rightarrow> nat" where
  "initial_slashes p =
     (if prefix ''/'' p then
        (if prefix ''//'' p \<and> \<not> prefix ''///'' p then 2 else 1)
      else 0)"

fun norm_comps :: "bool \<Rightarrow> string list \<Rightarrow> string list \<Rightarrow> string list" where
  "norm_comps ab acc [] = acc"
| "norm_comps ab acc (c # cs) =
     (if c = [] \<or> c = ''.'' then norm_comps ab acc cs
      else if c \<noteq> ''..'' \<or> (\<not> ab \<and> acc = []) \<or> (acc \<noteq> [] \<and> last acc = ''..'')
      then norm_comps ab (acc @ [c]) cs
      else if acc \<noteq> [] then norm_comps ab (butlast acc) cs
      else norm_comps ab acc cs)"

definition normpath :: "string \<Rightarrow> string" where
  "normpath p =
     (if p = [] then ''.''
      else let n = initial_slashes p;
               path = replicate n sep
                      @ join_str ''/'' (norm_comps (n > 0) [] (split_on sep p))
           in if path = [] then ''.'' else path)"

text \<open>An absolute path in normal form, as a list of components.\<close>

definition good_comp :: "string \<Rightarrow> bool" where
  "good_comp c = (c \<noteq> [] \<and> c \<noteq> ''.'' \<and> c \<noteq> ''..'' \<and> sep \<notin> set c)"

definition abs_path :: "string list \<Rightarrow> string" where
  "abs_path cs = ''/'' @ join_str ''/'' cs"

definition abs_normal :: "string \<Rightarrow> bool" where
  "abs_normal p = (\<exists>cs. (\<forall>c \<in> set cs. good_comp c) \<and> p = abs_path cs)"

section \<open>Joining\<close>

lemma path_join_append: "path_join p (xs @ ys) = path_join (path_join p xs) ys"
  by (induction xs arbitrary: p) simp_all

text \<open>Joining components without separators is joining with the separator character.\<close>

lemma path_join_eq_join_str:
  assumes "p \<noteq> []" "\<not> suffix ''/'' p"
    and "\<And>b. b \<in> set bs \<Longrightarrow> b \<noteq> [] \<and> sep \<notin> set b"
  shows "path_join p bs = join_str ''/'' (p # bs)"
  using assms
proof (induction bs arbitrary: p)
  case (Cons b bs)
  have b: "b \<noteq> []" "sep \<notin> set b" using Cons.prems(3)[of b] by simp_all
  then have nb: "\<not> prefix ''/'' b" "\<not> suffix ''/'' b"
    by (auto simp: prefix_def suffix_def)
  have ns: "\<not> suffix ''/'' (p @ ''/'' @ b)"
    using b by (auto simp: suffix_def append_eq_append_conv2 append_eq_Cons_conv Cons_eq_append_conv)
  have "path_join (p @ ''/'' @ b) bs = join_str ''/'' ((p @ ''/'' @ b) # bs)"
    by (rule Cons.IH) (use Cons.prems ns in auto)
  then show ?case using Cons.prems(1,2) nb(1) by (simp add: join_str_Cons)
qed simp

lemma path_join_eq_join_str_last:
  assumes "p \<noteq> []" "\<not> suffix ''/'' p"
    and "\<And>b. b \<in> set bs \<Longrightarrow> b \<noteq> [] \<and> sep \<notin> set b" "sep \<notin> set l"
  shows "path_join p (bs @ [l]) = join_str ''/'' (p # bs @ [l])"
proof -
  have j: "path_join p bs = join_str ''/'' (p # bs)"
    by (rule path_join_eq_join_str) (use assms in auto)
  have ne: "join_str ''/'' (p # bs) \<noteq> []" using assms(1) by (simp add: join_str_Cons)
  have ns: "\<not> suffix ''/'' (join_str ''/'' (p # bs))"
  proof (cases "bs = []")
    case False
    then obtain as b where bs: "bs = as @ [b]" by (metis rev_exhaust)
    then have b: "b \<noteq> []" "sep \<notin> set b" using assms(3)[of b] by simp_all
    have "join_str ''/'' (p # bs) = (join_str ''/'' (p # as) @ ''/'') @ b"
      using join_str_append[of "p # as" "[b]" "''/''"] bs by simp
    then have "last (join_str ''/'' (p # bs)) = last b" using b by simp
    then show ?thesis using b by (metis last_in_set last_snoc suffix_def)
  qed (use assms in simp)
  have nl: "\<not> prefix ''/'' l" using assms(4) by (auto simp: prefix_def)
  show ?thesis unfolding path_join_append j using ne ns nl join_str_append[of "p # bs" "[l]" "''/''"]
    by simp
qed

lemma path_join_isabs: "isabs b \<Longrightarrow> path_join p [b] = b"
  by (simp add: isabs_def)

section \<open>Normalisation\<close>

text \<open>What the component loop produces: good components, after a block of \<open>..\<close> that is only
  there for relative paths.\<close>

definition normal_comps :: "bool \<Rightarrow> string list \<Rightarrow> bool" where
  "normal_comps ab cs =
     (\<exists>n gs. cs = replicate n ''..'' @ gs \<and> (ab \<longrightarrow> n = 0) \<and> (\<forall>g \<in> set gs. good_comp g))"

lemma normal_comps_Nil [simp]: "normal_comps ab []"
  by (simp add: normal_comps_def)

lemma normal_comps_snoc:
  assumes "normal_comps ab acc" "good_comp c"
  shows "normal_comps ab (acc @ [c])"
proof -
  from assms(1) obtain n gs where
    "acc = replicate n ''..'' @ gs" "ab \<longrightarrow> n = 0" "\<forall>g \<in> set gs. good_comp g"
    by (auto simp: normal_comps_def)
  with assms(2) have "acc @ [c] = replicate n ''..'' @ (gs @ [c])"
    "\<forall>g \<in> set (gs @ [c]). good_comp g" by auto
  with \<open>ab \<longrightarrow> n = 0\<close> show ?thesis unfolding normal_comps_def by blast
qed

lemma normal_comps_dots:
  assumes "normal_comps ab acc" "\<not> ab" "acc = [] \<or> last acc = ''..''"
  shows "normal_comps ab (acc @ [''..''])"
proof -
  from assms(1) obtain n gs where acc: "acc = replicate n ''..'' @ gs"
    and g: "\<forall>g \<in> set gs. good_comp g" by (auto simp: normal_comps_def)
  have "gs = []"
  proof (rule ccontr)
    assume "gs \<noteq> []"
    then have "last acc \<in> set gs" "acc \<noteq> []" by (auto simp: acc)
    with g have "good_comp (last acc)" by blast
    with assms(3) \<open>acc \<noteq> []\<close> show False by (simp add: good_comp_def)
  qed
  with acc have "acc @ [''..''] = replicate (Suc n) ''..'' @ []"
    by (simp add: replicate_append_same)
  with assms(2) show ?thesis unfolding normal_comps_def by (metis empty_iff empty_set)
qed

lemma normal_comps_butlast: "normal_comps ab acc \<Longrightarrow> normal_comps ab (butlast acc)"
proof -
  assume "normal_comps ab acc"
  then obtain n gs where acc: "acc = replicate n ''..'' @ gs" "ab \<longrightarrow> n = 0"
    and g: "\<forall>g \<in> set gs. good_comp g" by (auto simp: normal_comps_def)
  show ?thesis
  proof (cases "gs = []")
    case True
    with acc have "butlast acc = replicate (n - 1) ''..'' @ []"
      by (cases n) (simp_all add: replicate_append_same[symmetric])
    with acc(2) show ?thesis unfolding normal_comps_def by fastforce
  next
    case False
    with acc have "butlast acc = replicate n ''..'' @ butlast gs" by (simp add: butlast_append)
    moreover have "\<forall>g \<in> set (butlast gs). good_comp g" using g by (meson in_set_butlastD)
    ultimately show ?thesis using acc(2) unfolding normal_comps_def by blast
  qed
qed

lemma normal_comps_abs_last:
  "normal_comps True acc \<Longrightarrow> acc \<noteq> [] \<Longrightarrow> last acc \<noteq> ''..''"
  by (auto simp: normal_comps_def good_comp_def)

lemma norm_comps_normal:
  assumes "normal_comps ab acc" "\<And>c. c \<in> set cs \<Longrightarrow> sep \<notin> set c"
  shows "normal_comps ab (norm_comps ab acc cs)"
  using assms
proof (induction ab acc cs rule: norm_comps.induct)
  case (2 ab acc c cs)
  have sepc: "sep \<notin> set c" "\<And>c. c \<in> set cs \<Longrightarrow> sep \<notin> set c" using "2.prems"(2) by simp_all
  consider (skip) "c = [] \<or> c = ''.''"
    | (good) "good_comp c"
    | (push) "c = ''..''" "\<not> ab" "acc = [] \<or> last acc = ''..''"
    | (pop) "c = ''..''" "acc \<noteq> []" "last acc \<noteq> ''..''"
    | (root) "c = ''..''" "ab" "acc = []"
    using "2.prems"(1) sepc(1) normal_comps_abs_last[of acc] by (cases ab) (auto simp: good_comp_def)
  then show ?case
  proof cases
    case skip
    then show ?thesis using "2.IH"(1) "2.prems"(1) sepc(2) by simp
  next
    case good
    then show ?thesis
      using "2.IH"(2) "2.prems"(1) sepc(2) by (simp add: normal_comps_snoc good_comp_def)
  next
    case push
    then show ?thesis
      using "2.IH"(2) "2.prems"(1) sepc(2) by (auto simp: normal_comps_dots)
  next
    case pop
    then show ?thesis
      using "2.IH"(3) "2.prems"(1) sepc(2) by (simp add: normal_comps_butlast)
  next
    case root
    then show ?thesis using "2.IH"(4) "2.prems"(1) sepc(2) by simp
  qed
qed simp

lemma norm_comps_good:
  "(\<And>g. g \<in> set gs \<Longrightarrow> good_comp g) \<Longrightarrow> norm_comps ab acc (gs @ cs) = norm_comps ab (acc @ gs) cs"
  by (induction gs arbitrary: acc) (auto simp: good_comp_def)

lemma norm_comps_replicate:
  "norm_comps False (replicate m ''..'') (replicate n ''..'' @ cs)
    = norm_comps False (replicate (m + n) ''..'') cs"
proof (induction n arbitrary: m)
  case (Suc n)
  have "norm_comps False (replicate m ''..'') (replicate (Suc n) ''..'' @ cs)
      = norm_comps False (replicate m ''..'' @ [''..'']) (replicate n ''..'' @ cs)"
    by (cases m) simp_all
  also have "replicate m ''..'' @ [''..''] = replicate (Suc m) ''..''"
    by (simp add: replicate_append_same)
  finally show ?case using Suc.IH[of "Suc m"] by simp
qed simp

text \<open>A list in normal form is a fixed point of the loop.\<close>

lemma norm_comps_fixed: "normal_comps ab cs \<Longrightarrow> norm_comps ab [] cs = cs"
proof -
  assume "normal_comps ab cs"
  then obtain n gs where cs: "cs = replicate n ''..'' @ gs" "ab \<longrightarrow> n = 0"
    and g: "\<forall>g \<in> set gs. good_comp g" by (auto simp: normal_comps_def)
  have tail: "norm_comps ab acc gs = acc @ gs" for acc
    using norm_comps_good[of gs ab acc "[]"] g by simp
  show ?thesis
  proof (cases ab)
    case True
    with cs tail show ?thesis by simp
  next
    case False
    then show ?thesis using norm_comps_replicate[of 0 n gs] tail cs by simp
  qed
qed

text \<open>Climbing out of good components and descending again.\<close>

lemma norm_comps_pop:
  assumes "\<And>g. g \<in> set gs \<Longrightarrow> good_comp g" "n \<le> length gs"
  shows "norm_comps ab gs (replicate n ''..'' @ cs) = norm_comps ab (take (length gs - n) gs) cs"
  using assms
proof (induction n arbitrary: gs)
  case (Suc n)
  then have ne: "gs \<noteq> []" by auto
  with Suc.prems(1) have "last gs \<noteq> ''..''" by (metis good_comp_def last_in_set)
  with ne have "norm_comps ab gs (replicate (Suc n) ''..'' @ cs)
      = norm_comps ab (butlast gs) (replicate n ''..'' @ cs)" by simp
  also have "\<dots> = norm_comps ab (take (length (butlast gs) - n) (butlast gs)) cs"
    by (rule Suc.IH) (use Suc.prems in \<open>auto dest: in_set_butlastD\<close>)
  also have "take (length (butlast gs) - n) (butlast gs) = take (length gs - Suc n) gs"
    by (simp add: butlast_conv_take)
  finally show ?case .
qed simp


section \<open>Absolute paths in normal form\<close>

lemma good_comp_props: "good_comp c \<Longrightarrow> c \<noteq> [] \<and> sep \<notin> set c \<and> c \<noteq> ''.'' \<and> c \<noteq> ''..''"
  by (simp add: good_comp_def)

definition abs_split :: "string list \<Rightarrow> string list" where
  "abs_split cs = [] # (if cs = [] then [[]] else cs)"

lemma split_abs_path:
  assumes "\<forall>c \<in> set cs. good_comp c"
  shows "split_on sep (abs_path cs) = abs_split cs"
proof (cases "cs = []")
  case False
  then have "split_on sep (join_str ''/'' cs) = cs"
    by (rule split_join) (use assms good_comp_props in blast)
  with False show ?thesis by (simp add: abs_path_def abs_split_def)
qed (simp add: abs_path_def abs_split_def)

lemma suffix_abs_path:
  assumes "\<forall>c \<in> set cs. good_comp c"
  shows "suffix ''/'' (abs_path cs) \<longleftrightarrow> cs = []"
proof (cases "cs = []")
  case False
  then obtain as b where cs: "cs = as @ [b]" by (metis rev_exhaust)
  then have b: "b \<noteq> []" "sep \<notin> set b" using assms good_comp_props by auto
  have "\<exists>xs. abs_path cs = xs @ b"
  proof (cases "as = []")
    case False
    then show ?thesis unfolding abs_path_def cs
      by (simp add: join_str_append)
  qed (use cs in \<open>auto simp: abs_path_def\<close>)
  then have "last (abs_path cs) = last b" using b by auto
  with b show ?thesis using False by (metis last_in_set last_snoc suffix_def)
qed (simp add: abs_path_def)

text \<open>Normalising an absolute path joined with a relative one works on the components.\<close>

lemma normpath_abs_path_join:
  assumes "\<forall>c \<in> set rs. good_comp c" "\<not> prefix ''/'' q"
  shows "normpath (path_join (abs_path rs) [q]) = abs_path (norm_comps True rs (split_on sep q))"
proof -
  define p where "p = path_join (abs_path rs) [q]"
  have p: "p = (if rs = [] then ''/'' @ q else abs_path rs @ ''/'' @ q)"
    using assms suffix_abs_path[OF assms(1)]
    by (auto simp: p_def abs_path_def)
  have hd_rs: "rs \<noteq> [] \<Longrightarrow> hd rs \<noteq> [] \<and> hd (hd rs) \<noteq> sep"
    using assms(1) good_comp_props by (metis hd_in_set)
  have n: "initial_slashes p = 1"
  proof (cases rs)
    case Nil
    then show ?thesis using assms(2) p by (auto simp: initial_slashes_def prefix_def)
  next
    case (Cons r rs')
    then obtain x xs where "r = x # xs" "x \<noteq> sep" using hd_rs by (cases r) auto
    then show ?thesis using Cons p
      by (auto simp: initial_slashes_def abs_path_def join_str_Cons prefix_def)
  qed
  have "norm_comps True [] (split_on sep p) = norm_comps True rs (split_on sep q)"
  proof (cases "rs = []")
    case True
    with p show ?thesis by simp
  next
    case False
    have nosep: "\<And>c. c \<in> set rs \<Longrightarrow> sep \<notin> set c" using assms(1) good_comp_props by blast
    have "split_on sep p = [] # split_on sep (join_str ''/'' rs @ ''/'' @ q)"
      using p False by (simp add: abs_path_def)
    also have "split_on sep (join_str ''/'' rs @ ''/'' @ q) = rs @ split_on sep q"
      using False nosep
    proof (induction rs)
      case (Cons r rs)
      then show ?case by (cases "rs = []") (simp_all add: join_str_Cons split_on_append_sep)
    qed simp
    finally show ?thesis using norm_comps_good[of rs True "[]" "split_on sep q"] assms(1) by simp
  qed
  with n show ?thesis unfolding p_def[symmetric] using p
    by (auto simp: normpath_def abs_path_def)
qed

lemma abs_path_inj:
  assumes "\<forall>c \<in> set xs. good_comp c" "\<forall>c \<in> set ys. good_comp c" "abs_path xs = abs_path ys"
  shows "xs = ys"
proof -
  have "abs_split xs = abs_split ys"
    using split_abs_path[OF assms(1)] split_abs_path[OF assms(2)] assms(3) by simp
  then show ?thesis using assms(1,2)
    by (cases xs; cases ys) (simp_all add: abs_split_def good_comp_def)
qed

lemma suffix_single [simp]: "suffix [c] xs \<longleftrightarrow> xs \<noteq> [] \<and> last xs = c"
  by (auto simp: suffix_def) (metis append_butlast_last_id)

end
