(* ===== verification/Gyp_Common.thy ===== *)
theory Gyp_Common
  imports Os_Path
begin

text \<open>
  \<open>tools/gyp/pylib/gyp/common.py\<close>: qualified target names, relative paths, shell quoting, the
  memoising decorator and the small list helpers.  The functions on graphs of that file are in
  \<open>Gyp_Common_Graph\<close>.  \<open>os.path.realpath\<close> is the parameter \<open>realpath\<close>; the platform is POSIX,
  so the drive-letter branch of \<open>RelativePath\<close> (\<open>sys.platform == 'win32'\<close>) is not taken.
\<close>

section \<open>Memoisation\<close>

text \<open>The cache of \<open>class memoize\<close>; a call that raises stores nothing.\<close>

definition memoize_call :: "('a \<Rightarrow> 'r res) \<Rightarrow> ('a \<times> 'r) list \<Rightarrow> 'a \<Rightarrow> 'r res \<times> ('a \<times> 'r) list" where
  "memoize_call func cache args =
     (case map_of cache args of
        Some r \<Rightarrow> (Inr r, cache)
      | None \<Rightarrow>
          (case func args of
             Inl e \<Rightarrow> (Inl e, cache)
           | Inr r \<Rightarrow> (Inr r, (args, r) # cache)))"

fun memoize_calls :: "('a \<Rightarrow> 'r res) \<Rightarrow> ('a \<times> 'r) list \<Rightarrow> 'a list \<Rightarrow> 'r res list \<times> ('a \<times> 'r) list" where
  "memoize_calls func cache [] = ([], cache)"
| "memoize_calls func cache (a # as) =
     (let (r, cache') = memoize_call func cache a;
          (rs, cache'') = memoize_calls func cache' as
      in (r # rs, cache''))"

definition cache_ok :: "('a \<Rightarrow> 'r res) \<Rightarrow> ('a \<times> 'r) list \<Rightarrow> bool" where
  "cache_ok func cache = (distinct (map fst cache) \<and> (\<forall>(a, r) \<in> set cache. func a = Inr r))"

lemma memoize_call_spec:
  assumes "cache_ok func cache" "memoize_call func cache a = (r, cache')"
  shows "r = func a \<and> cache_ok func cache' \<and> set cache \<subseteq> set cache'"
proof (cases "map_of cache a")
  case None
  with assms show ?thesis
    by (auto simp: memoize_call_def cache_ok_def map_of_eq_None_iff split: sum.splits)
next
  case (Some x)
  then have "(a, x) \<in> set cache" by (rule map_of_SomeD)
  with assms Some show ?thesis by (auto simp: memoize_call_def cache_ok_def)
qed

section \<open>Messages and target names\<close>

text \<open>\<open>ExceptionAppend\<close> on the tuple \<open>e.args\<close>.\<close>

fun ExceptionAppend :: "pyval list \<Rightarrow> string \<Rightarrow> pyval list" where
  "ExceptionAppend [] msg = [PStr msg]"
| "ExceptionAppend [a] msg = [PStr (py_str a @ '' '' @ msg)]"
| "ExceptionAppend (a # as) msg = PStr (py_str a @ '' '' @ msg) # as"

definition ParseQualifiedTarget :: "string \<Rightarrow> string option \<times> string \<times> string option" where
  "ParseQualifiedTarget target =
     (let (build_file, target1) =
            (case rsplit1 CHR '':'' target of
               Some (b, t) \<Rightarrow> (Some b, t)
             | None \<Rightarrow> (None, target));
          (target2, toolset) =
            (case rsplit1 CHR ''#'' target1 of
               Some (t, ts) \<Rightarrow> (t, Some ts)
             | None \<Rightarrow> (target1, None))
      in (build_file, target2, toolset))"

definition FindQualifiedTargets :: "string \<Rightarrow> string list \<Rightarrow> string list" where
  "FindQualifiedTargets target qualified_list =
     filter (\<lambda>t. fst (snd (ParseQualifiedTarget t)) = target) qualified_list"

definition BuildFile :: "string \<Rightarrow> string option" where
  "BuildFile fully_qualified_target = fst (ParseQualifiedTarget fully_qualified_target)"

definition GetEnvironFallback :: "(string \<times> string) list \<Rightarrow> string list \<Rightarrow> string \<Rightarrow> string" where
  "GetEnvironFallback environ var_list dflt =
     (case find (dhas environ) var_list of
        Some var \<Rightarrow> the (dget environ var)
      | None \<Rightarrow> dflt)"

definition QualifiedTarget :: "string \<Rightarrow> string \<Rightarrow> string option \<Rightarrow> string" where
  "QualifiedTarget build_file target toolset =
     (let fully_qualified = build_file @ '':'' @ target
      in case toolset of
           None \<Rightarrow> fully_qualified
         | Some ts \<Rightarrow> if ts = [] then fully_qualified else fully_qualified @ ''#'' @ ts)"

section \<open>Relative paths\<close>

definition RelativePath :: "(string \<Rightarrow> string) \<Rightarrow> string \<Rightarrow> string \<Rightarrow> string" where
  "RelativePath realpath path relative_to =
     (let path_split = split_on sep (realpath path);
          relative_to_split = split_on sep (realpath relative_to);
          prefix_len = length (longest_common_prefix path_split relative_to_split);
          relative_split =
            replicate (length relative_to_split - prefix_len) ''..'' @ drop prefix_len path_split
      in case relative_split of
           [] \<Rightarrow> []
         | c # cs \<Rightarrow> path_join c cs)"

definition InvertRelativePath :: "(string \<Rightarrow> string) \<Rightarrow> string \<Rightarrow> string option \<Rightarrow> string" where
  "InvertRelativePath realpath path toplevel_dir =
     (if path = [] then path
      else let top = (case toplevel_dir of None \<Rightarrow> ''.'' | Some t \<Rightarrow> t)
           in RelativePath realpath top (path_join top [path]))"

definition FixIfRelativePath :: "(string \<Rightarrow> string) \<Rightarrow> string \<Rightarrow> string \<Rightarrow> string" where
  "FixIfRelativePath realpath path relative_to =
     (if isabs path then path else RelativePath realpath path relative_to)"

definition UnrelativePath :: "string \<Rightarrow> string \<Rightarrow> string" where
  "UnrelativePath path relative_to = normpath (path_join (dirname relative_to) [path])"

definition ResolveTarget ::
    "(string \<Rightarrow> string) \<Rightarrow> string option \<Rightarrow> string \<Rightarrow> string option
      \<Rightarrow> string option \<times> string \<times> string option" where
  "ResolveTarget realpath build_file target toolset =
     (let (parsed_build_file, target1, parsed_toolset) = ParseQualifiedTarget target;
          build_file1 =
            (case parsed_build_file of
               None \<Rightarrow> build_file
             | Some pbf \<Rightarrow>
                 if pbf = [] then build_file
                 else (case build_file of
                         None \<Rightarrow> Some pbf
                       | Some bf \<Rightarrow>
                           if bf = [] then Some pbf
                           else let b = normpath (path_join (dirname bf) [pbf])
                                in Some (if isabs b then b else RelativePath realpath b ''.'')));
          toolset1 =
            (case parsed_toolset of
               None \<Rightarrow> toolset
             | Some pts \<Rightarrow> if pts = [] then toolset else Some pts)
      in (build_file1, target1, toolset1))"

section \<open>Shell quoting\<close>

definition quote_chars :: "char set" where
  "quote_chars = {CHR 0x09, CHR 0x0A, CHR '' '', CHR ''#'', CHR ''$'', CHR ''%'', CHR ''&'',
     CHR 0x27, CHR ''('', CHR '')'', CHR ''*'', CHR '';'', CHR ''<'', CHR ''='', CHR ''>'',
     CHR ''?'', CHR ''['', CHR ''{'', CHR ''|'', CHR ''}'', CHR ''~''}"

definition escape_chars :: "char set" where
  "escape_chars = {CHR 0x22, CHR 0x5C, CHR 0x60}"

definition escape_sub :: "string \<Rightarrow> string" where
  "escape_sub s = concat (map (\<lambda>c. if c \<in> escape_chars then [CHR 0x5C, c] else [c]) s)"

definition EncodePOSIXShellArgument :: "pyval \<Rightarrow> string" where
  "EncodePOSIXShellArgument argument =
     (let s = py_str argument;
          q = (if s = [] \<or> (\<exists>c \<in> set s. c \<in> quote_chars) then [CHR 0x22] else [])
      in q @ escape_sub s @ q)"

definition EncodePOSIXShellList :: "pyval list \<Rightarrow> string" where
  "EncodePOSIXShellList xs = join_str '' '' (map EncodePOSIXShellArgument xs)"

section \<open>Flavor, duplicates\<close>

definition GetFlavor :: "(string \<times> string) list \<Rightarrow> string \<Rightarrow> string" where
  "GetFlavor params platform =
     (case dget params ''flavor'' of
        Some f \<Rightarrow> f
      | None \<Rightarrow>
          (case dget [(''cygwin'', ''win''), (''win32'', ''win''), (''darwin'', ''mac'')] platform of
             Some f \<Rightarrow> f
           | None \<Rightarrow>
               if prefix ''sunos'' platform then ''solaris''
               else if prefix ''freebsd'' platform then ''freebsd''
               else if prefix ''openbsd'' platform then ''openbsd''
               else if prefix ''aix'' platform then ''aix''
               else ''linux''))"

fun uniquer_loop :: "('a \<Rightarrow> 'k) \<Rightarrow> 'k list \<Rightarrow> 'a list \<Rightarrow> 'a list \<Rightarrow> 'a list" where
  "uniquer_loop idfun seen result [] = result"
| "uniquer_loop idfun seen result (item # seq) =
     (if idfun item \<in> set seen then uniquer_loop idfun seen result seq
      else uniquer_loop idfun (idfun item # seen) (result @ [item]) seq)"

definition uniquer :: "'a list \<Rightarrow> ('a \<Rightarrow> 'k) \<Rightarrow> 'a list" where
  "uniquer seq idfun = uniquer_loop idfun [] [] seq"

definition BuildFileTargets :: "string list \<Rightarrow> string \<Rightarrow> string list" where
  "BuildFileTargets target_list build_file =
     filter (\<lambda>p. BuildFile p = Some build_file) target_list"


section \<open>Target names: theorems\<close>

lemma ParseQualifiedTarget_full:
  assumes "CHR '':'' \<notin> set (t @ ''#'' @ ts)" "CHR ''#'' \<notin> set ts"
  shows "ParseQualifiedTarget (bf @ '':'' @ t @ ''#'' @ ts) = (Some bf, t, Some ts)"
  using assms rsplit1_eq[of "CHR '':''" "t @ CHR ''#'' # ts" bf] rsplit1_eq[of "CHR ''#''" ts t]
  by (simp add: ParseQualifiedTarget_def)

lemma ParseQualifiedTarget_no_toolset:
  assumes "CHR '':'' \<notin> set t" "CHR ''#'' \<notin> set t"
  shows "ParseQualifiedTarget (bf @ '':'' @ t) = (Some bf, t, None)"
  using assms rsplit1_eq[of "CHR '':''" t bf]
  by (simp add: ParseQualifiedTarget_def rsplit1_None[THEN iffD2])

lemma ParseQualifiedTarget_parts:
  assumes "ParseQualifiedTarget q = (bf, t, ts)"
  shows "CHR '':'' \<notin> set t" "ts = None \<Longrightarrow> CHR ''#'' \<notin> set t"
    "ts = Some u \<Longrightarrow> CHR ''#'' \<notin> set u \<and> CHR '':'' \<notin> set u"
    "q = (case bf of None \<Rightarrow> [] | Some b \<Rightarrow> b @ '':'') @ t
         @ (case ts of None \<Rightarrow> [] | Some u \<Rightarrow> ''#'' @ u)"
  using assms
  by (auto simp: ParseQualifiedTarget_def rsplit1_None rsplit1_Some split: option.splits)

text \<open>Qualified names round-trip: a name built by \<open>QualifiedTarget\<close> parses back into its
  parts whenever the parts do not contain the separators that the parser looks for (only the
  build file may, which is why the code splits from the right), and re-qualifying the parts of
  any name that has a build file and no empty toolset gives the name back.\<close>

theorem qualified_target_roundtrip:
  assumes "CHR '':'' \<notin> set t"
    and "\<And>ts. toolset = Some ts \<Longrightarrow> ts \<noteq> [] \<and> CHR '':'' \<notin> set ts \<and> CHR ''#'' \<notin> set ts"
    and "toolset = None \<Longrightarrow> CHR ''#'' \<notin> set t"
  shows "ParseQualifiedTarget (QualifiedTarget bf t toolset) = (Some bf, t, toolset)
    \<and> (\<forall>q b' t' ts'. ParseQualifiedTarget q = (Some b', t', ts') \<and> ts' \<noteq> Some []
         \<longrightarrow> QualifiedTarget b' t' ts' = q)"
proof
  show "ParseQualifiedTarget (QualifiedTarget bf t toolset) = (Some bf, t, toolset)"
  proof (cases toolset)
    case None
    with assms show ?thesis
      by (simp add: QualifiedTarget_def ParseQualifiedTarget_no_toolset[simplified])
  next
    case (Some ts)
    with assms show ?thesis
      using ParseQualifiedTarget_full[of t ts bf] by (auto simp: QualifiedTarget_def)
  qed
  show "\<forall>q b' t' ts'. ParseQualifiedTarget q = (Some b', t', ts') \<and> ts' \<noteq> Some []
      \<longrightarrow> QualifiedTarget b' t' ts' = q"
  proof (intro allI impI)
    fix q b' t' ts'
    assume q: "ParseQualifiedTarget q = (Some b', t', ts') \<and> ts' \<noteq> Some []"
    with ParseQualifiedTarget_parts(4)[of q "Some b'" t' ts'] show "QualifiedTarget b' t' ts' = q"
      by (cases ts') (simp_all add: QualifiedTarget_def)
  qed
qed

theorem qualified_target_roundtrip_witness:
  "ParseQualifiedTarget (QualifiedTarget ''C:/a/b.gyp'' ''lib'' (Some ''host''))
     = (Some ''C:/a/b.gyp'', ''lib'', Some ''host'')"
  using qualified_target_roundtrip[of "''lib''" "Some ''host''" "''C:/a/b.gyp''"] by simp

section \<open>Memoisation: theorems\<close>

text \<open>Memoisation is transparent: over any sequence of calls of the memoised function the
  results are those of the function itself, raised exceptions included, and the cache holds
  exactly the arguments that were answered, each once.\<close>

theorem memoize_transparent:
  assumes "cache_ok func cache" "memoize_calls func cache calls = (rs, cache')"
  shows "rs = map func calls \<and> cache_ok func cache'
    \<and> fst ` set cache' = fst ` set cache \<union> {a \<in> set calls. \<exists>r. func a = Inr r}"
  using assms
proof (induction calls arbitrary: cache rs)
  case (Cons a calls)
  obtain r cache1 where c1: "memoize_call func cache a = (r, cache1)" by fastforce
  obtain rs1 where c2: "memoize_calls func cache1 calls = (rs1, cache')" "rs = r # rs1"
    using Cons.prems(2) c1 by (auto split: prod.splits)
  have s: "r = func a" "cache_ok func cache1"
    using memoize_call_spec[OF Cons.prems(1) c1] by auto
  have "fst ` set cache1 = fst ` set cache \<union> {x \<in> {a}. \<exists>r. func x = Inr r}"
  proof (cases "map_of cache a")
    case None
    show ?thesis
    proof (cases "func a")
      case (Inr x)
      with c1 None have "cache1 = (a, x) # cache" by (simp add: memoize_call_def)
      with Inr show ?thesis by auto
    qed (use c1 None in \<open>auto simp: memoize_call_def\<close>)
  next
    case (Some x)
    then have "a \<in> fst ` set cache" by (force dest: map_of_SomeD)
    with c1 Some show ?thesis by (auto simp: memoize_call_def)
  qed
  with Cons.IH[OF s(2) c2(1)] s(1) c2(2) show ?case by auto
qed simp

theorem memoize_transparent_witness:
  "fst (memoize_calls (\<lambda>n :: nat. if n = 0 then Inl IndexError else Inr (n * n)) [] [3, 0, 3])
     = [Inr 9, Inl IndexError, Inr 9]"
  using memoize_transparent[of "\<lambda>n :: nat. if n = 0 then Inl IndexError else Inr (n * n)" "[]"
      "[3, 0, 3]"]
  by (simp add: cache_ok_def split: prod.splits)

section \<open>Relative paths: theorems\<close>

lemma lcp_abs_split:
  assumes "\<forall>c \<in> set ps. good_comp c" "\<forall>c \<in> set rs. good_comp c" "ps \<noteq> [] \<or> rs \<noteq> []"
  shows "longest_common_prefix (abs_split ps) (abs_split rs) = [] # longest_common_prefix ps rs"
  using assms by (cases ps; cases rs) (auto simp: abs_split_def good_comp_def)

lemma lcp_same [simp]: "longest_common_prefix xs xs = xs"
  by (induction xs) simp_all

lemma RelativePath_components:
  assumes p: "realpath path = abs_path ps" "\<forall>c \<in> set ps. good_comp c"
    and r: "realpath relative_to = abs_path rs" "\<forall>c \<in> set rs. good_comp c"
    and ne: "ps \<noteq> rs"
  defines "k \<equiv> length (longest_common_prefix ps rs)"
  defines "up \<equiv> (if rs = [] then 1 else length rs - k)"
  shows "RelativePath realpath path relative_to
    = join_str ''/'' (replicate up ''..'' @ (if ps = [] then [[]] else drop k ps))"
proof -
  let ?l = "if ps = [] then [[]] else drop k ps"
  have one: "ps \<noteq> [] \<or> rs \<noteq> []" using ne by auto
  have lcp: "longest_common_prefix (abs_split ps) (abs_split rs) = [] # longest_common_prefix ps rs"
    by (rule lcp_abs_split) (use p r one in auto)
  have parts: "replicate (length (abs_split rs) - Suc k) ''..'' @ drop (Suc k) (abs_split ps)
      = replicate up ''..'' @ ?l"
    by (auto simp: abs_split_def up_def k_def)
  have drop_ne: "ps \<noteq> [] \<Longrightarrow> up = 0 \<Longrightarrow> drop k ps \<noteq> []"
  proof
    assume "ps \<noteq> []" "up = 0" "drop k ps = []"
    then have "length rs \<le> k" "length ps \<le> k" by (auto simp: up_def split: if_splits)
    then have "longest_common_prefix ps rs = rs" "longest_common_prefix ps rs = ps"
      using longest_common_prefix_prefix1[of ps rs] longest_common_prefix_prefix2[of ps rs]
      unfolding k_def by (metis append.right_neutral append_eq_conv_conj prefix_def take_all_iff)+
    with ne show False by simp
  qed
  have up_pos: "ps = [] \<Longrightarrow> up \<noteq> 0" using one by (auto simp: up_def k_def)
  obtain c cs where cs: "replicate up ''..'' @ ?l = c # cs"
    using drop_ne up_pos by (cases "replicate up ''..'' @ ?l") (auto split: if_splits)
  have good: "\<And>x. x \<in> set (replicate up ''..'' @ drop k ps) \<Longrightarrow> x \<noteq> [] \<and> sep \<notin> set x"
    using p(2) good_comp_props by (auto dest: in_set_dropD)
  have "path_join c cs = join_str ''/'' (c # cs)"
  proof (cases "ps = []")
    case True
    then obtain u where "up = Suc u" using up_pos by (cases up) auto
    with cs True have cs': "c = ''..''" "cs = replicate u ''..'' @ [[]]" by auto
    show ?thesis unfolding cs'(2)
      by (rule path_join_eq_join_str_last) (use cs' in \<open>auto simp: suffix_def Cons_eq_append_conv\<close>)
  next
    case False
    with cs have "replicate up ''..'' @ drop k ps = c # cs" by simp
    with good have g: "\<And>x. x \<in> set (c # cs) \<Longrightarrow> x \<noteq> [] \<and> sep \<notin> set x" by metis
    have c: "c \<noteq> []" "sep \<notin> set c" using g[of c] by simp_all
    then have "\<not> suffix ''/'' c" by (auto simp: suffix_def)
    with c(1) show ?thesis by (rule path_join_eq_join_str) (use g in simp)
  qed
  note joined = this
  have "RelativePath realpath path relative_to
      = (case replicate (length (abs_split rs) - Suc k) ''..'' @ drop (Suc k) (abs_split ps) of
           [] \<Rightarrow> [] | c # cs \<Rightarrow> path_join c cs)"
    unfolding RelativePath_def p(1) r(1) split_abs_path[OF p(2)] split_abs_path[OF r(2)] lcp Let_def
      k_def list.size by (rule arg_cong2) simp_all
  also have "\<dots> = path_join c cs" unfolding parts cs list.case ..
  also have "\<dots> = join_str ''/'' (replicate up ''..'' @ ?l)" unfolding joined cs ..
  finally show ?thesis .
qed

lemma split_relative:
  assumes "\<forall>c \<in> set gs. good_comp c \<or> c = ''..''" "gs \<noteq> []"
  shows "split_on sep (join_str ''/'' gs) = gs" "\<not> prefix ''/'' (join_str ''/'' gs)"
proof -
  have ns: "x \<noteq> [] \<and> sep \<notin> set x" if "x \<in> set gs" for x
  proof -
    from assms(1) that have "good_comp x \<or> x = ''..''" by blast
    then show ?thesis by (auto simp: good_comp_def)
  qed
  show "split_on sep (join_str ''/'' gs) = gs"
    by (rule split_join) (use assms(2) ns in auto)
  obtain g gs' where g: "gs = g # gs'" using assms(2) by (cases gs) auto
  then have "g \<noteq> []" "sep \<notin> set g" using ns[of g] by simp_all
  then obtain a as where "g = a # as" "a \<noteq> sep" by (cases g) auto
  then show "\<not> prefix ''/'' (join_str ''/'' gs)" using g by (auto simp: join_str_Cons prefix_def)
qed

lemma norm_comps_relative:
  assumes "\<forall>c \<in> set ps. good_comp c" "\<forall>c \<in> set rs. good_comp c"
  defines "k \<equiv> length (longest_common_prefix ps rs)"
  defines "up \<equiv> (if rs = [] then 1 else length rs - k)"
  shows "norm_comps True rs (replicate up ''..'' @ drop k ps) = ps"
proof -
  have pre: "take k rs = take k ps" "k \<le> length rs"
    using longest_common_prefix_prefix1[of ps rs] longest_common_prefix_prefix2[of ps rs]
    unfolding k_def by (metis append_eq_conv_conj prefix_def, metis prefix_length_le)
  have rest: "norm_comps True acc (drop k ps) = acc @ drop k ps" for acc
    using norm_comps_good[of "drop k ps" True acc "[]"] assms(1) by (auto dest: in_set_dropD)
  show ?thesis
  proof (cases "rs = []")
    case True
    then show ?thesis using rest by (simp add: up_def k_def)
  next
    case False
    then have "norm_comps True rs (replicate up ''..'' @ drop k ps)
        = norm_comps True (take (length rs - up) rs) (drop k ps)"
      by (intro norm_comps_pop) (use assms(2) in \<open>auto simp: up_def\<close>)
    then show ?thesis using rest pre False by (simp add: up_def)
  qed
qed

lemma split_on_snoc_empty: "split_on c (s @ [c]) = split_on c s @ [[]]"
  by (induction s) (auto simp: hd_append)

lemma norm_comps_skip_last: "norm_comps ab acc (cs @ [[]]) = norm_comps ab acc cs"
  by (induction ab acc cs rule: norm_comps.induct) auto

text \<open>C34.  \<open>RelativePath\<close> is a relative path: appended to the directory it is relative to and
  normalised, it names the file it was computed from.  What the code relies on is that
  \<open>os.path.realpath\<close> returns absolute paths in normal form.\<close>

theorem RelativePath_correct:
  assumes "abs_normal (realpath path)" "abs_normal (realpath relative_to)"
  shows "normpath (path_join (realpath relative_to) [RelativePath realpath path relative_to])
    = realpath path"
proof -
  from assms obtain ps rs where p: "realpath path = abs_path ps" "\<forall>c \<in> set ps. good_comp c"
    and r: "realpath relative_to = abs_path rs" "\<forall>c \<in> set rs. good_comp c"
    by (auto simp: abs_normal_def)
  show ?thesis
  proof (cases "ps = rs")
    case True
    with p r have "RelativePath realpath path relative_to = []"
      by (simp add: RelativePath_def Let_def)
    then show ?thesis
      using normpath_abs_path_join[OF r(2), of "[]"] True p r by simp
  next
    case False
    define k where "k = length (longest_common_prefix ps rs)"
    define up where "up = (if rs = [] then 1 else length rs - k)"
    have rel: "RelativePath realpath path relative_to
        = join_str ''/'' (replicate up ''..'' @ (if ps = [] then [[]] else drop k ps))"
      unfolding up_def k_def
      by (rule RelativePath_components) (use p r False in simp_all)
    have norm: "norm_comps True rs (replicate up ''..'' @ drop k ps) = ps"
      unfolding up_def k_def by (rule norm_comps_relative[OF p(2) r(2)])
    have gd: "\<forall>c \<in> set (replicate up ''..'' @ drop k ps). good_comp c \<or> c = ''..''"
      using p(2) by (auto dest: in_set_dropD)
    show ?thesis
    proof (cases "ps = []")
      case True
      then have up: "up \<noteq> 0" using False by (auto simp: up_def k_def)
      let ?ups = "replicate up ''..'' :: string list"
      have "\<forall>c \<in> set ?ups. good_comp c \<or> c = ''..''" "?ups \<noteq> []" using up by auto
      note ups = split_relative[OF this]
      have rel': "RelativePath realpath path relative_to = join_str ''/'' ?ups @ [sep]"
        using rel up True join_str_append[of ?ups "[[]]" "''/''"] by simp
      have "join_str ''/'' ?ups \<noteq> []" using up by (cases up) (auto simp: join_str_Cons)
      then have np: "\<not> prefix ''/'' (join_str ''/'' ?ups @ [sep])"
        using ups(2) by (cases "join_str ''/'' ?ups") (auto simp: prefix_def)
      show ?thesis
        using normpath_abs_path_join[OF r(2) np] ups(1) norm True p r
        by (simp add: rel' split_on_snoc_empty norm_comps_skip_last)
    next
      case nonempty: False
      let ?rel = "replicate up ''..'' @ drop k ps"
      have "?rel \<noteq> []"
      proof
        assume e: "?rel = []"
        then have "norm_comps True rs ?rel = rs" by simp
        with norm False show False by simp
      qed
      from split_relative[OF gd this] nonempty rel norm p r show ?thesis
        using normpath_abs_path_join[OF r(2), of "join_str ''/'' ?rel"] by simp
    qed
  qed
qed

theorem RelativePath_correct_witness:
  "normpath (path_join ''/w/out'' [RelativePath (\<lambda>p. ''/w/'' @ p) ''src/a.c'' ''out''])
     = ''/w/src/a.c''
   \<and> RelativePath (\<lambda>p. ''/w/'' @ p) ''src/a.c'' ''out'' = ''../src/a.c''"
proof -
  have n1: "abs_normal ''/w/src/a.c''" unfolding abs_normal_def abs_path_def good_comp_def
    by (rule exI[of _ "[''w'', ''src'', ''a.c'']"]) simp
  have n2: "abs_normal ''/w/out''" unfolding abs_normal_def abs_path_def good_comp_def
    by (rule exI[of _ "[''w'', ''out'']"]) simp
  show ?thesis
  proof
    show "normpath (path_join ''/w/out'' [RelativePath (\<lambda>p. ''/w/'' @ p) ''src/a.c'' ''out''])
        = ''/w/src/a.c''"
      using RelativePath_correct[of "\<lambda>p. ''/w/'' @ p" "''src/a.c''" "''out''"] n1 n2 by simp
    show "RelativePath (\<lambda>p. ''/w/'' @ p) ''src/a.c'' ''out'' = ''../src/a.c''"
      by code_simp
  qed
qed


lemma RelativePath_same: "realpath p = realpath q \<Longrightarrow> RelativePath realpath p q = []"
  by (simp add: RelativePath_def Let_def)

lemma normpath_nonempty: "normpath p \<noteq> []"
  by (simp add: normpath_def Let_def)

text \<open>\<open>InvertRelativePath\<close> leads back: from the real directory of a relative path, the
  inverse normalises to the real top-level directory.  The doc string promises that the path and
  its inverse, joined and normalised, are \<^emph>\<open>the empty string\<close>; \<open>normpath\<close> never returns the
  empty string, so the promise holds for no path.\<close>

theorem InvertRelativePath_leads_back:
  assumes "abs_normal (realpath tld)" "abs_normal (realpath (path_join tld [path]))" "path \<noteq> []"
  shows "normpath (path_join (realpath (path_join tld [path]))
           [InvertRelativePath realpath path (Some tld)]) = realpath tld
    \<and> normpath (path_join path [InvertRelativePath realpath path (Some tld)]) \<noteq> []"
  using RelativePath_correct[of realpath tld "path_join tld [path]"] assms
  by (simp add: InvertRelativePath_def normpath_nonempty)

theorem InvertRelativePath_leads_back_witness:
  "InvertRelativePath (\<lambda>p. if p = ''.'' then ''/w'' else ''/w/a/b'') ''a/b'' (Some ''.'') = ''../..''
   \<and> normpath (path_join ''/w/a/b''
       [InvertRelativePath (\<lambda>p. if p = ''.'' then ''/w'' else ''/w/a/b'') ''a/b'' (Some ''.'')]) = ''/w''"
proof -
  have n1: "abs_normal ''/w''" unfolding abs_normal_def abs_path_def good_comp_def
    by (rule exI[of _ "[''w'']"]) simp
  have n2: "abs_normal ''/w/a/b''" unfolding abs_normal_def abs_path_def good_comp_def
    by (rule exI[of _ "[''w'', ''a'', ''b'']"]) simp
  show ?thesis
  proof
    show "InvertRelativePath (\<lambda>p. if p = ''.'' then ''/w'' else ''/w/a/b'') ''a/b'' (Some ''.'')
        = ''../..''" by code_simp
    show "normpath (path_join ''/w/a/b''
       [InvertRelativePath (\<lambda>p. if p = ''.'' then ''/w'' else ''/w/a/b'') ''a/b'' (Some ''.'')]) = ''/w''"
      using InvertRelativePath_leads_back[of "\<lambda>p. if p = ''.'' then ''/w'' else ''/w/a/b''" "''.''"
          "''a/b''"] n1 n2 by simp
  qed
qed

section \<open>Shell quoting: theorems\<close>

text \<open>
  The reading side: how a POSIX shell splits a command line into words (XCU 2.2).  \<open>None\<close> is a
  line whose meaning is not just its words: an operator, a glob, an expansion or an unfinished
  quote.  \<open>dq\<close> says that the reader is between double quotes, \<open>w\<close> is the word read so far.
\<close>

definition sh_special :: "char set" where
  "sh_special = {CHR 0x0A, CHR ''#'', CHR ''$'', CHR ''&'', CHR 0x27, CHR ''('', CHR '')'',
     CHR ''*'', CHR '';'', CHR ''<'', CHR ''='', CHR ''>'', CHR ''?'', CHR ''['', CHR ''{'',
     CHR ''|'', CHR ''}'', CHR ''~'', CHR ''%'', CHR 0x60}"

fun sh_words :: "bool \<Rightarrow> string option \<Rightarrow> string \<Rightarrow> string list option" where
  "sh_words dq w [] =
     (if dq then None else Some (case w of None \<Rightarrow> [] | Some x \<Rightarrow> [x]))"
| "sh_words dq w (c # s) =
     (let x = (case w of None \<Rightarrow> [] | Some x \<Rightarrow> x) in
      if c = CHR 0x5C then
        (case s of
           [] \<Rightarrow> None
         | d # s' \<Rightarrow>
             if d = CHR 0x0A then sh_words dq w s'
             else if dq \<and> d \<notin> {CHR ''$'', CHR 0x60, CHR 0x22, CHR 0x5C}
             then sh_words dq (Some (x @ [c, d])) s'
             else sh_words dq (Some (x @ [d])) s')
      else if c = CHR 0x22 then sh_words (\<not> dq) (Some x) s
      else if dq then
        (if c = CHR ''$'' \<or> c = CHR 0x60 then None else sh_words dq (Some (x @ [c])) s)
      else if c = CHR '' '' \<or> c = CHR 0x09 then
        (case w of
           None \<Rightarrow> sh_words dq None s
         | Some y \<Rightarrow> map_option (\<lambda>ws. y # ws) (sh_words dq None s))
      else if c \<in> sh_special then None
      else sh_words dq (Some (x @ [c])) s)"

lemma sh_words_plain:
  assumes "\<forall>c \<in> set s. c \<notin> quote_chars"
  shows "sh_words False (Some x) (escape_sub s @ r) = sh_words False (Some (x @ s)) r"
  using assms
proof (induction s arbitrary: x)
  case (Cons c s)
  have ih: "\<And>x. sh_words False (Some x) (escape_sub s @ r) = sh_words False (Some (x @ s)) r"
    using Cons by simp
  have nq: "c \<notin> quote_chars" using Cons.prems by simp
  show ?case
  proof (cases "c \<in> escape_chars")
    case True
    then show ?thesis using ih[of "x @ [c]"] by (auto simp: escape_sub_def escape_chars_def)
  next
    case False
    then have "c \<notin> sh_special" using nq by (auto simp: sh_special_def quote_chars_def escape_chars_def)
    with False nq show ?thesis using ih[of "x @ [c]"]
      by (auto simp: escape_sub_def escape_chars_def quote_chars_def)
  qed
qed (simp add: escape_sub_def)

lemma sh_words_quoted:
  assumes "CHR ''$'' \<notin> set s"
  shows "sh_words True (Some x) (escape_sub s @ CHR 0x22 # r) = sh_words False (Some (x @ s)) r"
  using assms
proof (induction s arbitrary: x)
  case (Cons c s)
  have ih: "\<And>x. sh_words True (Some x) (escape_sub s @ CHR 0x22 # r)
      = sh_words False (Some (x @ s)) r"
    using Cons by simp
  have nd: "c \<noteq> CHR ''$''" using Cons.prems by auto
  show ?case
  proof (cases "c \<in> escape_chars")
    case True
    then show ?thesis using ih[of "x @ [c]"] by (auto simp: escape_sub_def escape_chars_def)
  next
    case False
    with nd show ?thesis using ih[of "x @ [c]"] by (auto simp: escape_sub_def escape_chars_def)
  qed
qed (simp add: escape_sub_def)

lemma sh_words_argument:
  assumes "CHR ''$'' \<notin> set (py_str a)"
  shows "sh_words False None (EncodePOSIXShellArgument a @ r)
    = sh_words False (Some (py_str a)) r"
proof (cases "py_str a = [] \<or> (\<exists>c \<in> set (py_str a). c \<in> quote_chars)")
  case True
  then show ?thesis using sh_words_quoted[OF assms, of "[]" r]
    by (simp add: EncodePOSIXShellArgument_def Let_def)
next
  case False
  then obtain c s where s: "py_str a = c # s" by (cases "py_str a") auto
  with False have nq: "\<forall>d \<in> set s. d \<notin> quote_chars" "c \<notin> quote_chars" by auto
  have e: "EncodePOSIXShellArgument a
      = (if c \<in> escape_chars then [CHR 0x5C, c] else [c]) @ escape_sub s"
    using False s by (simp add: EncodePOSIXShellArgument_def Let_def escape_sub_def)
  show ?thesis
  proof (cases "c \<in> escape_chars")
    case True
    then show ?thesis unfolding e s using sh_words_plain[OF nq(1), of "[c]" r]
      by (auto simp: escape_chars_def)
  next
    case False
    then have "c \<notin> sh_special" using nq(2)
      by (auto simp: sh_special_def quote_chars_def escape_chars_def)
    with False nq(2) show ?thesis unfolding e s using sh_words_plain[OF nq(1), of "[c]" r]
      by (auto simp: escape_chars_def quote_chars_def)
  qed
qed

text \<open>C35.  A POSIX shell reads back exactly the arguments that \<open>EncodePOSIXShellList\<close> was given,
  whatever characters they hold (quotes, backslashes, spaces, globs, operators, the empty
  string), as long as no argument holds a dollar sign, which the code leaves to the shell.\<close>

theorem EncodePOSIXShellList_roundtrip:
  assumes "\<forall>a \<in> set args. CHR ''$'' \<notin> set (py_str a)"
  shows "sh_words False None (EncodePOSIXShellList args) = Some (map py_str args)"
  using assms
proof (induction args)
  case (Cons a args)
  have a: "CHR ''$'' \<notin> set (py_str a)" using Cons.prems by simp
  show ?case
  proof (cases "args = []")
    case True
    then show ?thesis using sh_words_argument[OF a, of "[]"] by (simp add: EncodePOSIXShellList_def)
  next
    case False
    have "EncodePOSIXShellList (a # args)
        = EncodePOSIXShellArgument a @ CHR '' '' # EncodePOSIXShellList args"
      using False by (simp add: EncodePOSIXShellList_def join_str_Cons)
    then show ?thesis
      using sh_words_argument[OF a, of "CHR '' '' # EncodePOSIXShellList args"] Cons by simp
  qed
qed (simp add: EncodePOSIXShellList_def)

theorem EncodePOSIXShellList_roundtrip_witness:
  "sh_words False None (EncodePOSIXShellList [PStr ''a b'', PStr [], PStr [CHR 0x5C, CHR 0x22], PInt 7])
     = Some [''a b'', [], [CHR 0x5C, CHR 0x22], ''7'']"
proof -
  have p: "map py_str [PStr ''a b'', PStr [], PStr [CHR 0x5C, CHR 0x22], PInt 7]
      = [''a b'', [], [CHR 0x5C, CHR 0x22], ''7'']" by code_simp
  have "\<forall>a \<in> set [PStr ''a b'', PStr [], PStr [CHR 0x5C, CHR 0x22], PInt 7].
      CHR ''$'' \<notin> set (py_str a)" by code_simp
  from EncodePOSIXShellList_roundtrip[OF this] show ?thesis unfolding p .
qed

section \<open>Duplicates: theorems\<close>

lemma uniquer_loop_spec:
  assumes "set seen = idfun ` set result" "distinct (map idfun result)"
  shows "distinct (map idfun (uniquer_loop idfun seen result seq))
    \<and> idfun ` set (uniquer_loop idfun seen result seq) = idfun ` set (result @ seq)
    \<and> (\<exists>ys. uniquer_loop idfun seen result seq = result @ ys \<and> subseq ys seq)"
  using assms
proof (induction idfun seen result seq rule: uniquer_loop.induct)
  case (2 idfun seen result item seq)
  show ?case
  proof (cases "idfun item \<in> set seen")
    case True
    then show ?thesis using 2 by auto
  next
    case False
    then have "idfun item \<notin> idfun ` set result" using "2.prems"(1) by simp
    then show ?thesis using "2.IH"(2)[OF False] "2.prems" False
      by (auto simp: subseq_Cons2)
  qed
qed auto

lemma uniquer_spec:
  "distinct (map idfun (uniquer seq idfun)) \<and> idfun ` set (uniquer seq idfun) = idfun ` set seq
    \<and> subseq (uniquer seq idfun) seq"
  using uniquer_loop_spec[of "[]" idfun "[]" seq] by (auto simp: uniquer_def)

end
