(* ===== verification/Gyp_Merge.thy ===== *)
theory Gyp_Merge
  imports Gyp_Common
begin

text \<open>
  The merging core of \<open>tools/gyp/pylib/gyp/input.py\<close>: the module's generator-dependent globals,
  \<open>IsPathSection\<close>, \<open>MakePathRelative\<close>, \<open>MergeLists\<close> and \<open>MergeDicts\<close>.  The functions mutate
  \<open>to\<close>; the model returns the new value, or the exception that ends the run.
\<close>

section \<open>Module globals\<close>

record gyp_globals =
  path_sections :: "string list"
  non_configuration_keys :: "string list"
  multiple_toolsets :: bool
  generator_filelist_paths :: "pydict option"

record generator_input_info =
  gii_path_sections :: "string list"
  gii_non_configuration_keys :: "string list"
  gii_multiple_toolsets :: bool
  gii_filelist_paths :: "pydict option"
  gii_extra_sources_for_rules :: "string list"
  gii_adjust_static_libraries :: bool
  gii_sorted_dependencies :: bool

definition linkable_types :: "string list" where
  "linkable_types = [''executable'', ''shared_library'', ''loadable_module'']"

definition dependency_sections :: "string list" where
  "dependency_sections = [''dependencies'', ''export_dependent_settings'']"

definition base_path_sections :: "string list" where
  "base_path_sections = [''destination'', ''files'', ''include_dirs'', ''inputs'', ''libraries'',
     ''outputs'', ''sources'']"

definition base_non_configuration_keys :: "string list" where
  "base_non_configuration_keys = [''actions'', ''configurations'', ''copies'',
     ''default_configuration'', ''dependencies'', ''dependencies_original'', ''libraries'',
     ''postbuilds'', ''product_dir'', ''product_extension'', ''product_name'', ''product_prefix'',
     ''rules'', ''run_as'', ''sources'', ''standalone_static_library'', ''suppress_wildcard'',
     ''target_name'', ''toolset'', ''toolsets'', ''type'', ''variables'']"

definition invalid_configuration_keys :: "string list" where
  "invalid_configuration_keys = [''actions'', ''all_dependent_settings'', ''configurations'',
     ''dependencies'', ''direct_dependent_settings'', ''libraries'', ''link_settings'',
     ''sources'', ''standalone_static_library'', ''target_name'', ''type'']"

definition SetGeneratorGlobals :: "generator_input_info \<Rightarrow> gyp_globals" where
  "SetGeneratorGlobals gii =
     \<lparr> path_sections = base_path_sections @ gii_path_sections gii,
       non_configuration_keys = base_non_configuration_keys @ gii_non_configuration_keys gii,
       multiple_toolsets = gii_multiple_toolsets gii,
       generator_filelist_paths = gii_filelist_paths gii \<rparr>"

text \<open>A generator without sections or keys of its own.\<close>

definition plain_generator :: generator_input_info where
  "plain_generator = \<lparr>gii_path_sections = [], gii_non_configuration_keys = [],
     gii_multiple_toolsets = False, gii_filelist_paths = None, gii_extra_sources_for_rules = [],
     gii_adjust_static_libraries = False, gii_sorted_dependencies = False\<rparr>"

section \<open>Path sections\<close>

definition is_path_section_charset :: "char set" where
  "is_path_section_charset = {CHR ''='', CHR ''+'', CHR ''?'', CHR ''!''}"

definition strip_section :: "string \<Rightarrow> string" where
  "strip_section s = rev (dropWhile (\<lambda>c. c \<in> is_path_section_charset) (rev s))"

text \<open>The pattern \<open>_(dir|file|path)s?$\<close>, whose \<open>$\<close> also matches before a final newline.\<close>

definition path_section_re :: "string \<Rightarrow> bool" where
  "path_section_re s =
     (\<exists>e \<in> {''_dir'', ''_dirs'', ''_file'', ''_files'', ''_path'', ''_paths''}.
        suffix e s \<or> suffix (e @ [CHR 0x0A]) s)"

definition IsPathSection :: "gyp_globals \<Rightarrow> string \<Rightarrow> bool" where
  "IsPathSection g section =
     (strip_section section \<in> set (path_sections g) \<or> path_section_re (strip_section section))"

section \<open>Relative paths of merged items\<close>

text \<open>The pattern \<open>["']?[-/$<>^]\<close> at the start of the item.\<close>

definition exception_class :: "char set" where
  "exception_class = {CHR ''-'', CHR ''/'', CHR ''$'', CHR ''<'', CHR ''>'', CHR ''^''}"

fun exception_re :: "string \<Rightarrow> bool" where
  "exception_re [] = False"
| "exception_re [c] = (c \<in> exception_class)"
| "exception_re (c # d # s) =
     (c \<in> exception_class \<or> (c \<in> {CHR 0x22, CHR 0x27} \<and> d \<in> exception_class))"

definition to_slashes :: "string \<Rightarrow> string" where
  "to_slashes s = map (\<lambda>c. if c = CHR 0x5C then sep else c) s"

definition MakePathRelative ::
    "(string \<Rightarrow> string) \<Rightarrow> string \<Rightarrow> string \<Rightarrow> pyval \<Rightarrow> pyval res" where
  "MakePathRelative realpath to_file fro_file item =
     (if to_file = fro_file then Inr item
      else case item of
        PStr s \<Rightarrow>
          if exception_re s then Inr item
          else let ret = to_slashes (normpath (path_join
                     (RelativePath realpath (dirname fro_file) (dirname to_file)) [s]))
               in if s = [] then Inl IndexError
                  else if last s = sep then Inr (PStr (ret @ [sep]))
                  else Inr (PStr ret)
      | _ \<Rightarrow> Inl (TypeError ''expected string or buffer''))"

section \<open>Merging\<close>

text \<open>The membership test of \<open>MergeLists\<close> uses a set for hashable items (strings and integers)
  and the list itself for the others.\<close>

definition is_in_set_or_list :: "bool \<Rightarrow> 'v \<Rightarrow> 'v list \<Rightarrow> 'v list \<Rightarrow> bool" where
  "is_in_set_or_list hashable x s l = (if hashable then x \<in> set s else x \<in> set l)"

definition is_singleton :: "pyval \<Rightarrow> bool" where
  "is_singleton item =
     (case item of
        PStr s \<Rightarrow> \<not> prefix ''-'' s
      | PInt i \<Rightarrow> True
      | _ \<Rightarrow> False)"

definition list_insert :: "nat \<Rightarrow> 'a \<Rightarrow> 'a list \<Rightarrow> 'a list" where
  "list_insert i x xs = take i xs @ x # drop i xs"

text \<open>Placing one item: the new list, the new set of hashables and the new prepend index.\<close>

definition place_item ::
    "bool \<Rightarrow> bool \<Rightarrow> bool \<Rightarrow> 'v \<Rightarrow> 'v list \<times> 'v list \<times> nat \<Rightarrow> 'v list \<times> 'v list \<times> nat" where
  "place_item app singleton hashable to_item st =
     (case st of (to, hset, prepend_index) \<Rightarrow>
        let hset' = (if hashable then to_item # hset else hset) in
        if app then
          (if \<not> singleton \<or> \<not> is_in_set_or_list hashable to_item hset to
           then (to @ [to_item], hset', prepend_index)
           else (to, hset, prepend_index))
        else
          (let to1 = (if singleton then removeAll to_item to else to)
           in (list_insert prepend_index to_item to1, hset', Suc prepend_index)))"

text \<open>The merge policy a key asks for: the base key, whether the old list is dropped first,
  whether an existing list wins, whether to append, and the keys it excludes.\<close>

record merge_policy =
  list_base :: string
  replaces :: bool
  only_if_absent :: bool
  appends :: bool
  lists_incompatible :: "string list"

definition merge_policy_of :: "string \<Rightarrow> merge_policy" where
  "merge_policy_of k =
     (let b = butlast k in
      if last k = CHR ''='' then
        \<lparr> list_base = b, replaces = True, only_if_absent = False, appends = True,
          lists_incompatible = [b, b @ ''?''] \<rparr>
      else if last k = CHR ''+'' then
        \<lparr> list_base = b, replaces = False, only_if_absent = False, appends = False,
          lists_incompatible = [b @ ''='', b @ ''?''] \<rparr>
      else if last k = CHR ''?'' then
        \<lparr> list_base = b, replaces = False, only_if_absent = True, appends = True,
          lists_incompatible = [b, b @ ''='', b @ ''+''] \<rparr>
      else
        \<lparr> list_base = k, replaces = False, only_if_absent = False, appends = True,
          lists_incompatible = [k @ ''='', k @ ''?''] \<rparr>)"

definition bad_merge :: "pyval \<Rightarrow> pyval \<Rightarrow> bool" where
  "bad_merge v old = (if is_scalar v then \<not> is_scalar old else class_name v \<noteq> class_name old)"

definition incompatible_type :: "pyval \<Rightarrow> pyval \<Rightarrow> string \<Rightarrow> py_error" where
  "incompatible_type v old key =
     TypeError (''Attempt to merge dict value of type '' @ class_name v
       @ '' into incompatible type '' @ class_name old @ '' for key '' @ key)"

text \<open>\<open>MergeLists_loop\<close> is the loop of \<open>MergeLists\<close> over \<open>fro\<close>; \<open>MergeDicts_loop\<close> is the loop of
  \<open>MergeDicts\<close> over the items of \<open>fro\<close> that are left, with the whole of \<open>fro\<close> beside it for the
  policy check.\<close>

function (sequential)
  MergeLists_loop :: "(string \<Rightarrow> string) \<Rightarrow> gyp_globals \<Rightarrow> string \<Rightarrow> string \<Rightarrow> bool \<Rightarrow> bool
    \<Rightarrow> pyval list \<Rightarrow> pyval list \<times> pyval list \<times> nat \<Rightarrow> (pyval list \<times> pyval list \<times> nat) res"
  and MergeDicts_loop :: "(string \<Rightarrow> string) \<Rightarrow> gyp_globals \<Rightarrow> string \<Rightarrow> string
    \<Rightarrow> pydict \<Rightarrow> pydict \<Rightarrow> pydict \<Rightarrow> pydict res"
where
  "MergeLists_loop rp g to_file fro_file is_paths app [] st = Inr st"
| "MergeLists_loop rp g to_file fro_file is_paths app (item # fro) st =
     rbind
       (case item of
          PDict d \<Rightarrow> rbind (MergeDicts_loop rp g to_file fro_file d d []) (\<lambda>r. Inr (PDict r))
        | PList l \<Rightarrow>
            rbind (MergeLists_loop rp g to_file fro_file False True l ([], [], 0))
              (\<lambda>r. Inr (PList (fst r)))
        | PNone \<Rightarrow>
            Inl (TypeError (''Attempt to merge list item of unsupported type '' @ class_name item))
        | _ \<Rightarrow> if is_paths then MakePathRelative rp to_file fro_file item else Inr item)
       (\<lambda>to_item.
          MergeLists_loop rp g to_file fro_file is_paths app fro
            (place_item app (is_singleton item) (is_scalar to_item) to_item st))"
| "MergeDicts_loop rp g to_file fro_file fro [] to = Inr to"
| "MergeDicts_loop rp g to_file fro_file fro ((k, v) # rest) to =
     rbind
       (case dget to k of
          Some old \<Rightarrow> if bad_merge v old then Inl (incompatible_type v old k) else Inr ()
        | None \<Rightarrow> Inr ())
       (\<lambda>_. rbind
          (case v of
             PDict d \<Rightarrow>
               rbind (MergeDicts_loop rp g to_file fro_file d d
                        (case dget to k of Some (PDict t) \<Rightarrow> t | _ \<Rightarrow> []))
                 (\<lambda>t. Inr (dset k (PDict t) to))
           | PList l \<Rightarrow>
               if k = [] then Inl IndexError
               else
                 let p = merge_policy_of k;
                     b = list_base p;
                     to1 = (if replaces p then dset b (PList []) to else to)
                 in case find (dhas fro) (lists_incompatible p) of
                      Some i \<Rightarrow> Inl (GypError (''Incompatible list policies '' @ k @ '' and '' @ i))
                    | None \<Rightarrow>
                        if dhas to1 b \<and> only_if_absent p then Inr to1
                        else
                          (case dget to1 b of
                             Some (PList t) \<Rightarrow>
                               rbind (MergeLists_loop rp g to_file fro_file (IsPathSection g b)
                                        (appends p) l (t, filter is_scalar t, 0))
                                 (\<lambda>r. Inr (dset b (PList (fst r)) to1))
                           | Some old \<Rightarrow>
                               Inl (incompatible_type v old (b @ ''('' @ k @ '')''))
                           | None \<Rightarrow>
                               rbind (MergeLists_loop rp g to_file fro_file (IsPathSection g b)
                                        (appends p) l ([], [], 0))
                                 (\<lambda>r. Inr (dset b (PList (fst r)) to1)))
           | PNone \<Rightarrow>
               Inl (TypeError (''Attempt to merge dict value of unsupported type ''
                 @ class_name v @ '' for key '' @ k))
           | _ \<Rightarrow>
               if IsPathSection g k
               then rbind (MakePathRelative rp to_file fro_file v) (\<lambda>w. Inr (dset k w to))
               else Inr (dset k v to))
          (MergeDicts_loop rp g to_file fro_file fro rest))"
  by pat_completeness auto
termination
  by (relation "measure (\<lambda>x. case x of
        Inl (rp, g, tf, ff, p, a, fro, st) \<Rightarrow> size_list size fro
      | Inr (rp, g, tf, ff, fro, rest, to) \<Rightarrow> size_list (size_prod (\<lambda>_. 0) size) rest)") auto

definition MergeLists :: "(string \<Rightarrow> string) \<Rightarrow> gyp_globals \<Rightarrow> pyval list \<Rightarrow> pyval list
    \<Rightarrow> string \<Rightarrow> string \<Rightarrow> bool \<Rightarrow> bool \<Rightarrow> pyval list res" where
  "MergeLists rp g to fro to_file fro_file is_paths app =
     rbind (MergeLists_loop rp g to_file fro_file is_paths app fro (to, filter is_scalar to, 0))
       (\<lambda>r. Inr (fst r))"

definition MergeDicts :: "(string \<Rightarrow> string) \<Rightarrow> gyp_globals \<Rightarrow> pydict \<Rightarrow> pydict
    \<Rightarrow> string \<Rightarrow> string \<Rightarrow> pydict res" where
  "MergeDicts rp g to fro to_file fro_file =
     MergeDicts_loop rp g to_file fro_file fro fro to"


section \<open>One item, one key\<close>

text \<open>The copy of a list item that is put into \<open>to\<close>, and the value that one entry of \<open>fro\<close>
  gives its key: what the loops do, without the loops.\<close>

definition copy_item :: "(string \<Rightarrow> string) \<Rightarrow> gyp_globals \<Rightarrow> string \<Rightarrow> string \<Rightarrow> bool
    \<Rightarrow> pyval \<Rightarrow> pyval res" where
  "copy_item rp g to_file fro_file is_paths item =
     (case item of
        PDict d \<Rightarrow> rbind (MergeDicts rp g [] d to_file fro_file) (\<lambda>r. Inr (PDict r))
      | PList l \<Rightarrow> rbind (MergeLists rp g [] l to_file fro_file False True) (\<lambda>r. Inr (PList r))
      | PNone \<Rightarrow>
          Inl (TypeError (''Attempt to merge list item of unsupported type '' @ class_name item))
      | _ \<Rightarrow> if is_paths then MakePathRelative rp to_file fro_file item else Inr item)"

definition target_key :: "string \<times> pyval \<Rightarrow> string" where
  "target_key kv =
     (case snd kv of PList l \<Rightarrow> list_base (merge_policy_of (fst kv)) | _ \<Rightarrow> fst kv)"

definition merge_entry :: "(string \<Rightarrow> string) \<Rightarrow> gyp_globals \<Rightarrow> string \<Rightarrow> string \<Rightarrow> pydict
    \<Rightarrow> string \<times> pyval \<Rightarrow> pydict \<Rightarrow> pydict res" where
  "merge_entry rp g to_file fro_file fro kv to =
     (let (k, v) = kv in
      rbind
       (case dget to k of
          Some old \<Rightarrow> if bad_merge v old then Inl (incompatible_type v old k) else Inr ()
        | None \<Rightarrow> Inr ())
       (\<lambda>_. case v of
           PDict d \<Rightarrow>
             rbind (MergeDicts rp g (case dget to k of Some (PDict t) \<Rightarrow> t | _ \<Rightarrow> []) d to_file fro_file)
               (\<lambda>t. Inr (dset k (PDict t) to))
         | PList l \<Rightarrow>
             if k = [] then Inl IndexError
             else
               let p = merge_policy_of k;
                   b = list_base p;
                   to1 = (if replaces p then dset b (PList []) to else to)
               in case find (dhas fro) (lists_incompatible p) of
                    Some i \<Rightarrow> Inl (GypError (''Incompatible list policies '' @ k @ '' and '' @ i))
                  | None \<Rightarrow>
                      if dhas to1 b \<and> only_if_absent p then Inr to1
                      else
                        (case dget to1 b of
                           Some (PList t) \<Rightarrow>
                             rbind (MergeLists rp g t l to_file fro_file (IsPathSection g b) (appends p))
                               (\<lambda>r. Inr (dset b (PList r) to1))
                         | Some old \<Rightarrow> Inl (incompatible_type v old (b @ ''('' @ k @ '')''))
                         | None \<Rightarrow>
                             rbind (MergeLists rp g [] l to_file fro_file (IsPathSection g b) (appends p))
                               (\<lambda>r. Inr (dset b (PList r) to1)))
         | PNone \<Rightarrow>
             Inl (TypeError (''Attempt to merge dict value of unsupported type ''
               @ class_name v @ '' for key '' @ k))
         | _ \<Rightarrow>
             if IsPathSection g k
             then rbind (MakePathRelative rp to_file fro_file v) (\<lambda>w. Inr (dset k w to))
             else Inr (dset k v to)))"

lemma rbind_Inr_fst: "rbind (rbind m (\<lambda>r. Inr (fst r))) (\<lambda>r. Inr (f r)) = rbind m (\<lambda>r. Inr (f (fst r)))"
  by (cases m) auto

lemma MergeLists_loop_step:
  "MergeLists_loop rp g tf ff ip app (item # fro) st =
     rbind (copy_item rp g tf ff ip item)
       (\<lambda>ti. MergeLists_loop rp g tf ff ip app fro (place_item app (is_singleton item) (is_scalar ti) ti st))"
  by (simp add: copy_item_def MergeDicts_def MergeLists_def rbind_Inr_fst cong: pyval.case_cong)

lemma MergeDicts_loop_step:
  "MergeDicts_loop rp g tf ff fro (kv # rest) to =
     rbind (merge_entry rp g tf ff fro kv to) (MergeDicts_loop rp g tf ff fro rest)"
proof -
  obtain k v where kv: "kv = (k, v)" by fastforce
  show ?thesis
    by (cases v)
      (simp_all add: kv merge_entry_def MergeDicts_def MergeLists_def rbind_Inr_fst rbind_assoc Let_def
        cong: option.case_cong pyval.case_cong)
qed

lemma MergeLists_loop_rfold:
  "MergeLists_loop rp g tf ff ip app fro st =
     rfold (\<lambda>item st. rbind (copy_item rp g tf ff ip item)
                   (\<lambda>ti. Inr (place_item app (is_singleton item) (is_scalar ti) ti st))) fro st"
  by (induction fro arbitrary: st)
    (simp_all add: MergeLists_loop_step rbind_assoc del: MergeLists_loop.simps(2))

lemma MergeDicts_rfold:
  "MergeDicts rp g to fro tf ff = rfold (merge_entry rp g tf ff fro) fro to"
proof -
  have "MergeDicts_loop rp g tf ff d rest to = rfold (merge_entry rp g tf ff d) rest to" for d rest
  proof (induction rest arbitrary: to)
    case (Cons kv rest)
    then have "MergeDicts_loop rp g tf ff d rest = rfold (merge_entry rp g tf ff d) rest"
      by (rule ext)
    then show ?case by (simp add: MergeDicts_loop_step del: MergeDicts_loop.simps(2))
  qed simp
  then show ?thesis by (simp add: MergeDicts_def)
qed

declare MergeLists_loop.simps [simp del] MergeDicts_loop.simps [simp del]


text \<open>When an entry merges, and what it leaves: one equivalence per kind of value.\<close>

definition list_at :: "pydict \<Rightarrow> string \<Rightarrow> pyval list option" where
  "list_at d k = (case dget d k of None \<Rightarrow> Some [] | Some (PList l) \<Rightarrow> Some l | _ \<Rightarrow> None)"

definition dict_at :: "pydict \<Rightarrow> string \<Rightarrow> pydict option" where
  "dict_at d k = (case dget d k of None \<Rightarrow> Some [] | Some (PDict l) \<Rightarrow> Some l | _ \<Rightarrow> None)"

definition policy_base :: "string \<Rightarrow> pydict \<Rightarrow> pydict" where
  "policy_base k to =
     (if replaces (merge_policy_of k) then dset (list_base (merge_policy_of k)) (PList []) to else to)"

lemma merge_entry_scalar:
  assumes "is_scalar v"
  shows "merge_entry rp g tf ff fro (k, v) to = Inr t \<longleftrightarrow>
    (\<forall>old. dget to k = Some old \<longrightarrow> is_scalar old) \<and>
    (\<exists>w. (if IsPathSection g k then MakePathRelative rp tf ff v else Inr v) = Inr w \<and> t = dset k w to)"
  using assms by (cases v; cases "dget to k") (auto simp: merge_entry_def bad_merge_def)

lemma merge_entry_dict:
  "merge_entry rp g tf ff fro (k, PDict d) to = Inr t \<longleftrightarrow>
    (\<exists>t0 t1. dict_at to k = Some t0 \<and> MergeDicts rp g t0 d tf ff = Inr t1 \<and> t = dset k (PDict t1) to)"
proof (cases "dget to k")
  case (Some old)
  then show ?thesis by (cases old) (auto simp: merge_entry_def bad_merge_def dict_at_def)
qed (auto simp: merge_entry_def dict_at_def)

lemma merge_entry_list:
  fixes k defines "p \<equiv> merge_policy_of k"
  shows "merge_entry rp g tf ff fro (k, PList l) to = Inr t \<longleftrightarrow>
    k \<noteq> [] \<and> list_at to k \<noteq> None \<and> find (dhas fro) (lists_incompatible p) = None \<and>
    (if dhas (policy_base k to) (list_base p) \<and> only_if_absent p then t = policy_base k to
     else \<exists>t0 t1. list_at (policy_base k to) (list_base p) = Some t0 \<and>
       MergeLists rp g t0 l tf ff (IsPathSection g (list_base p)) (appends p) = Inr t1 \<and>
       t = dset (list_base p) (PList t1) (policy_base k to))"
    (is "?L \<longleftrightarrow> k \<noteq> [] \<and> ?A \<and> ?F \<and> ?R")
proof -
  have chk: "(case dget to k of
        Some old \<Rightarrow> if bad_merge (PList l) old then Inl (incompatible_type (PList l) old k) else Inr ()
      | None \<Rightarrow> Inr ()) = Inr () \<longleftrightarrow> ?A"
  proof (cases "dget to k")
    case (Some old)
    then show ?thesis by (cases old) (auto simp: bad_merge_def list_at_def)
  qed (simp add: list_at_def)
  let ?to1 = "policy_base k to"
  have body: "(case dget ?to1 (list_base p) of
        Some (PList t) \<Rightarrow>
          rbind (MergeLists rp g t l tf ff (IsPathSection g (list_base p)) (appends p))
            (\<lambda>r. Inr (dset (list_base p) (PList r) ?to1))
      | Some old \<Rightarrow> Inl (e old)
      | None \<Rightarrow>
          rbind (MergeLists rp g [] l tf ff (IsPathSection g (list_base p)) (appends p))
            (\<lambda>r. Inr (dset (list_base p) (PList r) ?to1))) = Inr t
    \<longleftrightarrow> (\<exists>t0 t1. list_at ?to1 (list_base p) = Some t0 \<and>
       MergeLists rp g t0 l tf ff (IsPathSection g (list_base p)) (appends p) = Inr t1 \<and>
       t = dset (list_base p) (PList t1) ?to1)" for e
  proof (cases "dget ?to1 (list_base p)")
    case (Some old)
    then show ?thesis by (cases old) (auto simp: list_at_def)
  qed (auto simp: list_at_def)
  show ?thesis
  proof (cases "find (dhas fro) (lists_incompatible p)")
    case None
    then show ?thesis
      unfolding merge_entry_def prod.case rbind_eq_Inr pyval.case Let_def chk body
        p_def[symmetric] policy_base_def[symmetric]
      using chk body[of "\<lambda>old. incompatible_type (PList l) old (list_base p @ ''('' @ k @ '')'')"]
      by auto
  next
    case (Some i)
    then show ?thesis
      unfolding merge_entry_def prod.case rbind_eq_Inr pyval.case Let_def p_def[symmetric]
      by auto
  qed
qed

lemma merge_entry_None: "merge_entry rp g tf ff fro (k, PNone) to \<noteq> Inr t"
  by (simp add: merge_entry_def)

lemmas merge_entry_iff = merge_entry_scalar merge_entry_dict merge_entry_list merge_entry_None

lemma copy_item_iff:
  "copy_item rp g tf ff ip (PDict d) = Inr y \<longleftrightarrow> (\<exists>r. MergeDicts rp g [] d tf ff = Inr r \<and> y = PDict r)"
  "copy_item rp g tf ff ip (PList l) = Inr y
     \<longleftrightarrow> (\<exists>r. MergeLists rp g [] l tf ff False True = Inr r \<and> y = PList r)"
  "copy_item rp g tf ff ip PNone \<noteq> Inr y"
  "is_scalar v \<Longrightarrow> copy_item rp g tf ff ip v = (if ip then MakePathRelative rp tf ff v else Inr v)"
  by (auto simp: copy_item_def is_scalar_def split: pyval.splits)

section \<open>Merging keeps dictionaries well-formed\<close>

lemma set_list_insert: "set (list_insert i x xs) = insert x (set xs)"
proof -
  have "set (take i xs) \<union> set (drop i xs) = set xs"
    unfolding set_append[symmetric] append_take_drop_id ..
  then show ?thesis by (auto simp: list_insert_def)
qed

lemma set_place_item: "set (fst (place_item app sg hs x st)) \<subseteq> insert x (set (fst st))"
  by (cases st) (auto simp: place_item_def Let_def set_list_insert)

lemma MakePathRelative_scalar:
  "MakePathRelative rp tf ff v = Inr w \<Longrightarrow> is_scalar v \<Longrightarrow> is_scalar w"
  by (cases v) (auto simp: MakePathRelative_def Let_def split: if_splits)

lemma wf_val_scalar: "is_scalar v \<Longrightarrow> wf_val v"
  by (cases v) auto

lemma MergeLists_wf:
  assumes "MergeLists rp g to fro tf ff ip app = Inr t" "\<And>x. x \<in> set to \<Longrightarrow> wf_val x"
    and c: "\<And>x y. x \<in> set fro \<Longrightarrow> copy_item rp g tf ff ip x = Inr y \<Longrightarrow> wf_val y"
  shows "\<forall>x \<in> set t. wf_val x"
proof -
  from assms(1) obtain st where st: "t = fst st"
    "rfold (\<lambda>item st. rbind (copy_item rp g tf ff ip item)
       (\<lambda>ti. Inr (place_item app (is_singleton item) (is_scalar ti) ti st))) fro (to, filter is_scalar to, 0) = Inr st"
    by (auto simp: MergeLists_def MergeLists_loop_rfold)
  have "\<forall>x \<in> set (fst st). wf_val x"
  proof (rule rfold_invariant[OF st(2)])
    fix x u v
    assume x: "x \<in> set fro" and u: "\<forall>x \<in> set (fst u). wf_val x"
      and "rbind (copy_item rp g tf ff ip x) (\<lambda>ti. Inr (place_item app (is_singleton x) (is_scalar ti) ti u)) = Inr v"
    then obtain y where "copy_item rp g tf ff ip x = Inr y" "v = place_item app (is_singleton x) (is_scalar y) y u"
      by auto
    with c[OF x] u set_place_item[of app "is_singleton x" "is_scalar y" y u] show "\<forall>x \<in> set (fst v). wf_val x"
      by blast
  qed (use assms(2) in simp)
  with st show ?thesis by simp
qed

lemma wf_val_Nil [simp]: "wf_val (PList [])" "wf_val (PDict [])"
  by simp_all

lemma wf_val_policy_base: "wf_val (PDict to) \<Longrightarrow> wf_val (PDict (policy_base k to))"
  unfolding policy_base_def using wf_val_PDict_dset[of to "PList []"] by auto

lemma wf_val_list_at: "wf_val (PDict to) \<Longrightarrow> list_at to k = Some l \<Longrightarrow> wf_val (PList l)"
  using wf_val_dget[of to k] by (auto simp: list_at_def simp del: wf_val.simps simp add: wf_val_Nil split: option.splits pyval.splits)

lemma wf_val_dict_at: "wf_val (PDict to) \<Longrightarrow> dict_at to k = Some l \<Longrightarrow> wf_val (PDict l)"
  using wf_val_dget[of to k] by (auto simp: dict_at_def simp del: wf_val.simps simp add: wf_val_Nil split: option.splits pyval.splits)

lemma merge_entry_wf:
  assumes e: "merge_entry rp g tf ff fro (k, v) to = Inr t" and to: "wf_val (PDict to)"
    and d: "\<And>d to t. v = PDict d \<Longrightarrow> wf_val (PDict to) \<Longrightarrow> MergeDicts rp g to d tf ff = Inr t
            \<Longrightarrow> wf_val (PDict t)"
    and l: "\<And>l to t ip app. v = PList l \<Longrightarrow> wf_val (PList to)
            \<Longrightarrow> MergeLists rp g to l tf ff ip app = Inr t \<Longrightarrow> wf_val (PList t)"
  shows "wf_val (PDict t)"
proof -
  have scalar: ?thesis if sc: "is_scalar v"
  proof -
    from e obtain w where w: "(if IsPathSection g k then MakePathRelative rp tf ff v else Inr v) = Inr w"
      "t = dset k w to" by (auto simp: merge_entry_scalar[OF sc])
    have "is_scalar w"
      using w(1) sc MakePathRelative_scalar[of rp tf ff v w] by (simp split: if_splits)
    with w(2) to show ?thesis using wf_val_PDict_dset wf_val_scalar by blast
  qed
  show ?thesis
  proof (cases v)
    case (PDict m)
    from e PDict obtain t0 t1 where
      "dict_at to k = Some t0" "MergeDicts rp g t0 m tf ff = Inr t1" "t = dset k (PDict t1) to"
      by (auto simp: merge_entry_dict)
    then show ?thesis using d[OF PDict] to wf_val_dict_at wf_val_PDict_dset by blast
  next
    case (PList m)
    let ?p = "merge_policy_of k" and ?b = "policy_base k to"
    from e PList consider "t = ?b"
      | t0 t1 where "list_at ?b (list_base ?p) = Some t0"
          "MergeLists rp g t0 m tf ff (IsPathSection g (list_base ?p)) (appends ?p) = Inr t1"
          "t = dset (list_base ?p) (PList t1) ?b"
      by (auto simp: merge_entry_list split: if_splits)
    then show ?thesis
      using l[OF PList] wf_val_policy_base[OF to] wf_val_list_at wf_val_PDict_dset by cases blast+
  next
    case PNone
    with e show ?thesis by (simp add: merge_entry_None)
  qed (use scalar in simp_all)
qed

lemma merge_wf:
  "(\<forall>d to t. v = PDict d \<longrightarrow> wf_val (PDict to) \<longrightarrow> MergeDicts rp g to d tf ff = Inr t
      \<longrightarrow> wf_val (PDict t))
   \<and> (\<forall>l to t ip app. v = PList l \<longrightarrow> wf_val (PList to)
      \<longrightarrow> MergeLists rp g to l tf ff ip app = Inr t \<longrightarrow> wf_val (PList t))"
proof (induction v)
  case (PList l)
  have "wf_val y" if x: "x \<in> set l" and y: "copy_item rp g tf ff ip x = Inr y" for x y ip
  proof -
    note ih = PList.IH[OF x]
    show ?thesis
    proof (cases x)
      case (PDict d)
      with y obtain r where "MergeDicts rp g [] d tf ff = Inr r" "y = PDict r"
        by (auto simp: copy_item_iff)
      then show ?thesis using ih[THEN conjunct1, rule_format, OF PDict, of "[]" r] by simp
    next
      case (PList m)
      with y obtain r where "MergeLists rp g [] m tf ff False True = Inr r" "y = PList r"
        by (auto simp: copy_item_iff)
      then show ?thesis using ih[THEN conjunct2, rule_format, OF PList, of "[]"] by simp
    next
      case PNone
      with y show ?thesis by (simp add: copy_item_iff)
    qed (use y MakePathRelative_scalar[of rp tf ff x y] in
        \<open>auto simp: copy_item_iff intro!: wf_val_scalar split: if_splits\<close>)
  qed
  then show ?case using MergeLists_wf[of rp g _ l tf ff] by simp
next
  case (PDict d)
  have step: "wf_val (PDict t)"
    if kv: "kv \<in> set d" and to: "wf_val (PDict to)" and e: "merge_entry rp g tf ff d kv to = Inr t"
    for kv to t
  proof -
    obtain k v where p: "kv = (k, v)" by fastforce
    have "v \<in> Basic_BNFs.snds kv" by (simp add: p)
    note ih = PDict.IH[OF kv this]
    show ?thesis
      by (rule merge_entry_wf[OF e[unfolded p] to]) (use ih in blast)+
  qed
  have "wf_val (PDict t)"
    if "MergeDicts rp g to d tf ff = Inr t" "wf_val (PDict to)" for to t
    using that(1) unfolding MergeDicts_rfold
    by (rule rfold_invariant[where P = "\<lambda>to. wf_val (PDict to)"]) (use that step in blast)+
  then show ?case by blast
qed simp_all

text \<open>Merging keeps dictionaries well-formed: when the target holds each key once at every
  depth, so does the result, whatever is merged in and whichever merge policies are used.\<close>

theorem MergeDicts_preserves_wf:
  assumes "wf_val (PDict to)" "MergeDicts rp g to fro to_file fro_file = Inr t"
  shows "wf_val (PDict t)"
  using merge_wf[of "PDict fro" rp g to_file fro_file] assms by blast


theorem MergeDicts_preserves_wf_witness:
  "wf_val (PDict [(''a'', PInt 1), (''l'', PList [PStr ''y'', PStr ''x''])])
   \<and> MergeDicts id \<lparr>path_sections = [], non_configuration_keys = [], multiple_toolsets = False,
        generator_filelist_paths = None\<rparr> [(''a'', PInt 0), (''l'', PList [PStr ''x''])]
        [(''a'', PInt 1), (''l+'', PList [PStr ''y''])] ''f'' ''f''
      = Inr [(''a'', PInt 1), (''l'', PList [PStr ''y'', PStr ''x''])]"
proof -
  let ?g = "\<lparr>path_sections = [], non_configuration_keys = [], multiple_toolsets = False,
        generator_filelist_paths = None\<rparr>"
  have m: "MergeDicts id ?g [(''a'', PInt 0), (''l'', PList [PStr ''x''])]
        [(''a'', PInt 1), (''l+'', PList [PStr ''y''])] ''f'' ''f''
      = Inr [(''a'', PInt 1), (''l'', PList [PStr ''y'', PStr ''x''])]"
    by code_simp
  show ?thesis using MergeDicts_preserves_wf[OF _ m] m by simp
qed

section \<open>What each entry does\<close>

definition entry_value :: "(string \<Rightarrow> string) \<Rightarrow> gyp_globals \<Rightarrow> string \<Rightarrow> string
    \<Rightarrow> pyval option \<Rightarrow> string \<times> pyval \<Rightarrow> pyval \<Rightarrow> bool" where
  "entry_value rp g to_file fro_file old kv new =
     (case snd kv of
        PDict d \<Rightarrow>
          (\<exists>t. MergeDicts rp g (case old of Some (PDict t0) \<Rightarrow> t0 | _ \<Rightarrow> []) d to_file fro_file = Inr t
             \<and> new = PDict t)
      | PList l \<Rightarrow>
          (let p = merge_policy_of (fst kv) in
           if only_if_absent p \<and> old \<noteq> None then old = Some new
           else \<exists>t. MergeLists rp g
                      (if replaces p then [] else case old of Some (PList t0) \<Rightarrow> t0 | _ \<Rightarrow> [])
                      l to_file fro_file (IsPathSection g (list_base p)) (appends p) = Inr t
                  \<and> new = PList t)
      | PNone \<Rightarrow> False
      | _ \<Rightarrow> (if IsPathSection g (fst kv) then MakePathRelative rp to_file fro_file (snd kv)
             else Inr (snd kv)) = Inr new)"

lemma replaces_not_only_if_absent: "replaces (merge_policy_of k) \<Longrightarrow> \<not> only_if_absent (merge_policy_of k)"
  by (auto simp: merge_policy_of_def Let_def split: if_splits)

lemma list_at_eq:
  "list_at d k = Some t0 \<Longrightarrow> (case dget d k of Some (PList x) \<Rightarrow> x | _ \<Rightarrow> []) = t0"
  by (auto simp: list_at_def split: option.splits pyval.splits)

lemma dict_at_eq:
  "dict_at d k = Some t0 \<Longrightarrow> (case dget d k of Some (PDict x) \<Rightarrow> x | _ \<Rightarrow> []) = t0"
  by (auto simp: dict_at_def split: option.splits pyval.splits)

lemma merge_entry_spec:
  assumes e: "merge_entry rp g tf ff fro kv to = Inr t"
  shows "(\<forall>x. x \<noteq> target_key kv \<longrightarrow> dget t x = dget to x)
    \<and> (\<exists>new. dget t (target_key kv) = Some new
          \<and> entry_value rp g tf ff (dget to (target_key kv)) kv new)"
proof -
  obtain k v where kv: "kv = (k, v)" by fastforce
  have scalar: ?thesis if sc: "is_scalar v"
  proof -
    have "target_key kv = k" using sc by (cases v) (simp_all add: kv target_key_def)
    then show ?thesis using e[unfolded kv] sc
      by (cases v) (auto simp: kv merge_entry_scalar entry_value_def)
  qed
  show ?thesis
  proof (cases v)
    case (PDict d)
    with e kv obtain t0 t1 where "dict_at to k = Some t0" "MergeDicts rp g t0 d tf ff = Inr t1"
      "t = dset k (PDict t1) to" by (auto simp: merge_entry_dict)
    with dict_at_eq[of to k t0] show ?thesis by (simp add: kv PDict target_key_def entry_value_def)
  next
    case (PList l)
    define p where "p = merge_policy_of k"
    let ?b = "list_base p" and ?to1 = "policy_base k to"
    have tk: "target_key kv = ?b" by (simp add: kv PList target_key_def p_def)
    have to1: "dget ?to1 x = (if replaces p \<and> x = ?b then Some (PList []) else dget to x)" for x
      by (simp add: policy_base_def p_def)
    have e': "if dhas ?to1 ?b \<and> only_if_absent p then t = ?to1
        else \<exists>t0 t1. list_at ?to1 ?b = Some t0 \<and>
          MergeLists rp g t0 l tf ff (IsPathSection g ?b) (appends p) = Inr t1 \<and>
          t = dset ?b (PList t1) ?to1"
      using e[unfolded kv PList merge_entry_list, folded p_def] by (elim conjE)
    show ?thesis
    proof (cases "dhas ?to1 ?b \<and> only_if_absent p")
      case True
      then have "\<not> replaces p" using replaces_not_only_if_absent p_def by blast
      with True to1 e' have "t = ?to1" "\<And>x. dget ?to1 x = dget to x" "dget to ?b \<noteq> None"
        by (simp_all add: dhas_def)
      with True show ?thesis unfolding tk
        by (auto simp: kv PList entry_value_def p_def)
    next
      case False
      with e' obtain t0 t1 where t: "list_at ?to1 ?b = Some t0" "t = dset ?b (PList t1) ?to1"
        "MergeLists rp g t0 l tf ff (IsPathSection g ?b) (appends p) = Inr t1" by auto
      have t0: "t0 = (if replaces p then [] else case dget to ?b of Some (PList x) \<Rightarrow> x | _ \<Rightarrow> [])"
        using list_at_eq[OF t(1)] to1 by auto
      have na: "\<not> (only_if_absent p \<and> dget to ?b \<noteq> None)"
        using False to1[of ?b] by (auto simp: dhas_def split: if_splits)
      show ?thesis unfolding tk using t to1 na unfolding t0
        by (auto simp: kv PList entry_value_def p_def Let_def)
    qed
  next
    case PNone
    with e kv show ?thesis by (simp add: merge_entry_None)
  qed (use scalar in simp_all)
qed

section \<open>The list policies\<close>

definition place_all :: "bool \<Rightarrow> pyval list \<Rightarrow> pyval list \<Rightarrow> pyval list \<times> pyval list \<times> nat
    \<Rightarrow> pyval list \<times> pyval list \<times> nat" where
  "place_all app items copies st =
     fold (\<lambda>(item, c). place_item app (is_singleton item) (is_scalar c) c) (zip items copies) st"

lemma MergeLists_loop_place_all:
  "MergeLists_loop rp g tf ff ip app fro st =
     rbind (rmap (copy_item rp g tf ff ip) fro) (\<lambda>cs. Inr (place_all app fro cs st))"
proof (induction fro arbitrary: st)
  case (Cons item fro)
  then show ?case
    by (cases "copy_item rp g tf ff ip item")
      (simp_all add: MergeLists_loop_step rbind_assoc place_all_def)
qed (simp add: place_all_def MergeLists_loop.simps)

text \<open>Appending, with plain list membership.\<close>

definition append_new :: "(pyval \<times> pyval) list \<Rightarrow> pyval list \<Rightarrow> pyval list" where
  "append_new ics to =
     fold (\<lambda>(item, c) to. if is_singleton item \<and> c \<in> set to then to else to @ [c]) ics to"

lemma place_all_append:
  assumes "set hset = {x \<in> set to. is_scalar x}"
  shows "fst (place_all True items copies (to, hset, i)) = append_new (zip items copies) to"
proof -
  define ics where "ics = zip items copies"
  have "fst (fold (\<lambda>(item, c). place_item True (is_singleton item) (is_scalar c) c) ics (to, hset, i))
      = append_new ics to"
    using assms
  proof (induction ics arbitrary: to hset)
    case (Cons ic ics)
    obtain item c where ic: "ic = (item, c)" by fastforce
    have mem: "is_in_set_or_list (is_scalar c) c hset to \<longleftrightarrow> c \<in> set to"
      using Cons.prems by (auto simp: is_in_set_or_list_def)
    show ?case
    proof (cases "is_singleton item \<and> c \<in> set to")
      case True
      then show ?thesis
        using Cons.IH[OF Cons.prems] by (simp add: ic place_item_def mem append_new_def)
    next
      case False
      have "set (if is_scalar c then c # hset else hset) = {x \<in> set (to @ [c]). is_scalar x}"
        using Cons.prems by auto
      from Cons.IH[OF this] False show ?thesis
        by (simp add: ic place_item_def mem append_new_def Let_def del: fold_simps(2)) (auto simp: append_new_def)
    qed
  qed (simp add: append_new_def)
  then show ?thesis by (simp add: place_all_def ics_def)
qed

text \<open>C24.  Merging a list by appending copies every item (an item whose copy raises stops the
  merge with that error) and appends each copy in order, except that a singleton (an integer, or
  a string that does not start with a dash) that the list already holds is skipped: the set of
  hashable items that the loop keeps beside the list for speed gives the same answers as looking
  through the list.\<close>

theorem MergeLists_append_eq:
  "MergeLists rp g to fro to_file fro_file is_paths True =
     rbind (rmap (copy_item rp g to_file fro_file is_paths) fro)
       (\<lambda>cs. Inr (append_new (zip fro cs) to))"
  by (cases "rmap (copy_item rp g to_file fro_file is_paths) fro")
    (simp_all add: MergeLists_def MergeLists_loop_place_all place_all_append)

text \<open>The copies of the items that may occur only once.\<close>

definition singleton_copies :: "pyval list \<Rightarrow> pyval list \<Rightarrow> pyval list" where
  "singleton_copies items copies = map snd (filter (\<lambda>(item, c). is_singleton item) (zip items copies))"

lemma removeAll_append_notin: "x \<notin> set xs \<Longrightarrow> removeAll x (xs @ ys) = xs @ removeAll x ys"
  by simp

lemma place_all_prepend:
  assumes "length copies = length items"
    and "\<And>i. i < length items \<Longrightarrow> is_singleton (items ! i) \<Longrightarrow>
      copies ! i \<notin> set done_copies \<union> set (take i copies)"
  shows "fst (place_all False items copies (done_copies @ to, hset, length done_copies)) =
    done_copies @ copies @ filter (\<lambda>x. x \<notin> set (singleton_copies items copies)) to"
  using assms
proof (induction items copies arbitrary: done_copies to hset rule: list_induct2')
  case (4 item items c copies)
  have first: "c \<notin> set done_copies" if "is_singleton item"
    using "4.prems"(2)[of 0] that by simp
  have ih: "fst (place_all False items copies ((done_copies @ [c]) @ to', hs, length (done_copies @ [c]))) =
      (done_copies @ [c]) @ copies @ filter (\<lambda>x. x \<notin> set (singleton_copies items copies)) to'"
    for to' hs
  proof (rule "4.IH")
    show "length copies = length items" using "4.prems"(1) by simp
    show "copies ! i \<notin> set (done_copies @ [c]) \<union> set (take i copies)"
      if "i < length items" "is_singleton (items ! i)" for i
      using "4.prems"(2)[of "Suc i"] that by simp
  qed
  let ?to' = "if is_singleton item then removeAll c to else to"
  have step: "place_item False (is_singleton item) (is_scalar c) c (done_copies @ to, hset, length done_copies)
      = ((done_copies @ [c]) @ ?to', if is_scalar c then c # hset else hset,
         length (done_copies @ [c]))"
    using first by (auto simp: place_item_def list_insert_def Let_def)
  have "fst (place_all False (item # items) (c # copies) (done_copies @ to, hset, length done_copies))
      = (done_copies @ [c]) @ copies @ filter (\<lambda>x. x \<notin> set (singleton_copies items copies)) ?to'"
    using ih step by (simp add: place_all_def)
  also have "filter (\<lambda>x. x \<notin> set (singleton_copies items copies)) ?to'
      = filter (\<lambda>x. x \<notin> set (singleton_copies (item # items) (c # copies))) to"
    by (simp add: singleton_copies_def removeAll_filter_not_eq neq_commute)
  finally show ?case by simp
qed (simp_all add: place_all_def singleton_copies_def)

text \<open>Merging a list by prepending (the policy \<open>+\<close>) puts the copies of all its items, in
  their own order, before what was there, and drops the occurrences of the prepended singletons
  from the rest, provided no prepended singleton is listed twice.\<close>

theorem MergeLists_prepend:
  assumes "rmap (copy_item rp g to_file fro_file is_paths) fro = Inr cs"
    and "\<forall>i < length fro. is_singleton (fro ! i) \<longrightarrow> cs ! i \<notin> set (take i cs)"
  shows "MergeLists rp g to fro to_file fro_file is_paths False =
    Inr (cs @ filter (\<lambda>x. x \<notin> set (singleton_copies fro cs)) to)"
  using place_all_prepend[of cs fro "[]" to "filter is_scalar to"] assms rmap_length[OF assms(1)]
  by (simp add: MergeLists_def MergeLists_loop_place_all)

theorem MergeLists_prepend_witness:
  "MergeLists id \<lparr>path_sections = [], non_configuration_keys = [], multiple_toolsets = False,
        generator_filelist_paths = None\<rparr> [PStr ''a'', PStr ''-x'', PStr ''b'']
      [PStr ''b'', PStr ''-x''] ''f'' ''f'' False False
    = Inr [PStr ''b'', PStr ''-x'', PStr ''a'', PStr ''-x'']"
proof -
  let ?g = "\<lparr>path_sections = [], non_configuration_keys = [], multiple_toolsets = False,
        generator_filelist_paths = None\<rparr>"
  have c: "rmap (copy_item id ?g ''f'' ''f'' False) [PStr ''b'', PStr ''-x'']
      = Inr [PStr ''b'', PStr ''-x'']" by code_simp
  have d: "\<forall>i < length [PStr ''b'', PStr ''-x'']. is_singleton ([PStr ''b'', PStr ''-x''] ! i) \<longrightarrow>
      [PStr ''b'', PStr ''-x''] ! i \<notin> set (take i [PStr ''b'', PStr ''-x''])" by code_simp
  have f: "filter (\<lambda>x. x \<notin> set (singleton_copies [PStr ''b'', PStr ''-x''] [PStr ''b'', PStr ''-x'']))
      [PStr ''a'', PStr ''-x'', PStr ''b''] = [PStr ''a'', PStr ''-x'']" by code_simp
  show ?thesis using MergeLists_prepend[OF c d, of "[PStr ''a'', PStr ''-x'', PStr ''b'']"] f by simp
qed

text \<open>The comment of the loop says that a prepended singleton ends up at the earliest possible
  position.  A singleton listed twice does not: its first copy is removed again, the insertion
  index has already moved, and the second copy lands behind an item of the old list.\<close>

lemma MergeLists_prepend_duplicate:
  "MergeLists id \<lparr>path_sections = [], non_configuration_keys = [], multiple_toolsets = False,
        generator_filelist_paths = None\<rparr> [PStr ''x'']
      [PStr ''a'', PStr ''b'', PStr ''a''] ''f'' ''f'' False False
    = Inr [PStr ''b'', PStr ''x'', PStr ''a'']"
  by code_simp

section \<open>What a merge gives each key\<close>

text \<open>Stated apart from the loops and their policy records: the key that an entry is about, and the list
  that its policy, the last character of the key, makes of the old list \<open>old\<close>.  A list that is
  prepended to is pinned when it repeats no singleton.\<close>

definition base_key :: "string \<Rightarrow> string" where
  "base_key k = (if suffix ''='' k \<or> suffix ''+'' k \<or> suffix ''?'' k then butlast k else k)"

definition merged_list :: "string \<Rightarrow> pyval list \<Rightarrow> pyval list \<Rightarrow> pyval list \<Rightarrow> pyval list \<Rightarrow> bool" where
  "merged_list k old items copies new =
     (if suffix ''='' k then new = append_new (zip items copies) []
      else if suffix ''+'' k then
        (\<forall>i < length items. is_singleton (items ! i) \<longrightarrow> copies ! i \<notin> set (take i copies)) \<longrightarrow>
        new = copies @ filter (\<lambda>x. x \<notin> set (singleton_copies items copies)) old
      else new = append_new (zip items copies) old)"

definition merged_value :: "(string \<Rightarrow> string) \<Rightarrow> gyp_globals \<Rightarrow> string \<Rightarrow> string
    \<Rightarrow> pyval option \<Rightarrow> string \<times> pyval \<Rightarrow> pyval \<Rightarrow> bool" where
  "merged_value rp g to_file fro_file old kv new =
     (case kv of
        (k, PDict d) \<Rightarrow>
          (\<exists>t. MergeDicts rp g (case old of Some (PDict t0) \<Rightarrow> t0 | _ \<Rightarrow> []) d to_file fro_file = Inr t
             \<and> new = PDict t)
      | (k, PList l) \<Rightarrow>
          if suffix ''?'' k \<and> old \<noteq> None then old = Some new
          else (\<exists>copies r. rmap (copy_item rp g to_file fro_file (IsPathSection g (base_key k))) l = Inr copies
             \<and> merged_list k (case old of Some (PList t0) \<Rightarrow> t0 | _ \<Rightarrow> []) l copies r
             \<and> new = PList r)
      | (k, PNone) \<Rightarrow> False
      | (k, v) \<Rightarrow> (if IsPathSection g k then MakePathRelative rp to_file fro_file v else Inr v) = Inr new)"

text \<open>The entries of a key, one after the other.\<close>

primrec merged_values :: "(string \<Rightarrow> string) \<Rightarrow> gyp_globals \<Rightarrow> string \<Rightarrow> string
    \<Rightarrow> pyval option \<Rightarrow> (string \<times> pyval) list \<Rightarrow> pyval option \<Rightarrow> bool" where
  "merged_values rp g to_file fro_file old [] new = (new = old)"
| "merged_values rp g to_file fro_file old (kv # kvs) new =
     (\<exists>v. merged_value rp g to_file fro_file old kv v \<and> merged_values rp g to_file fro_file (Some v) kvs new)"

definition about_key :: "string \<Rightarrow> string \<times> pyval \<Rightarrow> bool" where
  "about_key x kv = (x = (case snd kv of PList l \<Rightarrow> base_key (fst kv) | _ \<Rightarrow> fst kv))"

lemma suffix_char: "suffix [c] k \<longleftrightarrow> k \<noteq> [] \<and> last k = c"
  by (metis append_butlast_last_id last_snoc snoc_eq_iff_butlast suffix_def)

lemma merge_policy_base: "k \<noteq> [] \<Longrightarrow> list_base (merge_policy_of k) = base_key k"
  by (simp add: merge_policy_of_def base_key_def suffix_char Let_def)

lemma entry_list_merged:
  assumes "entry_value rp g tf ff old (k, PList l) new" "k \<noteq> []"
  shows "merged_value rp g tf ff old (k, PList l) new"
proof -
  let ?p = "merge_policy_of k" and ?ip = "IsPathSection g (base_key k)"
  let ?old = "case old of Some (PList t0) \<Rightarrow> t0 | _ \<Rightarrow> []"
  have absent: "only_if_absent ?p \<longleftrightarrow> suffix ''?'' k" and eq: "replaces ?p \<longleftrightarrow> suffix ''='' k"
    and app: "appends ?p \<longleftrightarrow> \<not> suffix ''+'' k"
    using assms(2) by (auto simp: merge_policy_of_def suffix_char Let_def)
  show ?thesis
  proof (cases "suffix ''?'' k \<and> old \<noteq> None")
    case False
    with assms obtain r where r: "MergeLists rp g (if replaces ?p then [] else ?old) l tf ff ?ip (appends ?p) = Inr r"
      "new = PList r" by (auto simp: entry_value_def absent merge_policy_base Let_def)
    then obtain cs where cs: "rmap (copy_item rp g tf ff ?ip) l = Inr cs"
      by (cases "rmap (copy_item rp g tf ff ?ip) l") (auto simp: MergeLists_def MergeLists_loop_place_all)
    have "merged_list k ?old l cs r"
      using r(1) cs MergeLists_prepend[OF cs, of ?old]
      by (auto simp: merged_list_def eq app MergeLists_append_eq suffix_char)
    with False cs r(2) show ?thesis by (auto simp: merged_value_def)
  qed (use assms in \<open>auto simp: entry_value_def merged_value_def absent\<close>)
qed

lemma merge_entry_step:
  assumes "merge_entry rp g tf ff fro kv to = Inr t"
  shows "if about_key x kv then (\<exists>v. dget t x = Some v \<and> merged_value rp g tf ff (dget to x) kv v)
    else dget t x = dget to x"
proof -
  obtain k v where kv: "kv = (k, v)" by fastforce
  have key: "k \<noteq> []" if "v = PList l" for l
    using assms by (auto simp: kv that merge_entry_def)
  have target: "about_key x kv \<longleftrightarrow> x = target_key kv"
    by (cases v) (auto simp: about_key_def target_key_def kv merge_policy_base key)
  have "merged_value rp g tf ff old kv new" if "entry_value rp g tf ff old kv new" for old new
  proof (cases v)
    case (PList l)
    with that key show ?thesis by (simp add: kv entry_list_merged)
  qed (use that in \<open>auto simp: kv entry_value_def merged_value_def\<close>)
  with merge_entry_spec[OF assms] target show ?thesis by auto
qed



end
