(* ===== verification/Gyp_Config.thy ===== *)
theory Gyp_Config
  imports Gyp_Merge
begin

text \<open>
  Configurations of a target (\<open>tools/gyp/pylib/gyp/input.py\<close>): \<open>MergeConfigWithInheritance\<close> and
  \<open>SetUpConfigurations\<close>.  Both mutate the target dictionary; the model returns the new one.
\<close>

section \<open>Inheritance\<close>

text \<open>The configuration names come from \<open>inherit_from\<close> lists, so they are values, not yet known
  to be strings.\<close>

definition config_of :: "pydict \<Rightarrow> pyval \<Rightarrow> pyval res" where
  "config_of target_dict configuration =
     rbind (dlookup target_dict ''configurations'') (\<lambda>cs. py_getitem cs configuration)"

definition config_names :: "pydict \<Rightarrow> string list" where
  "config_names target_dict =
     (case dget target_dict ''configurations'' of Some (PDict cs) \<Rightarrow> dkeys cs | _ \<Rightarrow> [])"

text \<open>The positions at which a list or string of configurations could be indexed bound the depth
  in the (ill-typed) case that \<open>configurations\<close> is not a dictionary.\<close>

definition config_space :: "pydict \<Rightarrow> pyval set" where
  "config_space target_dict =
     (case dget target_dict ''configurations'' of
        Some (PDict cs) \<Rightarrow> PStr ` set (dkeys cs)
      | Some (PList l) \<Rightarrow> PInt ` {- int (length l) ..< int (length l)}
      | Some (PStr s) \<Rightarrow> PInt ` {- int (length s) ..< int (length s)}
      | _ \<Rightarrow> {})"

lemma finite_config_space: "finite (config_space td)"
  by (auto simp: config_space_def split: option.splits pyval.splits)

lemma list_index_Inr: "list_index l i = Inr x \<Longrightarrow> i \<in> {- int (length l) ..< int (length l)}"
  by (auto simp: list_index_def split: if_splits)

lemma config_of_space:
  assumes "config_of td c = Inr v"
  shows "c \<in> config_space td"
proof -
  from assms obtain cs where cs: "dget td ''configurations'' = Some cs" "py_getitem cs c = Inr v"
    by (auto simp: config_of_def)
  show ?thesis
  proof (cases cs)
    case (PDict d)
    with cs show ?thesis
      by (auto simp: config_space_def py_getitem_PDict_Inr dest!: map_of_SomeD) force
  next
    case (PList l)
    with cs list_index_Inr[of l] show ?thesis
      by (cases c) (auto simp: config_space_def py_getitem_def)
  next
    case (PStr s)
    with cs list_index_Inr[of s] show ?thesis
      by (cases c) (auto simp: config_space_def py_getitem_def)
  qed (use cs in \<open>simp_all add: py_getitem_def\<close>)
qed

function MergeConfigWithInheritance :: "(string \<Rightarrow> string) \<Rightarrow> gyp_globals \<Rightarrow> pydict \<Rightarrow> string
    \<Rightarrow> pydict \<Rightarrow> pyval \<Rightarrow> pyval list \<Rightarrow> pydict res" where
  "MergeConfigWithInheritance rp g new_configuration_dict build_file target_dict configuration visited =
     (if configuration \<in> set visited then Inr new_configuration_dict
      else
        rbind (config_of target_dict configuration) (\<lambda>configuration_dict.
        rbind (py_get configuration_dict ''inherit_from'' (PList [])) (\<lambda>inherit_from.
        rbind (py_iter inherit_from) (\<lambda>parents.
        rbind (rfold (\<lambda>parent new.
                 MergeConfigWithInheritance rp g new build_file target_dict parent
                   (visited @ [configuration])) parents new_configuration_dict) (\<lambda>new.
        rbind (as_dict ''iteritems'' configuration_dict) (\<lambda>d.
        rbind (MergeDicts rp g new d build_file build_file) (\<lambda>new.
          Inr (if dhas new ''abstract'' then ddel ''abstract'' new else new))))))))"
  by pat_completeness auto
termination
proof (relation "measure (\<lambda>(rp, g, new, bf, td, c, vs). card (config_space td - set vs))", simp)
  fix td :: pydict and c :: pyval and vs :: "pyval list" and cd
  assume "c \<notin> set vs" "config_of td c = Inr cd"
  then have "config_space td - set (vs @ [c]) \<subset> config_space td - set vs"
    using config_of_space[of td c cd] by auto
  from psubset_card_mono[OF _ this] finite_config_space[of td]
  have lt: "card (config_space td - set (vs @ [c])) < card (config_space td - set vs)" by simp
  show "((rp :: string \<Rightarrow> string, g :: gyp_globals, new' :: pydict, bf :: string, td, p :: pyval, vs @ [c]),
      rp, g, new :: pydict, bf, td, c, vs)
      \<in> measure (\<lambda>(rp, g, new, bf, td, c, vs). card (config_space td - set vs))" for rp g new' bf p new
    using lt by simp
qed

declare MergeConfigWithInheritance.simps [simp del]

lemmas MergeConfig_simps = MergeConfigWithInheritance.simps

section \<open>Setting up the configurations of a target\<close>

definition key_suffixes :: "string list" where
  "key_suffixes = [''='', ''+'', ''?'', ''!'', ''/'']"

text \<open>A key without its suffix character; \<open>key[-1:]\<close> of the empty key is empty.\<close>

definition key_base :: "string \<Rightarrow> string" where
  "key_base key = (if key \<noteq> [] \<and> [last key] \<in> set key_suffixes then butlast key else key)"

definition configurations_of :: "string \<Rightarrow> pydict \<Rightarrow> pydict res" where
  "configurations_of method target_dict =
     rbind (dlookup target_dict ''configurations'') (as_dict method)"

definition is_abstract :: "pyval \<Rightarrow> bool res" where
  "is_abstract v = rbind (py_get v ''abstract'' PNone) (\<lambda>a. Inr (truthy a))"

text \<open>The first statements: defaults for the two keys.\<close>

definition default_configurations :: "pydict \<Rightarrow> pydict res" where
  "default_configurations target_dict =
     (let td = (if dhas target_dict ''configurations'' then target_dict
                else dset ''configurations'' (PDict [(''Default'', PDict [])]) target_dict)
      in if dhas td ''default_configuration'' then Inr td
         else
           rbind (configurations_of ''iterkeys'' td) (\<lambda>cs.
           rbind (rmap (\<lambda>kv. rbind (is_abstract (snd kv)) (\<lambda>a. Inr (fst kv, a))) cs) (\<lambda>marks.
           case sort (map fst (filter (\<lambda>m. \<not> snd m) marks)) of
             [] \<Rightarrow> Inl IndexError
           | c # _ \<Rightarrow> Inr (dset ''default_configuration'' (PStr c) td))))"

text \<open>The copy of the target without the keys that do not belong in a configuration.\<close>

definition configuration_part :: "gyp_globals \<Rightarrow> pydict \<Rightarrow> pydict" where
  "configuration_part g target_dict =
     fold ddel (filter (\<lambda>key. key_base key \<in> set (non_configuration_keys g)) (dkeys target_dict))
       target_dict"

definition target_part :: "gyp_globals \<Rightarrow> pydict \<Rightarrow> pydict" where
  "target_part g target_dict =
     fold ddel (filter (\<lambda>key. key_base key \<notin> set (non_configuration_keys g)) (dkeys target_dict))
       target_dict"

definition set_configuration :: "string \<Rightarrow> pyval \<Rightarrow> pydict \<Rightarrow> pydict res" where
  "set_configuration configuration v target_dict =
     rbind (configurations_of ''__setitem__'' target_dict) (\<lambda>cs.
       Inr (dset ''configurations'' (PDict (dset configuration v cs)) target_dict))"

definition expand_configuration :: "(string \<Rightarrow> string) \<Rightarrow> gyp_globals \<Rightarrow> string \<Rightarrow> string
    \<Rightarrow> pydict \<Rightarrow> pydict res" where
  "expand_configuration rp g build_file configuration target_dict =
     rbind (config_of target_dict (PStr configuration)) (\<lambda>old.
     rbind (is_abstract old) (\<lambda>a.
       if a then Inr target_dict
       else
         rbind (MergeConfigWithInheritance rp g (configuration_part g target_dict) build_file
                  target_dict (PStr configuration) []) (\<lambda>new.
           set_configuration configuration (PDict new) target_dict)))"

definition drop_if_abstract :: "string \<Rightarrow> pydict \<Rightarrow> pydict res" where
  "drop_if_abstract configuration target_dict =
     rbind (configurations_of ''__getitem__'' target_dict) (\<lambda>cs.
     rbind (dlookup cs configuration) (\<lambda>old.
     rbind (is_abstract old) (\<lambda>a.
       Inr (if a then dset ''configurations'' (PDict (ddel configuration cs)) target_dict
            else target_dict))))"

definition check_configuration :: "string \<Rightarrow> string \<times> pyval \<Rightarrow> unit \<Rightarrow> unit res" where
  "check_configuration target kv u =
     rbind (as_dict ''keys'' (snd kv)) (\<lambda>d.
       case find (\<lambda>key. key \<in> set invalid_configuration_keys) (dkeys d) of
         Some key \<Rightarrow> Inl (GypError (key @ '' not allowed in the '' @ fst kv
                       @ '' configuration, found in target '' @ target))
       | None \<Rightarrow> Inr ())"

definition SetUpConfigurations :: "(string \<Rightarrow> string) \<Rightarrow> gyp_globals \<Rightarrow> string \<Rightarrow> pydict \<Rightarrow> pydict res" where
  "SetUpConfigurations rp g target target_dict =
     (let build_file = (case BuildFile target of Some f \<Rightarrow> f | None \<Rightarrow> []) in
      rbind (default_configurations target_dict) (\<lambda>td.
      rbind (configurations_of ''keys'' td) (\<lambda>cs.
      rbind (rfold (expand_configuration rp g build_file) (dkeys cs) td) (\<lambda>td.
      rbind (configurations_of ''keys'' td) (\<lambda>cs.
      rbind (rfold drop_if_abstract (dkeys cs) td) (\<lambda>td.
      let td = target_part g td in
      rbind (configurations_of ''keys'' td) (\<lambda>cs.
      rbind (rfold (check_configuration target) cs ()) (\<lambda>_. Inr td))))))))"

section \<open>Facts about the parts\<close>

lemma fold_ddel_filter: "fold ddel ks d = filter (\<lambda>kv. fst kv \<notin> set ks) d"
proof (induction ks arbitrary: d)
  case (Cons k ks)
  then show ?case by (auto simp: ddel_def AList.delete_eq intro: filter_cong)
qed simp

lemma configuration_part_filter:
  "configuration_part g td = filter (\<lambda>kv. key_base (fst kv) \<notin> set (non_configuration_keys g)) td"
  by (auto simp: configuration_part_def fold_ddel_filter intro!: filter_cong)

lemma target_part_filter:
  "target_part g td = filter (\<lambda>kv. key_base (fst kv) \<in> set (non_configuration_keys g)) td"
  by (auto simp: target_part_def fold_ddel_filter intro!: filter_cong)

lemma dget_filter_fst: "dget (filter (\<lambda>kv. P (fst kv)) d) k = (if P k then dget d k else None)"
  by (induction d) auto

lemma dget_target_part:
  "dget (target_part g td) k = (if key_base k \<in> set (non_configuration_keys g) then dget td k else None)"
  using dget_filter_fst[of "\<lambda>k. key_base k \<in> set (non_configuration_keys g)" td k]
  by (simp add: target_part_filter)

lemma dget_configuration_part:
  "dget (configuration_part g td) k = (if key_base k \<in> set (non_configuration_keys g) then None else dget td k)"
  using dget_filter_fst[of "\<lambda>k. key_base k \<notin> set (non_configuration_keys g)" td k]
  by (simp add: configuration_part_filter)

lemma filter_dset_other: "\<not> P k \<Longrightarrow> filter (\<lambda>kv. P (fst kv)) (dset k v d) = filter (\<lambda>kv. P (fst kv)) d"
  unfolding dset_def by (induction d) auto

lemma configuration_part_dset:
  "key_base k \<in> set (non_configuration_keys g) \<Longrightarrow>
    configuration_part g (dset k v td) = configuration_part g td"
  using filter_dset_other[of "\<lambda>k. key_base k \<notin> set (non_configuration_keys g)" k v td]
  by (simp add: configuration_part_filter)

lemma key_base_ids [simp]:
  "key_base ''configurations'' = ''configurations''"
  "key_base ''default_configuration'' = ''default_configuration''"
  by (simp_all add: key_base_def key_suffixes_def)

lemma is_abstract_dict: "is_abstract v = Inr a \<Longrightarrow> \<exists>d. v = PDict d \<and> a = truthy (dget_default d ''abstract'' PNone)"
  by (auto simp: is_abstract_def)

lemma not_abstract: "\<not> dhas d ''abstract'' \<Longrightarrow> is_abstract (PDict d) = Inr False"
  by (simp add: is_abstract_def py_get_def dget_default_eq)

lemma MergeConfig_not_abstract:
  assumes "MergeConfigWithInheritance rp g new bf td c vs = Inr t" "c \<notin> set vs"
  shows "\<not> dhas t ''abstract''"
  using assms by (subst (asm) MergeConfig_simps)
    (auto split: if_splits dest: arg_cong[where f = "\<lambda>d. dhas d ''abstract''"])

lemma ddel_absent: "\<not> dhas d k \<Longrightarrow> ddel k d = d"
  by (induction d) (auto simp: ddel_def dhas_def split: if_splits)

text \<open>A configuration that inherits from nothing.\<close>

lemma MergeConfig_no_parents:
  assumes "config_of td c = Inr (PDict d)" "\<not> dhas d ''inherit_from''"
  shows "MergeConfigWithInheritance rp g new bf td c [] =
    rbind (MergeDicts rp g new d bf bf) (\<lambda>m. Inr (ddel ''abstract'' m))"
  using assms
  by (subst MergeConfig_simps)
    (auto simp: py_get_def dget_default_eq ddel_absent intro!: rbind_cong)

section \<open>The loops\<close>

text \<open>What expanding the configuration \<open>c\<close> of the target \<open>td\<close> makes of its value.\<close>

definition expanded :: "(string \<Rightarrow> string) \<Rightarrow> gyp_globals \<Rightarrow> string \<Rightarrow> pydict \<Rightarrow> pyval \<Rightarrow> pyval \<Rightarrow> bool" where
  "expanded rp g bf td v w \<longleftrightarrow>
     (\<exists>d. v = PDict d \<and>
       (if truthy (dget_default d ''abstract'' PNone) then w = v
        else (\<exists>e. w = PDict e \<and> \<not> dhas e ''abstract'' \<and>
          (\<not> dhas d ''inherit_from'' \<longrightarrow>
             (\<exists>m. MergeDicts rp g (configuration_part g td) d bf bf = Inr m
                \<and> e = ddel ''abstract'' m)))))"

lemma expand_configuration_step:
  assumes e: "expand_configuration rp g bf c td = Inr t"
    and cs: "dget td ''configurations'' = Some (PDict cs)"
  shows "\<exists>v w. dget cs c = Some v \<and> expanded rp g bf td v w \<and>
    dget t ''configurations'' = Some (PDict (dset c w cs)) \<and>
    t = dset ''configurations'' (PDict (dset c w cs)) td"
proof -
  from e cs obtain v a where v: "dget cs c = Some v" "is_abstract v = Inr a"
    and r: "if a then t = td
      else (\<exists>new. MergeConfigWithInheritance rp g (configuration_part g td) bf td (PStr c) [] = Inr new
        \<and> t = dset ''configurations'' (PDict (dset c (PDict new) cs)) td)"
    by (auto simp: expand_configuration_def config_of_def set_configuration_def
        configurations_of_def split: if_splits)
  obtain d where d: "v = PDict d" "a = truthy (dget_default d ''abstract'' PNone)"
    using is_abstract_dict[OF v(2)] by blast
  show ?thesis
  proof (cases a)
    case True
    then have "t = dset ''configurations'' (PDict (dset c v cs)) td"
      using r cs v by (simp add: dset_same)
    then show ?thesis using v d True by (auto simp: expanded_def)
  next
    case False
    with r obtain new where new: "MergeConfigWithInheritance rp g (configuration_part g td) bf td (PStr c) [] = Inr new"
      "t = dset ''configurations'' (PDict (dset c (PDict new) cs)) td" by auto
    have "config_of td (PStr c) = Inr (PDict d)" using cs v d by (simp add: config_of_def)
    from MergeConfig_no_parents[OF this] new(1)
    have "\<exists>m. MergeDicts rp g (configuration_part g td) d bf bf = Inr m \<and> new = ddel ''abstract'' m"
      if "\<not> dhas d ''inherit_from''" using that by auto
    then have "expanded rp g bf td v (PDict new)"
      using d False MergeConfig_not_abstract[OF new(1)] by (auto simp: expanded_def)
    with new v show ?thesis by (intro exI[of _ v] exI[of _ "PDict new"]) simp
  qed
qed

lemma expanded_dset:
  "''configurations'' \<in> set (non_configuration_keys g) \<Longrightarrow>
    expanded rp g bf (dset ''configurations'' x td) v w = expanded rp g bf td v w"
  by (simp add: expanded_def configuration_part_dset)

lemma expand_loop:
  assumes "rfold (expand_configuration rp g bf) xs td = Inr t"
    and "dget td ''configurations'' = Some (PDict cs)" "distinct xs"
    and nck: "''configurations'' \<in> set (non_configuration_keys g)"
  shows "\<exists>cs'. t = dset ''configurations'' (PDict cs') td
    \<and> dkeys cs' = (if set xs \<subseteq> set (dkeys cs) then dkeys cs else dkeys cs')
    \<and> (\<forall>c. c \<notin> set xs \<longrightarrow> dget cs' c = dget cs c)
    \<and> (\<forall>c \<in> set xs. \<exists>v w. dget cs c = Some v \<and> dget cs' c = Some w \<and> expanded rp g bf td v w)"
  using assms(1-3)
proof (induction xs arbitrary: td cs)
  case Nil
  then show ?case by (intro exI[of _ cs]) (simp add: dset_same)
next
  case (Cons c xs)
  then obtain u where u: "expand_configuration rp g bf c td = Inr u"
    "rfold (expand_configuration rp g bf) xs u = Inr t" by auto
  from expand_configuration_step[OF u(1) Cons.prems(2)] obtain v w where
    vw: "dget cs c = Some v" "expanded rp g bf td v w"
      "dget u ''configurations'' = Some (PDict (dset c w cs))"
      "u = dset ''configurations'' (PDict (dset c w cs)) td" by blast
  have c: "c \<in> set (dkeys cs)" using vw(1) by (force dest: map_of_SomeD)
  then have keys: "dkeys (dset c w cs) = dkeys cs" by (simp add: dkeys_dset)
  from Cons.IH[OF u(2) vw(3)] Cons.prems(3) obtain cs' where cs':
    "t = dset ''configurations'' (PDict cs') u"
    "dkeys cs' = (if set xs \<subseteq> set (dkeys cs) then dkeys cs else dkeys cs')"
    "\<forall>x. x \<notin> set xs \<longrightarrow> dget cs' x = dget (dset c w cs) x"
    "\<forall>x \<in> set xs. \<exists>v w'. dget (dset c w cs) x = Some v \<and> dget cs' x = Some w'
        \<and> expanded rp g bf u v w'"
    unfolding keys by auto
  have "t = dset ''configurations'' (PDict cs') td" using cs'(1) vw(4) by simp
  moreover have "dkeys cs' = (if set (c # xs) \<subseteq> set (dkeys cs) then dkeys cs else dkeys cs')"
    using cs'(2) by auto
  moreover have "\<forall>x. x \<notin> set (c # xs) \<longrightarrow> dget cs' x = dget cs x" using cs'(3) by simp
  moreover have "\<exists>v w. dget cs x = Some v \<and> dget cs' x = Some w \<and> expanded rp g bf td v w"
    if x: "x \<in> set (c # xs)" for x
  proof (cases "x = c")
    case True
    then show ?thesis using cs'(3) Cons.prems(3) vw(1,2) by simp
  next
    case False
    with x cs'(4) show ?thesis using expanded_dset[OF nck] vw(4) by auto
  qed
  ultimately show ?case by blast
qed

lemma drop_loop:
  assumes "rfold drop_if_abstract xs td = Inr t"
    and "dget td ''configurations'' = Some (PDict cs)" "distinct xs"
  shows "\<exists>cs'. t = dset ''configurations'' (PDict cs') td
    \<and> (\<forall>c. c \<notin> set xs \<longrightarrow> dget cs' c = dget cs c)
    \<and> (\<forall>c \<in> set xs. \<exists>d. dget cs c = Some (PDict d)
         \<and> dget cs' c = (if truthy (dget_default d ''abstract'' PNone) then None else Some (PDict d)))"
  using assms
proof (induction xs arbitrary: td cs)
  case Nil
  then show ?case by (intro exI[of _ cs]) (simp add: dset_same)
next
  case (Cons c xs)
  then obtain u where u: "drop_if_abstract c td = Inr u" "rfold drop_if_abstract xs u = Inr t" by auto
  from u(1) Cons.prems(2) obtain d where d: "dget cs c = Some (PDict d)"
    "u = (if truthy (dget_default d ''abstract'' PNone)
          then dset ''configurations'' (PDict (ddel c cs)) td else td)"
    by (auto simp: drop_if_abstract_def configurations_of_def is_abstract_def)
  define cs1 where "cs1 = (if truthy (dget_default d ''abstract'' PNone) then ddel c cs else cs)"
  have "dget u ''configurations'' = Some (PDict cs1)" using d Cons.prems(2) by (simp add: cs1_def)
  from Cons.IH[OF u(2) this] Cons.prems(3) obtain cs' where cs':
    "t = dset ''configurations'' (PDict cs') u"
    "\<forall>x. x \<notin> set xs \<longrightarrow> dget cs' x = dget cs1 x"
    "\<forall>x \<in> set xs. \<exists>d. dget cs1 x = Some (PDict d)
         \<and> dget cs' x = (if truthy (dget_default d ''abstract'' PNone) then None else Some (PDict d))"
    by auto
  have "t = dset ''configurations'' (PDict cs') td" using cs'(1) d(2) by auto
  moreover have "\<forall>x. x \<notin> set (c # xs) \<longrightarrow> dget cs' x = dget cs x"
    using cs'(2) by (simp add: cs1_def)
  moreover have "\<forall>x \<in> set (c # xs). \<exists>d. dget cs x = Some (PDict d)
         \<and> dget cs' x = (if truthy (dget_default d ''abstract'' PNone) then None else Some (PDict d))"
    using cs'(2,3) d(1) Cons.prems(3) by (auto simp: cs1_def split: if_splits)
  ultimately show ?case by blast
qed

lemma check_loop:
  assumes "rfold (check_configuration target) cs () = Inr ()" "(c, v) \<in> set cs"
  shows "\<exists>d. v = PDict d \<and> (\<forall>k \<in> set invalid_configuration_keys. \<not> dhas d k)"
  using assms
  by (induction cs) (auto simp: check_configuration_def dhas_iff find_None_iff split: option.splits)

section \<open>What a target looks like afterwards\<close>

text \<open>What becomes of one configuration: an abstract one goes, a concrete one is expanded.\<close>

definition outcome :: "(string \<Rightarrow> string) \<Rightarrow> gyp_globals \<Rightarrow> string \<Rightarrow> pydict
    \<Rightarrow> pyval option \<Rightarrow> pyval option \<Rightarrow> bool" where
  "outcome rp g bf td old new =
     (case old of
        None \<Rightarrow> new = None
      | Some v \<Rightarrow> (\<exists>d. v = PDict d \<and>
          (if truthy (dget_default d ''abstract'' PNone) then new = None
           else \<exists>w. new = Some w \<and> expanded rp g bf td v w)))"

definition initial_configurations :: "pydict \<Rightarrow> pydict \<Rightarrow> bool" where
  "initial_configurations td cs \<longleftrightarrow>
     dget td ''configurations'' =
       (if dhas td ''configurations'' then Some (PDict cs) else None)
     \<and> (\<not> dhas td ''configurations'' \<longrightarrow> cs = [(''Default'', PDict [])])"

lemma default_configurations_spec:
  assumes "default_configurations td = Inr t"
    and "set base_non_configuration_keys \<subseteq> set (non_configuration_keys g)"
    and cs: "configurations_of m t = Inr cs"
  shows "initial_configurations td cs
    \<and> dget t ''configurations'' = Some (PDict cs)
    \<and> configuration_part g t = configuration_part g td
    \<and> (\<forall>k. k \<notin> {''configurations'', ''default_configuration''} \<longrightarrow> dget t k = dget td k)"
proof -
  have nck: "''configurations'' \<in> set (non_configuration_keys g)"
    "''default_configuration'' \<in> set (non_configuration_keys g)"
    using assms(2) by (auto simp: base_non_configuration_keys_def)
  define td1 where "td1 = (if dhas td ''configurations'' then td
                else dset ''configurations'' (PDict [(''Default'', PDict [])]) td)"
  have t: "t = td1 \<or> (\<exists>c. t = dset ''default_configuration'' (PStr c) td1)"
    using assms(1)
    by (auto simp: default_configurations_def td1_def[symmetric] Let_def neq_Nil_conv
        split: list.splits if_splits)
  have 1: "configuration_part g td1 = configuration_part g td"
    by (simp add: td1_def configuration_part_dset nck)
  have 2: "dget td1 k = dget td k" if "k \<noteq> ''configurations''" for k
    using that by (simp add: td1_def)
  have 3: "dget t ''configurations'' = dget td1 ''configurations''" using t by auto
  have 4: "dget t ''configurations'' = Some (PDict cs)"
    using cs by (auto simp: configurations_of_def)
  have "initial_configurations td cs"
    using 4 unfolding 3 by (auto simp: initial_configurations_def td1_def dhas_def split: if_splits)
  with 1 2 4 t nck show ?thesis by (auto simp: configuration_part_dset)
qed

lemma SetUpConfigurations_struct:
  assumes s: "SetUpConfigurations rp g target td = Inr t" and wf: "wf_val (PDict td)"
    and g: "set base_non_configuration_keys \<subseteq> set (non_configuration_keys g)"
  shows "\<exists>cs cs' bf. bf = (case BuildFile target of Some f \<Rightarrow> f | None \<Rightarrow> [])
    \<and> initial_configurations td cs \<and> dget t ''configurations'' = Some (PDict cs')
    \<and> (\<forall>k. k \<notin> {''configurations'', ''default_configuration''} \<longrightarrow>
          dget t k = (if key_base k \<in> set (non_configuration_keys g) then dget td k else None))
    \<and> (\<forall>c. outcome rp g bf td (dget cs c) (dget cs' c))
    \<and> (\<forall>c v. dget cs' c = Some v \<longrightarrow>
          (\<exists>d. v = PDict d \<and> (\<forall>k \<in> set invalid_configuration_keys. \<not> dhas d k)))"
proof -
  define bf where "bf = (case BuildFile target of Some f \<Rightarrow> f | None \<Rightarrow> [])"
  have nck: "''configurations'' \<in> set (non_configuration_keys g)"
    using g by (auto simp: base_non_configuration_keys_def)
  from s obtain td1 cs td2 cs2 td3 cs3 where
    1: "default_configurations td = Inr td1" "configurations_of ''keys'' td1 = Inr cs"
    and 2: "rfold (expand_configuration rp g bf) (dkeys cs) td1 = Inr td2"
      "configurations_of ''keys'' td2 = Inr cs2"
    and 3: "rfold drop_if_abstract (dkeys cs2) td2 = Inr td3"
      "configurations_of ''keys'' (target_part g td3) = Inr cs3"
      "rfold (check_configuration target) cs3 () = Inr ()" "t = target_part g td3"
    by (auto simp: SetUpConfigurations_def Let_def bf_def)
  note d = default_configurations_spec[OF 1(1) g 1(2)]
  then have wfcs: "distinct (dkeys cs)"
    using wf wf_val_dget[OF wf, of "''configurations''"]
    by (cases "dhas td ''configurations''") (auto simp: initial_configurations_def)
  from expand_loop[OF 2(1) _ wfcs nck] d obtain ce where ce:
    "td2 = dset ''configurations'' (PDict ce) td1" "dkeys ce = dkeys cs"
    "\<forall>c. c \<notin> set (dkeys cs) \<longrightarrow> dget ce c = dget cs c"
    "\<forall>c \<in> set (dkeys cs). \<exists>v w. dget cs c = Some v \<and> dget ce c = Some w \<and> expanded rp g bf td1 v w"
    by auto
  have cs2: "cs2 = ce" using 2(2) ce(1) by (auto simp: configurations_of_def)
  from drop_loop[OF 3(1), of ce] ce wfcs obtain cd where cd:
    "td3 = dset ''configurations'' (PDict cd) td2"
    "\<forall>c. c \<notin> set (dkeys cs) \<longrightarrow> dget cd c = dget ce c"
    "\<forall>c \<in> set (dkeys cs). \<exists>d. dget ce c = Some (PDict d)
         \<and> dget cd c = (if truthy (dget_default d ''abstract'' PNone) then None else Some (PDict d))"
    unfolding cs2 by auto
  have t: "dget t k = (if key_base k \<in> set (non_configuration_keys g) then dget td3 k else None)" for k
    by (simp add: 3(4) dget_target_part)
  have tc: "dget t ''configurations'' = Some (PDict cd)" using t nck cd(1) by simp
  have cs3: "cs3 = cd" using 3(2,4) tc by (auto simp: configurations_of_def)
  have ex: "expanded rp g bf td1 v w = expanded rp g bf td v w" for v w
    using d by (simp add: expanded_def)
  have keys: "outcome rp g bf td (dget cs c) (dget cd c)" for c
  proof (cases "c \<in> set (dkeys cs)")
    case True
    with ce(4) obtain v w where vw: "dget cs c = Some v" "dget ce c = Some w" "expanded rp g bf td v w"
      unfolding ex by blast
    moreover from True cd(3) vw(2) obtain d where "w = PDict d"
      "dget cd c = (if truthy (dget_default d ''abstract'' PNone) then None else Some (PDict d))" by auto
    ultimately show ?thesis by (auto simp: outcome_def expanded_def dget_default_eq split: if_splits)
  next
    case False
    then show ?thesis using cd(2) ce(3) by (simp add: outcome_def map_of_eq_None_iff[THEN iffD2])
  qed
  have inv: "\<exists>d. v = PDict d \<and> (\<forall>k \<in> set invalid_configuration_keys. \<not> dhas d k)"
    if "dget cd c = Some v" for c v
    using check_loop[OF 3(3), of c v] that unfolding cs3 by (auto dest: map_of_SomeD)
  have rest: "dget t k = (if key_base k \<in> set (non_configuration_keys g) then dget td k else None)"
    if "k \<notin> {''configurations'', ''default_configuration''}" for k
    using t[of k] cd(1) ce(1) d that by simp
  show ?thesis
    by (rule exI[of _ cs], rule exI[of _ cd], rule exI[of _ bf])
      (intro conjI allI impI bf_def; (rule d[THEN conjunct1] tc keys inv rest; assumption?))
qed

text \<open>C15.  After \<open>SetUpConfigurations\<close> a target holds only the keys that belong to targets, each
  with its old value, and every other key has left; its configurations are exactly the concrete
  ones (or the single default one when the target had none), and none of them is marked abstract
  or holds a key that is not allowed in a configuration.\<close>

theorem SetUpConfigurations_target:
  assumes "SetUpConfigurations rp g target td = Inr t" "wf_val (PDict td)"
    and "set base_non_configuration_keys \<subseteq> set (non_configuration_keys g)"
  shows "\<exists>cs cs'. initial_configurations td cs \<and> dget t ''configurations'' = Some (PDict cs')
    \<and> (\<forall>k. k \<notin> {''configurations'', ''default_configuration''} \<longrightarrow>
          dget t k = (if key_base k \<in> set (non_configuration_keys g) then dget td k else None))
    \<and> (\<forall>c. dhas cs' c \<longleftrightarrow> (\<exists>v. dget cs c = Some v \<and> is_abstract v = Inr False))
    \<and> (\<forall>c v. dget cs' c = Some v \<longrightarrow>
          (\<exists>d. v = PDict d \<and> \<not> dhas d ''abstract''
             \<and> (\<forall>k \<in> set invalid_configuration_keys. \<not> dhas d k)))"
proof -
  from SetUpConfigurations_struct[OF assms] obtain cs cs' bf where s:
    "initial_configurations td cs" "dget t ''configurations'' = Some (PDict cs')"
    "\<forall>k. k \<notin> {''configurations'', ''default_configuration''} \<longrightarrow>
          dget t k = (if key_base k \<in> set (non_configuration_keys g) then dget td k else None)"
    and c: "\<And>c. outcome rp g bf td (dget cs c) (dget cs' c)"
    and i: "\<And>c v. dget cs' c = Some v \<Longrightarrow>
          \<exists>d. v = PDict d \<and> (\<forall>k \<in> set invalid_configuration_keys. \<not> dhas d k)"
    by (elim exE conjE) (rule that; assumption?; blast)
  have "dhas cs' c \<longleftrightarrow> (\<exists>v. dget cs c = Some v \<and> is_abstract v = Inr False)" for c
    using c[of c] by (cases "dget cs c") (auto simp: outcome_def dhas_def is_abstract_def py_get_def split: if_splits)
  moreover have "\<exists>d. v = PDict d \<and> \<not> dhas d ''abstract''
             \<and> (\<forall>k \<in> set invalid_configuration_keys. \<not> dhas d k)" if "dget cs' c = Some v" for c v
    using c[of c] i[OF that] that
    by (cases "dget cs c") (auto simp: outcome_def expanded_def split: if_splits)
  ultimately show ?thesis using s by blast
qed

text \<open>A concrete configuration that inherits from no other becomes the target's
  configurable settings with the configuration's own settings merged over them, less the mark
  \<open>abstract\<close>.\<close>

theorem SetUpConfigurations_plain:
  assumes "SetUpConfigurations rp g target td = Inr t" "wf_val (PDict td)"
    and "set base_non_configuration_keys \<subseteq> set (non_configuration_keys g)"
    and "dget td ''configurations'' = Some (PDict cs)" "dget cs c = Some (PDict d)"
    and "\<not> truthy (dget_default d ''abstract'' PNone)" "\<not> dhas d ''inherit_from''"
    and "BuildFile target = Some build_file"
  shows "\<exists>m cs'. MergeDicts rp g (configuration_part g td) d build_file build_file = Inr m
    \<and> dget t ''configurations'' = Some (PDict cs') \<and> dget cs' c = Some (PDict (ddel ''abstract'' m))"
proof -
  from SetUpConfigurations_struct[OF assms(1-3)] assms(4,8) obtain cs' where
    s: "dget t ''configurations'' = Some (PDict cs')"
    and c: "outcome rp g build_file td (dget cs c) (dget cs' c)"
    by (auto simp: initial_configurations_def dhas_def)
  from c[unfolded outcome_def] assms(5-7) obtain w where "dget cs' c = Some w" "expanded rp g build_file td (PDict d) w"
    by auto
  with assms(6,7) s show ?thesis by (auto simp: expanded_def)
qed

definition sample_target :: pydict where
  "sample_target = [(''type'', PStr ''none''), (''defines'', PList [PStr ''X'']),
     (''configurations'', PDict [(''Base'', PDict [(''abstract'', PInt 1)]),
        (''Debug'', PDict [(''defines'', PList [PStr ''Y''])])])]"

definition sample_done :: pydict where
  "sample_done = [(''type'', PStr ''none''),
     (''configurations'', PDict [(''Debug'', PDict [(''defines'', PList [PStr ''X'', PStr ''Y''])])]),
     (''default_configuration'', PStr ''Debug'')]"

lemma sample_run:
  "SetUpConfigurations id (SetGeneratorGlobals plain_generator) ''a.gyp:t#target'' sample_target
    = Inr sample_done"
  by code_simp

theorem SetUpConfigurations_target_witness:
  "\<exists>cs'. dget sample_done ''configurations'' = Some (PDict cs')
     \<and> \<not> dhas sample_done ''defines'' \<and> (\<forall>v. dget cs' ''Debug'' = Some v \<longrightarrow>
          (\<exists>d. v = PDict d \<and> \<not> dhas d ''abstract''))"
proof -
  have w: "wf_val (PDict sample_target)" by code_simp
  have g: "set base_non_configuration_keys
      \<subseteq> set (non_configuration_keys (SetGeneratorGlobals plain_generator))" by code_simp
  have k: "key_base ''defines'' \<notin> set (non_configuration_keys (SetGeneratorGlobals plain_generator))"
    by code_simp
  from SetUpConfigurations_target[OF sample_run w g] obtain cs' where
    c: "dget sample_done ''configurations'' = Some (PDict cs')"
    and t: "\<forall>k. k \<notin> {''configurations'', ''default_configuration''} \<longrightarrow>
          dget sample_done k = (if key_base k \<in> set (non_configuration_keys
             (SetGeneratorGlobals plain_generator)) then dget sample_target k else None)"
    and v: "\<forall>c v. dget cs' c = Some v \<longrightarrow> (\<exists>d. v = PDict d \<and> \<not> dhas d ''abstract''
             \<and> (\<forall>k \<in> set invalid_configuration_keys. \<not> dhas d k))"
    by (elim exE conjE) (rule that; assumption)
  from t[rule_format, of "''defines''"] k have "\<not> dhas sample_done ''defines''"
    by (simp add: dhas_def)
  with c v show ?thesis by blast
qed

theorem SetUpConfigurations_plain_witness:
  "\<exists>m. MergeDicts id (SetGeneratorGlobals plain_generator)
      (configuration_part (SetGeneratorGlobals plain_generator) sample_target)
      [(''defines'', PList [PStr ''Y''])] ''a.gyp'' ''a.gyp'' = Inr m"
proof -
  have w: "wf_val (PDict sample_target)" by code_simp
  have g: "set base_non_configuration_keys
      \<subseteq> set (non_configuration_keys (SetGeneratorGlobals plain_generator))" by code_simp
  have b: "BuildFile ''a.gyp:t#target'' = Some ''a.gyp''" by code_simp
  have c: "dget sample_target ''configurations'' = Some (PDict [(''Base'', PDict [(''abstract'', PInt 1)]),
        (''Debug'', PDict [(''defines'', PList [PStr ''Y''])])])" by code_simp
  from SetUpConfigurations_plain[OF sample_run w g c _ _ _ b, of "''Debug''" "[(''defines'', PList [PStr ''Y''])]"]
  have "\<exists>m cs'. MergeDicts id (SetGeneratorGlobals plain_generator)
      (configuration_part (SetGeneratorGlobals plain_generator) sample_target)
      [(''defines'', PList [PStr ''Y''])] ''a.gyp'' ''a.gyp'' = Inr m
      \<and> dget sample_done ''configurations'' = Some (PDict cs')
      \<and> dget cs' ''Debug'' = Some (PDict (ddel ''abstract'' m))"
    by (simp add: dhas_def dget_default_def)
  then show ?thesis by blast
qed

text \<open>The loop of \<open>SetUpConfigurations\<close> stores each expanded configuration back before the next
  one is expanded, so a configuration that inherits from a concrete one merges the target's
  settings again when its parent came first: the two orders of the same dictionary differ.\<close>

lemma SetUpConfigurations_order:
  "rmap (\<lambda>configs. rbind (SetUpConfigurations id (SetGeneratorGlobals plain_generator) ''a.gyp:t#target''
       [(''cflags'', PList [PStr ''-g'']), (''configurations'', PDict configs)])
       (\<lambda>t. rbind (config_of t (PStr ''B'')) (\<lambda>b. py_getitem b (PStr ''cflags''))))
     [[(''A'', PDict [(''cflags'', PList [PStr ''-O''])]), (''B'', PDict [(''inherit_from'', PList [PStr ''A''])])],
      [(''B'', PDict [(''inherit_from'', PList [PStr ''A''])]), (''A'', PDict [(''cflags'', PList [PStr ''-O''])])]]
   = Inr [PList [PStr ''-g'', PStr ''-g'', PStr ''-O''], PList [PStr ''-g'', PStr ''-O'']]"
  by code_simp

end
