(* ===== verification/Gyp_Filters.thy ===== *)
theory Gyp_Filters
  imports Gyp_Merge "HOL-Library.Multiset"
begin

text \<open>
  Exclusion and regular-expression filters on lists (\<open>tools/gyp/pylib/gyp/input.py\<close>):
  \<open>ProcessListFiltersInDict\<close> and \<open>ProcessListFiltersInList\<close>.  The patterns are data of the build
  files; the engine of the module \<open>re\<close> is the parameter \<open>compile\<close>, which gives \<open>None\<close> for a
  pattern it rejects and the result of \<open>search\<close> otherwise.
\<close>

section \<open>Collecting the lists to filter\<close>

definition is_operation :: "char \<Rightarrow> bool" where
  "is_operation c = (c = CHR ''!'' \<or> c = CHR ''/'')"

definition filter_key :: "string \<Rightarrow> bool" where
  "filter_key key = (key \<noteq> [] \<and> is_operation (last key))"

text \<open>One round of the first loop: the lists that have a filter, the filters without a list.\<close>

definition collect_filter :: "string \<Rightarrow> pydict \<Rightarrow> string \<times> pyval \<Rightarrow> string list \<times> string list
    \<Rightarrow> (string list \<times> string list) res" where
  "collect_filter name the_dict kv st =
     (case (kv, st) of ((key, v), (lsts, del_lists)) \<Rightarrow>
        if key = [] then Inl IndexError
        else if \<not> is_operation (last key) then Inr (lsts, del_lists)
        else
          (case v of
             PList items \<Rightarrow>
               let list_key = butlast key in
               (case dget the_dict list_key of
                  None \<Rightarrow> Inr (lsts, del_lists @ [key])
                | Some (PList l) \<Rightarrow>
                    Inr (if list_key \<in> set lsts then lsts else lsts @ [list_key], del_lists)
                | Some w \<Rightarrow>
                    Inl (ValueError (name @ '' key '' @ list_key @ '' must be list, not ''
                      @ class_name w @ '' when applying ''
                      @ (if last key = CHR ''!'' then ''exclusion'' else ''regex''))))
           | _ \<Rightarrow> Inl (ValueError (name @ '' key '' @ key @ '' must be list, not '' @ class_name v))))"

section \<open>The actions of one list\<close>

text \<open>The list \<open>list_actions\<close> runs parallel to the list: \<open>-1\<close> no filter yet, \<open>0\<close> exclude, \<open>1\<close>
  include.\<close>

definition apply_exclude :: "pyval list \<Rightarrow> pyval \<Rightarrow> int list \<Rightarrow> int list" where
  "apply_exclude the_list exclude_item list_actions =
     map2 (\<lambda>item a. if exclude_item = item then 0 else a) the_list list_actions"

definition regex_action :: "string \<Rightarrow> string \<Rightarrow> pyval \<Rightarrow> int res" where
  "regex_action name regex_key action =
     (if action = PStr ''exclude'' then Inr 0
      else if action = PStr ''include'' then Inr 1
      else case action of
        PStr a \<Rightarrow> Inl (ValueError (''Unrecognized action '' @ a @ '' in '' @ name @ '' key '' @ regex_key))
      | _ \<Rightarrow> Inl (TypeError ''cannot concatenate str and other objects''))"

definition search_item :: "(string \<Rightarrow> bool) \<Rightarrow> int \<Rightarrow> pyval \<times> int \<Rightarrow> int res" where
  "search_item search action_value ia =
     (case ia of (item, a) \<Rightarrow>
        if a = action_value then Inr a
        else case item of
          PStr s \<Rightarrow> Inr (if search s then action_value else a)
        | _ \<Rightarrow> Inl (TypeError ''expected string or buffer''))"

text \<open>Unpacking, compiling and checking one entry of the list of regular expressions.\<close>

definition regex_rule :: "(string \<Rightarrow> (string \<Rightarrow> bool) option) \<Rightarrow> string \<Rightarrow> string \<Rightarrow> pyval
    \<Rightarrow> (int \<times> (string \<Rightarrow> bool)) res" where
  "regex_rule compile name regex_key regex_item =
     rbind (py_iter regex_item) (\<lambda>parts.
       case parts of
         [action, pattern] \<Rightarrow>
           (case pattern of
              PStr p \<Rightarrow>
                (case compile p of
                   None \<Rightarrow> Inl (RegexError p)
                 | Some search \<Rightarrow>
                     rbind (regex_action name regex_key action) (\<lambda>action_value.
                       Inr (action_value, search)))
            | _ \<Rightarrow> Inl (TypeError ''first argument must be string or compiled pattern''))
       | _ \<Rightarrow> Inl (ValueError ''wrong number of values to unpack''))"

definition apply_regex :: "(string \<Rightarrow> (string \<Rightarrow> bool) option) \<Rightarrow> string \<Rightarrow> string \<Rightarrow> pyval list
    \<Rightarrow> pyval \<Rightarrow> int list \<Rightarrow> int list res" where
  "apply_regex compile name regex_key the_list regex_item list_actions =
     rbind (regex_rule compile name regex_key regex_item) (\<lambda>(action_value, search).
       rmap (search_item search action_value) (zip the_list list_actions))"

text \<open>The last loop runs backwards over the indices, deleting and collecting.\<close>

definition drop_excluded :: "int list \<Rightarrow> nat \<Rightarrow> pyval list \<times> pyval list \<Rightarrow> pyval list \<times> pyval list" where
  "drop_excluded list_actions index st =
     (case st of (the_list, excluded_list) \<Rightarrow>
        if list_actions ! index = 0
        then (take index the_list @ drop (Suc index) the_list, the_list ! index # excluded_list)
        else (the_list, excluded_list))"

definition split_excluded :: "int list \<Rightarrow> pyval list \<Rightarrow> pyval list \<times> pyval list" where
  "split_excluded list_actions the_list =
     fold (drop_excluded list_actions) (rev [0 ..< length list_actions]) (the_list, [])"

definition list_actions_of :: "(string \<Rightarrow> (string \<Rightarrow> bool) option) \<Rightarrow> string \<Rightarrow> string
    \<Rightarrow> pyval list \<Rightarrow> pyval list \<Rightarrow> pyval list \<Rightarrow> int list res" where
  "list_actions_of compile name list_key excludes regexes the_list =
     rfold (apply_regex compile name (list_key @ ''/'') the_list) regexes
       (fold (apply_exclude the_list) excludes (replicate (length the_list) (- 1)))"

definition filter_items :: "pydict \<Rightarrow> string \<Rightarrow> pyval list res" where
  "filter_items the_dict key =
     (case dget the_dict key of None \<Rightarrow> Inr [] | Some v \<Rightarrow> py_iter v)"

text \<open>One round of the second loop.\<close>

definition filter_list :: "(string \<Rightarrow> (string \<Rightarrow> bool) option) \<Rightarrow> string \<Rightarrow> string \<Rightarrow> pydict \<Rightarrow> pydict res" where
  "filter_list compile name list_key the_dict =
     rbind (dlookup the_dict list_key) (\<lambda>v.
     rbind (as_list ''__len__'' v) (\<lambda>the_list.
     rbind (filter_items the_dict (list_key @ ''!'')) (\<lambda>excludes.
     let d1 = ddel (list_key @ ''!'') the_dict in
     rbind (filter_items d1 (list_key @ ''/'')) (\<lambda>regexes.
     rbind (list_actions_of compile name list_key excludes regexes the_list) (\<lambda>list_actions.
     let d2 = ddel (list_key @ ''/'') d1; excluded_key = list_key @ ''_excluded'' in
     if dhas d2 excluded_key
     then Inl (GypError (name @ '' key '' @ excluded_key
            @ '' must not be present prior  to applying exclusion/regex filters for '' @ list_key))
     else
       let (kept, excluded_list) = split_excluded list_actions the_list;
           d3 = dset list_key (PList kept) d2
       in Inr (if excluded_list \<noteq> [] then dset excluded_key (PList excluded_list) d3 else d3))))))"

definition filter_lists :: "(string \<Rightarrow> (string \<Rightarrow> bool) option) \<Rightarrow> string \<Rightarrow> pydict \<Rightarrow> pydict res" where
  "filter_lists compile name the_dict =
     rbind (rfold (collect_filter name the_dict) the_dict ([], [])) (\<lambda>(lsts, del_lists).
       rfold (filter_list compile name) lsts (fold ddel del_lists the_dict))"

section \<open>Splitting a list\<close>

lemma drop_excluded_loop:
  assumes "n \<le> length l" "length acts = length l"
  shows "fold (drop_excluded acts) (rev [0 ..< n]) (take n l @ k, e) =
    (map fst (filter (\<lambda>ia. snd ia \<noteq> 0) (zip (take n l) acts)) @ k,
     map fst (filter (\<lambda>ia. snd ia = 0) (zip (take n l) acts)) @ e)"
  using assms(1)
proof (induction n arbitrary: k e)
  case (Suc n)
  then have n: "n < length l" by simp
  then have t: "take (Suc n) l = take n l @ [l ! n]" by (rule take_Suc_conv_app_nth)
  have z: "zip (take (Suc n) l) acts = zip (take n l) acts @ [(l ! n, acts ! n)]"
    using n assms(2)
    by (simp add: t zip_append1 Cons_nth_drop_Suc[symmetric])
      (simp add: list_eq_iff_nth_eq)
  have d: "drop_excluded acts n (take (Suc n) l @ k, e) =
      (if acts ! n = 0 then (take n l @ k, l ! n # e) else (take n l @ l ! n # k, e))"
    using n by (auto simp: drop_excluded_def t nth_append)
  show ?case using Suc.IH n by (simp add: d z)
qed simp

definition kept_items :: "int list \<Rightarrow> 'a list \<Rightarrow> 'a list" where
  "kept_items acts l = map fst (filter (\<lambda>ia. snd ia \<noteq> 0) (zip l acts))"

definition excluded_items :: "int list \<Rightarrow> 'a list \<Rightarrow> 'a list" where
  "excluded_items acts l = map fst (filter (\<lambda>ia. snd ia = 0) (zip l acts))"

lemma split_excluded_eq:
  "length acts = length l \<Longrightarrow> split_excluded acts l = (kept_items acts l, excluded_items acts l)"
  using drop_excluded_loop[of "length l" l acts "[]" "[]"]
  by (simp add: split_excluded_def kept_items_def excluded_items_def)

lemma apply_exclude_length [simp]:
  "length acts = length l \<Longrightarrow> length (apply_exclude l x acts) = length l"
  by (simp add: apply_exclude_def)

lemma fold_exclude_length:
  "length acts = length l \<Longrightarrow> length (fold (apply_exclude l) xs acts) = length l"
  by (induction xs arbitrary: acts) simp_all

lemma apply_regex_length:
  "apply_regex c n k l r acts = Inr acts' \<Longrightarrow> length acts = length l \<Longrightarrow> length acts' = length l"
  by (auto simp: apply_regex_def dest: rmap_length)

lemma list_actions_of_length:
  assumes "list_actions_of c n k excludes regexes l = Inr acts"
  shows "length acts = length l"
  using assms unfolding list_actions_of_def
  by (rule rfold_invariant[where P = "\<lambda>acts. length acts = length l"])
    (auto simp: fold_exclude_length dest: apply_regex_length)

section \<open>Recursion into the values\<close>

lemma size_list_filter_le: "size_list f (map fst (filter P (zip xs ys))) \<le> size_list f xs"
proof (induction xs ys rule: list_induct2')
  case (4 x xs y ys)
  then show ?case by (cases "P (x, y)") simp_all
qed simp_all

lemma size_PDict_snd: "kv \<in> set d \<Longrightarrow> size (snd kv) < size (PDict d)"
  by (induction d) auto

text \<open>What one successful round does to the dictionary.\<close>

lemma filter_listE:
  assumes "filter_list compile name lk d = Inr d'"
  obtains l acts excludes regexes where "dget d lk = Some (PList l)" "length acts = length l"
    "filter_items d (lk @ ''!'') = Inr excludes"
    "filter_items (ddel (lk @ ''!'') d) (lk @ ''/'') = Inr regexes"
    "list_actions_of compile name lk excludes regexes l = Inr acts"
    "\<not> dhas d (lk @ ''_excluded'')"
    "d' = (let d3 = dset lk (PList (kept_items acts l)) (ddel (lk @ ''/'') (ddel (lk @ ''!'') d))
      in if excluded_items acts l = [] then d3
         else dset (lk @ ''_excluded'') (PList (excluded_items acts l)) d3)"
proof -
  from assms obtain l acts excludes regexes where f:
    "dget d lk = Some (PList l)" "filter_items d (lk @ ''!'') = Inr excludes"
    "filter_items (ddel (lk @ ''!'') d) (lk @ ''/'') = Inr regexes"
    "list_actions_of compile name lk excludes regexes l = Inr acts"
    "\<not> dhas d (lk @ ''_excluded'')"
    by (auto simp: filter_list_def Let_def split: if_splits)
  note len = list_actions_of_length[OF f(4)]
  from assms f have "d' = (let d3 = dset lk (PList (kept_items acts l)) (ddel (lk @ ''/'') (ddel (lk @ ''!'') d))
      in if excluded_items acts l = [] then d3
         else dset (lk @ ''_excluded'') (PList (excluded_items acts l)) d3)"
    by (auto simp: filter_list_def Let_def split_excluded_eq[OF len])
  with that[OF f(1) len f(2-5)] show thesis by blast
qed

definition values_below :: "nat \<Rightarrow> pydict \<Rightarrow> bool" where
  "values_below m d = (\<forall>kv \<in> set d. size (snd kv) < m)"

lemma values_below_dset: "values_below m d \<Longrightarrow> size v < m \<Longrightarrow> values_below m (dset k v d)"
  using set_dset[of k v d] by (auto simp: values_below_def)

lemma values_below_ddel: "values_below m d \<Longrightarrow> values_below m (ddel k d)"
  using set_ddel[of k d] by (auto simp: values_below_def)

lemma filter_list_below:
  assumes "filter_list compile name lk d = Inr d'" "values_below m d"
  shows "values_below m d'"
proof -
  from assms(1) obtain l acts where f: "dget d lk = Some (PList l)"
    "d' = (let d3 = dset lk (PList (kept_items acts l)) (ddel (lk @ ''/'') (ddel (lk @ ''!'') d))
      in if excluded_items acts l = [] then d3
         else dset (lk @ ''_excluded'') (PList (excluded_items acts l)) d3)"
    by (rule filter_listE)
  have l: "size (PList l) < m" using f(1) assms(2) by (auto simp: values_below_def dest!: map_of_SomeD)
  have "size (PList (kept_items acts l)) < m" "size (PList (excluded_items acts l)) < m"
    using l size_list_filter_le[of size "\<lambda>ia. snd ia \<noteq> 0" l acts]
      size_list_filter_le[of size "\<lambda>ia. snd ia = 0" l acts]
    by (simp_all add: kept_items_def excluded_items_def)
  with assms(2) show ?thesis by (simp add: f(2) Let_def values_below_dset values_below_ddel)
qed

lemma filter_lists_below:
  assumes "filter_lists compile name d = Inr d'" "kv \<in> set d'"
  shows "size (snd kv) < size (PDict d)"
proof -
  from assms(1) obtain lsts dels where
    "rfold (filter_list compile name) lsts (fold ddel dels d) = Inr d'"
    by (auto simp: filter_lists_def)
  then have "values_below (size (PDict d)) d'"
  proof (rule rfold_invariant)
    have "values_below (size (PDict d)) d" using size_PDict_snd by (auto simp: values_below_def)
    then show "values_below (size (PDict d)) (fold ddel dels d)"
      by (rule fold_invariant[where Q = "\<lambda>_. True", rotated]) (simp_all add: values_below_ddel)
  qed (rule filter_list_below)
  with assms(2) show ?thesis by (simp add: values_below_def)
qed

function ProcessListFiltersInDict :: "(string \<Rightarrow> (string \<Rightarrow> bool) option) \<Rightarrow> string \<Rightarrow> pydict \<Rightarrow> pydict res"
  and ProcessListFiltersInList :: "(string \<Rightarrow> (string \<Rightarrow> bool) option) \<Rightarrow> string \<Rightarrow> pyval list
    \<Rightarrow> pyval list res"
where
  "ProcessListFiltersInDict compile name the_dict =
     rbind (filter_lists compile name the_dict) (\<lambda>d.
       rmap (\<lambda>kv. case kv of
           (key, PDict e) \<Rightarrow>
             rbind (ProcessListFiltersInDict compile key e) (\<lambda>r. Inr (key, PDict r))
         | (key, PList l) \<Rightarrow>
             rbind (ProcessListFiltersInList compile key l) (\<lambda>r. Inr (key, PList r))
         | _ \<Rightarrow> Inr kv) d)"
| "ProcessListFiltersInList compile name the_list =
     rmap (\<lambda>item. case item of
         PDict e \<Rightarrow> rbind (ProcessListFiltersInDict compile name e) (\<lambda>r. Inr (PDict r))
       | PList l \<Rightarrow> rbind (ProcessListFiltersInList compile name l) (\<lambda>r. Inr (PList r))
       | _ \<Rightarrow> Inr item) the_list"
  by pat_completeness auto
termination
proof (relation "measure (\<lambda>x. case x of
        Inl (c, n, d) \<Rightarrow> size (PDict d) | Inr (c, n, l) \<Rightarrow> size (PList l))", simp)
qed (use filter_lists_below in \<open>force dest: size_list_estimation'[where f = size, OF _ order_refl]\<close>)+

declare ProcessListFiltersInDict.simps [simp del] ProcessListFiltersInList.simps [simp del]

text \<open>Both loops treat one value alike.\<close>

definition filter_value :: "(string \<Rightarrow> (string \<Rightarrow> bool) option) \<Rightarrow> string \<Rightarrow> pyval \<Rightarrow> pyval res" where
  "filter_value compile name v =
     (case v of
        PDict e \<Rightarrow> rbind (ProcessListFiltersInDict compile name e) (\<lambda>r. Inr (PDict r))
      | PList l \<Rightarrow> rbind (ProcessListFiltersInList compile name l) (\<lambda>r. Inr (PList r))
      | _ \<Rightarrow> Inr v)"

definition filter_entry :: "(string \<Rightarrow> (string \<Rightarrow> bool) option) \<Rightarrow> string \<times> pyval \<Rightarrow> (string \<times> pyval) res" where
  "filter_entry compile kv = rbind (filter_value compile (fst kv) (snd kv)) (\<lambda>w. Inr (fst kv, w))"

lemma ProcessListFiltersInDict_eq:
  "ProcessListFiltersInDict compile name d =
     rbind (filter_lists compile name d) (rmap (filter_entry compile))"
proof -
  have "(case kv of
           (key, PDict e) \<Rightarrow>
             rbind (ProcessListFiltersInDict compile key e) (\<lambda>r. Inr (key, PDict r))
         | (key, PList l) \<Rightarrow>
             rbind (ProcessListFiltersInList compile key l) (\<lambda>r. Inr (key, PList r))
         | _ \<Rightarrow> Inr kv) = filter_entry compile kv" for kv
    by (cases kv, cases "snd kv") (simp_all add: filter_entry_def filter_value_def rbind_assoc)
  then show ?thesis
    by (subst ProcessListFiltersInDict.simps) (simp only:)
qed

lemma ProcessListFiltersInList_eq:
  "ProcessListFiltersInList compile name l = rmap (filter_value compile name) l"
  by (subst ProcessListFiltersInList.simps) (simp only: filter_value_def[abs_def])

section \<open>Which keys are left\<close>

lemma filter_list_frame:
  assumes "filter_list compile name x d = Inr d'"
    and "k \<notin> {x, x @ ''!'', x @ ''/'', x @ ''_excluded''}"
  shows "dget d' k = dget d k"
proof -
  from assms(1) obtain l acts where
    "d' = (let d3 = dset x (PList (kept_items acts l)) (ddel (x @ ''/'') (ddel (x @ ''!'') d))
      in if excluded_items acts l = [] then d3
         else dset (x @ ''_excluded'') (PList (excluded_items acts l)) d3)"
    by (rule filter_listE)
  with assms(2) show ?thesis by (simp add: Let_def)
qed

lemma filter_key_append [simp]:
  "filter_key (x @ ''!'')" "filter_key (x @ ''/'')" "\<not> filter_key (x @ ''_excluded'')"
  by (simp_all add: filter_key_def is_operation_def)

lemma filter_key_cases:
  assumes "filter_key k"
  shows "k = butlast k @ ''!'' \<or> k = butlast k @ ''/''"
proof -
  have "butlast k @ [last k] = k" using assms by (simp add: filter_key_def)
  with assms show ?thesis by (metis filter_key_def is_operation_def)
qed

lemma filter_list_filter_keys:
  assumes "filter_list compile name x d = Inr d'" "dhas d' k" "filter_key k"
  shows "dhas d k \<and> k \<noteq> x @ ''!'' \<and> k \<noteq> x @ ''/''"
proof -
  from assms(1) obtain l acts where "dget d x = Some (PList l)"
    "d' = (let d3 = dset x (PList (kept_items acts l)) (ddel (x @ ''/'') (ddel (x @ ''!'') d))
      in if excluded_items acts l = [] then d3
         else dset (x @ ''_excluded'') (PList (excluded_items acts l)) d3)"
    by (rule filter_listE)
  with assms(2,3) show ?thesis by (auto simp: Let_def dhas_def[of d] split: if_splits)
qed

lemma filter_loop_filter_keys:
  assumes "rfold (filter_list compile name) xs d = Inr d'" "dhas d' k" "filter_key k"
  shows "dhas d k \<and> (\<forall>x \<in> set xs. k \<noteq> x @ ''!'' \<and> k \<noteq> x @ ''/'')"
  using assms(1)
proof (induction xs arbitrary: d)
  case (Cons x xs)
  then obtain u where u: "filter_list compile name x d = Inr u"
    "rfold (filter_list compile name) xs u = Inr d'" by auto
  from Cons.IH[OF u(2)] filter_list_filter_keys[OF u(1) _ assms(3)] show ?case by auto
qed (use assms(2) in simp)

text \<open>The first loop: every filter is either queued for deletion or has its list collected, and
  only lists that the dictionary holds are collected.\<close>

lemma collect_loop:
  assumes "rfold (collect_filter name d) xs (lsts0, dels0) = Inr (lsts, dels)"
    and "distinct lsts0"
  shows "set lsts0 \<subseteq> set lsts \<and> set dels0 \<subseteq> set dels \<and> distinct lsts
    \<and> (\<forall>kv \<in> set xs. filter_key (fst kv) \<longrightarrow>
          (if dhas d (butlast (fst kv)) then butlast (fst kv) \<in> set lsts else fst kv \<in> set dels))
    \<and> (\<forall>x \<in> set lsts. x \<in> set lsts0 \<or> dhas d x \<and> (\<exists>kv \<in> set xs. filter_key (fst kv) \<and> butlast (fst kv) = x))
    \<and> (\<forall>k \<in> set dels. k \<in> set dels0 \<or> filter_key k \<and> \<not> dhas d (butlast k))"
  using assms
proof (induction xs arbitrary: lsts0 dels0)
  case (Cons kv xs)
  obtain key v where kv: "kv = (key, v)" by fastforce
  from Cons.prems(1) obtain l1 d1 where
    s: "collect_filter name d kv (lsts0, dels0) = Inr (l1, d1)"
      "rfold (collect_filter name d) xs (l1, d1) = Inr (lsts, dels)" by auto
  from s(1) have st: "(if \<not> filter_key key then l1 = lsts0 \<and> d1 = dels0
      else if dhas d (butlast key)
      then l1 = (if butlast key \<in> set lsts0 then lsts0 else lsts0 @ [butlast key]) \<and> d1 = dels0
      else l1 = lsts0 \<and> d1 = dels0 @ [key])"
    by (auto simp: kv collect_filter_def filter_key_def Let_def dhas_def
        split: if_splits pyval.splits option.splits)
  then have "distinct l1" using Cons.prems(2) by (auto split: if_splits)
  from Cons.IH[OF s(2) this] st show ?case by (auto simp: kv split: if_splits)
qed simp

lemma filter_listsE:
  assumes "filter_lists compile name d = Inr d'"
  obtains lsts dels where "rfold (filter_list compile name) lsts (fold ddel dels d) = Inr d'"
    "distinct lsts"
    "\<And>k. dhas d k \<Longrightarrow> filter_key k \<Longrightarrow>
       (if dhas d (butlast k) then butlast k \<in> set lsts else k \<in> set dels)"
    "\<And>x. x \<in> set lsts \<Longrightarrow> dhas d x \<and> (\<exists>k. dhas d k \<and> filter_key k \<and> butlast k = x)"
    "\<And>k. k \<in> set dels \<Longrightarrow> filter_key k \<and> \<not> dhas d (butlast k)"
proof -
  from assms obtain lsts dels where
    r: "rfold (collect_filter name d) d ([], []) = Inr (lsts, dels)"
      "rfold (filter_list compile name) lsts (fold ddel dels d) = Inr d'"
    by (auto simp: filter_lists_def)
  note c = collect_loop[OF r(1) iffD2[OF distinct.simps(1) TrueI]]
  show thesis
  proof (rule that[OF r(2)])
    show "distinct lsts" using c by simp
    fix k
    show "if dhas d (butlast k) then butlast k \<in> set lsts else k \<in> set dels"
      if k: "dhas d k" "filter_key k"
    proof -
      from k(1) obtain v where "(k, v) \<in> set d" by (auto simp: dhas_iff)
      with c have "filter_key (fst (k, v)) \<longrightarrow> (if dhas d (butlast (fst (k, v)))
          then butlast (fst (k, v)) \<in> set lsts else fst (k, v) \<in> set dels)" by blast
      with k(2) show ?thesis by (simp cong: if_cong)
    qed
    show "dhas d x \<and> (\<exists>k. dhas d k \<and> filter_key k \<and> butlast k = x)" if "x \<in> set lsts" for x
    proof -
      from c that have "x \<in> set [] \<or> dhas d x
        \<and> (\<exists>kv \<in> set d. filter_key (fst kv) \<and> butlast (fst kv) = x)" by (elim conjE) (rule bspec)
      then obtain kv where kv: "dhas d x" "kv \<in> set d" "filter_key (fst kv)" "butlast (fst kv) = x"
        by force
      then have "dhas d (fst kv)" by (simp add: dhas_iff)
      with kv show ?thesis by blast
    qed
    show "filter_key k \<and> \<not> dhas d (butlast k)" if "k \<in> set dels" using c that by auto
  qed
qed

lemma dget_fold_ddel: "dget (fold ddel ks d) k = (if k \<in> set ks then None else dget d k)"
  by (induction ks arbitrary: d) auto

lemma filter_lists_no_filters:
  assumes "filter_lists compile name d = Inr d'" "dhas d' k"
  shows "\<not> filter_key k"
proof
  assume f: "filter_key k"
  from assms(1) obtain lsts dels where r: "rfold (filter_list compile name) lsts (fold ddel dels d) = Inr d'"
    and c: "\<And>k. dhas d k \<Longrightarrow> filter_key k \<Longrightarrow>
       (if dhas d (butlast k) then butlast k \<in> set lsts else k \<in> set dels)"
    by - (erule filter_listsE, rule that, assumption, blast)
  from filter_loop_filter_keys[OF r assms(2) f] have
    k: "dhas d k" "k \<notin> set dels" "\<forall>x \<in> set lsts. k \<noteq> x @ ''!'' \<and> k \<noteq> x @ ''/''"
    by (auto simp: dhas_def dget_fold_ddel split: if_splits)
  with c[OF k(1) f] have "butlast k \<in> set lsts" by (auto split: if_splits)
  with k(3) filter_key_cases[OF f] show False by metis
qed

fun no_filters :: "pyval \<Rightarrow> bool" where
  "no_filters (PDict d) = (\<forall>kv \<in> set d. \<not> filter_key (fst kv) \<and> no_filters (snd kv))"
| "no_filters (PList l) = (\<forall>v \<in> set l. no_filters v)"
| "no_filters v = True"

lemma filters_gone:
  "(\<forall>r. ProcessListFiltersInDict compile name d = Inr r \<longrightarrow> no_filters (PDict r))"
  "(\<forall>r. ProcessListFiltersInList compile name l = Inr r \<longrightarrow> no_filters (PList r))"
proof (induction compile name d and compile name l
    rule: ProcessListFiltersInDict_ProcessListFiltersInList.induct)
  case (1 compile name d)
  have "\<not> filter_key (fst kv') \<and> no_filters (snd kv')"
    if r: "ProcessListFiltersInDict compile name d = Inr r" and kv': "kv' \<in> set r" for r kv'
  proof -
    from r obtain d' where d': "filter_lists compile name d = Inr d'"
      and m: "rmap (filter_entry compile) d' = Inr r"
      by (auto simp: ProcessListFiltersInDict_eq)
    from rmap_member[OF m kv'] obtain key v where
      k: "(key, v) \<in> set d'" "filter_entry compile (key, v) = Inr kv'" by (metis surj_pair)
    have "dhas d' key" using k(1) by (force simp: dhas_iff)
    from filter_lists_no_filters[OF d' this] have nf: "\<not> filter_key key" .
    show ?thesis
      using 1[OF d' k(1) refl] k(2) nf
      by (cases v) (auto simp: filter_entry_def filter_value_def)
  qed
  then show ?case by auto
next
  case (2 compile name l)
  have "no_filters y"
    if r: "ProcessListFiltersInList compile name l = Inr r" and y: "y \<in> set r" for r y
  proof -
    from rmap_member[OF r[unfolded ProcessListFiltersInList_eq] y] obtain x where
      x: "x \<in> set l" "filter_value compile name x = Inr y" by blast
    note ih = 2[OF x(1)]
    show ?thesis
    proof (cases x)
      case (PList m)
      with ih(1)[OF PList] x(2) show ?thesis by (auto simp: filter_value_def)
    next
      case (PDict e)
      with ih(2)[OF PDict] x(2) show ?thesis by (auto simp: filter_value_def)
    qed (use x(2) in \<open>auto simp: filter_value_def\<close>)
  qed
  then show ?case by auto
qed

text \<open>After filtering no exclusion list and no list of regular expressions is left at any
  depth of the dictionary.\<close>

theorem ProcessListFilters_leaves_none:
  assumes "ProcessListFiltersInDict compile name the_dict = Inr r"
  shows "no_filters (PDict r)"
  using filters_gone(1)[of compile name the_dict] assms by blast

theorem ProcessListFilters_leaves_none_witness:
  "no_filters (PDict [(''sources'', PList [PStr ''a.cc'']), (''sources_excluded'', PList [PStr ''b.cc''])])"
proof -
  have "ProcessListFiltersInDict (\<lambda>p. Some (\<lambda>s. suffix p s)) ''t''
      [(''sources'', PList [PStr ''a.cc'', PStr ''b.cc'']), (''sources!'', PList [PStr ''b.cc''])]
    = Inr [(''sources'', PList [PStr ''a.cc'']), (''sources_excluded'', PList [PStr ''b.cc''])]"
    by code_simp
  then show ?thesis by (rule ProcessListFilters_leaves_none)
qed

section \<open>What a filter does to its list\<close>

text \<open>The specification: a string is excluded when it is listed by name, and then every regular
  expression that matches has the last word.\<close>

definition verdict :: "pyval list \<Rightarrow> (int \<times> (string \<Rightarrow> bool)) list \<Rightarrow> string \<Rightarrow> int" where
  "verdict excludes rules s =
     fold (\<lambda>(action, search) v. if search s then action else v) rules
       (if PStr s \<in> set excludes then 0 else - 1)"

lemma fold_exclude_map:
  "fold (apply_exclude (map PStr ss)) xs (map f ss) =
    map (\<lambda>s. if PStr s \<in> set xs then 0 else f s) ss"
proof (induction xs arbitrary: f)
  case (Cons x xs)
  have "apply_exclude (map PStr ss) x (map f ss) = map (\<lambda>s. if x = PStr s then 0 else f s) ss"
    by (simp add: apply_exclude_def list_eq_iff_nth_eq)
  with Cons[of "\<lambda>s. if x = PStr s then 0 else f s"] show ?case by (auto intro!: map_cong)
qed simp

lemma apply_regex_map:
  assumes "regex_rule compile name key item = Inr (a, search)"
  shows "apply_regex compile name key (map PStr ss) item (map f ss) =
    Inr (map (\<lambda>s. if search s then a else f s) ss)"
proof -
  have z: "zip (map PStr ss) (map f ss) = map (\<lambda>s. (PStr s, f s)) ss"
    by (simp add: list_eq_iff_nth_eq)
  have "rmap (search_item search a) (map (\<lambda>s. (PStr s, f s)) ss)
      = Inr (map (\<lambda>s. if search s then a else f s) ss)"
    by (induction ss) (auto simp: search_item_def)
  with assms show ?thesis by (simp add: apply_regex_def z)
qed

lemma regex_loop_map:
  assumes "rfold (apply_regex compile name key (map PStr ss)) regexes (map f ss) = Inr acts"
  shows "\<exists>rules. rmap (regex_rule compile name key) regexes = Inr rules
    \<and> acts = map (\<lambda>s. fold (\<lambda>(action, search) v. if search s then action else v) rules (f s)) ss"
  using assms
proof (induction regexes arbitrary: f)
  case (Cons item regexes)
  obtain a search where r: "regex_rule compile name key item = Inr (a, search)"
    using Cons.prems by (cases "regex_rule compile name key item") (auto simp: apply_regex_def)
  from Cons.prems have "rfold (apply_regex compile name key (map PStr ss)) regexes
      (map (\<lambda>s. if search s then a else f s) ss) = Inr acts"
    by (simp add: apply_regex_map[OF r])
  from Cons.IH[OF this] obtain rules where
    "rmap (regex_rule compile name key) regexes = Inr rules"
    "acts = map (\<lambda>s. fold (\<lambda>(action, search) v. if search s then action else v) rules
        (if search s then a else f s)) ss" by blast
  then show ?case by (simp add: r)
qed simp

lemma list_actions_verdict:
  assumes "list_actions_of compile name lk excludes regexes (map PStr ss) = Inr acts"
  shows "\<exists>rules. rmap (regex_rule compile name (lk @ ''/'')) regexes = Inr rules
    \<and> acts = map (verdict excludes rules) ss"
proof -
  have i: "replicate (length (map PStr ss)) (- 1) = map (\<lambda>_. - 1 :: int) ss"
    by (simp add: map_replicate_const)
  show ?thesis
    using assms regex_loop_map[of compile name "lk @ ''/''" ss regexes
        "\<lambda>s. if PStr s \<in> set excludes then 0 else - 1" acts]
    unfolding list_actions_of_def i fold_exclude_map by (simp add: verdict_def[abs_def])
qed

lemma kept_items_map: "kept_items (map f ss) (map g ss) = map g (filter (\<lambda>s. f s \<noteq> 0) ss)"
  by (induction ss) (simp_all add: kept_items_def)

lemma excluded_items_map: "excluded_items (map f ss) (map g ss) = map g (filter (\<lambda>s. f s = 0) ss)"
  by (induction ss) (simp_all add: excluded_items_def)

lemma filter_loop_frame:
  assumes "rfold (filter_list compile name) xs d = Inr d'"
    and "\<And>x. x \<in> set xs \<Longrightarrow> k \<notin> {x, x @ ''!'', x @ ''/'', x @ ''_excluded''}"
  shows "dget d' k = dget d k"
  using assms
proof (induction xs arbitrary: d)
  case (Cons x xs)
  then obtain u where "filter_list compile name x d = Inr u"
    "rfold (filter_list compile name) xs u = Inr d'" by auto
  with Cons.IH[of u] Cons.prems(2) filter_list_frame[of compile name x d u k] show ?case by simp
qed simp

text \<open>A key that is there and is no filter stays while other lists are filtered, with its value
  when it is not one of those lists; so the key of its excluded items is not one of them.\<close>

lemma filter_loop_keeps:
  assumes "rfold (filter_list compile name) xs d = Inr d'" "dhas d k" "\<not> filter_key k"
  shows "dhas d' k \<and> (\<forall>x \<in> set xs. k \<noteq> x @ ''_excluded'')"
  using assms(1,2)
proof (induction xs arbitrary: d)
  case (Cons x xs)
  then obtain u where u: "filter_list compile name x d = Inr u"
    "rfold (filter_list compile name) xs u = Inr d'" by auto
  from u(1) obtain l acts where f: "\<not> dhas d (x @ ''_excluded'')"
    "u = (let d3 = dset x (PList (kept_items acts l)) (ddel (x @ ''/'') (ddel (x @ ''!'') d))
      in if excluded_items acts l = [] then d3
         else dset (x @ ''_excluded'') (PList (excluded_items acts l)) d3)"
    by (rule filter_listE)
  have "dhas u k" using assms(3) Cons.prems(2) by (auto simp: f(2) Let_def)
  with Cons.IH[OF u(2)] f(1) Cons.prems(2) show ?case by auto
qed simp

lemma filter_lists_list:
  assumes f: "filter_lists compile name d = Inr d'"
    and plain: "\<And>k. dhas d k \<Longrightarrow> filter_key k \<Longrightarrow> \<not> filter_key (butlast k)"
    and l: "dget d lk = Some (PList (map PStr ss))" "\<not> filter_key lk"
    and fk: "dhas d (lk @ ''!'') \<or> dhas d (lk @ ''/'')"
  shows "\<exists>excludes regexes rules. filter_items d (lk @ ''!'') = Inr excludes
    \<and> filter_items d (lk @ ''/'') = Inr regexes
    \<and> rmap (regex_rule compile name (lk @ ''/'')) regexes = Inr rules
    \<and> dget d' lk = Some (PList (map PStr (filter (\<lambda>s. verdict excludes rules s \<noteq> 0) ss)))
    \<and> dget d' (lk @ ''_excluded'') =
        (let ex = filter (\<lambda>s. verdict excludes rules s = 0) ss
         in if ex = [] then None else Some (PList (map PStr ex)))"
proof -
  from f obtain lsts dels where r: "rfold (filter_list compile name) lsts (fold ddel dels d) = Inr d'"
    and dist: "distinct lsts"
    and c1: "\<And>k. dhas d k \<Longrightarrow> filter_key k \<Longrightarrow>
       (if dhas d (butlast k) then butlast k \<in> set lsts else k \<in> set dels)"
    and c2: "\<And>x. x \<in> set lsts \<Longrightarrow> dhas d x \<and> (\<exists>k. dhas d k \<and> filter_key k \<and> butlast k = x)"
    and c3: "\<And>k. k \<in> set dels \<Longrightarrow> filter_key k \<and> \<not> dhas d (butlast k)"
    by - (erule filter_listsE, rule that, assumption, assumption, blast, blast, blast)
  define d0 where "d0 = fold ddel dels d"
  have has: "dhas d lk" using l(1) by (simp add: dhas_def)
  have nf: "\<not> filter_key x" if "x \<in> set lsts" for x using c2[OF that] plain by blast
  have d0: "dget d0 lk = dget d lk" "dget d0 (lk @ ''!'') = dget d (lk @ ''!'')"
    "dget d0 (lk @ ''/'') = dget d (lk @ ''/'')"
    using c3[of lk] c3[of "lk @ ''!''"] c3[of "lk @ ''/''"] has l(2)
    by (auto simp: d0_def dget_fold_ddel)
  have "lk \<in> set lsts" using fk c1[of "lk @ ''!''"] c1[of "lk @ ''/''"] has by auto
  then obtain xs ys where split: "lsts = xs @ lk # ys" by (meson split_list)
  with r obtain u v where u: "rfold (filter_list compile name) xs d0 = Inr u"
    and v: "filter_list compile name lk u = Inr v"
    and w: "rfold (filter_list compile name) ys v = Inr d'"
    by (auto simp: rfold_append d0_def)
  have ne: "lk \<noteq> x \<and> lk @ ''!'' \<noteq> x \<and> lk @ ''/'' \<noteq> x \<and> lk \<noteq> x @ ''!'' \<and> lk \<noteq> x @ ''/''"
    if "x \<in> set xs \<union> set ys" for x
    using that nf[of x] l(2) split dist by auto
  have hk: "dhas d0 lk" using d0(1) has by (simp add: dhas_def)
  note kx = filter_loop_keeps[OF u hk l(2)]
  have ux: "dget u k = dget d k" if "k \<in> {lk, lk @ ''!'', lk @ ''/''}" for k
  proof -
    have "dget u k = dget d0 k"
      by (rule filter_loop_frame[OF u]) (use ne kx that in auto)
    with d0 that show ?thesis by auto
  qed
  from v obtain l' acts excludes regexes where e: "dget u lk = Some (PList l')"
    "filter_items u (lk @ ''!'') = Inr excludes"
    "filter_items (ddel (lk @ ''!'') u) (lk @ ''/'') = Inr regexes"
    "list_actions_of compile name lk excludes regexes l' = Inr acts"
    "\<not> dhas u (lk @ ''_excluded'')"
    "v = (let d3 = dset lk (PList (kept_items acts l')) (ddel (lk @ ''/'') (ddel (lk @ ''!'') u))
      in if excluded_items acts l' = [] then d3
         else dset (lk @ ''_excluded'') (PList (excluded_items acts l')) d3)"
    by (rule filter_listE)
  have l': "l' = map PStr ss" using e(1) ux[of lk] l(1) by simp
  from list_actions_verdict[OF e(4)[unfolded l']] obtain rules where
    rules: "rmap (regex_rule compile name (lk @ ''/'')) regexes = Inr rules"
      "acts = map (verdict excludes rules) ss" by blast
  have ex: "lk @ ''_excluded'' \<notin> set lsts"
  proof
    assume x: "lk @ ''_excluded'' \<in> set lsts"
    then have "dhas d0 (lk @ ''_excluded'')"
      using c2[OF x] c3[of "lk @ ''_excluded''"] by (auto simp: d0_def dhas_def dget_fold_ddel)
    from filter_loop_keeps[OF u this] e(5) show False by simp
  qed
  have vk: "dhas v lk" by (simp add: e(6) Let_def dhas_def)
  note ky = filter_loop_keeps[OF w vk l(2)]
  have "dget d' lk = dget v lk"
    by (rule filter_loop_frame[OF w]) (use ne ky in auto)
  moreover have "dget d' (lk @ ''_excluded'') = dget v (lk @ ''_excluded'')"
    by (rule filter_loop_frame[OF w]) (use ne ex split nf in auto)
  moreover have "dget v lk = Some (PList (map PStr (filter (\<lambda>s. verdict excludes rules s \<noteq> 0) ss)))"
    by (simp add: e(6) Let_def l' rules(2) kept_items_map)
  moreover have "dget v (lk @ ''_excluded'') =
        (let ex = filter (\<lambda>s. verdict excludes rules s = 0) ss
         in if ex = [] then None else Some (PList (map PStr ex)))"
    using e(5) by (simp add: e(6) Let_def l' rules(2) excluded_items_map dhas_def)
  moreover have "filter_items d (lk @ ''!'') = Inr excludes" "filter_items d (lk @ ''/'') = Inr regexes"
    using e(2,3) ux by (simp_all add: filter_items_def)
  ultimately show ?thesis using rules(1) by metis
qed

lemma filter_entry_Inr:
  "filter_entry compile kv = Inr y \<longleftrightarrow> (\<exists>w. filter_value compile (fst kv) (snd kv) = Inr w \<and> y = (fst kv, w))"
  by (auto simp: filter_entry_def)

lemma rmap_filter_entry_dget:
  assumes "rmap (filter_entry compile) d = Inr r" "dget d k = Some v"
  shows "\<exists>w. filter_value compile k v = Inr w \<and> dget r k = Some w"
  using assms
proof (induction d arbitrary: r)
  case (Cons kv d)
  obtain k' v' where kv: "kv = (k', v')" by fastforce
  from Cons.prems(1) obtain w r' where
    r: "filter_value compile k' v' = Inr w" "rmap (filter_entry compile) d = Inr r'" "r = (k', w) # r'"
    by (auto simp: kv filter_entry_Inr)
  with Cons.IH[OF r(2)] Cons.prems(2) show ?case by (auto simp: kv split: if_splits)
qed simp

lemma rmap_filter_entry_keys: "rmap (filter_entry compile) d = Inr r \<Longrightarrow> dkeys r = dkeys d"
  by (induction d arbitrary: r) (auto simp: filter_entry_def)

lemma filter_value_strings [simp]: "filter_value compile k (PList (map PStr ss)) = Inr (PList (map PStr ss))"
proof -
  have "rmap (filter_value compile k) (map PStr ss) = Inr (map PStr ss)"
    by (induction ss) (simp_all add: filter_value_def)
  then show ?thesis by (simp add: filter_value_def ProcessListFiltersInList_eq)
qed

text \<open>C12.  Filtering a list of strings splits it by the verdict of its filters: a string leaves
  the list when it is listed in the exclusion list and no matching regular expression says
  otherwise, the last matching one deciding; the strings that leave are collected, in order, in
  the list of excluded items, which appears only when there are any.\<close>

theorem ProcessListFilters_verdict:
  assumes "ProcessListFiltersInDict compile name the_dict = Inr r"
    and "dget the_dict list_key = Some (PList (map PStr ss))" "\<not> filter_key list_key"
    and "dhas the_dict (list_key @ ''!'') \<or> dhas the_dict (list_key @ ''/'')"
    and "\<forall>k \<in> set (dkeys the_dict). filter_key k \<longrightarrow> \<not> filter_key (butlast k)"
  shows "\<exists>excludes regexes rules. filter_items the_dict (list_key @ ''!'') = Inr excludes
    \<and> filter_items the_dict (list_key @ ''/'') = Inr regexes
    \<and> rmap (regex_rule compile name (list_key @ ''/'')) regexes = Inr rules
    \<and> dget r list_key = Some (PList (map PStr (filter (\<lambda>s. verdict excludes rules s \<noteq> 0) ss)))
    \<and> dget r (list_key @ ''_excluded'') =
        (let ex = filter (\<lambda>s. verdict excludes rules s = 0) ss
         in if ex = [] then None else Some (PList (map PStr ex)))"
proof -
  from assms(1) obtain d' where d': "filter_lists compile name the_dict = Inr d'"
    "rmap (filter_entry compile) d' = Inr r" by (auto simp: ProcessListFiltersInDict_eq)
  have plain: "\<not> filter_key (butlast k)" if "dhas the_dict k" "filter_key k" for k
    using assms(5) that by (auto simp: dhas_iff)
  from filter_lists_list[OF d'(1) plain assms(2-4)] obtain excludes regexes rules where
    s: "filter_items the_dict (list_key @ ''!'') = Inr excludes"
      "filter_items the_dict (list_key @ ''/'') = Inr regexes"
      "rmap (regex_rule compile name (list_key @ ''/'')) regexes = Inr rules"
    and k: "dget d' list_key = Some (PList (map PStr (filter (\<lambda>s. verdict excludes rules s \<noteq> 0) ss)))"
    and e: "dget d' (list_key @ ''_excluded'') =
        (let ex = filter (\<lambda>s. verdict excludes rules s = 0) ss
         in if ex = [] then None else Some (PList (map PStr ex)))" by blast
  have "dget r list_key = dget d' list_key"
    using rmap_filter_entry_dget[OF d'(2) k] k by simp
  moreover have "dget r (list_key @ ''_excluded'') = dget d' (list_key @ ''_excluded'')"
  proof (cases "dget d' (list_key @ ''_excluded'')")
    case None
    then show ?thesis using rmap_filter_entry_keys[OF d'(2)] by (metis dom_map_of_conv_image_fst domIff list.set_map)
  next
    case (Some v)
    with e obtain ex where v: "v = PList (map PStr ex)" by (auto simp: Let_def split: if_splits)
    show ?thesis using rmap_filter_entry_dget[OF d'(2) Some] by (simp add: v Some)
  qed
  ultimately show ?thesis using s k e by metis
qed

theorem ProcessListFilters_verdict_witness:
  "\<exists>rules. dget [(''sources'', PList [PStr ''a_mac.cc'', PStr ''c.cc'']), (''sources_excluded'', PList [PStr ''b.cc''])]
      ''sources'' = Some (PList (map PStr (filter (\<lambda>s. verdict [PStr ''b.cc'', PStr ''a_mac.cc''] rules s \<noteq> 0)
         [''a_mac.cc'', ''b.cc'', ''c.cc''])))"
proof -
  let ?d = "[(''sources'', PList (map PStr [''a_mac.cc'', ''b.cc'', ''c.cc''])),
      (''sources!'', PList [PStr ''b.cc'', PStr ''a_mac.cc'']),
      (''sources/'', PList [PList [PStr ''include'', PStr ''mac.cc'']])]"
  have 1: "ProcessListFiltersInDict (\<lambda>p. Some (\<lambda>s. suffix p s)) ''t'' ?d
    = Inr [(''sources'', PList [PStr ''a_mac.cc'', PStr ''c.cc'']), (''sources_excluded'', PList [PStr ''b.cc''])]"
    by code_simp
  have 2: "dget ?d ''sources'' = Some (PList (map PStr [''a_mac.cc'', ''b.cc'', ''c.cc'']))" by code_simp
  have 3: "\<not> filter_key ''sources''" by code_simp
  have 4: "dhas ?d (''sources'' @ ''!'') \<or> dhas ?d (''sources'' @ ''/'')" by code_simp
  have 5: "\<forall>k \<in> set (dkeys ?d). filter_key k \<longrightarrow> \<not> filter_key (butlast k)" by code_simp
  have 6: "filter_items ?d (''sources'' @ ''!'') = Inr [PStr ''b.cc'', PStr ''a_mac.cc'']" by code_simp
  from ProcessListFilters_verdict[OF 1 2 3 4 5] obtain excludes rules where
    "filter_items ?d (''sources'' @ ''!'') = Inr excludes"
    "dget [(''sources'', PList [PStr ''a_mac.cc'', PStr ''c.cc'']), (''sources_excluded'', PList [PStr ''b.cc''])]
      ''sources'' = Some (PList (map PStr (filter (\<lambda>s. verdict excludes rules s \<noteq> 0)
         [''a_mac.cc'', ''b.cc'', ''c.cc''])))"
    by (elim exE conjE) (rule that)
  then show ?thesis unfolding 6 by (intro exI[of _ rules]) simp
qed

end
