(* ===== verification/Gyp_Targets.thy ===== *)
theory Gyp_Targets
  imports Gyp_Merge
begin

text \<open>
  The target table and its dependency lists (\<open>tools/gyp/pylib/gyp/input.py\<close>):
  \<open>BuildTargetsDict\<close>, \<open>QualifyDependencies\<close>, \<open>ExpandWildcardDependencies\<close>, \<open>Unify\<close>,
  \<open>RemoveDuplicateDependencies\<close>, \<open>Filter\<close> and \<open>RemoveSelfDependencies\<close>.  The table maps qualified
  names to target dictionaries.  The program shares these dictionaries with \<open>data\<close>; the functions
  here only write to the dependency sections and only read other keys of \<open>data\<close>, so \<open>data\<close> is
  passed as it was.
\<close>

type_synonym target_table = "(string \<times> pydict) list"

section \<open>Building the table\<close>

text \<open>An optional string argument: a false value counts as absent.\<close>

definition opt_str :: "pyval \<Rightarrow> string option res" where
  "opt_str v =
     (case v of
        PStr s \<Rightarrow> Inr (Some s)
      | _ \<Rightarrow> if truthy v then Inl (TypeError ''cannot concatenate str and other objects'') else Inr None)"

definition need_str :: "pyval \<Rightarrow> string res" where
  "need_str v =
     (case v of PStr s \<Rightarrow> Inr s | _ \<Rightarrow> Inl (TypeError ''cannot concatenate str and other objects''))"

definition qualified_name :: "string \<Rightarrow> pyval \<Rightarrow> pyval \<Rightarrow> string res" where
  "qualified_name build_file target toolset =
     rbind (need_str target) (\<lambda>t. rbind (opt_str toolset) (\<lambda>ts. Inr (QualifiedTarget build_file t ts)))"

definition add_target :: "string \<Rightarrow> pyval \<Rightarrow> target_table \<Rightarrow> target_table res" where
  "add_target build_file target targets =
     rbind (py_getitem target (PStr ''target_name'')) (\<lambda>name.
     rbind (py_getitem target (PStr ''toolset'')) (\<lambda>toolset.
     rbind (qualified_name build_file name toolset) (\<lambda>target_name.
     rbind (as_dict ''get'' target) (\<lambda>d.
       if dhas targets target_name
       then Inl (GypError (''Duplicate target definitions for '' @ target_name))
       else Inr (dset target_name d targets)))))"

definition add_build_file :: "pydict \<Rightarrow> pyval \<Rightarrow> target_table \<Rightarrow> target_table res" where
  "add_build_file data build_file targets =
     rbind (py_getitem (PDict data) build_file) (\<lambda>file_data.
     rbind (py_get file_data ''targets'' (PList [])) (\<lambda>ts.
     rbind (py_iter ts) (\<lambda>l.
     rbind (need_str build_file) (\<lambda>bf. rfold (add_target bf) l targets))))"

definition BuildTargetsDict :: "pydict \<Rightarrow> target_table res" where
  "BuildTargetsDict data =
     rbind (dlookup data ''target_build_files'') (\<lambda>files.
     rbind (py_iter files) (\<lambda>l. rfold (add_build_file data) l []))"

section \<open>Qualifying\<close>

definition all_dependency_sections :: "string list" where
  "all_dependency_sections =
     concat (map (\<lambda>dep. map (\<lambda>op. dep @ op) ['''', ''!'', ''/'']) dependency_sections)"

text \<open>A value that the loops index from \<open>0\<close> to its length and write to.\<close>

definition index_list :: "pyval \<Rightarrow> pyval list res" where
  "index_list v =
     (case v of
        PList l \<Rightarrow> Inr l
      | PStr s \<Rightarrow> if s = [] then Inr [] else Inl (TypeError ''str object does not support item assignment'')
      | PDict d \<Rightarrow> if d = [] then Inr [] else Inl (KeyError ''0'')
      | _ \<Rightarrow> Inl (TypeError (''object of type '' @ class_name v @ '' has no len()'')))"

definition qualify_dependency :: "(string \<Rightarrow> string) \<Rightarrow> gyp_globals \<Rightarrow> string \<Rightarrow> pyval \<Rightarrow> pyval
    \<Rightarrow> string res" where
  "qualify_dependency realpath g target toolset dep =
     rbind (as_str ''rsplit'' dep) (\<lambda>s.
     rbind (opt_str toolset) (\<lambda>ts.
       let (dep_file, dep_target, dep_toolset) = ResolveTarget realpath (BuildFile target) s ts;
           dep_toolset = (if multiple_toolsets g then dep_toolset else ts)
       in case dep_file of
            None \<Rightarrow> Inl (TypeError ''unsupported operand: NoneType and str'')
          | Some f \<Rightarrow> Inr (QualifiedTarget f dep_target dep_toolset)))"

definition qualify_item :: "(string \<Rightarrow> string) \<Rightarrow> gyp_globals \<Rightarrow> string \<Rightarrow> pydict \<Rightarrow> string \<Rightarrow> pyval
    \<Rightarrow> pyval \<Rightarrow> pyval res" where
  "qualify_item realpath g target target_dict dependency_key toolset dep =
     rbind (qualify_dependency realpath g target toolset dep) (\<lambda>dependency.
       if dependency_key = ''dependencies'' then Inr (PStr dependency)
       else
         rbind (dlookup target_dict ''dependencies'') (\<lambda>ds.
         rbind (py_contains ds dependency) (\<lambda>b.
           if b then Inr (PStr dependency)
           else Inl (GypError (''Found '' @ dependency @ '' in '' @ dependency_key @ '' of '' @ target
                  @ '', but not in dependencies'')))))"

definition qualify_section :: "(string \<Rightarrow> string) \<Rightarrow> gyp_globals \<Rightarrow> string \<Rightarrow> pyval \<Rightarrow> string
    \<Rightarrow> pydict \<Rightarrow> pydict res" where
  "qualify_section realpath g target toolset dependency_key target_dict =
     (case dget target_dict dependency_key of
        None \<Rightarrow> Inr target_dict
      | Some v \<Rightarrow>
          rbind (index_list v) (\<lambda>l.
            if l = [] then Inr target_dict
            else
              rbind (rmap (qualify_item realpath g target target_dict dependency_key toolset) l)
                (\<lambda>l'. Inr (dset dependency_key (PList l') target_dict))))"

definition qualify_target :: "(string \<Rightarrow> string) \<Rightarrow> gyp_globals \<Rightarrow> string \<Rightarrow> pydict \<Rightarrow> pydict res" where
  "qualify_target realpath g target target_dict =
     rbind (dlookup target_dict ''toolset'') (\<lambda>toolset.
       rfold (qualify_section realpath g target toolset) all_dependency_sections target_dict)"

text \<open>A loop over the table that rewrites every target dictionary.\<close>

definition each_target :: "(string \<Rightarrow> pydict \<Rightarrow> pydict res) \<Rightarrow> target_table \<Rightarrow> target_table res" where
  "each_target f targets = rmap (\<lambda>td. rbind (f (fst td) (snd td)) (\<lambda>d. Inr (fst td, d))) targets"

definition QualifyDependencies :: "(string \<Rightarrow> string) \<Rightarrow> gyp_globals \<Rightarrow> target_table \<Rightarrow> target_table res" where
  "QualifyDependencies realpath g = each_target (qualify_target realpath g)"

section \<open>Wildcards\<close>

definition wildcard_match :: "string \<Rightarrow> string \<Rightarrow> string option \<Rightarrow> pyval \<Rightarrow> string list res" where
  "wildcard_match dep_file dep_target dep_toolset candidate =
     rbind (py_get candidate ''suppress_wildcard'' (PInt 0)) (\<lambda>sw.
     rbind (py_int sw) (\<lambda>i.
       if i \<noteq> 0 then Inr []
       else
         rbind (py_getitem candidate (PStr ''target_name'')) (\<lambda>name.
           if dep_target \<noteq> ''*'' \<and> PStr dep_target \<noteq> name then Inr []
           else
             rbind (py_getitem candidate (PStr ''toolset'')) (\<lambda>toolset.
               if dep_toolset \<noteq> Some ''*''
                  \<and> (case dep_toolset of None \<Rightarrow> toolset \<noteq> PNone | Some ts \<Rightarrow> PStr ts \<noteq> toolset)
               then Inr []
               else rbind (qualified_name dep_file name toolset) (\<lambda>q. Inr [q])))))"

definition is_wildcard :: "string \<Rightarrow> bool" where
  "is_wildcard dep =
     (case ParseQualifiedTarget dep of (f, t, ts) \<Rightarrow> t = ''*'' \<or> ts = Some ''*'')"

text \<open>What one entry of a dependency list becomes.  The loop of the program deletes a wildcard and
  inserts the matches in its place, leaving the index behind the last of them, so the matches are
  not looked at again.\<close>

definition expand_dependency :: "pydict \<Rightarrow> string \<Rightarrow> string \<Rightarrow> pyval \<Rightarrow> pyval list res" where
  "expand_dependency data target dependency_key dep =
     rbind (as_str ''rsplit'' dep) (\<lambda>s.
       let (dep_file, dep_target, dep_toolset) = ParseQualifiedTarget s in
       if dep_target \<noteq> ''*'' \<and> dep_toolset \<noteq> Some ''*'' then Inr [dep]
       else if dep_file = BuildFile target
       then Inl (GypError (''Found wildcard in '' @ dependency_key @ '' of '' @ target
              @ '' referring to same build file''))
       else
         (case dep_file of
            None \<Rightarrow> Inl (KeyError ''None'')
          | Some f \<Rightarrow>
              rbind (dlookup data f) (\<lambda>file_data.
              rbind (py_getitem file_data (PStr ''targets'')) (\<lambda>ts.
              rbind (py_iter ts) (\<lambda>l.
              rbind (rmap (wildcard_match f dep_target dep_toolset) l) (\<lambda>ms.
                Inr (map PStr (concat ms))))))))"

definition expand_section :: "pydict \<Rightarrow> string \<Rightarrow> string \<Rightarrow> pydict \<Rightarrow> pydict res" where
  "expand_section data target dependency_key target_dict =
     (case dget target_dict dependency_key of
        None \<Rightarrow> Inr target_dict
      | Some v \<Rightarrow>
          rbind (index_list v) (\<lambda>l.
            if l = [] then Inr target_dict
            else
              rbind (rmap (expand_dependency data target dependency_key) l)
                (\<lambda>ls. Inr (dset dependency_key (PList (concat ls)) target_dict))))"

definition expand_target :: "pydict \<Rightarrow> string \<Rightarrow> pydict \<Rightarrow> pydict res" where
  "expand_target data target target_dict =
     rbind (dlookup target_dict ''toolset'') (\<lambda>_.
       rfold (expand_section data target) dependency_sections target_dict)"

definition ExpandWildcardDependencies :: "target_table \<Rightarrow> pydict \<Rightarrow> target_table res" where
  "ExpandWildcardDependencies targets data = each_target (expand_target data) targets"

section \<open>Duplicates and self references\<close>

text \<open>The elements are keys of a dictionary, so lists and dictionaries raise.\<close>

definition hashable :: "pyval \<Rightarrow> bool" where
  "hashable v = (case v of PList l \<Rightarrow> False | PDict d \<Rightarrow> False | _ \<Rightarrow> True)"

fun Unify_loop :: "pyval list \<Rightarrow> pyval list \<Rightarrow> pyval list res" where
  "Unify_loop seen [] = Inr []"
| "Unify_loop seen (e # l) =
     (if \<not> hashable e then Inl (TypeError (''unhashable type: '' @ class_name e))
      else if e \<in> set seen then Unify_loop seen l
      else rbind (Unify_loop (e # seen) l) (\<lambda>r. Inr (e # r)))"

definition Unify :: "pyval list \<Rightarrow> pyval list res" where
  "Unify l = Unify_loop [] l"

definition unify_section :: "string \<Rightarrow> pydict \<Rightarrow> pydict res" where
  "unify_section dependency_key target_dict =
     (let dependencies = dget_default target_dict dependency_key (PList []) in
      if truthy dependencies
      then rbind (py_iter dependencies) (\<lambda>l. rbind (Unify l) (\<lambda>r.
             Inr (dset dependency_key (PList r) target_dict)))
      else Inr target_dict)"

definition RemoveDuplicateDependencies :: "target_table \<Rightarrow> target_table res" where
  "RemoveDuplicateDependencies = each_target (\<lambda>target_name. rfold unify_section dependency_sections)"

definition Filter :: "pyval list \<Rightarrow> pyval \<Rightarrow> pyval list res" where
  "Filter l item =
     rbind (rmap (\<lambda>e. if e \<noteq> item \<and> \<not> hashable e
                      then Inl (TypeError (''unhashable type: '' @ class_name e)) else Inr e) l)
       (\<lambda>l. Inr (filter (\<lambda>e. e \<noteq> item) l))"

text \<open>\<open>targets[t]\<close> is the target dictionary itself: the loop only gets there for
  \<open>t = target_name\<close>.\<close>

definition prune_self :: "string \<Rightarrow> string \<Rightarrow> pydict \<Rightarrow> pydict res" where
  "prune_self target_name dependency_key target_dict =
     (let dependencies = dget_default target_dict dependency_key (PList []) in
      if \<not> truthy dependencies then Inr target_dict
      else
        rbind (py_iter dependencies) (\<lambda>l.
          if PStr target_name \<notin> set l then Inr target_dict
          else
            rbind (py_get (PDict target_dict) ''variables'' (PDict [])) (\<lambda>vars.
            rbind (py_get vars ''prune_self_dependency'' (PInt 0)) (\<lambda>prune.
              if truthy prune
              then rbind (Filter l (PStr target_name)) (\<lambda>r.
                     Inr (dset dependency_key (PList r) target_dict))
              else Inr target_dict))))"

definition RemoveSelfDependencies :: "target_table \<Rightarrow> target_table res" where
  "RemoveSelfDependencies =
     each_target (\<lambda>target_name. rfold (prune_self target_name) dependency_sections)"

section \<open>The table: theorems\<close>

lemma rfold_add:
  assumes "rfold (add_target bf) l ts = Inr ts'" "distinct (dkeys ts)"
  shows "\<exists>new. ts' = ts @ new \<and> distinct (dkeys ts')
    \<and> list_all2 (\<lambda>v nd. v = PDict (snd nd) \<and> (\<exists>name toolset tso.
          dget (snd nd) ''target_name'' = Some (PStr name)
          \<and> dget (snd nd) ''toolset'' = Some toolset \<and> opt_str toolset = Inr tso
          \<and> fst nd = QualifiedTarget bf name tso)) l new"
  using assms
proof (induction l arbitrary: ts)
  case (Cons v l)
  then obtain u where u: "add_target bf v ts = Inr u" "rfold (add_target bf) l u = Inr ts'" by auto
  from u(1) obtain d nm name toolset tso where a: "v = PDict d" "dget d ''target_name'' = Some nm"
    "dget d ''toolset'' = Some toolset" "need_str nm = Inr name" "opt_str toolset = Inr tso"
    "\<not> dhas ts (QualifiedTarget bf name tso)" "u = dset (QualifiedTarget bf name tso) d ts"
    by (auto simp: add_target_def qualified_name_def split: if_splits)
  have nm: "nm = PStr name" using a(4) by (auto simp: need_str_def split: pyval.splits)
  have u': "u = ts @ [(QualifiedTarget bf name tso, d)]"
  proof -
    have "dset k x m = m @ [(k, x)]" if "\<not> dhas m k" for k and x :: pydict and m
      using that unfolding dset_def dhas_def by (induction m) (auto split: if_splits)
    with a(6,7) show ?thesis by simp
  qed
  have "distinct (dkeys u)" using Cons.prems(2) a(6) by (auto simp: u' dhas_iff)
  from Cons.IH[OF u(2) this] obtain new where new: "ts' = u @ new" "distinct (dkeys ts')"
    "list_all2 (\<lambda>v nd. v = PDict (snd nd) \<and> (\<exists>name toolset tso.
          dget (snd nd) ''target_name'' = Some (PStr name)
          \<and> dget (snd nd) ''toolset'' = Some toolset \<and> opt_str toolset = Inr tso
          \<and> fst nd = QualifiedTarget bf name tso)) l new" by blast
  then show ?case using a nm
    by (intro exI[of _ "(QualifiedTarget bf name tso, d) # new"]) (simp add: u')
qed simp

text \<open>The targets a build file declares, as the data has them.\<close>

definition file_targets :: "pydict \<Rightarrow> string \<Rightarrow> pyval list" where
  "file_targets data f =
     (case dget data f of
        Some (PDict fd) \<Rightarrow>
          (case py_iter (dget_default fd ''targets'' (PList [])) of Inr l \<Rightarrow> l | Inl e \<Rightarrow> [])
      | _ \<Rightarrow> [])"

definition names_target :: "string \<Rightarrow> pyval \<Rightarrow> string \<times> pydict \<Rightarrow> bool" where
  "names_target f v nd \<longleftrightarrow> v = PDict (snd nd) \<and> (\<exists>name toolset tso.
     dget (snd nd) ''target_name'' = Some (PStr name)
     \<and> dget (snd nd) ''toolset'' = Some toolset \<and> opt_str toolset = Inr tso
     \<and> fst nd = QualifiedTarget f name tso)"

lemma rfold_add_file:
  assumes "rfold (add_build_file data) fs ts = Inr ts'" "distinct (dkeys ts)"
  shows "\<exists>new files. ts' = ts @ concat new \<and> distinct (dkeys ts') \<and> fs = map PStr files
    \<and> list_all2 (\<lambda>f ns. list_all2 (names_target f) (file_targets data f) ns) files new"
  using assms
proof (induction fs arbitrary: ts)
  case (Cons v fs)
  then obtain u where u: "add_build_file data v ts = Inr u"
    "rfold (add_build_file data) fs u = Inr ts'" by auto
  from u(1) obtain f fd l where f: "v = PStr f" "dget data f = Some (PDict fd)"
    "py_iter (dget_default fd ''targets'' (PList [])) = Inr l" "rfold (add_target f) l ts = Inr u"
    by (auto simp: add_build_file_def need_str_def split: pyval.splits)
  from rfold_add[OF f(4) Cons.prems(2)] obtain n where n: "u = ts @ n" "distinct (dkeys u)"
    "list_all2 (names_target f) l n" unfolding names_target_def[abs_def] by blast
  from Cons.IH[OF u(2) n(2)] obtain new files where s: "ts' = u @ concat new" "distinct (dkeys ts')"
    "fs = map PStr files"
    "list_all2 (\<lambda>f ns. list_all2 (names_target f) (file_targets data f) ns) files new" by blast
  have "file_targets data f = l" by (simp add: file_targets_def f)
  with s n f show ?case by (intro exI[of _ "n # new"] exI[of _ "f # files"]) simp
qed simp

text \<open>The target table holds, file by file and in the order the files declare them, every
  target of every build file under its qualified name, and no name twice.\<close>

theorem BuildTargetsDict_table:
  assumes "BuildTargetsDict data = Inr targets"
  shows "distinct (dkeys targets) \<and> (\<exists>l files new.
    rbind (dlookup data ''target_build_files'') py_iter = Inr l \<and> l = map PStr files
    \<and> targets = concat new
    \<and> list_all2 (\<lambda>f ns. list_all2 (names_target f) (file_targets data f) ns) files new)"
proof -
  from assms obtain v l where l: "dget data ''target_build_files'' = Some v" "py_iter v = Inr l"
    "rfold (add_build_file data) l [] = Inr targets"
    by (auto simp: BuildTargetsDict_def)
  from rfold_add_file[OF l(3)] obtain new files where s: "targets = concat new"
    "distinct (dkeys targets)" "l = map PStr files"
    "list_all2 (\<lambda>f ns. list_all2 (names_target f) (file_targets data f) ns) files new" by auto
  have "rbind (dlookup data ''target_build_files'') py_iter = Inr l" using l by simp
  with s show ?thesis by blast
qed

theorem BuildTargetsDict_table_witness:
  "distinct (dkeys [(''a.gyp:x#target'', [(''target_name'', PStr ''x''), (''toolset'', PStr ''target'')])])"
proof -
  have "BuildTargetsDict [(''target_build_files'', PList [PStr ''a.gyp'']),
      (''a.gyp'', PDict [(''targets'', PList [PDict [(''target_name'', PStr ''x''), (''toolset'', PStr ''target'')]])])]
    = Inr [(''a.gyp:x#target'', [(''target_name'', PStr ''x''), (''toolset'', PStr ''target'')])]"
    by code_simp
  from BuildTargetsDict_table[OF this] show ?thesis by (rule conjunct1)
qed

section \<open>Qualified dependencies: theorems\<close>

lemma each_target_Inr:
  "each_target f ts = Inr ts' \<longleftrightarrow> list_all2 (\<lambda>td td'. fst td' = fst td \<and> f (fst td) (snd td) = Inr (snd td')) ts ts'"
  unfolding each_target_def rmap_list_all2
  by (rule list.rel_cong[OF refl refl]) (auto simp: prod_eq_iff)

definition qualified_section :: "(string \<Rightarrow> string) \<Rightarrow> gyp_globals \<Rightarrow> string \<Rightarrow> pyval \<Rightarrow> pydict \<Rightarrow> pydict
    \<Rightarrow> string \<Rightarrow> bool" where
  "qualified_section realpath g target toolset d d' k \<longleftrightarrow>
     (\<forall>l. dget d k = Some (PList l) \<longrightarrow> (\<exists>qs.
        rmap (qualify_dependency realpath g target toolset) l = Inr qs
        \<and> dget d' k = Some (PList (map PStr qs))
        \<and> (k \<noteq> ''dependencies'' \<longrightarrow> (\<forall>q \<in> set qs.
             \<exists>ds. dget d' ''dependencies'' = Some (PList ds) \<and> PStr q \<in> set ds))))"

lemma rmap_qualify_item:
  assumes "rmap (qualify_item realpath g target d k toolset) l = Inr l'"
  shows "\<exists>qs. rmap (qualify_dependency realpath g target toolset) l = Inr qs \<and> l' = map PStr qs
    \<and> (k \<noteq> ''dependencies'' \<longrightarrow> (\<forall>q \<in> set qs.
         \<exists>ds. dget d ''dependencies'' = Some ds \<and> py_contains ds q = Inr True))"
  using assms
proof (induction l arbitrary: l')
  case (Cons x l)
  from Cons.prems obtain y l1 where y: "qualify_item realpath g target d k toolset x = Inr y"
    "rmap (qualify_item realpath g target d k toolset) l = Inr l1" "l' = y # l1" by auto
  from y(1) obtain q where q: "qualify_dependency realpath g target toolset x = Inr q" "y = PStr q"
    "k \<noteq> ''dependencies'' \<longrightarrow> (\<exists>ds. dget d ''dependencies'' = Some ds \<and> py_contains ds q = Inr True)"
    by (auto simp: qualify_item_def split: if_splits)
  from Cons.IH[OF y(2)] q y(3) show ?case by auto
qed simp

lemma qualify_section_step:
  assumes "qualify_section realpath g target toolset k d = Inr d'"
  shows "(\<forall>k'. k' \<noteq> k \<longrightarrow> dget d' k' = dget d k')
    \<and> (\<exists>qs. (case dget d k of
          None \<Rightarrow> dget d' k = None
        | Some v \<Rightarrow> (\<exists>l. index_list v = Inr l \<and> rmap (qualify_dependency realpath g target toolset) l = Inr qs
            \<and> dget d' k = (if l = [] then Some v else Some (PList (map PStr qs)))
            \<and> (k \<noteq> ''dependencies'' \<longrightarrow> (\<forall>q \<in> set qs.
                \<exists>ds. dget d ''dependencies'' = Some ds \<and> py_contains ds q = Inr True)))))"
proof (cases "dget d k")
  case None
  with assms show ?thesis by (simp add: qualify_section_def)
next
  case (Some v)
  with assms obtain l where l: "index_list v = Inr l" by (auto simp: qualify_section_def)
  show ?thesis
  proof (cases "l = []")
    case True
    with assms Some l show ?thesis by (simp add: qualify_section_def)
  next
    case False
    with assms Some l obtain l' where l': "d' = dset k (PList l') d"
      "rmap (qualify_item realpath g target d k toolset) l = Inr l'"
      by (auto simp: qualify_section_def)
    from rmap_qualify_item[OF l'(2)] False Some l l'(1) show ?thesis by auto
  qed
qed

lemma index_list_PList [simp]: "index_list (PList l) = Inr l"
  by (simp add: index_list_def)

lemma all_dependency_sections_eq:
  "all_dependency_sections = [''dependencies'', ''dependencies!'', ''dependencies/'',
     ''export_dependent_settings'', ''export_dependent_settings!'', ''export_dependent_settings/'']"
  by (simp add: all_dependency_sections_def dependency_sections_def)

text \<open>Once \<open>dependencies\<close> has been rewritten the loop over the other sections leaves it alone.\<close>

lemma qualify_loop:
  assumes "rfold (qualify_section realpath g target toolset) ks d = Inr d'"
    and "distinct ks" "''dependencies'' \<notin> set ks"
  shows "(\<forall>k. k \<notin> set ks \<longrightarrow> dget d' k = dget d k) \<and> (\<forall>k \<in> set ks. \<forall>l.
    dget d k = Some (PList l) \<longrightarrow> (\<exists>qs.
        rmap (qualify_dependency realpath g target toolset) l = Inr qs
        \<and> dget d' k = Some (PList (map PStr qs))
        \<and> (\<forall>q \<in> set qs. \<exists>ds. dget d ''dependencies'' = Some ds \<and> py_contains ds q = Inr True)))"
  using assms
proof (induction ks arbitrary: d)
  case (Cons k ks)
  then obtain u where u: "qualify_section realpath g target toolset k d = Inr u"
    "rfold (qualify_section realpath g target toolset) ks u = Inr d'" by auto
  note ih = Cons.IH[OF u(2)]
  note s = qualify_section_step[OF u(1)]
  have k: "k \<noteq> ''dependencies''" "k \<notin> set ks" using Cons.prems(2,3) by auto
  have "dget d' x = dget d x" if "x \<notin> set (k # ks)" for x
    using ih s Cons.prems(2,3) that by simp
  moreover have "\<exists>qs. rmap (qualify_dependency realpath g target toolset) l = Inr qs
        \<and> dget d' x = Some (PList (map PStr qs))
        \<and> (\<forall>q \<in> set qs. \<exists>ds. dget d ''dependencies'' = Some ds \<and> py_contains ds q = Inr True)"
    if x: "x \<in> set (k # ks)" and l: "dget d x = Some (PList l)" for x l
  proof (cases "x = k")
    case True
    have "dget d' k = dget u k" using ih Cons.prems(2,3) by simp
    with s l True k show ?thesis by auto
  next
    case False
    then have "dget u x = Some (PList l)" "x \<in> set ks" using s l x by auto
    moreover have "dget u ''dependencies'' = dget d ''dependencies''" using s k by simp
    ultimately show ?thesis using ih Cons.prems(2,3) by simp
  qed
  ultimately show ?case by blast
qed simp

lemma py_contains_list: "py_contains v q = Inr True \<Longrightarrow> index_list v = Inr l \<Longrightarrow> q \<noteq> [] \<Longrightarrow>
  \<exists>ds. v = PList ds \<and> PStr q \<in> set ds"
  by (cases v) (auto simp: py_contains_def index_list_def dhas_def split: if_splits)

lemma QualifiedTarget_nonempty: "QualifiedTarget f t ts \<noteq> []"
  by (simp add: QualifiedTarget_def Let_def split: option.split)

lemma qualify_dependency_nonempty:
  assumes "qualify_dependency rp g n t x = Inr q"
  shows "q \<noteq> []"
proof -
  from assms obtain s ts where s: "x = PStr s" "opt_str t = Inr ts"
    by (auto simp: qualify_dependency_def)
  obtain f u v where r: "ResolveTarget rp (BuildFile n) s ts = (f, u, v)" by (metis prod_cases3)
  show ?thesis using assms s r QualifiedTarget_nonempty
    by (cases f) (auto simp: qualify_dependency_def Let_def)
qed

lemma qualify_target_spec:
  assumes "qualify_target realpath g target d = Inr d'"
  shows "(\<forall>k. k \<notin> set all_dependency_sections \<longrightarrow> dget d' k = dget d k)
    \<and> (\<forall>k \<in> set all_dependency_sections. qualified_section realpath g target
          (the (dget d ''toolset'')) d d' k)"
proof -
  define rest where "rest = tl all_dependency_sections"
  have ks: "all_dependency_sections = ''dependencies'' # rest" "distinct rest"
    "''dependencies'' \<notin> set rest"
    by (simp_all add: rest_def all_dependency_sections_eq)
  from assms obtain toolset u where u: "dget d ''toolset'' = Some toolset"
    "qualify_section realpath g target toolset ''dependencies'' d = Inr u"
    "rfold (qualify_section realpath g target toolset) rest u = Inr d'"
    by (auto simp: qualify_target_def ks)
  note a = qualify_section_step[OF u(2)]
  note b = qualify_loop[OF u(3) ks(2,3)]
  have same: "dget d' ''dependencies'' = dget u ''dependencies''" using b ks(3) by blast
  have dep: "\<exists>qs. rmap (qualify_dependency realpath g target toolset) l = Inr qs
        \<and> dget d' ''dependencies'' = Some (PList (map PStr qs))"
    if "dget d ''dependencies'' = Some (PList l)" for l
    using a that by (auto simp: same)
  have il: "\<exists>l. index_list v = Inr l" if "dget u ''dependencies'' = Some v" for v
    using a that by (auto split: option.splits if_splits)
  have other: "qualified_section realpath g target toolset d d' k" if k: "k \<in> set rest" for k
    unfolding qualified_section_def
  proof (intro allI impI)
    fix l assume l: "dget d k = Some (PList l)"
    have "k \<noteq> ''dependencies''" using k ks(3) by auto
    then have "dget u k = Some (PList l)" using a l by simp
    with b k obtain qs where q: "rmap (qualify_dependency realpath g target toolset) l = Inr qs"
      "dget d' k = Some (PList (map PStr qs))"
      "\<forall>q \<in> set qs. \<exists>ds. dget u ''dependencies'' = Some ds \<and> py_contains ds q = Inr True" by blast
    have "\<exists>ds. dget d' ''dependencies'' = Some (PList ds) \<and> PStr q \<in> set ds" if "q \<in> set qs" for q
    proof -
      from q(3) that obtain v where v: "dget u ''dependencies'' = Some v" "py_contains v q = Inr True"
        by blast
      have "q \<noteq> []" using rmap_member[OF q(1) that] qualify_dependency_nonempty by blast
      with py_contains_list[OF v(2)] il[OF v(1)] v(1) same show ?thesis by auto
    qed
    with q show "\<exists>qs. rmap (qualify_dependency realpath g target toolset) l = Inr qs
        \<and> dget d' k = Some (PList (map PStr qs))
        \<and> (k \<noteq> ''dependencies'' \<longrightarrow> (\<forall>q \<in> set qs.
             \<exists>ds. dget d' ''dependencies'' = Some (PList ds) \<and> PStr q \<in> set ds))" by blast
  qed
  have "qualified_section realpath g target toolset d d' ''dependencies''"
    using dep by (auto simp: qualified_section_def)
  moreover have "dget d' k = dget d k" if "k \<notin> set all_dependency_sections" for k
    using a[THEN conjunct1] b[THEN conjunct1] that unfolding ks(1) by simp
  ultimately show ?thesis using other u(1) unfolding ks(1) by simp
qed

text \<open>C32.  Qualifying keeps the table's names and every other key, rewrites each entry of each
  dependency section to the fully qualified name it stands for (seen from the target's build file
  and toolset), and afterwards everything any other section names is in \<open>dependencies\<close>.\<close>

theorem QualifyDependencies_qualified:
  assumes "QualifyDependencies realpath g targets = Inr targets'"
  shows "list_all2 (\<lambda>(n, d) (n', d'). n' = n
    \<and> (\<forall>k. k \<notin> set all_dependency_sections \<longrightarrow> dget d' k = dget d k)
    \<and> (\<forall>k \<in> set all_dependency_sections.
          qualified_section realpath g n (the (dget d ''toolset'')) d d' k)) targets targets'"
  using assms unfolding QualifyDependencies_def each_target_Inr
  by (rule list_all2_mono) (auto dest: qualify_target_spec)

theorem QualifyDependencies_qualified_witness:
  "qualified_section id \<lparr>path_sections = [], non_configuration_keys = [], multiple_toolsets = False,
      generator_filelist_paths = None\<rparr> ''d/a.gyp:x#target'' (PStr ''target'')
    [(''toolset'', PStr ''target''), (''dependencies'', PList [PStr ''y''])]
    [(''toolset'', PStr ''target''), (''dependencies'', PList [PStr ''d/a.gyp:y#target''])] ''dependencies''"
proof -
  have "QualifyDependencies id \<lparr>path_sections = [], non_configuration_keys = [], multiple_toolsets = False,
      generator_filelist_paths = None\<rparr> [(''d/a.gyp:x#target'',
      [(''toolset'', PStr ''target''), (''dependencies'', PList [PStr ''y''])])]
    = Inr [(''d/a.gyp:x#target'', [(''toolset'', PStr ''target''),
        (''dependencies'', PList [PStr ''d/a.gyp:y#target''])])]" by code_simp
  from QualifyDependencies_qualified[OF this] show ?thesis by (simp add: all_dependency_sections_eq)
qed

section \<open>Wildcards: theorems\<close>

text \<open>A qualified name whose parts contain no separator and no wildcard.\<close>

definition plain_part :: "string \<Rightarrow> bool" where
  "plain_part s = (CHR '':'' \<notin> set s \<and> CHR ''#'' \<notin> set s \<and> s \<noteq> ''*'')"

definition plain_target :: "pyval \<Rightarrow> bool" where
  "plain_target v \<longleftrightarrow>
     (\<exists>d t. v = PDict d \<and> dget d ''target_name'' = Some (PStr t) \<and> plain_part t
        \<and> (\<exists>ts. dget d ''toolset'' = Some (PStr ts) \<and> plain_part ts))"

definition plain_file :: "pydict \<Rightarrow> string \<Rightarrow> bool" where
  "plain_file data f \<longleftrightarrow> (\<forall>v \<in> set (file_targets data f). plain_target v)"

lemma parse_plain:
  assumes "plain_part t" "plain_part ts"
  shows "ParseQualifiedTarget (QualifiedTarget f t (Some ts)) =
    (Some f, t, if ts = [] then None else Some ts)"
proof (cases "ts = []")
  case True
  then show ?thesis using assms ParseQualifiedTarget_no_toolset[of t f]
    by (simp add: plain_part_def QualifiedTarget_def Let_def)
next
  case False
  then show ?thesis using assms ParseQualifiedTarget_full[of t ts f]
    by (simp add: plain_part_def QualifiedTarget_def Let_def)
qed

text \<open>The targets that a wildcard stands for, and their qualified names.\<close>

definition matches_wildcard :: "string \<Rightarrow> string option \<Rightarrow> pyval \<Rightarrow> bool" where
  "matches_wildcard t ts v \<longleftrightarrow>
     (case v of
        PDict d \<Rightarrow> py_int (dget_default d ''suppress_wildcard'' (PInt 0)) = Inr 0
          \<and> (t = ''*'' \<or> dget d ''target_name'' = Some (PStr t))
          \<and> (ts = Some ''*'' \<or> (ts \<noteq> None \<and> dget d ''toolset'' = Some (PStr (the ts))))
      | _ \<Rightarrow> False)"

definition qualified_in :: "string \<Rightarrow> pyval \<Rightarrow> pyval" where
  "qualified_in f v =
     (case v of
        PDict d \<Rightarrow> (case (dget d ''target_name'', dget d ''toolset'') of
            (Some (PStr t), Some (PStr ts)) \<Rightarrow> PStr (QualifiedTarget f t (Some ts))
          | _ \<Rightarrow> PNone)
      | _ \<Rightarrow> PNone)"

lemma wildcard_match_plain:
  assumes m: "wildcard_match f t ts v = Inr qs" and p: "plain_target v"
  shows "map PStr qs = (if matches_wildcard t ts v then [qualified_in f v] else [])
    \<and> (\<forall>q \<in> set qs. \<not> is_wildcard q)"
proof -
  from p obtain d t' ts' where d: "v = PDict d" "dget d ''target_name'' = Some (PStr t')" "plain_part t'"
    "dget d ''toolset'' = Some (PStr ts')" "plain_part ts'" by (auto simp: plain_target_def)
  have "qs = (if matches_wildcard t ts v then [QualifiedTarget f t' (Some ts')] else [])"
    using m d by (auto simp: wildcard_match_def matches_wildcard_def qualified_name_def need_str_def opt_str_def
        py_get_eq split: if_splits option.splits)
  with d parse_plain[OF d(3,5), of f] show ?thesis
    by (auto simp: is_wildcard_def plain_part_def qualified_in_def)
qed

text \<open>One entry: it stays when it is no wildcard; a wildcard becomes the names of the targets of the
  other file that match it, in the order of the file.\<close>

definition expands_to :: "pydict \<Rightarrow> string \<Rightarrow> pyval \<Rightarrow> pyval list \<Rightarrow> bool" where
  "expands_to data target dep qs \<longleftrightarrow>
     (\<exists>s. dep = PStr s \<and>
       (if \<not> is_wildcard s then qs = [dep]
        else (\<exists>f t ts. ParseQualifiedTarget s = (Some f, t, ts) \<and> BuildFile target \<noteq> Some f
          \<and> qs = map (qualified_in f) (filter (matches_wildcard t ts) (file_targets data f)))))"

lemma expand_dependency_spec:
  assumes e: "expand_dependency data target k dep = Inr qs" and p: "\<forall>f. plain_file data f"
  shows "expands_to data target dep qs \<and> (\<forall>s. PStr s \<in> set qs \<longrightarrow> \<not> is_wildcard s)"
proof -
  from e obtain s where s: "dep = PStr s" by (auto simp: expand_dependency_def)
  obtain fo t ts where parse: "ParseQualifiedTarget s = (fo, t, ts)" by (metis prod_cases3)
  show ?thesis
  proof (cases "is_wildcard s")
    case False
    with e s parse have "qs = [dep]"
      by (auto simp: expand_dependency_def is_wildcard_def)
    with False s show ?thesis by (simp add: expands_to_def)
  next
    case True
    with e s parse obtain f fd v l ms where
      f: "fo = Some f" "BuildFile target \<noteq> Some f" "dget data f = Some fd"
        "py_getitem fd (PStr ''targets'') = Inr v" "py_iter v = Inr l"
        "rmap (wildcard_match f t ts) l = Inr ms" "qs = map PStr (concat ms)"
      by (auto simp: expand_dependency_def is_wildcard_def split: if_splits option.splits)
    have l: "file_targets data f = l"
      using f(3-5) by (cases fd) (auto simp: file_targets_def py_getitem_def dget_default_def)
    with p have plain: "\<forall>w \<in> set l. plain_target w" by (auto simp: plain_file_def)
    from f(6) plain have "map PStr (concat ms) = map (qualified_in f) (filter (matches_wildcard t ts) l)
        \<and> (\<forall>q \<in> set (concat ms). \<not> is_wildcard q)"
    proof (induction l arbitrary: ms)
      case (Cons w l)
      from Cons.prems(1) obtain m ms' where m: "wildcard_match f t ts w = Inr m" "rmap (wildcard_match f t ts) l = Inr ms'"
        "ms = m # ms'" by auto
      from wildcard_match_plain[OF m(1)] Cons.IH[OF m(2)] Cons.prems(2) show ?case by (auto simp: m(3))
    qed simp
    moreover from this have "\<forall>s. PStr s \<in> set (map PStr (concat ms)) \<longrightarrow> \<not> is_wildcard s"
      unfolding set_map by blast
    ultimately show ?thesis
      using True s parse f(1,2) l by (simp add: expands_to_def f(7))
  qed
qed

lemma expand_target_section:
  assumes e: "expand_target data target d = Inr d'" and k: "k \<in> set dependency_sections"
    and l: "dget d k = Some (PList l)"
  shows "\<exists>ls. rmap (expand_dependency data target k) l = Inr ls
    \<and> dget d' k = Some (PList (concat ls))"
proof -
  have step: "dget u k' = (if k' = x then
      (case dget s x of None \<Rightarrow> None | Some v \<Rightarrow> dget u x) else dget s k')"
    if "expand_section data target x s = Inr u" for s u x k'
    using that by (auto simp: expand_section_def split: option.splits if_splits)
  have own: "\<exists>ls. rmap (expand_dependency data target x) m = Inr ls \<and> dget u x = Some (PList (concat ls))"
    if "expand_section data target x s = Inr u" "dget s x = Some (PList m)" for s u x m
    using that by (cases "m = []") (auto simp: expand_section_def)
  from e obtain u where u: "expand_section data target ''dependencies'' d = Inr u"
    "expand_section data target ''export_dependent_settings'' u = Inr d'"
    by (auto simp: expand_target_def dependency_sections_def)
  from k consider "k = ''dependencies''" | "k = ''export_dependent_settings''"
    by (auto simp: dependency_sections_def)
  then show ?thesis
  proof cases
    case 1
    with own[OF u(1), of l] l step[OF u(2), of k] show ?thesis by simp
  next
    case 2
    with own[OF u(2), of l] l step[OF u(1), of k] show ?thesis by simp
  qed
qed

text \<open>C33.  Expanding wildcards leaves every entry that is no wildcard in its place and puts in the place
  of each wildcard the qualified names of exactly the targets of the other build file that match its
  target and toolset and do not suppress wildcards, in the order of that file.  When target names and
  toolsets are strings without separators, no wildcard is left.\<close>

theorem ExpandWildcardDependencies_expanded:
  assumes "ExpandWildcardDependencies targets data = Inr targets'" "\<forall>f. plain_file data f"
  shows "list_all2 (\<lambda>(n, d) (n', d'). n' = n \<and> (\<forall>k \<in> set dependency_sections. \<forall>l.
      dget d k = Some (PList l) \<longrightarrow> (\<exists>ls. list_all2 (expands_to data n) l ls
        \<and> dget d' k = Some (PList (concat ls))
        \<and> (\<forall>s. PStr s \<in> set (concat ls) \<longrightarrow> \<not> is_wildcard s)))) targets targets'"
proof -
  have one: "\<exists>ls. list_all2 (expands_to data n) l ls \<and> dget d' k = Some (PList (concat ls))
        \<and> (\<forall>s. PStr s \<in> set (concat ls) \<longrightarrow> \<not> is_wildcard s)"
    if "expand_target data n d = Inr d'" "k \<in> set dependency_sections" "dget d k = Some (PList l)"
    for n d d' k l
  proof -
    from expand_target_section[OF that] obtain ls where
      ls: "rmap (expand_dependency data n k) l = Inr ls" "dget d' k = Some (PList (concat ls))" by blast
    have each: "list_all2 (\<lambda>dep qs. expands_to data n dep qs \<and> (\<forall>s. PStr s \<in> set qs \<longrightarrow> \<not> is_wildcard s)) l ls"
      using ls(1) unfolding rmap_list_all2
      by (rule list_all2_mono) (rule expand_dependency_spec[OF _ assms(2)])
    then have "list_all2 (expands_to data n) l ls" by (rule list_all2_mono) blast
    moreover have "\<not> is_wildcard s" if "PStr s \<in> set (concat ls)" for s
      using that each by (auto simp: list_all2_conv_all_nth in_set_conv_nth) blast
    ultimately show ?thesis using ls(2) by blast
  qed
  show ?thesis
    using assms(1) unfolding ExpandWildcardDependencies_def each_target_Inr
  proof (rule list_all2_mono)
    fix td td' :: "string \<times> pydict"
    assume td: "fst td' = fst td \<and> expand_target data (fst td) (snd td) = Inr (snd td')"
    obtain n d n' d' where p: "td = (n, d)" "td' = (n', d')" by fastforce
    from td one[of n d d'] show "(case td of (n, d) \<Rightarrow> \<lambda>(n', d'). n' = n \<and>
        (\<forall>k \<in> set dependency_sections. \<forall>l. dget d k = Some (PList l) \<longrightarrow>
          (\<exists>ls. list_all2 (expands_to data n) l ls \<and> dget d' k = Some (PList (concat ls))
            \<and> (\<forall>s. PStr s \<in> set (concat ls) \<longrightarrow> \<not> is_wildcard s)))) td'"
      by (cases td') (simp add: p del: set_concat)
  qed
qed

definition wildcard_data :: pydict where
  "wildcard_data = [(''b.gyp'', PDict [(''targets'', PList
     [PDict [(''target_name'', PStr ''y''), (''toolset'', PStr ''target'')],
      PDict [(''target_name'', PStr ''z''), (''toolset'', PStr ''host'')],
      PDict [(''target_name'', PStr ''w''), (''toolset'', PStr ''target''), (''suppress_wildcard'', PInt 1)],
      PDict [(''target_name'', PStr ''v''), (''toolset'', PStr ''target'')]])])]"

theorem ExpandWildcardDependencies_expanded_witness:
  "expands_to wildcard_data ''a.gyp:x#target'' (PStr ''b.gyp:*#target'') [PStr ''b.gyp:y#target'', PStr ''b.gyp:v#target'']"
proof -
  let ?d = "[(''toolset'', PStr ''target''), (''dependencies'', PList [PStr ''b.gyp:*#target''])]"
  let ?d' = "[(''toolset'', PStr ''target''), (''dependencies'', PList [PStr ''b.gyp:y#target'', PStr ''b.gyp:v#target''])]"
  have r: "ExpandWildcardDependencies [(''a.gyp:x#target'', ?d)] wildcard_data = Inr [(''a.gyp:x#target'', ?d')]"
    by code_simp
  have p: "\<forall>f. plain_file wildcard_data f"
    by (simp add: wildcard_data_def plain_file_def file_targets_def dget_default_def plain_target_def plain_part_def)
  have "''dependencies'' \<in> set dependency_sections" "dget ?d ''dependencies'' = Some (PList [PStr ''b.gyp:*#target''])"
    "dget ?d' ''dependencies'' = Some (PList [PStr ''b.gyp:y#target'', PStr ''b.gyp:v#target''])"
    by (simp_all add: dependency_sections_def)
  with ExpandWildcardDependencies_expanded[OF r p] obtain ls where
    ls: "list_all2 (expands_to wildcard_data ''a.gyp:x#target'') [PStr ''b.gyp:*#target''] ls"
    "concat ls = [PStr ''b.gyp:y#target'', PStr ''b.gyp:v#target'']"
    by (auto simp del: map_of.simps)
  then obtain l where "ls = [l]" by (auto simp: list_all2_Cons1)
  with ls show ?thesis by simp
qed

section \<open>Duplicates: theorems\<close>

lemma Unify_loop_spec:
  "(\<forall>e \<in> set l. hashable e) \<Longrightarrow>
    \<exists>r. Unify_loop seen l = Inr r \<and> set r = set l - set seen \<and> distinct r \<and> subseq r l"
  by (induction l arbitrary: seen) (fastforce intro: list_emb_Cons)+

lemma Unify_loop_Inr: "Unify_loop seen l = Inr r \<Longrightarrow>
    set r = set l - set seen \<and> distinct r \<and> subseq r l
    \<and> (\<forall>x xs ys. l = xs @ x # ys \<and> x \<notin> set xs \<and> x \<notin> set seen \<longrightarrow>
         (\<exists>us vs. r = us @ x # vs \<and> set us = set xs - set seen))"
proof (induction l arbitrary: seen r)
  case (Cons e l)
  show ?case
  proof (cases "e \<in> set seen")
    case True
    with Cons.prems have "Unify_loop seen l = Inr r" by (auto split: if_splits)
    note ih = Cons.IH[OF this]
    have "\<exists>us vs. r = us @ x # vs \<and> set us = set xs - set seen"
      if "e # l = xs @ x # ys" "x \<notin> set xs" "x \<notin> set seen" for x xs ys
      using that ih True by (cases xs) auto
    with ih True show ?thesis by (auto intro: list_emb_Cons)
  next
    case False
    with Cons.prems obtain r' where r': "Unify_loop (e # seen) l = Inr r'" "r = e # r'"
      by (auto split: if_splits)
    note ih = Cons.IH[OF r'(1)]
    have "\<exists>us vs. r = us @ x # vs \<and> set us = set xs - set seen"
      if x: "e # l = xs @ x # ys" "x \<notin> set xs" "x \<notin> set seen" for x xs ys
    proof (cases xs)
      case Nil
      with x r' show ?thesis by (intro exI[of _ "[]"] exI[of _ r']) auto
    next
      case (Cons y zs)
      with x have z: "l = zs @ x # ys \<and> x \<notin> set zs \<and> x \<notin> set (e # seen)" "y = e" by auto
      from ih[THEN conjunct2, THEN conjunct2, THEN conjunct2, rule_format, OF z(1)]
      obtain us vs where u: "r' = us @ x # vs" "set us = set zs - set (e # seen)"
        by (elim exE conjE) (rule that)
      have "set (e # us) = set xs - set seen" using u(2) Cons z(2) False by auto
      moreover have "r = (e # us) @ x # vs" using u(1) r'(2) by simp
      ultimately show ?thesis by blast
    qed
    with ih r' False show ?thesis by auto
  qed
qed simp

text \<open>Removing duplicates keeps the first occurrence of every entry, in the order of the first
  occurrences, and nothing else.\<close>

theorem Unify_keeps_first:
  assumes "Unify l = Inr r"
  shows "set r = set l \<and> distinct r \<and> subseq r l
    \<and> (\<forall>x xs ys. l = xs @ x # ys \<and> x \<notin> set xs \<longrightarrow>
         (\<exists>us vs. r = us @ x # vs \<and> set us = set xs))"
  using Unify_loop_Inr[OF assms[unfolded Unify_def]] by simp

theorem Unify_keeps_first_witness:
  "set [PStr ''a'', PStr ''b''] = set [PStr ''a'', PStr ''b'', PStr ''a'']"
proof -
  have "Unify [PStr ''a'', PStr ''b'', PStr ''a''] = Inr [PStr ''a'', PStr ''b'']" by code_simp
  from Unify_keeps_first[OF this] show ?thesis by (rule conjunct1)
qed

end
