(* ===== verification/Gyp_Graph.thy ===== *)
theory Gyp_Graph
  imports Gyp_Targets
begin

text \<open>
  The dependency graph (\<open>tools/gyp/pylib/gyp/input.py\<close>): \<open>DependencyGraphNode\<close>,
  \<open>BuildDependencyList\<close> and \<open>VerifyNoGYPFileCircularDependencies\<close>.  A node object is named by its
  \<open>ref\<close>, \<open>None\<close> being the root, and the objects live in a store.  \<open>set.pop\<close> takes an element that
  Python does not determine: the parameter \<open>pick\<close> chooses its position, from the list flattened
  so far and the elements of the set, and every result below holds for every choice.
\<close>

section \<open>Nodes\<close>

type_synonym node_id = "string option"

record dep_node =
  dependencies :: "node_id list"
  dependents :: "node_id list"

type_synonym dep_graph = "node_id \<Rightarrow> dep_node"

definition new_node :: dep_node where
  "new_node = \<lparr> dependencies = [], dependents = [] \<rparr>"

definition new_graph :: dep_graph where
  "new_graph = (\<lambda>n. new_node)"

text \<open>\<open>a.dependencies.append(b); b.dependents.append(a)\<close>.\<close>

definition add_edge :: "node_id \<Rightarrow> node_id \<Rightarrow> dep_graph \<Rightarrow> dep_graph" where
  "add_edge a b g =
     (let g1 = g(a := (g a)\<lparr>dependencies := dependencies (g a) @ [b]\<rparr>)
      in g1(b := (g1 b)\<lparr>dependents := dependents (g1 b) @ [a]\<rparr>))"

section \<open>Flattening\<close>

definition add_zero :: "dep_graph \<Rightarrow> node_id list \<Rightarrow> node_id \<Rightarrow> node_id list \<Rightarrow> node_id list" where
  "add_zero g flat_list node_dependent in_degree_zeros =
     (if (\<forall>d \<in> set (dependencies (g node_dependent)). d \<in> set flat_list)
         \<and> node_dependent \<notin> set in_degree_zeros
      then in_degree_zeros @ [node_dependent] else in_degree_zeros)"

partial_function (option) flatten_loop :: "(node_id list \<Rightarrow> node_id list \<Rightarrow> nat) \<Rightarrow> dep_graph
    \<Rightarrow> node_id list \<Rightarrow> node_id list \<Rightarrow> node_id list option" where
  "flatten_loop pick g in_degree_zeros flat_list =
     (if in_degree_zeros = [] then Some flat_list
      else
        let node = in_degree_zeros ! (pick flat_list in_degree_zeros mod length in_degree_zeros);
            flat = flat_list @ [node]
        in flatten_loop pick g
             (fold (add_zero g flat) (dependents (g node)) (remove1 node in_degree_zeros)) flat)"

definition FlattenToList :: "(node_id list \<Rightarrow> node_id list \<Rightarrow> nat) \<Rightarrow> dep_graph \<Rightarrow> node_id
    \<Rightarrow> node_id list option" where
  "FlattenToList pick g self = flatten_loop pick g (remdups (dependents (g self))) []"

section \<open>Cycles\<close>

definition cycle_from :: "node_id \<Rightarrow> node_id list \<Rightarrow> node_id list" where
  "cycle_from node path = node # takeWhile (\<lambda>p. p \<noteq> node) path @ [node]"

text \<open>The loop over the dependents that are left, with the path walked so far.\<close>

partial_function (option) find_cycles :: "dep_graph \<Rightarrow> node_id list \<Rightarrow> node_id list
    \<Rightarrow> node_id list list \<Rightarrow> node_id list list option" where
  "find_cycles g nodes path results =
     (case nodes of
        [] \<Rightarrow> Some results
      | node # rest \<Rightarrow>
          if node \<in> set path
          then find_cycles g rest path (results @ [cycle_from node path])
          else Option.bind (find_cycles g (dependents (g node)) (node # path) [])
                 (\<lambda>found. find_cycles g rest path (results @ remdups found)))"

definition FindCycles :: "dep_graph \<Rightarrow> node_id \<Rightarrow> node_id list list option" where
  "FindCycles g self = map_option remdups (find_cycles g (dependents (g self)) [self] [])"

section \<open>Dependencies of a node\<close>

definition DirectDependencies :: "dep_graph \<Rightarrow> node_id \<Rightarrow> string list \<Rightarrow> string list" where
  "DirectDependencies g self deps =
     fold (\<lambda>d acc. case d of None \<Rightarrow> acc | Some r \<Rightarrow> if r \<in> set acc then acc else acc @ [r])
       (dependencies (g self)) deps"

text \<open>The loop over the dependencies that are left.\<close>

partial_function (option) deep_loop :: "dep_graph \<Rightarrow> node_id list \<Rightarrow> string list \<Rightarrow> string list option" where
  "deep_loop g nodes deps =
     (case nodes of
        [] \<Rightarrow> Some deps
      | node # rest \<Rightarrow>
          (case node of
             None \<Rightarrow> deep_loop g rest deps
           | Some r \<Rightarrow>
               if r \<in> set deps then deep_loop g rest deps
               else Option.bind (deep_loop g (dependencies (g node)) (deps @ [r]))
                      (\<lambda>deps'. deep_loop g rest deps')))"

definition DeepDependencies :: "dep_graph \<Rightarrow> node_id \<Rightarrow> string list option" where
  "DeepDependencies g self = deep_loop g (dependencies (g self)) []"

section \<open>Building the graph of targets\<close>

definition dependency_error :: "pyval \<Rightarrow> string \<Rightarrow> py_error" where
  "dependency_error dependency target =
     GypError (''Dependency '' @ [CHR 0x27] @ py_str dependency @ [CHR 0x27]
       @ '' not found while trying to load target '' @ target)"

definition find_node :: "string list \<Rightarrow> pyval \<Rightarrow> string option res" where
  "find_node names dependency =
     (case dependency of
        PStr s \<Rightarrow> Inr (if s \<in> set names then Some s else None)
      | PList l \<Rightarrow> Inl (TypeError ''unhashable type: list'')
      | PDict d \<Rightarrow> Inl (TypeError ''unhashable type: dict'')
      | _ \<Rightarrow> Inr None)"

definition link_dependency :: "string list \<Rightarrow> string \<Rightarrow> pyval \<Rightarrow> dep_graph \<Rightarrow> dep_graph res" where
  "link_dependency names target dependency g =
     rbind (find_node names dependency) (\<lambda>n.
       case n of
         None \<Rightarrow> Inl (dependency_error dependency target)
       | Some s \<Rightarrow> Inr (add_edge (Some target) (Some s) g))"

text \<open>A target without dependencies hangs on the root; its own list is still empty then, so the
  assignment of the program is an append.\<close>

definition link_target :: "string list \<Rightarrow> string \<times> pydict \<Rightarrow> dep_graph \<Rightarrow> dep_graph res" where
  "link_target names ts g =
     (let deps = dget_default (snd ts) ''dependencies'' PNone in
      if \<not> truthy deps then Inr (add_edge (Some (fst ts)) None g)
      else rbind (py_iter deps) (\<lambda>l. rfold (link_dependency names (fst ts)) l g))"

definition link_targets :: "target_table \<Rightarrow> dep_graph res" where
  "link_targets targets = rfold (link_target (dkeys targets)) targets new_graph"

definition unreachable_error :: "string list \<Rightarrow> string list \<Rightarrow> py_error" where
  "unreachable_error flat_list names =
     CircularException (''Some targets not reachable, cycle in dependency graph detected: ''
       @ join_str '' '' (filter (\<lambda>t. t \<notin> set flat_list) names))"

definition BuildDependencyList :: "(node_id list \<Rightarrow> node_id list \<Rightarrow> nat) \<Rightarrow> target_table
    \<Rightarrow> (dep_graph \<times> string list) comp" where
  "BuildDependencyList pick targets =
     (case link_targets targets of
        Inl e \<Rightarrow> Some (Inl e)
      | Inr g \<Rightarrow>
          map_option (\<lambda>flat.
              let flat_list = map the flat in
              if length flat_list \<noteq> length targets
              then Inl (unreachable_error flat_list (dkeys targets))
              else Inr (g, flat_list))
            (FlattenToList pick g None))"

section \<open>The graph of build files\<close>

definition file_of :: "string \<Rightarrow> string res" where
  "file_of target =
     (case BuildFile target of
        Some f \<Rightarrow> Inr f
      | None \<Rightarrow> Inl (TypeError ''target without a build file''))"

definition link_file :: "string list \<Rightarrow> string \<Rightarrow> pyval \<Rightarrow> dep_graph \<Rightarrow> dep_graph res" where
  "link_file files build_file dependency g =
     rbind (as_str ''rsplit'' dependency) (\<lambda>s.
       if BuildFile s = Some build_file then Inr g
       else
         (case BuildFile s of
            Some f \<Rightarrow>
              if f \<notin> set files
              then Inl (GypError (''Dependancy '' @ [CHR 0x27] @ f @ [CHR 0x27] @ '' not found''))
              else Inr (if Some f \<in> set (dependencies (g (Some build_file))) then g
                        else add_edge (Some build_file) (Some f) g)
          | None \<Rightarrow> Inl (GypError (''Dependancy '' @ [CHR 0x27] @ ''None'' @ [CHR 0x27] @ '' not found''))))"

definition link_files_of :: "string list \<Rightarrow> string \<times> pydict \<Rightarrow> dep_graph \<Rightarrow> dep_graph res" where
  "link_files_of files ts g =
     rbind (file_of (fst ts)) (\<lambda>build_file.
     rbind (py_iter (dget_default (snd ts) ''dependencies'' (PList []))) (\<lambda>l.
       rfold (link_file files build_file) l g))"

definition hang_on_root :: "string \<Rightarrow> dep_graph \<Rightarrow> dep_graph" where
  "hang_on_root f g =
     (if dependencies (g (Some f)) = [] then add_edge (Some f) None g else g)"

text \<open>\<open>os.path.commonprefix\<close> takes the lexicographically first and last name.\<close>

fun common_prefix :: "string \<Rightarrow> string \<Rightarrow> string" where
  "common_prefix (x # xs) (y # ys) = (if x = y then x # common_prefix xs ys else [])"
| "common_prefix xs ys = []"

definition commonprefix :: "string list \<Rightarrow> string" where
  "commonprefix m = (if m = [] then [] else common_prefix (Min (set m)) (Max (set m)))"

definition simplified_path :: "string \<Rightarrow> node_id \<Rightarrow> string res" where
  "simplified_path common_path_prefix node =
     (case node of
        None \<Rightarrow> Inl (AttributeError ''NoneType object has no attribute startswith'')
      | Some r \<Rightarrow>
          if prefix common_path_prefix r then Inr (drop (length common_path_prefix) r)
          else Inl AssertionError)"

definition cycle_line :: "string \<Rightarrow> node_id list \<Rightarrow> string res" where
  "cycle_line common_path_prefix c =
     rbind (rmap (simplified_path common_path_prefix) c) (\<lambda>ps. Inr (''Cycle: '' @ join_str '' -> '' ps))"

definition files_of_table :: "target_table \<Rightarrow> string list res" where
  "files_of_table targets = rbind (rmap (\<lambda>ts. file_of (fst ts)) targets) (\<lambda>fs. Inr (remdups fs))"

definition link_files :: "target_table \<Rightarrow> (string list \<times> dep_graph) res" where
  "link_files targets =
     rbind (files_of_table targets) (\<lambda>files.
     rbind (rfold (link_files_of files) targets new_graph) (\<lambda>g.
       Inr (files, fold hang_on_root files g)))"

definition VerifyNoGYPFileCircularDependencies :: "(node_id list \<Rightarrow> node_id list \<Rightarrow> nat)
    \<Rightarrow> target_table \<Rightarrow> unit comp" where
  "VerifyNoGYPFileCircularDependencies pick targets =
     (case link_files targets of
        Inl e \<Rightarrow> Some (Inl e)
      | Inr (files, g) \<Rightarrow>
          Option.bind (FlattenToList pick g None) (\<lambda>flat_list.
            if length flat_list = length files then Some (Inr ())
            else
              map_option (\<lambda>cycles.
                  rbind (rmap (cycle_line (commonprefix files)) cycles) (\<lambda>ls.
                    Inl (CircularException (''Cycles in .gyp file dependency graph detected:''
                      @ [CHR 0x0A] @ join_str [CHR 0x0A] ls))))
                (FindCycles g None)))"

declare flatten_loop.simps [code] find_cycles.simps [code] deep_loop.simps [code]

section \<open>The contract of a linked graph\<close>

text \<open>What the code that builds a graph promises to the code that flattens it: dependencies and
  dependents mirror each other, every node has a dependency, and the nodes that hang on the root
  have no other.\<close>

locale linked_graph =
  fixes g :: dep_graph and names :: "string list"
  assumes mirror: "b \<in> set (dependencies (g a)) \<longleftrightarrow> a \<in> set (dependents (g b))"
    and closed: "b \<in> set (dependencies (g a)) \<Longrightarrow>
      a \<in> Some ` set names \<and> (b = None \<or> b \<in> Some ` set names)"
    and no_orphan: "n \<in> set names \<Longrightarrow> dependencies (g (Some n)) \<noteq> []"
    and root_alone: "None \<in> set (dependencies (g a)) \<Longrightarrow> set (dependencies (g a)) = {None}"

text \<open>The relation "depends on" of a graph.\<close>

definition depends_on :: "dep_graph \<Rightarrow> (string \<times> string) set" where
  "depends_on g = {(a, b). Some b \<in> set (dependencies (g (Some a)))}"

text \<open>Topological order: every dependency of an element (the root apart) comes before it.\<close>

definition topological :: "dep_graph \<Rightarrow> node_id list \<Rightarrow> bool" where
  "topological g flat \<longleftrightarrow>
     (\<forall>xs n ys. flat = xs @ n # ys \<longrightarrow> (\<forall>d \<in> set (dependencies (g n)). d = None \<or> d \<in> set xs))"

definition flat_inv :: "dep_graph \<Rightarrow> string list \<Rightarrow> node_id list \<Rightarrow> node_id list \<Rightarrow> bool" where
  "flat_inv g names zeros flat \<longleftrightarrow>
     distinct (zeros @ flat) \<and> set (zeros @ flat) \<subseteq> Some ` set names \<and> topological g flat
     \<and> (\<forall>z \<in> set zeros. \<forall>d \<in> set (dependencies (g z)). d = None \<or> d \<in> set flat)
     \<and> (\<forall>n \<in> set names. set (dependencies (g (Some n))) = {None}
          \<or> set (dependencies (g (Some n))) \<subseteq> set flat \<longrightarrow> Some n \<in> set zeros \<union> set flat)"

lemma topological_Nil [simp]: "topological g []"
  by (simp add: topological_def)

lemma topological_snoc:
  "topological g (flat @ [n]) \<longleftrightarrow>
    topological g flat \<and> (\<forall>d \<in> set (dependencies (g n)). d = None \<or> d \<in> set flat)"
proof
  assume l: "topological g (flat @ [n])"
  have "topological g flat" unfolding topological_def
  proof (intro allI impI)
    fix xs m ys assume "flat = xs @ m # ys"
    then have "flat @ [n] = xs @ m # (ys @ [n])" by simp
    with l show "\<forall>d \<in> set (dependencies (g m)). d = None \<or> d \<in> set xs"
      unfolding topological_def by blast
  qed
  with l show "topological g flat \<and> (\<forall>d \<in> set (dependencies (g n)). d = None \<or> d \<in> set flat)"
    unfolding topological_def by blast
next
  assume r: "topological g flat \<and> (\<forall>d \<in> set (dependencies (g n)). d = None \<or> d \<in> set flat)"
  show "topological g (flat @ [n])" unfolding topological_def
  proof (intro allI impI)
    fix xs m ys assume e: "flat @ [n] = xs @ m # ys"
    show "\<forall>d \<in> set (dependencies (g m)). d = None \<or> d \<in> set xs"
    proof (cases ys rule: rev_cases)
      case Nil
      with e r show ?thesis by simp
    next
      case (snoc zs z)
      with e have "flat = xs @ m # zs" by simp
      with r show ?thesis unfolding topological_def by blast
    qed
  qed
qed

lemma topological_member:
  assumes "topological g flat" "n \<in> set flat" "d \<in> set (dependencies (g n))"
  shows "d = None \<or> d \<in> set flat"
proof -
  from assms(2) obtain xs ys where "flat = xs @ n # ys" by (meson split_list)
  with assms(1,3) show ?thesis unfolding topological_def by auto
qed

lemma fold_add_zero_set:
  "set (fold (add_zero g flat) ds zs) = set zs \<union> {d \<in> set ds. set (dependencies (g d)) \<subseteq> set flat}"
  by (induction ds arbitrary: zs) (auto simp: add_zero_def)

lemma fold_add_zero_distinct: "distinct zs \<Longrightarrow> distinct (fold (add_zero g flat) ds zs)"
  by (induction ds arbitrary: zs) (auto simp: add_zero_def)

context linked_graph
begin

lemma flat_inv_start: "flat_inv g names (remdups (dependents (g None))) []"
proof -
  have z: "z \<in> Some ` set names \<and> set (dependencies (g z)) = {None}"
    if "z \<in> set (dependents (g None))" for z
    using that mirror[of None z] closed[of None z] root_alone[of z] by simp
  have "Some n \<in> set (dependents (g None))"
    if "n \<in> set names" "set (dependencies (g (Some n))) = {None} \<or> set (dependencies (g (Some n))) \<subseteq> {}" for n
    using that mirror[of None "Some n"] no_orphan[of n] by auto
  with z show ?thesis by (auto simp: flat_inv_def)
qed

lemma flat_inv_step:
  assumes "flat_inv g names zeros flat" "node \<in> set zeros"
  shows "flat_inv g names
    (fold (add_zero g (flat @ [node])) (dependents (g node)) (remove1 node zeros)) (flat @ [node])"
    (is "flat_inv g names ?z ?f")
proof -
  have i: "distinct (zeros @ flat)" "set (zeros @ flat) \<subseteq> Some ` set names" "topological g flat"
    "\<And>z d. z \<in> set zeros \<Longrightarrow> d \<in> set (dependencies (g z)) \<Longrightarrow> d = None \<or> d \<in> set flat"
    "\<And>n. n \<in> set names \<Longrightarrow> set (dependencies (g (Some n))) = {None}
          \<or> set (dependencies (g (Some n))) \<subseteq> set flat \<Longrightarrow> Some n \<in> set zeros \<union> set flat"
    using assms(1) by (auto simp: flat_inv_def)
  have node: "node \<notin> set flat" "node \<noteq> None" using assms(2) i(1,2) by auto
  have rm: "set (remove1 node zeros) = set zeros - {node}" using i(1) by (simp add: set_remove1_eq)
  have z: "set ?z = (set zeros - {node})
      \<union> {d \<in> set (dependents (g node)). set (dependencies (g d)) \<subseteq> set ?f}"
    by (simp only: fold_add_zero_set rm)
  have new: "d \<notin> set ?f" if d: "d \<in> set (dependents (g node))" for d
  proof
    assume "d \<in> set ?f"
    moreover have dn: "node \<in> set (dependencies (g d))" using d mirror by simp
    ultimately have "d \<in> set flat \<or> d = node" by auto
    then show False
    proof
      assume "d \<in> set flat"
      with topological_member[OF i(3) _ dn] node show False by blast
    next
      assume "d = node"
      with i(4)[OF assms(2), of node] dn node show False by blast
    qed
  qed
  have "distinct (?z @ ?f)"
    using i(1) node new fold_add_zero_distinct[of "remove1 node zeros" g ?f "dependents (g node)"]
    unfolding distinct_append z by auto
  moreover have "set (?z @ ?f) \<subseteq> Some ` set names"
  proof -
    have "d \<in> Some ` set names" if "d \<in> set (dependents (g node))" for d
      using that mirror[of node d] closed[of node d] by simp
    with i(2) assms(2) show ?thesis unfolding set_append z by auto
  qed
  moreover have "topological g ?f" using i(3) i(4)[OF assms(2)] by (auto simp: topological_snoc)
  moreover have "\<forall>x \<in> set ?z. \<forall>d \<in> set (dependencies (g x)). d = None \<or> d \<in> set ?f"
    using i(4) z by auto
  moreover have "Some n \<in> set ?z \<union> set ?f"
    if n: "n \<in> set names" "set (dependencies (g (Some n))) = {None}
          \<or> set (dependencies (g (Some n))) \<subseteq> set ?f" for n
  proof (cases "set (dependencies (g (Some n))) = {None}
          \<or> set (dependencies (g (Some n))) \<subseteq> set flat")
    case True
    with i(5)[OF n(1)] z show ?thesis by auto
  next
    case False
    with n(2) have "node \<in> set (dependencies (g (Some n)))" by auto
    with mirror[of node "Some n"] n(2) z False show ?thesis by auto
  qed
  ultimately show ?thesis unfolding flat_inv_def by blast
qed

text \<open>The loop returns: every round moves one of finitely many nodes into the list.\<close>

lemma flatten_loop_returns:
  assumes "flat_inv g names zeros flat"
  shows "\<exists>r. flatten_loop pick g zeros flat = Some r \<and> flat_inv g names [] r"
  using assms
proof (induction "card (set names) - length flat" arbitrary: zeros flat rule: less_induct)
  case less
  show ?case
  proof (cases "zeros = []")
    case True
    with less.prems show ?thesis by (subst flatten_loop.simps) simp
  next
    case False
    define node where "node = zeros ! (pick flat zeros mod length zeros)"
    have node: "node \<in> set zeros" using False by (simp add: node_def)
    note inv = flat_inv_step[OF less.prems node]
    have "length (zeros @ flat) \<le> card (Some ` set names)"
      using less.prems unfolding flat_inv_def by (metis card_mono distinct_card finite_imageI finite_set)
    then have "length zeros + length flat \<le> card (set names)" by (simp add: card_image)
    then have lt: "card (set names) - length (flat @ [node]) < card (set names) - length flat"
      using False by (cases zeros) auto
    from less.hyps[OF lt inv] False show ?thesis
      by (subst flatten_loop.simps) (simp add: Let_def node_def)
  qed
qed

lemma FlattenToList_returns:
  "\<exists>flat. FlattenToList pick g None = Some flat \<and> flat_inv g names [] flat"
  unfolding FlattenToList_def by (rule flatten_loop_returns[OF flat_inv_start])

lemma FlattenToList_inv: "FlattenToList pick g None = Some flat \<Longrightarrow> flat_inv g names [] flat"
  using FlattenToList_returns[of pick] by auto

text \<open>The list is complete exactly when nothing depends on itself.\<close>

lemma complete_acyclic:
  assumes "flat_inv g names [] flat" "set flat = Some ` set names"
  shows "acyclic (depends_on g)"
proof -
  define pos where "pos n = length (takeWhile (\<lambda>x. x \<noteq> Some n) flat)" for n
  have pos: "pos n = length xs" if "flat = xs @ Some n # ys" "Some n \<notin> set xs" for n xs ys
  proof -
    have "takeWhile (\<lambda>x. x \<noteq> Some n) flat = xs"
      using that by (simp add: takeWhile_append)
    then show ?thesis by (simp add: pos_def)
  qed
  have dec: "pos b < pos a" if "(a, b) \<in> depends_on g" for a b
  proof -
    have b: "Some b \<in> set (dependencies (g (Some a)))" using that by (simp add: depends_on_def)
    then have "Some a \<in> set flat" using closed assms(2) by blast
    then obtain xs ys where f: "flat = xs @ Some a # ys" "Some a \<notin> set xs"
      by (meson split_list_first)
    have "Some b \<in> set xs" using assms(1) f(1) b unfolding flat_inv_def topological_def by blast
    then obtain us vs where x: "xs = us @ Some b # vs" "Some b \<notin> set us" by (meson split_list_first)
    from pos[OF f] pos[of us b "vs @ Some a # ys"] f x show ?thesis by simp
  qed
  have "(a, b) \<in> (depends_on g)\<^sup>+ \<Longrightarrow> pos b < pos a" for a b
    by (induction rule: trancl_induct) (use dec less_trans in blast)+
  then show ?thesis by (auto simp: acyclic_def)
qed

lemma acyclic_complete:
  assumes inv: "flat_inv g names [] flat" and "acyclic (depends_on g)"
  shows "set flat = Some ` set names"
proof (rule ccontr)
  assume "set flat \<noteq> Some ` set names"
  with inv obtain m where m: "m \<in> set names" "Some m \<notin> set flat" by (auto simp: flat_inv_def)
  have "depends_on g \<subseteq> set names \<times> set names" using closed by (auto simp: depends_on_def)
  then have "finite (depends_on g)" by (rule finite_subset) simp
  then have wf: "wf ((depends_on g)\<inverse>)" using assms(2) by (rule finite_acyclic_wf_converse)
  define R where "R = {n \<in> set names. Some n \<notin> set flat}"
  have "m \<in> R" using m by (simp add: R_def)
  from wfE_min[OF wf this] obtain n where n: "n \<in> R" "\<And>y. (y, n) \<in> (depends_on g)\<inverse> \<Longrightarrow> y \<notin> R" by blast
  have "set (dependencies (g (Some n))) \<subseteq> set flat" if "None \<notin> set (dependencies (g (Some n)))"
  proof
    fix d assume d: "d \<in> set (dependencies (g (Some n)))"
    with that closed[OF d] obtain y where y: "d = Some y" "y \<in> set names" by auto
    with d n(2)[of y] show "d \<in> set flat" by (auto simp: depends_on_def R_def)
  qed
  then have "Some n \<in> set flat"
    using inv n(1) root_alone[of "Some n"] by (auto simp: flat_inv_def R_def)
  with n(1) show False by (simp add: R_def)
qed

end

section \<open>The target graph is linked\<close>

lemma add_edge_sel [simp]:
  "dependencies (add_edge a b g n) = (if n = a then dependencies (g n) @ [b] else dependencies (g n))"
  "dependents (add_edge a b g n) = (if n = b then dependents (g n) @ [a] else dependents (g n))"
  by (auto simp: add_edge_def Let_def)

definition mirrored :: "dep_graph \<Rightarrow> bool" where
  "mirrored g \<longleftrightarrow> (\<forall>a b. b \<in> set (dependencies (g a)) \<longleftrightarrow> a \<in> set (dependents (g b)))"

lemma mirrored_new [simp]: "mirrored new_graph"
  by (simp add: mirrored_def new_graph_def new_node_def)

lemma mirrored_add_edge [simp]: "mirrored g \<Longrightarrow> mirrored (add_edge a b g)"
  by (auto simp: mirrored_def)

text \<open>The names that the \<open>dependencies\<close> of a target list.\<close>

definition strings_of :: "pyval list \<Rightarrow> string list" where
  "strings_of l = concat (map (\<lambda>v. case v of PStr s \<Rightarrow> [s] | _ \<Rightarrow> []) l)"

lemma strings_of_map [simp]: "strings_of (map PStr ss) = ss"
  by (induction ss) (simp_all add: strings_of_def)

definition spec_deps :: "pydict \<Rightarrow> string list" where
  "spec_deps spec =
     (case py_iter (dget_default spec ''dependencies'' PNone) of Inr l \<Rightarrow> strings_of l | Inl e \<Rightarrow> [])"

lemma link_dependency_Inr:
  "link_dependency names t v g = Inr g' \<longleftrightarrow>
    (\<exists>s \<in> set names. v = PStr s \<and> g' = add_edge (Some t) (Some s) g)"
  by (auto simp: link_dependency_def find_node_def split: option.splits pyval.splits if_splits)

lemma link_dependency_loop:
  assumes "rfold (link_dependency names t) l g = Inr g'" "mirrored g"
  shows "\<exists>ss. l = map PStr ss \<and> set ss \<subseteq> set names \<and> mirrored g'
    \<and> dependencies (g' (Some t)) = dependencies (g (Some t)) @ map Some ss
    \<and> (\<forall>n. n \<noteq> Some t \<longrightarrow> dependencies (g' n) = dependencies (g n))"
  using assms
proof (induction l arbitrary: g)
  case (Cons v l)
  from Cons.prems obtain s where s: "v = PStr s" "s \<in> set names"
    "rfold (link_dependency names t) l (add_edge (Some t) (Some s) g) = Inr g'"
    by (auto simp: link_dependency_Inr)
  from Cons.IH[OF s(3)] Cons.prems(2) obtain ss where
    "l = map PStr ss" "set ss \<subseteq> set names" "mirrored g'"
    "dependencies (g' (Some t)) = dependencies (g (Some t)) @ Some s # map Some ss"
    "\<forall>n. n \<noteq> Some t \<longrightarrow> dependencies (g' n) = dependencies (g n)" by auto
  with s show ?case by (intro exI[of _ "s # ss"]) simp
qed simp

lemma falsy_spec_deps: "\<not> truthy (dget_default spec ''dependencies'' PNone) \<Longrightarrow> spec_deps spec = []"
  by (cases "dget_default spec ''dependencies'' PNone") (simp_all add: spec_deps_def py_iter_def strings_of_def)

lemma py_iter_truthy: "truthy v \<Longrightarrow> py_iter v = Inr l \<Longrightarrow> l \<noteq> []"
  by (cases v) (auto simp: py_iter_def)

lemma link_target_spec:
  assumes "link_target names (t, spec) g = Inr g'" "mirrored g" "dependencies (g (Some t)) = []"
  shows "mirrored g' \<and> set (spec_deps spec) \<subseteq> set names
    \<and> dependencies (g' (Some t)) = (if spec_deps spec = [] then [None] else map Some (spec_deps spec))
    \<and> (\<forall>n. n \<noteq> Some t \<longrightarrow> dependencies (g' n) = dependencies (g n))"
proof (cases "truthy (dget_default spec ''dependencies'' PNone)")
  case False
  with assms show ?thesis by (auto simp: link_target_def falsy_spec_deps)
next
  case True
  with assms(1) obtain l where l: "py_iter (dget_default spec ''dependencies'' PNone) = Inr l"
    "rfold (link_dependency names t) l g = Inr g'" by (auto simp: link_target_def)
  from link_dependency_loop[OF l(2) assms(2)] obtain ss where ss: "l = map PStr ss" "set ss \<subseteq> set names"
    "mirrored g'" "dependencies (g' (Some t)) = map Some ss"
    "\<forall>n. n \<noteq> Some t \<longrightarrow> dependencies (g' n) = dependencies (g n)" using assms(3) by auto
  have "spec_deps spec = ss" by (simp add: spec_deps_def l(1) ss(1))
  moreover have "ss \<noteq> []" using py_iter_truthy[OF True l(1)] ss(1) by simp
  ultimately show ?thesis using ss by simp
qed

lemma link_targets_loop:
  assumes "rfold (link_target names) ts g = Inr g'" "mirrored g" "distinct (dkeys ts)"
    and "\<And>t. t \<in> set (dkeys ts) \<Longrightarrow> dependencies (g (Some t)) = []"
  shows "mirrored g'
    \<and> (\<forall>n. n \<notin> Some ` set (dkeys ts) \<longrightarrow> dependencies (g' n) = dependencies (g n))
    \<and> (\<forall>(t, spec) \<in> set ts. set (spec_deps spec) \<subseteq> set names \<and> dependencies (g' (Some t))
          = (if spec_deps spec = [] then [None] else map Some (spec_deps spec)))"
  using assms
proof (induction ts arbitrary: g)
  case (Cons ts rest)
  obtain t spec where ts: "ts = (t, spec)" by fastforce
  from Cons.prems(1) obtain u where u: "link_target names (t, spec) g = Inr u"
    "rfold (link_target names) rest u = Inr g'" by (auto simp: ts)
  have t0: "dependencies (g (Some t)) = []" using Cons.prems(4) by (simp add: ts)
  note s = link_target_spec[OF u(1) Cons.prems(2) t0]
  have d: "distinct (dkeys rest)" "t \<notin> set (dkeys rest)" using Cons.prems(3) by (simp_all add: ts)
  have r0: "dependencies (u (Some x)) = []" if "x \<in> set (dkeys rest)" for x
  proof -
    have "x \<noteq> t" using that d(2) by blast
    with s have "dependencies (u (Some x)) = dependencies (g (Some x))" by simp
    with Cons.prems(4) that show ?thesis by simp
  qed
  note ih = Cons.IH[OF u(2) s[THEN conjunct1] d(1) r0]
  have "dependencies (g' (Some t)) = dependencies (u (Some t))" using ih d(2) by auto
  with ih s show ?case by (auto simp: ts)
qed simp

text \<open>The graph and its names as total functions of the table, for the contract.\<close>

definition target_graph :: "target_table \<Rightarrow> dep_graph" where
  "target_graph targets =
     (case link_targets targets of
        Inr g \<Rightarrow> if wf_dict targets then g else new_graph
      | Inl e \<Rightarrow> new_graph)"

definition target_names :: "target_table \<Rightarrow> string list" where
  "target_names targets =
     (case link_targets targets of
        Inr g \<Rightarrow> if wf_dict targets then dkeys targets else []
      | Inl e \<Rightarrow> [])"

lemma link_targets_spec:
  assumes "link_targets targets = Inr g" "wf_dict targets"
  shows "mirrored g \<and> (\<forall>n. n \<notin> Some ` set (dkeys targets) \<longrightarrow> dependencies (g n) = [])
    \<and> (\<forall>(t, spec) \<in> set targets. set (spec_deps spec) \<subseteq> set (dkeys targets) \<and> dependencies (g (Some t))
          = (if spec_deps spec = [] then [None] else map Some (spec_deps spec)))"
proof -
  have d: "distinct (dkeys targets)" using assms(2) by (simp add: wf_dict_def)
  have n: "dependencies (new_graph n) = []" for n by (simp add: new_graph_def new_node_def)
  from link_targets_loop[OF assms(1)[unfolded link_targets_def] mirrored_new d n]
  show ?thesis unfolding n .
qed

lemma linked_graph_new: "linked_graph new_graph []"
  by unfold_locales (simp_all add: new_graph_def new_node_def)

lemma linked_graph_targets: "linked_graph (target_graph targets) (target_names targets)"
proof (cases "\<exists>g. link_targets targets = Inr g \<and> wf_dict targets")
  case False
  then show ?thesis
    using linked_graph_new by (auto simp: target_graph_def target_names_def split: sum.splits)
next
  case True
  then obtain g where g: "link_targets targets = Inr g" "wf_dict targets" by blast
  note s = link_targets_spec[OF g]
  have node: "\<exists>t spec. a = Some t \<and> (t, spec) \<in> set targets" if "b \<in> set (dependencies (g a))" for a b
  proof -
    have "a \<in> Some ` set (dkeys targets)" using s that by (metis empty_iff empty_set)
    then show ?thesis by auto
  qed
  have deps: "dependencies (g (Some t)) = (if spec_deps spec = [] then [None] else map Some (spec_deps spec))"
    "set (spec_deps spec) \<subseteq> set (dkeys targets)" if "(t, spec) \<in> set targets" for t spec
    using s that by blast+
  have "linked_graph g (dkeys targets)"
  proof
    show "b \<in> set (dependencies (g a)) \<longleftrightarrow> a \<in> set (dependents (g b))" for a b
      using s unfolding mirrored_def by blast
  next
    fix a b assume b: "b \<in> set (dependencies (g a))"
    from node[OF b] obtain t spec where t: "a = Some t" "(t, spec) \<in> set targets" by blast
    have "t \<in> set (dkeys targets)" using t(2) by force
    moreover have "b = None \<or> b \<in> Some ` set (dkeys targets)"
      using b deps[OF t(2)] t(1) by (auto split: if_splits)
    ultimately show "a \<in> Some ` set (dkeys targets) \<and> (b = None \<or> b \<in> Some ` set (dkeys targets))"
      using t(1) by blast
  next
    fix n assume "n \<in> set (dkeys targets)"
    then obtain spec where "(n, spec) \<in> set targets" by auto
    from deps(1)[OF this] show "dependencies (g (Some n)) \<noteq> []" by simp
  next
    fix a assume b: "None \<in> set (dependencies (g a))"
    from node[OF b] obtain t spec where t: "a = Some t" "(t, spec) \<in> set targets" by blast
    from deps(1)[OF t(2)] b t(1) show "set (dependencies (g a)) = {None}" by (auto split: if_splits)
  qed
  then show ?thesis using g by (simp add: target_graph_def target_names_def)
qed

interpretation tgraph: linked_graph "target_graph targets" "target_names targets" for targets
  by (rule linked_graph_targets)

text \<open>"Depends on", read off the table.\<close>

definition table_relation :: "target_table \<Rightarrow> (string \<times> string) set" where
  "table_relation targets = {(a, b). \<exists>spec. (a, spec) \<in> set targets \<and> b \<in> set (spec_deps spec)}"

lemma target_graph_relation:
  assumes "link_targets targets = Inr g" "wf_dict targets"
  shows "depends_on g = table_relation targets"
proof (rule set_eqI, clarify)
  fix a b
  note s = link_targets_spec[OF assms]
  show "(a, b) \<in> depends_on g \<longleftrightarrow> (a, b) \<in> table_relation targets"
  proof
    assume ab: "(a, b) \<in> depends_on g"
    then have "Some a \<in> Some ` set (dkeys targets)" using s
      unfolding depends_on_def by (metis (mono_tags) case_prodD empty_iff empty_set mem_Collect_eq)
    then obtain spec where "(a, spec) \<in> set targets" by auto
    with s ab show "(a, b) \<in> table_relation targets"
      by (fastforce simp: depends_on_def table_relation_def split: if_splits)
  next
    assume "(a, b) \<in> table_relation targets"
    with s show "(a, b) \<in> depends_on g" by (fastforce simp: depends_on_def table_relation_def)
  qed
qed

section \<open>The list of targets: theorems\<close>

lemma flat_inv_names:
  assumes "flat_inv g names [] flat"
  shows "map Some (map the flat) = flat" "distinct (map the flat)" "set (map the flat) \<subseteq> set names"
proof -
  have n: "x \<noteq> None" if "x \<in> set flat" for x using assms that by (auto simp: flat_inv_def)
  show m: "map Some (map the flat) = flat"
    using n by (simp add: map_idI)
  then show "distinct (map the flat)"
    using assms by (metis append_Nil distinct_map flat_inv_def)
  show "set (map the flat) \<subseteq> set names" using assms by (auto simp: flat_inv_def)
qed

lemma target_graph_eqs:
  assumes "link_targets targets = Inr g" "wf_dict targets"
  shows "target_graph targets = g" "target_names targets = dkeys targets"
  using assms by (simp_all add: target_graph_def target_names_def)

lemma BuildDependencyList_cases:
  assumes "link_targets targets = Inr g" "wf_dict targets"
  obtains flat where "FlattenToList pick g None = Some (map Some flat)"
    "flat_inv g (dkeys targets) [] (map Some flat)" "distinct flat" "set flat \<subseteq> set (dkeys targets)"
    "BuildDependencyList pick targets = Some
       (if set flat = set (dkeys targets) then Inr (g, flat)
        else Inl (unreachable_error flat (dkeys targets)))"
proof -
  from tgraph.FlattenToList_returns[where targets = targets and pick = pick] obtain fl where
    fl: "FlattenToList pick g None = Some fl" "flat_inv g (dkeys targets) [] fl"
    unfolding target_graph_eqs[OF assms] by blast
  define flat where "flat = map the fl"
  note n = flat_inv_names[OF fl(2), folded flat_def]
  have d: "distinct (dkeys targets)" using assms(2) by (simp add: wf_dict_def)
  have "length flat = length targets \<longleftrightarrow> set flat = set (dkeys targets)"
    using n(2,3) d distinct_card[OF n(2)] distinct_card[OF d]
    by (metis card_subset_eq finite_set length_map)
  then have b: "BuildDependencyList pick targets = Some
       (if set flat = set (dkeys targets) then Inr (g, flat)
        else Inl (unreachable_error flat (dkeys targets)))"
    using assms(1) fl(1) by (simp add: BuildDependencyList_def Let_def flat_def)
  show thesis using fl n by (intro that[OF _ _ _ _ b]) simp_all
qed

text \<open>For evaluated runs: the list without the graph.\<close>

lemma map_snd_Inr: "map_option (map_sum id snd) m = Some (Inr y) \<Longrightarrow> \<exists>x. m = Some (Inr (x, y))"
  by (cases m; cases "the m") auto

lemma map_snd_Inl: "map_option (map_sum id snd) m = Some (Inl e) \<Longrightarrow> m = Some (Inl e)"
  by (cases m; cases "the m") auto

text \<open>C31.  Building the dependency list always returns, whichever elements the set of ready nodes
  gives up first: the loop that flattens the graph ends.\<close>

theorem BuildDependencyList_returns:
  assumes "wf_dict targets"
  shows "\<exists>r. BuildDependencyList pick targets = Some r"
proof (cases "link_targets targets")
  case (Inr g)
  from BuildDependencyList_cases[OF Inr assms] show ?thesis by blast
qed (simp add: BuildDependencyList_def)

theorem BuildDependencyList_returns_witness:
  "\<exists>r. BuildDependencyList (\<lambda>flat zs. 0) [(''a:x'', [(''dependencies'', PList [PStr ''a:x''])])] = Some r"
  by (rule BuildDependencyList_returns) (simp add: wf_dict_def)

lemma BuildDependencyList_ordered:
  assumes "BuildDependencyList pick targets = Some (Inr (g, flat_list))" "wf_dict targets"
  shows "distinct flat_list \<and> set flat_list = set (dkeys targets)
    \<and> (\<forall>xs t ys spec. flat_list = xs @ t # ys \<and> dget targets t = Some spec
         \<longrightarrow> set (spec_deps spec) \<subseteq> set xs)"
proof -
  from assms(1) obtain g' where l: "link_targets targets = Inr g'"
    by (cases "link_targets targets") (auto simp: BuildDependencyList_def)
  from BuildDependencyList_cases[OF l assms(2), of pick] obtain flat where f:
    "flat_inv g' (dkeys targets) [] (map Some flat)" "distinct flat" "set flat \<subseteq> set (dkeys targets)"
    "BuildDependencyList pick targets = Some
       (if set flat = set (dkeys targets) then Inr (g', flat)
        else Inl (unreachable_error flat (dkeys targets)))" by metis
  from f(4) assms(1) have e: "set flat = set (dkeys targets)" "flat_list = flat"
    by (auto split: if_splits)
  have "set (spec_deps spec) \<subseteq> set xs"
    if "flat = xs @ t # ys" "dget targets t = Some spec" for xs t ys spec
  proof
    fix d assume d: "d \<in> set (spec_deps spec)"
    have "(t, spec) \<in> set targets" using that(2) by (rule map_of_SomeD)
    with link_targets_spec[OF l assms(2)] d have "Some d \<in> set (dependencies (g' (Some t)))"
      by (fastforce split: if_splits)
    moreover have "map Some flat = map Some xs @ Some t # map Some ys" using that(1) by simp
    ultimately show "d \<in> set xs" using f(1) unfolding flat_inv_def topological_def by fastforce
  qed
  with f(2) e show ?thesis by blast
qed

text \<open>C3.  The list holds every target once, and each one comes after all the targets it depends
  on.\<close>

theorem BuildDependencyList_order:
  assumes "BuildDependencyList pick targets = Some (Inr (g, flat_list))" "wf_dict targets"
  shows "distinct flat_list \<and> set flat_list = set (dkeys targets)
    \<and> (\<forall>xs t ys spec. flat_list = xs @ t # ys \<and> dget targets t = Some spec
         \<longrightarrow> set (spec_deps spec) \<subseteq> set xs)"
  by (rule BuildDependencyList_ordered[OF assms])

theorem BuildDependencyList_order_witness:
  "distinct [''a:y'', ''a:x''] \<and> set (spec_deps [(''dependencies'', PList [PStr ''a:y''])]) \<subseteq> set [''a:y'']"
proof -
  let ?t = "[(''a:x'', [(''dependencies'', PList [PStr ''a:y''])]), (''a:y'', [])]"
  have "map_option (map_sum id snd) (BuildDependencyList (\<lambda>flat zs. 0) ?t) = Some (Inr [''a:y'', ''a:x''])"
    by code_simp
  from map_snd_Inr[OF this] obtain g where
    g: "BuildDependencyList (\<lambda>flat zs. 0) ?t = Some (Inr (g, [''a:y'', ''a:x'']))" by (elim exE)
  have w: "wf_dict ?t" by (simp add: wf_dict_def)
  note b = BuildDependencyList_order[OF g w]
  from b[THEN conjunct2, THEN conjunct2, THEN spec, of "[''a:y'']", THEN spec, of "''a:x''",
      THEN spec, of "[]", THEN spec, of "[(''dependencies'', PList [PStr ''a:y''])]"] b
  show ?thesis by simp
qed

text \<open>C19.  When every dependency names a target, the list is built exactly when the targets'
  dependencies have no cycle, and a cycle raises \<open>CircularException\<close>.\<close>

theorem BuildDependencyList_acyclic:
  assumes "wf_dict targets" "link_targets targets = Inr g"
  shows "(acyclic (table_relation targets) \<longleftrightarrow>
      (\<exists>flat. BuildDependencyList pick targets = Some (Inr (g, flat))))
    \<and> (\<not> acyclic (table_relation targets) \<longleftrightarrow>
      (\<exists>m. BuildDependencyList pick targets = Some (Inl (CircularException m))))"
proof -
  from BuildDependencyList_cases[OF assms(2,1), of pick] obtain flat where f:
    "flat_inv g (dkeys targets) [] (map Some flat)"
    "BuildDependencyList pick targets = Some
       (if set flat = set (dkeys targets) then Inr (g, flat)
        else Inl (unreachable_error flat (dkeys targets)))" by metis
  note eqs = target_graph_eqs[OF assms(2,1)]
  have "acyclic (table_relation targets) \<longleftrightarrow> set (map Some flat) = Some ` set (dkeys targets)"
    using tgraph.acyclic_complete[where targets = targets and flat = "map Some flat", unfolded eqs, OF f(1)]
      tgraph.complete_acyclic[where targets = targets and flat = "map Some flat", unfolded eqs, OF f(1)]
      target_graph_relation[OF assms(2,1)] by auto
  also have "\<dots> \<longleftrightarrow> set flat = set (dkeys targets)" by (simp add: inj_image_eq_iff)
  finally show ?thesis using f(2) by (simp add: unreachable_error_def)
qed

theorem BuildDependencyList_acyclic_witness:
  "\<not> acyclic (table_relation [(''a:x'', [(''dependencies'', PList [PStr ''a:x''])])])"
proof -
  let ?t = "[(''a:x'', [(''dependencies'', PList [PStr ''a:x''])])]"
  have "BuildDependencyList (\<lambda>flat zs. 0) ?t = Some (Inl (CircularException
      ''Some targets not reachable, cycle in dependency graph detected: a:x''))"
  proof -
    have "map_option (map_sum id snd) (BuildDependencyList (\<lambda>flat zs. 0) ?t) = Some (Inl (CircularException
      ''Some targets not reachable, cycle in dependency graph detected: a:x''))" by code_simp
    then show ?thesis by (rule map_snd_Inl)
  qed
  moreover have w: "wf_dict ?t" by (simp add: wf_dict_def)
  moreover obtain g where l: "link_targets ?t = Inr g"
  proof -
    have "map_sum id (\<lambda>_. ()) (link_targets ?t) = Inr ()" by code_simp
    then show thesis using that by (auto simp: map_sum_def split: sum.splits)
  qed
  ultimately show ?thesis using BuildDependencyList_acyclic[OF w l] by metis
qed

section \<open>Deep dependencies\<close>

lemma deep_loop_simps:
  "deep_loop g [] deps = Some deps"
  "deep_loop g (None # rest) deps = deep_loop g rest deps"
  "deep_loop g (Some r # rest) deps =
     (if r \<in> set deps then deep_loop g rest deps
      else Option.bind (deep_loop g (dependencies (g (Some r))) (deps @ [r])) (deep_loop g rest))"
  by (subst deep_loop.simps; simp)+

text \<open>The names a list of nodes leads to.\<close>

definition reached_from :: "dep_graph \<Rightarrow> node_id list \<Rightarrow> string set" where
  "reached_from g nodes = (depends_on g)\<^sup>* `` {r. Some r \<in> set nodes}"

end
