(* ===== verification/Gyp_File_Graph.thy ===== *)
theory Gyp_File_Graph
  imports Gyp_Graph
begin

text \<open>
  The graph of build files (\<open>VerifyNoGYPFileCircularDependencies\<close> in
  \<open>tools/gyp/pylib/gyp/input.py\<close>) meets the contract of a linked graph, the check of the program
  decides whether build files depend on each other in a cycle, and the cycles that
  \<open>FindCycles\<close> reports are cycles.
\<close>

section \<open>Cycles that are found\<close>

definition real_cycle :: "dep_graph \<Rightarrow> node_id list \<Rightarrow> bool" where
  "real_cycle g c \<longleftrightarrow> 2 \<le> length c \<and> hd c = last c
     \<and> successively (\<lambda>x y. y \<in> set (dependencies (g x))) c"

lemma find_cycles_simps:
  "find_cycles g [] path results = Some results"
  "find_cycles g (node # rest) path results =
     (if node \<in> set path then find_cycles g rest path (results @ [cycle_from node path])
      else Option.bind (find_cycles g (dependents (g node)) (node # path) [])
             (\<lambda>found. find_cycles g rest path (results @ remdups found)))"
  by (subst find_cycles.simps; simp)+

lemma split_at_node: "n \<in> set path \<Longrightarrow> \<exists>ys. path = takeWhile (\<lambda>p. p \<noteq> n) path @ n # ys"
  by (induction path) auto

lemma cycle_from_real:
  assumes "n \<in> set path" "successively (\<lambda>x y. y \<in> set (dependencies (g x))) (n # path)"
  shows "real_cycle g (cycle_from n path)"
proof -
  from split_at_node[OF assms(1)] obtain ys where
    "n # path = (n # takeWhile (\<lambda>p. p \<noteq> n) path @ [n]) @ ys" by auto
  with assms(2) have "successively (\<lambda>x y. y \<in> set (dependencies (g x))) (n # takeWhile (\<lambda>p. p \<noteq> n) path @ [n])"
    by (metis successively_append_iff)
  then show ?thesis by (simp add: real_cycle_def cycle_from_def)
qed

context linked_graph
begin

lemma dependents_named: "n \<in> set (dependents (g p)) \<Longrightarrow> n \<in> Some ` set names"
  using mirror[of p n] closed[of p n] by blast

lemma find_cycles_sound:
  assumes "distinct path" "path \<noteq> []" "set path \<subseteq> insert None (Some ` set names)"
    and "set nodes \<subseteq> set (dependents (g (hd path)))"
    and "successively (\<lambda>x y. y \<in> set (dependencies (g x))) path"
    and "None \<notin> set (butlast path)"
  shows "\<exists>r. find_cycles g nodes path res = Some r
    \<and> (\<forall>c \<in> set r. c \<in> set res \<or> real_cycle g c \<and> set c \<subseteq> Some ` set names)"
  using assms
proof (induction "card (insert None (Some ` set names)) - length path" arbitrary: nodes path res rule: less_induct)
  case less
  note p = less.prems
  have fin: "finite (insert None (Some ` set names))" by simp
  show ?case using less.prems(4)
  proof (induction nodes arbitrary: res)
    case Nil
    then show ?case by (simp add: find_cycles_simps)
  next
    case (Cons n rest)
    have n: "n \<in> set (dependents (g (hd path)))" using Cons.prems by simp
    have nn: "n \<in> Some ` set names" by (rule dependents_named[OF n])
    have succ: "successively (\<lambda>x y. y \<in> set (dependencies (g x))) (n # path)"
      using p(2,5) n mirror[of "hd path" n] by (cases path) simp_all
    show ?case
    proof (cases "n \<in> set path")
      case True
      have c: "real_cycle g (cycle_from n path)" by (rule cycle_from_real[OF True succ])
      have "set (cycle_from n path) \<subseteq> Some ` set names"
      proof -
        define t where "t = takeWhile (\<lambda>p. p \<noteq> n) path"
        from split_at_node[OF True] obtain ys where "path = t @ n # ys" unfolding t_def by blast
        then have "butlast path = t @ butlast (n # ys)" by (simp add: butlast_append)
        then have "set t \<subseteq> set path - {None}"
          using p(6) by (auto dest: in_set_butlastD simp: \<open>path = t @ n # ys\<close>)
        with p(3) have "set t \<subseteq> Some ` set names" by blast
        with nn show ?thesis by (simp add: cycle_from_def t_def)
      qed
      moreover from Cons.IH[of "res @ [cycle_from n path]"] Cons.prems obtain r where
        r: "find_cycles g rest path (res @ [cycle_from n path]) = Some r"
        "\<forall>c \<in> set r. c \<in> set (res @ [cycle_from n path]) \<or> real_cycle g c \<and> set c \<subseteq> Some ` set names"
        by auto
      ultimately have "c \<in> set res \<or> real_cycle g c \<and> set c \<subseteq> Some ` set names" if "c \<in> set r" for c
        using bspec[OF r(2) that] c by (cases "c = cycle_from n path") simp_all
      with r(1) True show ?thesis by (simp add: find_cycles_simps)
    next
      case False
      have d: "distinct (n # path)" "set (n # path) \<subseteq> insert None (Some ` set names)"
        using p(1,3) False nn by auto
      have "length (n # path) \<le> card (insert None (Some ` set names))"
        using card_mono[OF fin d(2)] distinct_card[OF d(1)] by metis
      then have lt: "card (insert None (Some ` set names)) - length (n # path)
          < card (insert None (Some ` set names)) - length path" by simp
      have nb: "None \<notin> set (butlast (n # path))" using p(2,6) nn by auto
      from less.hyps[OF lt d(1) _ d(2) _ succ nb, of "dependents (g n)" "[]"] obtain f where
        f: "find_cycles g (dependents (g n)) (n # path) [] = Some f"
        "\<forall>c \<in> set f. real_cycle g c \<and> set c \<subseteq> Some ` set names" by auto
      with Cons.IH[of "res @ remdups f"] Cons.prems False show ?thesis
        by (fastforce simp: find_cycles_simps)
    qed
  qed
qed

text \<open>C?-internal: from the root the search ends and reports only cycles of named nodes.\<close>

lemma FindCycles_sound:
  "\<exists>cycles. FindCycles g None = Some cycles
    \<and> (\<forall>c \<in> set cycles. real_cycle g c \<and> set c \<subseteq> Some ` set names)"
  using find_cycles_sound[of "[None]" "dependents (g None)" "[]"]
  by (auto simp: FindCycles_def)

end

section \<open>The file graph is linked\<close>

text \<open>Build file \<open>a\<close> depends on another build file \<open>b\<close>: a target of \<open>a\<close> depends on one of \<open>b\<close>.\<close>

definition file_relation :: "target_table \<Rightarrow> (string \<times> string) set" where
  "file_relation targets =
     {(a, b). a \<noteq> b \<and> (\<exists>t spec d. (t, spec) \<in> set targets \<and> BuildFile t = Some a
        \<and> d \<in> set (spec_deps spec) \<and> BuildFile d = Some b)}"

lemma BuildFile_file_of: "file_of t = Inr f \<longleftrightarrow> BuildFile t = Some f"
  by (auto simp: file_of_def split: option.splits)

lemma link_file_step:
  assumes "link_file files f v g = Inr g'" "mirrored g" "f \<in> set files"
  shows "mirrored g' \<and> (\<exists>d. v = PStr d \<and>
    (\<forall>n b. b \<in> set (dependencies (g' n)) \<longleftrightarrow> b \<in> set (dependencies (g n))
        \<or> n = Some f \<and> b \<noteq> Some f \<and> BuildFile d \<noteq> None \<and> b = BuildFile d)
    \<and> (BuildFile d = Some f \<or> BuildFile d \<in> Some ` set files))"
proof -
  from assms(1) obtain d where d: "v = PStr d" by (auto simp: link_file_def)
  show ?thesis
  proof (cases "BuildFile d = Some f")
    case True
    with assms d show ?thesis by (auto simp: link_file_def)
  next
    case False
    with assms(1) d obtain b where b: "BuildFile d = Some b" "b \<in> set files" "b \<noteq> f"
      "g' = (if Some b \<in> set (dependencies (g (Some f))) then g else add_edge (Some f) (Some b) g)"
      by (cases "BuildFile d") (auto simp: link_file_def split: if_splits)
    show ?thesis
    proof (cases "Some b \<in> set (dependencies (g (Some f)))")
      case True
      with b assms(2) d show ?thesis by auto
    next
      case False
      with b assms(2) d show ?thesis by auto
    qed
  qed
qed

lemma link_file_loop:
  assumes "rfold (link_file files f) l g = Inr g'" "mirrored g" "f \<in> set files"
  shows "mirrored g' \<and> (\<exists>ds. l = map PStr ds
    \<and> (\<forall>n b. b \<in> set (dependencies (g' n)) \<longleftrightarrow> b \<in> set (dependencies (g n))
        \<or> n = Some f \<and> b \<noteq> Some f \<and> (\<exists>d \<in> set ds. BuildFile d \<noteq> None \<and> b = BuildFile d))
    \<and> (\<forall>d \<in> set ds. BuildFile d \<in> Some ` set files))"
  using assms(1,2)
proof (induction l arbitrary: g)
  case (Cons v l)
  then obtain u where u: "link_file files f v g = Inr u" "rfold (link_file files f) l u = Inr g'" by auto
  from link_file_step[OF u(1) Cons.prems(2) assms(3)] obtain d where d: "mirrored u" "v = PStr d"
    "\<forall>n b. b \<in> set (dependencies (u n)) \<longleftrightarrow> b \<in> set (dependencies (g n))
        \<or> n = Some f \<and> b \<noteq> Some f \<and> BuildFile d \<noteq> None \<and> b = BuildFile d"
    "BuildFile d = Some f \<or> BuildFile d \<in> Some ` set files" by blast
  from Cons.IH[OF u(2) d(1)] obtain ds where ds: "mirrored g'" "l = map PStr ds"
    "\<forall>n b. b \<in> set (dependencies (g' n)) \<longleftrightarrow> b \<in> set (dependencies (u n))
        \<or> n = Some f \<and> b \<noteq> Some f \<and> (\<exists>d \<in> set ds. BuildFile d \<noteq> None \<and> b = BuildFile d)"
    "\<forall>d \<in> set ds. BuildFile d \<in> Some ` set files" by blast
  have "\<forall>n b. b \<in> set (dependencies (g' n)) \<longleftrightarrow> b \<in> set (dependencies (g n))
        \<or> n = Some f \<and> b \<noteq> Some f \<and> (\<exists>d \<in> set (d # ds). BuildFile d \<noteq> None \<and> b = BuildFile d)"
    using d(3) ds(3) by auto
  moreover have "\<forall>x \<in> set (d # ds). BuildFile x \<in> Some ` set files" using d(4) ds(4) assms(3) by auto
  ultimately show ?case using d(2) ds(1,2) by (intro conjI exI[of _ "d # ds"]) simp_all
qed simp

lemma spec_deps_PList:
  assumes "py_iter (dget_default spec ''dependencies'' (PList [])) = Inr (map PStr ds)"
  shows "spec_deps spec = ds"
proof (cases "dget spec ''dependencies''")
  case None
  with assms show ?thesis by (simp add: spec_deps_def dget_default_def py_iter_def)
next
  case (Some v)
  with assms show ?thesis by (simp add: spec_deps_def dget_default_def)
qed

lemma link_files_of_Inr:
  "link_files_of files (t, spec) g = Inr g' \<longleftrightarrow> (\<exists>f l. BuildFile t = Some f
    \<and> py_iter (dget_default spec ''dependencies'' (PList [])) = Inr l
    \<and> rfold (link_file files f) l g = Inr g')"
  by (auto simp: link_files_of_def BuildFile_file_of)

lemma link_files_loop:
  assumes "rfold (link_files_of files) ts g = Inr g'" "mirrored g"
    and "\<And>t. t \<in> set (dkeys ts) \<Longrightarrow> \<exists>f \<in> set files. BuildFile t = Some f"
  shows "mirrored g'
    \<and> (\<forall>n b. b \<in> set (dependencies (g' n)) \<longleftrightarrow> b \<in> set (dependencies (g n))
        \<or> (\<exists>x y. n = Some x \<and> b = Some y \<and> (x, y) \<in> file_relation ts))
    \<and> (\<forall>(t, spec) \<in> set ts. \<forall>d \<in> set (spec_deps spec). BuildFile d \<in> Some ` set files)"
  using assms
proof (induction ts arbitrary: g)
  case Nil
  then show ?case by (simp add: file_relation_def)
next
  case (Cons ts rest)
  obtain t spec where ts: "ts = (t, spec)" by fastforce
  from Cons.prems(3)[of t] obtain f where f: "f \<in> set files" "BuildFile t = Some f" by (auto simp: ts)
  from Cons.prems(1) f(2) obtain u l where
    l: "py_iter (dget_default spec ''dependencies'' (PList [])) = Inr l"
    and u: "rfold (link_file files f) l g = Inr u" "rfold (link_files_of files) rest u = Inr g'"
    by (auto simp: ts link_files_of_Inr)
  from link_file_loop[OF u(1) Cons.prems(2) f(1)] obtain ds where ds: "mirrored u" "l = map PStr ds"
    "\<forall>n b. b \<in> set (dependencies (u n)) \<longleftrightarrow> b \<in> set (dependencies (g n))
        \<or> n = Some f \<and> b \<noteq> Some f \<and> (\<exists>d \<in> set ds. BuildFile d \<noteq> None \<and> b = BuildFile d)"
    "\<forall>d \<in> set ds. BuildFile d \<in> Some ` set files" by blast
  have sd: "spec_deps spec = ds" using spec_deps_PList l ds(2) by simp
  from Cons.IH[OF u(2) ds(1)] Cons.prems(3) have ih: "mirrored g'"
    "\<forall>n b. b \<in> set (dependencies (g' n)) \<longleftrightarrow> b \<in> set (dependencies (u n))
        \<or> (\<exists>x y. n = Some x \<and> b = Some y \<and> (x, y) \<in> file_relation rest)"
    "\<forall>(t, spec) \<in> set rest. \<forall>d \<in> set (spec_deps spec). BuildFile d \<in> Some ` set files" by auto
  have rel: "(x, y) \<in> file_relation (ts # rest) \<longleftrightarrow> (x, y) \<in> file_relation rest
      \<or> x = f \<and> x \<noteq> y \<and> (\<exists>d \<in> set ds. BuildFile d = Some y)" for x y
  proof
    assume "(x, y) \<in> file_relation (ts # rest)"
    then show "(x, y) \<in> file_relation rest \<or> x = f \<and> x \<noteq> y \<and> (\<exists>d \<in> set ds. BuildFile d = Some y)"
      using f(2) by (auto simp: file_relation_def ts sd)
  next
    assume "(x, y) \<in> file_relation rest \<or> x = f \<and> x \<noteq> y \<and> (\<exists>d \<in> set ds. BuildFile d = Some y)"
    then show "(x, y) \<in> file_relation (ts # rest)"
    proof
      assume "(x, y) \<in> file_relation rest"
      then show ?thesis by (auto simp: file_relation_def)
    next
      assume "x = f \<and> x \<noteq> y \<and> (\<exists>d \<in> set ds. BuildFile d = Some y)"
      then have "x \<noteq> y \<and> (t, spec) \<in> set (ts # rest) \<and> BuildFile t = Some x
        \<and> (\<exists>d. d \<in> set (spec_deps spec) \<and> BuildFile d = Some y)"
        using f(2) by (auto simp: ts sd)
      then show ?thesis unfolding file_relation_def by blast
    qed
  qed
  have "b \<in> set (dependencies (g' n)) \<longleftrightarrow> b \<in> set (dependencies (g n))
        \<or> (\<exists>x y. n = Some x \<and> b = Some y \<and> (x, y) \<in> file_relation (ts # rest))" for n b
    using ih(2)[rule_format, of b n] ds(3)[rule_format, of b n] unfolding rel by fastforce
  with ih(1,3) ds(4) show ?case by (auto simp: ts sd)
qed

lemma hang_on_root_sel:
  "mirrored g \<Longrightarrow> mirrored (hang_on_root f g)"
  "dependencies (hang_on_root f g n) =
     (if n = Some f \<and> dependencies (g n) = [] then [None] else dependencies (g n))"
  by (auto simp: hang_on_root_def)

lemma hang_loop:
  assumes "mirrored g" "distinct fs"
  shows "mirrored (fold hang_on_root fs g) \<and> (\<forall>n. dependencies (fold hang_on_root fs g n) =
     (if n \<in> Some ` set fs \<and> dependencies (g n) = [] then [None] else dependencies (g n)))"
  using assms
proof (induction fs arbitrary: g)
  case (Cons f fs)
  from Cons.IH[OF hang_on_root_sel(1)[OF Cons.prems(1)], of f] Cons.prems(2)
  show ?case by (auto simp: hang_on_root_sel)
qed simp

lemma link_files_spec:
  assumes "link_files targets = Inr (files, g)"
  shows "mirrored g \<and> distinct files \<and> set files = {f. \<exists>t \<in> set (dkeys targets). BuildFile t = Some f}
    \<and> (\<forall>a b. b \<in> set (dependencies (g a)) \<longleftrightarrow>
         (\<exists>x y. a = Some x \<and> b = Some y \<and> (x, y) \<in> file_relation targets)
         \<or> (\<exists>x \<in> set files. a = Some x \<and> b = None \<and> (\<forall>y. (x, y) \<notin> file_relation targets)))
    \<and> (\<forall>x y. (x, y) \<in> file_relation targets \<longrightarrow> x \<in> set files \<and> y \<in> set files)"
proof -
  from assms obtain g1 fs where a: "rmap (\<lambda>ts. file_of (fst ts)) targets = Inr fs"
    "files = remdups fs" "rfold (link_files_of files) targets new_graph = Inr g1"
    "g = fold hang_on_root files g1"
    by (auto simp: link_files_def files_of_table_def)
  have bf: "list_all2 (\<lambda>ts f. BuildFile (fst ts) = Some f) targets fs"
    using a(1) by (simp add: rmap_list_all2 BuildFile_file_of)
  have files: "set files = {f. \<exists>t \<in> set (dkeys targets). BuildFile t = Some f}"
    using bf unfolding a(2) set_remdups by (induction rule: list_all2_induct) auto
  have own: "\<exists>f \<in> set files. BuildFile t = Some f" if "t \<in> set (dkeys targets)" for t
  proof -
    from that obtain spec where "(t, spec) \<in> set targets" by auto
    with bf obtain f where "BuildFile t = Some f"
      by (fastforce simp: list_all2_conv_all_nth in_set_conv_nth)
    with that show ?thesis unfolding files by blast
  qed
  note l = link_files_loop[OF a(3) mirrored_new own]
  have n: "dependencies (new_graph n) = []" for n by (simp add: new_graph_def new_node_def)
  have l2: "b \<in> set (dependencies (g1 a)) \<longleftrightarrow>
         (\<exists>x y. a = Some x \<and> b = Some y \<and> (x, y) \<in> file_relation targets)" for a b
    using l by (simp add: n)
  have d: "distinct files" by (simp add: a(2))
  note h = hang_loop[OF l[THEN conjunct1] d]
  have rel: "x \<in> set files \<and> y \<in> set files" if xy: "(x, y) \<in> file_relation targets" for x y
  proof -
    from xy obtain t spec dd where s: "(t, spec) \<in> set targets" "BuildFile t = Some x"
      "dd \<in> set (spec_deps spec)" "BuildFile dd = Some y" unfolding file_relation_def by blast
    have "t \<in> set (dkeys targets)" using s(1) by force
    then have "x \<in> set files" using s(2) unfolding files by blast
    moreover have "BuildFile dd \<in> Some ` set files" using l s(1,3) by blast
    ultimately show ?thesis using s(4) by auto
  qed
  have empty: "dependencies (g1 (Some x)) = [] \<longleftrightarrow> (\<forall>y. (x, y) \<notin> file_relation targets)" for x
  proof -
    have "dependencies (g1 (Some x)) = [] \<longleftrightarrow> (\<forall>b. b \<notin> set (dependencies (g1 (Some x))))"
      by (cases "dependencies (g1 (Some x))") auto
    then show ?thesis by (simp add: l2)
  qed
  have "b \<in> set (dependencies (g a)) \<longleftrightarrow>
         (\<exists>x y. a = Some x \<and> b = Some y \<and> (x, y) \<in> file_relation targets)
         \<or> (\<exists>x \<in> set files. a = Some x \<and> b = None \<and> (\<forall>y. (x, y) \<notin> file_relation targets))" for a b
    using h l2[of b a] empty unfolding a(4) by (cases a) (auto simp: l2)
  with h d files rel a(4) show ?thesis by blast
qed

definition file_names :: "target_table \<Rightarrow> string list" where
  "file_names targets = (case link_files targets of Inr (files, g) \<Rightarrow> files | Inl e \<Rightarrow> [])"

definition file_graph :: "target_table \<Rightarrow> dep_graph" where
  "file_graph targets = (case link_files targets of Inr (files, g) \<Rightarrow> g | Inl e \<Rightarrow> new_graph)"

lemma linked_graph_files: "linked_graph (file_graph targets) (file_names targets)"
proof (cases "link_files targets")
  case (Inl e)
  then show ?thesis using linked_graph_new by (simp add: file_graph_def file_names_def)
next
  case (Inr fg)
  obtain files g where fg: "fg = (files, g)" by fastforce
  note s = link_files_spec[OF Inr[unfolded fg]]
  have e: "b \<in> set (dependencies (g a)) \<longleftrightarrow>
         (\<exists>x y. a = Some x \<and> b = Some y \<and> (x, y) \<in> file_relation targets)
         \<or> (\<exists>x \<in> set files. a = Some x \<and> b = None \<and> (\<forall>y. (x, y) \<notin> file_relation targets))" for a b
    using s by blast
  have r: "(x, y) \<in> file_relation targets \<Longrightarrow> x \<in> set files \<and> y \<in> set files" for x y
    using s by blast
  have "linked_graph g files"
  proof
    show "b \<in> set (dependencies (g a)) \<longleftrightarrow> a \<in> set (dependents (g b))" for a b
      using s[THEN conjunct1] unfolding mirrored_def by blast
  next
    fix a b assume "b \<in> set (dependencies (g a))"
    from iffD1[OF e this] show "a \<in> Some ` set files \<and> (b = None \<or> b \<in> Some ` set files)"
    proof
      assume "\<exists>x y. a = Some x \<and> b = Some y \<and> (x, y) \<in> file_relation targets"
      then show ?thesis using r by blast
    next
      assume "\<exists>x \<in> set files. a = Some x \<and> b = None \<and> (\<forall>y. (x, y) \<notin> file_relation targets)"
      then show ?thesis by blast
    qed
  next
    fix n assume n: "n \<in> set files"
    show "dependencies (g (Some n)) \<noteq> []"
    proof (cases "\<exists>y. (n, y) \<in> file_relation targets")
      case True
      then obtain y where "Some y \<in> set (dependencies (g (Some n)))" unfolding e by auto
      then show ?thesis by auto
    next
      case False
      then have "None \<in> set (dependencies (g (Some n)))" using n unfolding e by auto
      then show ?thesis by auto
    qed
  next
    fix a assume "None \<in> set (dependencies (g a))"
    then show "set (dependencies (g a)) = {None}" by (auto simp: e)
  qed
  then show ?thesis using Inr fg by (simp add: file_graph_def file_names_def)
qed

interpretation fgraph: linked_graph "file_graph targets" "file_names targets" for targets
  by (rule linked_graph_files)

section \<open>The check\<close>

lemma common_prefix_prefix:
  "prefix p (common_prefix x z) \<longleftrightarrow> prefix p x \<and> prefix p z"
proof (induction x z arbitrary: p rule: common_prefix.induct)
  case (1 x xs y ys)
  then show ?case by (cases p) auto
qed auto

lemma append_between:
  fixes y :: string
  shows "p @ u \<le> y \<Longrightarrow> y \<le> p @ v \<Longrightarrow> \<exists>w. y = p @ w"
proof (induction p arbitrary: y)
  case (Cons c p)
  show ?case
  proof (cases y)
    case Nil
    with Cons.prems(1) show ?thesis by simp
  next
    case (Cons d y')
    from Cons.prems Cons have "c < d \<or> c = d \<and> p @ u \<le> y'" "d < c \<or> d = c \<and> y' \<le> p @ v"
      by simp_all
    then have "d = c" "p @ u \<le> y'" "y' \<le> p @ v" by (auto dest: order.asym)
    with Cons.IH[of y'] Cons show ?thesis by auto
  qed
qed simp

lemma prefix_between:
  fixes y :: string
  assumes "prefix p x" "prefix p z" "x \<le> y" "y \<le> z"
  shows "prefix p y"
  using assms append_between[of p _ y] by (auto simp: prefix_def)

lemma commonprefix_prefix:
  assumes "f \<in> set files"
  shows "prefix (commonprefix files) f"
proof -
  let ?p = "common_prefix (Min (set files)) (Max (set files))"
  have "prefix ?p (Min (set files))" "prefix ?p (Max (set files))"
    using iffD1[OF common_prefix_prefix[of ?p] prefix_order.refl] by simp_all
  moreover have "Min (set files) \<le> f" "f \<le> Max (set files)" using assms by simp_all
  ultimately have "prefix ?p f" by (rule prefix_between)
  moreover have "files \<noteq> []" using assms by auto
  ultimately show ?thesis by (simp add: commonprefix_def)
qed

lemma cycle_line_total:
  assumes "set c \<subseteq> Some ` set files"
  shows "\<exists>s. cycle_line (commonprefix files) c = Inr s"
proof -
  have "rmap (simplified_path (commonprefix files)) c
      = Inr (map (\<lambda>n. drop (length (commonprefix files)) (the n)) c)"
    by (rule rmap_total) (use assms commonprefix_prefix in \<open>auto simp: simplified_path_def\<close>)
  then show ?thesis by (simp add: cycle_line_def)
qed

lemma FlattenToList_files:
  assumes "link_files targets = Inr (files, g)"
  shows "\<exists>flat. FlattenToList pick g None = Some flat
    \<and> (length flat = length files \<longleftrightarrow> acyclic (file_relation targets))"
proof -
  have eqs: "file_graph targets = g" "file_names targets = files"
    using assms by (simp_all add: file_graph_def file_names_def)
  from fgraph.FlattenToList_returns[where targets = targets and pick = pick] obtain flat where
    f: "FlattenToList pick g None = Some flat" "flat_inv g files [] flat" unfolding eqs by blast
  note s = link_files_spec[OF assms]
  have rel: "depends_on g = file_relation targets" using s by (auto simp: depends_on_def)
  have d: "distinct files" using s by blast
  have df: "distinct flat" "set flat \<subseteq> Some ` set files" using f(2) by (auto simp: flat_inv_def)
  have "length flat = length files \<longleftrightarrow> set flat = Some ` set files"
  proof -
    have "card (Some ` set files) = length files" using d by (simp add: card_image distinct_card)
    then show ?thesis using distinct_card[OF df(1)] df(2) by (metis card_subset_eq finite_imageI finite_set)
  qed
  also have "\<dots> \<longleftrightarrow> acyclic (file_relation targets)"
    using fgraph.acyclic_complete[where targets = targets and flat = flat, unfolded eqs, OF f(2)]
      fgraph.complete_acyclic[where targets = targets and flat = flat, unfolded eqs, OF f(2)]
    unfolding rel by blast
  finally show ?thesis using f(1) by blast
qed

text \<open>C26.  The check of the build files returns, accepts exactly the tables whose build files do
  not depend on each other in a cycle, and otherwise raises \<open>CircularException\<close> (no assertion on
  the way to its message can fail).\<close>

theorem VerifyNoGYPFileCircularDependencies_decides:
  assumes "link_files targets = Inr (files, g)"
  shows "(acyclic (file_relation targets)
        \<longleftrightarrow> VerifyNoGYPFileCircularDependencies pick targets = Some (Inr ()))
    \<and> (\<not> acyclic (file_relation targets)
        \<longleftrightarrow> (\<exists>m. VerifyNoGYPFileCircularDependencies pick targets = Some (Inl (CircularException m))))"
proof -
  have eqs: "file_graph targets = g" "file_names targets = files"
    using assms by (simp_all add: file_graph_def file_names_def)
  from FlattenToList_files[OF assms, of pick] obtain flat where
    flat: "FlattenToList pick g None = Some flat"
    "length flat = length files \<longleftrightarrow> acyclic (file_relation targets)" by blast
  from fgraph.FindCycles_sound[where targets = targets, unfolded eqs] obtain cycles where
    c: "FindCycles g None = Some cycles" "\<forall>c \<in> set cycles. set c \<subseteq> Some ` set files" by blast
  have "rmap (cycle_line (commonprefix files)) cycles
      = Inr (map (\<lambda>c. projr (cycle_line (commonprefix files) c)) cycles)"
    by (rule rmap_total) (use c(2) cycle_line_total in fastforce)
  with flat c(1) assms show ?thesis
    by (auto simp: VerifyNoGYPFileCircularDependencies_def)
qed

theorem VerifyNoGYPFileCircularDependencies_decides_witness:
  "\<not> acyclic (file_relation [(''a:x'', [(''dependencies'', PList [PStr ''b:y''])]),
     (''b:y'', [(''dependencies'', PList [PStr ''a:x''])])])"
proof -
  let ?t = "[(''a:x'', [(''dependencies'', PList [PStr ''b:y''])]),
     (''b:y'', [(''dependencies'', PList [PStr ''a:x''])])]"
  have "map_sum id fst (link_files ?t) = Inr [''a'', ''b'']" by code_simp
  then obtain g where g: "link_files ?t = Inr ([''a'', ''b''], g)"
    by (cases "link_files ?t") auto
  have "VerifyNoGYPFileCircularDependencies (\<lambda>flat zs. 0) ?t = Some (Inl (CircularException
      (''Cycles in .gyp file dependency graph detected:'' @ [CHR 0x0A])))" by code_simp
  with VerifyNoGYPFileCircularDependencies_decides[OF g, of "\<lambda>flat zs. 0"] show ?thesis by blast
qed

text \<open>Every cycle that the search from the root reports is one: each of its files depends on
  the next, and it ends where it starts.\<close>

theorem FindCycles_reports_cycles:
  assumes "link_files targets = Inr (files, g)"
  shows "\<exists>cycles. FindCycles g None = Some cycles
    \<and> (\<forall>c \<in> set cycles. \<exists>fs. c = map Some fs \<and> 2 \<le> length fs \<and> hd fs = last fs
         \<and> successively (\<lambda>a b. (a, b) \<in> file_relation targets) fs)"
proof -
  have eqs: "file_graph targets = g" "file_names targets = files"
    using assms by (simp_all add: file_graph_def file_names_def)
  from fgraph.FindCycles_sound[where targets = targets, unfolded eqs] obtain cycles where
    c: "FindCycles g None = Some cycles"
    "\<forall>c \<in> set cycles. real_cycle g c \<and> set c \<subseteq> Some ` set files" by blast
  note s = link_files_spec[OF assms]
  have dep: "(a, b) \<in> file_relation targets" if "Some b \<in> set (dependencies (g (Some a)))" for a b
    using s that by auto
  have "\<exists>fs. c = map Some fs \<and> 2 \<le> length fs \<and> hd fs = last fs
         \<and> successively (\<lambda>a b. (a, b) \<in> file_relation targets) fs" if cc: "c \<in> set cycles" for c
  proof -
    from c(2) cc have r: "real_cycle g c" "set c \<subseteq> Some ` set files" by auto
    define fs where "fs = map the c"
    have m: "c = map Some fs" using r(2) unfolding fs_def by (induction c) auto
    then have l: "2 \<le> length fs" "hd fs = last fs"
      using r(1) by (cases fs; auto simp: real_cycle_def last_map hd_map)+
    have "successively (\<lambda>a b. Some b \<in> set (dependencies (g (Some a)))) fs"
      using r(1) by (simp add: real_cycle_def m successively_map)
    then have "successively (\<lambda>a b. (a, b) \<in> file_relation targets) fs"
      by (rule successively_mono) (rule dep)
    with m l show ?thesis by blast
  qed
  with c(1) show ?thesis by blast
qed

theorem FindCycles_reports_cycles_witness:
  "\<exists>cycles. map_option (\<lambda>fg. FindCycles (snd fg) None) (case link_files
     [(''a:x'', [(''dependencies'', PList [PStr ''b:y''])]), (''b:y'', [(''dependencies'', PList [PStr ''a:x''])]),
      (''c:z'', [])] of Inr fg \<Rightarrow> Some fg | Inl e \<Rightarrow> None) = Some (Some cycles)"
proof -
  let ?t = "[(''a:x'', [(''dependencies'', PList [PStr ''b:y''])]),
     (''b:y'', [(''dependencies'', PList [PStr ''a:x''])]), (''c:z'', [])]"
  have "map_sum id fst (link_files ?t) = Inr [''a'', ''b'', ''c'']" by code_simp
  then obtain g where g: "link_files ?t = Inr ([''a'', ''b'', ''c''], g)"
    by (cases "link_files ?t") auto
  from FindCycles_reports_cycles[OF g] g show ?thesis by auto
qed

end
