(* ===== verification/Gyp_Link.thy ===== *)
theory Gyp_Link
  imports Gyp_Graph
begin

text \<open>
  What follows from the dependency graph (\<open>tools/gyp/pylib/gyp/input.py\<close>): deep and link
  dependencies of a target, \<open>DoDependentSettings\<close> and \<open>AdjustStaticLibraryDependencies\<close>.  The
  recursions of the program walk a graph that could have cycles, so they are partial functions
  here; on a linked graph they return.
\<close>

section \<open>Depth-first walks\<close>

text \<open>The contract that the recursive methods share: nodes without a name are skipped, a named node
  that is not accepted or already listed is skipped, and otherwise the node is listed and its
  successors are walked before its siblings.\<close>

definition walk_step :: "('n \<Rightarrow> 'n option list) \<Rightarrow> ('n \<Rightarrow> bool) \<Rightarrow> ('n \<times> 'n) set" where
  "walk_step succs accept = {(a, b). Some b \<in> set (succs a) \<and> accept b}"

text \<open>What a walk over \<open>ms\<close> that found \<open>acc\<close> listed adds: \<open>new\<close> holds the accepted nodes of \<open>ms\<close>
  and the accepted successors of its own elements as far as they were not listed before, and
  nothing that cannot be reached.\<close>

definition walked :: "('n \<Rightarrow> 'n option list) \<Rightarrow> ('n \<Rightarrow> bool) \<Rightarrow> 'n set \<Rightarrow> 'n option list
    \<Rightarrow> 'n list \<Rightarrow> 'n list \<Rightarrow> bool" where
  "walked succs accept space ms acc new \<longleftrightarrow>
     distinct (acc @ new) \<and> set (acc @ new) \<subseteq> space
     \<and> (\<forall>n. Some n \<in> set ms \<and> accept n \<longrightarrow> n \<in> set (acc @ new))
     \<and> (\<forall>a \<in> set new. \<forall>b. (a, b) \<in> walk_step succs accept \<longrightarrow> b \<in> set (acc @ new))
     \<and> (\<forall>a \<in> set new. \<exists>n. Some n \<in> set ms \<and> accept n \<and> (n, a) \<in> (walk_step succs accept)\<^sup>*)"

lemma walked_visit:
  assumes m: "m = Some n" "accept n"
    and w1: "walked succs accept space (succs n) (acc @ [n]) new1"
    and w2: "walked succs accept space ms ((acc @ [n]) @ new1) new2"
  shows "walked succs accept space (m # ms) acc (n # new1 @ new2)"
proof -
  have reach1: "\<exists>x. Some x \<in> set (m # ms) \<and> accept x \<and> (x, a) \<in> (walk_step succs accept)\<^sup>*"
    if "a \<in> set new1" for a
  proof -
    from w1 that obtain x where "Some x \<in> set (succs n)" "accept x" "(x, a) \<in> (walk_step succs accept)\<^sup>*"
      unfolding walked_def by blast
    then have "(n, a) \<in> (walk_step succs accept)\<^sup>*"
      by (auto simp: walk_step_def intro: converse_rtrancl_into_rtrancl)
    with m show ?thesis by auto
  qed
  have reach2: "\<exists>x. Some x \<in> set (m # ms) \<and> accept x \<and> (x, a) \<in> (walk_step succs accept)\<^sup>*"
    if "a \<in> set new2" for a using w2 that unfolding walked_def by auto
  have succ: "b \<in> set ((acc @ [n]) @ new1)"
    if "a \<in> set (n # new1)" "(a, b) \<in> walk_step succs accept" for a b
    using w1 that unfolding walked_def walk_step_def by auto
  have all: "((acc @ [n]) @ new1) @ new2 = acc @ n # new1 @ new2" by simp
  have w2': "distinct (acc @ n # new1 @ new2)" "set (acc @ n # new1 @ new2) \<subseteq> space"
    "\<And>x. Some x \<in> set ms \<Longrightarrow> accept x \<Longrightarrow> x \<in> set (acc @ n # new1 @ new2)"
    "\<And>a b. a \<in> set new2 \<Longrightarrow> (a, b) \<in> walk_step succs accept \<Longrightarrow> b \<in> set (acc @ n # new1 @ new2)"
    using w2 unfolding walked_def all by blast+
  have "x \<in> set (acc @ n # new1 @ new2)" if "Some x \<in> set (m # ms) \<and> accept x" for x
    using w2'(3)[of x] that m by auto
  moreover have "b \<in> set (acc @ n # new1 @ new2)"
    if "a \<in> set (n # new1 @ new2)" "(a, b) \<in> walk_step succs accept" for a b
    using succ[of a b] w2'(4)[of a b] that by auto
  moreover have "\<exists>x. Some x \<in> set (m # ms) \<and> accept x \<and> (x, a) \<in> (walk_step succs accept)\<^sup>*"
    if "a \<in> set (n # new1 @ new2)" for a
    using reach1[of a] reach2[of a] that m by auto
  ultimately show ?thesis using w2'(1,2) unfolding walked_def by blast
qed

lemma walked_skip:
  assumes "walked succs accept space ms acc new" "\<And>n. m = Some n \<Longrightarrow> accept n \<Longrightarrow> n \<in> set acc"
  shows "walked succs accept space (m # ms) acc new"
  using assms unfolding walked_def by fastforce

locale dfs_walk =
  fixes run :: "'n option list \<Rightarrow> 'n list \<Rightarrow> 'n list option"
    and succs :: "'n \<Rightarrow> 'n option list"
    and accept :: "'n \<Rightarrow> bool"
    and space :: "'n set"
  assumes run_Nil: "run [] acc = Some acc"
    and run_None: "run (None # ms) acc = run ms acc"
    and run_skip: "n \<in> space \<Longrightarrow> \<not> accept n \<or> n \<in> set acc \<Longrightarrow> run (Some n # ms) acc = run ms acc"
    and run_visit: "n \<in> space \<Longrightarrow> accept n \<Longrightarrow> n \<notin> set acc \<Longrightarrow>
      run (Some n # ms) acc = Option.bind (run (succs n) (acc @ [n])) (run ms)"
    and finite_space: "finite space"
    and closed_space: "n \<in> space \<Longrightarrow> Some m \<in> set (succs n) \<Longrightarrow> m \<in> space"
begin

text \<open>A walk lists what it accepts; what it adds is reachable and has its successors listed.\<close>

lemma run_bounded:
  assumes "card space - length acc \<le> k"
    and "{n. Some n \<in> set ms} \<subseteq> space" "set acc \<subseteq> space" "distinct acc"
  shows "\<exists>new. run ms acc = Some (acc @ new) \<and> walked succs accept space ms acc new"
  using assms
proof (induction k arbitrary: ms acc rule: less_induct)
  case (less k)
  show ?case using less.prems
  proof (induction ms arbitrary: acc)
    case Nil
    then show ?case by (simp add: run_Nil walked_def)
  next
    case (Cons m ms)
    show ?case
    proof (cases "\<exists>n. m = Some n \<and> accept n \<and> n \<notin> set acc")
      case False
      then have "run (m # ms) acc = run ms acc"
        using run_None run_skip Cons.prems(2) by (cases m) auto
      moreover have "{n. Some n \<in> set ms} \<subseteq> space" using Cons.prems(2) by auto
      moreover note Cons.IH[OF Cons.prems(1) this Cons.prems(3,4)]
      ultimately show ?thesis using walked_skip False by metis
    next
      case True
      then obtain n where n: "m = Some n" "accept n" "n \<notin> set acc" by blast
      have ns: "n \<in> space" using Cons.prems(2) n(1) by auto
      have d1: "distinct (acc @ [n])" "set (acc @ [n]) \<subseteq> space"
        using Cons.prems(3,4) n(3) ns by auto
      have "length (acc @ [n]) \<le> card space"
        using card_mono[OF finite_space d1(2)] distinct_card[OF d1(1)] by simp
      then have k: "card space - length (acc @ [n]) \<le> k - 1" "k - 1 < k"
        using Cons.prems(1) by simp_all
      have sub: "{b. Some b \<in> set (succs n)} \<subseteq> space" using closed_space[OF ns] by blast
      from less.IH[OF k(2,1) sub d1(2,1)] obtain new1 where
        w1: "run (succs n) (acc @ [n]) = Some ((acc @ [n]) @ new1)"
          "walked succs accept space (succs n) (acc @ [n]) new1" by blast
      let ?a = "(acc @ [n]) @ new1"
      have p2: "card space - length ?a \<le> k" "{b. Some b \<in> set ms} \<subseteq> space"
        "set ?a \<subseteq> space" "distinct ?a"
        using Cons.prems(1,2) w1(2) by (auto simp: walked_def)
      from Cons.IH[OF p2] obtain new2 where
        w2: "run ms ?a = Some (?a @ new2)" "walked succs accept space ms ?a new2" by blast
      have "run (m # ms) acc = Some (acc @ (n # new1 @ new2))"
        using run_visit[OF ns n(2,3), of ms] n(1) w1(1) w2(1) by simp
      moreover have "walked succs accept space (m # ms) acc (n # new1 @ new2)"
        by (rule walked_visit[OF n(1,2) w1(2) w2(2)])
      ultimately show ?thesis by blast
    qed
  qed
qed

lemma run_walks:
  assumes "{n. Some n \<in> set ms} \<subseteq> space" "set acc \<subseteq> space" "distinct acc"
  shows "\<exists>new. run ms acc = Some (acc @ new) \<and> walked succs accept space ms acc new"
  by (rule run_bounded[OF order_refl assms])

text \<open>So a walk from an empty list lists exactly what is reachable.\<close>

lemma run_reachable:
  assumes "{n. Some n \<in> set ms} \<subseteq> space"
  shows "\<exists>r. run ms [] = Some r \<and> distinct r
    \<and> set r = (walk_step succs accept)\<^sup>* `` {n. Some n \<in> set ms \<and> accept n}"
proof -
  from run_walks[OF assms, of "[]"] obtain r where
    r: "run ms [] = Some r" "walked succs accept space ms [] r" by auto
  have "b \<in> set r" if "(a, b) \<in> (walk_step succs accept)\<^sup>*" "a \<in> set r" for a b
    using that
  proof (induction rule: rtrancl_induct)
    case (step y z)
    have "\<forall>a \<in> set r. \<forall>b. (a, b) \<in> walk_step succs accept \<longrightarrow> b \<in> set ([] @ r)"
      using r(2) unfolding walked_def by (elim conjE)
    with step show ?case by simp
  qed
  note closed = this
  have w: "\<forall>n. Some n \<in> set ms \<and> accept n \<longrightarrow> n \<in> set r"
    "\<forall>a \<in> set r. \<exists>n. Some n \<in> set ms \<and> accept n \<and> (n, a) \<in> (walk_step succs accept)\<^sup>*"
    using r(2) unfolding walked_def append_Nil by - (elim conjE, assumption)+
  have "set r = (walk_step succs accept)\<^sup>* `` {n. Some n \<in> set ms \<and> accept n}"
    using w closed by (intro set_eqI iffI) blast+
  moreover have "distinct r" using r(2) by (simp add: walked_def)
  ultimately show ?thesis using r(1) by blast
qed

end

section \<open>Deep dependencies\<close>

lemma target_names_closed:
  "Some b \<in> set (dependencies (target_graph targets a)) \<Longrightarrow> b \<in> set (target_names targets)"
  using tgraph.closed[where targets = targets and a = a and b = "Some b"] by auto

interpretation deep: dfs_walk "deep_loop (target_graph targets)"
  "\<lambda>n. dependencies (target_graph targets (Some n))" "\<lambda>_. True" "set (target_names targets)"
  for targets
  by unfold_locales (auto simp: deep_loop_simps target_names_closed)

lemma deep_spec:
  assumes "link_targets targets = Inr g" "wf_dict targets"
  shows "\<exists>r. DeepDependencies g (Some target) = Some r \<and> distinct r
    \<and> set r = (table_relation targets)\<^sup>+ `` {target}"
proof -
  note eqs = target_graph_eqs[OF assms]
  let ?ms = "dependencies (g (Some target))"
  have sub: "{n. Some n \<in> set ?ms} \<subseteq> set (target_names targets)"
    using target_names_closed[of _ targets "Some target"] by (auto simp: eqs)
  have rel: "walk_step (\<lambda>n. dependencies (g (Some n))) (\<lambda>_. True) = table_relation targets"
    using target_graph_relation[OF assms] by (auto simp: walk_step_def depends_on_def)
  have first: "{n. Some n \<in> set ?ms \<and> True} = table_relation targets `` {target}"
    using target_graph_relation[OF assms] by (auto simp: depends_on_def)
  from deep.run_reachable[where targets = targets and ms = ?ms, unfolded eqs rel first] sub
  obtain r where r: "deep_loop g ?ms [] = Some r" "distinct r"
    "set r = (table_relation targets)\<^sup>* `` (table_relation targets `` {target})"
    unfolding eqs by blast
  have "set r = (table_relation targets)\<^sup>+ `` {target}"
    unfolding r(3) trancl_unfold_left by auto
  with r show ?thesis by (auto simp: DeepDependencies_def)
qed

text \<open>\<open>DeepDependencies\<close> returns, even when the dependencies have a cycle, and lists exactly
  the targets that the target depends on directly or through others, each once.\<close>

theorem DeepDependencies_reachable:
  assumes "link_targets targets = Inr g" "wf_dict targets"
  shows "\<exists>r. DeepDependencies g (Some target) = Some r \<and> distinct r
    \<and> set r = (table_relation targets)\<^sup>+ `` {target}"
  by (rule deep_spec[OF assms])

theorem DeepDependencies_reachable_witness:
  "\<exists>r. (case link_targets [(''a:x'', [(''dependencies'', PList [PStr ''a:x''])])] of
      Inr g \<Rightarrow> DeepDependencies g (Some ''a:x'') | Inl e \<Rightarrow> None) = Some r"
proof -
  let ?t = "[(''a:x'', [(''dependencies'', PList [PStr ''a:x''])])]"
  obtain g where l: "link_targets ?t = Inr g"
  proof -
    have "map_sum id (\<lambda>_. ()) (link_targets ?t) = Inr ()" by code_simp
    then show thesis using that by (auto simp: map_sum_def split: sum.splits)
  qed
  have "wf_dict ?t" by (simp add: wf_dict_def)
  from DeepDependencies_reachable[OF l this, of "''a:x''"] l show ?thesis by auto
qed

section \<open>Link dependencies\<close>

text \<open>What \<open>_LinkDependenciesInternal\<close> does with one node before it recurses: the new list and
  whether the node's own dependencies follow.\<close>

definition link_step :: "target_table \<Rightarrow> bool \<Rightarrow> bool \<Rightarrow> string \<Rightarrow> string list \<Rightarrow> (string list \<times> bool) res" where
  "link_step targets include_shared_libraries initial ref deps =
     rbind (dlookup targets ref) (\<lambda>td.
       if \<not> dhas td ''target_name'' then Inl (GypError ''Missing target_name field in target.'')
       else
         (case dget td ''type'' of
            None \<Rightarrow> Inl (GypError (''Missing type field in target '' @ py_str (the (dget td ''target_name''))))
          | Some target_type \<Rightarrow>
              let is_linkable = target_type \<in> PStr ` set linkable_types;
                  added = (if ref \<in> set deps then deps else deps @ [ref])
              in if initial \<and> \<not> is_linkable then Inr (deps, False)
                 else if target_type = PStr ''none''
                         \<and> \<not> truthy (dget_default td ''dependencies_traverse'' (PInt 1))
                 then Inr (added, False)
                 else if \<not> initial \<and> target_type \<in> {PStr ''executable'', PStr ''loadable_module''}
                 then Inr (deps, False)
                 else if \<not> initial \<and> target_type = PStr ''shared_library'' \<and> \<not> include_shared_libraries
                 then Inr (deps, False)
                 else if ref \<in> set deps then Inr (deps, False)
                 else Inr (deps @ [ref], initial \<or> \<not> is_linkable)))"

partial_function (option) link_loop :: "target_table \<Rightarrow> dep_graph \<Rightarrow> bool \<Rightarrow> bool \<Rightarrow> node_id list
    \<Rightarrow> string list \<Rightarrow> string list comp" where
  "link_loop targets g include_shared_libraries initial nodes deps =
     (case nodes of
        [] \<Rightarrow> Some (Inr deps)
      | node # rest \<Rightarrow>
          (case node of
             None \<Rightarrow> link_loop targets g include_shared_libraries initial rest deps
           | Some ref \<Rightarrow>
               obind (Some (link_step targets include_shared_libraries initial ref deps)) (\<lambda>r.
                 if snd r
                 then obind (link_loop targets g include_shared_libraries False
                               (dependencies (g node)) (fst r))
                        (\<lambda>deps'. link_loop targets g include_shared_libraries initial rest deps')
                 else link_loop targets g include_shared_libraries initial rest (fst r))))"

declare link_loop.simps [code]

definition LinkDependenciesInternal :: "target_table \<Rightarrow> dep_graph \<Rightarrow> bool \<Rightarrow> string \<Rightarrow> string list comp" where
  "LinkDependenciesInternal targets g include_shared_libraries target =
     link_loop targets g include_shared_libraries True [Some target] []"

definition DependenciesForLinkSettings :: "target_table \<Rightarrow> dep_graph \<Rightarrow> string \<Rightarrow> string list comp" where
  "DependenciesForLinkSettings targets g target =
     obind (Some (dlookup targets target)) (\<lambda>td.
       LinkDependenciesInternal targets g
         (truthy (dget_default td ''allow_sharedlib_linksettings_propagation'' (PInt 1))) target)"

definition DependenciesToLinkAgainst :: "target_table \<Rightarrow> dep_graph \<Rightarrow> string \<Rightarrow> string list comp" where
  "DependenciesToLinkAgainst targets g target = LinkDependenciesInternal targets g True target"

section \<open>Imported dependencies\<close>

text \<open>Dependencies are values here: the names that targets export are only looked up when the loop
  reaches them.\<close>

definition target_at :: "target_table \<Rightarrow> pyval \<Rightarrow> pydict res" where
  "target_at targets v =
     (case v of
        PStr s \<Rightarrow> dlookup targets s
      | PList l \<Rightarrow> Inl (TypeError ''unhashable type: list'')
      | PDict d \<Rightarrow> Inl (TypeError ''unhashable type: dict'')
      | _ \<Rightarrow> Inl (KeyError (py_repr v)))"

definition insert_import :: "nat \<Rightarrow> pyval \<Rightarrow> pyval list \<times> nat \<Rightarrow> pyval list \<times> nat" where
  "insert_import index imported st =
     (case st of (deps, add_index) \<Rightarrow>
        if imported \<in> set deps then (deps, add_index)
        else (list_insert (index + add_index) imported deps, Suc add_index))"

partial_function (option) import_loop :: "target_table \<Rightarrow> nat \<Rightarrow> pyval list \<Rightarrow> pyval list comp" where
  "import_loop targets index deps =
     (if length deps \<le> index then Some (Inr deps)
      else
        obind (Some (rbind (target_at targets (deps ! index)) (\<lambda>d.
                 py_iter (dget_default d ''export_dependent_settings'' (PList [])))))
          (\<lambda>imports. import_loop targets (Suc index)
                       (fst (fold (insert_import index) imports (deps, 1)))))"

declare import_loop.simps [code]

definition AddImportedDependencies :: "target_table \<Rightarrow> pyval list \<Rightarrow> pyval list comp" where
  "AddImportedDependencies targets deps = import_loop targets 0 deps"

definition DirectAndImportedDependencies :: "target_table \<Rightarrow> dep_graph \<Rightarrow> string \<Rightarrow> pyval list comp" where
  "DirectAndImportedDependencies targets g target =
     AddImportedDependencies targets (map PStr (DirectDependencies g (Some target) []))"

section \<open>Settings of dependencies\<close>

definition file_name :: "pyval \<Rightarrow> string" where
  "file_name v = (case v of PStr s \<Rightarrow> (case BuildFile s of Some f \<Rightarrow> f | None \<Rightarrow> []) | _ \<Rightarrow> [])"

definition settings_dependencies :: "string \<Rightarrow> target_table \<Rightarrow> dep_graph \<Rightarrow> string \<Rightarrow> pyval list comp" where
  "settings_dependencies key targets g target =
     (if key = ''all_dependent_settings''
      then map_option (\<lambda>ds. Inr (map PStr ds)) (DeepDependencies g (Some target))
      else if key = ''direct_dependent_settings''
      then DirectAndImportedDependencies targets g target
      else if key = ''link_settings''
      then obind (DependenciesForLinkSettings targets g target) (\<lambda>ds. Some (Inr (map PStr ds)))
      else Some (Inl (GypError
             (''DoDependentSettings doesn'' @ [CHR 0x27] @ ''t know how to determine dependencies for '' @ key))))"

definition merge_settings :: "(string \<Rightarrow> string) \<Rightarrow> gyp_globals \<Rightarrow> string \<Rightarrow> string \<Rightarrow> pyval
    \<Rightarrow> target_table \<Rightarrow> target_table res" where
  "merge_settings rp glob key target dependency targets =
     rbind (target_at targets dependency) (\<lambda>dependency_dict.
       case dget dependency_dict key of
         None \<Rightarrow> Inr targets
       | Some v \<Rightarrow>
           rbind (as_dict ''iteritems'' v) (\<lambda>settings.
           rbind (dlookup targets target) (\<lambda>target_dict.
           rbind (MergeDicts rp glob target_dict settings (file_name (PStr target)) (file_name dependency))
             (\<lambda>merged. Inr (dset target merged targets)))))"

definition settings_of_target :: "(string \<Rightarrow> string) \<Rightarrow> gyp_globals \<Rightarrow> string \<Rightarrow> dep_graph \<Rightarrow> string
    \<Rightarrow> target_table \<Rightarrow> target_table comp" where
  "settings_of_target rp glob key g target targets =
     obind (Some (dlookup targets target)) (\<lambda>_.
     obind (settings_dependencies key targets g target) (\<lambda>deps.
       Some (rfold (merge_settings rp glob key target) deps targets)))"

definition DoDependentSettings :: "(string \<Rightarrow> string) \<Rightarrow> gyp_globals \<Rightarrow> string \<Rightarrow> string list
    \<Rightarrow> target_table \<Rightarrow> dep_graph \<Rightarrow> target_table comp" where
  "DoDependentSettings rp glob key flat_list targets g =
     ofold (settings_of_target rp glob key g) flat_list targets"

section \<open>Static libraries\<close>

definition slice_all :: "pyval \<Rightarrow> pyval res" where
  "slice_all v =
     (case v of PList l \<Rightarrow> Inr v | PStr s \<Rightarrow> Inr v
      | _ \<Rightarrow> Inl (TypeError (class_name v @ '' object is not sliceable'')))"

definition value_in :: "pyval \<Rightarrow> pyval \<Rightarrow> bool res" where
  "value_in x v =
     (case v of
        PList l \<Rightarrow> Inr (x \<in> set l)
      | _ \<Rightarrow> (case x of PStr s \<Rightarrow> py_contains v s | _ \<Rightarrow> Inl (TypeError ''unhashable type'')))"

text \<open>Whether a static library gives a dependency up: a static library that is not a hard
  dependency, or anything else that it does not depend on directly.\<close>

definition drops_dependency :: "target_table \<Rightarrow> pydict \<Rightarrow> pyval \<Rightarrow> bool res" where
  "drops_dependency targets target_dict dependency =
     rbind (target_at targets dependency) (\<lambda>dd.
     rbind (dlookup dd ''type'') (\<lambda>ty.
       if ty = PStr ''static_library''
       then Inr (\<not> truthy (dget_default dd ''hard_dependency'' (PInt 0)))
       else rbind (dlookup target_dict ''dependencies'') (\<lambda>ds.
              rbind (value_in dependency ds) (\<lambda>b. Inr (\<not> b)))))"

definition adjust_static :: "target_table \<Rightarrow> dep_graph \<Rightarrow> string \<Rightarrow> pydict \<Rightarrow> pydict comp" where
  "adjust_static targets g target target_dict =
     (if \<not> dhas target_dict ''dependencies'' then Some (Inr target_dict)
      else
        obind (Some (slice_all (dget_default target_dict ''dependencies'' (PList [])))) (\<lambda>original.
        let td = dset ''dependencies_original'' original target_dict;
            ts = dset target td targets
        in obind (DirectAndImportedDependencies ts g target) (\<lambda>deps.
           Some (rbind (rmap (\<lambda>d. rbind (drops_dependency ts td d) (\<lambda>b. Inr (d, b))) deps) (\<lambda>marks.
             let kept = map fst (filter (\<lambda>m. \<not> snd m) marks)
             in Inr (if kept \<noteq> [] then dset ''dependencies'' (PList kept) td
                     else ddel ''dependencies'' td))))))"

definition link_against :: "string \<Rightarrow> string \<Rightarrow> pydict \<Rightarrow> pydict res" where
  "link_against target dependency target_dict =
     (if dependency = target then Inr target_dict
      else
        let td = (if dhas target_dict ''dependencies'' then target_dict
                  else dset ''dependencies'' (PList []) target_dict)
        in rbind (dlookup td ''dependencies'') (\<lambda>ds.
           rbind (py_contains ds dependency) (\<lambda>b.
             if b then Inr td
             else rbind (as_list ''append'' ds) (\<lambda>l.
                    Inr (dset ''dependencies'' (PList (l @ [PStr dependency])) td)))))"

definition sort_link_dependencies :: "bool \<Rightarrow> string list \<Rightarrow> pydict \<Rightarrow> pydict res" where
  "sort_link_dependencies sort_dependencies flat_list target_dict =
     (case dget target_dict ''dependencies'' of
        Some ds \<Rightarrow>
          if sort_dependencies
          then rbind (rmap (\<lambda>dep. rbind (py_contains ds dep) (\<lambda>b. Inr (dep, b))) (rev flat_list)) (\<lambda>marks.
                 Inr (dset ''dependencies'' (PList (map (\<lambda>m. PStr (fst m)) (filter snd marks))) target_dict))
          else Inr target_dict
      | None \<Rightarrow> Inr target_dict)"

definition adjust_linkable :: "bool \<Rightarrow> string list \<Rightarrow> target_table \<Rightarrow> dep_graph \<Rightarrow> string \<Rightarrow> pydict
    \<Rightarrow> pydict comp" where
  "adjust_linkable sort_dependencies flat_list targets g target target_dict =
     obind (DependenciesToLinkAgainst targets g target) (\<lambda>link_dependencies.
       Some (rbind (rfold (link_against target) link_dependencies target_dict)
               (sort_link_dependencies sort_dependencies flat_list)))"

definition adjust_target :: "bool \<Rightarrow> string list \<Rightarrow> dep_graph \<Rightarrow> string \<Rightarrow> target_table \<Rightarrow> target_table comp" where
  "adjust_target sort_dependencies flat_list g target targets =
     obind (Some (dlookup targets target)) (\<lambda>target_dict.
     obind (Some (dlookup target_dict ''type'')) (\<lambda>target_type.
       if target_type = PStr ''static_library''
       then obind (adjust_static targets g target target_dict) (\<lambda>td. Some (Inr (dset target td targets)))
       else if target_type \<in> PStr ` set linkable_types
       then obind (adjust_linkable sort_dependencies flat_list targets g target target_dict)
              (\<lambda>td. Some (Inr (dset target td targets)))
       else Some (Inr targets)))"

definition AdjustStaticLibraryDependencies :: "string list \<Rightarrow> target_table \<Rightarrow> dep_graph \<Rightarrow> bool
    \<Rightarrow> target_table comp" where
  "AdjustStaticLibraryDependencies flat_list targets g sort_dependencies =
     ofold (adjust_target sort_dependencies flat_list g) flat_list targets"

section \<open>Link dependencies: theorems\<close>

text \<open>Every target has the two fields that the walk asks for.\<close>

definition typed_table :: "target_table \<Rightarrow> bool" where
  "typed_table targets \<longleftrightarrow> (\<forall>(t, d) \<in> set targets. dhas d ''target_name'' \<and> dhas d ''type'')"

definition target_type :: "target_table \<Rightarrow> string \<Rightarrow> pyval" where
  "target_type targets t =
     (case dget targets t of Some d \<Rightarrow> dget_default d ''type'' PNone | None \<Rightarrow> PNone)"

definition is_linkable :: "target_table \<Rightarrow> string \<Rightarrow> bool" where
  "is_linkable targets t = (target_type targets t \<in> PStr ` set linkable_types)"

text \<open>A dependency of type \<open>none\<close> that asks not to be traversed.\<close>

definition stops_walk :: "target_table \<Rightarrow> string \<Rightarrow> bool" where
  "stops_walk targets t \<longleftrightarrow> target_type targets t = PStr ''none''
     \<and> (\<exists>d. dget targets t = Some d \<and> \<not> truthy (dget_default d ''dependencies_traverse'' (PInt 1)))"

text \<open>What can be linked into another target: no program, and a shared library only on request.\<close>

definition links_in :: "target_table \<Rightarrow> bool \<Rightarrow> string \<Rightarrow> bool" where
  "links_in targets incl t \<longleftrightarrow> target_type targets t \<notin> {PStr ''executable'', PStr ''loadable_module''}
     \<and> (target_type targets t = PStr ''shared_library'' \<longrightarrow> incl)"

definition link_succs :: "target_table \<Rightarrow> dep_graph \<Rightarrow> string \<Rightarrow> node_id list" where
  "link_succs targets g t =
     (if is_linkable targets t \<or> stops_walk targets t then [] else dependencies (g (Some t)))"

lemma link_step_typed:
  assumes "typed_table targets" "dhas targets t"
  shows "link_step targets incl initial t deps =
    (if initial \<and> \<not> is_linkable targets t then Inr (deps, False)
     else if stops_walk targets t then Inr (if t \<in> set deps then deps else deps @ [t], False)
     else if \<not> initial \<and> \<not> links_in targets incl t then Inr (deps, False)
     else if t \<in> set deps then Inr (deps, False)
     else Inr (deps @ [t], initial \<or> \<not> is_linkable targets t))"
proof -
  from assms(2) obtain d where d: "dget targets t = Some d" by (auto simp: dhas_def)
  then have "(t, d) \<in> set targets" by (rule map_of_SomeD)
  with assms(1) have "dhas d ''target_name''" "dhas d ''type''" by (auto simp: typed_table_def)
  then obtain ty where "dhas d ''target_name''" "dget d ''type'' = Some ty" by (auto simp: dhas_def)
  with d show ?thesis
    by (auto simp: link_step_def target_type_def is_linkable_def stops_walk_def links_in_def
        dget_default_def dlookup_def Let_def)
qed

lemma link_loop_simps:
  "link_loop targets g incl initial [] deps = Some (Inr deps)"
  "link_loop targets g incl initial (None # rest) deps = link_loop targets g incl initial rest deps"
  "link_loop targets g incl initial (Some t # rest) deps =
     obind (Some (link_step targets incl initial t deps)) (\<lambda>r.
       if snd r
       then obind (link_loop targets g incl False (dependencies (g (Some t))) (fst r))
              (\<lambda>deps'. link_loop targets g incl initial rest deps')
       else link_loop targets g incl initial rest (fst r))"
  by (subst link_loop.simps; simp)+

definition link_run :: "target_table \<Rightarrow> dep_graph \<Rightarrow> bool \<Rightarrow> node_id list \<Rightarrow> string list \<Rightarrow> string list option" where
  "link_run targets g incl ms acc =
     (case link_loop targets g incl False ms acc of Some (Inr r) \<Rightarrow> Some r | _ \<Rightarrow> None)"

lemma link_run_Some: "link_run targets g incl ms acc = Some r \<longleftrightarrow> link_loop targets g incl False ms acc = Some (Inr r)"
  by (auto simp: link_run_def split: option.splits sum.splits)

lemma link_run_bind:
  "(case obind m f of Some (Inr r) \<Rightarrow> Some r | _ \<Rightarrow> None) =
    Option.bind (case m of Some (Inr r) \<Rightarrow> Some r | _ \<Rightarrow> None)
      (\<lambda>x. case f x of Some (Inr r) \<Rightarrow> Some r | _ \<Rightarrow> None)"
  by (auto simp: obind_def split: option.splits sum.splits)

lemma link_walk:
  assumes typed: "typed_table targets" and names: "dkeys targets = dkeys targets0"
    and g: "link_targets targets0 = Inr g" "wf_dict targets0"
  shows "dfs_walk (link_run targets g incl) (link_succs targets g)
    (\<lambda>t. stops_walk targets t \<or> links_in targets incl t) (set (dkeys targets))"
proof
  show "link_run targets g incl [] acc = Some acc" for acc
    by (simp add: link_run_def link_loop_simps)
  show "link_run targets g incl (None # ms) acc = link_run targets g incl ms acc" for ms acc
    by (simp add: link_run_def link_loop_simps)
  show "finite (set (dkeys targets))" by simp
  show "m \<in> set (dkeys targets)" if "Some m \<in> set (link_succs targets g n)" for n m
    using that target_names_closed[of m targets0 "Some n"]
    by (auto simp: link_succs_def target_graph_eqs[OF g] names split: if_splits)
  fix n ms acc assume n: "n \<in> set (dkeys targets)"
  then have step: "link_step targets incl False n acc =
      (if stops_walk targets n then Inr (if n \<in> set acc then acc else acc @ [n], False)
       else if \<not> links_in targets incl n then Inr (acc, False)
       else if n \<in> set acc then Inr (acc, False)
       else Inr (acc @ [n], \<not> is_linkable targets n))"
    using link_step_typed[OF typed, of n incl False acc] by (simp add: dhas_iff)
  show "link_run targets g incl (Some n # ms) acc = link_run targets g incl ms acc"
    if "\<not> (stops_walk targets n \<or> links_in targets incl n) \<or> n \<in> set acc"
    using that by (auto simp: link_run_def link_loop_simps step)
  show "link_run targets g incl (Some n # ms) acc =
      Option.bind (link_run targets g incl (link_succs targets g n) (acc @ [n])) (link_run targets g incl ms)"
    if "stops_walk targets n \<or> links_in targets incl n" "n \<notin> set acc"
    using that by (auto simp: link_run_def link_loop_simps step link_succs_def link_run_bind
        link_run_def[abs_def])
qed
lemma link_first:
  assumes "typed_table targets" "t \<in> set (dkeys targets)"
  shows "LinkDependenciesInternal targets g incl t =
    (if is_linkable targets t then link_loop targets g incl False (dependencies (g (Some t))) [t]
     else Some (Inr []))"
proof -
  have "\<not> stops_walk targets t" if "is_linkable targets t"
    using that by (auto simp: is_linkable_def stops_walk_def linkable_types_def)
  then have "link_step targets incl True t [] =
      (if is_linkable targets t then Inr ([t], True) else Inr ([], False))"
    using link_step_typed[OF assms(1), of t incl True "[]"] assms(2) by (simp add: dhas_iff)
  moreover have "link_loop targets g incl True [] = (\<lambda>deps. Some (Inr deps))"
    by (rule ext) (simp add: link_loop_simps)
  moreover have "obind m (\<lambda>deps. Some (Inr deps)) = m" for m :: "string list comp"
    by (auto simp: obind_def split: option.splits sum.splits)
  ultimately show ?thesis by (simp add: LinkDependenciesInternal_def link_loop_simps)
qed

lemma walked_set:
  assumes w: "walked succs accept space ms [t] new" and t: "succs t = []"
  shows "set (t # new) = insert t ((walk_step succs accept)\<^sup>* `` {n. Some n \<in> set ms \<and> accept n})"
proof -
  have w1: "\<And>n. Some n \<in> set ms \<Longrightarrow> accept n \<Longrightarrow> n \<in> set (t # new)"
    and w2: "\<And>a b. a \<in> set new \<Longrightarrow> (a, b) \<in> walk_step succs accept \<Longrightarrow> b \<in> set (t # new)"
    and w3: "\<And>a. a \<in> set new \<Longrightarrow> \<exists>n. Some n \<in> set ms \<and> accept n \<and> (n, a) \<in> (walk_step succs accept)\<^sup>*"
    using w unfolding walked_def by auto
  have closed: "b \<in> set (t # new)" if "(a, b) \<in> (walk_step succs accept)\<^sup>*" "a \<in> set (t # new)" for a b
    using that
  proof (induction rule: rtrancl_induct)
    case (step y z)
    then have "y \<noteq> t" using t by (auto simp: walk_step_def)
    with step show ?case using w2[of y z] by simp
  qed simp
  show ?thesis using w1 w3 closed by (intro set_eqI iffI) fastforce+
qed

lemma link_spec:
  assumes "link_targets targets0 = Inr g" "wf_dict targets0"
    and "typed_table targets" "dkeys targets = dkeys targets0" "t \<in> set (dkeys targets)"
  shows "\<exists>r. LinkDependenciesInternal targets g incl t = Some (Inr r) \<and> distinct r
    \<and> (if is_linkable targets t
       then hd r = t
         \<and> set r = insert t ((walk_step (link_succs targets g)
               (\<lambda>n. stops_walk targets n \<or> links_in targets incl n))\<^sup>*
             `` {n. Some n \<in> set (dependencies (g (Some t)))
                  \<and> (stops_walk targets n \<or> links_in targets incl n)})
       else r = [])"
proof (cases "is_linkable targets t")
  case True
  let ?ms = "dependencies (g (Some t))"
  have "{n. Some n \<in> set ?ms} \<subseteq> set (dkeys targets)"
    using target_names_closed[of _ targets0 "Some t"]
    by (auto simp: target_graph_eqs[OF assms(1,2)] assms(4))
  then obtain new where new: "link_run targets g incl ?ms [t] = Some ([t] @ new)"
    "walked (link_succs targets g) (\<lambda>n. stops_walk targets n \<or> links_in targets incl n)
       (set (dkeys targets)) ?ms [t] new"
    using dfs_walk.run_walks[OF link_walk[OF assms(3,4,1,2)], of ?ms "[t]" incl] assms(5) by auto
  have "link_succs targets g t = []" using True by (simp add: link_succs_def)
  from walked_set[OF new(2) this] have "set (t # new) = insert t ((walk_step (link_succs targets g)
      (\<lambda>n. stops_walk targets n \<or> links_in targets incl n))\<^sup>*
    `` {n. Some n \<in> set ?ms \<and> (stops_walk targets n \<or> links_in targets incl n)})" .
  moreover have "distinct (t # new)" using new(2) by (simp add: walked_def)
  moreover have "LinkDependenciesInternal targets g incl t = Some (Inr (t # new))"
    using link_first[OF assms(3,5)] True new(1) by (simp add: link_run_Some)
  ultimately show ?thesis using True by (intro exI[of _ "t # new"]) simp
qed (simp add: link_first[OF assms(3,5)])

text \<open>C11.  \<open>_LinkDependenciesInternal\<close> returns for every target of a table whose targets are
  named and typed.  A target that is not linked gets no dependencies.  A linkable target comes
  first itself, and after it exactly the targets that can be reached from its dependencies without
  passing through another linkable target or a target that stops the traversal: static libraries
  and groups, shared libraries when they are asked for, and never a program.\<close>

theorem LinkDependenciesInternal_reachable:
  assumes "link_targets targets0 = Inr g" "wf_dict targets0"
    and "typed_table targets" "dkeys targets = dkeys targets0" "t \<in> set (dkeys targets)"
  shows "\<exists>r. LinkDependenciesInternal targets g incl t = Some (Inr r) \<and> distinct r
    \<and> (if is_linkable targets t
       then hd r = t
         \<and> set r = insert t ((walk_step (link_succs targets g)
               (\<lambda>n. stops_walk targets n \<or> links_in targets incl n))\<^sup>*
             `` {n. Some n \<in> set (dependencies (g (Some t)))
                  \<and> (stops_walk targets n \<or> links_in targets incl n)})
       else r = [])"
  by (rule link_spec[OF assms])

definition example_link_table :: target_table where
  "example_link_table =
     [(''a:app#t'', [(''target_name'', PStr ''app''), (''type'', PStr ''executable''),
        (''dependencies'', PList [PStr ''a:lib#t'', PStr ''a:tool#t''])]),
      (''a:lib#t'', [(''target_name'', PStr ''lib''), (''type'', PStr ''static_library''),
        (''dependencies'', PList [PStr ''a:so#t''])]),
      (''a:so#t'', [(''target_name'', PStr ''so''), (''type'', PStr ''shared_library''),
        (''dependencies'', PList [])]),
      (''a:tool#t'', [(''target_name'', PStr ''tool''), (''type'', PStr ''executable''),
        (''dependencies'', PList [])])]"

theorem LinkDependenciesInternal_reachable_witness:
  "\<exists>g r. link_targets example_link_table = Inr g
    \<and> LinkDependenciesInternal example_link_table g True ''a:app#t'' = Some (Inr r) \<and> distinct r
    \<and> hd r = ''a:app#t''"
proof -
  have "map_sum id (\<lambda>_. ()) (link_targets example_link_table) = Inr ()" by code_simp
  then obtain g where g: "link_targets example_link_table = Inr g"
    by (auto simp: map_sum_def split: sum.splits)
  have h: "wf_dict example_link_table" "typed_table example_link_table"
    "''a:app#t'' \<in> set (dkeys example_link_table)" "is_linkable example_link_table ''a:app#t''"
    by code_simp+
  from LinkDependenciesInternal_reachable[OF g h(1,2) refl h(3), of True] h(4) g show ?thesis
    by auto
qed
section \<open>Imported dependencies: theorems\<close>

text \<open>What a dependency passes on, and the relation it spans.\<close>

definition exports :: "target_table \<Rightarrow> pyval \<Rightarrow> pyval list res" where
  "exports targets v =
     rbind (target_at targets v) (\<lambda>d. py_iter (dget_default d ''export_dependent_settings'' (PList [])))"

definition export_relation :: "target_table \<Rightarrow> (pyval \<times> pyval) set" where
  "export_relation targets = {(a, b). \<exists>es. exports targets a = Inr es \<and> b \<in> set es}"

lemma finite_exports: "finite (export_relation targets `` A)"
proof -
  let ?one = "\<lambda>t. case exports targets (PStr t) of Inr es \<Rightarrow> set es | Inl e \<Rightarrow> {}"
  have "b \<in> (\<Union>t \<in> set (dkeys targets). ?one t)"
    if "exports targets a = Inr es" "b \<in> set es" for a b es
  proof -
    from that(1) obtain t d where t: "a = PStr t" "dget targets t = Some d"
      by (cases a) (auto simp: exports_def target_at_def)
    then have "t \<in> set (dkeys targets)" by (force dest: map_of_SomeD)
    moreover have "b \<in> ?one t" using that t(1) by simp
    ultimately show ?thesis by (rule UN_I)
  qed
  then have "export_relation targets `` A \<subseteq> (\<Union>t \<in> set (dkeys targets). ?one t)"
    unfolding export_relation_def by blast
  moreover have "finite (\<Union>t \<in> set (dkeys targets). ?one t)" by (auto split: sum.split)
  ultimately show ?thesis by (rule finite_subset)
qed

lemma list_insert_append: "list_insert (length xs) y (xs @ zs) = xs @ y # zs"
  by (simp add: list_insert_def)

lemma insert_imports:
  "\<exists>news. fst (fold (insert_import (length pre)) es (pre @ a # mid @ post, Suc (length mid)))
       = pre @ a # mid @ news @ post
     \<and> distinct news \<and> set news = set es - set (pre @ a # mid @ post)"
proof (induction es arbitrary: mid)
  case (Cons x es)
  show ?case
  proof (cases "x \<in> set (pre @ a # mid @ post)")
    case True
    then show ?thesis using Cons.IH[of mid] by (auto simp: insert_import_def)
  next
    case False
    then have step: "insert_import (length pre) x (pre @ a # mid @ post, Suc (length mid))
        = (pre @ a # (mid @ [x]) @ post, Suc (length (mid @ [x])))"
      using list_insert_append[of "pre @ a # mid" x post] by (simp add: insert_import_def)
    from Cons.IH[of "mid @ [x]"] obtain news where
      "fst (fold (insert_import (length pre)) es (pre @ a # (mid @ [x]) @ post, Suc (length (mid @ [x]))))
         = pre @ a # (mid @ [x]) @ news @ post"
      "distinct news" "set news = set es - set (pre @ a # (mid @ [x]) @ post)" by blast
    with step False show ?thesis by (intro exI[of _ "x # news"]) auto
  qed
qed simp

definition imported :: "target_table \<Rightarrow> pyval list \<Rightarrow> pyval list res \<Rightarrow> bool" where
  "imported targets deps r \<longleftrightarrow>
     (case r of
        Inr out \<Rightarrow> set out = (export_relation targets)\<^sup>* `` set deps \<and> distinct out = distinct deps
      | Inl e \<Rightarrow> \<exists>a \<in> (export_relation targets)\<^sup>* `` set deps. exports targets a = Inl e)"

lemma import_loop_step:
  assumes "index < length deps"
  shows "import_loop targets index deps =
    obind (Some (exports targets (deps ! index)))
      (\<lambda>imports. import_loop targets (Suc index) (fst (fold (insert_import index) imports (deps, 1))))"
  using assms by (subst import_loop.simps) (simp add: exports_def)

lemma imported_more:
  assumes "imported targets deps' r" "set deps' = set deps \<union> set es" "distinct deps' = distinct deps"
    and "a \<in> set deps" "exports targets a = Inr es"
  shows "imported targets deps r"
proof -
  have "(a, b) \<in> export_relation targets" if "b \<in> set es" for b
    using assms(5) that by (auto simp: export_relation_def)
  then have "(export_relation targets)\<^sup>* `` set es \<subseteq> (export_relation targets)\<^sup>* `` set deps"
    using assms(4) by (blast intro: converse_rtrancl_into_rtrancl)
  then have "(export_relation targets)\<^sup>* `` set deps' = (export_relation targets)\<^sup>* `` set deps"
    unfolding assms(2) Image_Un by blast
  then show ?thesis using assms(1,3) by (simp add: imported_def split: sum.splits)
qed

lemma import_loop_closed:
  assumes "card (export_relation targets `` UNIV - set deps) + (length deps - index) = n"
    and "\<And>a. a \<in> set (take index deps) \<Longrightarrow> \<exists>es. exports targets a = Inr es \<and> set es \<subseteq> set deps"
  shows "\<exists>r. import_loop targets index deps = Some r \<and> imported targets deps r"
  using assms
proof (induction n arbitrary: index deps rule: less_induct)
  case (less n)
  show ?case
  proof (cases "index < length deps")
    case False
    have closed: "b \<in> set deps" if "(a, b) \<in> (export_relation targets)\<^sup>*" "a \<in> set deps" for a b
      using that
    proof (induction rule: rtrancl_induct)
      case (step y z)
      then show ?case using less.prems(2)[of y] False by (auto simp: export_relation_def)
    qed
    have "imported targets deps (Inr deps)" using closed by (auto simp: imported_def)
    then show ?thesis using False by (subst import_loop.simps) simp
  next
    case True
    show ?thesis
    proof (cases "exports targets (deps ! index)")
      case (Inl e)
      have "imported targets deps (Inl e)"
        using Inl True unfolding imported_def by (auto intro!: bexI[of _ "deps ! index"] ImageI[of "deps ! index"])
      then show ?thesis using Inl True by (simp add: import_loop_step)
    next
      case (Inr es)
      let ?pre = "take index deps" and ?a = "deps ! index" and ?post = "drop (Suc index) deps"
      have split: "deps = ?pre @ ?a # ?post" using True by (simp add: id_take_nth_drop)
      have len: "length ?pre = index" using True by simp
      from insert_imports[of ?pre es ?a "[]" ?post] obtain news where
        news: "fst (fold (insert_import index) es (deps, 1)) = ?pre @ ?a # news @ ?post"
          "distinct news" "set news = set es - set deps"
        unfolding len using split by auto
      let ?d = "?pre @ ?a # news @ ?post"
      have set_d: "set ?d = set deps \<union> set es" and dist: "distinct ?d = distinct deps"
        and len_d: "length ?d = length deps + length news"
      proof -
        have 1: "set deps = set (?pre @ ?a # ?post)"
          and 2: "distinct deps = distinct (?pre @ ?a # ?post)" using split by simp_all
        have "set ?d = set (?pre @ ?a # ?post) \<union> set news" by auto
        then show "set ?d = set deps \<union> set es" using news(3) unfolding 1[symmetric] by auto
        have "set news \<inter> set (?pre @ ?a # ?post) = {}" using news(3) unfolding 1 by auto
        then show "distinct ?d = distinct deps" unfolding 2 using news(2) by auto
        show "length ?d = length deps + length news" using True by simp
      qed
      have "card (export_relation targets `` UNIV - set ?d) + length news
          = card (export_relation targets `` UNIV - set deps)"
      proof -
        let ?E = "export_relation targets `` UNIV"
        have "set es \<subseteq> ?E" using Inr by (auto simp: export_relation_def)
        then have "?E - set deps = (?E - set ?d) \<union> set news" "(?E - set ?d) \<inter> set news = {}"
          using set_d news(3) by auto
        then show ?thesis
          using card_Un_disjoint[of "?E - set ?d" "set news"] finite_exports[of targets UNIV]
            distinct_card[OF news(2)] by simp
      qed
      then have less_n: "card (export_relation targets `` UNIV - set ?d) + (length ?d - Suc index) < n"
        using less.prems(1) len_d True by simp
      have "\<exists>es'. exports targets b = Inr es' \<and> set es' \<subseteq> set ?d" if "b \<in> set (take (Suc index) ?d)" for b
      proof -
        have "take (Suc index) ?d = ?pre @ [?a]" using len by simp
        then have "b \<in> set ?pre \<or> b = ?a" using that by auto
        then show ?thesis using less.prems(2)[of b] Inr set_d by auto
      qed
      from less.IH[OF less_n refl this] obtain r where
        r: "import_loop targets (Suc index) ?d = Some r" "imported targets ?d r" by blast
      from imported_more[OF r(2) set_d dist nth_mem[OF True] Inr] r(1) show ?thesis
        using news(1) Inr True by (simp add: import_loop_step)
    qed
  qed
qed

text \<open>C36.  \<open>_AddImportedDependencies\<close> always returns, also when targets export each other's
  settings in a cycle.  When it succeeds it has listed exactly what the given dependencies export,
  through any number of targets, and no dependency twice; when it fails, the error is that of a
  dependency it could reach.\<close>

theorem AddImportedDependencies_closure:
  "\<exists>r. AddImportedDependencies targets deps = Some r
    \<and> (case r of
         Inr out \<Rightarrow> set out = (export_relation targets)\<^sup>* `` set deps \<and> distinct out = distinct deps
       | Inl e \<Rightarrow> \<exists>a \<in> (export_relation targets)\<^sup>* `` set deps. exports targets a = Inl e)"
  using import_loop_closed[OF refl, of 0 deps targets]
  unfolding AddImportedDependencies_def imported_def by simp
section \<open>Settings of dependencies: theorems\<close>

text \<open>The tables that the passes after the linking of the graph work on: the targets of the linked
  table, in their order, each still with a name and a type.\<close>

definition passed_table :: "string list \<Rightarrow> target_table \<Rightarrow> bool" where
  "passed_table names targets \<longleftrightarrow> typed_table targets \<and> dkeys targets = names"

lemma passed_table_dset:
  assumes "passed_table names targets" "dget targets t = Some d"
    and "dhas d' ''target_name''" "dhas d' ''type''"
  shows "passed_table names (dset t d' targets)"
proof -
  have "t \<in> set (dkeys targets)" using assms(2) by (force dest: map_of_SomeD)
  then have "dkeys (dset t d' targets) = dkeys targets" by (simp add: dkeys_dset)
  then have "dkeys (dset t d' targets) = names" using assms(1) by (simp add: passed_table_def)
  moreover have "typed_table (dset t d' targets)"
    using assms(1,3,4) set_dset[of t d' targets] by (fastforce simp: passed_table_def typed_table_def)
  ultimately show ?thesis by (simp add: passed_table_def)
qed

lemma typed_fields:
  assumes "passed_table names targets" "dget targets t = Some d"
  shows "dhas d ''target_name''" "dhas d ''type''"
  using assms map_of_SomeD[OF assms(2)] by (auto simp: passed_table_def typed_table_def)

lemma MergeDicts_keeps_keys:
  assumes "MergeDicts rp g to fro tf ff = Inr t" "dhas to k"
  shows "dhas t k"
  using assms(1) unfolding MergeDicts_rfold
proof (rule rfold_invariant[where P = "\<lambda>t. dhas t k"])
  fix kv u v assume "dhas u k" "merge_entry rp g tf ff fro kv u = Inr v"
  with merge_entry_spec[OF this(2)] show "dhas v k" by (cases "k = target_key kv") (auto simp: dhas_def)
qed (fact assms(2))

lemma merge_settings_passes:
  assumes "passed_table names targets" "merge_settings rp glob key t dep targets = Inr ts"
  shows "passed_table names ts \<and> (\<forall>x. x \<noteq> t \<longrightarrow> dget ts x = dget targets x)"
proof (cases "ts = targets")
  case False
  with assms(2) obtain d s m where d: "dget targets t = Some d"
    and m: "MergeDicts rp glob d s (file_name (PStr t)) (file_name dep) = Inr m" and ts: "ts = dset t m targets"
    by (auto simp: merge_settings_def split: option.splits)
  have "passed_table names ts" unfolding ts
    using typed_fields[OF assms(1) d] MergeDicts_keeps_keys[OF m] by (intro passed_table_dset[OF assms(1) d])
  then show ?thesis by (simp add: ts)
qed (use assms(1) in simp)

lemma link_returns:
  assumes "link_targets targets0 = Inr g" "wf_dict targets0" "passed_table (dkeys targets0) targets"
  shows "LinkDependenciesInternal targets g incl t \<noteq> None"
proof (cases "t \<in> set (dkeys targets)")
  case True
  with link_spec[OF assms(1,2), of targets t incl] assms(3) show ?thesis
    by (auto simp: passed_table_def)
next
  case False
  then have "\<not> dhas targets t" by (simp add: dhas_iff)
  then show ?thesis
    by (auto simp: LinkDependenciesInternal_def link_loop_simps link_step_def dlookup_def dhas_def)
qed

lemma settings_dependencies_returns:
  assumes "link_targets targets0 = Inr g" "wf_dict targets0" "passed_table (dkeys targets0) targets"
  shows "settings_dependencies key targets g t \<noteq> None"
proof -
  have "AddImportedDependencies targets deps \<noteq> None" for deps
    using import_loop_closed[OF refl, of 0 deps targets] by (auto simp: AddImportedDependencies_def)
  moreover have "DeepDependencies g (Some t) \<noteq> None" using deep_spec[OF assms(1,2), of t] by auto
  moreover have "DependenciesForLinkSettings targets g t \<noteq> None"
    unfolding DependenciesForLinkSettings_def
    by (rule obind_returns) (use link_returns[OF assms] in auto)
  then have "obind (DependenciesForLinkSettings targets g t) (\<lambda>ds. Some (Inr (map PStr ds))) \<noteq> None"
    by (rule obind_returns) simp
  ultimately show ?thesis by (simp add: settings_dependencies_def DirectAndImportedDependencies_def)
qed

lemma settings_of_target_passes:
  assumes "passed_table names targets" "settings_of_target rp glob key g t targets = Some (Inr ts)"
  shows "passed_table names ts \<and> (\<forall>x. x \<noteq> t \<longrightarrow> dget ts x = dget targets x)"
proof -
  from assms(2) obtain deps where deps: "rfold (merge_settings rp glob key t) deps targets = Inr ts"
    by (auto simp: settings_of_target_def)
  show ?thesis using deps
  proof (rule rfold_invariant[where
        P = "\<lambda>u. passed_table names u \<and> (\<forall>x. x \<noteq> t \<longrightarrow> dget u x = dget targets x)"])
    fix dep u v
    assume u: "passed_table names u \<and> (\<forall>x. x \<noteq> t \<longrightarrow> dget u x = dget targets x)"
      and "merge_settings rp glob key t dep u = Inr v"
    from merge_settings_passes[OF conjunct1[OF u] this(2)] u
    show "passed_table names v \<and> (\<forall>x. x \<noteq> t \<longrightarrow> dget v x = dget targets x)" by simp
  qed (use assms(1) in simp)
qed

text \<open>Where the settings of a target come from, over the relation that the dependency lists of the
  linked table \<open>targets0\<close> span: from everything the target depends on; from its direct dependencies and
  what these export; or, for something that is linked, from itself and what is linked into it.\<close>

definition link_relation :: "target_table \<Rightarrow> target_table \<Rightarrow> bool \<Rightarrow> (string \<times> string) set" where
  "link_relation targets0 targets incl =
     {(a, b) \<in> table_relation targets0. \<not> is_linkable targets a \<and> \<not> stops_walk targets a
        \<and> (stops_walk targets b \<or> links_in targets incl b)}"

definition linked_into :: "target_table \<Rightarrow> target_table \<Rightarrow> bool \<Rightarrow> string \<Rightarrow> string set" where
  "linked_into targets0 targets incl t =
     (link_relation targets0 targets incl)\<^sup>* `` {b. (t, b) \<in> table_relation targets0
        \<and> (stops_walk targets b \<or> links_in targets incl b)}"

definition passes_shared :: "target_table \<Rightarrow> string \<Rightarrow> bool" where
  "passes_shared targets t \<longleftrightarrow>
     (\<exists>d. dget targets t = Some d \<and> truthy (dget_default d ''allow_sharedlib_linksettings_propagation'' (PInt 1)))"

definition settings_sources :: "string \<Rightarrow> target_table \<Rightarrow> target_table \<Rightarrow> string \<Rightarrow> pyval set" where
  "settings_sources key targets0 targets t =
     (if key = ''all_dependent_settings'' then PStr ` ((table_relation targets0)\<^sup>+ `` {t})
      else if key = ''direct_dependent_settings''
      then (export_relation targets)\<^sup>* `` (PStr ` (table_relation targets0 `` {t}))
      else if is_linkable targets t
      then PStr ` insert t (linked_into targets0 targets (passes_shared targets t) t) else {})"

text \<open>The settings that one of these passes on, and all of them merged into the target in their order.\<close>

definition passed_settings :: "string \<Rightarrow> target_table \<Rightarrow> pyval \<Rightarrow> pydict" where
  "passed_settings key targets v =
     (case v of
        PStr s \<Rightarrow> (case dget targets s of
            Some d \<Rightarrow> (case dget d key of Some (PDict settings) \<Rightarrow> settings | _ \<Rightarrow> [])
          | None \<Rightarrow> [])
      | _ \<Rightarrow> [])"

definition merge_all_settings :: "(string \<Rightarrow> string) \<Rightarrow> gyp_globals \<Rightarrow> string \<Rightarrow> string \<Rightarrow> target_table
    \<Rightarrow> pyval list \<Rightarrow> pydict \<Rightarrow> pydict res" where
  "merge_all_settings rp glob key t targets sources d =
     rfold (\<lambda>v d. MergeDicts rp glob d (passed_settings key (dset t d targets) v) (file_name (PStr t)) (file_name v))
       sources d"

lemma MergeDicts_Nil: "MergeDicts rp glob d [] tf ff = Inr d"
  by (simp add: MergeDicts_rfold)

lemma merge_settings_passed:
  assumes "merge_settings rp glob key t v targets = Inr ts" "dget targets t = Some d"
  shows "\<exists>d'. MergeDicts rp glob d (passed_settings key targets v) (file_name (PStr t)) (file_name v) = Inr d'
    \<and> ts = dset t d' targets"
proof -
  from assms(1) obtain s e where v: "v = PStr s" and e: "dget targets s = Some e"
    by (auto simp: merge_settings_def target_at_def rbind_eq_Inr split: pyval.splits)
  show ?thesis
  proof (cases "dget e key")
    case None
    then show ?thesis using assms e
      by (simp add: v merge_settings_def target_at_def passed_settings_def MergeDicts_Nil dset_same)
  next
    case (Some x)
    then show ?thesis using assms e
      by (auto simp: v merge_settings_def target_at_def passed_settings_def rbind_eq_Inr)
  qed
qed

lemma merge_all_settings_rfold:
  assumes "rfold (merge_settings rp glob key t) vs (dset t d targets) = Inr ts"
  shows "\<exists>d'. merge_all_settings rp glob key t targets vs d = Inr d' \<and> ts = dset t d' targets"
  using assms
proof (induction vs arbitrary: d)
  case (Cons v vs)
  from Cons.prems obtain u where u: "merge_settings rp glob key t v (dset t d targets) = Inr u"
    and rest: "rfold (merge_settings rp glob key t) vs u = Inr ts" by auto
  from merge_settings_passed[OF u] obtain d1 where
    d1: "MergeDicts rp glob d (passed_settings key (dset t d targets) v) (file_name (PStr t)) (file_name v) = Inr d1"
      "u = dset t d1 targets" by auto
  from Cons.IH[OF rest[unfolded d1(2)]] d1(1) show ?case by (simp add: merge_all_settings_def)
qed (simp add: merge_all_settings_def)

lemma DirectDependencies_set:
  "distinct acc \<Longrightarrow> distinct (DirectDependencies g n acc)
     \<and> set (DirectDependencies g n acc) = set acc \<union> {r. Some r \<in> set (dependencies (g n))}"
proof -
  let ?f = "\<lambda>d acc. case d of None \<Rightarrow> acc | Some r \<Rightarrow> if r \<in> set acc then acc else acc @ [r]"
  have "distinct acc \<Longrightarrow> distinct (fold ?f ds acc) \<and> set (fold ?f ds acc) = set acc \<union> {r. Some r \<in> set ds}"
    for ds :: "node_id list" and acc
  proof (induction ds arbitrary: acc)
    case (Cons d ds)
    then show ?case by (cases d) auto
  qed simp
  then show "distinct acc \<Longrightarrow> distinct (DirectDependencies g n acc)
     \<and> set (DirectDependencies g n acc) = set acc \<union> {r. Some r \<in> set (dependencies (g n))}"
    by (simp add: DirectDependencies_def)
qed

lemma settings_dependencies_sources:
  assumes "link_targets targets0 = Inr g" "wf_dict targets0" "passed_table (dkeys targets0) targets"
    and "settings_dependencies key targets g t = Some (Inr deps)" "dget targets t \<noteq> None"
  shows "distinct deps \<and> set deps = settings_sources key targets0 targets t"
proof -
  have rel: "{n. Some n \<in> set (dependencies (g (Some a)))} = table_relation targets0 `` {a}" for a
    using target_graph_relation[OF assms(1,2)] by (auto simp: depends_on_def)
  then have edge: "Some n \<in> set (dependencies (g (Some a))) \<longleftrightarrow> (a, n) \<in> table_relation targets0" for a n
    by (metis Image_singleton_iff mem_Collect_eq)
  consider (all) "key = ''all_dependent_settings''" | (direct) "key = ''direct_dependent_settings''"
    | (link) "key = ''link_settings''"
    using assms(4) by (auto simp: settings_dependencies_def split: if_splits)
  then show ?thesis
  proof cases
    case all
    with assms(4) deep_spec[OF assms(1,2), of t] show ?thesis
      by (auto simp: settings_dependencies_def settings_sources_def distinct_map inj_on_def)
  next
    case direct
    let ?dd = "map PStr (DirectDependencies g (Some t) [])"
    have "distinct ?dd" "set ?dd = PStr ` (table_relation targets0 `` {t})"
      using DirectDependencies_set[of "[]" g "Some t"] rel[of t] by (auto simp: distinct_map inj_on_def)
    with direct assms(4) import_loop_closed[OF refl, of 0 ?dd targets] show ?thesis
      by (auto simp: settings_dependencies_def settings_sources_def DirectAndImportedDependencies_def
          AddImportedDependencies_def imported_def)
  next
    case link
    from assms(5) obtain d where d: "dget targets t = Some d" by blast
    let ?incl = "truthy (dget_default d ''allow_sharedlib_linksettings_propagation'' (PInt 1))"
    have incl: "passes_shared targets t = ?incl" by (simp add: passes_shared_def d)
    from link assms(4) d obtain r where r: "LinkDependenciesInternal targets g ?incl t = Some (Inr r)" "deps = map PStr r"
      by (auto simp: settings_dependencies_def DependenciesForLinkSettings_def)
    have walk: "walk_step (link_succs targets g) (\<lambda>n. stops_walk targets n \<or> links_in targets ?incl n)
        = link_relation targets0 targets ?incl"
      using edge by (auto simp: walk_step_def link_succs_def link_relation_def split: if_splits)
    have "t \<in> set (dkeys targets)" using d by (force dest: map_of_SomeD)
    then have "typed_table targets" "dkeys targets = dkeys targets0" "t \<in> set (dkeys targets)"
      using assms(3) by (simp_all only: passed_table_def)
    from link_spec[OF assms(1,2) this, of ?incl] r(1) have "distinct r"
      "set r = (if is_linkable targets t then insert t (linked_into targets0 targets ?incl t) else {})"
      by (auto simp: walk linked_into_def edge)
    then show ?thesis using link by (auto simp: r(2) settings_sources_def incl distinct_map inj_on_def)
  qed
qed

lemma settings_of_target_merges:
  assumes "link_targets targets0 = Inr g" "wf_dict targets0" "passed_table (dkeys targets0) u"
    and "settings_of_target rp glob key g t u = Some (Inr v)"
  shows "\<exists>d sources d'. dget u t = Some d \<and> distinct sources \<and> set sources = settings_sources key targets0 u t
    \<and> merge_all_settings rp glob key t u sources d = Inr d' \<and> v = dset t d' u"
proof -
  from assms(4) obtain d sources where d: "dget u t = Some d"
    and s: "settings_dependencies key u g t = Some (Inr sources)"
    and v: "rfold (merge_settings rp glob key t) sources u = Inr v"
    by (auto simp: settings_of_target_def)
  from settings_dependencies_sources[OF assms(1-3) s] d
  have "distinct sources \<and> set sources = settings_sources key targets0 u t" by blast
  moreover from v have "rfold (merge_settings rp glob key t) sources (dset t d u) = Inr v" by (simp add: dset_same[OF d])
  note merge_all_settings_rfold[OF this]
  ultimately show ?thesis using d by blast
qed

text \<open>C29.  \<open>DoDependentSettings\<close> returns on a linked table of named and typed targets, for every settings
  key.  When it succeeds, the table holds the same targets in the same order, each still with its name
  and type, and every target outside the list is as it was.  Each target of the list, in turn, has got
  the settings under the key of exactly the targets they come from, each once: of all it depends on for
  \<open>all_dependent_settings\<close>, of its direct dependencies and what these export for
  \<open>direct_dependent_settings\<close>, and of what is linked into it for \<open>link_settings\<close>.\<close>

theorem DoDependentSettings_merges:
  assumes "link_targets targets0 = Inr g" "wf_dict targets0" "passed_table (dkeys targets0) targets"
  shows "\<exists>r. DoDependentSettings rp glob key flat_list targets g = Some r
    \<and> (\<forall>ts. r = Inr ts \<longrightarrow> passed_table (dkeys targets0) ts
         \<and> (\<forall>t. t \<notin> set flat_list \<longrightarrow> dget ts t = dget targets t)
         \<and> (\<forall>xs t ys. flat_list = xs @ t # ys \<longrightarrow>
             (\<exists>u d sources d'. DoDependentSettings rp glob key xs targets g = Some (Inr u)
                \<and> dget u t = Some d \<and> distinct sources \<and> set sources = settings_sources key targets0 u t
                \<and> merge_all_settings rp glob key t u sources d = Inr d'
                \<and> DoDependentSettings rp glob key (xs @ [t]) targets g = Some (Inr (dset t d' u))
                \<and> (t \<notin> set ys \<longrightarrow> dget ts t = Some d'))))"
proof -
  let ?f = "settings_of_target rp glob key g"
  let ?P = "passed_table (dkeys targets0)"
  have step: "?P v \<and> (\<forall>t. t \<noteq> x \<longrightarrow> dget v t = dget u t)" if "?P u" "?f x u = Some (Inr v)" for x u v
    by (rule settings_of_target_passes[OF that])
  have passed: "?P v \<and> (\<forall>t. t \<notin> set xs \<longrightarrow> dget v t = dget u t)" if "ofold ?f xs u = Some (Inr v)" "?P u" for xs u v
    using that
  proof (induction xs arbitrary: u)
    case (Cons x xs)
    from Cons.prems(1) obtain w where w: "?f x u = Some (Inr w)" "ofold ?f xs w = Some (Inr v)" by auto
    from step[OF Cons.prems(2) w(1)] Cons.IH[OF w(2)] show ?case by simp
  qed simp
  have "ofold ?f flat_list targets \<noteq> None"
  proof (rule ofold_returns[where P = ?P and f = ?f, OF assms(3)])
    fix x u assume u: "?P u"
    have "?f x u \<noteq> None" unfolding settings_of_target_def
      using settings_dependencies_returns[OF assms(1,2) u] by (intro obind_returns) simp_all
    with step[OF u] show "?f x u \<noteq> None \<and> (\<forall>v. ?f x u = Some (Inr v) \<longrightarrow> ?P v)" by blast
  qed
  then obtain r where r: "ofold ?f flat_list targets = Some r" by blast
  have "\<exists>u d sources d'. ofold ?f xs targets = Some (Inr u)
      \<and> dget u t = Some d \<and> distinct sources \<and> set sources = settings_sources key targets0 u t
      \<and> merge_all_settings rp glob key t u sources d = Inr d'
      \<and> ofold ?f (xs @ [t]) targets = Some (Inr (dset t d' u)) \<and> (t \<notin> set ys \<longrightarrow> dget ts t = Some d')"
    if ts: "r = Inr ts" and fl: "flat_list = xs @ t # ys" for ts xs t ys
  proof -
    from r[unfolded ts fl] obtain u v where run: "ofold ?f xs targets = Some (Inr u)" "?f t u = Some (Inr v)"
      "ofold ?f ys v = Some (Inr ts)" by (auto simp: ofold_append)
    from passed[OF run(1) assms(3)] have u: "?P u" by blast
    from settings_of_target_merges[OF assms(1,2) u run(2)] obtain d sources d' where
      d: "dget u t = Some d" "distinct sources" "set sources = settings_sources key targets0 u t"
        "merge_all_settings rp glob key t u sources d = Inr d'" "v = dset t d' u" by blast
    from step[OF u run(2)] passed[OF run(3)] have "t \<notin> set ys \<longrightarrow> dget ts t = dget v t" by blast
    with d run show ?thesis by (auto simp: ofold_append)
  qed
  with r passed[of flat_list targets] assms(3) show ?thesis unfolding DoDependentSettings_def by blast
qed

theorem DoDependentSettings_merges_witness:
  "\<exists>g ts d sources d'. link_targets example_link_table = Inr g
    \<and> DoDependentSettings id (SetGeneratorGlobals plain_generator) ''link_settings'' [''a:app#t''] example_link_table g
        = Some (Inr ts)
    \<and> dget example_link_table ''a:app#t'' = Some d
    \<and> set sources = settings_sources ''link_settings'' example_link_table example_link_table ''a:app#t''
    \<and> merge_all_settings id (SetGeneratorGlobals plain_generator) ''link_settings'' ''a:app#t'' example_link_table sources d
        = Inr d' \<and> dget ts ''a:app#t'' = Some d'"
proof -
  let ?do = "\<lambda>g. DoDependentSettings id (SetGeneratorGlobals plain_generator) ''link_settings'' [''a:app#t''] example_link_table g"
  have c: "case link_targets example_link_table of Inl e \<Rightarrow> False
    | Inr g \<Rightarrow> (case ?do g of Some (Inr ts) \<Rightarrow> True | _ \<Rightarrow> False)" by code_simp
  then obtain g where g: "link_targets example_link_table = Inr g" by (cases "link_targets example_link_table") auto
  with c obtain ts where ts: "?do g = Some (Inr ts)" by (cases "?do g") (auto split: sum.splits)
  have h: "wf_dict example_link_table" "typed_table example_link_table" by code_simp+
  then have "passed_table (dkeys example_link_table) example_link_table" by (simp add: passed_table_def)
  from DoDependentSettings_merges[OF g h(1) this, of id "SetGeneratorGlobals plain_generator" "''link_settings''" "[''a:app#t'']"] ts
  have "\<exists>u d sources d'. DoDependentSettings id (SetGeneratorGlobals plain_generator) ''link_settings'' [] example_link_table g
        = Some (Inr u) \<and> dget u ''a:app#t'' = Some d
      \<and> set sources = settings_sources ''link_settings'' example_link_table u ''a:app#t''
      \<and> merge_all_settings id (SetGeneratorGlobals plain_generator) ''link_settings'' ''a:app#t'' u sources d = Inr d'
      \<and> dget ts ''a:app#t'' = Some d'"
    by (auto simp: Cons_eq_append_conv)
  with g ts show ?thesis by (auto simp: DoDependentSettings_def)
qed

section \<open>Static libraries: theorems\<close>

text \<open>What decides whether a dependency of a static library stays: its type and whether it is hard.
  The pass rewrites dependency lists only, so these stay as they are.\<close>

definition lib_kind :: "pydict \<Rightarrow> pyval option \<times> bool" where
  "lib_kind d = (dget d ''type'', truthy (dget_default d ''hard_dependency'' (PInt 0)))"

definition same_kinds :: "target_table \<Rightarrow> target_table \<Rightarrow> bool" where
  "same_kinds u v \<longleftrightarrow> (\<forall>x. map_option lib_kind (dget u x) = map_option lib_kind (dget v x))"

definition may_keep :: "target_table \<Rightarrow> pyval \<Rightarrow> pyval \<Rightarrow> bool" where
  "may_keep targets ds d \<longleftrightarrow>
     (\<exists>dd. target_at targets d = Inr dd
       \<and> (if dget dd ''type'' = Some (PStr ''static_library'')
          then truthy (dget_default dd ''hard_dependency'' (PInt 0))
          else value_in d ds = Inr True))"

text \<open>A static library after the pass, given its dictionary before.\<close>

definition static_adjusted :: "target_table \<Rightarrow> pydict \<Rightarrow> pydict \<Rightarrow> bool" where
  "static_adjusted targets td td' \<longleftrightarrow>
     (\<exists>ds. dget td ''dependencies'' = Some ds \<and> dget td' ''dependencies_original'' = Some ds
       \<and> (\<forall>ds'. dget td' ''dependencies'' = Some ds' \<longrightarrow>
            (\<exists>l. ds' = PList l \<and> l \<noteq> [] \<and> (\<forall>d \<in> set l. may_keep targets ds d))))"

lemma target_at_kind:
  assumes "same_kinds u v" "target_at u d = Inr a"
  shows "\<exists>b. target_at v d = Inr b \<and> lib_kind b = lib_kind a"
proof (cases d)
  case (PStr s)
  with assms(2) have "dget u s = Some a" by (simp add: target_at_def)
  with assms(1) have "map_option lib_kind (dget v s) = Some (lib_kind a)"
    by (metis (no_types) same_kinds_def option.simps(9))
  with PStr show ?thesis by (auto simp: target_at_def)
qed (use assms(2) in \<open>auto simp: target_at_def\<close>)

lemma may_keep_kind:
  assumes "same_kinds u v" "may_keep u ds d"
  shows "may_keep v ds d"
proof -
  from assms(2) obtain a where a: "target_at u d = Inr a"
    "if dget a ''type'' = Some (PStr ''static_library'')
     then truthy (dget_default a ''hard_dependency'' (PInt 0)) else value_in d ds = Inr True"
    by (auto simp: may_keep_def)
  from target_at_kind[OF assms(1) a(1)] obtain b where "target_at v d = Inr b" "lib_kind b = lib_kind a" by blast
  with a(2) show ?thesis unfolding may_keep_def by (intro exI[of _ b]) (simp add: lib_kind_def)
qed

lemma static_adjusted_kind:
  assumes "same_kinds u v" "static_adjusted u td td'"
  shows "static_adjusted v td td'"
proof -
  from assms(2) obtain ds where ds: "dget td ''dependencies'' = Some ds"
    "dget td' ''dependencies_original'' = Some ds"
    and k: "\<And>ds'. dget td' ''dependencies'' = Some ds' \<Longrightarrow>
      \<exists>l. ds' = PList l \<and> l \<noteq> [] \<and> (\<forall>d \<in> set l. may_keep u ds d)"
    unfolding static_adjusted_def by blast
  have "\<exists>l. ds' = PList l \<and> l \<noteq> [] \<and> (\<forall>d \<in> set l. may_keep v ds d)"
    if "dget td' ''dependencies'' = Some ds'" for ds'
  proof -
    from k[OF that] obtain l where "ds' = PList l" "l \<noteq> []" "\<forall>d \<in> set l. may_keep u ds d" by blast
    then show ?thesis using may_keep_kind[OF assms(1)] by (intro exI[of _ l]) simp
  qed
  with ds show ?thesis unfolding static_adjusted_def by blast
qed

lemma lib_kind_dset: "k \<noteq> ''type'' \<Longrightarrow> k \<noteq> ''hard_dependency'' \<Longrightarrow> lib_kind (dset k v d) = lib_kind d"
  by (simp add: lib_kind_def dget_default_def)

lemma same_kinds_dset:
  "dget targets t = Some d \<Longrightarrow> lib_kind d' = lib_kind d \<Longrightarrow> same_kinds (dset t d' targets) targets"
  by (simp add: same_kinds_def)

lemma slice_all_id: "slice_all v = Inr w \<Longrightarrow> w = v"
  by (auto simp: slice_all_def split: pyval.splits)

lemma drops_dependency_kept:
  assumes "drops_dependency targets td d = Inr False" "dget td ''dependencies'' = Some ds"
  shows "may_keep targets ds d"
proof -
  from assms(1) obtain dd ty where dd: "target_at targets d = Inr dd" "dget dd ''type'' = Some ty"
    and r: "(if ty = PStr ''static_library''
        then Inr (\<not> truthy (dget_default dd ''hard_dependency'' (PInt 0)))
        else rbind (dlookup td ''dependencies'') (\<lambda>ds. rbind (value_in d ds) (\<lambda>b. Inr (\<not> b)))) = Inr False"
    unfolding drops_dependency_def by auto
  show ?thesis
  proof (cases "ty = PStr ''static_library''")
    case True
    with r dd show ?thesis by (simp add: may_keep_def)
  next
    case False
    with r assms(2) have "value_in d ds = Inr True" by auto
    with False dd show ?thesis by (simp add: may_keep_def)
  qed
qed

lemma adjust_static_spec:
  assumes r: "adjust_static targets g t td = Some (Inr td')" and t: "dget targets t = Some td"
    and has: "dhas td ''dependencies''"
  shows "lib_kind td' = lib_kind td \<and> static_adjusted targets td td'"
proof -
  from has obtain ds where ds: "dget td ''dependencies'' = Some ds" by (auto simp: dhas_def)
  define u where "u = dset ''dependencies_original'' ds td"
  define ts where "ts = dset t u targets"
  from r has ds obtain deps marks where
    m: "rmap (\<lambda>d. rbind (drops_dependency ts u d) (\<lambda>b. Inr (d, b))) deps = Inr marks"
    and td': "td' = (let kept = map fst (filter (\<lambda>m. \<not> snd m) marks)
        in if kept \<noteq> [] then dset ''dependencies'' (PList kept) u else ddel ''dependencies'' u)"
    by (auto simp: adjust_static_def Let_def dget_default_def u_def ts_def dest: slice_all_id)
  let ?kept = "map fst (filter (\<lambda>m. \<not> snd m) marks)"
  have kind: "lib_kind u = lib_kind td" by (simp add: u_def lib_kind_dset)
  have "may_keep targets ds d" if "d \<in> set ?kept" for d
  proof -
    from that have "(d, False) \<in> set marks" by auto
    with rmap_member[OF m] have "drops_dependency ts u d = Inr False" by auto
    moreover have "dget u ''dependencies'' = Some ds" by (simp add: u_def ds)
    ultimately have "may_keep ts ds d" by (rule drops_dependency_kept)
    moreover have "same_kinds ts targets" unfolding ts_def by (rule same_kinds_dset[OF t kind])
    ultimately show ?thesis by (blast intro: may_keep_kind)
  qed
  moreover have "dget td' ''dependencies_original'' = Some ds"
    by (simp add: td' Let_def u_def)
  moreover have "dget td' ''dependencies'' = (if ?kept \<noteq> [] then Some (PList ?kept) else None)"
    by (simp add: td' Let_def)
  ultimately have "static_adjusted targets td td'"
    unfolding static_adjusted_def using ds by (intro exI[of _ ds]) (simp split: if_splits)
  moreover have "lib_kind td' = lib_kind td"
    using kind by (simp add: td' Let_def lib_kind_def dget_default_def)
  ultimately show ?thesis by blast
qed

lemma adjust_linkable_kind:
  assumes "adjust_linkable srt flat_list targets g t td = Some (Inr td')"
  shows "lib_kind td' = lib_kind td"
proof -
  from assms obtain ds td1 where 1: "rfold (link_against t) ds td = Inr td1"
    and 2: "sort_link_dependencies srt flat_list td1 = Inr td'"
    by (auto simp: adjust_linkable_def)
  from 1 have "lib_kind td1 = lib_kind td"
  proof (rule rfold_invariant[where P = "\<lambda>d. lib_kind d = lib_kind td"])
    fix x u v assume "lib_kind u = lib_kind td" "link_against t x u = Inr v"
    then show "lib_kind v = lib_kind td"
      by (auto simp: link_against_def Let_def lib_kind_dset split: if_splits)
  qed simp
  moreover have "lib_kind td' = lib_kind td1"
    using 2 by (auto simp: sort_link_dependencies_def lib_kind_dset split: option.splits if_splits)
  ultimately show ?thesis by simp
qed

lemma adjust_target_spec:
  assumes "adjust_target srt flat_list g t u = Some (Inr v)"
  shows "same_kinds v u \<and> (\<forall>x. x \<noteq> t \<longrightarrow> dget v x = dget u x)
    \<and> (\<forall>td. dget u t = Some td \<and> dget td ''type'' = Some (PStr ''static_library'')
          \<and> dhas td ''dependencies'' \<longrightarrow>
        (\<exists>td'. dget v t = Some td' \<and> static_adjusted u td td'))"
proof -
  from assms obtain td ty where td: "dget u t = Some td" "dget td ''type'' = Some ty"
    by (auto simp: adjust_target_def)
  consider (static) td' where "ty = PStr ''static_library''"
      "adjust_static u g t td = Some (Inr td')" "v = dset t td' u"
    | (link) td' where "ty \<noteq> PStr ''static_library''"
      "adjust_linkable srt flat_list u g t td = Some (Inr td')" "v = dset t td' u"
    | (other) "ty \<noteq> PStr ''static_library''" "v = u"
  proof -
    let ?static = "ty = PStr ''static_library''" and ?link = "ty \<in> PStr ` set linkable_types"
    have "adjust_target srt flat_list g t u =
        (if ?static then obind (adjust_static u g t td) (\<lambda>td. Some (Inr (dset t td u)))
         else if ?link then obind (adjust_linkable srt flat_list u g t td) (\<lambda>td. Some (Inr (dset t td u)))
         else Some (Inr u))"
    proof -
      have l: "dlookup u t = Inr td" "dlookup td ''type'' = Inr ty" using td by simp_all
      show ?thesis unfolding adjust_target_def l obind_simps by (rule refl)
    qed
    note r = this[unfolded assms]
    show thesis
    proof (cases ?static)
      case True
      from r[symmetric, unfolded if_P[OF True] obind_Some_Inr] that(1)[OF True] show thesis by blast
    next
      case False
      note r' = r[symmetric, unfolded if_not_P[OF False]]
      show thesis
      proof (cases ?link)
        case True
        from r'[unfolded if_P[OF True] obind_Some_Inr] that(2)[OF False] show thesis by blast
      next
        case no_link: False
        from r'[unfolded if_not_P[OF no_link]] have "v = u" by simp
        with that(3)[OF False] show thesis .
      qed
    qed
  qed
  then show ?thesis
  proof cases
    case static
    have kind: "lib_kind td' = lib_kind td"
    proof (cases "dhas td ''dependencies''")
      case True
      from adjust_static_spec[OF static(2) td(1) this] show ?thesis ..
    qed (use static(2) in \<open>simp add: adjust_static_def\<close>)
    have "same_kinds v u" unfolding static(3) by (rule same_kinds_dset[OF td(1) kind])
    then show ?thesis using static td adjust_static_spec[OF static(2) td(1)] by simp
  next
    case link
    have "same_kinds v u" unfolding link(3)
      by (rule same_kinds_dset[OF td(1) adjust_linkable_kind[OF link(2)]])
    then show ?thesis using link td by simp
  next
    case other
    then show ?thesis using td by (simp add: same_kinds_def)
  qed
qed

lemma adjust_targets_frame:
  assumes "ofold (adjust_target srt flat_list g) xs u = Some (Inr v)"
  shows "same_kinds v u \<and> (\<forall>x. x \<notin> set xs \<longrightarrow> dget v x = dget u x)"
  using assms
proof (rule ofold_invariant[where P = "\<lambda>v. same_kinds v u \<and> (\<forall>x. x \<notin> set xs \<longrightarrow> dget v x = dget u x)"])
  fix x a b
  assume x: "x \<in> set xs" and a: "same_kinds a u \<and> (\<forall>x. x \<notin> set xs \<longrightarrow> dget a x = dget u x)"
    and "adjust_target srt flat_list g x a = Some (Inr b)"
  from adjust_target_spec[OF this(3)] have "same_kinds b a" "\<forall>y. y \<noteq> x \<longrightarrow> dget b y = dget a y" by blast+
  with a x show "same_kinds b u \<and> (\<forall>x. x \<notin> set xs \<longrightarrow> dget b x = dget u x)"
    unfolding same_kinds_def by (metis (no_types))
qed (simp add: same_kinds_def)

text \<open>C18.  After \<open>AdjustStaticLibraryDependencies\<close> no static library of the list depends on a soft
  static library, or on anything else that it did not name itself: each keeps its old list under
  \<open>dependencies_original\<close>, and what is left under \<open>dependencies\<close> (never an empty list) is either a
  hard static library or a target of another type from the old list.\<close>

theorem AdjustStaticLibraryDependencies_static:
  assumes "AdjustStaticLibraryDependencies flat_list targets g srt = Some (Inr ts)"
    and "distinct flat_list" "t \<in> set flat_list"
    and "dget targets t = Some td" "dget td ''type'' = Some (PStr ''static_library'')"
    and "dget td ''dependencies'' = Some ds"
  shows "\<exists>td'. dget ts t = Some td' \<and> dget td' ''dependencies_original'' = Some ds
    \<and> (\<forall>ds'. dget td' ''dependencies'' = Some ds' \<longrightarrow>
          (\<exists>l. ds' = PList l \<and> l \<noteq> [] \<and> (\<forall>d \<in> set l. may_keep targets ds d)))"
proof -
  let ?f = "adjust_target srt flat_list g"
  from assms(3) obtain xs ys where split: "flat_list = xs @ t # ys" by (meson split_list)
  have "\<exists>u v. ofold ?f xs targets = Some (Inr u) \<and> ?f t u = Some (Inr v) \<and> ofold ?f ys v = Some (Inr ts)"
    using assms(1) unfolding AdjustStaticLibraryDependencies_def
    by (subst (asm) (2) split) (auto simp: ofold_append)
  then obtain u v where r: "ofold ?f xs targets = Some (Inr u)" "?f t u = Some (Inr v)"
    "ofold ?f ys v = Some (Inr ts)" by blast
  have notin: "t \<notin> set xs" "t \<notin> set ys" using assms(2) split by auto
  have u: "same_kinds u targets" "dget u t = Some td"
    using adjust_targets_frame[OF r(1)] notin(1) assms(4) by simp_all
  have "dhas td ''dependencies''" using assms(6) by (simp add: dhas_def)
  with adjust_target_spec[OF r(2)] u(2) assms(5) obtain td' where
    v: "dget v t = Some td'" "static_adjusted u td td'" by blast
  have "dget ts t = Some td'" using adjust_targets_frame[OF r(3)] notin(2) v(1) by simp
  with static_adjusted_kind[OF u(1) v(2)] assms(6) show ?thesis
    by (auto simp: static_adjusted_def)
qed
definition example_static_table :: target_table where
  "example_static_table =
     [(''a:one#t'', [(''type'', PStr ''static_library''),
        (''dependencies'', PList [PStr ''a:two#t'', PStr ''a:gen#t''])]),
      (''a:two#t'', [(''type'', PStr ''static_library'')]),
      (''a:gen#t'', [(''type'', PStr ''none'')])]"

theorem AdjustStaticLibraryDependencies_static_witness:
  "\<exists>g ts td'. link_targets example_static_table = Inr g
    \<and> AdjustStaticLibraryDependencies [''a:one#t''] example_static_table g True = Some (Inr ts)
    \<and> dget ts ''a:one#t'' = Some td'
    \<and> dget td' ''dependencies_original'' = Some (PList [PStr ''a:two#t'', PStr ''a:gen#t''])"
proof -
  let ?t = example_static_table
  have c: "case link_targets ?t of Inl e \<Rightarrow> False | Inr g \<Rightarrow>
      (case AdjustStaticLibraryDependencies [''a:one#t''] ?t g True of Some (Inr ts) \<Rightarrow> True | _ \<Rightarrow> False)"
    by code_simp
  then obtain g where g: "link_targets ?t = Inr g" by (cases "link_targets ?t") simp_all
  with c obtain r where r: "AdjustStaticLibraryDependencies [''a:one#t''] ?t g True = Some r"
    "case r of Inl e \<Rightarrow> False | Inr ts \<Rightarrow> True" by (auto split: option.splits)
  then obtain ts where ts: "AdjustStaticLibraryDependencies [''a:one#t''] ?t g True = Some (Inr ts)"
    by (cases r) simp_all
  let ?td = "the (dget ?t ''a:one#t'')"
  have td: "dget ?t ''a:one#t'' = Some ?td" "dget ?td ''type'' = Some (PStr ''static_library'')"
    "dget ?td ''dependencies'' = Some (PList [PStr ''a:two#t'', PStr ''a:gen#t''])"
    "distinct [''a:one#t'']" "''a:one#t'' \<in> set [''a:one#t'']"
    by (simp_all add: example_static_table_def)
  from AdjustStaticLibraryDependencies_static[OF ts td(4,5,1-3)] g ts show ?thesis by blast
qed

end
