(* ===== verification/Gyp_Validate.thy ===== *)
theory Gyp_Validate
  imports Gyp_Link
begin

text \<open>
  The checks that \<open>Load\<close> runs on the finished target table, and its last transformations
  (\<open>tools/gyp/pylib/gyp/input.py\<close>): target types, basenames of library sources, rules, \<open>run_as\<close>
  and actions of a target, integers turned into strings, targets that are not wanted pruned, and
  colliding target names.  A check returns the unit value or raises; what
  \<open>ValidateSourcesInTarget\<close> prints before it raises is \<open>basename_report\<close>.
\<close>

section \<open>Target types\<close>

definition VALID_TARGET_TYPES :: "string list" where
  "VALID_TARGET_TYPES = [''executable'', ''loadable_module'', ''static_library'', ''shared_library'',
     ''none'']"

definition ValidateTargetType :: "string \<Rightarrow> pydict \<Rightarrow> unit res" where
  "ValidateTargetType target target_dict =
     (let target_type = dget_default target_dict ''type'' PNone
      in if target_type \<notin> PStr ` set VALID_TARGET_TYPES
         then Inl (GypError (''Target '' @ target @ '' has an invalid target type '' @ [CHR 0x27]
                @ py_str target_type @ [CHR 0x27] @ ''.  Must be one of ''
                @ join_str ''/'' VALID_TARGET_TYPES @ ''.''))
         else if truthy (dget_default target_dict ''standalone_static_library'' (PInt 0))
                 \<and> target_type \<noteq> PStr ''static_library''
         then Inl (GypError (''Target '' @ target @ '' has type '' @ py_str target_type
                @ '' but standalone_static_library flag is only valid for static_library type.''))
         else Inr ())"

section \<open>Basenames of library sources\<close>

definition compiled_extensions :: "string list" where
  "compiled_extensions = [''.c'', ''.cc'', ''.cpp'', ''.cxx'', ''.m'', ''.mm'', ''.s'', ''.S'']"

type_synonym basename_table = "(string \<times> string list) list"

definition add_basename :: "pyval \<Rightarrow> basename_table \<Rightarrow> basename_table res" where
  "add_basename source basenames =
     rbind (as_str ''rfind'' source) (\<lambda>s.
       case splitext s of
         (name, ext) \<Rightarrow>
           if ext \<notin> set compiled_extensions then Inr basenames
           else Inr (dset (basename name) (dget_default basenames (basename name) [] @ [s]) basenames))"

definition basename_report :: "basename_table \<Rightarrow> string" where
  "basename_report basenames =
     concat (map (\<lambda>(b, files).
         if 1 < length files then ''  '' @ b @ '': '' @ join_str '' '' files @ [CHR 0x0A] else []) basenames)"

definition ValidateSourcesInTarget :: "string \<Rightarrow> pydict \<Rightarrow> string \<Rightarrow> unit res" where
  "ValidateSourcesInTarget target target_dict build_file =
     (if dget_default target_dict ''type'' PNone
           \<notin> {PStr ''static_library'', PStr ''shared_library''}
      then Inr ()
      else
        rbind (py_iter (dget_default target_dict ''sources'' (PList []))) (\<lambda>sources.
        rbind (rfold add_basename sources []) (\<lambda>basenames.
          if basename_report basenames \<noteq> []
          then Inl (GypError ''Duplicate basenames in sources section, see list above'')
          else Inr ())))"

section \<open>Rules\<close>

definition strip_dot :: "string \<Rightarrow> string" where
  "strip_dot e = (if prefix ''.'' e then tl e else e)"

definition add_rule_source :: "string \<Rightarrow> pyval \<Rightarrow> pyval list \<Rightarrow> pyval list res" where
  "add_rule_source rule_extension source rule_sources =
     rbind (as_str ''rfind'' source) (\<lambda>s.
       Inr (if strip_dot (snd (splitext s)) = rule_extension then rule_sources @ [source]
            else rule_sources))"

definition rule_sources_of :: "pydict \<Rightarrow> string list \<Rightarrow> string \<Rightarrow> pyval list res" where
  "rule_sources_of target_dict extra_sources_for_rules rule_extension =
     rfold (\<lambda>source_key rule_sources.
              rbind (py_iter (dget_default target_dict source_key (PList []))) (\<lambda>sources.
                rfold (add_rule_source rule_extension) sources rule_sources))
       (''sources'' # extra_sources_for_rules) []"

text \<open>The two dictionaries of the loop, and the rules seen so far.\<close>

record rule_state =
  rule_names :: "pyval list"
  rule_extensions :: "(string \<times> pydict) list"
  rules_done :: "pyval list"

definition validate_rule :: "string \<Rightarrow> pydict \<Rightarrow> string list \<Rightarrow> pyval \<Rightarrow> rule_state \<Rightarrow> rule_state res" where
  "validate_rule target target_dict extra_sources_for_rules rule st =
     rbind (py_getitem rule (PStr ''rule_name'')) (\<lambda>rule_name.
     if \<not> hashable rule_name then Inl (TypeError (''unhashable type: '' @ class_name rule_name))
     else if rule_name \<in> set (rule_names st)
     then Inl (GypError (''rule '' @ py_str rule_name @ '' exists in duplicate, target '' @ target))
     else
       rbind (py_getitem rule (PStr ''extension'')) (\<lambda>extension.
       rbind (as_str ''startswith'' extension) (\<lambda>extension.
       rbind (as_dict ''get'' rule) (\<lambda>rule_dict.
       let rule_extension = strip_dot extension in
         case dget (rule_extensions st) rule_extension of
           Some other \<Rightarrow>
             rbind (dlookup other ''rule_name'') (\<lambda>other_name.
               Inl (GypError (''extension '' @ rule_extension @ '' associated with multiple rules, target ''
                 @ target @ '' rules '' @ py_str other_name @ '' and '' @ py_str rule_name)))
         | None \<Rightarrow>
             if dhas rule_dict ''rule_sources''
             then Inl (GypError (''rule_sources must not exist in input, target '' @ target
                    @ '' rule '' @ py_str rule_name))
             else
               rbind (rule_sources_of target_dict extra_sources_for_rules rule_extension) (\<lambda>rule_sources.
                 let rule' = (if rule_sources \<noteq> []
                              then dset ''rule_sources'' (PList rule_sources) rule_dict else rule_dict)
                 in Inr (st\<lparr> rule_names := rule_names st @ [rule_name],
                             rule_extensions := dset rule_extension rule_dict (rule_extensions st),
                             rules_done := rules_done st @ [PDict rule'] \<rparr>))))))"

definition ValidateRulesInTarget :: "string \<Rightarrow> pydict \<Rightarrow> string list \<Rightarrow> pydict res" where
  "ValidateRulesInTarget target target_dict extra_sources_for_rules =
     rbind (py_iter (dget_default target_dict ''rules'' (PList []))) (\<lambda>rules.
     rbind (rfold (validate_rule target target_dict extra_sources_for_rules) rules
              \<lparr> rule_names = [], rule_extensions = [], rules_done = [] \<rparr>) (\<lambda>st.
       Inr (if dhas target_dict ''rules'' \<and> rules \<noteq> []
            then dset ''rules'' (PList (rules_done st)) target_dict else target_dict)))"

section \<open>\<open>run_as\<close> and actions\<close>

definition ValidateRunAsInTarget :: "string \<Rightarrow> pydict \<Rightarrow> string \<Rightarrow> unit res" where
  "ValidateRunAsInTarget target target_dict build_file =
     (let target_name = py_str (dget_default target_dict ''target_name'' PNone);
          run_as = dget_default target_dict ''run_as'' PNone;
          where_from = '' in target '' @ target_name @ '' from file '' @ build_file;
          where_in = '' in target '' @ target_name @ '' in file '' @ build_file;
          quoted = (\<lambda>s. [CHR 0x27] @ s @ [CHR 0x27])
      in if \<not> truthy run_as then Inr ()
         else
           case run_as of
             PDict d \<Rightarrow>
               (let action = dget_default d ''action'' PNone;
                    working_directory = dget_default d ''working_directory'' PNone;
                    environment = dget_default d ''environment'' PNone
                in if \<not> truthy action
                   then Inl (GypError (''The '' @ quoted ''run_as'' @ where_from @ '' must have an ''
                          @ quoted ''action'' @ '' section.''))
                   else if class_name action \<noteq> ''list''
                   then Inl (GypError (''The '' @ quoted ''action'' @ '' for '' @ quoted ''run_as''
                          @ where_from @ '' must be a list.''))
                   else if truthy working_directory \<and> class_name working_directory \<noteq> ''str''
                   then Inl (GypError (''The '' @ quoted ''working_directory'' @ '' for ''
                          @ quoted ''run_as'' @ where_in @ '' should be a string.''))
                   else if truthy environment \<and> class_name environment \<noteq> ''dict''
                   then Inl (GypError (''The '' @ quoted ''environment'' @ '' for ''
                          @ quoted ''run_as'' @ where_in @ '' should be a dictionary.''))
                   else Inr ())
           | _ \<Rightarrow> Inl (GypError (''The '' @ quoted ''run_as'' @ where_from @ '' should be a dictionary.'')))"

definition validate_action :: "string \<Rightarrow> pyval \<Rightarrow> unit res" where
  "validate_action target_name action =
     rbind (py_get action ''action_name'' PNone) (\<lambda>action_name.
     if \<not> truthy action_name
     then Inl (GypError (''Anonymous action in target '' @ target_name
            @ ''.  An action must have an '' @ [CHR 0x27] @ ''action_name'' @ [CHR 0x27] @ '' field.''))
     else
       rbind (py_get action ''inputs'' PNone) (\<lambda>inputs.
       if inputs = PNone
       then Inl (GypError (''Action in target '' @ target_name @ '' has no inputs.''))
       else
         rbind (py_get action ''action'' PNone) (\<lambda>action_command.
         if \<not> truthy action_command then Inr ()
         else
           rbind (py_getitem action_command (PInt 0)) (\<lambda>first.
             if truthy first then Inr ()
             else Inl (GypError (''Empty action as command in target '' @ target_name @ ''.''))))))"

definition ValidateActionsInTarget :: "string \<Rightarrow> pydict \<Rightarrow> string \<Rightarrow> unit res" where
  "ValidateActionsInTarget target target_dict build_file =
     (let target_name = py_str (dget_default target_dict ''target_name'' PNone)
      in rbind (py_iter (dget_default target_dict ''actions'' (PList []))) (\<lambda>actions.
           rfold (\<lambda>action _. validate_action target_name action) actions ()))"

section \<open>Integers into strings\<close>

fun TurnIntIntoStrInDict :: "pydict \<Rightarrow> pydict"
  and TurnIntIntoStrInList :: "pyval list \<Rightarrow> pyval list"
  and turn_item :: "pyval \<Rightarrow> pyval" where
  "TurnIntIntoStrInDict [] = []"
| "TurnIntIntoStrInDict ((k, v) # d) = (k, turn_item v) # TurnIntIntoStrInDict d"
| "TurnIntIntoStrInList [] = []"
| "TurnIntIntoStrInList (v # l) = turn_item v # TurnIntIntoStrInList l"
| "turn_item (PInt i) = PStr (str_of_int i)"
| "turn_item (PDict d) = PDict (TurnIntIntoStrInDict d)"
| "turn_item (PList l) = PList (TurnIntIntoStrInList l)"
| "turn_item (PStr s) = PStr s"
| "turn_item PNone = PNone"

section \<open>Pruning\<close>

definition qualified_roots :: "string list \<Rightarrow> string list \<Rightarrow> string list res" where
  "qualified_roots flat_list root_targets =
     rfold (\<lambda>target found.
              let qualified_targets = FindQualifiedTargets (strip target) flat_list
              in if qualified_targets = []
                 then Inl (GypError (''Could not find target '' @ strip target))
                 else Inr (found @ qualified_targets))
       root_targets []"

definition want_target :: "target_table \<Rightarrow> string \<Rightarrow> target_table \<Rightarrow> target_table res" where
  "want_target targets t wanted = rbind (dlookup targets t) (\<lambda>d. Inr (dset t d wanted))"

definition want_with_dependencies :: "target_table \<Rightarrow> dep_graph \<Rightarrow> string \<Rightarrow> target_table
    \<Rightarrow> target_table comp" where
  "want_with_dependencies targets g t wanted =
     obind (Some (want_target targets t wanted)) (\<lambda>wanted.
       case DeepDependencies g (Some t) of
         None \<Rightarrow> None
       | Some ds \<Rightarrow> Some (rfold (want_target targets) ds wanted))"

definition keep_wanted :: "target_table \<Rightarrow> string \<Rightarrow> pyval \<Rightarrow> pyval list \<Rightarrow> pyval list res" where
  "keep_wanted wanted build_file target new_targets =
     rbind (py_getitem target (PStr ''target_name'')) (\<lambda>name.
     rbind (py_getitem target (PStr ''toolset'')) (\<lambda>toolset.
     rbind (qualified_name build_file name toolset) (\<lambda>qualified_name.
       Inr (if dhas wanted qualified_name then new_targets @ [target] else new_targets))))"

definition prune_build_file :: "target_table \<Rightarrow> pyval \<Rightarrow> pydict \<Rightarrow> pydict res" where
  "prune_build_file wanted build_file data =
     rbind (py_getitem (PDict data) build_file) (\<lambda>file_data.
     rbind (py_contains file_data ''targets'') (\<lambda>has.
       if \<not> has then Inr data
       else
         rbind (py_getitem file_data (PStr ''targets'')) (\<lambda>ts.
         rbind (py_iter ts) (\<lambda>l.
         rbind (need_str build_file) (\<lambda>bf.
         rbind (rfold (keep_wanted wanted bf) l []) (\<lambda>new_targets.
         rbind (as_dict ''__setitem__'' file_data) (\<lambda>fd.
           Inr (dset bf (PDict (dset ''targets'' (PList new_targets) fd)) data))))))))"

definition PruneUnwantedTargets :: "target_table \<Rightarrow> string list \<Rightarrow> dep_graph \<Rightarrow> string list \<Rightarrow> pydict
    \<Rightarrow> (target_table \<times> string list \<times> pydict) comp" where
  "PruneUnwantedTargets targets flat_list g root_targets data =
     obind (Some (qualified_roots flat_list root_targets)) (\<lambda>roots.
     obind (ofold (want_with_dependencies targets g) roots []) (\<lambda>wanted.
       Some (rbind (dlookup data ''target_build_files'') (\<lambda>files.
             rbind (py_iter files) (\<lambda>files.
             rbind (rfold (prune_build_file wanted) files data) (\<lambda>data'.
               Inr (wanted, filter (dhas wanted) flat_list, data')))))))"

section \<open>Colliding names\<close>

definition collision_key :: "string \<Rightarrow> (string \<times> string \<times> string \<times> string) res" where
  "collision_key target =
     (case rsplit1 CHR '':'' target of
        None \<Rightarrow> Inl (ValueError ''need more than 1 value to unpack'')
      | Some (path, name) \<Rightarrow>
          let (subdir, gyp) = path_split path;
              subdir' = (if subdir = [] then ''.'' else subdir)
          in Inr (subdir' @ '':'' @ name, name, subdir', gyp))"

definition use_name :: "string \<Rightarrow> (string \<times> string) list \<Rightarrow> (string \<times> string) list res" where
  "use_name target used =
     rbind (collision_key target) (\<lambda>(key, name, subdir, gyp).
       case dget used key of
         Some other \<Rightarrow>
           Inl (GypError (''Duplicate target name '' @ [CHR 0x22] @ name @ [CHR 0x22] @ '' in directory ''
             @ [CHR 0x22] @ subdir @ [CHR 0x22] @ '' used both in '' @ [CHR 0x22] @ gyp @ [CHR 0x22]
             @ '' and '' @ [CHR 0x22] @ other @ [CHR 0x22] @ ''.''))
       | None \<Rightarrow> Inr (dset key gyp used))"

definition VerifyNoCollidingTargets :: "string list \<Rightarrow> unit res" where
  "VerifyNoCollidingTargets targets = rbind (rfold use_name targets []) (\<lambda>used. Inr ())"
section \<open>Basenames: theorems\<close>

text \<open>The compiled files among the sources, and the basename of a source.\<close>

definition compiled_sources :: "string list \<Rightarrow> string list" where
  "compiled_sources = filter (\<lambda>s. snd (splitext s) \<in> set compiled_extensions)"

definition source_base :: "string \<Rightarrow> string" where
  "source_base s = basename (fst (splitext s))"

lemma add_basename_str:
  "add_basename (PStr s) t =
    Inr (if snd (splitext s) \<in> set compiled_extensions
         then dset (source_base s) (dget_default t (source_base s) [] @ [s]) t else t)"
  by (auto simp: add_basename_def source_base_def split: prod.split)

definition grouped :: "basename_table \<Rightarrow> string list \<Rightarrow> bool" where
  "grouped t ss \<longleftrightarrow> wf_dict t
     \<and> (\<forall>b. dget_default t b [] = filter (\<lambda>s. source_base s = b) ss)"

lemma basenames_grouped:
  "grouped t pre \<Longrightarrow> \<exists>t'. rfold add_basename (map PStr ss) t = Inr t'
     \<and> grouped t' (pre @ compiled_sources ss)"
proof (induction ss arbitrary: t pre)
  case (Cons s ss)
  show ?case
  proof (cases "snd (splitext s) \<in> set compiled_extensions")
    case True
    let ?t = "dset (source_base s) (dget_default t (source_base s) [] @ [s]) t"
    have "grouped ?t (pre @ [s])"
      using Cons.prems by (auto simp: grouped_def dget_default_def)
    from Cons.IH[OF this] True show ?thesis by (simp add: add_basename_str compiled_sources_def)
  next
    case False
    with Cons show ?thesis by (simp add: add_basename_str compiled_sources_def)
  qed
qed (simp add: compiled_sources_def)

lemma distinct_iff_groups: "distinct (map f xs) \<longleftrightarrow> (\<forall>b. length (filter (\<lambda>x. f x = b) xs) \<le> 1)"
proof (induction xs)
  case (Cons x xs)
  have "f x \<in> f ` set xs \<longleftrightarrow> filter (\<lambda>y. f y = f x) xs \<noteq> []" by (auto simp: filter_empty_conv intro: rev_image_eqI)
  then show ?case using Cons.IH
    by (cases "filter (\<lambda>y. f y = f x) xs = []") (auto simp: le_Suc_eq)
qed simp

lemma basename_report_Nil: "basename_report t = [] \<longleftrightarrow> (\<forall>(b, files) \<in> set t. length files \<le> 1)"
proof -
  have "basename_report t = [] \<longleftrightarrow> (\<forall>p \<in> set t. length (snd p) \<le> 1)"
    by (induction t) (auto simp: basename_report_def split: if_splits)
  then show ?thesis by (simp add: case_prod_beta)
qed

lemma report_grouped:
  assumes "grouped t ss"
  shows "basename_report t = [] \<longleftrightarrow> distinct (map source_base ss)"
proof -
  have d: "distinct (map fst t)" using assms by (simp add: grouped_def wf_dict_def)
  have g: "dget_default t b [] = filter (\<lambda>s. source_base s = b) ss" for b
    using assms by (simp add: grouped_def)
  have "(\<forall>(b, files) \<in> set t. length files \<le> 1) \<longleftrightarrow> (\<forall>b. length (dget_default t b []) \<le> 1)"
  proof
    assume l: "\<forall>(b, files) \<in> set t. length files \<le> 1"
    show "\<forall>b. length (dget_default t b []) \<le> 1"
    proof
      fix b
      show "length (dget_default t b []) \<le> 1"
        using l by (cases "dget t b") (auto simp: dget_default_def dest: map_of_SomeD)
    qed
  next
    assume l: "\<forall>b. length (dget_default t b []) \<le> 1"
    show "\<forall>(b, files) \<in> set t. length files \<le> 1"
    proof clarify
      fix b files assume "(b, files) \<in> set t"
      with d have "dget t b = Some files" by simp
      with l[rule_format, of b] show "length files \<le> 1" by (simp add: dget_default_def)
    qed
  qed
  then show ?thesis unfolding basename_report_Nil distinct_iff_groups g .
qed

text \<open>C37.  \<open>ValidateSourcesInTarget\<close> accepts a target whose sources are strings exactly when it is
  no library, or the compiled files among its sources have pairwise different basenames.\<close>

theorem ValidateSourcesInTarget_decides:
  assumes "dget target_dict ''sources'' = Some (PList (map PStr sources))"
  shows "ValidateSourcesInTarget target target_dict build_file = Inr () \<longleftrightarrow>
    dget target_dict ''type'' \<notin> {Some (PStr ''static_library''), Some (PStr ''shared_library'')}
    \<or> distinct (map source_base (compiled_sources sources))"
proof -
  have "grouped [] []" by (simp add: grouped_def wf_dict_def dget_default_def)
  from basenames_grouped[OF this, of sources] obtain t where
    t: "rfold add_basename (map PStr sources) [] = Inr t" "grouped t (compiled_sources sources)"
    by auto
  have type: "dget_default target_dict ''type'' PNone \<in> {PStr ''static_library'', PStr ''shared_library''}
      \<longleftrightarrow> dget target_dict ''type'' \<in> {Some (PStr ''static_library''), Some (PStr ''shared_library'')}"
    by (cases "dget target_dict ''type''") (simp_all add: dget_default_def)
  have src: "dget_default target_dict ''sources'' (PList []) = PList (map PStr sources)"
    using assms by (simp add: dget_default_def)
  show ?thesis
    unfolding ValidateSourcesInTarget_def src type py_iter_PList rbind_simps t(1)
    using report_grouped[OF t(2)] by simp
qed

theorem ValidateSourcesInTarget_decides_witness:
  "ValidateSourcesInTarget ''t'' [(''type'', PStr ''static_library''),
     (''sources'', PList [PStr ''a/x.c'', PStr ''b/x.cc'', PStr ''x.h''])] ''f'' \<noteq> Inr ()"
proof -
  let ?d = "[(''type'', PStr ''static_library''),
     (''sources'', PList [PStr ''a/x.c'', PStr ''b/x.cc'', PStr ''x.h''])]"
  have s: "dget ?d ''sources'' = Some (PList (map PStr [''a/x.c'', ''b/x.cc'', ''x.h'']))" by simp
  have "\<not> distinct (map source_base (compiled_sources [''a/x.c'', ''b/x.cc'', ''x.h'']))" by code_simp
  with ValidateSourcesInTarget_decides[OF s, of "''t''" "''f''"] show ?thesis by simp
qed

section \<open>Actions: theorems\<close>

text \<open>An action that passes: it is named, it lists inputs, and its command, if it has one, does
  not start with an empty element.\<close>

definition good_action :: "pyval \<Rightarrow> bool" where
  "good_action action \<longleftrightarrow>
     (\<exists>d. action = PDict d \<and> truthy (dget_default d ''action_name'' PNone)
       \<and> dget_default d ''inputs'' PNone \<noteq> PNone
       \<and> (truthy (dget_default d ''action'' PNone) \<longrightarrow>
            (\<exists>first. py_getitem (dget_default d ''action'' PNone) (PInt 0) = Inr first \<and> truthy first)))"

lemma validate_action_good: "validate_action target_name action = Inr () \<longleftrightarrow> good_action action"
proof (cases action)
  case (PDict d)
  let ?a = "dget_default d ''action'' PNone"
  have get: "py_get action k PNone = Inr (dget_default d k PNone)" for k by (simp add: PDict)
  show ?thesis
    unfolding validate_action_def get rbind_simps good_action_def
    by (cases "py_getitem ?a (PInt 0)") (auto simp: PDict)
qed (auto simp: validate_action_def good_action_def py_get_def as_dict_def)

lemma rfold_unit: "rfold (\<lambda>x _. f x) xs () = Inr () \<longleftrightarrow> (\<forall>x \<in> set xs. f x = Inr ())"
  by (induction xs) auto

text \<open>\<open>ValidateActionsInTarget\<close> accepts a target exactly when every one of its actions is a
  dictionary with a name, with inputs, and with a command that does not begin with an empty
  element.\<close>

theorem ValidateActionsInTarget_decides:
  assumes "py_iter (dget_default target_dict ''actions'' (PList [])) = Inr actions"
  shows "ValidateActionsInTarget target target_dict build_file = Inr () \<longleftrightarrow>
    (\<forall>a \<in> set actions. good_action a)"
  unfolding ValidateActionsInTarget_def Let_def assms rbind_simps rfold_unit validate_action_good ..

theorem ValidateActionsInTarget_decides_witness:
  "ValidateActionsInTarget ''t'' [(''actions'', PList [PDict [(''action_name'', PStr ''gen''),
     (''inputs'', PList []), (''action'', PList [PStr ''cp''])]])] ''f'' = Inr ()"
proof -
  let ?d = "[(''actions'', PList [PDict [(''action_name'', PStr ''gen''),
     (''inputs'', PList []), (''action'', PList [PStr ''cp''])]])]"
  have i: "py_iter (dget_default ?d ''actions'' (PList [])) = Inr [PDict [(''action_name'', PStr ''gen''),
     (''inputs'', PList []), (''action'', PList [PStr ''cp''])]]" by (simp add: dget_default_def)
  have "good_action (PDict [(''action_name'', PStr ''gen''), (''inputs'', PList []),
      (''action'', PList [PStr ''cp''])])"
    by (simp add: good_action_def dget_default_def py_getitem_def list_index_def)
  with ValidateActionsInTarget_decides[OF i] show ?thesis by simp
qed

section \<open>Integers into strings: theorems\<close>

fun no_ints :: "pyval \<Rightarrow> bool" where
  "no_ints (PInt i) = False"
| "no_ints (PList l) = (\<forall>v \<in> set l. no_ints v)"
| "no_ints (PDict d) = (\<forall>kv \<in> set d. no_ints (snd kv))"
| "no_ints _ = True"

text \<open>Two values of one shape, whose leaves print the same.\<close>

fun prints_same :: "pyval \<Rightarrow> pyval \<Rightarrow> bool" where
  "prints_same (PList l) (PList m) = list_all2 prints_same l m"
| "prints_same (PDict d) (PDict e) = list_all2 (\<lambda>a b. fst a = fst b \<and> prints_same (snd a) (snd b)) d e"
| "prints_same v w = (\<not> (class_name v \<in> {''list'', ''dict''}) \<and> py_str v = py_str w)"

lemma turn_maps:
  "TurnIntIntoStrInDict d = map (\<lambda>(k, v). (k, turn_item v)) d"
  "TurnIntIntoStrInList l = map turn_item l"
proof -
  show "TurnIntIntoStrInDict d = map (\<lambda>(k, v). (k, turn_item v)) d" by (induction d) auto
  show "TurnIntIntoStrInList l = map turn_item l" by (induction l) auto
qed

lemma turn_item_type: "no_ints (turn_item v) \<and> prints_same v (turn_item v)"
proof (induction v rule: pyval.induct)
  case (PList l)
  then show ?case by (auto simp: turn_maps list_all2_conv_all_nth)
next
  case (PDict d)
  have "no_ints (turn_item v) \<and> prints_same v (turn_item v)" if "(k, v) \<in> set d" for k v
    using PDict[of "(k, v)" v] that by simp
  then show ?case
    by (auto simp: turn_maps list_all2_conv_all_nth split: prod.splits) (metis nth_mem)
qed (simp_all add: py_str_def)

text \<open>\<open>TurnIntIntoStrInDict\<close> leaves no integer at any depth; the dictionary keeps its keys, their
  order and its shape, and every leaf prints as before.\<close>

theorem TurnIntIntoStrInDict_type:
  "no_ints (PDict (TurnIntIntoStrInDict d)) \<and> prints_same (PDict d) (PDict (TurnIntIntoStrInDict d))
    \<and> dkeys (TurnIntIntoStrInDict d) = dkeys d"
  using turn_item_type[of "PDict d"] by (simp add: turn_maps case_prod_beta comp_def)
section \<open>Rules: theorems\<close>

definition has_extension :: "string \<Rightarrow> pyval \<Rightarrow> bool" where
  "has_extension e source \<longleftrightarrow> (\<exists>s. source = PStr s \<and> strip_dot (snd (splitext s)) = e)"

lemma add_rule_source_eq:
  "add_rule_source e x acc = Inr acc' \<longleftrightarrow>
    (\<exists>s. x = PStr s \<and> acc' = (if has_extension e x then acc @ [x] else acc))"
  by (auto simp: add_rule_source_def has_extension_def)

lemma rule_sources_filter:
  assumes "rule_sources_of td extra e = Inr srcs"
  shows "\<exists>ls. rmap (\<lambda>k. py_iter (dget_default td k (PList []))) (''sources'' # extra) = Inr ls
    \<and> srcs = filter (has_extension e) (concat ls)"
proof -
  have one: "acc' = acc @ filter (has_extension e) l" if "rfold (add_rule_source e) l acc = Inr acc'" for l acc acc'
    using that
  proof (induction l arbitrary: acc)
    case (Cons x l)
    then have "rfold (add_rule_source e) l (if has_extension e x then acc @ [x] else acc) = Inr acc'"
      by (auto simp: add_rule_source_eq)
    with Cons.IH show ?case by (fastforce split: if_splits)
  qed simp
  have "\<exists>ls. rmap (\<lambda>k. py_iter (dget_default td k (PList []))) ks = Inr ls
      \<and> acc' = acc @ filter (has_extension e) (concat ls)"
    if "rfold (\<lambda>k acc. rbind (py_iter (dget_default td k (PList []))) (\<lambda>l. rfold (add_rule_source e) l acc)) ks acc = Inr acc'"
    for ks acc acc'
    using that
  proof (induction ks arbitrary: acc)
    case (Cons k ks)
    then obtain l acc1 where l: "py_iter (dget_default td k (PList [])) = Inr l"
      and a: "rfold (add_rule_source e) l acc = Inr acc1"
      and r: "rfold (\<lambda>k acc. rbind (py_iter (dget_default td k (PList []))) (\<lambda>l. rfold (add_rule_source e) l acc)) ks acc1 = Inr acc'"
      by auto
    from Cons.IH[OF r] obtain ls where "rmap (\<lambda>k. py_iter (dget_default td k (PList []))) ks = Inr ls"
      "acc' = acc1 @ filter (has_extension e) (concat ls)" by blast
    with l one[OF a] show ?case by simp
  qed simp
  from this[of "''sources'' # extra" "[]" srcs] assms show ?thesis
    unfolding rule_sources_of_def by simp
qed

text \<open>A rule before and after: it was a dictionary with a name and an extension and without
  \<open>rule_sources\<close>, and now lists the sources with its extension, when there are any.\<close>

definition rule_name_of :: "pyval \<Rightarrow> pyval option" where
  "rule_name_of r = (case r of PDict d \<Rightarrow> dget d ''rule_name'' | _ \<Rightarrow> None)"

definition rule_extension_of :: "pyval \<Rightarrow> string" where
  "rule_extension_of r =
     (case r of PDict d \<Rightarrow> (case dget d ''extension'' of Some (PStr e) \<Rightarrow> strip_dot e | _ \<Rightarrow> []) | _ \<Rightarrow> [])"

definition rule_validated :: "pyval list \<Rightarrow> pyval \<Rightarrow> pyval \<Rightarrow> bool" where
  "rule_validated sources r r' \<longleftrightarrow>
     (\<exists>d. r = PDict d \<and> dhas d ''rule_name'' \<and> dhas d ''extension'' \<and> \<not> dhas d ''rule_sources''
       \<and> (let srcs = filter (has_extension (rule_extension_of r)) sources
          in r' = PDict (if srcs \<noteq> [] then dset ''rule_sources'' (PList srcs) d else d)))"

lemma validate_rule_step:
  assumes "validate_rule target td extra rule st = Inr st'"
  shows "\<exists>d n e srcs. rule = PDict d \<and> dget d ''rule_name'' = Some n \<and> n \<notin> set (rule_names st)
    \<and> dget d ''extension'' = Some (PStr e) \<and> dget (rule_extensions st) (strip_dot e) = None
    \<and> \<not> dhas d ''rule_sources'' \<and> rule_sources_of td extra (strip_dot e) = Inr srcs
    \<and> st' = \<lparr> rule_names = rule_names st @ [n],
              rule_extensions = dset (strip_dot e) d (rule_extensions st),
              rules_done = rules_done st
                @ [PDict (if srcs \<noteq> [] then dset ''rule_sources'' (PList srcs) d else d)] \<rparr>"
proof -
  from assms obtain n where n: "py_getitem rule (PStr ''rule_name'') = Inr n" "hashable n"
    "n \<notin> set (rule_names st)"
    unfolding validate_rule_def by (auto split: if_splits)
  note r1 = assms[unfolded validate_rule_def n(1) rbind_simps, unfolded if_not_P[OF n(3)]]
  from r1 n(2) obtain ev e d where e: "py_getitem rule (PStr ''extension'') = Inr ev" "ev = PStr e"
    and d: "rule = PDict d" by auto
  note r2 = r1[unfolded e d as_str_eq(2) as_dict_eq(2) rbind_simps Let_def]
  from n(1) e d have f: "dget d ''rule_name'' = Some n" "dget d ''extension'' = Some (PStr e)" by simp_all
  have free: "dget (rule_extensions st) (strip_dot e) = None"
  proof (cases "dget (rule_extensions st) (strip_dot e)")
    case (Some other)
    with r2 n(2) e d show ?thesis by simp
  qed
  have nosrc: "\<not> dhas d ''rule_sources''"
  proof
    assume "dhas d ''rule_sources''"
    with r2 n(2) e d free show False by simp
  qed
  from r2 n(2) e d free nosrc obtain srcs where
    "rule_sources_of td extra (strip_dot e) = Inr srcs"
    "st' = st\<lparr> rule_names := rule_names st @ [n],
         rule_extensions := dset (strip_dot e) d (rule_extensions st),
         rules_done := rules_done st
           @ [PDict (if srcs \<noteq> [] then dset ''rule_sources'' (PList srcs) d else d)] \<rparr>"
    by auto
  with d f n(3) free nosrc show ?thesis by (cases st) auto
qed

lemma validate_rules_loop:
  assumes "rfold (validate_rule target td extra) rules st = Inr st'"
    and "rmap (\<lambda>k. py_iter (dget_default td k (PList []))) (''sources'' # extra) = Inr ls \<or> rules = []"
  shows "\<exists>new. rules_done st' = rules_done st @ new \<and> list_all2 (rule_validated (concat ls)) rules new
    \<and> distinct (map rule_name_of rules) \<and> distinct (map rule_extension_of rules)
    \<and> (\<forall>r \<in> set rules. rule_name_of r \<notin> Some ` set (rule_names st)
         \<and> dget (rule_extensions st) (rule_extension_of r) = None)"
  using assms
proof (induction rules arbitrary: st)
  case (Cons r rules)
  from Cons.prems obtain st1 where s1: "validate_rule target td extra r st = Inr st1"
    and s2: "rfold (validate_rule target td extra) rules st1 = Inr st'" by auto
  from validate_rule_step[OF s1] obtain d n e srcs where
    d: "r = PDict d" "dget d ''rule_name'' = Some n" "n \<notin> set (rule_names st)"
      "dget d ''extension'' = Some (PStr e)" "dget (rule_extensions st) (strip_dot e) = None"
      "\<not> dhas d ''rule_sources''" "rule_sources_of td extra (strip_dot e) = Inr srcs"
    and st1: "st1 = \<lparr> rule_names = rule_names st @ [n],
              rule_extensions = dset (strip_dot e) d (rule_extensions st),
              rules_done = rules_done st
                @ [PDict (if srcs \<noteq> [] then dset ''rule_sources'' (PList srcs) d else d)] \<rparr>" by blast
  have ls: "rmap (\<lambda>k. py_iter (dget_default td k (PList []))) (''sources'' # extra) = Inr ls"
    using Cons.prems(2) by simp
  let ?r = "PDict (if srcs \<noteq> [] then dset ''rule_sources'' (PList srcs) d else d)"
  have ext: "rule_extension_of r = strip_dot e" and name: "rule_name_of r = Some n"
    using d by (simp_all add: rule_extension_of_def rule_name_of_def)
  have "srcs = filter (has_extension (strip_dot e)) (concat ls)"
    using rule_sources_filter[OF d(7)] ls by auto
  then have v: "rule_validated (concat ls) r ?r"
    unfolding rule_validated_def ext using d by (intro exI[of _ d]) (simp add: dhas_def Let_def)
  from Cons.IH[OF s2 disjI1[OF ls]] obtain new where
    new: "rules_done st' = rules_done st1 @ new" "list_all2 (rule_validated (concat ls)) rules new"
      "distinct (map rule_name_of rules)" "distinct (map rule_extension_of rules)"
    and fresh: "\<forall>x \<in> set rules. rule_name_of x \<notin> Some ` set (rule_names st1)
         \<and> dget (rule_extensions st1) (rule_extension_of x) = None" by blast
  have f1: "rule_name_of x \<noteq> rule_name_of r \<and> rule_extension_of x \<noteq> rule_extension_of r
      \<and> rule_name_of x \<notin> Some ` set (rule_names st)
      \<and> dget (rule_extensions st) (rule_extension_of x) = None" if "x \<in> set rules" for x
    using fresh[rule_format, OF that] unfolding ext name st1 by (auto split: if_splits)
  have "rule_name_of r \<notin> rule_name_of ` set rules" "rule_extension_of r \<notin> rule_extension_of ` set rules"
    using f1 by fastforce+
  moreover have "rules_done st' = rules_done st @ (?r # new)" using new(1) by (simp add: st1)
  moreover have "list_all2 (rule_validated (concat ls)) (r # rules) (?r # new)" using v new(2) by simp
  moreover have "\<forall>x \<in> set (r # rules). rule_name_of x \<notin> Some ` set (rule_names st)
      \<and> dget (rule_extensions st) (rule_extension_of x) = None"
    using f1 d ext name by auto
  ultimately show ?case using new(3,4) by (intro exI[of _ "?r # new"]) simp
qed simp

text \<open>C38.  When \<open>ValidateRulesInTarget\<close> succeeds, the rules of the target had pairwise different names
  and, leading dot aside, pairwise different extensions; each now lists under \<open>rule_sources\<close> exactly the
  sources with its extension, in order, or is unchanged when there are none; the rest of the
  target is as it was.\<close>

theorem ValidateRulesInTarget_sources:
  assumes "ValidateRulesInTarget target td extra = Inr td'"
    and "dget td ''rules'' = Some (PList rules)"
    and "rmap (\<lambda>k. py_iter (dget_default td k (PList []))) (''sources'' # extra) = Inr ls"
  shows "\<exists>rules'. dget td' ''rules'' = Some (PList rules')
    \<and> list_all2 (rule_validated (concat ls)) rules rules'
    \<and> distinct (map rule_name_of rules) \<and> distinct (map rule_extension_of rules)
    \<and> (\<forall>k. k \<noteq> ''rules'' \<longrightarrow> dget td' k = dget td k)"
proof -
  let ?st = "\<lparr> rule_names = [], rule_extensions = [], rules_done = [] \<rparr>"
  from assms(1,2) obtain st where st: "rfold (validate_rule target td extra) rules ?st = Inr st"
    and td': "td' = (if rules \<noteq> [] then dset ''rules'' (PList (rules_done st)) td else td)"
    by (auto simp: ValidateRulesInTarget_def dget_default_def dhas_def)
  from validate_rules_loop[OF st disjI1[OF assms(3)]] obtain new where
    new: "rules_done st = new" "list_all2 (rule_validated (concat ls)) rules new"
      "distinct (map rule_name_of rules)" "distinct (map rule_extension_of rules)" by auto
  have "dget td' ''rules'' = Some (PList new)"
    using td' new(1,2) assms(2) by (cases "rules = []") simp_all
  moreover have "\<forall>k. k \<noteq> ''rules'' \<longrightarrow> dget td' k = dget td k" by (simp add: td')
  ultimately show ?thesis using new by blast
qed

definition example_rules_target :: pydict where
  "example_rules_target =
     [(''sources'', PList [PStr ''a.idl'', PStr ''b.c'', PStr ''c.idl'']),
      (''rules'', PList [PDict [(''rule_name'', PStr ''idl''), (''extension'', PStr ''.idl'')],
         PDict [(''rule_name'', PStr ''y''), (''extension'', PStr ''y'')]])]"

theorem ValidateRulesInTarget_sources_witness:
  "\<exists>td' rules'. ValidateRulesInTarget ''t'' example_rules_target [] = Inr td'
    \<and> dget td' ''rules'' = Some (PList rules') \<and> length rules' = 2"
proof -
  have "map_sum id (\<lambda>_. ()) (ValidateRulesInTarget ''t'' example_rules_target []) = Inr ()" by code_simp
  then obtain td' where td': "ValidateRulesInTarget ''t'' example_rules_target [] = Inr td'"
    by (auto simp: map_sum_def split: sum.splits)
  obtain rules where rules: "dget example_rules_target ''rules'' = Some (PList rules)" "length rules = 2"
    by (simp add: example_rules_target_def)
  have ls: "rmap (\<lambda>k. py_iter (dget_default example_rules_target k (PList []))) [''sources'']
      = Inr [[PStr ''a.idl'', PStr ''b.c'', PStr ''c.idl'']]"
    by (simp add: example_rules_target_def dget_default_def)
  from ValidateRulesInTarget_sources[OF td' rules(1) ls] td' rules(2) show ?thesis
    by (metis list_all2_lengthD)
qed

section \<open>Colliding names: theorems\<close>

lemma use_name_step:
  "use_name t used = Inr used' \<longleftrightarrow>
    (\<exists>key name subdir gyp. collision_key t = Inr (key, name, subdir, gyp) \<and> dget used key = None
       \<and> used' = dset key gyp used)"
  by (auto simp: use_name_def split: option.splits)

lemma use_names:
  assumes "rmap collision_key ts = Inr keys"
  shows "(\<exists>used'. rfold use_name ts used = Inr used') \<longleftrightarrow>
    distinct (map fst keys) \<and> (\<forall>k \<in> set keys. dget used (fst k) = None)"
  using assms
proof (induction ts arbitrary: keys used)
  case (Cons t ts)
  from Cons.prems obtain key name subdir gyp ks where
    k: "collision_key t = Inr (key, name, subdir, gyp)" "rmap collision_key ts = Inr ks"
      "keys = (key, name, subdir, gyp) # ks" by auto
  show ?case
  proof (cases "dget used key")
    case None
    then have "use_name t used = Inr (dset key gyp used)" using k(1) by (simp add: use_name_step)
    then have "(\<exists>used'. rfold use_name (t # ts) used = Inr used') \<longleftrightarrow>
        distinct (map fst ks) \<and> (\<forall>k \<in> set ks. dget (dset key gyp used) (fst k) = None)"
      using Cons.IH[OF k(2)] by simp
    then show ?thesis using None k(3) by (auto split: if_splits)
  next
    case (Some other)
    then have "use_name t used \<noteq> Inr u" for u using k(1) by (simp add: use_name_step)
    then show ?thesis using Some k(3) by (auto simp: rbind_def split: sum.split)
  qed
qed simp

text \<open>\<open>VerifyNoCollidingTargets\<close> accepts a list of qualified names exactly when no two of them
  have both the same directory and the same target name.\<close>

theorem VerifyNoCollidingTargets_decides:
  assumes "rmap collision_key targets = Inr keys"
  shows "VerifyNoCollidingTargets targets = Inr () \<longleftrightarrow> distinct (map fst keys)"
  using use_names[OF assms, of "[]"] by (auto simp: VerifyNoCollidingTargets_def)

theorem VerifyNoCollidingTargets_decides_witness:
  "VerifyNoCollidingTargets [''d/a.gyp:x'', ''d/b.gyp:x''] \<noteq> Inr ()"
proof -
  have k: "rmap collision_key [''d/a.gyp:x'', ''d/b.gyp:x'']
      = Inr [(''d:x'', ''x'', ''d'', ''a.gyp''), (''d:x'', ''x'', ''d'', ''b.gyp'')]" by code_simp
  show ?thesis using VerifyNoCollidingTargets_decides[OF k] by simp
qed
section \<open>Pruning: theorems\<close>

text \<open>A table of wanted targets: the given names, each with its dictionary of the full table.\<close>

definition picks :: "target_table \<Rightarrow> string set \<Rightarrow> target_table \<Rightarrow> bool" where
  "picks targets names wanted \<longleftrightarrow>
     (\<forall>t. dget wanted t = (if t \<in> names then dget targets t else None))
     \<and> (\<forall>t \<in> names. dhas targets t)"

lemma want_target_picks:
  assumes "picks targets names wanted" "want_target targets t wanted = Inr wanted'"
  shows "picks targets (insert t names) wanted'"
  using assms by (auto simp: picks_def want_target_def dhas_def)

lemma want_targets_picks:
  assumes "picks targets names wanted" "rfold (want_target targets) ts wanted = Inr wanted'"
  shows "picks targets (names \<union> set ts) wanted'"
  using assms
proof (induction ts arbitrary: names wanted)
  case (Cons t ts)
  from Cons.prems(2) obtain w where "want_target targets t wanted = Inr w"
    "rfold (want_target targets) ts w = Inr wanted'" by auto
  with Cons.IH[OF want_target_picks[OF Cons.prems(1)]] show ?case by fastforce
qed simp

lemma want_with_dependencies_picks:
  assumes g: "link_targets targets = Inr g" "wf_dict targets"
  shows "want_with_dependencies targets g t wanted \<noteq> None"
    and "picks targets names wanted \<Longrightarrow> want_with_dependencies targets g t wanted = Some (Inr wanted') \<Longrightarrow>
      picks targets (names \<union> (table_relation targets)\<^sup>* `` {t}) wanted'"
proof -
  from deep_spec[OF g, of t] obtain ds where ds: "DeepDependencies g (Some t) = Some ds"
    "set ds = (table_relation targets)\<^sup>+ `` {t}" by blast
  show "want_with_dependencies targets g t wanted \<noteq> None"
    unfolding want_with_dependencies_def by (rule obind_returns) (simp_all add: ds)
  assume p: "picks targets names wanted" and w: "want_with_dependencies targets g t wanted = Some (Inr wanted')"
  from w ds(1) obtain w1 where w1: "want_target targets t wanted = Inr w1"
    "rfold (want_target targets) ds w1 = Inr wanted'" by (auto simp: want_with_dependencies_def)
  have "names \<union> (table_relation targets)\<^sup>* `` {t} = insert t names \<union> set ds"
    unfolding ds(2) rtrancl_eq_or_trancl Image_def by auto
  with want_targets_picks[OF want_target_picks[OF p w1(1)] w1(2)]
  show "picks targets (names \<union> (table_relation targets)\<^sup>* `` {t}) wanted'" by simp
qed

lemma PruneUnwantedTargets_picks:
  assumes "link_targets targets = Inr g" "wf_dict targets"
    and "qualified_roots flat_list root_targets = Inr roots"
  shows "\<exists>r. PruneUnwantedTargets targets flat_list g root_targets data = Some r
    \<and> (\<forall>wanted wanted_flat data'. r = Inr (wanted, wanted_flat, data') \<longrightarrow>
         (let names = (table_relation targets)\<^sup>* `` set roots
          in (\<forall>t. dget wanted t = (if t \<in> names then dget targets t else None))
             \<and> (\<forall>t \<in> names. dhas targets t)
             \<and> wanted_flat = filter (\<lambda>t. t \<in> names) flat_list))"
proof -
  let ?f = "want_with_dependencies targets g"
  let ?reach = "\<lambda>A. (table_relation targets)\<^sup>* `` A"
  have ret: "ofold ?f roots [] \<noteq> None"
    by (rule ofold_returns[where P = "\<lambda>_. True"]) (simp_all add: want_with_dependencies_picks(1)[OF assms(1,2)])
  have pick: "picks targets (names \<union> ?reach (set xs)) w'"
    if "ofold ?f xs w = Some (Inr w')" "picks targets names w" for xs names w w'
    using that
  proof (induction xs arbitrary: names w)
    case (Cons x xs)
    from Cons.prems(1) obtain u where u: "?f x w = Some (Inr u)" "ofold ?f xs u = Some (Inr w')" by auto
    have "names \<union> ?reach (set (x # xs)) = (names \<union> ?reach {x}) \<union> ?reach (set xs)" by auto
    with Cons.IH[OF u(2) want_with_dependencies_picks(2)[OF assms(1,2) Cons.prems(2) u(1)]]
    show ?case by simp
  qed simp
  have empty: "picks targets {} []" by (simp add: picks_def)
  show ?thesis
  proof (cases "ofold ?f roots []")
    case (Some w)
    then have r: "PruneUnwantedTargets targets flat_list g root_targets data =
        obind (Some w) (\<lambda>wanted.
          Some (rbind (dlookup data ''target_build_files'') (\<lambda>files.
             rbind (py_iter files) (\<lambda>files.
             rbind (rfold (prune_build_file wanted) files data) (\<lambda>data'.
               Inr (wanted, filter (dhas wanted) flat_list, data'))))))"
      by (simp add: PruneUnwantedTargets_def assms(3))
    show ?thesis
    proof (cases w)
      case (Inl e)
      with r show ?thesis by simp
    next
      case (Inr wanted)
      from pick[OF _ empty] Some Inr have p: "picks targets (?reach (set roots)) wanted" by simp
      then have "dhas wanted t \<longleftrightarrow> t \<in> ?reach (set roots)" for t
        by (auto simp: picks_def dhas_def)
      then have f: "filter (dhas wanted) flat_list = filter (\<lambda>t. t \<in> ?reach (set roots)) flat_list"
        by (intro filter_cong) simp_all
      from p show ?thesis unfolding r Inr obind_simps f picks_def Let_def by auto
    qed
  qed (use ret in simp)
qed

text \<open>\<open>PruneUnwantedTargets\<close> returns on a linked table.  When it succeeds, what is left of the
  table are exactly the targets that match a root and everything these depend on, each unchanged,
  and the flat list keeps exactly their names, in its old order.\<close>

theorem PruneUnwantedTargets_wanted:
  assumes "link_targets targets = Inr g" "wf_dict targets"
    and "qualified_roots flat_list root_targets = Inr roots"
  shows "\<exists>r. PruneUnwantedTargets targets flat_list g root_targets data = Some r
    \<and> (\<forall>wanted wanted_flat data'. r = Inr (wanted, wanted_flat, data') \<longrightarrow>
         (let names = (table_relation targets)\<^sup>* `` set roots
          in (\<forall>t. dget wanted t = (if t \<in> names then dget targets t else None))
             \<and> (\<forall>t \<in> names. dhas targets t)
             \<and> wanted_flat = filter (\<lambda>t. t \<in> names) flat_list))"
  by (rule PruneUnwantedTargets_picks[OF assms])

definition example_prune_table :: target_table where
  "example_prune_table =
     [(''a:x#t'', [(''dependencies'', PList [PStr ''a:y#t''])]), (''a:y#t'', []), (''a:z#t'', [])]"

definition example_prune_data :: pydict where
  "example_prune_data =
     [(''target_build_files'', PList [PStr ''a'']),
      (''a'', PDict [(''targets'', PList (map (\<lambda>n. PDict [(''target_name'', PStr n), (''toolset'', PStr ''t'')])
         [''x'', ''y'', ''z'']))])]"

theorem PruneUnwantedTargets_wanted_witness:
  "\<exists>g r. link_targets example_prune_table = Inr g
    \<and> PruneUnwantedTargets example_prune_table (dkeys example_prune_table) g [''x''] example_prune_data = Some r"
proof -
  have "map_sum id (\<lambda>_. ()) (link_targets example_prune_table) = Inr ()" by code_simp
  then obtain g where g: "link_targets example_prune_table = Inr g"
    by (auto simp: map_sum_def split: sum.splits)
  have w: "wf_dict example_prune_table" by code_simp
  have q: "qualified_roots (dkeys example_prune_table) [''x''] = Inr [''a:x#t'']" by code_simp
  from PruneUnwantedTargets_wanted[OF g w q, of example_prune_data] g show ?thesis by blast
qed

end
