(* ===== verification/Gyp_Load.thy ===== *)
theory Gyp_Load
  imports Gyp_Config Gyp_Link
begin

text \<open>
  Reading a build file (\<open>tools/gyp/pylib/gyp/input.py\<close>): \<open>CheckedEval\<close> with \<open>CheckNode\<close>,
  \<open>GetIncludedBuildFiles\<close>, \<open>ProcessToolsetsInDict\<close>, and the steps of \<open>LoadTargetBuildFile\<close> that
  set \<open>DEPTH\<close>, merge \<open>target_defaults\<close> into the targets and collect the build files of the
  dependencies.  The parser of the library module \<open>compiler\<close> is the parameter \<open>parse\<close>, which
  gives the syntax tree of a file.
\<close>

section \<open>Checked evaluation\<close>

text \<open>The nodes \<open>CheckNode\<close> distinguishes: dictionary, list, constant, and any other node, of which
  only the printed form matters.  A key is a constant string or some other node; other constants do
  not occur as keys of a build file.\<close>

datatype ast_key = ConstKey string | OtherKey

datatype ast_node =
    DictNode "(ast_key \<times> ast_node) list"
  | ListNode "ast_node list"
  | ConstNode pyval
  | OtherNode string

text \<open>A module: its doc string, if it has one, and its statements; an expression is a \<open>Discard\<close>.\<close>

datatype ast_stmt = Discard ast_node | OtherStmt

record ast_module =
  doc_string :: "string option"
  statements :: "ast_stmt list"

definition repeated_key :: "string \<Rightarrow> string list \<Rightarrow> py_error" where
  "repeated_key key keypath =
     GypError (''Key '' @ [CHR 0x27] @ key @ [CHR 0x27] @ '' repeated at level ''
       @ str_of_nat (length keypath + 1) @ '' with key path '' @ [CHR 0x27]
       @ join_str ''.'' keypath @ [CHR 0x27])"

lemma size_dict_node: "(k, n) \<in> set l \<Longrightarrow> size n < size (DictNode l)"
  by (induction l) auto

lemma size_list_node: "(i, n) \<in> set (enumerate m l) \<Longrightarrow> size n < size (ListNode l)"
  by (induction l arbitrary: m) fastforce+

function CheckNode :: "ast_node \<Rightarrow> string list \<Rightarrow> pyval res" where
  "CheckNode (DictNode c) keypath =
     rbind
       (rfold (\<lambda>(k, n) dict.
          case k of
            OtherKey \<Rightarrow> Inl AssertionError
          | ConstKey key \<Rightarrow>
              if dhas dict key then Inl (repeated_key key keypath)
              else rbind (CheckNode n (keypath @ [key])) (\<lambda>v. Inr (dset key v dict))) c [])
       (\<lambda>dict. Inr (PDict dict))"
| "CheckNode (ListNode c) keypath =
     rbind (rmap (\<lambda>(index, child). CheckNode child (keypath @ [str_of_nat index])) (enumerate 0 c))
       (\<lambda>children. Inr (PList children))"
| "CheckNode (ConstNode v) keypath = Inr v"
| "CheckNode (OtherNode r) keypath =
     Inl (TypeError (''Unknown AST node at key path '' @ [CHR 0x27] @ join_str ''.'' keypath
       @ [CHR 0x27] @ '': '' @ r))"
  by pat_completeness auto
termination
  by (relation "measure (\<lambda>(n, _). size n)") (auto simp del: ast_node.size simp: size_dict_node size_list_node)

definition CheckedEval :: "(string \<Rightarrow> ast_module res) \<Rightarrow> string \<Rightarrow> pyval res" where
  "CheckedEval parse file_contents =
     rbind (parse file_contents) (\<lambda>m.
     rbind (rassert (doc_string m = None) AssertionError) (\<lambda>_.
       case statements m of
         [] \<Rightarrow> Inl IndexError
       | OtherStmt # _ \<Rightarrow> Inl AssertionError
       | Discard n # _ \<Rightarrow> CheckNode n []))"

section \<open>Included files\<close>

text \<open>\<open>aux_data\<close>: for each file that was read, a dictionary whose key \<open>included\<close> holds the list of
  the files it includes.\<close>

type_synonym aux_data = "(string \<times> (string \<times> string list) list) list"

partial_function (option) included_loop :: "aux_data \<Rightarrow> string list \<Rightarrow> string list \<Rightarrow> string list comp" where
  "included_loop aux paths included =
     (case paths of
        [] \<Rightarrow> Some (Inr included)
      | build_file_path # rest \<Rightarrow>
          if build_file_path \<in> set included then included_loop aux rest included
          else
            obind (Some (dlookup aux build_file_path)) (\<lambda>d.
            obind (included_loop aux (dget_default d ''included'' []) (included @ [build_file_path]))
              (\<lambda>included'. included_loop aux rest included')))"

declare included_loop.simps [code]

definition GetIncludedBuildFiles :: "string \<Rightarrow> aux_data \<Rightarrow> string list comp" where
  "GetIncludedBuildFiles build_file_path aux = included_loop aux [build_file_path] []"

section \<open>Toolsets\<close>

definition set_item :: "string \<Rightarrow> pyval \<Rightarrow> pyval \<Rightarrow> pyval res" where
  "set_item k x v =
     (case v of
        PDict d \<Rightarrow> Inr (PDict (dset k x d))
      | PList l \<Rightarrow> Inl (TypeError ''list indices must be integers, not str'')
      | _ \<Rightarrow> Inl (TypeError (class_name v @ '' object does not support item assignment'')))"

definition del_item :: "string \<Rightarrow> pyval \<Rightarrow> pyval res" where
  "del_item k v =
     (case v of
        PDict d \<Rightarrow> if dhas d k then Inr (PDict (ddel k d)) else Inl (KeyError k)
      | PList l \<Rightarrow> Inl (TypeError ''list indices must be integers, not str'')
      | _ \<Rightarrow> Inl (TypeError (class_name v @ '' object does not support item deletion'')))"

text \<open>\<open>len(v)\<close>, and the elements of the slice \<open>v[1:]\<close>.\<close>

definition py_len :: "pyval \<Rightarrow> nat res" where
  "py_len v =
     (case v of
        PList l \<Rightarrow> Inr (length l)
      | PDict d \<Rightarrow> Inr (length d)
      | PStr s \<Rightarrow> Inr (length s)
      | _ \<Rightarrow> Inl (TypeError (''object of type '' @ class_name v @ '' has no len()'')))"

definition slice_from_1 :: "pyval \<Rightarrow> pyval list res" where
  "slice_from_1 v =
     (case v of
        PList l \<Rightarrow> Inr (tl l)
      | PStr s \<Rightarrow> Inr (map (\<lambda>c. PStr [c]) (tl s))
      | PDict d \<Rightarrow> Inl (TypeError ''unhashable type'')
      | _ \<Rightarrow> Inl (TypeError (class_name v @ '' object is not subscriptable'')))"

text \<open>The targets that one target is replaced by.\<close>

definition toolset_targets :: "gyp_globals \<Rightarrow> pyval \<Rightarrow> pyval list res" where
  "toolset_targets g target =
     rbind (py_contains target ''toolset'') (\<lambda>has_toolset.
     rbind (if has_toolset then py_contains target ''toolsets'' else Inr True) (\<lambda>to_do.
       if \<not> to_do then Inr [target]
       else
         rbind (if multiple_toolsets g then py_get target ''toolsets'' (PList [PStr ''target''])
                else Inr (PList [PStr ''target''])) (\<lambda>toolsets.
         rbind (py_contains target ''toolsets'') (\<lambda>has_toolsets.
         rbind (if has_toolsets then del_item ''toolsets'' target else Inr target) (\<lambda>target'.
         rbind (py_len toolsets) (\<lambda>n.
           if n = 0 then Inr []
           else
             rbind (slice_from_1 toolsets) (\<lambda>builds.
             rbind (rmap (\<lambda>b. set_item ''toolset'' b target') builds) (\<lambda>new_targets.
             rbind (py_getitem toolsets (PInt 0)) (\<lambda>first.
             rbind (set_item ''toolset'' first target') (\<lambda>t.
               Inr (new_targets @ [t])))))))))))"

definition expand_toolsets :: "gyp_globals \<Rightarrow> pydict \<Rightarrow> pydict res" where
  "expand_toolsets g d =
     (case dget d ''targets'' of
        None \<Rightarrow> Inr d
      | Some target_list \<Rightarrow>
          rbind (py_iter target_list) (\<lambda>ts.
          rbind (rmap (toolset_targets g) ts) (\<lambda>new_target_list.
            Inr (dset ''targets'' (PList (concat new_target_list)) d))))"

lemma expand_toolsets_other:
  "expand_toolsets g d = Inr d' \<Longrightarrow> k \<noteq> ''targets'' \<Longrightarrow> dget d' k = dget d k"
  by (auto simp: expand_toolsets_def split: option.splits)

text \<open>Conditions are lists of a test and dictionaries, which hold targets too.\<close>

lemma size_condition:
  assumes "dget d k = Some (PList cs)" "PList (e # rest) \<in> set cs" "x \<in> set rest"
  shows "size x < Suc (size_list (size_prod (\<lambda>_. 0) size) d)"
proof -
  have "size x \<le> size_list size rest" using assms(3) by (rule size_list_estimation') simp
  then have "size x < size (PList (e # rest))" by simp
  also have "\<dots> \<le> size_list size cs" using assms(2) by (rule size_list_estimation') simp
  also have "\<dots> < size (PList cs)" by simp
  also have "\<dots> \<le> size_list (size_prod (\<lambda>_. 0) size) d"
    by (rule size_list_estimation'[OF map_of_SomeD[OF assms(1)]]) simp
  finally show ?thesis by simp
qed

function ProcessToolsets :: "gyp_globals \<Rightarrow> pyval \<Rightarrow> pyval res" where
  "ProcessToolsets g (PDict d) =
     rbind (expand_toolsets g d) (\<lambda>d'.
       case dget d' ''conditions'' of
         None \<Rightarrow> Inr (PDict d')
       | Some (PList conditions) \<Rightarrow>
           rbind
             (rmap (\<lambda>condition.
                case condition of
                  PList (e # rest) \<Rightarrow>
                    rbind (rmap (ProcessToolsets g) rest) (\<lambda>dicts. Inr (PList (e # dicts)))
                | _ \<Rightarrow> Inr condition) conditions)
             (\<lambda>cs. Inr (PDict (dset ''conditions'' (PList cs) d')))
       | Some v \<Rightarrow> rbind (py_iter v) (\<lambda>_. Inr (PDict d')))"
| "ProcessToolsets g (PStr s) =
     rbind (if sublist ''targets'' s then py_getitem (PStr s) (PStr ''targets'') else Inr PNone) (\<lambda>_.
     rbind (if sublist ''conditions'' s then py_getitem (PStr s) (PStr ''conditions'') else Inr PNone) (\<lambda>_.
       Inr (PStr s)))"
| "ProcessToolsets g (PList l) =
     rbind (if PStr ''targets'' \<in> set l then py_getitem (PList l) (PStr ''targets'') else Inr PNone) (\<lambda>_.
     rbind (if PStr ''conditions'' \<in> set l then py_getitem (PList l) (PStr ''conditions'') else Inr PNone) (\<lambda>_.
       Inr (PList l)))"
| "ProcessToolsets g (PInt i) = Inl (TypeError ''argument of type int is not iterable'')"
| "ProcessToolsets g PNone = Inl (TypeError ''argument of type NoneType is not iterable'')"
  by pat_completeness auto
termination
proof (relation "measure (\<lambda>(g, v). size v)")
  fix g d d' v cs condition l e rest x
  assume "expand_toolsets g d = Inr d'" "dget d' ''conditions'' = Some v" "v = PList cs"
    "condition \<in> set cs" "condition = PList l" "l = e # rest" "x \<in> set rest"
  then show "((g, x), g, PDict d) \<in> measure (\<lambda>(g, v). size v)"
    using size_condition[of d "''conditions''" cs e rest x] by (simp add: expand_toolsets_other)
qed simp

section \<open>Steps of LoadTargetBuildFile\<close>

text \<open>The value of the variable \<open>DEPTH\<close>.\<close>

definition depth_variable :: "(string \<Rightarrow> string) \<Rightarrow> string \<Rightarrow> string \<Rightarrow> string" where
  "depth_variable rp depth build_file_path =
     (let d = RelativePath rp depth (dirname build_file_path)
      in if d = [] then ''.'' else replace_str [CHR 0x5C] ''/'' d)"

text \<open>The defaults of the build file, copied and merged with each target.  Default sections that are
  not dictionaries are refused here; the program merges them key by key and refuses most of them.\<close>

definition merge_target :: "(string \<Rightarrow> string) \<Rightarrow> gyp_globals \<Rightarrow> string \<Rightarrow> pyval \<Rightarrow> pyval \<Rightarrow> pyval res" where
  "merge_target rp g build_file_path defaults old_target =
     rbind (as_dict ''iteritems'' old_target) (\<lambda>old_target_dict.
     rbind (as_dict ''__setitem__'' defaults) (\<lambda>new_target_dict.
     rbind (MergeDicts rp g new_target_dict old_target_dict build_file_path build_file_path) (\<lambda>r.
       Inr (PDict r))))"

definition merge_target_defaults :: "(string \<Rightarrow> string) \<Rightarrow> gyp_globals \<Rightarrow> string \<Rightarrow> pydict \<Rightarrow> pydict res" where
  "merge_target_defaults rp g build_file_path d =
     (case dget d ''target_defaults'' of
        None \<Rightarrow> Inr d
      | Some defaults \<Rightarrow>
          (case dget d ''targets'' of
             None \<Rightarrow> Inl (GypError (''Unable to find targets in build file '' @ build_file_path))
           | Some (PList targets) \<Rightarrow>
               rbind (rmap (merge_target rp g build_file_path defaults) targets) (\<lambda>new_targets.
                 Inr (ddel ''target_defaults'' (dset ''targets'' (PList new_targets) d)))
           | Some v \<Rightarrow>
               rbind (py_len v) (\<lambda>n.
                 if n = 0 then Inr (ddel ''target_defaults'' d)
                 else rbind (py_getitem v (PInt 0)) (\<lambda>t. Inl (attribute_error t ''iteritems'')))))"

text \<open>The build files named by the dependencies of the targets.\<close>

definition dependency_files :: "(string \<Rightarrow> string) \<Rightarrow> string \<Rightarrow> pyval \<Rightarrow> string option list res" where
  "dependency_files rp build_file_path target_dict =
     rbind (py_contains target_dict ''dependencies'') (\<lambda>b.
       if \<not> b then Inr []
       else
         rbind (py_getitem target_dict (PStr ''dependencies'')) (\<lambda>ds.
         rbind (py_iter ds) (rmap (\<lambda>dependency.
           rbind (as_str ''rsplit'' dependency) (\<lambda>dep.
             Inr (fst (ResolveTarget rp (Some build_file_path) dep None)))))))"

definition target_dependencies :: "(string \<Rightarrow> string) \<Rightarrow> string \<Rightarrow> pydict \<Rightarrow> string option list res" where
  "target_dependencies rp build_file_path d =
     (case dget d ''targets'' of
        None \<Rightarrow> Inr []
      | Some targets \<Rightarrow>
          rbind (py_iter targets) (\<lambda>ts.
          rbind (rmap (dependency_files rp build_file_path) ts) (\<lambda>fs. Inr (concat fs))))"

section \<open>Checked evaluation: theorems\<close>

text \<open>What evaluating a literal gives, and the literals that are allowed: keys are constants, no key
  comes twice in one dictionary, and there is nothing but dictionaries, lists and constants.\<close>

fun key_name :: "ast_key \<Rightarrow> string" where
  "key_name (ConstKey s) = s"
| "key_name OtherKey = []"

function node_value :: "ast_node \<Rightarrow> pyval" where
  "node_value (DictNode c) = PDict (fold (\<lambda>(k, n). dset (key_name k) (node_value n)) c [])"
| "node_value (ListNode c) = PList (map node_value c)"
| "node_value (ConstNode v) = v"
| "node_value (OtherNode r) = PNone"
  by pat_completeness auto
termination
proof (relation "measure size")
  fix c :: "(ast_key \<times> ast_node) list" and x xa y
  assume "x \<in> set c" "(xa, y) = x"
  then have "(xa, y) \<in> set c" by simp
  then show "(y, DictNode c) \<in> measure size" using size_dict_node[of xa y c] by simp
next
  fix c :: "ast_node list" and x
  assume "x \<in> set c"
  then show "(x, ListNode c) \<in> measure size" using size_list_estimation'[of x c "size x" size] by simp
qed simp

function strict_node :: "ast_node \<Rightarrow> bool" where
  "strict_node (DictNode c) \<longleftrightarrow>
     distinct (map fst c) \<and> (\<forall>(k, n) \<in> set c. k \<noteq> OtherKey \<and> strict_node n)"
| "strict_node (ListNode c) \<longleftrightarrow> (\<forall>n \<in> set c. strict_node n)"
| "strict_node (ConstNode v) \<longleftrightarrow> True"
| "strict_node (OtherNode r) \<longleftrightarrow> False"
  by pat_completeness auto
termination
proof (relation "measure size")
  fix c :: "(ast_key \<times> ast_node) list" and x xa y
  assume "x \<in> set c" "(xa, y) = x"
  then have "(xa, y) \<in> set c" by simp
  then show "(y, DictNode c) \<in> measure size" using size_dict_node[of xa y c] by simp
next
  fix c :: "ast_node list" and x
  assume "x \<in> set c"
  then show "(x, ListNode c) \<in> measure size" using size_list_estimation'[of x c "size x" size] by simp
qed simp

lemma check_dict_loop:
  assumes "\<And>k n kp v. (k, n) \<in> set c \<Longrightarrow> CheckNode n kp = Inr v \<longleftrightarrow> strict_node n \<and> v = node_value n"
  shows "rfold (\<lambda>(k, n) dict.
          case k of
            OtherKey \<Rightarrow> Inl AssertionError
          | ConstKey key \<Rightarrow>
              if dhas dict key then Inl (repeated_key key kp)
              else rbind (CheckNode n (kp @ [key])) (\<lambda>v. Inr (dset key v dict))) c dict = Inr dict'
    \<longleftrightarrow> distinct (map fst c) \<and> (\<forall>(k, n) \<in> set c. k \<noteq> OtherKey \<and> strict_node n)
        \<and> (\<forall>(k, n) \<in> set c. \<not> dhas dict (key_name k))
        \<and> dict' = fold (\<lambda>(k, n). dset (key_name k) (node_value n)) c dict"
  using assms
proof (induction c arbitrary: dict)
  case (Cons x c)
  obtain k n where x: "x = (k, n)" by (cases x)
  have ih: "\<And>k n kp v. (k, n) \<in> set c \<Longrightarrow> CheckNode n kp = Inr v \<longleftrightarrow> strict_node n \<and> v = node_value n"
    by (rule Cons.prems) (erule list.set_intros(2))
  have n: "\<And>kp v. CheckNode n kp = Inr v \<longleftrightarrow> strict_node n \<and> v = node_value n"
    by (rule Cons.prems[of k]) (simp add: x)
  show ?case
  proof (cases k)
    case (ConstKey key)
    have split: "(\<forall>(j, m) \<in> set c. \<not> dhas (dset key w dict) (key_name j))
        \<longleftrightarrow> (\<forall>(j, m) \<in> set c. key_name j \<noteq> key) \<and> (\<forall>(j, m) \<in> set c. \<not> dhas dict (key_name j))" for w
      by (simp add: split_beta ball_conj_distrib)
    have name: "key_name j \<noteq> key \<longleftrightarrow> j \<noteq> ConstKey key" if "j \<noteq> OtherKey" for j
      using that by (cases j) simp_all
    have fresh: "(\<forall>(j, m) \<in> set c. key_name j \<noteq> key) \<longleftrightarrow> ConstKey key \<notin> set (map fst c)"
      if "\<forall>(j, m) \<in> set c. j \<noteq> OtherKey \<and> strict_node m"
    proof -
      have "(\<forall>x \<in> set c. key_name (fst x) \<noteq> key) \<longleftrightarrow> (\<forall>x \<in> set c. fst x \<noteq> ConstKey key)"
      proof (rule ball_cong[OF refl])
        fix x assume "x \<in> set c"
        with that have "fst x \<noteq> OtherKey" by (cases x) auto
        then show "key_name (fst x) \<noteq> key \<longleftrightarrow> fst x \<noteq> ConstKey key" by (rule name)
      qed
      also have "\<dots> \<longleftrightarrow> ConstKey key \<notin> set (map fst c)" by (force simp: image_iff)
      finally show ?thesis by (simp add: split_beta)
    qed
    show ?thesis
    proof (cases "(\<forall>(j, m) \<in> set c. j \<noteq> OtherKey \<and> strict_node m) \<and> strict_node n \<and> \<not> dhas dict key")
      case True
      with fresh show ?thesis by (auto simp: x ConstKey n Cons.IH[OF ih] split)
    next
      case False
      then show ?thesis by (auto simp: x ConstKey n Cons.IH[OF ih])
    qed
  qed (auto simp: x)
qed auto

lemma enumerate_loop:
  assumes "\<And>i n kp v. n \<in> set c \<Longrightarrow> CheckNode n kp = Inr v \<longleftrightarrow> strict_node n \<and> v = node_value n"
  shows "rmap (\<lambda>(index, child). CheckNode child (kp @ [str_of_nat index])) (enumerate m c) = Inr vs
    \<longleftrightarrow> (\<forall>n \<in> set c. strict_node n) \<and> vs = map node_value c"
  using assms
proof (induction c arbitrary: m vs)
  case (Cons n c)
  have ih: "\<And>i n kp v. n \<in> set c \<Longrightarrow> CheckNode n kp = Inr v \<longleftrightarrow> strict_node n \<and> v = node_value n"
    by (rule Cons.prems) (erule list.set_intros(2))
  have n: "\<And>kp v. CheckNode n kp = Inr v \<longleftrightarrow> strict_node n \<and> v = node_value n"
    by (rule Cons.prems[OF list.set_intros(1)])
  show ?case by (auto simp: n Cons.IH[OF ih])
qed auto

lemma CheckNode_iff: "CheckNode n keypath = Inr v \<longleftrightarrow> strict_node n \<and> v = node_value n"
proof (induction n arbitrary: keypath v rule: measure_induct_rule[where f = size])
  case (less n)
  show ?case
  proof (cases n)
    case (DictNode c)
    have ih: "CheckNode m kp = Inr w \<longleftrightarrow> strict_node m \<and> w = node_value m" if "(k, m) \<in> set c" for k m kp w
      by (rule less) (use size_dict_node[OF that] DictNode in simp)
    show ?thesis by (auto simp: DictNode check_dict_loop[OF ih] dhas_def)
  next
    case (ListNode c)
    have ih: "CheckNode m kp = Inr w \<longleftrightarrow> strict_node m \<and> w = node_value m" if "m \<in> set c" for m kp w
      by (rule less) (use size_list_estimation'[OF that order_refl, of size] ListNode in simp)
    show ?thesis by (auto simp: ListNode enumerate_loop[OF ih])
  qed auto
qed

text \<open>C28.  \<open>CheckedEval\<close> accepts a file exactly when it parses to a module without doc string whose
  first statement is a literal of dictionaries, lists and constants that repeats no key at any
  level, and then the result is the value of that literal.\<close>

theorem CheckedEval_strict:
  "CheckedEval parse contents = Inr v \<longleftrightarrow>
     (\<exists>m n rest. parse contents = Inr m \<and> doc_string m = None \<and> statements m = Discard n # rest
        \<and> strict_node n \<and> v = node_value n)"
proof (cases "parse contents")
  case (Inr m)
  have "(case statements m of [] \<Rightarrow> Inl IndexError | OtherStmt # _ \<Rightarrow> Inl AssertionError
        | Discard n # _ \<Rightarrow> CheckNode n []) = Inr v
    \<longleftrightarrow> (\<exists>n rest. statements m = Discard n # rest \<and> strict_node n \<and> v = node_value n)"
    by (cases "statements m") (auto simp: CheckNode_iff split: ast_stmt.split)
  with Inr show ?thesis by (simp add: CheckedEval_def)
qed (simp add: CheckedEval_def)

text \<open>So a second statement is not looked at, where the plain \<open>eval\<close> of the file is an error.\<close>

lemma CheckedEval_second_statement:
  "CheckedEval (\<lambda>_. Inr \<lparr>doc_string = None, statements = [Discard (DictNode []), OtherStmt]\<rparr>) s
     = Inr (PDict [])"
  by code_simp

section \<open>Included files: theorems\<close>

definition includes_of :: "aux_data \<Rightarrow> string \<Rightarrow> string list" where
  "includes_of aux p = (case dget aux p of None \<Rightarrow> [] | Some d \<Rightarrow> dget_default d ''included'' [])"

definition included_run :: "aux_data \<Rightarrow> string option list \<Rightarrow> string list \<Rightarrow> string list option" where
  "included_run aux ms acc =
     (case included_loop aux (map the (filter (\<lambda>m. m \<noteq> None) ms)) acc of Some (Inr r) \<Rightarrow> Some r | _ \<Rightarrow> None)"

lemma included_loop_simps:
  "included_loop aux [] acc = Some (Inr acc)"
  "p \<in> set acc \<Longrightarrow> included_loop aux (p # ps) acc = included_loop aux ps acc"
  "p \<notin> set acc \<Longrightarrow> dhas aux p \<Longrightarrow> included_loop aux (p # ps) acc =
     obind (included_loop aux (includes_of aux p) (acc @ [p])) (included_loop aux ps)"
  by (subst included_loop.simps; force simp: includes_of_def dlookup_def dhas_def)+

lemma included_walk:
  assumes "\<And>p. dhas aux p \<Longrightarrow> \<forall>q \<in> set (includes_of aux p). dhas aux q"
  shows "dfs_walk (included_run aux) (\<lambda>p. map Some (includes_of aux p)) (\<lambda>_. True) (set (dkeys aux))"
proof
  fix n ms acc assume n: "n \<in> set (dkeys aux)"
  then have h: "dhas aux n" by (simp add: dhas_iff)
  show "included_run aux (Some n # ms) acc = included_run aux ms acc" if "\<not> True \<or> n \<in> set acc"
    using that by (simp add: included_run_def included_loop_simps(2))
  show "included_run aux (Some n # ms) acc =
      Option.bind (included_run aux (map Some (includes_of aux n)) (acc @ [n])) (included_run aux ms)"
    if "n \<notin> set acc"
    using included_loop_simps(3)[OF that h]
    by (simp add: included_run_def link_run_bind filter_map o_def included_run_def[abs_def])
  show "m \<in> set (dkeys aux)" if "Some m \<in> set (map Some (includes_of aux n))" for m
    using assms[OF h] that by (auto simp: dhas_iff)
qed (simp_all add: included_run_def included_loop_simps)

text \<open>When every included file was read, \<open>GetIncludedBuildFiles\<close> returns, cyclic includes or
  not: the file and each file that is included directly or through others, once.\<close>

theorem GetIncludedBuildFiles_reachable:
  assumes "\<And>p. dhas aux p \<Longrightarrow> \<forall>q \<in> set (includes_of aux p). dhas aux q" "dhas aux path"
  shows "\<exists>r. GetIncludedBuildFiles path aux = Some (Inr r) \<and> distinct r
    \<and> set r = {(p, q). q \<in> set (includes_of aux p)}\<^sup>* `` {path}"
proof -
  have "{n. Some n \<in> set [Some path]} \<subseteq> set (dkeys aux)" using assms(2) by (simp add: dhas_iff)
  from dfs_walk.run_reachable[OF included_walk[OF assms(1)] this] obtain r where
    r: "included_run aux [Some path] [] = Some r" "distinct r"
    "set r = (walk_step (\<lambda>p. map Some (includes_of aux p)) (\<lambda>_. True))\<^sup>* `` {n. Some n \<in> set [Some path] \<and> True}"
    by blast
  have "walk_step (\<lambda>p. map Some (includes_of aux p)) (\<lambda>_. True) = {(p, q). q \<in> set (includes_of aux p)}"
    by (auto simp: walk_step_def)
  with r show ?thesis
    by (auto simp: included_run_def GetIncludedBuildFiles_def split: option.splits sum.splits)
qed

theorem GetIncludedBuildFiles_reachable_witness:
  "\<exists>r. GetIncludedBuildFiles ''a'' [(''a'', [(''included'', [''b''])]), (''b'', [(''included'', [''a''])])] = Some (Inr r)"
proof -
  let ?a = "[(''a'', [(''included'', [''b''])]), (''b'', [(''included'', [''a''])])]"
  have "\<And>p. dhas ?a p \<Longrightarrow> \<forall>q \<in> set (includes_of ?a p). dhas ?a q" "dhas ?a ''a''"
    by (auto simp: dhas_def includes_of_def dget_default_def split: if_splits)
  from GetIncludedBuildFiles_reachable[OF this] show ?thesis by blast
qed

section \<open>Toolsets: theorems\<close>

text \<open>A target that needs no more work, and a dictionary whose targets are all like that.\<close>

definition settled :: "pyval \<Rightarrow> bool" where
  "settled t \<longleftrightarrow> py_contains t ''toolset'' = Inr True \<and> py_contains t ''toolsets'' = Inr False"

definition settled_targets :: "pydict \<Rightarrow> bool" where
  "settled_targets d \<longleftrightarrow>
     (case dget d ''targets'' of None \<Rightarrow> True | Some v \<Rightarrow> \<exists>l. v = PList l \<and> (\<forall>t \<in> set l. settled t))"

lemma settled_toolset_targets: "settled t \<Longrightarrow> toolset_targets g t = Inr [t]"
  by (simp add: settled_def toolset_targets_def)

lemma set_toolset_settled:
  assumes "set_item ''toolset'' b t' = Inr u"
    and "(if h then del_item ''toolsets'' t else Inr t) = Inr t'" "py_contains t ''toolsets'' = Inr h"
  shows "settled u"
proof -
  from assms(1) obtain d where d: "t' = PDict d" "u = PDict (dset ''toolset'' b d)"
    by (auto simp: set_item_def split: pyval.splits)
  have "\<not> dhas d ''toolsets''"
  proof (cases h)
    case True
    with assms(2) d(1) show ?thesis by (auto simp: del_item_def split: pyval.splits if_splits)
  next
    case False
    with assms(2,3) d(1) show ?thesis by simp
  qed
  with d(2) show ?thesis by (simp add: settled_def)
qed

lemma toolset_targets_settled:
  assumes "toolset_targets g t = Inr us" "u \<in> set us"
  shows "settled u"
proof -
  from assms(1) obtain has where has: "py_contains t ''toolset'' = Inr has"
    by (auto simp: toolset_targets_def)
  from assms(1) has obtain to_do where
    to_do: "(if has then py_contains t ''toolsets'' else Inr True) = Inr to_do"
    by (auto simp: toolset_targets_def)
  show ?thesis
  proof (cases to_do)
    case False
    with assms has to_do show ?thesis by (auto simp: toolset_targets_def settled_def split: if_splits)
  next
    case True
    from assms(1)[unfolded toolset_targets_def has rbind_simps to_do] True obtain toolsets h t' n where
      h: "py_contains t ''toolsets'' = Inr h"
      and t': "(if h then del_item ''toolsets'' t else Inr t) = Inr t'"
      and us: "(if n = (0::nat) then Inr [] else
             rbind (slice_from_1 toolsets) (\<lambda>builds.
             rbind (rmap (\<lambda>b. set_item ''toolset'' b t') builds) (\<lambda>new_targets.
             rbind (py_getitem toolsets (PInt 0)) (\<lambda>first.
             rbind (set_item ''toolset'' first t') (\<lambda>t.
               Inr (new_targets @ [t])))))) = Inr us"
      by (auto simp only: rbind_eq_Inr not_True_eq_False if_False)
    note s = set_toolset_settled[OF _ t' h]
    show ?thesis
    proof (cases "n = 0")
      case False
      with us obtain builds new_targets first v where
        r: "rmap (\<lambda>b. set_item ''toolset'' b t') builds = Inr new_targets"
        and v: "set_item ''toolset'' first t' = Inr v" "us = new_targets @ [v]" by auto
      show ?thesis
      proof (cases "u = v")
        case False
        with assms(2) v(2) have "u \<in> set new_targets" by simp
        from rmap_member[OF r this] s show ?thesis by blast
      qed (use s[OF v(1)] in simp)
    qed (use us assms(2) in simp)
  qed
qed

lemma expand_toolsets_settled:
  assumes "expand_toolsets g d = Inr d'"
  shows "settled_targets d'"
proof (cases "dget d ''targets''")
  case None
  with assms show ?thesis by (simp add: expand_toolsets_def settled_targets_def)
next
  case (Some v)
  with assms obtain ts new where n: "rmap (toolset_targets g) ts = Inr new" "d' = dset ''targets'' (PList (concat new)) d"
    by (auto simp: expand_toolsets_def)
  have "settled u" if u: "u \<in> set (concat new)" for u
  proof -
    from u obtain us where us: "us \<in> set new" "u \<in> set us" by auto
    from rmap_member[OF n(1) us(1)] us(2) show ?thesis using toolset_targets_settled by blast
  qed
  with n(2) show ?thesis by (simp add: settled_targets_def)
qed

lemma expand_settled:
  assumes "settled_targets d"
  shows "expand_toolsets g d = Inr d"
proof (cases "dget d ''targets''")
  case (Some v)
  with assms obtain l where l: "v = PList l" "\<forall>t \<in> set l. settled t" by (auto simp: settled_targets_def)
  have "rmap (toolset_targets g) l = Inr (map (\<lambda>t. [t]) l)"
    by (rule rmap_total) (use l(2) settled_toolset_targets in blast)
  moreover have "concat (map (\<lambda>t. [t]) l) = l" by (induction l) simp_all
  ultimately show ?thesis using Some l(1) by (simp add: expand_toolsets_def dset_same)
qed (simp add: expand_toolsets_def)

lemma settled_targets_dset [simp]:
  "k \<noteq> ''targets'' \<Longrightarrow> settled_targets (dset k v d) = settled_targets d"
  by (simp add: settled_targets_def)

lemma rmap_fixed: "(\<And>x. x \<in> set xs \<Longrightarrow> f x = Inr x) \<Longrightarrow> rmap f xs = Inr xs"
  using rmap_total[of xs f "\<lambda>x. x"] by simp

definition process_condition :: "(pyval \<Rightarrow> pyval res) \<Rightarrow> pyval \<Rightarrow> pyval res" where
  "process_condition f condition =
     (case condition of
        PList (e # rest) \<Rightarrow> rbind (rmap f rest) (\<lambda>dicts. Inr (PList (e # dicts)))
      | _ \<Rightarrow> Inr condition)"

lemma process_condition_fixed:
  assumes "process_condition f c = Inr c'"
    and "\<And>e rest x y. c = PList (e # rest) \<Longrightarrow> x \<in> set rest \<Longrightarrow> f x = Inr y \<Longrightarrow> f y = Inr y"
  shows "process_condition f c' = Inr c'"
proof (cases "\<exists>e rest. c = PList (e # rest)")
  case True
  then obtain e rest where c: "c = PList (e # rest)" by blast
  with assms(1) obtain dicts where d: "rmap f rest = Inr dicts" "c' = PList (e # dicts)"
    by (auto simp: process_condition_def)
  have "f y = Inr y" if "y \<in> set dicts" for y
    using rmap_member[OF d(1) that] assms(2)[OF c] by blast
  with d(2) show ?thesis by (simp add: process_condition_def rmap_fixed)
next
  case False
  then have "c' = c" using assms(1) by (auto simp: process_condition_def split: pyval.splits list.splits)
  with assms(1) show ?thesis by simp
qed

lemma ProcessToolsets_dict:
  "ProcessToolsets g (PDict d) =
     rbind (expand_toolsets g d) (\<lambda>d'.
       case dget d' ''conditions'' of
         None \<Rightarrow> Inr (PDict d')
       | Some (PList conditions) \<Rightarrow>
           rbind (rmap (process_condition (ProcessToolsets g)) conditions)
             (\<lambda>cs. Inr (PDict (dset ''conditions'' (PList cs) d')))
       | Some v \<Rightarrow> rbind (py_iter v) (\<lambda>_. Inr (PDict d')))"
  unfolding ProcessToolsets.simps process_condition_def[abs_def] ..

declare ProcessToolsets.simps(1) [simp del]

lemma ProcessToolsets_again: "ProcessToolsets g v = Inr w \<Longrightarrow> ProcessToolsets g w = Inr w"
proof (induction v arbitrary: w rule: measure_induct_rule[where f = size])
  case (less v)
  show ?case
  proof (cases v)
    case (PDict d)
    with less.prems obtain d' where d': "expand_toolsets g d = Inr d'" by (auto simp: ProcessToolsets_dict)
    note settled = expand_toolsets_settled[OF d']
    show ?thesis
    proof (cases "\<exists>cs. dget d' ''conditions'' = Some (PList cs)")
      case False
      with less.prems d' have "w = PDict d'"
        by (auto simp: PDict ProcessToolsets_dict split: option.splits pyval.splits)
      with less.prems d' show ?thesis by (simp add: PDict ProcessToolsets_dict expand_settled[OF settled])
    next
      case True
      then obtain cs where cs: "dget d' ''conditions'' = Some (PList cs)" by blast
      with less.prems d' obtain cs' where
        r: "rmap (process_condition (ProcessToolsets g)) cs = Inr cs'"
        and w: "w = PDict (dset ''conditions'' (PList cs') d')"
        by (auto simp: PDict ProcessToolsets_dict)
      have dc: "dget d ''conditions'' = Some (PList cs)" using cs expand_toolsets_other[OF d'] by simp
      have "process_condition (ProcessToolsets g) c' = Inr c'" if c': "c' \<in> set cs'" for c'
      proof -
        from rmap_member[OF r c'] obtain c where
          c: "c \<in> set cs" "process_condition (ProcessToolsets g) c = Inr c'" by blast
        show ?thesis
        proof (rule process_condition_fixed[OF c(2)])
          fix e rest x y
          assume e: "c = PList (e # rest)" "x \<in> set rest" and y: "ProcessToolsets g x = Inr y"
          from c(1) e(1) have "PList (e # rest) \<in> set cs" by simp
          from size_condition[OF dc this e(2)] have "size x < size v" by (simp add: PDict)
          from less.IH[OF this y] show "ProcessToolsets g y = Inr y" .
        qed
      qed
      then have "rmap (process_condition (ProcessToolsets g)) cs' = Inr cs'" by (rule rmap_fixed)
      then show ?thesis using settled by (simp add: w ProcessToolsets_dict expand_settled)
    qed
  qed (use less.prems in \<open>auto split: if_splits\<close>)
qed

text \<open>\<open>ProcessToolsetsInDict\<close> is idempotent: the second round, which runs after conditions were
  evaluated, changes nothing that the first has already done, at any depth of the conditions.\<close>

theorem ProcessToolsets_idempotent:
  "ProcessToolsets g v = Inr w \<Longrightarrow> ProcessToolsets g w = Inr w"
  by (rule ProcessToolsets_again)

theorem ProcessToolsets_idempotent_witness:
  "\<exists>w. ProcessToolsets \<lparr>path_sections = [], non_configuration_keys = [], multiple_toolsets = True,
        generator_filelist_paths = None\<rparr>
      (PDict [(''targets'', PList [PDict [(''toolsets'', PList [PStr ''host'', PStr ''target''])]])]) = Inr w
    \<and> ProcessToolsets \<lparr>path_sections = [], non_configuration_keys = [], multiple_toolsets = True,
        generator_filelist_paths = None\<rparr> w = Inr w"
proof -
  let ?g = "\<lparr>path_sections = [], non_configuration_keys = [], multiple_toolsets = True,
        generator_filelist_paths = None\<rparr>"
  have "ProcessToolsets ?g (PDict [(''targets'', PList [PDict [(''toolsets'', PList [PStr ''host'', PStr ''target''])]])])
     = Inr (PDict [(''targets'', PList [PDict [(''toolset'', PStr ''target'')], PDict [(''toolset'', PStr ''host'')]])])"
    by code_simp
  from this ProcessToolsets_idempotent[OF this] show ?thesis by blast
qed

text \<open>A dictionary target with a list of toolsets becomes one target per toolset, the first last.\<close>

lemma toolset_targets_list:
  assumes "multiple_toolsets g" "dget d ''toolsets'' = Some (PList (b # bs))"
  shows "toolset_targets g (PDict d) =
    Inr (map (\<lambda>b. PDict (dset ''toolset'' b (ddel ''toolsets'' d))) (bs @ [b]))"
proof -
  have h: "dhas d ''toolsets''" using assms(2) by (simp add: dhas_def)
  have "rmap (\<lambda>b. set_item ''toolset'' b (PDict (ddel ''toolsets'' d))) bs =
      Inr (map (\<lambda>b. PDict (dset ''toolset'' b (ddel ''toolsets'' d))) bs)"
    by (rule rmap_total) (simp add: set_item_def)
  then show ?thesis using assms h
    by (auto simp: toolset_targets_def py_get_def as_dict_def del_item_def py_len_def slice_from_1_def
        py_getitem_def list_index_def set_item_def dget_default_def)
qed

section \<open>Defaults of targets: theorems\<close>

text \<open>Every target of the result is the defaults with the old target merged in; nothing else of the
  build file changes, except that the defaults are gone.\<close>

lemma merge_target_defaults_spec:
  assumes "merge_target_defaults rp g path d = Inr d'" "dget d ''target_defaults'' = Some defaults"
    "dget d ''targets'' = Some (PList ts)"
  shows "\<exists>ts'. dget d' ''targets'' = Some (PList ts')
    \<and> list_all2 (\<lambda>t t'. merge_target rp g path defaults t = Inr t') ts ts'
    \<and> \<not> dhas d' ''target_defaults''
    \<and> (\<forall>k. k \<noteq> ''targets'' \<and> k \<noteq> ''target_defaults'' \<longrightarrow> dget d' k = dget d k)"
proof -
  from assms obtain ts' where r: "rmap (merge_target rp g path defaults) ts = Inr ts'"
    "d' = ddel ''target_defaults'' (dset ''targets'' (PList ts') d)"
    by (auto simp: merge_target_defaults_def)
  from r(1)[unfolded rmap_list_all2] r(2) show ?thesis by simp
qed

end
