(* ===== verification/Gyp_Parallel.thy ===== *)
theory Gyp_Parallel
  imports Gyp_Load
begin

text \<open>
  Loading build files in parallel (\<open>tools/gyp/pylib/gyp/input.py\<close>): \<open>ParallelState\<close> with its
  callback, and the loop of \<open>LoadTargetBuildFilesParallel\<close>.  The processes of the pool are outside
  the model: \<open>load\<close> stands for what a worker returns for a build file (\<open>None\<close> when it failed), and
  the pool runs the callback of every submitted job once, in any order.  The loop holds the lock of
  the condition variable except while it waits, so a callback runs only when the loop waits, or was
  notified and has not got the lock back, or has ended.
\<close>

section \<open>State\<close>

type_synonym load_result = "string \<times> (string \<times> pydict) list \<times> aux_data \<times> string list"

text \<open>The field \<open>file_data\<close> is \<open>data\<close> without its key \<open>target_build_files\<close>.\<close>

record parallel_state =
  target_build_files :: "string list"
  file_data :: "(string \<times> pydict) list"
  file_aux_data :: aux_data
  pending :: int
  scheduled :: "string list"
  to_load :: "string list"
  error :: bool

text \<open>Where the loop is: between two callbacks, waiting, notified, or done.\<close>

datatype loop_position = Running | Waiting | Notified | Finished

text \<open>\<open>jobs\<close> are the calls that the pool has not answered yet, \<open>handed_out\<close> all that it was given.\<close>

record parallel_run =
  state :: parallel_state
  jobs :: "string list"
  handed_out :: "string list"
  pool :: bool
  position :: loop_position

section \<open>Operations\<close>

definition schedule :: "string \<Rightarrow> parallel_state \<Rightarrow> parallel_state" where
  "schedule new_dependency st =
     (if new_dependency \<in> set (scheduled st) then st
      else st\<lparr>scheduled := scheduled st @ [new_dependency], to_load := to_load st @ [new_dependency]\<rparr>)"

definition LoadTargetBuildFileCallback :: "load_result option \<Rightarrow> parallel_state \<Rightarrow> parallel_state" where
  "LoadTargetBuildFileCallback result st =
     (case result of
        None \<Rightarrow> st\<lparr>error := True\<rparr>
      | Some (build_file_path0, data0, aux_data0, dependencies0) \<Rightarrow>
          let st1 = st\<lparr>target_build_files := List.insert build_file_path0 (target_build_files st),
                       file_data := fold (\<lambda>(k, v). dset k v) data0 (file_data st),
                       file_aux_data := fold (\<lambda>(k, v). dset k v) aux_data0 (file_aux_data st)\<rparr>;
              st2 = fold schedule dependencies0 st1
          in st2\<lparr>pending := pending st2 - 1\<rparr>)"

definition parallel_start :: "string list \<Rightarrow> parallel_run" where
  "parallel_start build_files =
     \<lparr>state = \<lparr>target_build_files = [], file_data = [], file_aux_data = [], pending = 0,
               scheduled = build_files, to_load = build_files, error = False\<rparr>,
      jobs = [], handed_out = [], pool = False, position = Running\<rparr>"

definition work_left :: "parallel_state \<Rightarrow> bool" where
  "work_left st \<longleftrightarrow> to_load st \<noteq> [] \<or> pending st \<noteq> 0"

text \<open>One round of the loop that hands out a file: the last one of the list.\<close>

definition hand_out :: "parallel_run \<Rightarrow> parallel_run" where
  "hand_out r =
     (let st = state r; dependency = List.last (to_load st)
      in r\<lparr>state := st\<lparr>to_load := butlast (to_load st), pending := pending st + 1\<rparr>,
            jobs := dependency # jobs r, handed_out := handed_out r @ [dependency], pool := True\<rparr>)"

inductive parallel_step :: "(string \<Rightarrow> load_result option) \<Rightarrow> parallel_run \<Rightarrow> parallel_run \<Rightarrow> bool"
  for load where
  stop: "position r = Running \<Longrightarrow> \<not> work_left (state r) \<Longrightarrow>
    parallel_step load r (r\<lparr>position := Finished\<rparr>)"
| give_up: "position r = Running \<Longrightarrow> work_left (state r) \<Longrightarrow> error (state r) \<Longrightarrow>
    parallel_step load r (r\<lparr>position := Finished\<rparr>)"
| wait: "position r = Running \<Longrightarrow> work_left (state r) \<Longrightarrow> \<not> error (state r) \<Longrightarrow> to_load (state r) = [] \<Longrightarrow>
    parallel_step load r (r\<lparr>position := Waiting\<rparr>)"
| submit: "position r = Running \<Longrightarrow> \<not> error (state r) \<Longrightarrow> to_load (state r) \<noteq> [] \<Longrightarrow>
    parallel_step load r (hand_out r)"
| wake: "position r = Notified \<Longrightarrow> parallel_step load r (r\<lparr>position := Running\<rparr>)"
| callback: "position r \<noteq> Running \<Longrightarrow> job \<in> set (jobs r) \<Longrightarrow>
    parallel_step load r
      (r\<lparr>state := LoadTargetBuildFileCallback (load job) (state r), jobs := remove1 job (jobs r),
         position := (if position r = Waiting then Notified else position r)\<rparr>)"

inductive_cases parallel_stepE: "parallel_step load r r'"

text \<open>What the function ends with once the loop is done and the pool is joined.\<close>

datatype parallel_outcome = Loaded parallel_state | Exit nat | NoPool

definition parallel_outcome_of :: "parallel_run \<Rightarrow> parallel_outcome option" where
  "parallel_outcome_of r =
     (if position r \<noteq> Finished then None
      else if \<not> pool r then Some NoPool
      else if jobs r \<noteq> [] then None
      else if error (state r) then Some (Exit 1)
      else Some (Loaded (state r)))"

section \<open>The invariant\<close>

definition file_dependencies :: "(string \<Rightarrow> load_result option) \<Rightarrow> string \<Rightarrow> string list" where
  "file_dependencies load p = (case load p of None \<Rightarrow> [] | Some (f, d, a, ds) \<Rightarrow> ds)"

definition file_contents :: "(string \<Rightarrow> load_result option) \<Rightarrow> string \<Rightarrow> (string \<times> pydict) list" where
  "file_contents load p = (case load p of None \<Rightarrow> [] | Some (f, d, a, ds) \<Rightarrow> d)"

definition reachable_files :: "(string \<Rightarrow> load_result option) \<Rightarrow> string list \<Rightarrow> string set" where
  "reachable_files load build_files = {(p, q). q \<in> set (file_dependencies load p)}\<^sup>* `` set build_files"

text \<open>A worker answers for the file it was given.\<close>

definition answers_for_file :: "(string \<Rightarrow> load_result option) \<Rightarrow> bool" where
  "answers_for_file load \<longleftrightarrow> (\<forall>p f d a ds. load p = Some (f, d, a, ds) \<longrightarrow> f = p)"

text \<open>The files: scheduled files are loaded, or wait to be handed out, or are with a worker, each
  once; what a loaded file depends on was scheduled.\<close>

definition files_inv :: "(string \<Rightarrow> load_result option) \<Rightarrow> string list \<Rightarrow> parallel_run \<Rightarrow> bool" where
  "files_inv load build_files r \<longleftrightarrow>
     distinct (target_build_files (state r) @ to_load (state r) @ jobs r)
     \<and> set (target_build_files (state r) @ to_load (state r) @ jobs r) \<subseteq> set (scheduled (state r))
     \<and> distinct (handed_out r @ to_load (state r))
     \<and> set (handed_out r @ to_load (state r)) = set (scheduled (state r))
     \<and> set (scheduled (state r)) \<subseteq> reachable_files load build_files
     \<and> set build_files \<subseteq> set (scheduled (state r))
     \<and> (\<forall>p \<in> set (target_build_files (state r)).
          load p \<noteq> None \<and> set (file_dependencies load p) \<subseteq> set (scheduled (state r)))
     \<and> set (dkeys (file_data (state r))) =
         (\<Union>p \<in> set (target_build_files (state r)). set (dkeys (file_contents load p)))
     \<and> set (file_data (state r)) \<subseteq> (\<Union>p \<in> set (target_build_files (state r)). set (file_contents load p))"

text \<open>The counter: without an error it counts the jobs, and no scheduled file is lost.\<close>

definition count_inv :: "(string \<Rightarrow> load_result option) \<Rightarrow> string list \<Rightarrow> parallel_run \<Rightarrow> bool" where
  "count_inv load build_files r \<longleftrightarrow>
     (if error (state r)
      then int (length (jobs r)) < pending (state r)
        \<and> (\<exists>p \<in> reachable_files load build_files. load p = None)
      else pending (state r) = int (length (jobs r))
        \<and> set (scheduled (state r)) \<subseteq> set (target_build_files (state r) @ to_load (state r) @ jobs r))"

text \<open>The loop: it waits only for jobs that are running, and ends only when it may.\<close>

definition position_inv :: "string list \<Rightarrow> parallel_run \<Rightarrow> bool" where
  "position_inv build_files r \<longleftrightarrow>
     (position r = Waiting \<longrightarrow> to_load (state r) = [] \<and> \<not> error (state r) \<and> pending (state r) \<noteq> 0)
     \<and> (position r = Finished \<longrightarrow> error (state r) \<or> \<not> work_left (state r))
     \<and> (\<not> pool r \<longrightarrow> jobs r = [] \<and> pending (state r) = 0 \<and> to_load (state r) = build_files)"

lemma schedule_fold:
  "\<exists>new. fold schedule ds st = st\<lparr>scheduled := scheduled st @ new, to_load := to_load st @ new\<rparr>
    \<and> distinct new \<and> set new = set ds - set (scheduled st)"
proof (induction ds arbitrary: st)
  case (Cons d ds)
  show ?case
  proof (cases "d \<in> set (scheduled st)")
    case True
    with Cons.IH[of st] show ?thesis by (auto simp: schedule_def)
  next
    case False
    let ?st = "st\<lparr>scheduled := scheduled st @ [d], to_load := to_load st @ [d]\<rparr>"
    from Cons.IH[of ?st] obtain new where
      "fold schedule ds ?st = ?st\<lparr>scheduled := scheduled ?st @ new, to_load := to_load ?st @ new\<rparr>"
      "distinct new" "set new = set ds - set (scheduled ?st)" by blast
    moreover have "schedule d st = ?st" using False by (simp add: schedule_def)
    moreover have "distinct (d # new)" "set (d # new) = set (d # ds) - set (scheduled st)"
      using calculation(2,3) False by auto
    ultimately have "fold schedule (d # ds) st =
        st\<lparr>scheduled := scheduled st @ (d # new), to_load := to_load st @ (d # new)\<rparr>" by simp
    with \<open>distinct (d # new)\<close> \<open>set (d # new) = _\<close> show ?thesis by blast
  qed
qed (intro exI[of _ "[]"], simp)

lemma set_dkeys_dset: "fst ` set (dset k v d) = insert k (fst ` set d)"
proof -
  have "set (dkeys (dset k v d)) = insert k (set (dkeys d))"
    unfolding dkeys_dset by (simp add: insert_absorb)
  then show ?thesis by simp
qed

lemma set_dkeys_fold: "fst ` set (fold (\<lambda>(k, v). dset k v) xs d) = fst ` set xs \<union> fst ` set d"
  by (induction xs arbitrary: d) (simp_all add: set_dkeys_dset split_beta)

lemma set_fold_dset: "set (fold (\<lambda>(k, v). dset k v) xs d) \<subseteq> set xs \<union> set d"
proof (induction xs arbitrary: d)
  case (Cons x xs)
  obtain k v where x: "x = (k, v)" by fastforce
  from Cons.IH[of "dset k v d"] set_dset[of k v d] show ?case by (auto simp: x)
qed simp

lemma length_remove1_Suc: "x \<in> set xs \<Longrightarrow> Suc (length (remove1 x xs)) = length xs"
  by (induction xs) auto

text \<open>What a callback does, in terms of the fields.\<close>

lemma callback_failed: "LoadTargetBuildFileCallback None st = st\<lparr>error := True\<rparr>"
  by (simp add: LoadTargetBuildFileCallback_def)

lemma callback_loaded:
  assumes "load p = Some (p, d, a, ds)" "p \<notin> set (target_build_files st)"
  obtains new where "distinct new" "set new = set (file_dependencies load p) - set (scheduled st)"
    "target_build_files (LoadTargetBuildFileCallback (load p) st) = p # target_build_files st"
    "set (dkeys (file_data (LoadTargetBuildFileCallback (load p) st))) =
       set (dkeys (file_contents load p)) \<union> set (dkeys (file_data st))"
    "set (file_data (LoadTargetBuildFileCallback (load p) st)) \<subseteq> set (file_contents load p) \<union> set (file_data st)"
    "scheduled (LoadTargetBuildFileCallback (load p) st) = scheduled st @ new"
    "to_load (LoadTargetBuildFileCallback (load p) st) = to_load st @ new"
    "pending (LoadTargetBuildFileCallback (load p) st) = pending st - 1"
    "error (LoadTargetBuildFileCallback (load p) st) = error st"
proof -
  let ?st = "st\<lparr>target_build_files := List.insert p (target_build_files st),
      file_data := fold (\<lambda>(k, v). dset k v) d (file_data st),
      file_aux_data := fold (\<lambda>(k, v). dset k v) a (file_aux_data st)\<rparr>"
  from schedule_fold[of ds ?st] obtain new where
    new: "fold schedule ds ?st = ?st\<lparr>scheduled := scheduled ?st @ new, to_load := to_load ?st @ new\<rparr>"
      "distinct new" "set new = set ds - set (scheduled ?st)" by blast
  have c: "LoadTargetBuildFileCallback (Some (p, d, a, ds)) st =
      ?st\<lparr>scheduled := scheduled st @ new, to_load := to_load st @ new, pending := pending st - 1\<rparr>"
    using assms(1) new(1) by (simp add: LoadTargetBuildFileCallback_def)
  show thesis
    by (rule that[of new])
      (use assms new(2,3) in \<open>simp_all add: c file_dependencies_def file_contents_def set_dkeys_fold set_fold_dset\<close>)
qed

section \<open>The invariant is kept\<close>

definition parallel_inv :: "(string \<Rightarrow> load_result option) \<Rightarrow> string list \<Rightarrow> parallel_run \<Rightarrow> bool" where
  "parallel_inv load build_files r \<longleftrightarrow>
     files_inv load build_files r \<and> count_inv load build_files r \<and> position_inv build_files r"

lemma parallel_inv_start:
  assumes "distinct build_files"
  shows "parallel_inv load build_files (parallel_start build_files)"
proof -
  have "set build_files \<subseteq> reachable_files load build_files" by (auto simp: reachable_files_def)
  with assms show ?thesis
    by (simp add: parallel_inv_def files_inv_def count_inv_def position_inv_def parallel_start_def)
qed

lemma files_inv_position [simp]: "files_inv load bfs (r\<lparr>position := x\<rparr>) = files_inv load bfs r"
  by (simp add: files_inv_def)

lemma count_inv_position [simp]: "count_inv load bfs (r\<lparr>position := x\<rparr>) = count_inv load bfs r"
  by (simp add: count_inv_def)

lemma hand_out_keeps:
  assumes "parallel_inv load bfs r" "position r = Running" "\<not> error (state r)" "to_load (state r) \<noteq> []"
  shows "parallel_inv load bfs (hand_out r)"
proof -
  from assms(4) obtain xs x where x: "to_load (state r) = xs @ [x]" by (cases "to_load (state r)" rule: rev_cases) auto
  then have h: "target_build_files (state (hand_out r)) = target_build_files (state r)"
    "file_data (state (hand_out r)) = file_data (state r)" "scheduled (state (hand_out r)) = scheduled (state r)"
    "to_load (state (hand_out r)) = xs" "jobs (hand_out r) = x # jobs r"
    "handed_out (hand_out r) = handed_out r @ [x]" "error (state (hand_out r)) = error (state r)"
    "pending (state (hand_out r)) = pending (state r) + 1" "pool (hand_out r)" "position (hand_out r) = Running"
    using assms(2) by (simp_all add: hand_out_def Let_def)
  have "files_inv load bfs (hand_out r)"
    using assms(1) unfolding parallel_inv_def files_inv_def h x by auto
  moreover have "count_inv load bfs (hand_out r)"
    using assms(1,3) unfolding parallel_inv_def count_inv_def h x by auto
  moreover have "position_inv bfs (hand_out r)" by (simp add: position_inv_def h)
  ultimately show ?thesis by (simp add: parallel_inv_def)
qed

lemma reachable_files_step:
  "p \<in> reachable_files load bfs \<Longrightarrow> set (file_dependencies load p) \<subseteq> reachable_files load bfs"
  unfolding reachable_files_def by (auto intro: rtrancl_into_rtrancl)

lemma files_inv_failed:
  assumes "files_inv load bfs r"
  shows "files_inv load bfs (r\<lparr>state := (state r)\<lparr>error := True\<rparr>, jobs := remove1 job (jobs r), position := x\<rparr>)"
  using assms set_remove1_subset[of job "jobs r"] unfolding files_inv_def
  by (auto simp: distinct_remove1)

lemma callback_keeps:
  assumes inv: "parallel_inv load bfs r" and pos: "position r \<noteq> Running" and job: "job \<in> set (jobs r)"
    and ans: "answers_for_file load"
    and r': "r' = r\<lparr>state := LoadTargetBuildFileCallback (load job) (state r), jobs := remove1 job (jobs r),
         position := (if position r = Waiting then Notified else position r)\<rparr>"
  shows "parallel_inv load bfs r'"
proof -
  have f: "files_inv load bfs r" and c: "count_inv load bfs r" and p: "position_inv bfs r"
    using inv by (simp_all add: parallel_inv_def)
  have jr: "job \<in> reachable_files load bfs" "job \<notin> set (target_build_files (state r))"
    "job \<notin> set (to_load (state r))" "distinct (jobs r)"
    using f job by (auto simp: files_inv_def)
  have len: "int (length (remove1 job (jobs r))) = int (length (jobs r)) - 1"
    using length_remove1_Suc[OF job] by linarith
  have pool: "pool r" using p job by (auto simp: position_inv_def)
  have jobs: "jobs r' = remove1 job (jobs r)" "pool r'" "position r' \<noteq> Waiting"
    "position r' = Finished \<longleftrightarrow> position r = Finished"
    using pos pool by (simp_all add: r')
  show ?thesis
  proof (cases "load job")
    case None
    have "files_inv load bfs r'" using files_inv_failed[OF f] by (simp add: r' None callback_failed)
    moreover have "count_inv load bfs r'"
      using c jr(1) None len by (auto simp: count_inv_def r' callback_failed split: if_splits)
    moreover have "position_inv bfs r'" using jobs by (auto simp: position_inv_def r' None callback_failed)
    ultimately show ?thesis by (simp add: parallel_inv_def)
  next
    case (Some res)
    then obtain d a ds where l: "load job = Some (job, d, a, ds)"
      using ans unfolding answers_for_file_def by (cases res) blast
    from callback_loaded[where load = load, OF l jr(2)] obtain new where new: "distinct new"
      "set new = set (file_dependencies load job) - set (scheduled (state r))"
      "target_build_files (state r') = job # target_build_files (state r)"
      "set (dkeys (file_data (state r'))) = set (dkeys (file_contents load job)) \<union> set (dkeys (file_data (state r)))"
      "set (file_data (state r')) \<subseteq> set (file_contents load job) \<union> set (file_data (state r))"
      "scheduled (state r') = scheduled (state r) @ new"
      "to_load (state r') = to_load (state r) @ new"
      "pending (state r') = pending (state r) - 1"
      "error (state r') = error (state r)" unfolding r' by auto
    have "files_inv load bfs r'" unfolding files_inv_def
    proof (intro conjI)
      have d: "distinct (target_build_files (state r) @ to_load (state r) @ jobs r)"
        "set (target_build_files (state r) @ to_load (state r) @ jobs r) \<subseteq> set (scheduled (state r))"
        using f by (simp_all add: files_inv_def)
      have rem: "set (remove1 job (jobs r)) = set (jobs r) - {job}" using jr(4) by simp
      have out: "set new \<inter> set (scheduled (state r)) = {}" using new(2) by blast
      have "distinct (target_build_files (state r))" "distinct (to_load (state r))"
        "distinct (remove1 job (jobs r))" using d(1) by (simp_all add: distinct_remove1)
      moreover have "set (target_build_files (state r)) \<inter> set (to_load (state r)) = {}"
        "set (target_build_files (state r)) \<inter> set (jobs r) = {}" "set (to_load (state r)) \<inter> set (jobs r) = {}"
        using d(1) by auto
      moreover have "job \<in> set (scheduled (state r))" using d(2) job by auto
      ultimately show "distinct (target_build_files (state r') @ to_load (state r') @ jobs r')"
        unfolding new(3,7) jobs(1) distinct_append set_append rem list.set
        using new(1) out d(2) jr(2,3) by auto
      show "set (target_build_files (state r') @ to_load (state r') @ jobs r') \<subseteq> set (scheduled (state r'))"
        unfolding new(3,6,7) jobs(1) set_append rem list.set using d(2) job by auto
      have h: "handed_out r' = handed_out r" by (simp add: r')
      have hd: "distinct (handed_out r @ to_load (state r))"
        "set (handed_out r @ to_load (state r)) = set (scheduled (state r))" using f by (simp_all add: files_inv_def)
      show "distinct (handed_out r' @ to_load (state r'))"
        using hd(1) out new(1) unfolding h new(7) hd(2)[symmetric] by auto
      show "set (handed_out r' @ to_load (state r')) = set (scheduled (state r'))"
        using hd(2) unfolding h new(6,7) by auto
      show "set (scheduled (state r')) \<subseteq> reachable_files load bfs"
        unfolding new(6) set_append new(2)
        using f reachable_files_step[OF jr(1)] by (auto simp: files_inv_def)
      show "set bfs \<subseteq> set (scheduled (state r'))"
        unfolding new(6) set_append using f by (auto simp: files_inv_def)
      show "\<forall>p \<in> set (target_build_files (state r')).
          load p \<noteq> None \<and> set (file_dependencies load p) \<subseteq> set (scheduled (state r'))"
        unfolding new(3,6) set_append new(2) using f l by (auto simp: files_inv_def)
      show "set (dkeys (file_data (state r'))) =
          (\<Union>p \<in> set (target_build_files (state r')). set (dkeys (file_contents load p)))"
        unfolding new(3,4) using f by (simp add: files_inv_def)
      show "set (file_data (state r')) \<subseteq> (\<Union>p \<in> set (target_build_files (state r')). set (file_contents load p))"
        unfolding new(3) using new(5) f by (auto simp: files_inv_def)
    qed
    moreover have "count_inv load bfs r'"
    proof (cases "error (state r)")
      case True
      with c len show ?thesis by (auto simp: count_inv_def new(8,9) jobs(1))
    next
      case False
      have "set (remove1 job (jobs r)) = set (jobs r) - {job}" using jr(4) by simp
      with False c len show ?thesis by (auto simp: count_inv_def new(3,6-9) jobs(1))
    qed
    moreover have "position_inv bfs r'"
    proof -
      have "error (state r)" if "position r = Finished"
      proof (rule ccontr)
        assume e: "\<not> error (state r)"
        with p that have "pending (state r) = 0" by (auto simp: position_inv_def work_left_def)
        moreover have "pending (state r) = int (length (jobs r))" using c e by (simp add: count_inv_def)
        ultimately show False using job by auto
      qed
      then show ?thesis using jobs new(9) by (auto simp: position_inv_def)
    qed
    ultimately show ?thesis by (simp add: parallel_inv_def)
  qed
qed

lemma parallel_inv_step:
  assumes "parallel_step load r r'" "parallel_inv load bfs r" "answers_for_file load"
  shows "parallel_inv load bfs r'"
  using assms(1)
proof cases
  case stop
  with assms(2) show ?thesis by (auto simp: parallel_inv_def position_inv_def)
next
  case give_up
  with assms(2) show ?thesis by (auto simp: parallel_inv_def position_inv_def)
next
  case wait
  with assms(2) show ?thesis by (auto simp: parallel_inv_def position_inv_def work_left_def)
next
  case submit
  then show ?thesis using hand_out_keeps[OF assms(2)] by simp
next
  case wake
  with assms(2) show ?thesis by (auto simp: parallel_inv_def position_inv_def)
next
  case (callback job)
  show ?thesis by (rule callback_keeps[OF assms(2) callback(2,3) assms(3) callback(1)])
qed

lemma parallel_inv_reachable:
  assumes "(parallel_step load)\<^sup>*\<^sup>* (parallel_start bfs) r" "distinct bfs" "answers_for_file load"
  shows "parallel_inv load bfs r"
  using assms(1)
  by (induction rule: rtranclp_induct) (auto intro: parallel_inv_start parallel_inv_step assms(2,3))

section \<open>Results\<close>

text \<open>Scheduled files are all reachable files, once nothing is left to do.\<close>

lemma all_loaded:
  assumes "parallel_inv load bfs r" "\<not> error (state r)" "\<not> work_left (state r)"
  shows "set (target_build_files (state r)) = reachable_files load bfs" "jobs r = []"
proof -
  have f: "files_inv load bfs r" and c: "count_inv load bfs r"
    using assms(1) by (simp_all add: parallel_inv_def)
  show j: "jobs r = []" using c assms(2,3) by (simp add: count_inv_def work_left_def)
  let ?t = "set (target_build_files (state r))"
  have "set (scheduled (state r)) \<subseteq> ?t" using c assms(2,3) j by (auto simp: count_inv_def work_left_def)
  then have s: "set (scheduled (state r)) = ?t" using f by (auto simp: files_inv_def)
  have "q \<in> ?t" if "(p, q) \<in> {(p, q). q \<in> set (file_dependencies load p)}\<^sup>*" "p \<in> set bfs" for p q
    using that(1)
  proof (induction rule: rtrancl_induct)
    case base
    then show ?case using f that(2) s by (auto simp: files_inv_def)
  next
    case (step y z)
    then show ?case using f s by (auto simp: files_inv_def)
  qed
  then have "reachable_files load bfs \<subseteq> ?t" by (auto simp: reachable_files_def)
  moreover have "?t \<subseteq> reachable_files load bfs" using f s by (auto simp: files_inv_def)
  ultimately show "?t = reachable_files load bfs" by blast
qed

lemma parallel_outcome_loads:
  assumes "(parallel_step load)\<^sup>*\<^sup>* (parallel_start build_files) r" "parallel_outcome_of r = Some res"
    and "distinct build_files" "answers_for_file load"
  shows "case res of
      Loaded st \<Rightarrow> distinct (target_build_files st)
        \<and> set (target_build_files st) = reachable_files load build_files
        \<and> (\<forall>p \<in> reachable_files load build_files. load p \<noteq> None)
        \<and> distinct (handed_out r) \<and> set (handed_out r) = reachable_files load build_files
        \<and> set (dkeys (file_data st)) = (\<Union>p \<in> reachable_files load build_files. set (dkeys (file_contents load p)))
        \<and> set (file_data st) \<subseteq> (\<Union>p \<in> reachable_files load build_files. set (file_contents load p))
    | Exit n \<Rightarrow> n = 1 \<and> (\<exists>p \<in> reachable_files load build_files. load p = None)
    | NoPool \<Rightarrow> build_files = []"
proof -
  note inv = parallel_inv_reachable[OF assms(1,3,4)]
  have f: "files_inv load build_files r" and c: "count_inv load build_files r" and p: "position_inv build_files r"
    using inv by (simp_all add: parallel_inv_def)
  from assms(2) have fin: "position r = Finished" by (simp add: parallel_outcome_of_def split: if_splits)
  show ?thesis
  proof (cases "pool r \<and> \<not> error (state r)")
    case True
    with assms(2) fin have res: "res = Loaded (state r)" by (simp add: parallel_outcome_of_def split: if_splits)
    have done_all: "\<not> work_left (state r)" using p fin True by (auto simp: position_inv_def)
    then have "to_load (state r) = []" by (simp add: work_left_def)
    moreover from all_loaded(1)[OF inv _ done_all] True
    have files: "set (target_build_files (state r)) = reachable_files load build_files" by simp
    ultimately have "set (handed_out r) = reachable_files load build_files"
      using f unfolding files_inv_def by auto
    with f files show ?thesis by (simp add: res files_inv_def)
  next
    case False
    show ?thesis
    proof (cases "pool r")
      case True
      with False assms(2) fin have "res = Exit 1" by (simp add: parallel_outcome_of_def split: if_splits)
      moreover have "error (state r)" using True False by simp
      ultimately show ?thesis using c by (simp add: count_inv_def)
    next
      case no: False
      with assms(2) fin have "res = NoPool" by (simp add: parallel_outcome_of_def)
      moreover have "build_files = []"
      proof (cases "error (state r)")
        case True
        with no c p show ?thesis by (simp add: position_inv_def count_inv_def)
      next
        case False
        with no p fin show ?thesis by (auto simp: position_inv_def work_left_def)
      qed
      ultimately show ?thesis by simp
    qed
  qed
qed

text \<open>C6.  However the callbacks interleave with the loop: a run that ends well has handed exactly the
  files that can be reached from the build files through dependencies to the pool, each once, and
  loaded them; its data have an entry for every file that a worker sent, and only entries that
  workers sent; it exits with an error exactly when one of these files did not load;
  and without build files there is no pool to close.\<close>

theorem LoadTargetBuildFilesParallel_loads:
  assumes "(parallel_step load)\<^sup>*\<^sup>* (parallel_start build_files) r" "parallel_outcome_of r = Some res"
    and "distinct build_files" "answers_for_file load"
  shows "case res of
      Loaded st \<Rightarrow> distinct (target_build_files st)
        \<and> set (target_build_files st) = reachable_files load build_files
        \<and> (\<forall>p \<in> reachable_files load build_files. load p \<noteq> None)
        \<and> distinct (handed_out r) \<and> set (handed_out r) = reachable_files load build_files
        \<and> set (dkeys (file_data st)) = (\<Union>p \<in> reachable_files load build_files. set (dkeys (file_contents load p)))
        \<and> set (file_data st) \<subseteq> (\<Union>p \<in> reachable_files load build_files. set (file_contents load p))
    | Exit n \<Rightarrow> n = 1 \<and> (\<exists>p \<in> reachable_files load build_files. load p = None)
    | NoPool \<Rightarrow> build_files = []"
  using assms by (rule parallel_outcome_loads)

section \<open>Progress\<close>

definition position_weight :: "loop_position \<Rightarrow> nat" where
  "position_weight x = (case x of Running \<Rightarrow> 2 | Waiting \<Rightarrow> 1 | Notified \<Rightarrow> 3 | Finished \<Rightarrow> 0)"

definition work_measure :: "(string \<Rightarrow> load_result option) \<Rightarrow> string list \<Rightarrow> parallel_run \<Rightarrow> nat" where
  "work_measure load bfs r =
     10 * card (reachable_files load bfs - set (scheduled (state r)))
     + 9 * length (to_load (state r)) + 5 * length (jobs r) + position_weight (position r)"

lemma step_decreases:
  assumes fin: "finite (reachable_files load bfs)" and st: "parallel_step load r r'"
    and inv: "parallel_inv load bfs r" and ans: "answers_for_file load"
  shows "work_measure load bfs r' < work_measure load bfs r"
  using st
proof cases
  case submit
  then obtain xs x where "to_load (state r) = xs @ [x]" by (cases "to_load (state r)" rule: rev_cases) auto
  with submit show ?thesis by (simp add: work_measure_def hand_out_def Let_def)
next
  case (callback job)
  have len: "Suc (length (remove1 job (jobs r))) = length (jobs r)"
    by (rule length_remove1_Suc[OF callback(3)])
  have pos: "position_weight (if position r = Waiting then Notified else position r)
      \<le> position_weight (position r) + 2"
    by (simp add: position_weight_def)
  show ?thesis
  proof (cases "load job")
    case None
    with callback(1) len pos show ?thesis by (simp add: work_measure_def callback_failed)
  next
    case (Some res)
    then obtain d a ds where l: "load job = Some (job, d, a, ds)"
      using ans unfolding answers_for_file_def by (cases res) blast
    have jr: "job \<in> reachable_files load bfs" "job \<notin> set (target_build_files (state r))"
      using inv callback(3) by (auto simp: parallel_inv_def files_inv_def)
    have sr: "state r' = LoadTargetBuildFileCallback (load job) (state r)" by (simp add: callback(1))
    obtain new where new: "distinct new"
      "set new = set (file_dependencies load job) - set (scheduled (state r))"
      "scheduled (state r') = scheduled (state r) @ new" "to_load (state r') = to_load (state r) @ new"
      unfolding sr by (rule callback_loaded[where load = load, OF l jr(2)])
    have sub: "set new \<subseteq> reachable_files load bfs - set (scheduled (state r))"
      using new(2) reachable_files_step[OF jr(1)] by blast
    have "reachable_files load bfs - set (scheduled (state r'))
        = (reachable_files load bfs - set (scheduled (state r))) - set new" unfolding new(3) by auto
    then have "card (reachable_files load bfs - set (scheduled (state r'))) + length new
        = card (reachable_files load bfs - set (scheduled (state r)))"
      using card_Diff_subset[OF _ sub] card_mono[OF _ sub] fin distinct_card[OF new(1)] by simp
    moreover have "jobs r' = remove1 job (jobs r)"
      "position r' = (if position r = Waiting then Notified else position r)" by (simp_all add: callback(1))
    ultimately show ?thesis using len pos new(4) by (simp add: work_measure_def)
  qed
qed (simp_all add: work_measure_def position_weight_def)

lemma step_possible:
  assumes inv: "parallel_inv load bfs r" and "position r \<noteq> Finished \<or> jobs r \<noteq> []"
  shows "\<exists>r'. parallel_step load r r'"
proof (cases "position r")
  case Running
  consider "\<not> work_left (state r)" | "work_left (state r)" "error (state r)"
    | "\<not> error (state r)" "to_load (state r) \<noteq> []"
    | "work_left (state r)" "\<not> error (state r)" "to_load (state r) = []" by blast
  then show ?thesis
  proof cases
    case 1
    show ?thesis by (rule exI, rule parallel_step.stop[OF Running 1])
  next
    case 2
    show ?thesis by (rule exI, rule parallel_step.give_up[OF Running 2])
  next
    case 3
    show ?thesis by (rule exI, rule parallel_step.submit[OF Running 3])
  next
    case 4
    show ?thesis by (rule exI, rule parallel_step.wait[OF Running 4])
  qed
next
  case Notified
  then show ?thesis using parallel_step.wake[of r load] by blast
next
  case Waiting
  with inv have "jobs r \<noteq> []" by (auto simp: parallel_inv_def position_inv_def count_inv_def)
  then obtain job where "job \<in> set (jobs r)" by (cases "jobs r") auto
  with Waiting show ?thesis using parallel_step.callback[of r job load] by auto
next
  case Finished
  with assms(2) obtain job where "job \<in> set (jobs r)" by (cases "jobs r") auto
  with Finished show ?thesis using parallel_step.callback[of r job load] by auto
qed

lemma steps_bounded:
  assumes "finite (reachable_files load bfs)" "answers_for_file load" "(parallel_step load ^^ n) r r'"
    and "parallel_inv load bfs r"
  shows "n + work_measure load bfs r' \<le> work_measure load bfs r"
  using assms(3)
proof (induction n arbitrary: r')
  case (Suc n)
  then obtain u where u: "(parallel_step load ^^ n) r u" "parallel_step load u r'" by auto
  have "(parallel_step load)\<^sup>*\<^sup>* r u" using u(1) by (rule relpowp_imp_rtranclp)
  then have inv: "parallel_inv load bfs u"
    by (induction rule: rtranclp_induct) (auto intro: assms(2,4) parallel_inv_step)
  from step_decreases[OF assms(1) u(2) inv assms(2)] Suc.IH[OF u(1)] show ?case by linarith
qed simp

text \<open>C21.  Loading in parallel cannot get stuck: as long as there is no outcome a step is possible,
  so the loop never waits for a notification that does not come; and when finitely many files can
  be reached, every run ends, after a number of steps that the files bound.\<close>

theorem LoadTargetBuildFilesParallel_progress:
  assumes "(parallel_step load)\<^sup>*\<^sup>* (parallel_start build_files) r" "distinct build_files"
    and "answers_for_file load" "finite (reachable_files load build_files)"
  shows "(parallel_outcome_of r = None \<longrightarrow> (\<exists>r'. parallel_step load r r'))
    \<and> (\<forall>n r'. (parallel_step load ^^ n) r r' \<longrightarrow> n \<le> work_measure load build_files (parallel_start build_files))"
proof (intro conjI allI impI)
  note inv = parallel_inv_reachable[OF assms(1-3)]
  show "\<exists>r'. parallel_step load r r'" if "parallel_outcome_of r = None"
    by (rule step_possible[OF inv]) (use that in \<open>auto simp: parallel_outcome_of_def split: if_splits\<close>)
  fix n r' assume n: "(parallel_step load ^^ n) r r'"
  from assms(1) obtain m where m: "(parallel_step load ^^ m) (parallel_start build_files) r"
    by (auto simp: rtranclp_power)
  from steps_bounded[OF assms(4,3) n inv] steps_bounded[OF assms(4,3) m parallel_inv_start[OF assms(2)]]
  show "n \<le> work_measure load build_files (parallel_start build_files)" by linarith
qed

text \<open>A run with one file that depends on no other: handed out, waited for, loaded.\<close>

definition one_file_run :: "string \<Rightarrow> (string \<times> pydict) list \<Rightarrow> aux_data \<Rightarrow> parallel_run" where
  "one_file_run p d a = \<lparr>state = \<lparr>target_build_files = [p], file_data = fold (\<lambda>(k, v). dset k v) d [],
      file_aux_data = fold (\<lambda>(k, v). dset k v) a [], pending = 0,
      scheduled = [p], to_load = [], error = False\<rparr>, jobs = [], handed_out = [p], pool = True, position = Finished\<rparr>"

lemma one_file_steps:
  assumes "load p = Some (p, d, a, [])"
  shows "(parallel_step load)\<^sup>*\<^sup>* (parallel_start [p]) (one_file_run p d a)"
proof -
  let ?r1 = "hand_out (parallel_start [p])"
  let ?r2 = "?r1\<lparr>position := Waiting\<rparr>"
  let ?r3 = "?r2\<lparr>state := LoadTargetBuildFileCallback (load p) (state ?r2),
      jobs := remove1 p (jobs ?r2), position := (if position ?r2 = Waiting then Notified else position ?r2)\<rparr>"
  let ?r4 = "?r3\<lparr>position := Running\<rparr>"
  let ?r5 = "?r4\<lparr>position := Finished\<rparr>"
  note defs = parallel_start_def hand_out_def work_left_def LoadTargetBuildFileCallback_def assms
    one_file_run_def Let_def
  have s1: "parallel_step load (parallel_start [p]) ?r1"
    by (rule parallel_step.submit) (simp_all add: defs)
  have s2: "parallel_step load ?r1 ?r2" by (rule parallel_step.wait) (simp_all add: defs)
  have s3: "parallel_step load ?r2 ?r3" by (rule parallel_step.callback) (simp_all add: defs)
  have s4: "parallel_step load ?r3 ?r4" by (rule parallel_step.wake) (simp add: defs)
  have s5: "parallel_step load ?r4 ?r5" by (rule parallel_step.stop) (simp_all add: defs)
  note step = converse_rtranclp_into_rtranclp[where r = "parallel_step load"]
  have "(parallel_step load)\<^sup>*\<^sup>* (parallel_start [p]) ?r5"
    by (rule step[OF s1], rule step[OF s2], rule step[OF s3], rule step[OF s4], rule r_into_rtranclp, rule s5)
  moreover have "?r5 = one_file_run p d a" by (simp add: defs)
  ultimately show ?thesis by simp
qed

lemma one_file_outcome: "parallel_outcome_of (one_file_run p d a) = Some (Loaded (state (one_file_run p d a)))"
  by (simp add: parallel_outcome_of_def one_file_run_def)

definition sample_load :: "string \<Rightarrow> load_result option" where
  "sample_load p = Some (p, [], [], [])"

lemma sample_answers: "answers_for_file sample_load"
  by (simp add: answers_for_file_def sample_load_def)

lemma sample_reachable: "reachable_files sample_load [''a''] = {''a''}"
proof -
  have "{(p, q). q \<in> set (file_dependencies sample_load p)} = {}"
    by (simp add: file_dependencies_def sample_load_def)
  then show ?thesis by (simp add: reachable_files_def)
qed

theorem LoadTargetBuildFilesParallel_loads_witness:
  "set (target_build_files (state (one_file_run ''a'' [] []))) = reachable_files sample_load [''a'']"
proof -
  have "sample_load ''a'' = Some (''a'', [], [], [])" by (simp add: sample_load_def)
  from LoadTargetBuildFilesParallel_loads[OF one_file_steps[of sample_load, OF this] one_file_outcome _ sample_answers]
  show ?thesis by simp
qed

theorem LoadTargetBuildFilesParallel_progress_witness:
  "\<exists>r'. parallel_step sample_load (parallel_start [''a'']) r'"
proof -
  have "finite (reachable_files sample_load [''a''])" by (simp add: sample_reachable)
  from LoadTargetBuildFilesParallel_progress[OF rtranclp.rtrancl_refl _ sample_answers this]
  show ?thesis by (simp add: parallel_outcome_of_def parallel_start_def)
qed

end
