(* ===== verification/Gyp_Common_Graph.thy ===== *)
theory Gyp_Common_Graph
  imports Gyp_Link
begin

text \<open>
  The functions on graphs of \<open>tools/gyp/pylib/gyp/common.py\<close>: \<open>DeepDependencyTargets\<close>,
  \<open>AllTargets\<close> and \<open>TopologicallySorted\<close>.  The sets of the source are lists without repetition;
  the element \<open>pending.pop\<close> takes is chosen by the parameter \<open>pick\<close>.
\<close>

section \<open>Deep dependency targets\<close>

text \<open>\<open>set(...)\<close> of a value of a target: its elements once each, which must be hashable.\<close>

definition hashable_set :: "pyval \<Rightarrow> pyval list res" where
  "hashable_set v =
     rbind (py_iter v) (\<lambda>l.
       case find (\<lambda>x. class_name x \<in> {''list'', ''dict''}) l of
         Some x \<Rightarrow> Inl (TypeError (''unhashable type: '' @ class_name x))
       | None \<Rightarrow> Inr (remdups l))"

definition pending_update :: "pyval list \<Rightarrow> pyval list \<Rightarrow> pyval list" where
  "pending_update found pending = pending @ filter (\<lambda>x. x \<notin> set pending) found"

text \<open>The names a target brings in.\<close>

definition add_children :: "pydict \<Rightarrow> pyval list \<Rightarrow> pyval list res" where
  "add_children spec pending =
     rbind (hashable_set (dget_default spec ''dependencies'' (PList []))) (\<lambda>a.
     rbind (hashable_set (dget_default spec ''dependencies_original'' (PList []))) (\<lambda>b.
       Inr (pending_update b (pending_update a pending))))"

definition unvisited :: "target_table \<Rightarrow> pyval list \<Rightarrow> nat" where
  "unvisited target_dicts found = card (PStr ` set (dkeys target_dicts) - set found)"

lemma target_at_Inr: "target_at targets v = Inr d \<Longrightarrow> \<exists>s. v = PStr s \<and> dget targets s = Some d"
  by (cases v) (auto simp: target_at_def)

lemma unvisited_less:
  assumes "target_at target_dicts r = Inr spec" "r \<notin> set found"
  shows "unvisited target_dicts (found @ [r]) < unvisited target_dicts found"
proof -
  from target_at_Inr[OF assms(1)] obtain s where s: "r = PStr s" "dget target_dicts s = Some spec" by blast
  from map_of_SomeD[OF s(2)] have "s \<in> set (dkeys target_dicts)" by force
  with s(1) assms(2) show ?thesis unfolding unvisited_def by (intro psubset_card_mono) auto
qed

function deep_targets :: "(pyval list \<Rightarrow> pyval list \<Rightarrow> nat) \<Rightarrow> target_table \<Rightarrow> pyval list \<Rightarrow> pyval list
    \<Rightarrow> pyval list res" where
  "deep_targets pick target_dicts pending found =
     (if pending = [] then Inr found
      else
        let r = pending ! (pick found pending mod length pending); rest = removeAll r pending
        in if r \<in> set found then deep_targets pick target_dicts rest found
           else
             (case target_at target_dicts r of
                Inl e \<Rightarrow> Inl e
              | Inr spec \<Rightarrow>
                  (case add_children spec rest of
                     Inl e \<Rightarrow> Inl e
                   | Inr pending' \<Rightarrow> deep_targets pick target_dicts pending' (found @ [r]))))"
  by pat_completeness auto
termination
proof (relation "inv_image (less_than <*lex*> less_than)
    (\<lambda>(pick, target_dicts, pending, found). (unvisited target_dicts found, length pending))")
  fix pick :: "pyval list \<Rightarrow> pyval list \<Rightarrow> nat" and target_dicts :: target_table
    and pending found r rest
  assume p: "pending \<noteq> []" and r: "r = pending ! (pick found pending mod length pending)"
    and rest: "rest = removeAll r pending"
  from p r have "r \<in> set pending" by simp
  then have "length rest < length pending" unfolding rest by (simp add: length_removeAll_less)
  then show "((pick, target_dicts, rest, found), pick, target_dicts, pending, found)
      \<in> inv_image (less_than <*lex*> less_than)
          (\<lambda>(pick, target_dicts, pending, found). (unvisited target_dicts found, length pending))" by simp
next
  fix pick :: "pyval list \<Rightarrow> pyval list \<Rightarrow> nat" and target_dicts :: target_table
    and pending found r rest spec pending'
  assume "r \<notin> set found" "target_at target_dicts r = Inr spec"
  from unvisited_less[OF this(2,1)]
  show "((pick, target_dicts, pending', found @ [r]), pick, target_dicts, pending, found)
      \<in> inv_image (less_than <*lex*> less_than)
          (\<lambda>(pick, target_dicts, pending, found). (unvisited target_dicts found, length pending))" by simp
qed (intro wf_inv_image wf_lex_prod wf_less_than)

declare deep_targets.simps [simp del]

definition DeepDependencyTargets :: "(pyval list \<Rightarrow> pyval list \<Rightarrow> nat) \<Rightarrow> target_table \<Rightarrow> string list
    \<Rightarrow> pyval list res" where
  "DeepDependencyTargets pick target_dicts roots =
     rbind (deep_targets pick target_dicts (map PStr (remdups roots)) []) (\<lambda>found.
       Inr (filter (\<lambda>x. x \<notin> PStr ` set roots) found))"

definition AllTargets :: "(pyval list \<Rightarrow> pyval list \<Rightarrow> nat) \<Rightarrow> string list \<Rightarrow> target_table \<Rightarrow> string
    \<Rightarrow> pyval list res" where
  "AllTargets pick target_list target_dicts build_file =
     (let bftargets = BuildFileTargets target_list build_file in
      rbind (DeepDependencyTargets pick target_dicts bftargets) (\<lambda>deptargets.
        Inr (map PStr bftargets @ deptargets)))"

section \<open>Topological sorting\<close>

text \<open>The state of the nested function \<open>Visit\<close>.  The cycle error carries the nodes of \<open>visiting\<close>.
  \<open>get_edges\<close> is called once per node here and in the source, so its cache is never read.\<close>

record sorting =
  visited :: "string list"
  visiting :: "string list"
  ordered_nodes :: "string list"

definition enter :: "string \<Rightarrow> sorting \<Rightarrow> sorting" where
  "enter node st = st\<lparr>visited := node # visited st, visiting := node # visiting st\<rparr>"

definition leave :: "string \<Rightarrow> sorting \<Rightarrow> sorting" where
  "leave node st =
     st\<lparr>visiting := removeAll node (visiting st), ordered_nodes := node # ordered_nodes st\<rparr>"

partial_function (option) Visit :: "(string \<Rightarrow> string list res) \<Rightarrow> string list \<Rightarrow> sorting
    \<Rightarrow> sorting comp" where
  "Visit get_edges nodes st =
     (case nodes of
        [] \<Rightarrow> Some (Inr st)
      | node # rest \<Rightarrow>
          obind
            (if node \<in> set (visiting st) then Some (Inl (CycleError (visiting st)))
             else if node \<in> set (visited st) then Some (Inr st)
             else
               obind (Some (get_edges node)) (\<lambda>neighbors.
               obind (Visit get_edges neighbors (enter node st)) (\<lambda>st'.
                 Some (Inr (leave node st')))))
            (Visit get_edges rest))"

declare Visit.simps [code]

definition TopologicallySorted :: "(string \<Rightarrow> string list res) \<Rightarrow> string list \<Rightarrow> string list comp" where
  "TopologicallySorted get_edges graph =
     obind (Visit get_edges (sort graph) \<lparr>visited = [], visiting = [], ordered_nodes = []\<rparr>)
       (\<lambda>st. Some (Inr (ordered_nodes st)))"

section \<open>Deep dependency targets: theorems\<close>

definition brings_in :: "target_table \<Rightarrow> (pyval \<times> pyval) set" where
  "brings_in target_dicts =
     {(a, b). \<exists>d l. target_at target_dicts a = Inr d \<and> b \<in> set l
        \<and> (py_iter (dget_default d ''dependencies'' (PList [])) = Inr l
           \<or> py_iter (dget_default d ''dependencies_original'' (PList [])) = Inr l)}"

definition has_children :: "target_table \<Rightarrow> pyval \<Rightarrow> bool" where
  "has_children target_dicts a =
     (case target_at target_dicts a of Inl e \<Rightarrow> False | Inr d \<Rightarrow> \<not> isl (add_children d []))"

lemma hashable_set_Inr: "hashable_set v = Inr l \<Longrightarrow> \<exists>l'. py_iter v = Inr l' \<and> set l = set l'"
  by (auto simp: hashable_set_def split: option.splits)

lemma set_pending_update [simp]: "set (pending_update found pending) = set found \<union> set pending"
  by (auto simp: pending_update_def)

lemma add_children_Inr:
  assumes "target_at target_dicts r = Inr spec" "add_children spec pending = Inr pending'"
  shows "set pending' = set pending \<union> brings_in target_dicts `` {r}"
proof -
  from assms(2) obtain a b where
    a: "hashable_set (dget_default spec ''dependencies'' (PList [])) = Inr a"
    and b: "hashable_set (dget_default spec ''dependencies_original'' (PList [])) = Inr b"
    and p: "pending' = pending_update b (pending_update a pending)"
    by (auto simp: add_children_def)
  show ?thesis using hashable_set_Inr[OF a] hashable_set_Inr[OF b] assms(1)
    by (auto simp: p brings_in_def)
qed

lemma add_children_Inl: "add_children spec pending = Inl e \<Longrightarrow> isl (add_children spec [])"
  by (auto simp: add_children_def isl_def)

definition searching :: "target_table \<Rightarrow> pyval set \<Rightarrow> pyval list \<Rightarrow> pyval list \<Rightarrow> bool" where
  "searching target_dicts roots pending found \<longleftrightarrow>
     distinct found \<and> roots \<subseteq> set pending \<union> set found
     \<and> set pending \<union> set found \<subseteq> (brings_in target_dicts)\<^sup>* `` roots
     \<and> brings_in target_dicts `` set found \<subseteq> set pending \<union> set found"

lemma searching_visit:
  assumes s: "searching target_dicts roots pending found" and r: "r \<in> set pending" "r \<notin> set found"
    and p: "set pending' = set (removeAll r pending) \<union> brings_in target_dicts `` {r}"
  shows "searching target_dicts roots pending' (found @ [r])"
proof -
  have "b \<in> (brings_in target_dicts)\<^sup>* `` roots" if "(r, b) \<in> brings_in target_dicts" for b
    using s r(1) that unfolding searching_def by (blast intro: rtrancl_into_rtrancl)
  with s r p show ?thesis unfolding searching_def by auto
qed

lemma deep_targets_spec:
  "searching target_dicts roots pending found \<Longrightarrow>
     (case deep_targets pick target_dicts pending found of
        Inr r \<Rightarrow> distinct r \<and> set r = (brings_in target_dicts)\<^sup>* `` roots
      | Inl e \<Rightarrow> \<exists>a \<in> (brings_in target_dicts)\<^sup>* `` roots. \<not> has_children target_dicts a)"
proof (induction pick target_dicts pending found rule: deep_targets.induct)
  case (1 pick target_dicts pending found)
  show ?case
  proof (cases "pending = []")
    case True
    have "b \<in> set found" if "(a, b) \<in> (brings_in target_dicts)\<^sup>*" "a \<in> roots" for a b
      using that(1) 1(3) that(2) True
      by (induction rule: rtrancl_induct) (auto simp: searching_def)
    with 1(3) True show ?thesis by (auto simp: deep_targets.simps searching_def)
  next
    case False
    let ?r = "pending ! (pick found pending mod length pending)"
    have r: "?r \<in> set pending" using False by simp
    show ?thesis
    proof (cases "?r \<in> set found")
      case True
      have "searching target_dicts roots (removeAll ?r pending) found"
        using 1(3) True unfolding searching_def by auto
      from 1(1)[OF False refl refl True this] show ?thesis
        using False True by (simp add: deep_targets.simps[of pick target_dicts pending found] Let_def)
    next
      case new: False
      note step = deep_targets.simps[of pick target_dicts pending found]
      have reach: "?r \<in> (brings_in target_dicts)\<^sup>* `` roots"
        using 1(3) r unfolding searching_def by blast
      show ?thesis
      proof (cases "target_at target_dicts ?r")
        case (Inl e)
        then have "\<not> has_children target_dicts ?r" by (simp add: has_children_def)
        with reach Inl show ?thesis using False new by (auto simp: step Let_def)
      next
        case spec: (Inr spec)
        show ?thesis
        proof (cases "add_children spec (removeAll ?r pending)")
          case (Inl e)
          from add_children_Inl[OF this] spec have "\<not> has_children target_dicts ?r"
            by (simp add: has_children_def)
          with reach Inl spec show ?thesis using False new by (auto simp: step Let_def)
        next
          case (Inr pending')
          note s = searching_visit[OF 1(3) r new add_children_Inr[OF spec Inr]]
          from 1(2)[OF False refl refl new spec Inr s] show ?thesis
            using False new spec Inr by (simp add: step Let_def)
        qed
      qed
    qed
  qed
qed

lemma DeepDependencyTargets_spec:
  "case DeepDependencyTargets pick target_dicts roots of
     Inr ds \<Rightarrow> distinct ds
       \<and> set ds = (brings_in target_dicts)\<^sup>* `` (PStr ` set roots) - PStr ` set roots
   | Inl e \<Rightarrow> \<exists>a \<in> (brings_in target_dicts)\<^sup>* `` (PStr ` set roots). \<not> has_children target_dicts a"
proof -
  have "searching target_dicts (PStr ` set roots) (map PStr (remdups roots)) []"
    by (auto simp: searching_def)
  from deep_targets_spec[OF this, where pick = pick] show ?thesis
    by (auto simp: DeepDependencyTargets_def split: sum.splits)
qed

text \<open>\<open>AllTargets\<close> lists the targets of a build file followed by the other targets they bring
  in, directly or through others, each once; and it raises only when one of these is not a target
  or its dependencies cannot be collected.\<close>

theorem AllTargets_reachable:
  "case AllTargets pick target_list target_dicts build_file of
     Inr ts \<Rightarrow>
       (let own = BuildFileTargets target_list build_file in
        \<exists>deep. ts = map PStr own @ deep \<and> distinct deep \<and> set deep \<inter> PStr ` set own = {}
          \<and> set ts = (brings_in target_dicts)\<^sup>* `` (PStr ` set own))
   | Inl e \<Rightarrow> \<exists>a \<in> (brings_in target_dicts)\<^sup>* `` (PStr ` set (BuildFileTargets target_list build_file)).
       \<not> has_children target_dicts a"
proof (cases "DeepDependencyTargets pick target_dicts (BuildFileTargets target_list build_file)")
  case (Inl e)
  with DeepDependencyTargets_spec[where pick = pick and target_dicts = target_dicts
      and roots = "BuildFileTargets target_list build_file"]
  show ?thesis by (simp add: AllTargets_def Let_def)
next
  case (Inr ds)
  with DeepDependencyTargets_spec[where pick = pick and target_dicts = target_dicts
      and roots = "BuildFileTargets target_list build_file"]
  have "distinct ds" "set ds = (brings_in target_dicts)\<^sup>* `` (PStr ` set (BuildFileTargets target_list build_file))
      - PStr ` set (BuildFileTargets target_list build_file)" by simp_all
  with Inr show ?thesis by (auto simp: AllTargets_def Let_def)
qed

section \<open>Topological sorting: theorems\<close>

definition edge_relation :: "(string \<Rightarrow> string list res) \<Rightarrow> (string \<times> string) set" where
  "edge_relation get_edges = {(a, b). \<exists>l. get_edges a = Inr l \<and> b \<in> set l}"

text \<open>Every element of a sorted list has all its successors behind it.\<close>

fun topologically_sorted :: "(string \<times> string) set \<Rightarrow> string list \<Rightarrow> bool" where
  "topologically_sorted E [] \<longleftrightarrow> True"
| "topologically_sorted E (x # xs) \<longleftrightarrow> x \<notin> set xs \<and> E `` {x} \<subseteq> set xs \<and> topologically_sorted E xs"

lemma topologically_sorted_distinct: "topologically_sorted E xs \<Longrightarrow> distinct xs"
  by (induction xs) auto

lemma topologically_sorted_closed: "topologically_sorted E xs \<Longrightarrow> E `` set xs \<subseteq> set xs"
  by (induction xs) auto

lemma topologically_sorted_split:
  "topologically_sorted E (as @ x # bs) \<Longrightarrow> E `` {x} \<subseteq> set bs"
  by (induction as) auto

definition sorting_inv :: "(string \<times> string) set \<Rightarrow> string set \<Rightarrow> sorting \<Rightarrow> bool" where
  "sorting_inv E space st \<longleftrightarrow>
     set (visited st) = set (visiting st) \<union> set (ordered_nodes st)
     \<and> set (visiting st) \<inter> set (ordered_nodes st) = {}
     \<and> set (visited st) \<subseteq> space
     \<and> topologically_sorted E (ordered_nodes st)"

text \<open>What a visit of \<open>nodes\<close> gives: a state with all of them ordered in front of what was, or an
  error that names a cycle.\<close>

definition visit_result :: "(string \<times> string) set \<Rightarrow> string set \<Rightarrow> string list \<Rightarrow> sorting \<Rightarrow> sorting res \<Rightarrow> bool" where
  "visit_result E space nodes st r \<longleftrightarrow>
     (case r of
        Inl e \<Rightarrow> \<exists>ns x. e = CycleError ns \<and> x \<in> set ns \<and> (x, x) \<in> E\<^sup>+ \<and> x \<in> E\<^sup>* `` set nodes
      | Inr st' \<Rightarrow> sorting_inv E space st' \<and> visiting st' = visiting st
          \<and> set nodes \<subseteq> set (ordered_nodes st')
          \<and> set (ordered_nodes st) \<subseteq> set (ordered_nodes st')
          \<and> set (ordered_nodes st') \<subseteq> set (ordered_nodes st) \<union> E\<^sup>* `` set nodes)"

lemma Visit_Nil [simp]: "Visit get_edges [] st = Some (Inr st)"
  by (simp add: Visit.simps)

lemma Visit_visiting: "n \<in> set (visiting st) \<Longrightarrow> Visit get_edges (n # ns) st = Some (Inl (CycleError (visiting st)))"
  by (simp add: Visit.simps)

lemma Visit_visited:
  "n \<notin> set (visiting st) \<Longrightarrow> n \<in> set (visited st) \<Longrightarrow> Visit get_edges (n # ns) st = Visit get_edges ns st"
  by (subst Visit.simps) simp

lemma Visit_new:
  "n \<notin> set (visiting st) \<Longrightarrow> n \<notin> set (visited st) \<Longrightarrow> get_edges n = Inr l \<Longrightarrow>
    Visit get_edges (n # ns) st =
      obind (Visit get_edges l (enter n st)) (\<lambda>st'. Visit get_edges ns (leave n st'))"
  by (subst Visit.simps) (simp add: obind_def split: option.split sum.split)

lemma sorting_enter:
  assumes "sorting_inv E space st" "n \<in> space" "n \<notin> set (visited st)"
  shows "sorting_inv E space (enter n st)"
  using assms unfolding sorting_inv_def enter_def by auto

lemma sorting_leave:
  assumes st: "sorting_inv E space st" "n \<notin> set (visited st)" "E `` {n} = set l"
    and r: "visit_result E space l (enter n st) (Inr st')"
  shows "sorting_inv E space (leave n st')" "visiting (leave n st') = visiting st"
    "ordered_nodes (leave n st') = n # ordered_nodes st'"
proof -
  from r have inv: "sorting_inv E space st'" and v: "visiting st' = n # visiting st"
    and l: "set l \<subseteq> set (ordered_nodes st')"
    by (simp_all add: visit_result_def enter_def)
  have n: "n \<notin> set (visiting st)" using st(1,2) by (auto simp: sorting_inv_def)
  then show v': "visiting (leave n st') = visiting st" by (simp add: leave_def v)
  show o: "ordered_nodes (leave n st') = n # ordered_nodes st'" by (simp add: leave_def)
  have vd: "visited (leave n st') = visited st'" by (simp add: leave_def)
  have "n \<notin> set (ordered_nodes st')" using inv v by (auto simp: sorting_inv_def)
  with inv v l n st(3) show "sorting_inv E space (leave n st')"
    unfolding sorting_inv_def v' o vd by auto
qed

lemma visit_result_cons:
  assumes st1: "sorting_inv E space st1" "visiting st1 = visiting st"
      "n \<in> set (ordered_nodes st1)" "set (ordered_nodes st) \<subseteq> set (ordered_nodes st1)"
      "set (ordered_nodes st1) \<subseteq> set (ordered_nodes st) \<union> E\<^sup>* `` {n}"
    and r: "visit_result E space ns st1 r"
  shows "visit_result E space (n # ns) st r"
proof (cases r)
  case (Inl e)
  with r show ?thesis by (auto simp: visit_result_def)
next
  case (Inr st')
  with r have w: "sorting_inv E space st'" "visiting st' = visiting st1" "set ns \<subseteq> set (ordered_nodes st')"
    "set (ordered_nodes st1) \<subseteq> set (ordered_nodes st')"
    "set (ordered_nodes st') \<subseteq> set (ordered_nodes st1) \<union> E\<^sup>* `` set ns"
    by (simp_all add: visit_result_def)
  have "E\<^sup>* `` set (n # ns) = E\<^sup>* `` {n} \<union> E\<^sup>* `` set ns" by auto
  then have "set (ordered_nodes st') \<subseteq> set (ordered_nodes st) \<union> E\<^sup>* `` set (n # ns)"
    using w(5) st1(5) by blast
  moreover have "set (n # ns) \<subseteq> set (ordered_nodes st')" "set (ordered_nodes st) \<subseteq> set (ordered_nodes st')"
    using w(3,4) st1(3,4) by auto
  ultimately show ?thesis using w(1,2) st1(2) Inr by (simp add: visit_result_def)
qed

lemma visit_result_error:
  assumes "visit_result E space l st1 (Inl e)" "E `` {n} = set l"
  shows "visit_result E space (n # ns) st (Inl e)"
proof -
  from assms(1) obtain vs x where x: "e = CycleError vs" "x \<in> set vs" "(x, x) \<in> E\<^sup>+" "x \<in> E\<^sup>* `` set l"
    by (auto simp: visit_result_def)
  from x(4) assms(2) obtain b where "(n, b) \<in> E" "(b, x) \<in> E\<^sup>*" by blast
  then have "(n, x) \<in> E\<^sup>*" by (rule converse_rtrancl_into_rtrancl)
  with x show ?thesis by (auto simp: visit_result_def)
qed

lemma Visit_spec:
  assumes fin: "finite space" and E: "E = edge_relation get_edges"
    and closed: "\<And>a. a \<in> space \<Longrightarrow> \<exists>l. get_edges a = Inr l \<and> set l \<subseteq> space"
    and "card (space - set (visited st)) \<le> k" "set nodes \<subseteq> space" "sorting_inv E space st"
    and "\<forall>x \<in> set (visiting st). \<forall>n \<in> set nodes. (x, n) \<in> E\<^sup>+"
  shows "\<exists>r. Visit get_edges nodes st = Some r \<and> visit_result E space nodes st r"
  using assms(4-7)
proof (induction k arbitrary: nodes st rule: less_induct)
  case (less k)
  show ?case using less.prems
  proof (induction nodes arbitrary: st)
    case Nil
    then show ?case by (simp add: visit_result_def)
  next
    case (Cons n ns)
    have ns: "set ns \<subseteq> space" "n \<in> space" using Cons.prems(2) by simp_all
    consider (cycle) "n \<in> set (visiting st)" | (old) "n \<notin> set (visiting st)" "n \<in> set (visited st)"
      | (new) "n \<notin> set (visiting st)" "n \<notin> set (visited st)" by blast
    then show ?case
    proof cases
      case cycle
      then have "(n, n) \<in> E\<^sup>+" using Cons.prems(4) by simp
      with cycle show ?thesis by (auto simp: Visit_visiting visit_result_def)
    next
      case old
      then have o: "n \<in> set (ordered_nodes st)" using Cons.prems(3) by (auto simp: sorting_inv_def)
      have "\<forall>x \<in> set (visiting st). \<forall>n \<in> set ns. (x, n) \<in> E\<^sup>+" using Cons.prems(4) by simp
      from Cons.IH[OF Cons.prems(1) ns(1) Cons.prems(3) this] obtain r where
        r: "Visit get_edges ns st = Some r" "visit_result E space ns st r" by blast
      have "visit_result E space (n # ns) st r"
        by (rule visit_result_cons[OF Cons.prems(3) refl o _ _ r(2)]) auto
      with r(1) show ?thesis by (simp add: Visit_visited[OF old])
    next
      case new
      from closed[OF ns(2)] obtain l where l: "get_edges n = Inr l" "set l \<subseteq> space" by blast
      have El: "E `` {n} = set l" using l(1) by (auto simp: E edge_relation_def)
      note enter = sorting_enter[OF Cons.prems(3) ns(2) new(2)]
      have "card (space - set (visited (enter n st))) < card (space - set (visited st))"
        using fin ns(2) new(2) by (intro psubset_card_mono) (auto simp: enter_def)
      then have k: "card (space - set (visited (enter n st))) \<le> k - 1" "k - 1 < k" using Cons.prems(1) by auto
      have path: "(x, b) \<in> E\<^sup>+" if "x \<in> set (visiting (enter n st))" "b \<in> set l" for x b
      proof -
        from El that(2) have nb: "(n, b) \<in> E" by blast
        from that(1) consider "x = n" | "x \<in> set (visiting st)" by (auto simp: enter_def)
        then show ?thesis
        proof cases
          case 1
          with nb show ?thesis by blast
        next
          case 2
          with Cons.prems(4) have "(x, n) \<in> E\<^sup>+" by simp
          from this nb show ?thesis by (rule trancl_into_trancl)
        qed
      qed
      then have path': "\<forall>x \<in> set (visiting (enter n st)). \<forall>b \<in> set l. (x, b) \<in> E\<^sup>+" by blast
      from less.IH[OF k(2,1) l(2) enter path'] obtain r1 where
        r1: "Visit get_edges l (enter n st) = Some r1" "visit_result E space l (enter n st) r1" by blast
      show ?thesis
      proof (cases r1)
        case (Inl e)
        with r1 have "Visit get_edges (n # ns) st = Some (Inl e)" by (simp add: Visit_new[where get_edges = get_edges, OF new l(1)])
        with visit_result_error[OF r1(2)[unfolded Inl] El] show ?thesis by blast
      next
        case (Inr st1)
        let ?s = "leave n st1"
        note leave = sorting_leave[OF Cons.prems(3) new(2) El r1(2)[unfolded Inr]]
        have up: "set (visited (enter n st)) \<subseteq> set (visited st1)"
          using r1(2) enter unfolding Inr visit_result_def sorting_inv_def by auto
        have "set (visited st) \<subseteq> set (visited ?s)" using up by (auto simp: enter_def leave_def)
        then have "card (space - set (visited ?s)) \<le> card (space - set (visited st))"
          using fin by (intro card_mono) auto
        then have k': "card (space - set (visited ?s)) \<le> k" using Cons.prems(1) by simp
        have "\<forall>x \<in> set (visiting ?s). \<forall>n \<in> set ns. (x, n) \<in> E\<^sup>+" using Cons.prems(4) leave(2) by simp
        from Cons.IH[OF k' ns(1) leave(1) this] obtain r where
          r: "Visit get_edges ns ?s = Some r" "visit_result E space ns ?s r" by blast
        have sub: "set (ordered_nodes st) \<subseteq> set (ordered_nodes st1)"
          "set (ordered_nodes st1) \<subseteq> set (ordered_nodes st) \<union> E\<^sup>* `` set l"
          using r1(2) unfolding Inr visit_result_def by (simp_all add: enter_def)
        have reach: "insert n (E\<^sup>* `` set l) \<subseteq> E\<^sup>* `` {n}"
          using El by (auto intro: converse_rtrancl_into_rtrancl)
        have "visit_result E space (n # ns) st r"
        proof (rule visit_result_cons[OF leave(1,2) _ _ _ r(2)])
          show "n \<in> set (ordered_nodes ?s)" "set (ordered_nodes st) \<subseteq> set (ordered_nodes ?s)"
            using sub(1) by (auto simp: leave(3))
          show "set (ordered_nodes ?s) \<subseteq> set (ordered_nodes st) \<union> E\<^sup>* `` {n}"
            using sub(2) reach by (auto simp: leave(3))
        qed
        moreover have "Visit get_edges (n # ns) st = Some r"
          using r1(1) r(1) Inr by (simp add: Visit_new[where get_edges = get_edges, OF new l(1)])
        ultimately show ?thesis by blast
      qed
    qed
  qed
qed

text \<open>C27.  When the edges lead from a finite set of nodes only into itself, sorting returns.  A result
  holds what can be reached from the graph, each node once and before everything it has edges to;
  an error is a cycle error, and one of the nodes it names lies on a cycle.\<close>

theorem TopologicallySorted_sorts:
  assumes "finite space" "set graph \<subseteq> space"
    and "\<And>a. a \<in> space \<Longrightarrow> \<exists>l. get_edges a = Inr l \<and> set l \<subseteq> space"
  shows "\<exists>r. TopologicallySorted get_edges graph = Some r
    \<and> (case r of
         Inr order \<Rightarrow> distinct order \<and> set order = (edge_relation get_edges)\<^sup>* `` set graph
           \<and> (\<forall>before a after. order = before @ a # after \<longrightarrow> edge_relation get_edges `` {a} \<subseteq> set after)
       | Inl e \<Rightarrow> \<exists>ns a. e = CycleError ns \<and> a \<in> set ns \<and> (a, a) \<in> (edge_relation get_edges)\<^sup>+
           \<and> a \<in> (edge_relation get_edges)\<^sup>* `` set graph)"
proof -
  let ?E = "edge_relation get_edges" and ?s = "\<lparr>visited = [], visiting = [], ordered_nodes = []\<rparr>"
  have "sorting_inv ?E space ?s" by (simp add: sorting_inv_def)
  from Visit_spec[OF assms(1) refl assms(3) order_refl _ this, of "sort graph"] assms(2) obtain r where
    r: "Visit get_edges (sort graph) ?s = Some r" "visit_result ?E space (sort graph) ?s r" by auto
  show ?thesis
  proof (cases r)
    case (Inl e)
    with r show ?thesis by (simp add: TopologicallySorted_def visit_result_def)
  next
    case (Inr st)
    let ?o = "ordered_nodes st"
    from r(2) Inr have t: "topologically_sorted ?E ?o" and g: "set graph \<subseteq> set ?o"
      "set ?o \<subseteq> ?E\<^sup>* `` set graph"
      by (simp_all add: visit_result_def sorting_inv_def)
    have "?E\<^sup>* `` set graph \<subseteq> set ?o"
      using topologically_sorted_closed[OF t] g(1) by (metis Image_closed_trancl Image_mono order_refl)
    with g(2) have "set ?o = ?E\<^sup>* `` set graph" by blast
    moreover have "?E `` {a} \<subseteq> set after" if "?o = before @ a # after" for before a after
      by (rule topologically_sorted_split[OF t[unfolded that]])
    ultimately show ?thesis using topologically_sorted_distinct[OF t] r(1) Inr
      by (simp add: TopologicallySorted_def)
  qed
qed

theorem TopologicallySorted_sorts_witness:
  "\<exists>r. TopologicallySorted (\<lambda>n. if n = ''a'' then Inr [''c'', ''b''] else if n = ''c'' then Inr [''b''] else Inr [])
      [''b'', ''a''] = Some r"
proof -
  let ?e = "\<lambda>n. if n = ''a'' then Inr [''c'', ''b''] else if n = ''c'' then Inr [''b''] else Inr []"
  have "\<And>a. a \<in> {''a'', ''b'', ''c''} \<Longrightarrow> \<exists>l. ?e a = Inr l \<and> set l \<subseteq> {''a'', ''b'', ''c''}" by auto
  with TopologicallySorted_sorts[of "{''a'', ''b'', ''c''}" "[''b'', ''a'']" ?e] show ?thesis by auto
qed

text \<open>The example of the doc string.\<close>

lemma TopologicallySorted_example:
  "TopologicallySorted (\<lambda>n. if n = ''a'' then Inr [''b'', ''c''] else if n = ''c'' then Inr [''b''] else Inr [])
      [''a'', ''b'', ''c''] = Some (Inr [''a'', ''c'', ''b''])"
  by code_simp

end
