(* ===== verification/Gyp_Make_Text.thy ===== *)
theory Gyp_Make_Text
  imports Gyp_Common
begin

text \<open>
  The text functions of the make generator (\<open>tools/gyp/pylib/gyp/generator/make.py\<close>): file kinds,
  the escaping of arguments, definitions and variable names, and lists of values.  The theorems read
  the text as make and the shell do.
\<close>

section \<open>Kinds of files\<close>

text \<open>The compilable extensions of all flavors but \<open>mac\<close>, which adds two.\<close>

definition COMPILABLE_EXTENSIONS :: "(string \<times> string) list" where
  "COMPILABLE_EXTENSIONS =
     [(''.c'', ''cc''), (''.cc'', ''cxx''), (''.cpp'', ''cxx''), (''.cxx'', ''cxx''),
      (''.s'', ''cc''), (''.S'', ''cc'')]"

definition Compilable :: "string \<Rightarrow> bool" where
  "Compilable filename = (\<exists>e \<in> set (dkeys COMPILABLE_EXTENSIONS). suffix e filename)"

definition Linkable :: "string \<Rightarrow> bool" where
  "Linkable filename = suffix ''.o'' filename"

definition Target :: "string \<Rightarrow> string" where
  "Target filename = fst (splitext filename) @ ''.o''"

section \<open>Escaping\<close>

definition EscapeShellArgument :: "string \<Rightarrow> string" where
  "EscapeShellArgument s =
     [CHR 0x27] @ replace_str [CHR 0x27] [CHR 0x27, CHR 0x5C, CHR 0x27, CHR 0x27] s @ [CHR 0x27]"

definition EscapeMakeVariableExpansion :: "string \<Rightarrow> string" where
  "EscapeMakeVariableExpansion s = replace_str ''$'' ''$$'' s"

definition EscapeCppDefine :: "string \<Rightarrow> string" where
  "EscapeCppDefine s =
     replace_str ''#'' [CHR 0x5C, CHR ''#''] (EscapeMakeVariableExpansion (EscapeShellArgument s))"

definition QuoteIfNecessary :: "string \<Rightarrow> string" where
  "QuoteIfNecessary string =
     (if CHR 0x22 \<in> set string
      then [CHR 0x22] @ replace_str [CHR 0x22] [CHR 0x5C, CHR 0x22] string @ [CHR 0x22]
      else string)"

definition StringToMakefileVariable :: "string \<Rightarrow> string" where
  "StringToMakefileVariable string =
     map (\<lambda>c. if is_alpha c \<or> is_digit c \<or> c = CHR ''_'' then c else CHR ''_'') string"

text \<open>The global \<open>srcdir_prefix\<close> is the first argument.\<close>

definition Sourceify :: "string \<Rightarrow> string \<Rightarrow> string" where
  "Sourceify srcdir_prefix path =
     (if sublist ''$('' path then path
      else if isabs path then path
      else srcdir_prefix @ path)"

definition QuoteSpaces :: "string \<Rightarrow> string \<Rightarrow> string" where
  "QuoteSpaces s quote = replace_str '' '' quote s"

definition backslash_space :: string where
  "backslash_space = [CHR 0x5C, CHR '' '']"

definition SPACE_REPLACEMENT :: string where
  "SPACE_REPLACEMENT = ''?''"

section \<open>Reading a definition\<close>

text \<open>
  How make reads the text of a variable definition on one line: an unescaped \<open>#\<close> begins a comment;
  the backslashes in front of a \<open>#\<close> are halved, others stay (\<open>n\<close> counts the backslashes just read).
  Then references are expanded; only \<open>$$\<close> is read here, other references have no value.
\<close>

fun make_uncomment :: "nat \<Rightarrow> string \<Rightarrow> string" where
  "make_uncomment n [] = replicate n (CHR 0x5C)"
| "make_uncomment n (c # s) =
     (if c = CHR 0x5C then make_uncomment (Suc n) s
      else if c = CHR ''#'' then
        replicate (n div 2) (CHR 0x5C) @ (if odd n then CHR ''#'' # make_uncomment 0 s else [])
      else replicate n (CHR 0x5C) @ c # make_uncomment 0 s)"

fun make_expand :: "string \<Rightarrow> string option" where
  "make_expand [] = Some []"
| "make_expand (c # s) =
     (if c \<noteq> CHR ''$'' then map_option ((#) c) (make_expand s)
      else case s of
        [] \<Rightarrow> None
      | d # s' \<Rightarrow> if d = CHR ''$'' then map_option ((#) c) (make_expand s') else None)"

definition make_value :: "string \<Rightarrow> string option" where
  "make_value s = (if CHR 0x0A \<in> set s then None else make_expand (make_uncomment 0 s))"

text \<open>How the shell reads one word with single quotes; \<open>q\<close> says that the reader is between quotes.\<close>

fun sh_word :: "bool \<Rightarrow> string \<Rightarrow> string option" where
  "sh_word q [] = (if q then None else Some [])"
| "sh_word True (c # s) =
     (if c = CHR 0x27 then sh_word False s else map_option ((#) c) (sh_word True s))"
| "sh_word False (c # s) =
     (if c = CHR 0x27 then sh_word True s
      else if c = CHR 0x5C then
        (case s of [] \<Rightarrow> None | d # s' \<Rightarrow> if d = CHR 0x0A then None else map_option ((#) d) (sh_word False s'))
      else if is_space c \<or> c \<in> quote_chars \<or> c \<in> escape_chars then None
      else map_option ((#) c) (sh_word False s))"

definition read_define :: "string \<Rightarrow> string option" where
  "read_define s = Option.bind (make_value s) (sh_word False)"
section \<open>Definitions are read back\<close>

abbreviation backslashes :: "nat \<Rightarrow> string" where "backslashes n \<equiv> replicate n (CHR 0x5C)"

definition define_char :: "char \<Rightarrow> string" where
  "define_char c =
     (if c = CHR 0x27 then [CHR 0x27, CHR 0x5C, CHR 0x27, CHR 0x27]
      else if c = CHR ''$'' then ''$$''
      else if c = CHR ''#'' then [CHR 0x5C, CHR ''#''] else [c])"

lemma EscapeCppDefine_chars:
  "EscapeCppDefine s = [CHR 0x27] @ concat (map define_char s) @ [CHR 0x27]"
proof -
  have "replace_str ''#'' [CHR 0x5C, CHR ''#''] (replace_str ''$'' ''$$''
      (replace_str [CHR 0x27] [CHR 0x27, CHR 0x5C, CHR 0x27, CHR 0x27] s)) = concat (map define_char s)"
    by (induction s) (simp_all add: replace_char define_char_def)
  then show ?thesis
    by (simp add: EscapeCppDefine_def EscapeMakeVariableExpansion_def EscapeShellArgument_def replace_append replace_one)
qed

text \<open>The rest of an escaped definition, read between the quotes behind \<open>n\<close> backslashes.\<close>

definition read_rest :: "nat \<Rightarrow> string \<Rightarrow> string option" where
  "read_rest n s = Option.bind (make_expand (make_uncomment n (concat (map define_char s) @ [CHR 0x27]))) (sh_word True)"

lemma make_expand_backslashes: "make_expand (backslashes n @ t) = map_option ((@) (backslashes n)) (make_expand t)"
  by (induction n) (simp_all add: option.map_comp comp_def option.map_ident)

lemma sh_word_backslashes: "sh_word True (backslashes n @ t) = map_option ((@) (backslashes n)) (sh_word True t)"
  by (induction n) (simp_all add: option.map_comp comp_def option.map_ident)

lemmas behind_backslashes = make_expand_backslashes sh_word_backslashes

lemma read_rest_Nil: "read_rest n [] = Some (backslashes n)"
  by (simp add: read_rest_def behind_backslashes)

lemma read_rest_backslash: "read_rest n (CHR 0x5C # s) = read_rest (Suc n) s"
  by (simp add: read_rest_def define_char_def)

lemma read_rest_hash:
  "read_rest n (CHR ''#'' # s) =
     (if even n then map_option (\<lambda>t. backslashes (n div 2) @ CHR ''#'' # t) (read_rest 0 s) else None)"
  by (cases "make_expand (make_uncomment 0 (concat (map define_char s) @ [CHR 0x27]))")
    (simp_all add: read_rest_def define_char_def behind_backslashes option.map_comp comp_def
      make_expand_backslashes[of _ "[]", simplified] sh_word_backslashes[of _ "[]", simplified])

lemma read_rest_other:
  assumes "c \<noteq> CHR 0x5C" "c \<noteq> CHR ''#''"
  shows "read_rest n (c # s) = map_option (\<lambda>t. backslashes n @ c # t) (read_rest 0 s)"
  using assms
  by (cases "make_expand (make_uncomment 0 (concat (map define_char s) @ [CHR 0x27]))")
    (auto simp: read_rest_def define_char_def behind_backslashes option.map_comp comp_def)

fun hash_behind_backslash :: "nat \<Rightarrow> string \<Rightarrow> bool" where
  "hash_behind_backslash n [] = False"
| "hash_behind_backslash n (c # s) =
     (if c = CHR 0x5C then hash_behind_backslash (Suc n) s
      else c = CHR ''#'' \<and> n \<noteq> 0 \<or> hash_behind_backslash 0 s)"

lemma hash_behind_backslash_iff:
  "hash_behind_backslash n s \<longleftrightarrow> sublist [CHR 0x5C, CHR ''#''] s \<or> (n \<noteq> 0 \<and> prefix ''#'' s)"
  by (induction n s rule: hash_behind_backslash.induct) (auto simp: sublist_Cons_right)

lemma read_rest_spec:
  "if hash_behind_backslash n s then (case read_rest n s of None \<Rightarrow> True | Some t \<Rightarrow> length t < n + length s)
   else read_rest n s = Some (backslashes n @ s)"
proof (induction s arbitrary: n)
  case (Cons c s)
  consider "c = CHR 0x5C" | "c = CHR ''#''" | "c \<noteq> CHR 0x5C" "c \<noteq> CHR ''#''" by blast
  then show ?case
  proof cases
    case 1
    with Cons.IH[of "Suc n"] show ?thesis
      by (auto simp: read_rest_backslash replicate_app_Cons_same split: option.splits)
  next
    case 2
    have "n div 2 < n" if "n \<noteq> 0" using that by simp
    with 2 Cons.IH[of 0] show ?thesis
      by (cases "hash_behind_backslash 0 s") (auto simp: read_rest_hash split: option.splits)
  next
    case 3
    with Cons.IH[of 0] show ?thesis by (auto simp: read_rest_other split: option.splits)
  qed
qed (simp add: read_rest_Nil)

text \<open>C25.  A preprocessor definition reaches the compiler unaltered, through make and the shell, exactly
  when it is one line in which no \<open>#\<close> follows a backslash.\<close>

theorem EscapeCppDefine_roundtrip:
  "read_define (EscapeCppDefine s) = Some s
     \<longleftrightarrow> CHR 0x0A \<notin> set s \<and> \<not> sublist [CHR 0x5C, CHR ''#''] s"
proof -
  have "CHR 0x0A \<in> set (EscapeCppDefine s) \<longleftrightarrow> CHR 0x0A \<in> set s"
    unfolding EscapeCppDefine_chars by (auto simp: define_char_def split: if_splits)
  moreover have "Option.bind (make_expand (make_uncomment 0 (EscapeCppDefine s))) (sh_word False) = read_rest 0 s"
    unfolding EscapeCppDefine_chars read_rest_def
    by (cases "make_expand (make_uncomment 0 (concat (map define_char s) @ [CHR 0x27]))") simp_all
  ultimately have "read_define (EscapeCppDefine s) = (if CHR 0x0A \<in> set s then None else read_rest 0 s)"
    by (simp add: read_define_def make_value_def)
  then show ?thesis using read_rest_spec[of 0 s] hash_behind_backslash_iff[of 0 s]
    by (auto split: if_splits option.splits)
qed

text \<open>A definition that ends make's line early.\<close>

lemma EscapeCppDefine_cut:
  "read_define (EscapeCppDefine (''C='' @ [CHR 0x5C, CHR ''#''])) = None"
  by code_simp

end
