(* ===== verification/Gyp_Make.thy ===== *)
theory Gyp_Make
  imports Gyp_Make_Text Gyp_Config
begin

text \<open>
  The writer of target makefiles (\<open>tools/gyp/pylib/gyp/generator/make.py\<close>, class \<open>MakefileWriter\<close>)
  for every flavor but \<open>mac\<close>: actions, rules, copies, sources, the final target and its aliases.
  Without \<open>mac\<close> there are no bundles, no precompiled headers, no postbuilds and no Xcode
  environment, so the branches for them are left out.  A set is iterated in the order in which its
  elements were added.
\<close>

section \<open>The writer\<close>

text \<open>The attributes of the writer, with the text written so far (\<open>fp\<close>) and the lists that its
  operations fill in.  \<open>source_prefix\<close> is the global \<open>srcdir_prefix\<close>.\<close>

record makefile_writer =
  self_flavor :: string
  self_qualified_target :: string
  self_path :: string
  self_target :: string
  self_type :: string
  self_toolset :: string
  self_output :: string
  self_alias :: string
  self_standalone :: bool
  source_prefix :: string
  fp :: string
  extra_sources :: "string list"
  extra_outputs :: "string list"
  extra_link_deps :: "string list"

type_synonym mk_step = "makefile_writer \<Rightarrow> makefile_writer res"

definition run_steps :: "mk_step list \<Rightarrow> mk_step" where
  "run_steps ms = rfold (\<lambda>m w. m w) ms"

definition skip :: mk_step where
  "skip = Inr"

definition fp_write :: "string \<Rightarrow> mk_step" where
  "fp_write text w = Inr (w\<lparr>fp := fp w @ text\<rparr>)"

definition WriteLn :: "string \<Rightarrow> mk_step" where
  "WriteLn text = fp_write (text @ [CHR 0x0A])"

definition add_outputs :: "string list \<Rightarrow> mk_step" where
  "add_outputs os w = Inr (w\<lparr>extra_outputs := extra_outputs w @ os\<rparr>)"

definition add_sources :: "string list \<Rightarrow> mk_step" where
  "add_sources os w = Inr (w\<lparr>extra_sources := extra_sources w @ os\<rparr>)"

definition add_link_deps :: "string list \<Rightarrow> mk_step" where
  "add_link_deps os w = Inr (w\<lparr>extra_link_deps := extra_link_deps w @ os\<rparr>)"

text \<open>Values of a specification: a text, and a list of texts.  A value of another kind is an
  error, an empty one counts as an empty list.\<close>

definition as_text :: "pyval \<Rightarrow> string res" where
  "as_text v = (case v of PStr s \<Rightarrow> Inr s
     | _ \<Rightarrow> Inl (TypeError (''cannot concatenate str and '' @ class_name v @ '' objects'')))"

definition text_field :: "pydict \<Rightarrow> string \<Rightarrow> string res" where
  "text_field d k = rbind (dlookup d k) as_text"

definition texts :: "pyval \<Rightarrow> string list res" where
  "texts v = rbind (py_iter v) (rmap (as_str ''rfind''))"

definition list_field :: "pydict \<Rightarrow> string \<Rightarrow> string list res" where
  "list_field d k = (case dget d k of None \<Rightarrow> Inr [] | Some v \<Rightarrow> if truthy v then texts v else Inr [])"

definition int_flag :: "pydict \<Rightarrow> string \<Rightarrow> bool res" where
  "int_flag d k = rbind (py_int (dget_default d k (PInt 0))) (\<lambda>i. Inr (i \<noteq> 0))"

definition set_of :: "string list \<Rightarrow> string list" where
  "set_of xs = fold (\<lambda>x acc. if x \<in> set acc then acc else acc @ [x]) xs []"

definition no_spaces :: "string list \<Rightarrow> unit res" where
  "no_spaces xs = rassert (\<forall>x \<in> set xs. CHR '' '' \<notin> set x) AssertionError"

section \<open>Paths\<close>

definition Objectify :: "makefile_writer \<Rightarrow> string \<Rightarrow> string" where
  "Objectify w path =
     (let path = (if sublist ''$('' path
                  then replace_str ''$(obj)/'' (''$(obj).'' @ self_toolset w @ ''/$(TARGET)/'') path else path)
      in if sublist ''$(obj)'' path then path else ''$(obj).'' @ self_toolset w @ ''/$(TARGET)/'' @ path)"

definition Absolutify :: "makefile_writer \<Rightarrow> string \<Rightarrow> string" where
  "Absolutify w path =
     (if sublist ''$('' path then rstrip_char CHR ''/'' path
      else normpath (path_join (self_path w) [path]))"

definition Pchify :: "makefile_writer \<Rightarrow> string \<Rightarrow> string \<Rightarrow> string" where
  "Pchify w path lang =
     (let path = Absolutify w path in
      if sublist ''$('' path
      then replace_str ''$(obj)/'' (''$(obj).'' @ self_toolset w @ ''/$(TARGET)/pch-'' @ lang) path
      else ''$(obj).'' @ self_toolset w @ ''/$(TARGET)/pch-'' @ lang @ ''/'' @ path)"

definition sourcify :: "makefile_writer \<Rightarrow> string \<Rightarrow> string" where
  "sourcify w path = Sourceify (source_prefix w) path"

text \<open>The operator \<open>%\<close> with a dictionary.  Flags, widths and precisions of a conversion are not
  read.\<close>

fun format_key :: "nat \<Rightarrow> string \<Rightarrow> (string \<times> string) option" where
  "format_key n [] = None"
| "format_key n (c # s) =
     (if c = CHR '')'' \<and> n = 0 then Some ([], s)
      else map_option (\<lambda>(k, r). (c # k, r))
             (format_key (if c = CHR ''('' then Suc n else if c = CHR '')'' then n - 1 else n) s))"

definition convert :: "char \<Rightarrow> pyval \<Rightarrow> string res" where
  "convert c v =
     (if c = CHR ''s'' then Inr (py_str v)
      else if c = CHR ''r'' then Inr (py_repr v)
      else if c = CHR ''c'' then
        (case v of PStr [x] \<Rightarrow> Inr [x] | _ \<Rightarrow> Inl (TypeError ''%c requires int or char''))
      else if c = CHR ''d'' \<and> class_name v = ''int'' then Inr (py_str v)
      else if c \<in> set ''diuoxXeEfFgG''
      then Inl (TypeError (CHR ''%'' # c # '' format: a number is required, not '' @ class_name v))
      else Inl (ValueError (''unsupported format character '' @ [c])))"

lemma format_key_shorter: "format_key n s = Some (k, r) \<Longrightarrow> length r < length s"
proof (induction n s arbitrary: k rule: format_key.induct)
  case (2 n c s)
  then show ?case by (fastforce split: if_splits prod.splits)
qed simp

function py_format :: "pydict \<Rightarrow> string \<Rightarrow> string res" where
  "py_format d [] = Inr []"
| "py_format d (c # s) =
     (if c \<noteq> CHR ''%'' then rbind (py_format d s) (\<lambda>r. Inr (c # r))
      else case s of
        [] \<Rightarrow> Inl (ValueError ''incomplete format'')
      | x # s' \<Rightarrow>
          if x = CHR ''%'' then rbind (py_format d s') (\<lambda>r. Inr (x # r))
          else if x = CHR ''('' then
            (case format_key 0 s' of
               None \<Rightarrow> Inl (ValueError ''incomplete format key'')
             | Some (k, []) \<Rightarrow> rbind (dlookup d k) (\<lambda>_. Inl (ValueError ''incomplete format''))
             | Some (k, y # r) \<Rightarrow>
                 rbind (dlookup d k) (\<lambda>v. rbind (convert y v) (\<lambda>t.
                 rbind (py_format d r) (\<lambda>u. Inr (t @ u)))))
          else rbind (convert x (PDict d)) (\<lambda>t.
               rbind (py_format d s') (\<lambda>u. Inr (t @ u))))"
  by pat_completeness auto
termination
  by (relation "measure (\<lambda>(d, s). length s)") (auto dest: format_key_shorter)

definition ExpandInputRoot :: "string \<Rightarrow> string \<Rightarrow> string \<Rightarrow> string res" where
  "ExpandInputRoot template input_root input_dirname =
     (if \<not> sublist ''%(INPUT_ROOT)s'' template \<and> \<not> sublist ''%(INPUT_DIRNAME)s'' template then Inr template
      else py_format [(''INPUT_ROOT'', PStr input_root), (''INPUT_DIRNAME'', PStr input_dirname)] template)"

definition installable_types :: "string list" where
  "installable_types = [''executable'', ''loadable_module'', ''shared_library'']"

definition InstallableTargetInstallPath :: "makefile_writer \<Rightarrow> string" where
  "InstallableTargetInstallPath w =
     (if self_type w = ''shared_library''
      then ''$(builddir)/lib.'' @ self_toolset w @ ''/'' @ self_alias w
      else ''$(builddir)/'' @ self_alias w)"
section \<open>Rules and lists\<close>

definition line_end :: string where
  "line_end = [CHR 0x0A]"

text \<open>Items of a list are on lines of their own.\<close>

definition item_break :: string where
  "item_break = [CHR '' '', CHR 0x5C, CHR 0x0A, CHR 0x09]"

definition WriteList :: "string list \<Rightarrow> string \<Rightarrow> string \<Rightarrow> (string \<Rightarrow> string) \<Rightarrow> mk_step" where
  "WriteList value_list variable pre quoter =
     (let values = (if value_list = [] then []
                    else item_break @ join_str item_break (map (\<lambda>l. quoter (pre @ l)) value_list))
      in fp_write (variable @ '' :='' @ values @ line_end @ line_end))"

definition plain_list :: "string list \<Rightarrow> string \<Rightarrow> mk_step" where
  "plain_list value_list variable = WriteList value_list variable [] QuoteIfNecessary"

text \<open>The lines of a rule.  The first output is named where it is needed.\<close>

definition rule_lines :: "string list \<Rightarrow> string list \<Rightarrow> string list \<Rightarrow> string \<Rightarrow> bool \<Rightarrow> bool \<Rightarrow> bool
    \<Rightarrow> string list res" where
  "rule_lines rule_outputs inputs actions comment order_only force phony =
     (let outputs = map (\<lambda>o'. QuoteSpaces o' backslash_space) rule_outputs;
          inputs = map (\<lambda>i. QuoteSpaces i backslash_space) inputs in
      rbind (if order_only \<and> actions = [] then Inr [] else list_index outputs 0) (\<lambda>first.
        Inr ((if comment \<noteq> [] then [''# '' @ comment] else [])
          @ (if phony then [''.PHONY: '' @ join_str '' '' outputs] else [])
          @ (if actions \<noteq> [] then [first @ '': TOOLSET := $(TOOLSET)''] else [])
          @ [(if order_only then join_str '' '' outputs else first) @ '': ''
             @ (if order_only then ''| '' else []) @ join_str '' '' inputs
             @ (if force then '' FORCE_DO_CMD'' else [])]
          @ map (\<lambda>action. CHR 0x09 # action) actions
          @ (if \<not> order_only \<and> 1 < length outputs
             then [join_str '' '' (tl outputs) @ '': '' @ first, join_str '' '' (tl outputs) @ '': ;'']
             else [])
          @ [[]])))"

definition WriteMakeRule :: "string list \<Rightarrow> string list \<Rightarrow> string list \<Rightarrow> string \<Rightarrow> bool \<Rightarrow> bool \<Rightarrow> bool
    \<Rightarrow> mk_step" where
  "WriteMakeRule rule_outputs inputs actions comment order_only force phony w =
     rbind (rule_lines rule_outputs inputs actions comment order_only force phony) (\<lambda>ls.
       run_steps (map WriteLn ls) w)"

definition order_rule :: "string list \<Rightarrow> string list \<Rightarrow> string \<Rightarrow> mk_step" where
  "order_rule rule_outputs inputs comment = WriteMakeRule rule_outputs inputs [] comment True False False"

definition phony_rule :: "string list \<Rightarrow> string list \<Rightarrow> string \<Rightarrow> mk_step" where
  "phony_rule rule_outputs inputs comment = WriteMakeRule rule_outputs inputs [] comment False False True"

definition WriteDoCmd :: "string list \<Rightarrow> string list \<Rightarrow> string \<Rightarrow> string \<Rightarrow> bool \<Rightarrow> mk_step" where
  "WriteDoCmd rule_outputs inputs command comment postbuilds w =
     rbind (if postbuilds then rassert (CHR '','' \<notin> set command) AssertionError else Inr ()) (\<lambda>_.
       run_steps [WriteMakeRule rule_outputs inputs
                [''$(call do_cmd,'' @ command @ (if postbuilds then '',,1'' else []) @ '')''] comment False True False,
              WriteLn (''all_deps += '' @ join_str '' '' (map (\<lambda>o'. QuoteSpaces o' SPACE_REPLACEMENT) rule_outputs))] w)"

section \<open>Actions, rules and copies\<close>

definition hardcode_target :: "makefile_writer \<Rightarrow> string \<Rightarrow> string" where
  "hardcode_target w s = replace_str ''$(TARGET)'' (self_target w) s"

definition cd_action :: "makefile_writer \<Rightarrow> string" where
  "cd_action w =
     hardcode_target w (''cd '' @ sourcify w (if self_path w = [] then ''.'' else self_path w) @ ''; '')"

definition library_path :: string where
  "library_path =
     ''LD_LIBRARY_PATH=$(builddir)/lib.host:$(builddir)/lib.target:$$LD_LIBRARY_PATH; export LD_LIBRARY_PATH; ''"

definition output_dirs :: "string list \<Rightarrow> string list" where
  "output_dirs os = set_of (filter (\<lambda>d. d \<noteq> []) (map dirname os))"

definition make_name :: "makefile_writer \<Rightarrow> pyval \<Rightarrow> string" where
  "make_name w n = StringToMakefileVariable (self_qualified_target w @ ''_'' @ py_str n)"

definition WriteAction :: "pyval \<Rightarrow> mk_step" where
  "WriteAction action w =
     rbind (as_dict ''__getitem__'' action) (\<lambda>a.
     rbind (dlookup a ''action_name'') (\<lambda>action_name.
     rbind (rbind (dlookup a ''inputs'') texts) (\<lambda>inputs.
     rbind (rbind (dlookup a ''outputs'') texts) (\<lambda>outputs.
     rbind (int_flag a ''process_outputs_as_sources'') (\<lambda>as_sources.
     rbind (int_flag a ''process_outputs_as_mac_bundle_resources'') (\<lambda>_.
     rbind (rbind (dlookup a ''action'') py_iter) (\<lambda>action_commands.
       (let name = make_name w action_name;
            dirs = output_dirs outputs;
            shell = EncodePOSIXShellList action_commands;
            command = hardcode_target w
              (if dirs \<noteq> [] then ''mkdir -p '' @ join_str '' '' dirs @ ''; '' @ shell else shell);
            message = (case dget a ''message'' of None \<Rightarrow> name | Some m \<Rightarrow> py_str m);
            outs = map (Absolutify w) outputs in
        rbind (list_index outs 0) (\<lambda>first.
        rbind (no_spaces (inputs @ outs)) (\<lambda>_.
          run_steps
            [if as_sources then add_sources outputs else skip,
             WriteLn (''### Rules for action '' @ [CHR 0x22] @ py_str action_name @ [CHR 0x22] @ '':''),
             WriteLn (''quiet_cmd_'' @ name @ '' = ACTION '' @ message @ '' $@''),
             WriteLn (''cmd_'' @ name @ '' = '' @ library_path @ cd_action w @ command),
             WriteLn [],
             WriteLn (QuoteSpaces first backslash_space @ '': obj := $(abs_obj)''),
             WriteLn (QuoteSpaces first backslash_space @ '': builddir := $(abs_builddir)''),
             WriteDoCmd outs (map (\<lambda>i. sourcify w (Absolutify w i)) inputs) name [] False,
             WriteLn (''action_'' @ name @ ''_outputs := '' @ join_str '' '' outs),
             add_outputs [''$(action_'' @ name @ ''_outputs)''],
             WriteLn []] w))))))))))"

definition WriteActions :: "pyval \<Rightarrow> mk_step" where
  "WriteActions actions w =
     rbind (py_iter actions) (\<lambda>as. run_steps (map WriteAction as @ [WriteLn []]) w)"

text \<open>References to rule variables that hold a space: \<open>$(\<close>, no space, \<open> $<)\<close>.\<close>

definition spaced_variable :: "string \<Rightarrow> string option" where
  "spaced_variable s =
     (if prefix ''$('' s then
        (let r = dropWhile (\<lambda>c. c \<noteq> CHR '' '') (drop 2 s) in
         if prefix '' $<)'' r then Some (drop 4 r) else None)
      else None)"

lemma spaced_variable_shorter: "spaced_variable s = Some r \<Longrightarrow> length r < length s"
proof -
  assume "spaced_variable s = Some r"
  then have r: "prefix ''$('' s" "prefix '' $<)'' (dropWhile (\<lambda>c. c \<noteq> CHR '' '') (drop 2 s))"
    "r = drop 4 (dropWhile (\<lambda>c. c \<noteq> CHR '' '') (drop 2 s))"
    by (auto simp: spaced_variable_def Let_def split: if_splits)
  have "length (dropWhile (\<lambda>c. c \<noteq> CHR '' '') (drop 2 s)) \<le> length (drop 2 s)" by (rule length_dropWhile_le)
  with r show "length r < length s" by (auto simp: prefix_def)
qed

function drop_spaced_variables :: "string \<Rightarrow> string" where
  "drop_spaced_variables [] = []"
| "drop_spaced_variables (c # s) =
     (case spaced_variable (c # s) of
        Some r \<Rightarrow> drop_spaced_variables r
      | None \<Rightarrow> c # drop_spaced_variables s)"
  by pat_completeness auto
termination
  by (relation "measure length") (auto dest: spaced_variable_shorter)

text \<open>One source of a rule; the result holds the outputs.\<close>

definition WriteRuleSource :: "pydict \<Rightarrow> string \<Rightarrow> nat \<Rightarrow> string \<Rightarrow> makefile_writer
    \<Rightarrow> (string list \<times> makefile_writer) res" where
  "WriteRuleSource rule name count rule_source w =
     (let (rule_source_dirname, rule_source_basename) = path_split rule_source;
          rule_source_root = fst (splitext rule_source_basename);
          expand = (\<lambda>t. ExpandInputRoot t rule_source_root rule_source_dirname);
          tag = name @ ''_'' @ str_of_nat count in
      rbind (rbind (rbind (dlookup rule ''outputs'') texts) (rmap expand)) (\<lambda>outputs.
      rbind (int_flag rule ''process_outputs_as_sources'') (\<lambda>as_sources.
      rbind (int_flag rule ''process_outputs_as_mac_bundle_resources'') (\<lambda>_.
      rbind (list_field rule ''inputs'') (\<lambda>rule_inputs.
      (let dirs = output_dirs outputs;
           inputs = map (\<lambda>i. sourcify w (Absolutify w i)) (rule_source # rule_inputs);
           actions = [''$(call do_cmd,'' @ tag @ '')'']
             @ (if name = ''resources_grit'' then [''@touch --no-create $@''] else []);
           outs = map (Absolutify w) outputs;
           mkdirs = hardcode_target w (if dirs \<noteq> [] then ''mkdir -p '' @ join_str '' '' dirs @ ''; '' else []) in
       rbind (list_index outs 0) (\<lambda>first.
       rbind (no_spaces (map drop_spaced_variables outs)) (\<lambda>_.
       rbind (rbind (rbind (dlookup rule ''action'') texts) (rmap expand)) (\<lambda>action.
       rbind (run_steps
           [if as_sources then add_sources outputs else skip,
            WriteLn (first @ '': obj := $(abs_obj)''),
            WriteLn (first @ '': builddir := $(abs_builddir)''),
            WriteMakeRule outs (inputs @ [''FORCE_DO_CMD'']) actions [] False False False,
            WriteLn (''all_deps += '' @ join_str '' '' outs),
            WriteLn (''cmd_'' @ tag @ '' = '' @ library_path @ cd_action w @ mkdirs
              @ hardcode_target w (EncodePOSIXShellList (map PStr action))),
            WriteLn (''quiet_cmd_'' @ tag @ '' = RULE '' @ tag @ '' $@''),
            WriteLn []] w) (\<lambda>w. Inr (outs, w)))))))))))"

fun WriteRuleSources :: "pydict \<Rightarrow> string \<Rightarrow> nat \<Rightarrow> string list \<Rightarrow> string list \<Rightarrow> makefile_writer
    \<Rightarrow> (string list \<times> makefile_writer) res" where
  "WriteRuleSources rule name count all_outputs [] w = Inr (all_outputs, w)"
| "WriteRuleSources rule name count all_outputs (s # ss) w =
     rbind (WriteRuleSource rule name count s w) (\<lambda>(outs, w).
       WriteRuleSources rule name (Suc count) (all_outputs @ outs) ss w)"

definition WriteRule :: "pyval \<Rightarrow> mk_step" where
  "WriteRule rule w =
     rbind (as_dict ''__getitem__'' rule) (\<lambda>r.
     rbind (dlookup r ''rule_name'') (\<lambda>rule_name.
     rbind (list_field r ''rule_sources'') (\<lambda>rule_sources.
       (let name = make_name w rule_name; variable = ''rule_'' @ name @ ''_outputs'' in
        rbind (WriteLn (''### Generated for rule '' @ name @ '':'') w) (\<lambda>w.
        rbind (WriteRuleSources r name 0 [] rule_sources w) (\<lambda>(all_outputs, w).
          run_steps [plain_list all_outputs variable,
                 add_outputs [''$('' @ variable @ '')''],
                 WriteLn (''### Finished generating for rule: '' @ name),
                 WriteLn []] w))))))"

definition WriteRules :: "pyval \<Rightarrow> mk_step" where
  "WriteRules rules w =
     rbind (py_iter rules) (\<lambda>rs.
       run_steps (map WriteRule rs @ [WriteLn ''### Finished generating for all rules'', WriteLn []]) w)"
definition WriteCopy :: "pyval \<Rightarrow> string \<Rightarrow> makefile_writer \<Rightarrow> (string \<times> makefile_writer) res" where
  "WriteCopy destination file w =
     rbind (as_text destination) (\<lambda>dest.
       (let path = sourcify w (Absolutify w file);
            output = sourcify w (Absolutify w (path_join dest [basename path])) in
        rbind (WriteDoCmd [output] [path] ''copy'' [] False w) (\<lambda>w. Inr (output, w))))"

fun WriteCopyFiles :: "pyval \<Rightarrow> string list \<Rightarrow> string list \<Rightarrow> makefile_writer
    \<Rightarrow> (string list \<times> makefile_writer) res" where
  "WriteCopyFiles destination outputs [] w = Inr (outputs, w)"
| "WriteCopyFiles destination outputs (f # fs) w =
     rbind (WriteCopy destination f w) (\<lambda>(output, w). WriteCopyFiles destination (outputs @ [output]) fs w)"

fun WriteCopyGroups :: "pyval list \<Rightarrow> string list \<Rightarrow> makefile_writer \<Rightarrow> (string list \<times> makefile_writer) res" where
  "WriteCopyGroups [] outputs w = Inr (outputs, w)"
| "WriteCopyGroups (copy # copies) outputs w =
     rbind (as_dict ''__getitem__'' copy) (\<lambda>c.
     rbind (rbind (dlookup c ''files'') texts) (\<lambda>files.
     rbind (if files = [] then Inr (PStr []) else dlookup c ''destination'') (\<lambda>destination.
     rbind (WriteCopyFiles destination outputs files w) (\<lambda>(outputs, w). WriteCopyGroups copies outputs w))))"

definition WriteCopies :: "pyval \<Rightarrow> mk_step" where
  "WriteCopies copies w =
     rbind (py_iter copies) (\<lambda>cs.
     rbind (WriteLn ''### Generated for copy rule.'' w) (\<lambda>w.
     rbind (WriteCopyGroups cs [] w) (\<lambda>(outputs, w).
       (let variable = StringToMakefileVariable (self_qualified_target w @ ''_copies'') in
        run_steps [WriteLn (variable @ '' = '' @ join_str '' '' (map (\<lambda>o'. QuoteSpaces o' backslash_space) outputs)),
               add_outputs [''$('' @ variable @ '')''],
               WriteLn []] w))))"

section \<open>Sources\<close>

definition config_list :: "pyval \<Rightarrow> string \<Rightarrow> string list res" where
  "config_list config key = rbind (as_dict ''get'' config) (\<lambda>d. list_field d key)"

definition WriteConfiguration :: "string \<times> pyval \<Rightarrow> mk_step" where
  "WriteConfiguration c w =
     (let (configname, config) = c in
      rbind (config_list config ''defines'') (\<lambda>defines.
      rbind (config_list config ''cflags'') (\<lambda>cflags.
      rbind (config_list config ''cflags_c'') (\<lambda>cflags_c.
      rbind (config_list config ''cflags_cc'') (\<lambda>cflags_cc.
      rbind (config_list config ''include_dirs'') (\<lambda>includes.
        run_steps
          [WriteList defines (''DEFS_'' @ configname) ''-D'' EscapeCppDefine,
           WriteLn ''# Flags passed to all source files.'',
           plain_list cflags (''CFLAGS_'' @ configname),
           WriteLn ''# Flags passed to only C files.'',
           plain_list cflags_c (''CFLAGS_C_'' @ configname),
           WriteLn ''# Flags passed to only C++ files.'',
           plain_list cflags_cc (''CFLAGS_CC_'' @ configname),
           WriteList (map (\<lambda>i. sourcify w (Absolutify w i)) includes) (''INCS_'' @ configname) ''-I''
             QuoteIfNecessary] w))))))"

definition sorted_configs :: "pydict \<Rightarrow> pydict" where
  "sorted_configs configs = sort_key fst configs"

definition objects_of :: "makefile_writer \<Rightarrow> string list \<Rightarrow> string list" where
  "objects_of w sources = map (\<lambda>s. Objectify w (Absolutify w (Target s))) (filter Compilable sources)"

definition object_flags :: "mk_step list" where
  "object_flags =
     [WriteLn ''# CFLAGS et al overrides must be target-local.'',
      WriteLn (''# See '' @ [CHR 0x22] @ ''Target-specific Variable Values'' @ [CHR 0x22] @ '' in the GNU Make manual.''),
      WriteLn ''$(OBJS): TOOLSET := $(TOOLSET)'',
      WriteLn (''$(OBJS): GYP_CFLAGS := $(DEFS_$(BUILDTYPE)) $(INCS_$(BUILDTYPE))  ''
        @ ''$(CFLAGS_$(BUILDTYPE)) $(CFLAGS_C_$(BUILDTYPE))''),
      WriteLn (''$(OBJS): GYP_CXXFLAGS := $(DEFS_$(BUILDTYPE)) $(INCS_$(BUILDTYPE))  ''
        @ ''$(CFLAGS_$(BUILDTYPE)) $(CFLAGS_CC_$(BUILDTYPE))'')]"

definition WriteSources :: "pydict \<Rightarrow> string list \<Rightarrow> string list \<Rightarrow> mk_step" where
  "WriteSources configs deps sources w =
     rbind (run_steps (map WriteConfiguration (sorted_configs configs)) w) (\<lambda>w.
       (let objs = objects_of w sources in
        rbind (no_spaces objs) (\<lambda>_.
        run_steps
          ([plain_list objs ''OBJS'',
            WriteLn ''# Add to the list of files we specially track dependencies for.'',
            WriteLn ''all_deps += $(OBJS)'',
            WriteLn [],
            if deps \<noteq> [] then order_rule [''$(OBJS)''] deps ''Make sure our dependencies are built before any of us.''
            else skip,
            if extra_outputs w \<noteq> []
            then order_rule [''$(OBJS)''] (extra_outputs w) ''Make sure our actions/rules run before any of us.''
            else skip]
           @ (if objs \<noteq> [] then add_link_deps [''$(OBJS)''] # object_flags else [])
           @ [add_link_deps (filter Linkable sources), WriteLn []]) w)))"

section \<open>The final target\<close>

definition ComputeOutputBasename :: "makefile_writer \<Rightarrow> pydict \<Rightarrow> string res" where
  "ComputeOutputBasename w spec =
     rbind (text_field spec ''target_name'') (\<lambda>name.
       (let stem = (if prefix ''lib'' name then drop 3 name else name);
            (stem_prefix, target, ext) =
              (if self_type w = ''static_library'' then (''lib'', stem, ''.a'')
               else if self_type w \<in> {''loadable_module'', ''shared_library''} then (''lib'', stem, ''.so'')
               else if self_type w = ''none'' then ([], name @ ''.stamp'', [])
               else ([], name, [])) in
        rbind (as_text (dget_default spec ''product_prefix'' (PStr stem_prefix))) (\<lambda>target_prefix.
        rbind (as_text (dget_default spec ''product_name'' (PStr target))) (\<lambda>target.
        rbind (case dget spec ''product_extension'' of
                 None \<Rightarrow> Inr ext
               | Some v \<Rightarrow> if truthy v then rbind (as_text v) (\<lambda>e. Inr (''.'' @ e)) else Inr ext) (\<lambda>target_ext.
          Inr (target_prefix @ target @ target_ext))))))"

definition ComputeOutput :: "makefile_writer \<Rightarrow> pydict \<Rightarrow> string res" where
  "ComputeOutput w spec =
     (let path = (if self_type w = ''executable'' then ''$(builddir)''
                  else path_join (''$(obj).'' @ self_toolset w) [self_path w]) in
      rbind (as_text (dget_default spec ''product_dir'' (PStr path))) (\<lambda>path.
      rbind (ComputeOutputBasename w spec) (\<lambda>base. Inr (path_join path [base]))))"

text \<open>The maps from qualified targets to what is built for them, filled in as targets are written.\<close>

record make_outputs =
  target_outputs :: "(string \<times> string) list"
  target_link_deps :: "(string \<times> string) list"

definition ComputeDeps :: "make_outputs \<Rightarrow> pydict \<Rightarrow> (string list \<times> string list) res" where
  "ComputeDeps mo spec =
     rbind (case dget spec ''dependencies'' of None \<Rightarrow> Inr [] | Some v \<Rightarrow> texts v) (\<lambda>dependencies.
     rbind (rmap (dlookup (target_outputs mo)) dependencies) (\<lambda>outs.
       (let link_deps = concat (map (\<lambda>d. case dget (target_link_deps mo) d of None \<Rightarrow> [] | Some l \<Rightarrow> [l]) dependencies);
            deps = filter (\<lambda>o'. o' \<noteq> []) outs @ link_deps in
        Inr (uniquer deps id, uniquer link_deps id))))"

definition rpath_flags :: "makefile_writer \<Rightarrow> string list \<Rightarrow> string list" where
  "rpath_flags w deps =
     (if \<exists>dep \<in> set deps. suffix ''.so'' dep \<or> sublist ''.so.'' dep
      then [''-Wl,-rpath='' @ [CHR 0x5C] @ ''$$ORIGIN/lib.'' @ self_toolset w @ ''/'',
            ''-Wl,-rpath-link='' @ [CHR 0x5C] @ ''$(builddir)/lib.'' @ self_toolset w @ ''/'']
      else [])"

definition WriteLinkFlags :: "string list \<Rightarrow> string \<times> pyval \<Rightarrow> mk_step" where
  "WriteLinkFlags deps c w =
     (let (configname, config) = c in
      rbind (config_list config ''ldflags'') (\<lambda>ldflags.
      rbind (config_list config ''library_dirs'') (\<lambda>library_dirs.
        plain_list (ldflags @ rpath_flags w deps @ map (\<lambda>d. ''-L'' @ d) library_dirs) (''LDFLAGS_'' @ configname) w)))"

definition quoted_output :: "makefile_writer \<Rightarrow> string" where
  "quoted_output w = QuoteSpaces (self_output w) backslash_space"

definition WriteLinkSettings :: "pydict \<Rightarrow> pydict \<Rightarrow> string list \<Rightarrow> mk_step" where
  "WriteLinkSettings spec configs deps w =
     rbind (list_field spec ''libraries'') (\<lambda>libraries.
       run_steps (map (WriteLinkFlags deps) (sorted_configs configs)
         @ [plain_list (uniquer libraries id) ''LIBS'',
            WriteLn (quoted_output w @ '': GYP_LDFLAGS := $(LDFLAGS_$(BUILDTYPE))''),
            WriteLn (quoted_output w @ '': LIBS := $(LIBS)'')]) w)"

definition write_ld_inputs :: "string list \<Rightarrow> mk_step" where
  "write_ld_inputs link_deps w =
     WriteLn (quoted_output w @ '': LD_INPUTS := ''
       @ join_str '' '' (map (\<lambda>d. QuoteSpaces d backslash_space) link_deps)) w"

definition WriteLinkRule :: "string list \<Rightarrow> string list \<Rightarrow> mk_step" where
  "WriteLinkRule deps link_deps w =
     (let host_android = self_toolset w = ''host'' \<and> self_flavor w = ''android'';
          link = (\<lambda>inputs command. WriteDoCmd [self_output w] inputs command [] False) in
      if self_type w = ''executable'' then
        run_steps [write_ld_inputs link_deps, link link_deps (if host_android then ''link_host'' else ''link'')] w
      else if self_type w = ''static_library'' then
        rbind (no_spaces link_deps) (\<lambda>_.
          link link_deps
            (if self_flavor w \<notin> {''mac'', ''openbsd'', ''win''} \<and> \<not> self_standalone w then ''alink_thin'' else ''alink'') w)
      else if self_type w = ''shared_library'' then
        run_steps [write_ld_inputs link_deps, link link_deps ''solink''] w
      else if self_type w = ''loadable_module'' then
        rbind (no_spaces link_deps) (\<lambda>_.
          link link_deps (if host_android then ''solink_module_host'' else ''solink_module'') w)
      else if self_type w = ''none'' then link deps ''touch'' w
      else Inl (NameError ''target''))"

text \<open>The names a target can be built by.\<close>

definition WriteAliases :: "bool \<Rightarrow> mk_step" where
  "WriteAliases part_of_all w =
     run_steps
       [if self_output w \<noteq> [] \<and> self_output w \<noteq> self_target w \<and> self_type w \<notin> set installable_types
        then run_steps
          [phony_rule [self_target w] [self_output w] ''Add target alias'',
           if part_of_all
           then phony_rule [''all''] [self_target w]
                  (''Add target alias to '' @ [CHR 0x22] @ ''all'' @ [CHR 0x22] @ '' target.'')
           else skip]
        else skip,
        if self_type w \<in> set installable_types \<or> self_standalone w
        then
          (let file_desc = (if self_type w = ''shared_library'' then ''shared library''
                            else if self_type w = ''static_library'' then ''static library'' else ''executable'');
               install_path = InstallableTargetInstallPath w;
               installed = install_path \<noteq> self_output w in
           run_steps
             [phony_rule [self_target w] [install_path] ''Add target alias'',
              if installed
              then WriteDoCmd [install_path] [self_output w] ''copy''
                     (''Copy this to the '' @ file_desc @ '' output path.'') False
              else skip,
              if self_output w \<noteq> self_alias w \<and> self_alias w \<noteq> self_target w
              then phony_rule [self_alias w] (self_output w # (if installed then [install_path] else []))
                     (''Short alias for building this '' @ file_desc @ ''.'')
              else skip,
              if part_of_all
              then phony_rule [''all''] [install_path]
                     (''Add '' @ file_desc @ '' to '' @ [CHR 0x22] @ ''all'' @ [CHR 0x22] @ '' target.'')
              else skip])
        else skip] w"

definition WriteTarget :: "pydict \<Rightarrow> pydict \<Rightarrow> string list \<Rightarrow> string list \<Rightarrow> bool \<Rightarrow> mk_step" where
  "WriteTarget spec configs deps link_deps part_of_all w =
     run_steps
       [WriteLn ''### Rules for final target.'',
        if extra_outputs w \<noteq> []
        then run_steps [order_rule [self_output w] (extra_outputs w) ''Build our special outputs first.'',
                    order_rule (extra_outputs w) deps ''Preserve order dependency of special output on deps.'']
        else skip,
        if self_type w \<noteq> ''none'' then WriteLinkSettings spec configs deps else skip,
        WriteLinkRule deps link_deps,
        WriteAliases part_of_all] w"
section \<open>Android modules\<close>

definition cpp_extension :: "string list \<Rightarrow> string" where
  "cpp_extension all_sources =
     snd (fold (\<lambda>filename (cpp_ext, default_cpp_ext).
           let ext = snd (splitext filename) in
           case dget cpp_ext ext of
             None \<Rightarrow> (cpp_ext, default_cpp_ext)
           | Some n \<Rightarrow>
               (let cpp_ext = dset ext (Suc n) cpp_ext in
                (cpp_ext, if the (dget cpp_ext default_cpp_ext) < Suc n then ext else default_cpp_ext)))
         all_sources ([(''.cc'', 0 :: nat), (''.cpp'', 0), (''.cxx'', 0)], ''.cpp''))"

definition DepsToModules :: "string list \<Rightarrow> string \<Rightarrow> string \<Rightarrow> string list" where
  "DepsToModules deps pre suf =
     map (\<lambda>f. drop (length pre) (take (length f - length suf) f))
       (filter (\<lambda>f. prefix pre f \<and> suffix suf f) (map basename deps))"

definition WriteAndroidNdkModuleRule :: "string list \<Rightarrow> string list \<Rightarrow> mk_step" where
  "WriteAndroidNdkModuleRule all_sources link_deps w =
     (if self_type w \<notin> {''executable'', ''shared_library'', ''static_library''} then Inr w
      else
        run_steps
          [WriteLn ''# Variable definitions for Android applications'',
           WriteLn ''include $(CLEAR_VARS)'',
           WriteLn (''LOCAL_MODULE := '' @ self_target w),
           WriteLn (''LOCAL_CFLAGS := $(CFLAGS_$(BUILDTYPE)) $(DEFS_$(BUILDTYPE)) ''
             @ ''$(CFLAGS_C_$(BUILDTYPE)) $(INCS_$(BUILDTYPE))''),
           WriteLn ''LOCAL_CPPFLAGS := $(CFLAGS_CC_$(BUILDTYPE))'',
           WriteLn ''LOCAL_C_INCLUDES :='',
           WriteLn ''LOCAL_LDLIBS := $(LDFLAGS_$(BUILDTYPE)) $(LIBS)'',
           WriteLn (''LOCAL_CPP_EXTENSION := '' @ cpp_extension all_sources),
           plain_list (map (Absolutify w) (filter Compilable all_sources)) ''LOCAL_SRC_FILES'',
           plain_list (DepsToModules link_deps ''lib'' ''.so'') ''LOCAL_SHARED_LIBRARIES'',
           plain_list (DepsToModules link_deps ''lib'' ''.a'') ''LOCAL_STATIC_LIBRARIES'',
           WriteLn (''include $(BUILD_'' @
             (if self_type w = ''executable'' then ''EXECUTABLE''
              else if self_type w = ''shared_library'' then ''SHARED_LIBRARY'' else ''STATIC_LIBRARY'') @ '')''),
           WriteLn []] w)"

section \<open>Writing a target\<close>

definition header :: string where
  "header = ''# This file is generated by gyp; do not edit.'' @ line_end @ line_end"

definition suffix_rule :: "string \<Rightarrow> string \<Rightarrow> string \<Rightarrow> string" where
  "suffix_rule objects directory ext =
     objects @ ''%.o: '' @ directory @ ''%'' @ ext @ '' FORCE_DO_CMD'' @ line_end
     @ [CHR 0x09] @ ''@$(call do_cmd,'' @ the (dget COMPILABLE_EXTENSIONS ext) @ '',1)'' @ line_end"

definition target_objects :: string where
  "target_objects = ''$(obj).$(TOOLSET)/$(TARGET)/''"

definition write_suffix_rules :: "string list \<Rightarrow> mk_step" where
  "write_suffix_rules sources =
     (let extensions = filter (dhas COMPILABLE_EXTENSIONS) (set_of (map (\<lambda>s. snd (splitext s)) sources));
          each = (\<lambda>directory. map (\<lambda>ext. WriteLn (suffix_rule target_objects directory ext)) extensions) in
      run_steps
        ([WriteLn (''# Suffix rules, putting all outputs into $(obj).'' @ line_end)]
         @ each ''$(srcdir)/''
         @ [WriteLn (''# Try building from generated source, too.'' @ line_end)]
         @ each ''$(obj).$(TOOLSET)/'' @ each ''$(obj)/''
         @ [WriteLn ''# End of this set of suffix rules'']))"

definition new_writer :: "string \<Rightarrow> string \<Rightarrow> string \<Rightarrow> string \<Rightarrow> pydict \<Rightarrow> makefile_writer res" where
  "new_writer flavor source_pre qualified_target base_path spec =
     rbind (text_field spec ''target_name'') (\<lambda>target.
     rbind (text_field spec ''type'') (\<lambda>ty.
     rbind (text_field spec ''toolset'') (\<lambda>toolset.
     rbind (int_flag spec ''mac_bundle'') (\<lambda>_.
       Inr \<lparr>self_flavor = flavor, self_qualified_target = qualified_target, self_path = base_path,
            self_target = target, self_type = ty, self_toolset = toolset, self_output = [], self_alias = [],
            self_standalone = False, source_prefix = source_pre, fp = header, extra_sources = [],
            extra_outputs = [], extra_link_deps = []\<rparr>))))"

text \<open>The attributes that are computed from the output, and the path the target is installed at.\<close>

definition set_output :: "pydict \<Rightarrow> makefile_writer \<Rightarrow> (string \<times> makefile_writer) res" where
  "set_output spec w =
     rbind (ComputeOutput w spec) (\<lambda>output.
       (let standalone = truthy (dget_default spec ''standalone_static_library'' (PInt 0));
            installable = standalone \<or> self_type w \<in> set installable_types;
            w = w\<lparr>self_output := output, self_standalone := standalone,
                  self_alias := (if installable then basename output else output)\<rparr> in
        Inr (if installable then InstallableTargetInstallPath w else output, w)))"

definition write_section :: "pydict \<Rightarrow> string \<Rightarrow> (pyval \<Rightarrow> mk_step) \<Rightarrow> mk_step" where
  "write_section spec key write = (case dget spec key of None \<Rightarrow> skip | Some v \<Rightarrow> write v)"

definition write_sources :: "pydict \<Rightarrow> pydict \<Rightarrow> string list \<Rightarrow> mk_step" where
  "write_sources spec configs deps w =
     rbind (list_field spec ''sources'') (\<lambda>sources.
       (let all_sources = sources @ extra_sources w in
        if all_sources = [] then Inr w
        else
          run_steps [WriteSources configs deps all_sources,
                 if \<exists>s \<in> set all_sources. Compilable s
                 then write_suffix_rules (filter Compilable all_sources) else skip] w))"

text \<open>\<open>Write\<close>: the text of the file, and the maps with the entries of the target.  The attributes other
  than the text and the lists do not change while it is written.\<close>

definition Write :: "string \<Rightarrow> bool \<Rightarrow> string \<Rightarrow> string \<Rightarrow> string \<Rightarrow> pydict \<Rightarrow> pydict \<Rightarrow> bool \<Rightarrow> make_outputs
    \<Rightarrow> (string \<times> make_outputs) res" where
  "Write flavor android_ndk source_pre qualified_target base_path spec configs part_of_all mo =
     rbind (new_writer flavor source_pre qualified_target base_path spec) (\<lambda>w.
     rbind (ComputeDeps mo spec) (\<lambda>(deps, link_deps).
     rbind (set_output spec w) (\<lambda>(install_path, w).
     rbind (run_steps
        [WriteLn (''TOOLSET := '' @ self_toolset w),
         WriteLn (''TARGET := '' @ self_target w),
         write_section spec ''actions'' WriteActions,
         write_section spec ''rules'' WriteRules,
         write_section spec ''copies'' WriteCopies,
         write_sources spec configs deps,
         (\<lambda>w. WriteTarget spec configs deps (extra_link_deps w @ link_deps) part_of_all w),
         (\<lambda>w. if \<not> android_ndk then Inr w
              else rbind (list_field spec ''sources'') (\<lambda>sources.
                WriteAndroidNdkModuleRule (sources @ extra_sources w) link_deps w))] w) (\<lambda>written.
       Inr (fp written, mo\<lparr>
         target_outputs := dset qualified_target install_path (target_outputs mo),
         target_link_deps :=
           (if self_type w \<in> {''static_library'', ''shared_library''}
            then dset qualified_target (self_output w) (target_link_deps mo) else target_link_deps mo)\<rparr>)))))"

definition WriteSubMake :: "string \<Rightarrow> string \<Rightarrow> string list \<Rightarrow> string \<Rightarrow> string" where
  "WriteSubMake output_filename makefile_path targets build_dir =
     header @ ''export builddir_name ?= '' @ path_join (dirname output_filename) [build_dir] @ line_end
     @ ''.PHONY: all'' @ line_end
     @ ''all:'' @ line_end
     @ [CHR 0x09] @ ''$(MAKE)'' @ (if makefile_path = [] then [] else '' -C '' @ makefile_path)
     @ '' '' @ join_str '' '' targets @ line_end"

end
