(* ===== verification/Py_Heap.thy ===== *)
theory Py_Heap
  imports Py_Prelude
begin

text \<open>
  Lists and dictionaries with an identity.  Where the code mutates an object that it can also reach
  by another name, values hold addresses of a store; \<open>value_of\<close> reads a value back as a tree and
  \<open>new_value\<close> puts a tree into the store.  A program that changes a state, may raise and may not
  return is an \<open>act\<close>.
\<close>

section \<open>Actions\<close>

type_synonym ('s, 'a) act = "'s \<Rightarrow> ('a \<times> 's) comp"

definition ret :: "'a \<Rightarrow> ('s, 'a) act" where
  "ret x = (\<lambda>w. Some (Inr (x, w)))"

definition throw :: "py_error \<Rightarrow> ('s, 'a) act" where
  "throw e = (\<lambda>w. Some (Inl e))"

definition abind :: "('s, 'a) act \<Rightarrow> ('a \<Rightarrow> ('s, 'b) act) \<Rightarrow> ('s, 'b) act" where
  "abind m f = (\<lambda>w. obind (m w) (\<lambda>(x, w'). f x w'))"

definition of_res :: "'a res \<Rightarrow> ('s, 'a) act" where
  "of_res r = (case r of Inl e \<Rightarrow> throw e | Inr x \<Rightarrow> ret x)"

text \<open>A computation that returns only where its value is there.\<close>

definition of_option :: "'a option \<Rightarrow> ('s, 'a) act" where
  "of_option r = (case r of None \<Rightarrow> (\<lambda>w. None) | Some x \<Rightarrow> ret x)"

definition state :: "('s, 's) act" where
  "state = (\<lambda>w. Some (Inr (w, w)))"

definition change :: "('s \<Rightarrow> 's) \<Rightarrow> ('s, unit) act" where
  "change f = (\<lambda>w. Some (Inr ((), f w)))"

fun afold :: "('a \<Rightarrow> 'b \<Rightarrow> ('s, 'b) act) \<Rightarrow> 'a list \<Rightarrow> 'b \<Rightarrow> ('s, 'b) act" where
  "afold f [] b = ret b"
| "afold f (x # xs) b = abind (f x b) (afold f xs)"

lemma act_simps [simp]:
  "ret x w = Some (Inr (x, w))"
  "throw e w = Some (Inl e)"
  "abind m f w = obind (m w) (\<lambda>(x, w'). f x w')"
  "of_res (Inl e) = throw e"
  "of_res (Inr x) = ret x"
  "of_option None w = None"
  "of_option (Some x) = ret x"
  "state w = Some (Inr (w, w))"
  "change g w = Some (Inr ((), g w))"
  by (simp_all add: ret_def throw_def abind_def of_res_def of_option_def state_def change_def)

lemma of_res_Inr [simp]: "of_res r w = Some (Inr y) \<longleftrightarrow> (\<exists>x. r = Inr x \<and> y = (x, w))"
  by (cases r) auto

lemma of_option_Inr [simp]: "of_option r w = Some (Inr y) \<longleftrightarrow> (\<exists>x. r = Some x \<and> y = (x, w))"
  by (cases r) auto

lemma abind_Inr: "abind m f w = Some (Inr r) \<longleftrightarrow> (\<exists>x w'. m w = Some (Inr (x, w')) \<and> f x w' = Some (Inr r))"
  by auto

lemma abind_mono [partial_function_mono]:
  assumes "\<And>u. mono_option (\<lambda>f. B f u)" "\<And>y u. mono_option (\<lambda>f. C y f u)"
  shows "mono_option (\<lambda>f. abind (B f) (\<lambda>y. C y f) w)"
  unfolding abind_def by (rule obind_mono[OF assms(1)]) (auto simp: split_beta intro: assms(2))

lemma afold_mono [partial_function_mono]:
  assumes "\<And>x b u. mono_option (\<lambda>f. B f x b u)"
  shows "mono_option (\<lambda>f. afold (B f) xs b w)"
proof (induction xs arbitrary: b w)
  case Nil
  show ?case by (simp add: option.const_mono)
next
  case (Cons x xs)
  show ?case unfolding afold.simps
    by (rule abind_mono[of "\<lambda>f. B f x b" "\<lambda>y f. afold (B f) xs y"]) (rule assms, rule Cons.IH)
qed

text \<open>The invariant rule of a loop of actions.\<close>

lemma afold_invariant:
  assumes "afold f xs b w = Some (Inr (b', w'))" "P b w"
    and "\<And>x c u c' u'. x \<in> set xs \<Longrightarrow> P c u \<Longrightarrow> f x c u = Some (Inr (c', u')) \<Longrightarrow> P c' u'"
  shows "P b' w'"
  using assms
proof (induction xs arbitrary: b w)
  case (Cons x xs)
  from Cons.prems(1) obtain c u where cu: "f x b w = Some (Inr (c, u))" "afold f xs c u = Some (Inr (b', w'))"
    by auto
  have "P c u" by (rule Cons.prems(3)[of x b w c u]) (use Cons.prems(2) cu(1) in simp_all)
  from cu(2) this show ?case by (rule Cons.IH) (rule Cons.prems(3), auto)
qed simp

section \<open>Triples\<close>

text \<open>What holds of the result and the new state whenever an action returns.\<close>

definition holds :: "('s \<Rightarrow> bool) \<Rightarrow> ('s, 'a) act \<Rightarrow> ('a \<Rightarrow> 's \<Rightarrow> bool) \<Rightarrow> bool" where
  "holds P m Q \<longleftrightarrow> (\<forall>w x w'. P w \<longrightarrow> m w = Some (Inr (x, w')) \<longrightarrow> Q x w')"

named_theorems triple \<open>rules for the triples\<close>

lemma holdsI: "(\<And>w x w'. P w \<Longrightarrow> m w = Some (Inr (x, w')) \<Longrightarrow> Q x w') \<Longrightarrow> holds P m Q"
  by (auto simp: holds_def)

lemma holdsD: "holds P m Q \<Longrightarrow> P w \<Longrightarrow> m w = Some (Inr (x, w')) \<Longrightarrow> Q x w'"
  by (auto simp: holds_def)

lemma holds_weaken: "holds P' m Q' \<Longrightarrow> (\<And>w. P w \<Longrightarrow> P' w) \<Longrightarrow> (\<And>x w. Q' x w \<Longrightarrow> Q x w) \<Longrightarrow> holds P m Q"
  unfolding holds_def by blast

lemma holds_bind [triple]:
  assumes "holds P m R" "\<And>x. holds (R x) (f x) Q"
  shows "holds P (abind m f) Q"
proof (rule holdsI)
  fix w y w'
  assume "P w" "abind m f w = Some (Inr (y, w'))"
  then obtain x u where "m w = Some (Inr (x, u))" "f x u = Some (Inr (y, w'))" by auto
  with \<open>P w\<close> show "Q y w'" using holdsD[OF assms(1)] holdsD[OF assms(2)] by blast
qed

lemma holds_ret: "(\<And>w. P w \<Longrightarrow> Q x w) \<Longrightarrow> holds P (ret x) Q"
  by (auto simp: holds_def)

lemma holds_throw [triple]: "holds P (throw e) Q"
  by (auto simp: holds_def)

lemma holds_state: "(\<And>w. P w \<Longrightarrow> Q w w) \<Longrightarrow> holds P state Q"
  by (auto simp: holds_def)

lemma holds_change: "(\<And>w. P w \<Longrightarrow> Q () (g w)) \<Longrightarrow> holds P (change g) Q"
  by (auto simp: holds_def)

lemma holds_of_res: "(\<And>x w. r = Inr x \<Longrightarrow> P w \<Longrightarrow> Q x w) \<Longrightarrow> holds P (of_res r) Q"
  by (auto simp: holds_def)

lemma holds_of_option: "(\<And>x w. r = Some x \<Longrightarrow> P w \<Longrightarrow> Q x w) \<Longrightarrow> holds P (of_option r) Q"
  by (auto simp: holds_def)

lemma holds_if [triple]:
  "(b \<Longrightarrow> holds P m Q) \<Longrightarrow> (\<not> b \<Longrightarrow> holds P n Q) \<Longrightarrow> holds P (if b then m else n) Q"
  by simp

lemma holds_afold:
  assumes "\<And>x b. x \<in> set xs \<Longrightarrow> holds (I b) (f x b) I"
  shows "holds (I b) (afold f xs b) I"
proof (rule holdsI)
  fix w b' w' assume "I b w" "afold f xs b w = Some (Inr (b', w'))"
  from this(2,1) show "I b' w'" by (rule afold_invariant) (rule holdsD[OF assms])
qed

section \<open>Objects\<close>

datatype hval = HStr string | HInt int | HList nat | HDict nat | HNone

type_synonym hdict = "(string \<times> hval) list"

datatype hobj = LObj "hval list" | DObj hdict

type_synonym store = "hobj list"

definition h_is_scalar :: "hval \<Rightarrow> bool" where
  "h_is_scalar v = (case v of HStr s \<Rightarrow> True | HInt i \<Rightarrow> True | _ \<Rightarrow> False)"

fun h_class_name :: "hval \<Rightarrow> string" where
  "h_class_name (HStr s) = ''str''"
| "h_class_name (HInt i) = ''int''"
| "h_class_name (HList a) = ''list''"
| "h_class_name (HDict a) = ''dict''"
| "h_class_name HNone = ''NoneType''"

definition list_obj :: "store \<Rightarrow> nat \<Rightarrow> hval list" where
  "list_obj h a = (if a < length h then case h ! a of LObj l \<Rightarrow> l | DObj d \<Rightarrow> [] else [])"

definition dict_obj :: "store \<Rightarrow> nat \<Rightarrow> hdict" where
  "dict_obj h a = (if a < length h then case h ! a of DObj d \<Rightarrow> d | LObj l \<Rightarrow> [] else [])"

text \<open>Reading a value as a tree: \<open>None\<close> for a value that contains itself or that is not in the
  store.  A path in a store without cycles visits each address at most once, so that the length of
  the store bounds the depth of what is read.\<close>

fun osequence :: "'a option list \<Rightarrow> 'a list option" where
  "osequence [] = Some []"
| "osequence (x # xs) =
     (case x of None \<Rightarrow> None
      | Some y \<Rightarrow> (case osequence xs of None \<Rightarrow> None | Some ys \<Rightarrow> Some (y # ys)))"

fun read_value :: "nat \<Rightarrow> store \<Rightarrow> hval \<Rightarrow> pyval option" where
  "read_value n h (HStr s) = Some (PStr s)"
| "read_value n h (HInt i) = Some (PInt i)"
| "read_value n h HNone = Some PNone"
| "read_value (Suc n) h (HList a) =
     (if a < length h then
        case h ! a of
          LObj l \<Rightarrow> map_option PList (osequence (map (read_value n h) l))
        | DObj d \<Rightarrow> None
      else None)"
| "read_value (Suc n) h (HDict a) =
     (if a < length h then
        case h ! a of
          DObj d \<Rightarrow>
            map_option (\<lambda>vs. PDict (zip (map fst d) vs)) (osequence (map (\<lambda>kv. read_value n h (snd kv)) d))
        | LObj l \<Rightarrow> None
      else None)"
| "read_value 0 h _ = None"

definition value_of :: "store \<Rightarrow> hval \<Rightarrow> pyval option" where
  "value_of h v = read_value (length h) h v"

definition dict_of :: "store \<Rightarrow> hdict \<Rightarrow> pydict option" where
  "dict_of h d =
     map_option (\<lambda>vs. zip (map fst d) vs) (osequence (map (\<lambda>kv. value_of h (snd kv)) d))"

text \<open>Putting a tree into the store, children first.\<close>

fun new_values :: "('v \<Rightarrow> store \<Rightarrow> hval \<times> store) \<Rightarrow> 'v list \<Rightarrow> store \<Rightarrow> hval list \<times> store" where
  "new_values f [] h = ([], h)"
| "new_values f (v # vs) h =
     (let (x, h1) = f v h; (xs, h2) = new_values f vs h1 in (x # xs, h2))"

lemma new_values_cong [fundef_cong]:
  assumes "vs = vs'" "h = h'" "\<And>v g. v \<in> set vs' \<Longrightarrow> f v g = f' v g"
  shows "new_values f vs h = new_values f' vs' h'"
  using assms(3) unfolding assms(1,2) by (induction vs' arbitrary: h') (simp_all split: prod.split)

fun new_value :: "pyval \<Rightarrow> store \<Rightarrow> hval \<times> store" where
  "new_value (PStr s) h = (HStr s, h)"
| "new_value (PInt i) h = (HInt i, h)"
| "new_value PNone h = (HNone, h)"
| "new_value (PList l) h =
     (let (vs, h1) = new_values new_value l h in (HList (length h1), h1 @ [LObj vs]))"
| "new_value (PDict d) h =
     (let (vs, h1) = new_values (\<lambda>kv. new_value (snd kv)) d h
      in (HDict (length h1), h1 @ [DObj (zip (map fst d) vs)]))"

definition new_dict :: "pydict \<Rightarrow> store \<Rightarrow> hdict \<times> store" where
  "new_dict d h = (let (vs, h1) = new_values (\<lambda>kv. new_value (snd kv)) d h in (zip (map fst d) vs, h1))"

end
