(* ===== verification/Gyp_Variables.thy ===== *)
theory Gyp_Variables
  imports Gyp_Merge
begin

text \<open>
  The parts of variable expansion (\<open>tools/gyp/pylib/gyp/input.py\<close>) that do not write to the build
  file: \<open>FindEnclosingBracketGroup\<close>, \<open>IsStrCanonicalInt\<close>, \<open>LoadAutomaticVariablesFromDict\<close> and
  \<open>LoadVariablesFromVariablesDict\<close>.
\<close>

section \<open>Brackets\<close>

definition is_lbracket :: "char \<Rightarrow> bool" where
  "is_lbracket c \<longleftrightarrow> c \<in> set ''{[(''"

definition opening_of :: "char \<Rightarrow> char option" where
  "opening_of c = map_of [(CHR ''}'', CHR ''{''), (CHR '']'', CHR ''[''), (CHR '')'', CHR ''('')] c"

fun find_group :: "string \<Rightarrow> string \<Rightarrow> int \<Rightarrow> nat \<Rightarrow> int \<times> int" where
  "find_group [] stack start index = (-1, -1)"
| "find_group (c # cs) stack start index =
     (if is_lbracket c
      then find_group cs (c # stack) (if start = -1 then int index else start) (Suc index)
      else
        (case opening_of c of
           Some b \<Rightarrow>
             (case stack of
                [] \<Rightarrow> (-1, -1)
              | opened # stack' \<Rightarrow>
                  if opened \<noteq> b then (-1, -1)
                  else if stack' = [] then (start, int (index + 1))
                  else find_group cs stack' start (Suc index))
         | None \<Rightarrow> find_group cs stack start (Suc index)))"

definition FindEnclosingBracketGroup :: "string \<Rightarrow> int \<times> int" where
  "FindEnclosingBracketGroup input_str = find_group input_str [] (-1) 0"

section \<open>Canonical integers\<close>

text \<open>The expression \<open>canonical_int_re\<close>; its \<open>$\<close> also matches before a newline that ends the
  string.\<close>

definition canonical_int_text :: "string \<Rightarrow> bool" where
  "canonical_int_text s \<longleftrightarrow>
     s = ''0''
     \<or> (let t = (if s \<noteq> [] \<and> hd s = CHR ''-'' then tl s else s)
        in t \<noteq> [] \<and> hd t \<in> set ''123456789'' \<and> (\<forall>c \<in> set (tl t). is_digit c))"

definition IsStrCanonicalInt :: "pyval \<Rightarrow> bool" where
  "IsStrCanonicalInt v =
     (case v of
        PStr s \<Rightarrow> canonical_int_text s
          \<or> s \<noteq> [] \<and> List.last s = CHR 0x0A \<and> canonical_int_text (butlast s)
      | _ \<Rightarrow> False)"

section \<open>Automatic variables and variables dictionaries\<close>

text \<open>The values a variable may have: strings, integers and lists.\<close>

text \<open>Variables hold trees here and references into a store during expansion: \<open>is_variable_value\<close> tells
  the values a variable may have (strings, integers and lists), \<open>items\<close> is \<open>iteritems\<close>.\<close>

definition is_variable_value :: "pyval \<Rightarrow> bool" where
  "is_variable_value v = (case v of PStr s \<Rightarrow> True | PInt i \<Rightarrow> True | PList l \<Rightarrow> True | _ \<Rightarrow> False)"

definition automatic_variable :: "('v \<Rightarrow> bool) \<Rightarrow> string \<times> 'v \<Rightarrow> (string \<times> 'v) list \<Rightarrow> (string \<times> 'v) list" where
  "automatic_variable is_value kv variables =
     (if is_value (snd kv) then dset (CHR ''_'' # fst kv) (snd kv) variables else variables)"

definition LoadAutomaticVariablesFromDict ::
    "('v \<Rightarrow> bool) \<Rightarrow> (string \<times> 'v) list \<Rightarrow> (string \<times> 'v) list \<Rightarrow> (string \<times> 'v) list" where
  "LoadAutomaticVariablesFromDict is_value variables the_dict =
     fold (automatic_variable is_value) the_dict variables"

definition load_variable :: "('v \<Rightarrow> bool) \<Rightarrow> (string \<times> 'v) list \<Rightarrow> string option
    \<Rightarrow> string \<times> 'v \<Rightarrow> (string \<times> 'v) list \<Rightarrow> (string \<times> 'v) list" where
  "load_variable is_value the_dict the_dict_key kv variables =
     (let (key, val) = kv in
      if \<not> is_value val then variables
      else if key \<noteq> [] \<and> List.last key = CHR ''%''
      then
        let variable_name = butlast key in
        if dhas variables variable_name then variables
        else
          dset variable_name
            (if the_dict_key = Some ''variables'' \<and> dhas the_dict variable_name
             then the (dget the_dict variable_name) else val)
            variables
      else dset key val variables)"

definition LoadVariablesFromVariablesDict :: "('v \<Rightarrow> bool) \<Rightarrow> ('v \<Rightarrow> (string \<times> 'v) list res)
    \<Rightarrow> (string \<times> 'v) list \<Rightarrow> (string \<times> 'v) list \<Rightarrow> string option \<Rightarrow> (string \<times> 'v) list res" where
  "LoadVariablesFromVariablesDict is_value items variables the_dict the_dict_key =
     rbind (case dget the_dict ''variables'' of None \<Rightarrow> Inr [] | Some v \<Rightarrow> items v) (\<lambda>d.
       Inr (fold (load_variable is_value the_dict the_dict_key) d variables))"

section \<open>Brackets: theorems\<close>

text \<open>Balanced text, and the text that closes a stack of open brackets.\<close>

inductive balanced :: "string \<Rightarrow> bool" where
  Nil: "balanced []"
| other: "\<not> is_lbracket c \<Longrightarrow> opening_of c = None \<Longrightarrow> balanced s \<Longrightarrow> balanced (c # s)"
| group: "is_lbracket b \<Longrightarrow> opening_of c = Some b \<Longrightarrow> balanced s \<Longrightarrow> balanced t \<Longrightarrow> balanced (b # s @ c # t)"

inductive closes :: "string \<Rightarrow> string \<Rightarrow> bool" where
  closed: "closes [] []"
| bracket: "balanced s \<Longrightarrow> opening_of c = Some b \<Longrightarrow> closes bs u \<Longrightarrow> closes (b # bs) (s @ c # u)"

inductive_cases closes_ConsE: "closes (b # bs) u"
inductive_simps closes_Nil [simp]: "closes [] u"

lemma closing_not_opening: "opening_of c = Some b \<Longrightarrow> \<not> is_lbracket c"
  by (auto simp: opening_of_def is_lbracket_def split: if_splits)

lemma balanced_run:
  assumes "balanced s" "stack \<noteq> []" "start \<noteq> -1"
  shows "find_group (s @ rest) stack start i = find_group rest stack start (i + length s)"
  using assms(1,2)
proof (induction arbitrary: stack i rest rule: balanced.induct)
  case (group b c s t)
  then show ?case using assms(3) closing_not_opening[of c b] by (cases stack) (simp_all add: add.assoc)
qed simp_all

lemma closes_run:
  assumes "closes stack u" "stack \<noteq> []" "start \<noteq> -1"
  shows "find_group (u @ post) stack start i = (start, int (i + length u))"
  using assms(1,2)
proof (induction arbitrary: i rule: closes.induct)
  case (bracket s c b bs u)
  have "find_group (s @ c # u @ post) (b # bs) start i = find_group (c # u @ post) (b # bs) start (i + length s)"
    by (rule balanced_run[OF bracket(1) _ assms(3)]) simp
  also have "\<dots> = (start, int (i + length (s @ c # u)))"
    using bracket closing_not_opening[of c b] by (cases "bs = []") (auto simp: algebra_simps)
  finally show ?case by simp
qed simp

lemma run_closes:
  assumes "find_group s stack start i = (start, e)" "0 \<le> start" "stack \<noteq> []"
  shows "\<exists>u post. s = u @ post \<and> closes stack u \<and> e = int (i + length u)"
  using assms(1,3)
proof (induction s arbitrary: stack i)
  case (Cons c s)
  from Cons.prems(2) obtain b bs where stack: "stack = b # bs" by (cases stack) auto
  show ?case
  proof (cases "is_lbracket c")
    case True
    with Cons.prems(1) assms(2) have "find_group s (c # stack) start (Suc i) = (start, e)" by simp
    from Cons.IH[OF this] obtain u post where
      u: "s = u @ post" "closes (c # stack) u" "e = int (Suc i + length u)" by auto
    from u(2) obtain s1 c1 u1 where 1: "u = s1 @ c1 # u1" "balanced s1" "opening_of c1 = Some c" "closes stack u1"
      by (auto elim: closes_ConsE)
    from 1(4) stack obtain s2 c2 u2 where
      2: "u1 = s2 @ c2 # u2" "balanced s2" "opening_of c2 = Some b" "closes bs u2"
      by (auto elim: closes_ConsE)
    have "balanced (c # s1 @ c1 # s2)" by (rule balanced.group[OF True 1(3,2) 2(2)])
    from closes.bracket[OF this 2(3,4)] have "closes stack (c # u)" by (simp add: stack 1(1) 2(1))
    with u(1,3) show ?thesis by (intro exI[of _ "c # u"] exI[of _ post]) simp
  next
    case False
    show ?thesis
    proof (cases "opening_of c")
      case None
      with False Cons.prems(1) have "find_group s stack start (Suc i) = (start, e)" by simp
      from Cons.IH[OF this Cons.prems(2)] obtain u post where
        u: "s = u @ post" "closes stack u" "e = int (Suc i + length u)" by auto
      from u(2) stack obtain s1 c1 u1 where
        1: "u = s1 @ c1 # u1" "balanced s1" "opening_of c1 = Some b" "closes bs u1"
        by (auto elim: closes_ConsE)
      from closes.bracket[OF balanced.other[OF False None 1(2)] 1(3,4)] have "closes stack (c # u)"
        by (simp add: stack 1(1))
      with u(1,3) show ?thesis by (intro exI[of _ "c # u"] exI[of _ post]) simp
    next
      case (Some b')
      with False Cons.prems(1) assms(2) stack have b': "b' = b" by (simp split: if_splits)
      note br = closes.bracket[OF balanced.Nil Some[unfolded b']]
      show ?thesis
      proof (cases "bs = []")
        case True
        have "closes stack [c]" using br[OF closes.closed] by (simp add: stack True)
        with False Some Cons.prems(1) stack b' True show ?thesis by (intro exI[of _ "[c]"] exI[of _ s]) auto
      next
        case nonempty: False
        with False Some Cons.prems(1) stack b' have "find_group s bs start (Suc i) = (start, e)" by simp
        from Cons.IH[OF this nonempty] obtain u post where
          u: "s = u @ post" "closes bs u" "e = int (Suc i + length u)" by auto
        have "closes stack (c # u)" using br[OF u(2)] by (simp add: stack)
        with u(1,3) show ?thesis by (intro exI[of _ "c # u"] exI[of _ post]) simp
      qed
    qed
  qed
qed (use assms(2) in auto)

lemma run_result:
  "0 \<le> start \<Longrightarrow> stack \<noteq> [] \<Longrightarrow>
    find_group s stack start i = (-1, -1) \<or> (\<exists>e. find_group s stack start i = (start, e))"
  by (induction s arbitrary: stack i) (auto split: option.split list.split)

text \<open>The first group of a text: its first bracket opens it, and it ends where that bracket is closed.\<close>

definition first_group :: "string \<Rightarrow> string \<Rightarrow> char \<Rightarrow> string \<Rightarrow> char \<Rightarrow> string \<Rightarrow> bool" where
  "first_group input_str before b inside c after \<longleftrightarrow>
     input_str = before @ b # inside @ c # after \<and> is_lbracket b \<and> opening_of c = Some b \<and> balanced inside
     \<and> (\<forall>x \<in> set before. \<not> is_lbracket x \<and> opening_of x = None)"

lemma skip_plain:
  "\<forall>x \<in> set before. \<not> is_lbracket x \<and> opening_of x = None \<Longrightarrow>
    find_group (before @ rest) [] (-1) i = find_group rest [] (-1) (i + length before)"
  by (induction before arbitrary: i) simp_all

lemma first_bracket:
  "find_group s [] (-1) i \<noteq> (-1, -1) \<Longrightarrow>
    \<exists>before b rest. s = before @ b # rest \<and> is_lbracket b
      \<and> (\<forall>x \<in> set before. \<not> is_lbracket x \<and> opening_of x = None)"
proof (induction s arbitrary: i)
  case (Cons c s)
  show ?case
  proof (cases "is_lbracket c")
    case True
    then show ?thesis by (intro exI[of _ "[]"]) auto
  next
    case False
    with Cons.prems have "opening_of c = None" "find_group s [] (-1) (Suc i) \<noteq> (-1, -1)"
      by (auto split: option.splits)
    with Cons.IH[of "Suc i"] False obtain before b rest where
      "s = before @ b # rest" "is_lbracket b" "\<forall>x \<in> set before. \<not> is_lbracket x \<and> opening_of x = None" by blast
    with False \<open>opening_of c = None\<close> show ?thesis by (intro exI[of _ "c # before"]) auto
  qed
qed simp

text \<open>C30.  \<open>FindEnclosingBracketGroup\<close> returns the bounds of the first bracket group of its input,
  whose brackets match at every level, and -1 twice exactly when there is no such group.\<close>

theorem FindEnclosingBracketGroup_group:
  "(\<exists>before b inside c after. first_group input_str before b inside c after
      \<and> FindEnclosingBracketGroup input_str = (int (length before), int (length before + length inside + 2)))
   \<or> FindEnclosingBracketGroup input_str = (-1, -1)
      \<and> \<not> (\<exists>before b inside c after. first_group input_str before b inside c after)"
proof -
  have found: "FindEnclosingBracketGroup input_str = (int (length before), int (length before + length inside + 2))"
    if g: "first_group input_str before b inside c after" for before b inside c after
  proof -
    have cl: "closes [b] (inside @ [c])" using g by (auto simp: first_group_def intro: closes.intros)
    have "FindEnclosingBracketGroup input_str = find_group (b # inside @ c # after) [] (-1) (length before)"
      using g skip_plain[of before "b # inside @ c # after" 0]
      by (simp add: first_group_def FindEnclosingBracketGroup_def)
    also have "\<dots> = find_group ((inside @ [c]) @ after) [b] (int (length before)) (Suc (length before))"
      using g by (simp add: first_group_def)
    also have "\<dots> = (int (length before), int (Suc (length before) + length (inside @ [c])))"
      by (rule closes_run[OF cl]) simp_all
    finally show ?thesis by simp
  qed
  show ?thesis
  proof (cases "FindEnclosingBracketGroup input_str = (-1, -1)")
    case True
    with found show ?thesis by fastforce
  next
    case False
    from first_bracket[OF False[unfolded FindEnclosingBracketGroup_def]] obtain before b rest where
      s: "input_str = before @ b # rest" "is_lbracket b"
        "\<forall>x \<in> set before. \<not> is_lbracket x \<and> opening_of x = None" by blast
    have run: "FindEnclosingBracketGroup input_str = find_group rest [b] (int (length before)) (Suc (length before))"
      using s skip_plain[OF s(3), of "b # rest" 0] by (simp add: FindEnclosingBracketGroup_def)
    with False run_result[of "int (length before)" "[b]" rest "Suc (length before)"] obtain e where
      e: "find_group rest [b] (int (length before)) (Suc (length before)) = (int (length before), e)" by auto
    from run_closes[OF e] obtain u post where
      u: "rest = u @ post" "closes [b] u" by auto
    from u(2) obtain inside c where "u = inside @ [c]" "balanced inside" "opening_of c = Some b"
      by (auto elim: closes_ConsE)
    with s u(1) have "first_group input_str before b inside c post" by (simp add: first_group_def)
    with found show ?thesis by blast
  qed
qed

section \<open>Canonical integers: theorems\<close>

lemma digit_chars:
  "digit_char 0 = CHR ''0''" "digit_char 1 = CHR ''1''" "digit_char 2 = CHR ''2''" "digit_char 3 = CHR ''3''"
  "digit_char 4 = CHR ''4''" "digit_char 5 = CHR ''5''" "digit_char 6 = CHR ''6''" "digit_char 7 = CHR ''7''"
  "digit_char 8 = CHR ''8''" "digit_char 9 = CHR ''9''"
  by code_simp+

lemma nonzero_digit: "c \<in> set ''123456789'' \<longleftrightarrow> (\<exists>k. 1 \<le> k \<and> k < 10 \<and> c = digit_char k)"
proof -
  have "set ''123456789'' = digit_char ` {1, 2, 3, 4, 5, 6, 7, 8, 9}"
    by (simp only: image_insert image_empty digit_chars list.set)
  moreover have "k \<in> {1, 2, 3, 4, 5, 6, 7, 8, 9} \<longleftrightarrow> 1 \<le> k \<and> k < 10" for k :: nat
    unfolding insert_iff empty_iff by presburger
  ultimately show ?thesis by (simp only: image_iff Bex_def conj_assoc)
qed

lemma is_digit_iff: "is_digit c \<longleftrightarrow> (\<exists>k < 10. c = digit_char k)"
proof
  assume "is_digit c"
  then have b: "48 \<le> (of_char c :: nat)" "(of_char c :: nat) \<le> 57"
    by (simp_all add: is_digit_def less_eq_char_def)
  then have "c = digit_char (of_char c - 48)" by (simp add: digit_char_def)
  moreover have "(of_char c :: nat) - 48 < 10" using b by simp
  ultimately show "\<exists>k < 10. c = digit_char k" by blast
qed (auto simp: is_digit_digit_char)

lemma str_of_nat_leading: "0 < n \<Longrightarrow> hd (str_of_nat n) \<in> set ''123456789'' \<and> (\<forall>c \<in> set (tl (str_of_nat n)). is_digit c)"
proof (induction n rule: str_of_nat.induct)
  case (1 n)
  show ?case
  proof (cases "n < 10")
    case True
    then have "digit_char n \<in> set ''123456789''" using 1(2) unfolding nonzero_digit by (intro exI[of _ n]) simp
    with True show ?thesis by (simp add: str_of_nat.simps[of n])
  next
    case False
    then have "0 < n div 10" by simp
    from 1(1)[OF False this] have "hd (str_of_nat (n div 10)) \<in> set ''123456789''"
      "\<forall>c \<in> set (tl (str_of_nat (n div 10))). is_digit c" by blast+
    moreover have "str_of_nat (n div 10) \<noteq> []" using str_of_nat_digits by blast
    moreover have "str_of_nat n = str_of_nat (n div 10) @ [digit_char (n mod 10)]"
      using False by (simp add: str_of_nat.simps[of n])
    ultimately show ?thesis by (simp add: is_digit_digit_char)
  qed
qed

lemma leading_str_of_nat:
  "t \<noteq> [] \<Longrightarrow> hd t \<in> set ''123456789'' \<Longrightarrow> \<forall>c \<in> set (tl t). is_digit c \<Longrightarrow> \<exists>n > 0. t = str_of_nat n"
proof (induction t rule: rev_induct)
  case (snoc c t)
  show ?case
  proof (cases "t = []")
    case True
    with snoc.prems(2) obtain k where "1 \<le> k" "k < 10" "c = digit_char k" by (auto simp only: nonzero_digit list.sel append_Nil)
    with True show ?thesis by (intro exI[of _ k]) (simp add: str_of_nat.simps[of k])
  next
    case False
    with snoc.prems have "hd t \<in> set ''123456789''" "\<forall>c \<in> set (tl t). is_digit c" "is_digit c" by simp_all
    with snoc.IH[OF False] obtain n k where nk: "0 < n" "t = str_of_nat n" "k < 10" "c = digit_char k"
      unfolding is_digit_iff[of c] by blast
    then have "t @ [c] = str_of_nat (10 * n + k)" by (simp add: str_of_nat.simps[of "10 * n + k"])
    with nk(1) show ?thesis by (intro exI[of _ "10 * n + k"]) simp
  qed
qed simp

lemma canonical_int_text_iff: "canonical_int_text s \<longleftrightarrow> (\<exists>n. s = str_of_int n)"
proof
  assume "canonical_int_text s"
  then consider "s = ''0''" | "s \<noteq> []" "hd s = CHR ''-''" "tl s \<noteq> []" "hd (tl s) \<in> set ''123456789''"
      "\<forall>c \<in> set (tl (tl s)). is_digit c"
    | "s \<noteq> []" "hd s \<in> set ''123456789''" "\<forall>c \<in> set (tl s). is_digit c"
    unfolding canonical_int_text_def Let_def by (auto split: if_splits)
  then show "\<exists>n. s = str_of_int n"
  proof cases
    case 1
    then show ?thesis by (intro exI[of _ 0]) (simp add: str_of_int_def str_of_nat.simps[of 0] digit_chars)
  next
    case 2
    from leading_str_of_nat[OF 2(3-5)] obtain n where n: "0 < n" "tl s = str_of_nat n" by blast
    with 2(1,2) have "s = str_of_int (- int n)" by (cases s) (simp_all add: str_of_int_def)
    then show ?thesis ..
  next
    case 3
    from leading_str_of_nat[OF 3] obtain n where "0 < n" "s = str_of_nat n" by blast
    then have "s = str_of_int (int n)" by (simp add: str_of_int_def)
    then show ?thesis ..
  qed
next
  assume "\<exists>n. s = str_of_int n"
  then obtain n where n: "s = str_of_int n" ..
  consider "n = 0" | "0 < n" | "n < 0" by linarith
  then show "canonical_int_text s"
  proof cases
    case 1
    then show ?thesis by (simp add: n canonical_int_text_def str_of_int_def str_of_nat.simps[of 0] digit_chars)
  next
    case 2
    have "str_of_nat (nat n) \<noteq> []" using str_of_nat_digits by blast
    moreover have "hd (str_of_nat (nat n)) \<noteq> CHR ''-''" using str_of_nat_leading[of "nat n"] 2 by auto
    ultimately show ?thesis using 2 str_of_nat_leading[of "nat n"] unfolding n canonical_int_text_def Let_def
      by (simp add: str_of_int_def)
  next
    case 3
    have "str_of_nat (nat (- n)) \<noteq> []" using str_of_nat_digits by blast
    then show ?thesis using 3 str_of_nat_leading[of "nat (- n)"] unfolding n canonical_int_text_def Let_def
      by (simp add: str_of_int_def)
  qed
qed

lemma digit_not_space: "is_digit c \<Longrightarrow> \<not> is_space c"
  by (auto simp: is_digit_def is_space_def less_eq_char_def)

lemma strip_newline:
  assumes "\<forall>c \<in> set s. \<not> is_space c" "s \<noteq> []"
  shows "strip (s @ [CHR 0x0A]) = strip s"
proof -
  have "\<not> is_space (hd s)" using assms by simp
  then have "lstrip (s @ [CHR 0x0A]) = s @ [CHR 0x0A]" "lstrip s = s"
    using assms(2) by (cases s; simp add: lstrip_def)+
  moreover have "rstrip (s @ [CHR 0x0A]) = rstrip s" by (simp add: rstrip_def is_space_def)
  ultimately show ?thesis by (simp add: strip_def)
qed

lemma IsStrCanonicalInt_iff:
  "IsStrCanonicalInt v \<longleftrightarrow>
     (\<exists>n. py_int v = Inr n \<and> (v = PStr (str_of_int n) \<or> v = PStr (str_of_int n @ [CHR 0x0A])))"
proof (cases "\<exists>s. v = PStr s")
  case True
  then obtain s where v: "v = PStr s" ..
  have nl: "py_int (PStr (str_of_int n @ [CHR 0x0A])) = Inr n" for n
  proof -
    have "\<forall>c \<in> set (str_of_int n). \<not> is_space c" "str_of_int n \<noteq> []"
      using str_of_nat_digits digit_not_space by (auto simp: str_of_int_def is_space_def)
    then have "strip (str_of_int n @ [CHR 0x0A]) = strip (str_of_int n)" by (rule strip_newline)
    then have "py_int (PStr (str_of_int n @ [CHR 0x0A])) = py_int (PStr (str_of_int n))"
      using py_int_str_of_int[of n] by (simp add: py_int_def split_beta Let_def split: if_splits)
    then show ?thesis by simp
  qed
  have "IsStrCanonicalInt v \<longleftrightarrow> (\<exists>n. s = str_of_int n \<or> s = str_of_int n @ [CHR 0x0A])"
    unfolding v IsStrCanonicalInt_def pyval.case canonical_int_text_iff
    by (metis append_butlast_last_id butlast_snoc last_snoc snoc_eq_iff_butlast)
  also have "\<dots> \<longleftrightarrow> (\<exists>n. py_int v = Inr n \<and> (v = PStr (str_of_int n) \<or> v = PStr (str_of_int n @ [CHR 0x0A])))"
    using nl unfolding v by auto
  finally show ?thesis .
next
  case False
  then show ?thesis by (cases v) (simp_all add: IsStrCanonicalInt_def)
qed

text \<open>\<open>IsStrCanonicalInt\<close> accepts exactly the texts that are the decimal form of the integer they
  convert to, and these texts with one newline behind them, for which the equation its
  documentation promises does not hold.\<close>

theorem IsStrCanonicalInt_exact:
  "IsStrCanonicalInt v \<longleftrightarrow>
     (\<exists>n. py_int v = Inr n \<and> (v = PStr (str_of_int n) \<or> v = PStr (str_of_int n @ [CHR 0x0A])))"
  by (rule IsStrCanonicalInt_iff)

section \<open>Variables dictionaries: theorems\<close>

text \<open>The value a variable has after the entries \<open>d\<close> of a variables dictionary: its own entry, or the
  default of the entry with a percent sign if the variable was not set before, or what it was.\<close>

definition variable_entry :: "('v \<Rightarrow> bool) \<Rightarrow> (string \<times> 'v) list \<Rightarrow> string \<Rightarrow> 'v option" where
  "variable_entry is_value d n = (case dget d n of Some v \<Rightarrow> if is_value v then Some v else None | None \<Rightarrow> None)"

definition default_value :: "(string \<times> 'v) list \<Rightarrow> string option \<Rightarrow> string \<Rightarrow> 'v \<Rightarrow> 'v" where
  "default_value the_dict the_dict_key n w =
     (if the_dict_key = Some ''variables'' \<and> dhas the_dict n then the (dget the_dict n) else w)"

definition variable_after :: "('v \<Rightarrow> bool) \<Rightarrow> (string \<times> 'v) list \<Rightarrow> string option \<Rightarrow> (string \<times> 'v) list
    \<Rightarrow> (string \<times> 'v) list \<Rightarrow> string \<Rightarrow> 'v option" where
  "variable_after is_value the_dict the_dict_key d variables n =
     (case variable_entry is_value d n of
        Some v \<Rightarrow> Some v
      | None \<Rightarrow>
          (case dget variables n of
             Some old \<Rightarrow> Some old
           | None \<Rightarrow> map_option (default_value the_dict the_dict_key n) (variable_entry is_value d (n @ ''%''))))"

lemma load_variable_dget:
  assumes "n = [] \<or> List.last n \<noteq> CHR ''%''"
  shows "dget (load_variable is_value the_dict the_dict_key (k, v) variables) n =
    (if \<not> is_value v then dget variables n
     else if k = n then Some v
     else if k = n @ ''%'' \<and> dget variables n = None then Some (default_value the_dict the_dict_key n v)
     else dget variables n)"
proof (cases "k \<noteq> [] \<and> List.last k = CHR ''%''")
  case True
  then have "k = butlast k @ ''%''" by (metis append_butlast_last_id)
  then have "k = n @ ''%'' \<longleftrightarrow> butlast k = n" by (metis butlast_snoc)
  moreover have "k \<noteq> n" using True assms by auto
  ultimately show ?thesis using True by (auto simp: load_variable_def default_value_def dhas_def Let_def)
next
  case False
  then have "k \<noteq> n @ ''%''" by auto
  with False show ?thesis by (auto simp: load_variable_def)
qed

lemma load_variables_dget:
  assumes "n = [] \<or> List.last n \<noteq> CHR ''%''" "distinct (dkeys d)"
  shows "dget (fold (load_variable is_value the_dict the_dict_key) d variables) n
    = variable_after is_value the_dict the_dict_key d variables n"
  using assms(2)
proof (induction d arbitrary: variables)
  case Nil
  then show ?case by (simp add: variable_after_def variable_entry_def split: option.split)
next
  case (Cons kv d)
  obtain k v where kv: "kv = (k, v)" by (cases kv)
  with Cons.prems have k: "dget d k = None" and d: "distinct (dkeys d)" by (auto simp: map_of_eq_None_iff)
  let ?vars = "load_variable is_value the_dict the_dict_key (k, v) variables"
  have ih: "dget (fold (load_variable is_value the_dict the_dict_key) (kv # d) variables) n
      = variable_after is_value the_dict the_dict_key d ?vars n"
    using Cons.IH[OF d, of ?vars] by (simp add: kv)
  note now = load_variable_dget[OF assms(1), of is_value the_dict the_dict_key k v variables]
  consider "k = n" | "k = n @ ''%''" | "k \<noteq> n" "k \<noteq> n @ ''%''" by blast
  then show ?case
  proof cases
    case 1
    with k have "variable_entry is_value d n = None" "n \<noteq> n @ ''%''" by (simp_all add: variable_entry_def)
    with 1 ih now show ?thesis by (auto simp: kv variable_after_def variable_entry_def split: option.splits)
  next
    case 2
    with k have "variable_entry is_value d (n @ ''%'') = None" "k \<noteq> n" by (simp_all add: variable_entry_def)
    with 2 ih now show ?thesis by (auto simp: kv variable_after_def variable_entry_def split: option.splits)
  next
    case 3
    with ih now show ?thesis by (auto simp: kv variable_after_def variable_entry_def split: option.splits)
  qed
qed

text \<open>\<open>LoadVariablesFromVariablesDict\<close> sets each variable to its own entry; an entry with a percent
  sign only fills in a variable that nothing else sets, whatever the order of the entries.\<close>

theorem LoadVariablesFromVariablesDict_value:
  assumes "LoadVariablesFromVariablesDict is_value items variables the_dict the_dict_key = Inr vars"
    and "dget the_dict ''variables'' = Some v" "items v = Inr d" "wf_dict d"
    and "n = [] \<or> List.last n \<noteq> CHR ''%''"
  shows "dget vars n = variable_after is_value the_dict the_dict_key d variables n"
proof -
  from assms(1-3) have "vars = fold (load_variable is_value the_dict the_dict_key) d variables"
    by (simp add: LoadVariablesFromVariablesDict_def)
  then show ?thesis using load_variables_dget[OF assms(5)] assms(4) by (simp add: wf_dict_def)
qed

theorem LoadVariablesFromVariablesDict_value_witness:
  "\<exists>vars. LoadVariablesFromVariablesDict is_variable_value (as_dict ''iteritems'') []
      [(''variables'', PDict [(''x%'', PInt 1), (''x'', PInt 2)])] None = Inr vars
    \<and> dget vars ''x'' = Some (PInt 2)"
proof -
  let ?d = "[(''variables'', PDict [(''x%'', PInt 1), (''x'', PInt 2)])]"
  have l: "LoadVariablesFromVariablesDict is_variable_value (as_dict ''iteritems'') [] ?d None = Inr [(''x'', PInt 2)]"
    by code_simp
  have "dget ?d ''variables'' = Some (PDict [(''x%'', PInt 1), (''x'', PInt 2)])"
    "as_dict ''iteritems'' (PDict [(''x%'', PInt 1), (''x'', PInt 2)]) = Inr [(''x%'', PInt 1), (''x'', PInt 2)]"
    "wf_dict [(''x%'', PInt 1), (''x'', PInt 2)]" "''x'' = [] \<or> List.last ''x'' \<noteq> CHR ''%''"
    by (simp_all add: wf_dict_def)
  from LoadVariablesFromVariablesDict_value[OF l this] l show ?thesis
    by (simp add: variable_after_def variable_entry_def is_variable_value_def)
qed

end
