(* ===== verification/Gyp_Expand.thy ===== *)
theory Gyp_Expand
  imports Py_Heap Gyp_Variables Gyp_Filters
begin

text \<open>
  Variable expansion and conditions (\<open>tools/gyp/pylib/gyp/input.py\<close>): \<open>ExpandVariables\<close>,
  \<open>ProcessConditionsInDict\<close>, \<open>ProcessVariablesAndConditionsInDict\<close> and
  \<open>ProcessVariablesAndConditionsInList\<close>, with the command cache, the generated file lists and the
  merge of a chosen branch into the dictionary that holds the condition.  The functions change
  lists and dictionaries that variables also refer to, so that the model keeps them in a store.
  What happens outside the program (running a command, \<open>eval\<close>, importing a module) is a parameter.
\<close>

section \<open>The world\<close>

datatype command =
    Popen bool pyval "string option"
  | DoMain pyval "string option"

record world =
  objects :: store
  cached_command_results :: "(string \<times> string) list"
  commands_run :: "command list"
  written_files :: "(string \<times> string) list"
  ensured_dirs :: "string list"

text \<open>The surroundings of a run.  \<open>env_popen\<close> is told the commands that were run before, since the
  same command may print something else the next time.\<close>

record expand_env =
  env_globals :: gyp_globals
  env_realpath :: "string \<Rightarrow> string"
  env_compile :: "string \<Rightarrow> (string \<Rightarrow> bool) option"
  env_platform :: string
  env_eval :: "string \<Rightarrow> pyval res"
  env_eval_condition :: "string \<Rightarrow> pydict \<Rightarrow> bool res"
  env_popen :: "command list \<Rightarrow> bool \<Rightarrow> pyval \<Rightarrow> string option \<Rightarrow> (int \<times> string \<times> string) res"
  env_chdir :: "string option \<Rightarrow> unit res"
  env_import :: "string option \<Rightarrow> string \<Rightarrow> unit res"
  env_do_main :: "command list \<Rightarrow> string option \<Rightarrow> string \<Rightarrow> string list \<Rightarrow> string res"

section \<open>Slices\<close>

text \<open>\<open>s[i:j]\<close>, where negative bounds count from the end and bounds outside the text are cut.\<close>

definition slice_bound :: "int \<Rightarrow> nat \<Rightarrow> nat" where
  "slice_bound i n = (if i < 0 then nat (i + int n) else min (nat i) n)"

definition slice :: "'a list \<Rightarrow> int \<Rightarrow> int \<Rightarrow> 'a list" where
  "slice s i j =
     take (slice_bound j (length s) - slice_bound i (length s)) (drop (slice_bound i (length s)) s)"

section \<open>shlex.split\<close>

text \<open>The POSIX mode of the standard library's \<open>shlex\<close>, split at white space, no comments.\<close>

datatype shlex_state = Blank | Word | Quoted char | Escaped shlex_state

definition shlex_whitespace :: "char set" where
  "shlex_whitespace = {CHR '' '', CHR 0x09, CHR 0x0D, CHR 0x0A}"

definition shlex_quotes :: "char set" where
  "shlex_quotes = {CHR 0x27, CHR 0x22}"

definition shlex_emit :: "bool \<Rightarrow> string \<Rightarrow> string list \<Rightarrow> string list" where
  "shlex_emit quoted token ws = (if token \<noteq> [] \<or> quoted then token # ws else ws)"

fun shlex_words :: "shlex_state \<Rightarrow> bool \<Rightarrow> string \<Rightarrow> string \<Rightarrow> string list res" where
  "shlex_words (Quoted q) quoted token [] = Inl (ValueError ''No closing quotation'')"
| "shlex_words (Escaped st) quoted token [] = Inl (ValueError ''No escaped character'')"
| "shlex_words st quoted token [] = Inr (shlex_emit quoted token [])"
| "shlex_words Blank quoted token (c # s) =
     (if c \<in> shlex_whitespace then
        (if token \<noteq> [] \<or> quoted then rbind (shlex_words Blank False [] s) (\<lambda>ws. Inr (token # ws))
         else shlex_words Blank quoted token s)
      else if c = CHR 0x5C then shlex_words (Escaped Word) quoted token s
      else if c \<in> shlex_quotes then shlex_words (Quoted c) quoted token s
      else shlex_words Word quoted [c] s)"
| "shlex_words Word quoted token (c # s) =
     (if c \<in> shlex_whitespace then
        (if token \<noteq> [] \<or> quoted then rbind (shlex_words Blank False [] s) (\<lambda>ws. Inr (token # ws))
         else shlex_words Blank quoted token s)
      else if c \<in> shlex_quotes then shlex_words (Quoted c) quoted token s
      else if c = CHR 0x5C then shlex_words (Escaped Word) quoted token s
      else shlex_words Word quoted (token @ [c]) s)"
| "shlex_words (Quoted q) quoted token (c # s) =
     (if c = q then shlex_words Word True token s
      else if c = CHR 0x5C \<and> q = CHR 0x22 then shlex_words (Escaped (Quoted q)) True token s
      else shlex_words (Quoted q) True (token @ [c]) s)"
| "shlex_words (Escaped st) quoted token (c # s) =
     shlex_words st quoted
       (token @ (case st of
                   Quoted q \<Rightarrow> if c \<noteq> CHR 0x5C \<and> c \<noteq> q then [CHR 0x5C] else []
                 | _ \<Rightarrow> []) @ [c]) s"

definition shlex_split :: "string \<Rightarrow> string list res" where
  "shlex_split s = shlex_words Blank False [] s"

section \<open>Phases and references\<close>

datatype phase = PHASE_EARLY | PHASE_LATE | PHASE_LATELATE

fun expansion_symbol :: "phase \<Rightarrow> char" where
  "expansion_symbol PHASE_EARLY = CHR ''<''"
| "expansion_symbol PHASE_LATE = CHR ''>''"
| "expansion_symbol PHASE_LATELATE = CHR ''^''"

fun conditions_key :: "phase \<Rightarrow> string option" where
  "conditions_key PHASE_EARLY = Some ''conditions''"
| "conditions_key PHASE_LATE = Some ''target_conditions''"
| "conditions_key PHASE_LATELATE = None"

text \<open>A match of the phase's regular expression: where it starts, the characters of its type behind
  the symbol, the command string and the text of the group \<open>is_array\<close>.  \<open>match_here\<close> matches at the
  start of its input and also returns how many characters the match has behind the symbol.  The
  expression is deterministic but for its content, which ends before the first closing parenthesis
  and may not hold a newline.\<close>

record var_match =
  m_start :: nat
  m_type :: string
  m_command :: "string option"
  m_is_array :: string

definition command_char :: "char \<Rightarrow> bool" where
  "command_char c \<longleftrightarrow> is_alpha c \<or> is_digit c \<or> c \<in> set ''-_.''"

definition match_type :: "string \<Rightarrow> string" where
  "match_type s =
     (if prefix ''|'' s then ''|'' else if prefix ''!@'' s then ''!@''
      else if prefix ''!'' s then ''!'' else if prefix ''@'' s then ''@'' else [])"

definition content_char :: "char \<Rightarrow> bool" where
  "content_char c \<longleftrightarrow> c \<noteq> CHR '')'' \<and> c \<noteq> CHR 0x0A"

definition match_rest :: "string \<Rightarrow> (string \<times> string \<times> string \<times> nat) option" where
  "match_rest s =
     (let ty = match_type s;
          s1 = drop (length ty) s;
          command = takeWhile command_char s1;
          s2 = dropWhile command_char s1
      in if prefix ''('' s2 then
           (let blanks = takeWhile is_space (tl s2);
                s3 = dropWhile is_space (tl s2);
                is_array = blanks @ (if prefix ''['' s3 then ''['' else []);
                s4 = drop (length is_array) (tl s2);
                content = takeWhile content_char s4
            in if prefix '')'' (dropWhile content_char s4)
               then Some (ty, command, is_array,
                  length ty + length command + 1 + length is_array + length content + 1)
               else None)
         else None)"

fun find_matches :: "char \<Rightarrow> nat \<Rightarrow> string \<Rightarrow> var_match list" where
  "find_matches symbol i [] = []"
| "find_matches symbol i (c # s) =
     (case (if c = symbol then match_rest s else None) of
        None \<Rightarrow> find_matches symbol (Suc i) s
      | Some (ty, command, is_array, n) \<Rightarrow>
          \<lparr>m_start = i, m_type = ty, m_command = (if command = [] then None else Some command),
           m_is_array = is_array\<rparr> # find_matches symbol (Suc i + n) (drop n s))"

definition variable_re_finditer :: "phase \<Rightarrow> string \<Rightarrow> var_match list" where
  "variable_re_finditer phase s = find_matches (expansion_symbol phase) 0 s"

section \<open>Results and calls\<close>

text \<open>What \<open>ExpandVariables\<close> returns: a string, an integer or a new list.\<close>

datatype expanded = EStr string | EInt int | EList "hval list"

fun e_class_name :: "expanded \<Rightarrow> string" where
  "e_class_name (EStr s) = ''str''"
| "e_class_name (EInt i) = ''int''"
| "e_class_name (EList l) = ''list''"

text \<open>The functions that call each other, with the arguments that change from call to call; the
  loops over lists, which may grow or shrink meanwhile, are calls with an index.\<close>

datatype call =
    Expand hval
  | InDict hval "string option"
  | Conditions nat
  | ConditionsFrom nat nat nat
  | InList nat nat

datatype answer = Expanded expanded | Processed

type_synonym 'a wact = "(world, 'a) act"
type_synonym caller = "call \<Rightarrow> hdict \<Rightarrow> answer wact"

definition expand_call :: "caller \<Rightarrow> hval \<Rightarrow> hdict \<Rightarrow> expanded wact" where
  "expand_call self v variables =
     abind (self (Expand v) variables)
       (\<lambda>a. case a of Expanded e \<Rightarrow> ret e | Processed \<Rightarrow> of_option None)"

definition process_call :: "caller \<Rightarrow> call \<Rightarrow> hdict \<Rightarrow> unit wact" where
  "process_call self c variables = abind (self c variables) (\<lambda>a. ret ())"

section \<open>The store\<close>

definition get_list :: "nat \<Rightarrow> hval list wact" where
  "get_list a = abind state (\<lambda>w. ret (list_obj (objects w) a))"

definition get_dict :: "nat \<Rightarrow> hdict wact" where
  "get_dict a = abind state (\<lambda>w. ret (dict_obj (objects w) a))"

definition set_list :: "nat \<Rightarrow> hval list \<Rightarrow> unit wact" where
  "set_list a l = change (\<lambda>w. w\<lparr>objects := (objects w)[a := LObj l]\<rparr>)"

definition set_dict :: "nat \<Rightarrow> hdict \<Rightarrow> unit wact" where
  "set_dict a d = change (\<lambda>w. w\<lparr>objects := (objects w)[a := DObj d]\<rparr>)"

definition new_list :: "hval list \<Rightarrow> hval wact" where
  "new_list l = abind state (\<lambda>w.
     abind (change (\<lambda>w. w\<lparr>objects := objects w @ [LObj l]\<rparr>)) (\<lambda>_. ret (HList (length (objects w)))))"

definition read_tree :: "hval \<Rightarrow> pyval wact" where
  "read_tree v = abind state (\<lambda>w. of_option (value_of (objects w) v))"

definition read_trees :: "hval list \<Rightarrow> pyval list wact" where
  "read_trees vs = abind state (\<lambda>w. of_option (osequence (map (value_of (objects w)) vs)))"

definition read_dict :: "hdict \<Rightarrow> pydict wact" where
  "read_dict d = abind state (\<lambda>w. of_option (dict_of (objects w) d))"

definition write_dict :: "pydict \<Rightarrow> hdict wact" where
  "write_dict d = abind state (\<lambda>w. let (d', h) = new_dict d (objects w) in
     abind (change (\<lambda>w. w\<lparr>objects := h\<rparr>)) (\<lambda>_. ret d'))"

text \<open>A \<open>for\<close> loop over the items of a dictionary: Python refuses to go on when the keys changed.\<close>

definition check_keys :: "nat \<Rightarrow> string list \<Rightarrow> unit wact" where
  "check_keys a ks = abind (get_dict a) (\<lambda>d.
     if dkeys d = ks then ret () else throw (RuntimeError ''dictionary changed size during iteration''))"

definition for_items :: "nat \<Rightarrow> (string \<Rightarrow> hval \<Rightarrow> unit wact) \<Rightarrow> unit wact" where
  "for_items a body = abind (get_dict a) (\<lambda>d0. let ks = dkeys d0 in
     abind (afold (\<lambda>k _. abind (check_keys a ks) (\<lambda>_. abind (get_dict a) (\<lambda>d. body k (the (dget d k))))) ks ())
       (\<lambda>_. check_keys a ks))"
section \<open>Heap versions of the dictionary helpers\<close>

definition h_variable_value :: "hval \<Rightarrow> bool" where
  "h_variable_value v = (case v of HStr s \<Rightarrow> True | HInt i \<Rightarrow> True | HList a \<Rightarrow> True | _ \<Rightarrow> False)"

definition no_attribute :: "string \<Rightarrow> string \<Rightarrow> py_error" where
  "no_attribute cls m =
     AttributeError ([CHR 0x27] @ cls @ [CHR 0x27] @ '' object has no attribute '' @ [CHR 0x27] @ m @ [CHR 0x27])"

definition h_items :: "store \<Rightarrow> hval \<Rightarrow> hdict res" where
  "h_items h v =
     (case v of HDict a \<Rightarrow> Inr (dict_obj h a) | _ \<Rightarrow> Inl (no_attribute (h_class_name v) ''iteritems''))"

section \<open>Commands and file lists\<close>

definition FixupPlatformCommand :: "string \<Rightarrow> pyval \<Rightarrow> pyval res" where
  "FixupPlatformCommand platform cmd =
     (let fix = (\<lambda>s. if prefix ''cat '' s then ''type '' @ drop 4 s else s) in
      if platform = ''win32'' then
        case cmd of
          PList [] \<Rightarrow> Inl IndexError
        | PList (PStr s # cs) \<Rightarrow> Inr (PList (PStr (fix s) # cs))
        | PStr s \<Rightarrow> Inr (PStr (fix s))
        | _ \<Rightarrow> Inl (TypeError ''expected string or buffer'')
      else Inr cmd)"

definition log_command :: "command \<Rightarrow> unit wact" where
  "log_command c = change (\<lambda>w. w\<lparr>commands_run := commands_run w @ [c]\<rparr>)"

definition import_module :: "expand_env \<Rightarrow> string option \<Rightarrow> string \<Rightarrow> unit res" where
  "import_module env build_file_dir name =
     (case env_import env build_file_dir name of
        Inl (ImportError e) \<Rightarrow> Inl (GypError (''Error importing pymod_do_mainmodule ('' @ name @ ''): '' @ e))
      | r \<Rightarrow> r)"

definition pymod_do_main :: "expand_env \<Rightarrow> string option \<Rightarrow> pyval \<Rightarrow> string wact" where
  "pymod_do_main env build_file_dir contents =
     abind (of_res (if build_file_dir = None then Inr () else env_chdir env build_file_dir)) (\<lambda>_.
     abind (of_res (case contents of PStr s \<Rightarrow> shlex_split s | _ \<Rightarrow> Inl (no_attribute (class_name contents) ''read'')))
       (\<lambda>parsed_contents.
          case parsed_contents of
            [] \<Rightarrow> throw IndexError
          | name # params \<Rightarrow>
              abind (of_res (import_module env build_file_dir name)) (\<lambda>_.
              abind state (\<lambda>w.
              abind (of_res (env_do_main env (commands_run w) build_file_dir name params)) (\<lambda>out.
              abind (log_command (DoMain contents build_file_dir)) (\<lambda>_.
                ret (rstrip out)))))))"

definition call_command :: "expand_env \<Rightarrow> bool \<Rightarrow> string option \<Rightarrow> pyval \<Rightarrow> string wact" where
  "call_command env use_shell build_file_dir contents0 =
     abind (of_res (FixupPlatformCommand (env_platform env) contents0)) (\<lambda>contents.
     abind state (\<lambda>w.
     abind (of_res (env_popen env (commands_run w) use_shell contents build_file_dir)) (\<lambda>(returncode, p_stdout, p_stderr).
     abind (log_command (Popen use_shell contents0 build_file_dir)) (\<lambda>_.
       if returncode \<noteq> 0 \<or> p_stderr \<noteq> []
       then throw (GypError (''Call to '' @ [CHR 0x27] @ py_str contents @ [CHR 0x27]
              @ '' returned exit status '' @ str_of_int returncode @ ''.''))
       else ret (rstrip p_stdout)))))"

definition run_uncached :: "expand_env \<Rightarrow> string option \<Rightarrow> var_match \<Rightarrow> pyval \<Rightarrow> string wact" where
  "run_uncached env build_file_dir m contents =
     (case m_command m of
        None \<Rightarrow> call_command env (m_is_array m = []) build_file_dir contents
      | Some command_string \<Rightarrow>
          if command_string = ''pymod_do_main'' then pymod_do_main env build_file_dir contents
          else throw (GypError (''Unknown command string '' @ [CHR 0x27] @ command_string @ [CHR 0x27]
                 @ '' in '' @ [CHR 0x27] @ py_str contents @ [CHR 0x27] @ ''.'')))"

text \<open>A command whose text was met before is not run again.\<close>

definition run_command :: "expand_env \<Rightarrow> string \<Rightarrow> var_match \<Rightarrow> string \<Rightarrow> string wact" where
  "run_command env build_file m contents0 =
     (let build_file_dir = (if dirname build_file = [] then None else Some (dirname build_file)) in
      abind (of_res (if m_is_array m = [] then Inr (PStr contents0) else env_eval env contents0)) (\<lambda>contents.
      let cache_key = py_str contents in
      abind state (\<lambda>w.
        case dget (cached_command_results w) cache_key of
          Some cached_value \<Rightarrow> ret cached_value
        | None \<Rightarrow>
            abind (run_uncached env build_file_dir m contents) (\<lambda>replacement.
            abind (change (\<lambda>w. w\<lparr>cached_command_results :=
                dset cache_key replacement (cached_command_results w)\<rparr>)) (\<lambda>_. ret replacement)))))"

definition WriteOnDiff :: "string \<Rightarrow> string \<Rightarrow> (string \<times> string) list \<Rightarrow> (string \<times> string) list" where
  "WriteOnDiff filename contents fs = (if dget fs filename = Some contents then fs else dset filename contents fs)"

definition EnsureDirExists :: "string \<Rightarrow> unit wact" where
  "EnsureDirExists path = change (\<lambda>w. w\<lparr>ensured_dirs := ensured_dirs w @ [dirname path]\<rparr>)"

definition path_value :: "pydict \<Rightarrow> string \<Rightarrow> string res" where
  "path_value d k = rbind (dlookup d k) (\<lambda>v. case v of PStr s \<Rightarrow> Inr s
     | _ \<Rightarrow> Inl (no_attribute (class_name v) ''startswith''))"

definition file_list_path :: "expand_env \<Rightarrow> string \<Rightarrow> string \<Rightarrow> string wact" where
  "file_list_path env build_file_dir replacement =
     (let paths = (case generator_filelist_paths (env_globals env) of None \<Rightarrow> [] | Some d \<Rightarrow> d) in
      if paths = [] then ret (path_join build_file_dir [replacement])
      else
        abind (of_res (if isabs build_file_dir
            then rbind (path_value paths ''toplevel'') (\<lambda>toplevel.
                   Inr (RelativePath (env_realpath env) build_file_dir toplevel))
            else Inr build_file_dir)) (\<lambda>rel_build_file_dir.
        abind (of_res (path_value paths ''qualified_out_dir'')) (\<lambda>qualified_out_dir.
        let path = path_join qualified_out_dir [rel_build_file_dir, replacement] in
        abind (EnsureDirExists path) (\<lambda>_. ret path))))"

definition write_file_list :: "expand_env \<Rightarrow> string \<Rightarrow> string \<Rightarrow> string wact" where
  "write_file_list env build_file contents =
     (let build_file_dir = dirname build_file;
          contents_list = split_on CHR '' '' contents;
          name = hd contents_list in
      if isabs name then throw (GypError (''| cannot handle absolute paths, got '' @ [CHR 0x22] @ name @ [CHR 0x22]))
      else
        abind (file_list_path env build_file_dir name) (\<lambda>path.
        abind (change (\<lambda>w. w\<lparr>written_files :=
            WriteOnDiff path (concat (map (\<lambda>i. i @ [CHR 0x0A]) (tl contents_list))) (written_files w)\<rparr>)) (\<lambda>_.
          ret (RelativePath (env_realpath env) path build_file_dir))))"
section \<open>Merging into an object\<close>

text \<open>\<open>MergeLists\<close> and \<open>MergeDicts\<close> (see \<open>Gyp_Merge\<close>) into objects of the store: what was in \<open>to\<close>
  keeps its identity, what comes from \<open>fro\<close> is copied.\<close>

fun h_MergeLists_loop :: "(string \<Rightarrow> string) \<Rightarrow> gyp_globals \<Rightarrow> string \<Rightarrow> string \<Rightarrow> bool \<Rightarrow> bool
    \<Rightarrow> pyval list \<Rightarrow> hval list \<times> hval list \<times> nat \<Rightarrow> store \<Rightarrow> (hval list \<times> store) res" where
  "h_MergeLists_loop rp g to_file fro_file is_paths app [] st h = Inr (fst st, h)"
| "h_MergeLists_loop rp g to_file fro_file is_paths app (item # fro) st h =
     rbind (copy_item rp g to_file fro_file is_paths item) (\<lambda>to_item.
       let (x, h1) = new_value to_item h in
       h_MergeLists_loop rp g to_file fro_file is_paths app fro
         (place_item app (is_singleton item) (h_is_scalar x) x st) h1)"

definition h_MergeLists :: "(string \<Rightarrow> string) \<Rightarrow> gyp_globals \<Rightarrow> nat \<Rightarrow> pyval list
    \<Rightarrow> string \<Rightarrow> string \<Rightarrow> bool \<Rightarrow> bool \<Rightarrow> store \<Rightarrow> store res" where
  "h_MergeLists rp g to fro to_file fro_file is_paths app h =
     rbind (h_MergeLists_loop rp g to_file fro_file is_paths app fro
              (list_obj h to, filter h_is_scalar (list_obj h to), 0) h)
       (\<lambda>(l, h1). Inr (h1[to := LObj l]))"

definition h_bad_merge :: "pyval \<Rightarrow> hval \<Rightarrow> bool" where
  "h_bad_merge v old = (if is_scalar v then \<not> h_is_scalar old else class_name v \<noteq> h_class_name old)"

definition h_incompatible_type :: "pyval \<Rightarrow> hval \<Rightarrow> string \<Rightarrow> py_error" where
  "h_incompatible_type v old key =
     TypeError (''Attempt to merge dict value of type '' @ class_name v
       @ '' into incompatible type '' @ h_class_name old @ '' for key '' @ key)"

definition h_set_item :: "nat \<Rightarrow> string \<Rightarrow> hval \<Rightarrow> store \<Rightarrow> store" where
  "h_set_item a k v h = h[a := DObj (dset k v (dict_obj h a))]"

text \<open>\<open>d[k] = []\<close> and \<open>d[k] = {}\<close> with a new object.\<close>

definition h_set_new :: "nat \<Rightarrow> string \<Rightarrow> hobj \<Rightarrow> store \<Rightarrow> nat \<times> store" where
  "h_set_new a k ob h =
     (length h, h_set_item a k (case ob of LObj _ \<Rightarrow> HList (length h) | DObj _ \<Rightarrow> HDict (length h)) (h @ [ob]))"

fun h_MergeDicts_loop :: "(string \<Rightarrow> string) \<Rightarrow> gyp_globals \<Rightarrow> string \<Rightarrow> string
    \<Rightarrow> pydict \<Rightarrow> pydict \<Rightarrow> nat \<Rightarrow> store \<Rightarrow> store res" where
  "h_MergeDicts_loop rp g to_file fro_file fro [] to h = Inr h"
| "h_MergeDicts_loop rp g to_file fro_file fro ((k, v) # rest) to h =
     rbind
       (case dget (dict_obj h to) k of
          Some old \<Rightarrow> if h_bad_merge v old then Inl (h_incompatible_type v old k) else Inr ()
        | None \<Rightarrow> Inr ())
       (\<lambda>_. rbind
          (case v of
             PDict d \<Rightarrow>
               (case dget (dict_obj h to) k of
                  Some (HDict t) \<Rightarrow> h_MergeDicts_loop rp g to_file fro_file d d t h
                | _ \<Rightarrow>
                    (let (t, h1) = h_set_new to k (DObj []) h
                     in h_MergeDicts_loop rp g to_file fro_file d d t h1))
           | PList l \<Rightarrow>
               if k = [] then Inl IndexError
               else
                 let p = merge_policy_of k;
                     b = list_base p;
                     h1 = (if replaces p then snd (h_set_new to b (LObj []) h) else h)
                 in case find (dhas fro) (lists_incompatible p) of
                      Some i \<Rightarrow> Inl (GypError (''Incompatible list policies '' @ k @ '' and '' @ i))
                    | None \<Rightarrow>
                        if dhas (dict_obj h1 to) b \<and> only_if_absent p then Inr h1
                        else
                          (case dget (dict_obj h1 to) b of
                             Some (HList t) \<Rightarrow>
                               h_MergeLists rp g t l to_file fro_file (IsPathSection g b) (appends p) h1
                           | Some old \<Rightarrow> Inl (h_incompatible_type v old (b @ ''('' @ k @ '')''))
                           | None \<Rightarrow>
                               (let (t, h2) = h_set_new to b (LObj []) h1
                                in h_MergeLists rp g t l to_file fro_file (IsPathSection g b) (appends p) h2))
           | PNone \<Rightarrow>
               Inl (TypeError (''Attempt to merge dict value of unsupported type ''
                 @ class_name v @ '' for key '' @ k))
           | _ \<Rightarrow>
               rbind (if IsPathSection g k then MakePathRelative rp to_file fro_file v else Inr v)
                 (\<lambda>w. let (x, h1) = new_value w h in Inr (h_set_item to k x h1)))
          (h_MergeDicts_loop rp g to_file fro_file fro rest to))"

definition h_MergeDicts :: "(string \<Rightarrow> string) \<Rightarrow> gyp_globals \<Rightarrow> nat \<Rightarrow> pydict
    \<Rightarrow> string \<Rightarrow> string \<Rightarrow> store \<Rightarrow> store res" where
  "h_MergeDicts rp g to fro to_file fro_file h = h_MergeDicts_loop rp g to_file fro_file fro fro to h"

section \<open>ExpandVariables\<close>

definition str_of_value :: "hval \<Rightarrow> string wact" where
  "str_of_value v = (case v of HStr s \<Rightarrow> ret s | _ \<Rightarrow> abind (read_tree v) (\<lambda>t. ret (py_str t)))"

text \<open>The variables that the contents of a file list see: a deep copy, with its list filters applied.\<close>

definition filtered_variables :: "expand_env \<Rightarrow> string \<Rightarrow> hdict \<Rightarrow> hdict wact" where
  "filtered_variables env name variables =
     abind (read_dict variables) (\<lambda>copy.
     abind (of_res (ProcessListFiltersInDict (env_compile env) name copy)) write_dict)"

definition last_char_in :: "string \<Rightarrow> char set \<Rightarrow> bool res" where
  "last_char_in s cs = (if s = [] then Inl IndexError else Inr (List.last s \<in> cs))"

definition must_expand :: "string \<Rightarrow> string \<Rightarrow> py_error" where
  "must_expand contents found =
     GypError (''Variable '' @ contents @ '' must expand to a string or list of strings; '' @ found)"

definition lookup_variable :: "string \<Rightarrow> string \<Rightarrow> hdict \<Rightarrow> hval wact" where
  "lookup_variable contents build_file variables =
     (case dget variables contents of
        Some v \<Rightarrow> ret v
      | None \<Rightarrow>
          abind (of_res (last_char_in contents {CHR ''!'', CHR ''/''})) (\<lambda>b.
            if b then new_list []
            else throw (GypError (''Undefined variable '' @ contents @ '' in '' @ build_file))))"

text \<open>Checks the replacement and expands the items of a list in place.\<close>

definition prepare_replacement :: "caller \<Rightarrow> string \<Rightarrow> hval \<Rightarrow> hdict \<Rightarrow> unit wact" where
  "prepare_replacement self contents replacement variables =
     (case replacement of
        HList a \<Rightarrow>
          abind (get_list a) (\<lambda>items.
          abind (of_res (rfold (\<lambda>item _.
              rbind (last_char_in contents {CHR ''/''}) (\<lambda>b.
                if \<not> b \<and> \<not> h_is_scalar item
                then Inl (must_expand contents (''list contains a '' @ h_class_name item))
                else Inr ())) items ())) (\<lambda>_.
            process_call self (InList a 0) variables))
      | HStr s \<Rightarrow> ret ()
      | HInt i \<Rightarrow> ret ()
      | _ \<Rightarrow> throw (must_expand contents (''found a '' @ h_class_name replacement)))"

definition encode_replacement :: "hval \<Rightarrow> string wact" where
  "encode_replacement replacement =
     (case replacement of
        HList a \<Rightarrow>
          abind (get_list a) (\<lambda>items. abind (read_trees items) (\<lambda>ts. ret (EncodePOSIXShellList ts)))
      | _ \<Rightarrow> str_of_value replacement)"

definition list_replacement :: "hval \<Rightarrow> hval list wact" where
  "list_replacement replacement =
     (case replacement of
        HList a \<Rightarrow> get_list a
      | _ \<Rightarrow> abind (str_of_value replacement) (\<lambda>s.
               abind (of_res (shlex_split s)) (\<lambda>ws. ret (map HStr ws))))"

definition find_replacement :: "expand_env \<Rightarrow> string \<Rightarrow> hdict \<Rightarrow> var_match \<Rightarrow> string \<Rightarrow> hval wact" where
  "find_replacement env build_file variables m contents =
     (if CHR ''|'' \<in> set (m_type m)
      then abind (write_file_list env build_file contents) (\<lambda>r. ret (HStr r))
      else if CHR ''!'' \<in> set (m_type m)
      then abind (run_command env build_file m contents) (\<lambda>r. ret (HStr r))
      else lookup_variable contents build_file variables)"

text \<open>In list context the replacement is the whole output, in string context it is put between the
  text before the reference and the text behind it.\<close>

definition put_replacement :: "bool \<Rightarrow> string \<Rightarrow> string \<Rightarrow> hval \<Rightarrow> expanded wact" where
  "put_replacement expand_to_list preceding following replacement =
     (if expand_to_list then abind (list_replacement replacement) (\<lambda>l. ret (EList l))
      else abind (encode_replacement replacement) (\<lambda>encoded. ret (EStr (preceding @ encoded @ following))))"

text \<open>One iteration of the loop over the matches: \<open>input_str\<close> with this match replaced.\<close>

definition expand_match :: "expand_env \<Rightarrow> string \<Rightarrow> caller \<Rightarrow> hdict \<Rightarrow> var_match \<Rightarrow> string \<Rightarrow> expanded wact" where
  "expand_match env build_file self variables m input_str =
     (let replace_start = int (m_start m);
          (c_start, c_end) = FindEnclosingBracketGroup (drop (m_start m) input_str);
          replace_end = replace_start + c_end;
          replacement0 = slice input_str replace_start replace_end;
          contents0 = slice input_str (replace_start + c_start + 1) (replace_end - 1);
          expand_to_list = (CHR ''@'' \<in> set (m_type m) \<and> input_str = replacement0) in
      abind (if CHR ''|'' \<in> set (m_type m) then filtered_variables env contents0 variables else ret variables)
        (\<lambda>processed_variables.
      abind (expand_call self (HStr contents0) processed_variables) (\<lambda>contents1.
        case contents1 of
          EStr s \<Rightarrow>
            abind (find_replacement env build_file variables m (strip s)) (\<lambda>replacement.
            abind (prepare_replacement self (strip s) replacement variables) (\<lambda>_.
              put_replacement expand_to_list (take (m_start m) input_str)
                (slice input_str replace_end (int (length input_str))) replacement))
        | EInt i \<Rightarrow> throw (no_attribute (e_class_name contents1) ''strip'')
        | EList l \<Rightarrow> throw (no_attribute (e_class_name contents1) ''strip''))))"

text \<open>A match that becomes a list is the whole of \<open>input_str\<close>, so that it is the last one to be
  replaced.\<close>

definition replace_match :: "expand_env \<Rightarrow> string \<Rightarrow> caller \<Rightarrow> hdict \<Rightarrow> var_match \<Rightarrow> expanded \<Rightarrow> expanded wact" where
  "replace_match env build_file self variables m output =
     (case output of EStr s \<Rightarrow> expand_match env build_file self variables m s | e \<Rightarrow> ret e)"

definition value_of_expanded :: "expanded \<Rightarrow> hval wact" where
  "value_of_expanded e =
     (case e of EStr s \<Rightarrow> ret (HStr s) | EInt i \<Rightarrow> ret (HInt i) | EList l \<Rightarrow> new_list l)"

definition h_is_list :: "hval \<Rightarrow> bool" where
  "h_is_list v = (case v of HList a \<Rightarrow> True | _ \<Rightarrow> False)"

text \<open>The results are expanded again, unless they are a list of lists.\<close>

definition expand_again :: "caller \<Rightarrow> hdict \<Rightarrow> expanded \<Rightarrow> expanded wact" where
  "expand_again self variables output =
     (case output of
        EList l \<Rightarrow>
          if l \<noteq> [] \<and> h_is_list (hd l) then ret (EList l)
          else
            abind (afold (\<lambda>item new_output.
                abind (expand_call self item variables) (\<lambda>e.
                abind (value_of_expanded e) (\<lambda>v. ret (new_output @ [v])))) l [])
              (\<lambda>new_output. ret (EList new_output))
      | EStr s \<Rightarrow> expand_call self (HStr s) variables
      | EInt i \<Rightarrow> ret (EInt i))"

definition canonical_value :: "hval \<Rightarrow> hval res" where
  "canonical_value v =
     (case v of
        HStr s \<Rightarrow> if IsStrCanonicalInt (PStr s) then rbind (py_int (PStr s)) (\<lambda>i. Inr (HInt i)) else Inr v
      | _ \<Rightarrow> Inr v)"

definition canonical_integers :: "expanded \<Rightarrow> expanded wact" where
  "canonical_integers output =
     (case output of
        EList l \<Rightarrow> abind (of_res (rmap canonical_value l)) (\<lambda>l'. ret (EList l'))
      | EStr s \<Rightarrow>
          if IsStrCanonicalInt (PStr s) then abind (of_res (py_int (PStr s))) (\<lambda>i. ret (EInt i)) else ret output
      | EInt i \<Rightarrow> ret output)"

definition ExpandVariables_body :: "expand_env \<Rightarrow> phase \<Rightarrow> string \<Rightarrow> caller \<Rightarrow> hval \<Rightarrow> hdict \<Rightarrow> expanded wact" where
  "ExpandVariables_body env phase build_file self inp variables =
     abind (str_of_value inp) (\<lambda>input_str.
       if IsStrCanonicalInt (PStr input_str)
       then abind (of_res (py_int (PStr input_str))) (\<lambda>i. ret (EInt i))
       else if expansion_symbol phase \<notin> set input_str then ret (EStr input_str)
       else
         let matches = variable_re_finditer phase input_str in
         if matches = [] then ret (EStr input_str)
         else
           abind (afold (replace_match env build_file self variables) (rev matches) (EStr input_str)) (\<lambda>output.
           abind (expand_again self variables output) canonical_integers))"
section \<open>Conditions\<close>

definition must_be_list :: "string \<Rightarrow> py_error" where
  "must_be_list key = GypError (key @ '' must be a list'')"

text \<open>The value of a condition.  A \<open>NameError\<close> becomes a \<open>GypError\<close>, a \<open>SyntaxError\<close> is raised again
  with the place of the condition.\<close>

definition eval_condition :: "expand_env \<Rightarrow> string \<Rightarrow> string \<Rightarrow> hdict \<Rightarrow> bool wact" where
  "eval_condition env build_file cond_expr variables =
     abind (read_dict variables) (\<lambda>vars.
     of_res
       (case env_eval_condition env cond_expr vars of
          Inl (NameError e) \<Rightarrow>
            Inl (GypError (e @ '' while evaluating condition '' @ [CHR 0x27] @ cond_expr @ [CHR 0x27]
              @ '' in '' @ build_file))
        | Inl (SyntaxError e txt off) \<Rightarrow>
            Inl (SyntaxError (e @ '' while evaluating condition '' @ [CHR 0x27] @ txt @ [CHR 0x27]
              @ '' in '' @ build_file @ '' at character '' @ str_of_int off @ ''.'') txt off)
        | r \<Rightarrow> r))"

text \<open>The branch that the condition chose, if there is one, is processed and merged.\<close>

definition merge_branch :: "expand_env \<Rightarrow> string \<Rightarrow> caller \<Rightarrow> nat \<Rightarrow> hval \<Rightarrow> hdict \<Rightarrow> unit wact" where
  "merge_branch env build_file self the_dict merge_dict variables =
     (if merge_dict = HNone then ret ()
      else
        abind (process_call self (InDict merge_dict None) variables) (\<lambda>_.
        abind (read_tree merge_dict) (\<lambda>fro.
          case fro of
            PDict d \<Rightarrow>
              abind state (\<lambda>w.
              abind (of_res (h_MergeDicts (env_realpath env) (env_globals env) the_dict d
                               build_file build_file (objects w))) (\<lambda>h.
                change (\<lambda>w. w\<lparr>objects := h\<rparr>)))
          | _ \<Rightarrow> throw (no_attribute (class_name fro) ''iteritems''))))"

text \<open>One item of a conditions list.  Where the expanded condition is neither a string nor an
  integer, the error message names a variable that does not exist.\<close>

definition process_condition :: "expand_env \<Rightarrow> string \<Rightarrow> caller \<Rightarrow> string \<Rightarrow> nat \<Rightarrow> hval list \<Rightarrow> hdict \<Rightarrow> unit wact" where
  "process_condition env build_file self key the_dict condition variables =
     (if length condition \<noteq> 2 \<and> length condition \<noteq> 3 then
        throw
          (case condition of
             [] \<Rightarrow> IndexError
           | HStr s # _ \<Rightarrow>
               GypError (key @ '' '' @ s @ '' must be length 2 or 3, not '' @ str_of_nat (length condition))
           | _ \<Rightarrow> TypeError ''cannot concatenate'')
      else
        let cond_expr = condition ! 0;
            true_dict = condition ! 1;
            false_dict = (if length condition = 3 then condition ! 2 else HNone) in
        abind (expand_call self cond_expr variables) (\<lambda>cond_expr_expanded.
          case cond_expr_expanded of
            EList l \<Rightarrow> throw (NameError ''expanded'')
          | EInt i \<Rightarrow> throw (TypeError ''compile() arg 1 must be a string'')
          | EStr s \<Rightarrow>
              abind (eval_condition env build_file s variables) (\<lambda>b.
                merge_branch env build_file self the_dict (if b then true_dict else false_dict) variables)))"

definition ConditionsFrom_body :: "expand_env \<Rightarrow> phase \<Rightarrow> string \<Rightarrow> caller \<Rightarrow> nat \<Rightarrow> nat \<Rightarrow> nat \<Rightarrow> hdict \<Rightarrow> unit wact" where
  "ConditionsFrom_body env phase build_file self the_dict conditions_list index variables =
     (let key = (case conditions_key phase of None \<Rightarrow> [] | Some k \<Rightarrow> k) in
      abind (get_list conditions_list) (\<lambda>items.
        if length items \<le> index then ret ()
        else
          case items ! index of
            HList c \<Rightarrow>
              abind (get_list c) (\<lambda>condition.
              abind (process_condition env build_file self key the_dict condition variables) (\<lambda>_.
                process_call self (ConditionsFrom the_dict conditions_list (Suc index)) variables))
          | _ \<Rightarrow> throw (must_be_list key)))"

definition ProcessConditionsInDict_body :: "phase \<Rightarrow> caller \<Rightarrow> nat \<Rightarrow> hdict \<Rightarrow> unit wact" where
  "ProcessConditionsInDict_body phase self the_dict variables =
     (case conditions_key phase of
        None \<Rightarrow> ret ()
      | Some key \<Rightarrow>
          abind (get_dict the_dict) (\<lambda>d.
            case dget d key of
              None \<Rightarrow> ret ()
            | Some conditions_list \<Rightarrow>
                abind (set_dict the_dict (ddel key d)) (\<lambda>_.
                  case conditions_list of
                    HList l \<Rightarrow> process_call self (ConditionsFrom the_dict l 0) variables
                  | HStr s \<Rightarrow> if s = [] then ret () else throw (must_be_list key)
                  | HDict b \<Rightarrow> abind (get_dict b) (\<lambda>e. if e = [] then ret () else throw (must_be_list key))
                  | _ \<Rightarrow> throw (TypeError ([CHR 0x27] @ h_class_name conditions_list @ [CHR 0x27]
                           @ '' object is not iterable'')))))"

section \<open>Dictionaries and lists\<close>

definition load_variables :: "nat \<Rightarrow> string option \<Rightarrow> hdict \<Rightarrow> hdict wact" where
  "load_variables the_dict the_dict_key variables =
     abind state (\<lambda>w.
       of_res (LoadVariablesFromVariablesDict h_variable_value (h_items (objects w)) variables
         (dict_obj (objects w) the_dict) the_dict_key))"

definition automatic_variables :: "nat \<Rightarrow> hdict \<Rightarrow> hdict wact" where
  "automatic_variables the_dict variables =
     abind (get_dict the_dict) (\<lambda>d. ret (LoadAutomaticVariablesFromDict h_variable_value variables d))"

definition reload_variables :: "nat \<Rightarrow> string option \<Rightarrow> hdict \<Rightarrow> hdict wact" where
  "reload_variables the_dict the_dict_key variables_in =
     abind (automatic_variables the_dict variables_in) (load_variables the_dict the_dict_key)"

text \<open>The dictionary's own variables, before and after they are expanded themselves.\<close>

definition process_variables :: "caller \<Rightarrow> nat \<Rightarrow> hdict \<Rightarrow> hdict wact" where
  "process_variables self the_dict variables =
     abind (get_dict the_dict) (\<lambda>d.
       case dget d ''variables'' of
         None \<Rightarrow> ret variables
       | Some v \<Rightarrow>
           abind state (\<lambda>w.
           abind (of_res (h_items (objects w) v)) (\<lambda>items.
           let variables' = fold (\<lambda>(k, x). dset k x) items variables in
           abind (process_call self (InDict v (Some ''variables'')) variables') (\<lambda>_. ret variables'))))"

definition expand_item :: "caller \<Rightarrow> nat \<Rightarrow> hdict \<Rightarrow> string \<Rightarrow> hval \<Rightarrow> unit wact" where
  "expand_item self the_dict variables key v =
     (case v of
        HStr s \<Rightarrow>
          if key = ''variables'' then ret ()
          else
            abind (expand_call self v variables) (\<lambda>expanded.
              case expanded of
                EList l \<Rightarrow>
                  throw (ValueError (''Variable expansion in this context permits str and int only, found ''
                    @ e_class_name expanded @ '' for '' @ key))
              | _ \<Rightarrow>
                  abind (value_of_expanded expanded) (\<lambda>x.
                  abind (get_dict the_dict) (\<lambda>d. set_dict the_dict (dset key x d))))
      | _ \<Rightarrow> ret ())"

definition process_item :: "caller \<Rightarrow> hdict \<Rightarrow> string \<Rightarrow> hval \<Rightarrow> unit wact" where
  "process_item self variables key v =
     (if key = ''variables'' then ret ()
      else
        case v of
          HStr s \<Rightarrow> ret ()
        | HInt i \<Rightarrow> ret ()
        | HDict a \<Rightarrow> process_call self (InDict v (Some key)) variables
        | HList a \<Rightarrow> process_call self (InList a 0) variables
        | HNone \<Rightarrow> throw (TypeError (''Unknown type '' @ h_class_name v @ '' for '' @ key)))"

definition InDict_body :: "caller \<Rightarrow> hval \<Rightarrow> string option \<Rightarrow> hdict \<Rightarrow> unit wact" where
  "InDict_body self v the_dict_key variables_in =
     (case v of
        HDict the_dict \<Rightarrow>
          abind (automatic_variables the_dict variables_in) (\<lambda>automatics.
          abind (process_variables self the_dict automatics) (\<lambda>locals.
          abind (load_variables the_dict the_dict_key locals) (\<lambda>variables1.
          abind (for_items the_dict (expand_item self the_dict variables1)) (\<lambda>_.
          abind (reload_variables the_dict the_dict_key variables_in) (\<lambda>variables2.
          abind (process_call self (Conditions the_dict) variables2) (\<lambda>_.
          abind (reload_variables the_dict the_dict_key variables_in) (\<lambda>variables3.
            for_items the_dict (process_item self variables3))))))))
      | _ \<Rightarrow> throw (no_attribute (h_class_name v) ''iteritems''))"

text \<open>\<open>l[i] = v\<close>.\<close>

definition set_item_at :: "nat \<Rightarrow> hval list \<Rightarrow> nat \<Rightarrow> hval \<Rightarrow> unit wact" where
  "set_item_at a items i v =
     (if i < length items then set_list a (items[i := v]) else throw IndexError)"

definition InList_body :: "caller \<Rightarrow> nat \<Rightarrow> nat \<Rightarrow> hdict \<Rightarrow> unit wact" where
  "InList_body self the_list index variables =
     abind (get_list the_list) (\<lambda>items.
       if length items \<le> index then ret ()
       else
         case items ! index of
           HDict a \<Rightarrow>
             abind (process_call self (InDict (items ! index) None) variables) (\<lambda>_.
               process_call self (InList the_list (Suc index)) variables)
         | HList a \<Rightarrow>
             abind (process_call self (InList a 0) variables) (\<lambda>_.
               process_call self (InList the_list (Suc index)) variables)
         | HStr s \<Rightarrow>
             abind (expand_call self (HStr s) variables) (\<lambda>expanded.
             abind (get_list the_list) (\<lambda>items1.
               case expanded of
                 EStr t \<Rightarrow>
                   abind (set_item_at the_list items1 index (HStr t)) (\<lambda>_.
                     process_call self (InList the_list (Suc index)) variables)
               | EInt i \<Rightarrow>
                   abind (set_item_at the_list items1 index (HInt i)) (\<lambda>_.
                     process_call self (InList the_list (Suc index)) variables)
               | EList l \<Rightarrow>
                   abind (set_list the_list (take index items1 @ l @ drop (Suc index) items1)) (\<lambda>_.
                     process_call self (InList the_list (index + length l)) variables)))
         | HInt i \<Rightarrow> process_call self (InList the_list (Suc index)) variables
         | HNone \<Rightarrow> throw (TypeError ''cannot concatenate''))"
section \<open>The recursion\<close>

text \<open>The bodies call each other through \<open>self\<close>; \<open>process\<close> ties the knot.  Nothing bounds the
  recursion in the program: a variable whose value refers to itself is expanded for ever (until
  Python gives up), which is \<open>None\<close> here.\<close>

definition call_body :: "expand_env \<Rightarrow> phase \<Rightarrow> string \<Rightarrow> caller \<Rightarrow> call \<Rightarrow> hdict \<Rightarrow> answer wact" where
  "call_body env phase build_file self c variables =
     (case c of
        Expand v \<Rightarrow> abind (ExpandVariables_body env phase build_file self v variables) (\<lambda>e. ret (Expanded e))
      | InDict v key \<Rightarrow> abind (InDict_body self v key variables) (\<lambda>_. ret Processed)
      | Conditions a \<Rightarrow> abind (ProcessConditionsInDict_body phase self a variables) (\<lambda>_. ret Processed)
      | ConditionsFrom a l i \<Rightarrow>
          abind (ConditionsFrom_body env phase build_file self a l i variables) (\<lambda>_. ret Processed)
      | InList a i \<Rightarrow> abind (InList_body self a i variables) (\<lambda>_. ret Processed))"

named_theorems call_mono \<open>monotonicity of the bodies in the calls they make\<close>

lemma const_mono [call_mono]: "mono_option (\<lambda>f. c)"
  by (rule option.const_mono)

lemmas [call_mono] = abind_mono afold_mono

lemma if_mono [call_mono]:
  "mono_option (\<lambda>f. A f w) \<Longrightarrow> mono_option (\<lambda>f. B f w) \<Longrightarrow> mono_option (\<lambda>f. (if b then A f else B f) w)"
  by (cases b) simp_all

lemma case_option_mono [call_mono]:
  "mono_option (\<lambda>f. A f w) \<Longrightarrow> (\<And>x. mono_option (\<lambda>f. B f x w)) \<Longrightarrow>
    mono_option (\<lambda>f. (case v of None \<Rightarrow> A f | Some x \<Rightarrow> B f x) w)"
  by (cases v) simp_all

lemma case_expanded_mono [call_mono]:
  "(\<And>s. mono_option (\<lambda>f. A f s w)) \<Longrightarrow> (\<And>i. mono_option (\<lambda>f. B f i w)) \<Longrightarrow> (\<And>l. mono_option (\<lambda>f. C f l w)) \<Longrightarrow>
    mono_option (\<lambda>f. (case e of EStr s \<Rightarrow> A f s | EInt i \<Rightarrow> B f i | EList l \<Rightarrow> C f l) w)"
  by (cases e) simp_all

lemma case_hval_mono [call_mono]:
  "(\<And>s. mono_option (\<lambda>f. A f s w)) \<Longrightarrow> (\<And>i. mono_option (\<lambda>f. B f i w)) \<Longrightarrow> (\<And>a. mono_option (\<lambda>f. C f a w)) \<Longrightarrow>
    (\<And>a. mono_option (\<lambda>f. D f a w)) \<Longrightarrow> mono_option (\<lambda>f. E f w) \<Longrightarrow>
    mono_option (\<lambda>f. (case v of HStr s \<Rightarrow> A f s | HInt i \<Rightarrow> B f i | HList a \<Rightarrow> C f a | HDict a \<Rightarrow> D f a
      | HNone \<Rightarrow> E f) w)"
  by (cases v) simp_all

lemma case_pyval_mono [call_mono]:
  "(\<And>s. mono_option (\<lambda>f. A f s w)) \<Longrightarrow> (\<And>i. mono_option (\<lambda>f. B f i w)) \<Longrightarrow> (\<And>a. mono_option (\<lambda>f. C f a w)) \<Longrightarrow>
    (\<And>a. mono_option (\<lambda>f. D f a w)) \<Longrightarrow> mono_option (\<lambda>f. E f w) \<Longrightarrow>
    mono_option (\<lambda>f. (case v of PStr s \<Rightarrow> A f s | PInt i \<Rightarrow> B f i | PList a \<Rightarrow> C f a | PDict a \<Rightarrow> D f a
      | PNone \<Rightarrow> E f) w)"
  by (cases v) simp_all

text \<open>Every body that takes \<open>self\<close> is monotone in it.\<close>

lemma expand_call_mono [call_mono]:
  assumes "\<And>c v w. mono_option (\<lambda>f. S f c v w)"
  shows "mono_option (\<lambda>f. expand_call (S f) v variables w)"
  unfolding expand_call_def by (intro call_mono assms)

lemma process_call_mono [call_mono]:
  assumes "\<And>c v w. mono_option (\<lambda>f. S f c v w)"
  shows "mono_option (\<lambda>f. process_call (S f) c variables w)"
  unfolding process_call_def by (intro call_mono assms)

lemma prepare_replacement_mono [call_mono]:
  assumes "\<And>c v w. mono_option (\<lambda>f. S f c v w)"
  shows "mono_option (\<lambda>f. prepare_replacement (S f) s v variables w)"
  unfolding prepare_replacement_def Let_def case_prod_beta by (intro call_mono assms)

lemma expand_match_mono [call_mono]:
  assumes "\<And>c v w. mono_option (\<lambda>f. S f c v w)"
  shows "mono_option (\<lambda>f. expand_match env build_file (S f) variables m s w)"
  unfolding expand_match_def Let_def case_prod_beta by (intro call_mono assms)

lemma replace_match_mono [call_mono]:
  assumes "\<And>c v w. mono_option (\<lambda>f. S f c v w)"
  shows "mono_option (\<lambda>f. replace_match env build_file (S f) variables m out w)"
  unfolding replace_match_def Let_def case_prod_beta by (intro call_mono assms)

lemma expand_again_mono [call_mono]:
  assumes "\<And>c v w. mono_option (\<lambda>f. S f c v w)"
  shows "mono_option (\<lambda>f. expand_again (S f) variables out w)"
  unfolding expand_again_def Let_def case_prod_beta by (intro call_mono assms)

lemma ExpandVariables_body_mono [call_mono]:
  assumes "\<And>c v w. mono_option (\<lambda>f. S f c v w)"
  shows "mono_option (\<lambda>f. ExpandVariables_body env phase build_file (S f) v variables w)"
  unfolding ExpandVariables_body_def Let_def case_prod_beta by (intro call_mono assms)

lemma merge_branch_mono [call_mono]:
  assumes "\<And>c v w. mono_option (\<lambda>f. S f c v w)"
  shows "mono_option (\<lambda>f. merge_branch env build_file (S f) a v variables w)"
  unfolding merge_branch_def by (intro call_mono assms)

lemma process_condition_mono [call_mono]:
  assumes "\<And>c v w. mono_option (\<lambda>f. S f c v w)"
  shows "mono_option (\<lambda>f. process_condition env build_file (S f) key a condition variables w)"
  unfolding process_condition_def Let_def case_prod_beta by (intro call_mono assms)

lemma ConditionsFrom_body_mono [call_mono]:
  assumes "\<And>c v w. mono_option (\<lambda>f. S f c v w)"
  shows "mono_option (\<lambda>f. ConditionsFrom_body env phase build_file (S f) a l i variables w)"
  unfolding ConditionsFrom_body_def Let_def case_prod_beta by (intro call_mono assms)

lemma ProcessConditionsInDict_body_mono [call_mono]:
  assumes "\<And>c v w. mono_option (\<lambda>f. S f c v w)"
  shows "mono_option (\<lambda>f. ProcessConditionsInDict_body phase (S f) a variables w)"
  unfolding ProcessConditionsInDict_body_def Let_def case_prod_beta by (intro call_mono assms)

lemma process_variables_mono [call_mono]:
  assumes "\<And>c v w. mono_option (\<lambda>f. S f c v w)"
  shows "mono_option (\<lambda>f. process_variables (S f) a variables w)"
  unfolding process_variables_def Let_def case_prod_beta by (intro call_mono assms)

lemma expand_item_mono [call_mono]:
  assumes "\<And>c v w. mono_option (\<lambda>f. S f c v w)"
  shows "mono_option (\<lambda>f. expand_item (S f) a variables k v w)"
  unfolding expand_item_def Let_def case_prod_beta by (intro call_mono assms)

lemma process_item_mono [call_mono]:
  assumes "\<And>c v w. mono_option (\<lambda>f. S f c v w)"
  shows "mono_option (\<lambda>f. process_item (S f) variables k v w)"
  unfolding process_item_def Let_def case_prod_beta by (intro call_mono assms)

lemma for_items_mono [call_mono]:
  assumes "\<And>k v w. mono_option (\<lambda>f. B f k v w)"
  shows "mono_option (\<lambda>f. for_items a (B f) w)"
  unfolding for_items_def Let_def by (intro call_mono assms)

lemma InDict_body_mono [call_mono]:
  assumes "\<And>c v w. mono_option (\<lambda>f. S f c v w)"
  shows "mono_option (\<lambda>f. InDict_body (S f) v key variables w)"
  unfolding InDict_body_def Let_def case_prod_beta by (intro call_mono assms)

lemma InList_body_mono [call_mono]:
  assumes "\<And>c v w. mono_option (\<lambda>f. S f c v w)"
  shows "mono_option (\<lambda>f. InList_body (S f) a i variables w)"
  unfolding InList_body_def Let_def case_prod_beta by (intro call_mono assms)

lemma case_call_mono:
  "(\<And>v. mono_option (\<lambda>f. A f v w)) \<Longrightarrow> (\<And>v k. mono_option (\<lambda>f. B f v k w)) \<Longrightarrow> (\<And>a. mono_option (\<lambda>f. C f a w)) \<Longrightarrow>
    (\<And>a l i. mono_option (\<lambda>f. D f a l i w)) \<Longrightarrow> (\<And>a i. mono_option (\<lambda>f. E f a i w)) \<Longrightarrow>
    mono_option (\<lambda>f. (case c of Expand v \<Rightarrow> A f v | InDict v k \<Rightarrow> B f v k | Conditions a \<Rightarrow> C f a
      | ConditionsFrom a l i \<Rightarrow> D f a l i | InList a i \<Rightarrow> E f a i) w)"
  by (cases c) simp_all

lemma call_body_mono [partial_function_mono]:
  assumes "\<And>c v w. mono_option (\<lambda>f. S f c v w)"
  shows "mono_option (\<lambda>f. call_body env phase build_file (S f) c variables w)"
  unfolding call_body_def by (intro case_call_mono call_mono assms)

partial_function (option) process ::
    "expand_env \<Rightarrow> phase \<Rightarrow> string \<Rightarrow> call \<Rightarrow> hdict \<Rightarrow> answer wact" where
  "process env phase build_file c variables w =
     call_body env phase build_file (\<lambda>c variables w. process env phase build_file c variables w) c variables w"

declare process.simps [code]
section \<open>The functions\<close>

definition ExpandVariables :: "expand_env \<Rightarrow> hval \<Rightarrow> phase \<Rightarrow> hdict \<Rightarrow> string \<Rightarrow> expanded wact" where
  "ExpandVariables env inp phase variables build_file =
     expand_call (process env phase build_file) inp variables"

definition ProcessConditionsInDict :: "expand_env \<Rightarrow> nat \<Rightarrow> phase \<Rightarrow> hdict \<Rightarrow> string \<Rightarrow> unit wact" where
  "ProcessConditionsInDict env the_dict phase variables build_file =
     process_call (process env phase build_file) (Conditions the_dict) variables"

definition ProcessVariablesAndConditionsInDict ::
    "expand_env \<Rightarrow> hval \<Rightarrow> phase \<Rightarrow> hdict \<Rightarrow> string \<Rightarrow> string option \<Rightarrow> unit wact" where
  "ProcessVariablesAndConditionsInDict env the_dict phase variables_in build_file the_dict_key =
     process_call (process env phase build_file) (InDict the_dict the_dict_key) variables_in"

definition ProcessVariablesAndConditionsInList ::
    "expand_env \<Rightarrow> nat \<Rightarrow> phase \<Rightarrow> hdict \<Rightarrow> string \<Rightarrow> unit wact" where
  "ProcessVariablesAndConditionsInList env the_list phase variables build_file =
     process_call (process env phase build_file) (InList the_list 0) variables"

text \<open>A whole build file or target, given and returned as a tree.\<close>

definition process_dict :: "expand_env \<Rightarrow> phase \<Rightarrow> pydict \<Rightarrow> string \<Rightarrow> pydict \<Rightarrow> pydict wact" where
  "process_dict env phase variables build_file d =
     abind (write_dict variables) (\<lambda>vars.
     abind state (\<lambda>w. let (v, h) = new_value (PDict d) (objects w) in
     abind (change (\<lambda>w. w\<lparr>objects := h\<rparr>)) (\<lambda>_.
     abind (ProcessVariablesAndConditionsInDict env v phase vars build_file None) (\<lambda>_.
     abind (read_tree v) (\<lambda>t. case t of PDict r \<Rightarrow> ret r | _ \<Rightarrow> of_option None)))))"

definition new_world :: world where
  "new_world = \<lparr>objects = [], cached_command_results = [], commands_run = [], written_files = [], ensured_dirs = []\<rparr>"

text \<open>Surroundings for examples: a command prints its text in exclamation marks, a condition holds when
  it names the variable \<open>OS\<close>'s value.\<close>

definition example_env :: expand_env where
  "example_env =
     \<lparr>env_globals = SetGeneratorGlobals plain_generator, env_realpath = (\<lambda>p. p), env_compile = (\<lambda>_. None),
      env_platform = ''linux2'', env_eval = (\<lambda>s. Inl (SyntaxError s s 0)),
      env_eval_condition = (\<lambda>s vars. Inr (dget vars ''OS'' = Some (PStr s))),
      env_popen = (\<lambda>log use_shell c d. Inr (0, ''!'' @ py_str c @ ''!'', [])), env_chdir = (\<lambda>d. Inr ()),
      env_import = (\<lambda>d m. Inr ()), env_do_main = (\<lambda>log d m ps. Inr m)\<rparr>"

end
