(* ===== verification/Gyp_Options.thy ===== *)
theory Gyp_Options
  imports Gyp_Expand
begin

text \<open>
  The command line of GYP (\<open>tools/gyp/pylib/gyp/__init__.py\<close>): the options, the variables they
  define, and the flags that regenerate them.  A generated build file calls GYP again with these
  flags when a build file changed.
\<close>

section \<open>NAME=VALUE\<close>

definition split1 :: "char \<Rightarrow> string \<Rightarrow> string list" where
  "split1 c s =
     (if c \<in> set s then [takeWhile (\<lambda>x. x \<noteq> c) s, tl (dropWhile (\<lambda>x. x \<noteq> c) s)] else [s])"

datatype named_value = IntValue int | TextValue string | TrueValue

definition token_value :: "string \<Rightarrow> named_value" where
  "token_value s = (case py_int (PStr s) of Inr i \<Rightarrow> IntValue i | Inl e \<Rightarrow> TextValue s)"

definition NameValueListToDict :: "string list \<Rightarrow> (string \<times> named_value) list" where
  "NameValueListToDict name_value_list =
     fold (\<lambda>item result.
         case split1 CHR ''='' item of
           [name, value] \<Rightarrow> dset name (token_value value) result
         | name # _ \<Rightarrow> dset name TrueValue result
         | [] \<Rightarrow> result) name_value_list []"

section \<open>Options\<close>

text \<open>An option with its attributes as \<open>add_option\<close> gets them; \<open>dest\<close> is empty where it is not given.\<close>

datatype option_action = Store | Append | StoreTrue | StoreFalse

datatype opt_value = OptNone | OptText string | OptBool bool | OptList "string list"

record gyp_option =
  opt_names :: "string list"
  opt_dest :: "string option"
  opt_action :: option_action
  opt_default :: opt_value
  opt_is_path :: bool
  opt_env_name :: "string option"
  opt_regenerate :: bool

type_synonym option_values = "(string \<times> opt_value) list"

definition plain_option :: "string list \<Rightarrow> string \<Rightarrow> option_action \<Rightarrow> opt_value \<Rightarrow> gyp_option" where
  "plain_option names dest action dflt =
     \<lparr>opt_names = names, opt_dest = Some dest, opt_action = action, opt_default = dflt,
      opt_is_path = False, opt_env_name = None, opt_regenerate = True\<rparr>"

text \<open>The options of \<open>gyp_main\<close>, in its order.\<close>

definition gyp_options :: "gyp_option list" where
  "gyp_options =
     [plain_option [''--build''] ''configs'' Append OptNone,
      plain_option [''--check''] ''check'' StoreTrue OptNone,
      (plain_option [''--config-dir''] ''config_dir'' Store OptNone)\<lparr>opt_env_name := Some ''GYP_CONFIG_DIR''\<rparr>,
      plain_option [''-d'', ''--debug''] ''debug'' Append (OptList []),
      (plain_option [''-D''] ''defines'' Append OptNone)\<lparr>opt_env_name := Some ''GYP_DEFINES''\<rparr>,
      (plain_option [''--depth''] ''depth'' Store OptNone)\<lparr>opt_is_path := True\<rparr>,
      (plain_option [''-f'', ''--format''] ''formats'' Append OptNone)
        \<lparr>opt_env_name := Some ''GYP_GENERATORS'', opt_regenerate := False\<rparr>,
      (plain_option [''-G''] ''generator_flags'' Append (OptList []))
        \<lparr>opt_env_name := Some ''GYP_GENERATOR_FLAGS''\<rparr>,
      (plain_option [''--generator-output''] ''generator_output'' Store OptNone)
        \<lparr>opt_is_path := True, opt_env_name := Some ''GYP_GENERATOR_OUTPUT''\<rparr>,
      (plain_option [''--ignore-environment''] ''use_environment'' StoreFalse (OptBool True))
        \<lparr>opt_regenerate := False\<rparr>,
      (plain_option [''-I'', ''--include''] ''includes'' Append OptNone)\<lparr>opt_is_path := True\<rparr>,
      (plain_option [''--no-circular-check''] ''circular_check'' StoreFalse (OptBool True))
        \<lparr>opt_regenerate := False\<rparr>,
      (plain_option [''--no-parallel''] ''no_parallel'' StoreTrue (OptBool False))\<lparr>opt_dest := None\<rparr>,
      plain_option [''-S'', ''--suffix''] ''suffix'' Store (OptText []),
      (plain_option [''--toplevel-dir''] ''toplevel_dir'' Store OptNone)\<lparr>opt_is_path := True\<rparr>,
      plain_option [''-R'', ''--root-target''] ''root_targets'' Append OptNone]"

text \<open>The library's parser makes the attribute of an option without \<open>dest\<close> from its first long name.\<close>

definition attribute_of :: "gyp_option \<Rightarrow> string" where
  "attribute_of opt =
     (case opt_dest opt of
        Some d \<Rightarrow> d
      | None \<Rightarrow>
          (case find (prefix ''--'') (opt_names opt) of
             Some n \<Rightarrow> map (\<lambda>c. if c = CHR ''-'' then CHR ''_'' else c) (drop 2 n)
           | None \<Rightarrow> drop 1 (hd (opt_names opt))))"

definition default_values :: "gyp_option list \<Rightarrow> option_values" where
  "default_values table = map (\<lambda>opt. (attribute_of opt, opt_default opt)) table"

definition option_value :: "option_values \<Rightarrow> string \<Rightarrow> opt_value" where
  "option_value options name = dget_default options name OptNone"

section \<open>Parsing\<close>

text \<open>
  \<open>parse_args\<close> of the library module \<open>optparse\<close>: options and positional arguments may come in any
  order, a long option may be abbreviated, and \<open>--\<close> ends the options.  \<open>ParseExit\<close> is the exit
  of the process, with status 2 after an error and 0 after the help text.
\<close>

datatype parse_result = Parsed option_values "string list" | ParseExit nat

definition takes_value :: "gyp_option \<Rightarrow> bool" where
  "takes_value opt \<longleftrightarrow> opt_action opt \<in> {Store, Append}"

definition take_option :: "gyp_option \<Rightarrow> string \<Rightarrow> option_values \<Rightarrow> option_values" where
  "take_option opt value values =
     dset (attribute_of opt)
       (case opt_action opt of
          Store \<Rightarrow> OptText value
        | Append \<Rightarrow>
            OptList ((case option_value values (attribute_of opt) of OptList l \<Rightarrow> l | _ \<Rightarrow> []) @ [value])
        | StoreTrue \<Rightarrow> OptBool True
        | StoreFalse \<Rightarrow> OptBool False) values"

definition named_option :: "gyp_option list \<Rightarrow> string \<Rightarrow> gyp_option option" where
  "named_option table name = find (\<lambda>opt. name \<in> set (opt_names opt)) table"

definition help_names :: "string list" where
  "help_names = [''-h'', ''--help'']"

text \<open>A long option is named exactly, or by a prefix of just one long name.\<close>

definition match_long :: "gyp_option list \<Rightarrow> string \<Rightarrow> string option" where
  "match_long table name =
     (let names = filter (prefix ''--'') (help_names @ concat (map opt_names table)) in
      if name \<in> set names then Some name
      else case filter (prefix name) names of [n] \<Rightarrow> Some n | _ \<Rightarrow> None)"

datatype arg_step =
    Taken option_values "string list"
  | Refused nat

definition long_option :: "gyp_option list \<Rightarrow> string \<Rightarrow> string list \<Rightarrow> option_values \<Rightarrow> arg_step" where
  "long_option table arg rargs values =
     (let parts = split1 CHR ''='' arg; explicit = tl parts in
      case match_long table (hd parts) of
        None \<Rightarrow> Refused 2
      | Some n \<Rightarrow>
          (case named_option table n of
             None \<Rightarrow> if explicit = [] then Refused 0 else Refused 2
           | Some opt \<Rightarrow>
               if takes_value opt then
                 (case explicit @ rargs of
                    [] \<Rightarrow> Refused 2
                  | value # rest \<Rightarrow> Taken (take_option opt value values) (if explicit = [] then rest else rargs))
               else if explicit = [] then Taken (take_option opt [] values) rargs
               else Refused 2))"

text \<open>Letters behind one dash; a letter that takes a value takes the rest, or the next argument.\<close>

fun short_options :: "gyp_option list \<Rightarrow> string \<Rightarrow> string list \<Rightarrow> option_values \<Rightarrow> arg_step" where
  "short_options table [] rargs values = Taken values rargs"
| "short_options table (c # cs) rargs values =
     (case named_option table [CHR ''-'', c] of
        None \<Rightarrow> Refused (if c = CHR ''h'' then 0 else 2)
      | Some opt \<Rightarrow>
          if takes_value opt then
            (if cs \<noteq> [] then Taken (take_option opt cs values) rargs
             else case rargs of
                    [] \<Rightarrow> Refused 2
                  | value # rest \<Rightarrow> Taken (take_option opt value values) rest)
          else short_options table cs rargs (take_option opt [] values))"

definition parse_step :: "gyp_option list \<Rightarrow> string \<Rightarrow> string list \<Rightarrow> option_values \<Rightarrow> arg_step" where
  "parse_step table arg rargs values =
     (if prefix ''--'' arg then long_option table arg rargs values
      else short_options table (tl arg) rargs values)"
lemma long_option_rest: "long_option table arg rargs values = Taken v r \<Longrightarrow> length r \<le> length rargs"
  by (auto simp: long_option_def Let_def split: option.splits if_splits list.splits)

lemma short_options_rest: "short_options table cs rargs vals = Taken v r \<Longrightarrow> length r \<le> length rargs"
  by (induction cs arbitrary: vals) (auto split: option.splits if_splits list.splits)

lemma parse_step_rest: "parse_step table arg rargs values = Taken v r \<Longrightarrow> length r \<le> length rargs"
  by (auto simp: parse_step_def dest: long_option_rest short_options_rest split: if_splits)

function process_args :: "gyp_option list \<Rightarrow> string list \<Rightarrow> option_values \<Rightarrow> string list \<Rightarrow> parse_result" where
  "process_args table [] values largs = Parsed values largs"
| "process_args table (arg # rargs) values largs =
     (if arg = ''--'' then Parsed values (largs @ rargs)
      else if prefix ''-'' arg \<and> arg \<noteq> ''-'' then
        (case parse_step table arg rargs values of
           Taken values' rest \<Rightarrow> process_args table rest values' largs
         | Refused n \<Rightarrow> ParseExit n)
      else process_args table rargs values (largs @ [arg]))"
  by pat_completeness auto
termination
  by (relation "measure (\<lambda>(table, args, values, largs). length args)") (auto dest: parse_step_rest)

definition parse_args :: "gyp_option list \<Rightarrow> string list \<Rightarrow> parse_result" where
  "parse_args table args = process_args table args (default_values table) []"

section \<open>Regenerating the flags\<close>

text \<open>\<open>_regeneration_metadata\<close>: the options with \<open>dest\<close> that are not left out of regeneration.\<close>

record option_metadata =
  meta_name :: string
  meta_opt :: string
  meta_action :: option_action
  meta_is_path :: bool
  meta_env_name :: "string option"

definition metadata_of :: "gyp_option \<Rightarrow> option_metadata" where
  "metadata_of opt =
     \<lparr>meta_name = the (opt_dest opt), meta_opt = hd (opt_names opt), meta_action = opt_action opt,
      meta_is_path = opt_is_path opt, meta_env_name = opt_env_name opt\<rparr>"

definition regeneration_metadata :: "gyp_option list \<Rightarrow> option_metadata list" where
  "regeneration_metadata table =
     map metadata_of (filter (\<lambda>opt. opt_dest opt \<noteq> None \<and> opt_regenerate opt) table)"

definition ShlexEnv :: "(string \<times> string) list \<Rightarrow> string \<Rightarrow> string list res" where
  "ShlexEnv environ env_name =
     (case dget environ env_name of
        None \<Rightarrow> Inr []
      | Some flags \<Rightarrow> if flags = [] then Inr [] else shlex_split flags)"

definition FormatOpt :: "string \<Rightarrow> string \<Rightarrow> string" where
  "FormatOpt opt value = (if prefix ''--'' opt then opt @ ''='' @ value else opt @ value)"

definition FixPath :: "(string \<Rightarrow> string) \<Rightarrow> string \<Rightarrow> string \<Rightarrow> string" where
  "FixPath realpath depth path =
     (let path = FixIfRelativePath realpath path depth in if path = [] then ''.'' else path)"

definition env_flag :: "string \<Rightarrow> (string \<Rightarrow> string) \<Rightarrow> string \<Rightarrow> string list \<Rightarrow> string list" where
  "env_flag flag predicate flag_value flags =
     (let value = FormatOpt flag (predicate flag_value) in
      (if value \<in> set flags then remove1 value flags else flags) @ [value])"

definition RegenerateAppendFlag :: "(string \<times> string) list \<Rightarrow> string \<Rightarrow> string list \<Rightarrow> (string \<Rightarrow> string)
    \<Rightarrow> string option \<Rightarrow> bool \<Rightarrow> string list res" where
  "RegenerateAppendFlag environ flag values predicate env_name use_environment =
     rbind (case env_name of
              Some n \<Rightarrow> if use_environment then ShlexEnv environ n else Inr []
            | None \<Rightarrow> Inr []) (\<lambda>env_values.
       Inr (fold (env_flag flag predicate) env_values []
            @ map (\<lambda>flag_value. FormatOpt flag (predicate flag_value)) values))"

definition value_predicate :: "(string \<Rightarrow> string) \<Rightarrow> option_values \<Rightarrow> option_metadata \<Rightarrow> string \<Rightarrow> string" where
  "value_predicate realpath options m =
     (if meta_is_path m
      then FixPath realpath (case option_value options ''depth'' of OptText d \<Rightarrow> d | _ \<Rightarrow> [])
      else id)"

definition uses_environment :: "option_values \<Rightarrow> bool" where
  "uses_environment options \<longleftrightarrow> option_value options ''use_environment'' = OptBool True"

definition list_value :: "opt_value \<Rightarrow> string list" where
  "list_value v = (case v of OptList l \<Rightarrow> l | _ \<Rightarrow> [])"

definition text_value :: "opt_value \<Rightarrow> string" where
  "text_value v = (case v of OptText s \<Rightarrow> s | _ \<Rightarrow> [])"

text \<open>What the environment says for a stored option that was not given.\<close>

definition env_text :: "(string \<times> string) list \<Rightarrow> option_values \<Rightarrow> option_metadata \<Rightarrow> string" where
  "env_text environ options m =
     (case meta_env_name m of
        Some n \<Rightarrow> if uses_environment options then dget_default environ n [] else []
      | None \<Rightarrow> [])"

definition regenerate_option :: "(string \<Rightarrow> string) \<Rightarrow> (string \<times> string) list \<Rightarrow> option_values
    \<Rightarrow> option_metadata \<Rightarrow> string list res" where
  "regenerate_option realpath environ options m =
     (let value = option_value options (meta_name m); predicate = value_predicate realpath options m in
      case meta_action m of
        Append \<Rightarrow>
          RegenerateAppendFlag environ (meta_opt m) (list_value value) predicate (meta_env_name m)
            (uses_environment options)
      | Store \<Rightarrow>
          Inr (if text_value value \<noteq> [] then [FormatOpt (meta_opt m) (predicate (text_value value))]
               else if env_text environ options m \<noteq> []
               then [FormatOpt (meta_opt m) (predicate (env_text environ options m))] else [])
      | StoreTrue \<Rightarrow> Inr (if value = OptBool True then [meta_opt m] else [])
      | StoreFalse \<Rightarrow> Inr (if value \<noteq> OptBool True then [meta_opt m] else []))"

text \<open>The dictionary of metadata is iterated in an order of its own: it is an argument.\<close>

definition RegenerateFlags :: "(string \<Rightarrow> string) \<Rightarrow> (string \<times> string) list \<Rightarrow> option_values
    \<Rightarrow> option_metadata list \<Rightarrow> string list res" where
  "RegenerateFlags realpath environ options metadata =
     rfold (\<lambda>m flags. rbind (regenerate_option realpath environ options m) (\<lambda>fs. Inr (flags @ fs)))
       metadata [''--ignore-environment'']"
section \<open>Definitions: the last one of a name counts\<close>

definition item_name :: "string \<Rightarrow> string" where
  "item_name item = takeWhile (\<lambda>x. x \<noteq> CHR ''='') item"

definition item_value :: "string \<Rightarrow> named_value" where
  "item_value item =
     (if CHR ''='' \<in> set item then token_value (tl (dropWhile (\<lambda>x. x \<noteq> CHR ''='') item)) else TrueValue)"

lemma NameValueListToDict_items:
  "NameValueListToDict items = fold (\<lambda>item. dset (item_name item) (item_value item)) items []"
proof -
  have "item_name item = item" if "CHR ''='' \<notin> set item" for item
    unfolding item_name_def using that by (subst takeWhile_eq_all_conv) blast
  then have "(case split1 CHR ''='' item of [name, value] \<Rightarrow> dset name (token_value value) result
      | name # _ \<Rightarrow> dset name TrueValue result | [] \<Rightarrow> result) = dset (item_name item) (item_value item) result"
    for item and result :: "(string \<times> named_value) list"
    by (cases "CHR ''='' \<in> set item") (simp_all add: split1_def item_value_def, simp add: item_name_def)
  then show ?thesis by (simp add: NameValueListToDict_def)
qed

lemma fold_dset_get:
  "dget (fold (\<lambda>item. dset (f item) (g item)) items d) k =
     (case find (\<lambda>item. f item = k) (rev items) of Some item \<Rightarrow> Some (g item) | None \<Rightarrow> dget d k)"
  by (induction items rule: rev_induct) (auto simp: dset_def update_conv)

lemma find_append: "find P (xs @ ys) = (case find P xs of None \<Rightarrow> find P ys | Some x \<Rightarrow> Some x)"
  by (induction xs) auto

lemma find_rev_remdups: "find P (rev (remdups xs)) = find P (rev xs)"
proof (induction xs)
  case (Cons x xs)
  show ?case
  proof (cases "x \<in> set xs \<and> P x")
    case True
    then have "find P (rev xs) \<noteq> None" by (auto simp: find_None_iff)
    with True Cons show ?thesis by (auto simp: find_append split: option.splits)
  qed (use Cons in \<open>auto simp: find_append split: option.splits\<close>)
qed simp

text \<open>Definitions that come twice may be left out but for the last one.\<close>

lemma NameValueListToDict_remdups:
  "dget (NameValueListToDict (remdups xs @ ys)) k = dget (NameValueListToDict (xs @ ys)) k"
  unfolding NameValueListToDict_items fold_dset_get rev_append find_append find_rev_remdups ..
section \<open>Regenerated flags are read back\<close>

definition regenerable :: "gyp_option \<Rightarrow> bool" where
  "regenerable opt \<longleftrightarrow> opt_dest opt \<noteq> None \<and> opt_regenerate opt"

text \<open>The values that a regenerated option is given, in order; a flag without a value is given the
  empty text.\<close>

definition env_values :: "(string \<times> string) list \<Rightarrow> option_values \<Rightarrow> option_metadata \<Rightarrow> string list res" where
  "env_values environ options m =
     (case meta_env_name m of
        Some n \<Rightarrow> if uses_environment options then ShlexEnv environ n else Inr []
      | None \<Rightarrow> Inr [])"

definition given_text :: "(string \<times> string) list \<Rightarrow> option_values \<Rightarrow> option_metadata \<Rightarrow> string" where
  "given_text environ options m =
     (let s = text_value (option_value options (meta_name m)) in
      if s = [] then env_text environ options m else s)"

definition given_values :: "(string \<Rightarrow> string) \<Rightarrow> (string \<times> string) list \<Rightarrow> option_values
    \<Rightarrow> option_metadata \<Rightarrow> string list res" where
  "given_values realpath environ options m =
     (let value = option_value options (meta_name m); predicate = value_predicate realpath options m in
      case meta_action m of
        Append \<Rightarrow>
          rbind (env_values environ options m) (\<lambda>env.
            Inr (remdups (map predicate env) @ map predicate (list_value value)))
      | Store \<Rightarrow>
          Inr (if given_text environ options m = [] then [] else [predicate (given_text environ options m)])
      | StoreTrue \<Rightarrow> Inr (if value = OptBool True then [[]] else [])
      | StoreFalse \<Rightarrow> Inr (if value \<noteq> OptBool True then [[]] else []))"

definition flags_of :: "option_metadata \<Rightarrow> string list \<Rightarrow> string list" where
  "flags_of m vs =
     map (\<lambda>v. if meta_action m \<in> {Store, Append} then FormatOpt (meta_opt m) v else meta_opt m) vs"

lemma FormatOpt_inj: "FormatOpt f x = FormatOpt f y \<longleftrightarrow> x = y"
  by (simp add: FormatOpt_def)

lemma remdups_snoc: "remdups (xs @ [x]) = filter (\<lambda>y. y \<noteq> x) (remdups xs) @ [x]"
  by (induction xs) auto

lemma env_flags: "fold (env_flag flag predicate) vs [] = map (FormatOpt flag) (remdups (map predicate vs))"
proof (induction vs rule: rev_induct)
  case (snoc v vs)
  let ?l = "remdups (map predicate vs)"
  have r: "remove1 (FormatOpt flag x) (map (FormatOpt flag) l) = map (FormatOpt flag) (remove1 x l)" for x l
    by (induction l) (auto simp: FormatOpt_inj)
  have "(if FormatOpt flag x \<in> set (map (FormatOpt flag) l) then remove1 (FormatOpt flag x) (map (FormatOpt flag) l)
      else map (FormatOpt flag) l) = map (FormatOpt flag) (filter (\<lambda>y. y \<noteq> x) l)" if "distinct l" for x l
    using that r[of x l] remove1_idem[of "FormatOpt flag x" "map (FormatOpt flag) l"]
    by (simp add: distinct_remove1_removeAll removeAll_filter_not_eq eq_commute)
  from this[of ?l "predicate v"]
  have "env_flag flag predicate v (map (FormatOpt flag) ?l) = map (FormatOpt flag) (remdups (map predicate vs @ [predicate v]))"
    by (simp only: env_flag_def Let_def remdups_snoc distinct_remdups simp_thms map_append list.map)
  then show ?case by (simp only: fold_append fold.simps comp_apply snoc id_apply map_append list.map)
qed simp

lemma regenerate_option_flags:
  "regenerate_option realpath environ options m =
     rbind (given_values realpath environ options m) (\<lambda>vs. Inr (flags_of m vs))"
  by (cases "env_values environ options m"; cases "meta_action m")
    (auto simp: regenerate_option_def given_values_def given_text_def RegenerateAppendFlag_def env_values_def
      env_flags flags_of_def Let_def comp_def)

text \<open>Each regenerable option is found by the name its flag has.\<close>

definition well_named :: "gyp_option \<Rightarrow> bool" where
  "well_named opt \<longleftrightarrow>
     (let n = hd (opt_names opt) in
      named_option gyp_options n = Some opt \<and> n \<noteq> ''--''
      \<and> (if prefix ''--'' n then match_long gyp_options n = Some n \<and> CHR ''='' \<notin> set n
         else length n = 2 \<and> hd n = CHR ''-''))"

lemma gyp_options_named:
  "list_all well_named (filter regenerable gyp_options) \<and> distinct (map attribute_of gyp_options)
     \<and> list_all (\<lambda>opt. attribute_of opt = the (opt_dest opt)) (filter regenerable gyp_options)"
  by code_simp

lemma split1_join: "c \<notin> set a \<Longrightarrow> split1 c (a @ c # b) = [a, b]"
  by (induction a) (auto simp: split1_def)

definition flag_of :: "gyp_option \<Rightarrow> string \<Rightarrow> string" where
  "flag_of opt v = (if takes_value opt then FormatOpt (hd (opt_names opt)) v else hd (opt_names opt))"

lemma flags_of_option: "flags_of (metadata_of opt) vs = map (flag_of opt) vs"
  by (auto simp: flags_of_def flag_of_def metadata_of_def takes_value_def)

lemma flag_taken:
  assumes "well_named opt" and "takes_value opt \<Longrightarrow> prefix ''--'' (hd (opt_names opt)) \<or> v \<noteq> []"
  shows "process_args gyp_options (flag_of opt v # rest) vals largs =
    process_args gyp_options rest (take_option opt (if takes_value opt then v else []) vals) largs"
proof (cases "prefix ''--'' (hd (opt_names opt))")
  case True
  then obtain n where n: "hd (opt_names opt) = ''--'' @ n" by (auto simp: prefix_def)
  with assms(1) have w: "named_option gyp_options (CHR ''-'' # CHR ''-'' # n) = Some opt" "n \<noteq> []"
    "match_long gyp_options (CHR ''-'' # CHR ''-'' # n) = Some (CHR ''-'' # CHR ''-'' # n)" "CHR ''='' \<notin> set n"
    by (auto simp: well_named_def Let_def)
  have "split1 CHR ''='' (CHR ''-'' # CHR ''-'' # n @ CHR ''='' # v) = [CHR ''-'' # CHR ''-'' # n, v]"
    using split1_join[of "CHR ''=''" "CHR ''-'' # CHR ''-'' # n" v] w(4) by simp
  moreover have "split1 CHR ''='' (CHR ''-'' # CHR ''-'' # n) = [CHR ''-'' # CHR ''-'' # n]"
    using w(4) by (simp add: split1_def)
  ultimately show ?thesis using w
    by (simp add: n flag_of_def FormatOpt_def parse_step_def long_option_def Let_def)
next
  case False
  with assms(1) obtain c where n: "hd (opt_names opt) = [CHR ''-'', c]" "c \<noteq> CHR ''-''"
    "named_option gyp_options [CHR ''-'', c] = Some opt"
    by (auto simp: well_named_def Let_def length_Suc_conv numeral_2_eq_2)
  with assms(2) False show ?thesis
    by (auto simp: flag_of_def FormatOpt_def parse_step_def)
qed
lemma flags_taken:
  assumes "well_named opt" and "takes_value opt \<Longrightarrow> hd (opt_names opt) \<notin> set (flags_of (metadata_of opt) vs)"
  shows "process_args gyp_options (flags_of (metadata_of opt) vs @ rest) vals largs =
    process_args gyp_options rest (fold (\<lambda>v. take_option opt (if takes_value opt then v else [])) vs vals) largs"
  using assms(2)
proof (induction vs arbitrary: vals)
  case (Cons v vs)
  have "prefix ''--'' (hd (opt_names opt)) \<or> v \<noteq> []" if "takes_value opt"
    using Cons.prems[OF that] that by (auto simp: flags_of_option flag_of_def FormatOpt_def)
  note step = flag_taken[OF assms(1) this]
  have "hd (opt_names opt) \<notin> set (flags_of (metadata_of opt) vs)" if "takes_value opt"
    using Cons.prems[OF that] by (simp add: flags_of_option)
  from Cons.IH[OF this] show ?case
    by (simp add: flags_of_option step del: process_args.simps)
qed (simp add: flags_of_option)

lemma take_option_other:
  "n \<noteq> attribute_of opt \<Longrightarrow> option_value (take_option opt v vals) n = option_value vals n"
  by (simp add: option_value_def take_option_def dget_default_def dset_def update_conv)

lemma take_option_same:
  "option_value (take_option opt v vals) (attribute_of opt) =
     (case opt_action opt of
        Store \<Rightarrow> OptText v
      | Append \<Rightarrow> OptList (list_value (option_value vals (attribute_of opt)) @ [v])
      | StoreTrue \<Rightarrow> OptBool True
      | StoreFalse \<Rightarrow> OptBool False)"
  by (simp add: option_value_def take_option_def dget_default_def dset_def update_conv list_value_def
      split: option_action.split)

lemma options_taken_other:
  "n \<noteq> attribute_of opt \<Longrightarrow> option_value (fold (\<lambda>v. take_option opt (f v)) vs vals) n = option_value vals n"
  by (induction vs arbitrary: vals) (simp_all add: take_option_other)

lemma options_taken:
  "opt_action opt = Append \<Longrightarrow>
     list_value (option_value (fold (\<lambda>v. take_option opt (f v)) vs vals) (attribute_of opt)) =
     list_value (option_value vals (attribute_of opt)) @ map f vs"
  "opt_action opt \<noteq> Append \<Longrightarrow>
     option_value (fold (\<lambda>v. take_option opt (f v)) vs vals) (attribute_of opt) =
     (if vs = [] then option_value vals (attribute_of opt)
      else case opt_action opt of Store \<Rightarrow> OptText (f (last vs)) | StoreTrue \<Rightarrow> OptBool True | _ \<Rightarrow> OptBool False)"
  by (induction vs arbitrary: vals)
    (simp_all add: take_option_same list_value_def split: option_action.split)

text \<open>All flags of a list of options: each option is given its values, the others stay.\<close>

lemma regenerated_taken:
  assumes "set opts \<subseteq> {opt. well_named opt \<and> regenerable opt}" "distinct (map attribute_of opts)"
    and "rfold (\<lambda>m flags. rbind (regenerate_option realpath environ options m) (\<lambda>fs. Inr (flags @ fs)))
      (map metadata_of opts) acc = Inr flags"
    and "\<forall>opt \<in> set opts. takes_value opt \<longrightarrow> hd (opt_names opt) \<notin> set flags"
  shows "\<exists>fs vals'. flags = acc @ fs \<and> process_args gyp_options fs vals [] = Parsed vals' []
    \<and> (\<forall>n. n \<notin> attribute_of ` set opts \<longrightarrow> option_value vals' n = option_value vals n)
    \<and> (\<forall>opt \<in> set opts. \<exists>vs. given_values realpath environ options (metadata_of opt) = Inr vs
         \<and> option_value vals' (attribute_of opt) =
           option_value (fold (\<lambda>v. take_option opt (if takes_value opt then v else [])) vs vals) (attribute_of opt))"
  using assms
proof (induction opts arbitrary: acc vals)
  case (Cons opt opts)
  let ?m = "metadata_of opt"
  from Cons.prems(3) obtain vs where vs: "given_values realpath environ options ?m = Inr vs"
    and rest: "rfold (\<lambda>m flags. rbind (regenerate_option realpath environ options m) (\<lambda>fs. Inr (flags @ fs)))
      (map metadata_of opts) (acc @ flags_of ?m vs) = Inr flags"
    by (auto simp: regenerate_option_flags rbind_eq_Inr)
  let ?vals = "fold (\<lambda>v. take_option opt (if takes_value opt then v else [])) vs vals"
  have "set opts \<subseteq> {opt. well_named opt \<and> regenerable opt}" "distinct (map attribute_of opts)"
    "\<forall>opt \<in> set opts. takes_value opt \<longrightarrow> hd (opt_names opt) \<notin> set flags"
    using Cons.prems by auto
  from Cons.IH[OF this(1,2) rest this(3), of ?vals] obtain fs vals' where
    f: "flags = (acc @ flags_of ?m vs) @ fs" "process_args gyp_options fs ?vals [] = Parsed vals' []"
    and other: "\<And>n. n \<notin> attribute_of ` set opts \<Longrightarrow> option_value vals' n = option_value ?vals n"
    and each: "\<And>o'. o' \<in> set opts \<Longrightarrow> \<exists>ws. given_values realpath environ options (metadata_of o') = Inr ws
         \<and> option_value vals' (attribute_of o') =
           option_value (fold (\<lambda>v. take_option o' (if takes_value o' then v else [])) ws ?vals) (attribute_of o')"
    by blast
  have "process_args gyp_options (flags_of ?m vs @ fs) vals [] = Parsed vals' []"
    using flags_taken[of opt vs fs vals "[]"] Cons.prems(1,4) f by auto
  moreover have "option_value vals' n = option_value vals n" if "n \<notin> attribute_of ` set (opt # opts)" for n
    using that other[of n] options_taken_other[of n opt] by simp
  moreover have "option_value vals' (attribute_of opt) = option_value ?vals (attribute_of opt)"
    using other[of "attribute_of opt"] Cons.prems(2) by auto
  moreover have shift: "option_value (fold (\<lambda>v. take_option o' (f v)) ws ?vals) (attribute_of o')
      = option_value (fold (\<lambda>v. take_option o' (f v)) ws vals) (attribute_of o')" if "o' \<in> set opts" for o' f ws
  proof -
    have "option_value ?vals (attribute_of o') = option_value vals (attribute_of o')"
      using that Cons.prems(2) by (intro options_taken_other) (auto simp: image_iff)
    then have "option_value (fold (\<lambda>v. take_option o' (f v)) ws a) (attribute_of o')
        = option_value (fold (\<lambda>v. take_option o' (f v)) ws b) (attribute_of o')"
      if "a = ?vals" "b = vals" for a b
      unfolding that
    proof (induction ws rule: rev_induct)
      case (snoc w ws)
      then show ?case by (simp add: take_option_same list_value_def split: option_action.split)
    qed simp
    then show ?thesis by blast
  qed
  moreover have "\<exists>ws. given_values realpath environ options (metadata_of o') = Inr ws
      \<and> option_value vals' (attribute_of o') =
        option_value (fold (\<lambda>v. take_option o' (if takes_value o' then v else [])) ws vals) (attribute_of o')"
    if "o' \<in> set opts" for o'
    using each[OF that] unfolding shift[OF that] .
  ultimately show ?case using vs f(1) by (intro exI[of _ "flags_of ?m vs @ fs"] exI[of _ vals']) auto
qed simp
text \<open>The variables and generator flags that \<open>gyp_main\<close> takes from the environment and the options.\<close>

definition named_values :: "(string \<times> string) list \<Rightarrow> option_values \<Rightarrow> string \<Rightarrow> string
    \<Rightarrow> (string \<times> named_value) list res" where
  "named_values environ options env_name name =
     rbind (if uses_environment options then ShlexEnv environ env_name else Inr []) (\<lambda>env.
       Inr (NameValueListToDict (env @ list_value (option_value options name))))"

definition cmdline_default_variables :: "(string \<times> string) list \<Rightarrow> option_values
    \<Rightarrow> (string \<times> named_value) list res" where
  "cmdline_default_variables environ options = named_values environ options ''GYP_DEFINES'' ''defines''"

definition cmdline_generator_flags :: "(string \<times> string) list \<Rightarrow> option_values
    \<Rightarrow> (string \<times> named_value) list res" where
  "cmdline_generator_flags environ options =
     named_values environ options ''GYP_GENERATOR_FLAGS'' ''generator_flags''"

lemma ignore_environment:
  "process_args gyp_options (''--ignore-environment'' # rest) vals largs =
     process_args gyp_options rest (dset ''use_environment'' (OptBool False) vals) largs"
proof -
  let ?opt = "(plain_option [''--ignore-environment''] ''use_environment'' StoreFalse (OptBool True))\<lparr>opt_regenerate := False\<rparr>"
  have "well_named ?opt" by code_simp
  from flag_taken[OF this, of "[]" rest vals largs] show ?thesis
    by (simp add: flag_of_def takes_value_def take_option_def attribute_of_def plain_option_def del: process_args.simps)
qed

lemma default_starts:
  "list_all (\<lambda>opt. option_value (dset ''use_environment'' (OptBool False) (default_values gyp_options)) (attribute_of opt) =
      opt_default opt \<and> attribute_of opt \<noteq> ''use_environment'' \<and> list_value (opt_default opt) = []
      \<and> text_value (opt_default opt) = [] \<and> opt_default opt \<noteq> OptBool True
      \<and> opt_action opt \<noteq> StoreFalse) (filter regenerable gyp_options)"
  by code_simp

lemma regenerable_options:
  assumes "opt \<in> set (filter regenerable gyp_options)"
  shows "well_named opt" "meta_name (metadata_of opt) = attribute_of opt" "attribute_of opt \<noteq> ''use_environment''"
    "option_value (dset ''use_environment'' (OptBool False) (default_values gyp_options)) (attribute_of opt) = opt_default opt"
    "list_value (opt_default opt) = []" "text_value (opt_default opt) = []" "opt_default opt \<noteq> OptBool True"
    "opt_action opt \<noteq> StoreFalse" "meta_action (metadata_of opt) = opt_action opt"
  using assms gyp_options_named default_starts by (auto simp: list_all_iff metadata_of_def)

text \<open>What the regenerated value of an option is, for each action.\<close>

definition regenerated :: "(string \<Rightarrow> string) \<Rightarrow> (string \<times> string) list \<Rightarrow> option_values \<Rightarrow> option_metadata
    \<Rightarrow> opt_value \<Rightarrow> bool" where
  "regenerated realpath environ options m v \<longleftrightarrow>
     (let predicate = value_predicate realpath options m; given = option_value options (meta_name m) in
      case meta_action m of
        Append \<Rightarrow>
          (\<exists>env. env_values environ options m = Inr env
             \<and> list_value v = remdups (map predicate env) @ map predicate (list_value given))
      | Store \<Rightarrow>
          text_value v =
            (let s = given_text environ options m in if s = [] then [] else predicate s)
      | _ \<Rightarrow> v = OptBool True \<longleftrightarrow> given = OptBool True)"

lemma RegenerateFlags_values:
  assumes perm: "mset opts = mset (filter regenerable gyp_options)"
    and flags: "RegenerateFlags realpath environ options (map metadata_of opts) = Inr flags"
    and full: "\<forall>opt \<in> set opts. takes_value opt \<longrightarrow> hd (opt_names opt) \<notin> set flags"
  shows "\<exists>vals. parse_args gyp_options flags = Parsed vals [] \<and> \<not> uses_environment vals
    \<and> (\<forall>opt \<in> set opts. regenerated realpath environ options (metadata_of opt) (option_value vals (attribute_of opt)))"
proof -
  let ?start = "dset ''use_environment'' (OptBool False) (default_values gyp_options)"
  have same: "set opts = set (filter regenerable gyp_options)" using perm by (metis set_mset_mset)
  have "distinct (map attribute_of (filter regenerable gyp_options))"
    using gyp_options_named by (simp add: distinct_map_filter)
  then have "distinct (map attribute_of opts)" using perm by (metis mset_map mset_eq_imp_distinct_iff)
  moreover have "set opts \<subseteq> {opt. well_named opt \<and> regenerable opt}"
    unfolding same using regenerable_options(1) by auto
  ultimately obtain fs vals where f: "flags = ''--ignore-environment'' # fs"
      "process_args gyp_options fs ?start [] = Parsed vals []"
    and other: "\<And>n. n \<notin> attribute_of ` set opts \<Longrightarrow> option_value vals n = option_value ?start n"
    and each: "\<And>opt. opt \<in> set opts \<Longrightarrow> \<exists>vs. given_values realpath environ options (metadata_of opt) = Inr vs
       \<and> option_value vals (attribute_of opt) =
         option_value (fold (\<lambda>v. take_option opt (if takes_value opt then v else [])) vs ?start) (attribute_of opt)"
    using regenerated_taken[OF _ _ flags[unfolded RegenerateFlags_def] full, of ?start] by auto
  have "parse_args gyp_options flags = Parsed vals []"
    unfolding parse_args_def f(1) ignore_environment by (rule f(2))
  moreover have "\<not> uses_environment vals"
  proof -
    have "''use_environment'' \<notin> attribute_of ` set opts"
    proof
      assume "''use_environment'' \<in> attribute_of ` set opts"
      then obtain opt where "''use_environment'' = attribute_of opt" "opt \<in> set (filter regenerable gyp_options)"
        unfolding same by (rule imageE)
      then show False using regenerable_options(3) by metis
    qed
    from other[OF this] show ?thesis
      by (simp add: uses_environment_def option_value_def dget_default_def dset_def update_conv)
  qed
  moreover have "regenerated realpath environ options (metadata_of opt) (option_value vals (attribute_of opt))"
    if "opt \<in> set opts" for opt
  proof -
    have mem: "opt \<in> set (filter regenerable gyp_options)" using that same by simp
    note o = regenerable_options[OF mem]
    from each[OF that] obtain vs where vs: "given_values realpath environ options (metadata_of opt) = Inr vs"
      and v: "option_value vals (attribute_of opt) =
        option_value (fold (\<lambda>v. take_option opt (if takes_value opt then v else [])) vs ?start) (attribute_of opt)"
      by blast
    show ?thesis
    proof (cases "opt_action opt")
      case Append
      then show ?thesis using vs o
        unfolding v by (auto simp: regenerated_def given_values_def Let_def options_taken(1) takes_value_def rbind_eq_Inr)
    next
      case Store
      then have "takes_value opt" by (simp add: takes_value_def)
      with Store vs o show ?thesis
        unfolding v by (auto simp: regenerated_def given_values_def Let_def options_taken(2) text_value_def)
    next
      case StoreTrue
      with vs o show ?thesis
        unfolding v by (auto simp: regenerated_def given_values_def Let_def options_taken(2) split: if_splits)
    qed (use o in simp)
  qed
  ultimately show ?thesis by blast
qed
lemma named_values_regenerated:
  assumes "opt \<in> set (filter regenerable gyp_options)" "opt_action opt = Append" "\<not> opt_is_path opt"
    and env: "opt_env_name opt = Some n" and name: "attribute_of opt = name"
    and r: "regenerated realpath environ options (metadata_of opt) (option_value vals name)"
    and off: "\<not> uses_environment vals"
  shows "\<exists>d d'. named_values environ options n name = Inr d \<and> named_values environ' vals n name = Inr d'
    \<and> map_of d' = map_of d"
proof -
  note o = regenerable_options[OF assms(1)]
  have p: "value_predicate realpath options (metadata_of opt) = id"
    using assms(3) by (simp add: value_predicate_def metadata_of_def)
  have e: "env_values environ options (metadata_of opt) = (if uses_environment options then ShlexEnv environ n else Inr [])"
    using env by (simp add: env_values_def metadata_of_def)
  from r assms(2) name o(2,9) obtain env where
    v: "env_values environ options (metadata_of opt) = Inr env"
      "list_value (option_value vals name) = remdups env @ list_value (option_value options name)"
    by (auto simp: regenerated_def Let_def p)
  have "map_of (NameValueListToDict (remdups env @ list_value (option_value options name)))
      = map_of (NameValueListToDict (env @ list_value (option_value options name)))"
    by (rule ext) (rule NameValueListToDict_remdups)
  then show ?thesis using v off by (simp add: named_values_def e)
qed

definition example_options :: option_values where
  "example_options =
     (case parse_args gyp_options [''-Da=1'', ''--depth'', ''d'', ''x.gyp''] of Parsed v l \<Rightarrow> v | ParseExit n \<Rightarrow> [])"

lemma example_flags:
  "RegenerateFlags (\<lambda>p. ''/w/'' @ p) [(''GYP_DEFINES'', ''a=0 b=2'')] example_options
     (map metadata_of (filter regenerable gyp_options)) =
   Inr [''--ignore-environment'', ''-Da=0'', ''-Db=2'', ''-Da=1'', ''--depth=.'']"
  by code_simp


text \<open>An option without \<open>dest\<close> is never regenerated, although the parser gives it an attribute; and an
  empty definition takes the argument behind it as its value.\<close>

lemma no_parallel_lost:
  "(case parse_args gyp_options [''--no-parallel''] of
      Parsed v l \<Rightarrow> option_value v ''no_parallel'' = OptBool True
        \<and> RegenerateFlags id [] v (regeneration_metadata gyp_options) = Inr [''--ignore-environment'']
    | ParseExit n \<Rightarrow> False)"
  by code_simp

lemma empty_define_lost:
  "(case parse_args gyp_options [''-D'', '''', ''--check''] of
      Parsed v l \<Rightarrow> option_value v ''defines'' = OptList [[]] \<and> option_value v ''check'' = OptBool True
    | ParseExit n \<Rightarrow> False)
   \<and> (case parse_args gyp_options [''-D'', ''--check''] of
      Parsed v l \<Rightarrow> option_value v ''defines'' = OptList [''--check''] \<and> option_value v ''check'' = OptNone
    | ParseExit n \<Rightarrow> False)"
  by code_simp

end
