(* ===== verification/Gyp_Make_Output.thy ===== *)
theory Gyp_Make_Output
  imports Gyp_Make_Header Gyp_Options Gyp_Common_Graph
begin

text \<open>
  \<open>GenerateOutput\<close> of the make generator (\<open>tools/gyp/pylib/gyp/generator/make.py\<close>) for every flavor
  but \<open>mac\<close>: the root makefile, one makefile per target, and one per build file.  The result is the
  list of files with their texts; the tool that \<open>CopyTool\<close> puts beside them is left out.
\<close>

section \<open>Parameters\<close>

text \<open>\<open>params\<close> with its \<open>options\<close> (the paths among them as fields of their own), and the surroundings of
  the process.  The element that \<open>set.pop\<close> takes in \<open>AllTargets\<close> is \<open>mp_pick\<close>.\<close>

record make_params =
  opt_depth :: string
  opt_toplevel_dir :: string
  opt_generator_output :: string
  opt_suffix :: string
  mp_flavor :: string
  mp_generator_flags :: "(string \<times> named_value) list"
  mp_build_files :: "string list"
  mp_build_files_arg :: "string list"
  mp_gyp_binary :: string
  mp_home_dot_gyp :: string
  mp_environ :: "(string \<times> string) list"
  mp_cwd :: string
  mp_realpath :: "string \<Rightarrow> string"
  mp_pick :: "pyval list \<Rightarrow> pyval list \<Rightarrow> nat"
  mp_options :: option_values
  mp_metadata :: "option_metadata list"

fun named_text :: "named_value \<Rightarrow> string" where
  "named_text (IntValue i) = str_of_int i"
| "named_text (TextValue s) = s"
| "named_text TrueValue = ''True''"

fun named_truthy :: "named_value \<Rightarrow> bool" where
  "named_truthy (IntValue i) = (i \<noteq> 0)"
| "named_truthy (TextValue s) = (s \<noteq> [])"
| "named_truthy TrueValue = True"

definition generator_flag :: "make_params \<Rightarrow> string \<Rightarrow> named_value \<Rightarrow> named_value" where
  "generator_flag p key dflt = dget_default (mp_generator_flags p) key dflt"

definition has_flag :: "make_params \<Rightarrow> string \<Rightarrow> bool" where
  "has_flag p key \<longleftrightarrow> (case dget (mp_generator_flags p) key of None \<Rightarrow> False | Some v \<Rightarrow> named_truthy v)"

definition relative :: "make_params \<Rightarrow> string \<Rightarrow> string \<Rightarrow> string" where
  "relative p path base = RelativePath (mp_realpath p) path base"

section \<open>Where files are written\<close>

definition CalculateMakefilePath :: "make_params \<Rightarrow> string \<Rightarrow> string \<Rightarrow> string \<times> string" where
  "CalculateMakefilePath p build_file base_name =
     (let base_path = relative p (dirname build_file) (opt_depth p);
          output_file =
            (if opt_generator_output p = [] then path_join (opt_depth p) [base_path, base_name]
             else path_join (opt_depth p) [opt_generator_output p, base_path, base_name]) in
      (relative p (dirname build_file) (opt_toplevel_dir p), output_file))"

definition makefile_name :: "make_params \<Rightarrow> string" where
  "makefile_name p = ''Makefile'' @ opt_suffix p"

definition root_makefile_path :: "make_params \<Rightarrow> string" where
  "root_makefile_path p =
     (if opt_generator_output p = [] then path_join (opt_toplevel_dir p) [makefile_name p]
      else path_join (opt_toplevel_dir p) [opt_generator_output p, makefile_name p])"

definition source_dir :: "make_params \<Rightarrow> string" where
  "source_dir p = (if opt_generator_output p = [] then ''.'' else relative p ''.'' (opt_generator_output p))"

definition source_prefix_of :: "make_params \<Rightarrow> string" where
  "source_prefix_of p = (if opt_generator_output p = [] then [] else ''$(srcdir)/'')"

section \<open>The header of the root makefile\<close>

fun default_configuration :: "target_table \<Rightarrow> string list \<Rightarrow> string res" where
  "default_configuration target_dicts [] = Inr ''Default''"
| "default_configuration target_dicts (t # ts) =
     rbind (dlookup target_dicts t) (\<lambda>spec.
     rbind (dlookup spec ''default_configuration'') (\<lambda>c.
       if c \<noteq> PStr ''Default''
       then (if truthy c then Inr (py_str c) else Inr ''Default'')
       else default_configuration target_dicts ts))"

text \<open>The pairs of \<open>make_global_settings\<close>.\<close>

definition setting_pair :: "pyval \<Rightarrow> (string \<times> string) res" where
  "setting_pair v =
     rbind (py_iter v) (\<lambda>l.
       case l of
         [k, x] \<Rightarrow> rbind (as_str ''endswith'' k) (\<lambda>key. rbind (as_str ''startswith'' x) (\<lambda>value. Inr (key, value)))
       | _ \<Rightarrow> Inl (ValueError ''need 2 values to unpack''))"

definition global_settings :: "pydict \<Rightarrow> string \<Rightarrow> pyval res" where
  "global_settings data build_file =
     rbind (rbind (dlookup data build_file) (as_dict ''get'')) (\<lambda>d.
       Inr (dget_default d ''make_global_settings'' (PList [])))"

definition wrapper_key :: "string \<Rightarrow> bool" where
  "wrapper_key key \<longleftrightarrow> sublist ''_wrapper'' (takeWhile (\<lambda>c. c \<noteq> CHR 0x0A) key)"

definition setting_wrappers :: "string \<Rightarrow> (string \<times> string) list \<Rightarrow> (string \<times> string) list" where
  "setting_wrappers flock_command settings =
     fold (\<lambda>(key, value) wrappers.
         if suffix ''_wrapper'' key
         then dset (take (length key - length ''_wrapper'') key) (''$(abspath '' @ value @ '')'') wrappers
         else wrappers)
       settings [(''LINK'', flock_command @ '' $(builddir)/linker.lock'')]"

text \<open>The state of the loop: the wrappers that are left, and the text.\<close>

definition write_setting :: "(string \<times> string) list \<Rightarrow> string \<times> string \<Rightarrow> (string \<times> string) list \<times> string
    \<Rightarrow> ((string \<times> string) list \<times> string) res" where
  "write_setting environ setting st =
     (let (key, value) = setting; (wrappers, text) = st in
      if wrapper_key key then Inr (wrappers, text)
      else
        rbind (list_index value 0) (\<lambda>c.
          (let value = (if c \<noteq> CHR ''$'' then ''$(abspath '' @ value @ '')'' else value);
               (wrappers, value) =
                 (case dget wrappers key of
                    Some w \<Rightarrow> if w \<noteq> [] then (ddel key wrappers, w @ '' '' @ value) else (wrappers, value)
                  | None \<Rightarrow> (wrappers, value)) in
           Inr (wrappers, text @
             (if key \<in> {''CC'', ''CC.host'', ''CXX'', ''CXX.host''} then
                (let env_key = map (\<lambda>c. if c = CHR ''.'' then CHR ''_'' else c) key;
                     value = dget_default environ env_key value in
                 ''ifneq (,$(filter $(origin '' @ key @ ''), undefined default))'' @ line_end
                 @ ''  '' @ key @ '' = '' @ value @ line_end @ ''endif'' @ line_end)
              else key @ '' ?= '' @ value @ line_end)))))"

definition make_global_settings :: "(string \<times> string) list \<Rightarrow> string \<Rightarrow> pyval \<Rightarrow> string res" where
  "make_global_settings environ flock_command settings =
     rbind (rbind (py_iter settings) (rmap setting_pair)) (\<lambda>pairs.
     rbind (rfold (write_setting environ) pairs (setting_wrappers flock_command pairs, [])) (\<lambda>(wrappers, text).
       Inr text))"

definition flavor_params :: "string \<Rightarrow> pydict" where
  "flavor_params flavor =
     (let link = (if flavor = ''android'' then LINK_COMMANDS_ANDROID
                  else if flavor = ''aix'' then LINK_COMMANDS_AIX else LINK_COMMANDS_LINUX);
          (flock, index) =
            (if flavor \<in> {''solaris'', ''aix''} then (''./gyp-flock-tool flock'', 2)
             else if flavor = ''freebsd'' then (''lockf'', 1) else (''flock'', 1)) in
      [(''flock'', PStr flock), (''flock_index'', PInt index), (''link_commands'', PStr link),
       (''extra_commands'', PStr [])])"

text \<open>The flock command of the wrappers is set for \<open>mac\<close> alone.\<close>

definition header_params :: "make_params \<Rightarrow> string \<Rightarrow> string \<Rightarrow> pydict" where
  "header_params p dflt settings =
     (let tool = (\<lambda>vars dflt. PStr (GetEnvironFallback (mp_environ p) vars dflt)) in
      [(''default_target'', PStr (named_text (generator_flag p ''default_target'' (TextValue ''all'')))),
       (''builddir'', PStr (named_text (generator_flag p ''output_dir'' (TextValue ''out'')))),
       (''default_configuration'', PStr dflt),
       (''srcdir'', PStr (source_dir p))]
      @ flavor_params (mp_flavor p)
      @ [(''CC.target'', tool [''CC_target'', ''CC''] ''$(CC)''),
         (''AR.target'', tool [''AR_target'', ''AR''] ''$(AR)''),
         (''CXX.target'', tool [''CXX_target'', ''CXX''] ''$(CXX)''),
         (''LINK.target'', tool [''LINK_target'', ''LINK''] ''$(LINK)''),
         (''CC.host'', tool [''CC_host''] ''gcc''),
         (''AR.host'', tool [''AR_host''] ''ar''),
         (''CXX.host'', tool [''CXX_host''] ''g++''),
         (''LINK.host'', tool [''LINK_host''] ''$(CXX.host)''),
         (''make_global_settings'', PStr settings)])"

definition root_header :: "make_params \<Rightarrow> string list \<Rightarrow> target_table \<Rightarrow> pydict \<Rightarrow> string res" where
  "root_header p target_list target_dicts data =
     rbind (rmap (\<lambda>t. rbind (dlookup target_dicts t) (\<lambda>spec. text_field spec ''toolset'')) target_list) (\<lambda>toolsets.
     rbind (default_configuration target_dicts target_list) (\<lambda>dflt.
     rbind (list_index target_list 0) (\<lambda>first.
     rbind (global_settings data (case BuildFile first of Some f \<Rightarrow> f | None \<Rightarrow> [])) (\<lambda>settings.
     rbind (make_global_settings (mp_environ p) ''flock'' settings) (\<lambda>text.
     rbind (py_format (header_params p dflt text) SHARED_HEADER) (\<lambda>h.
       Inr (h
         @ (if has_flag p ''android_ndk_version''
            then ''# Define LOCAL_PATH for build of Android applications.'' @ line_end
                 @ ''LOCAL_PATH := $(call my-dir)'' @ line_end @ line_end else [])
         @ concat (map (\<lambda>toolset. ''TOOLSET := '' @ toolset @ line_end @ WriteRootHeaderSuffixRules)
             (set_of toolsets)))))))))"
section \<open>One makefile per target\<close>

record output_state =
  os_files :: "(string \<times> string) list"
  os_outputs :: make_outputs
  os_build_files :: "string list"
  os_includes :: "string list"

definition add_once :: "string \<Rightarrow> string list \<Rightarrow> string list" where
  "add_once x xs = (if x \<in> set xs then xs else xs @ [x])"

definition included_path :: "make_params \<Rightarrow> string \<Rightarrow> string \<Rightarrow> string" where
  "included_path p build_file included_file =
     (let relative_include_file = relative p (UnrelativePath included_file build_file) (opt_toplevel_dir p);
          abs_include_file = normpath (path_join (mp_cwd p) [relative_include_file]) in
      if mp_home_dot_gyp p \<noteq> [] \<and> prefix (mp_home_dot_gyp p) abs_include_file
      then abs_include_file else relative_include_file)"

definition qualified_parts :: "string \<Rightarrow> (string \<times> string \<times> string) res" where
  "qualified_parts q =
     (case ParseQualifiedTarget q of
        (Some build_file, target, Some toolset) \<Rightarrow> Inr (build_file, target, toolset)
      | (None, target, toolset) \<Rightarrow> Inl (KeyError ''None'')
      | (Some build_file, target, None) \<Rightarrow> Inl (TypeError ''cannot concatenate str and NoneType objects''))"

definition write_target_file :: "make_params \<Rightarrow> pydict \<Rightarrow> target_table \<Rightarrow> pyval list \<Rightarrow> pyval \<Rightarrow> string
    \<Rightarrow> output_state \<Rightarrow> output_state res" where
  "write_target_file p data target_dicts needed_targets settings qualified_target st =
     rbind (qualified_parts qualified_target) (\<lambda>(build_file, target, toolset).
     rbind (global_settings data build_file) (\<lambda>this_settings.
     rbind (rassert (settings = this_settings) AssertionError) (\<lambda>_.
     rbind (rbind (dlookup data build_file) (as_dict ''__getitem__'')) (\<lambda>build_file_dict.
     rbind (rbind (dlookup build_file_dict ''included_files'') texts) (\<lambda>included_files.
     rbind (dlookup target_dicts qualified_target) (\<lambda>spec.
     rbind (rbind (dlookup spec ''configurations'') (as_dict ''keys'')) (\<lambda>configs.
       (let (base_path, output_file) =
              CalculateMakefilePath p build_file (target @ ''.'' @ toolset @ opt_suffix p @ ''.mk'') in
        rbind (Write (mp_flavor p) (has_flag p ''android_ndk_version'') (source_prefix_of p) qualified_target
                 base_path spec configs (PStr qualified_target \<in> set needed_targets) (os_outputs st))
          (\<lambda>(text, outputs).
          Inr (st\<lparr>os_files := os_files st @ [(output_file, text)],
                  os_outputs := outputs,
                  os_build_files := fold add_once
                    (relative p build_file (opt_toplevel_dir p) # map (included_path p build_file) included_files)
                    (os_build_files st),
                  os_includes := add_once (relative p output_file (dirname (root_makefile_path p)))
                    (os_includes st)\<rparr>))))))))))"

definition needed_targets_of :: "make_params \<Rightarrow> string list \<Rightarrow> target_table \<Rightarrow> pyval list res" where
  "needed_targets_of p target_list target_dicts =
     rbind (rmap (AllTargets (mp_pick p) target_list target_dicts) (mp_build_files p)) (\<lambda>ls. Inr (concat ls))"

definition write_target_files :: "make_params \<Rightarrow> string list \<Rightarrow> target_table \<Rightarrow> pydict \<Rightarrow> pyval list \<Rightarrow> pyval
    \<Rightarrow> output_state res" where
  "write_target_files p target_list target_dicts data needed_targets settings =
     rfold (write_target_file p data target_dicts needed_targets settings) target_list
       \<lparr>os_files = [], os_outputs = \<lparr>target_outputs = [], target_link_deps = []\<rparr>, os_build_files = [],
        os_includes = []\<rparr>"

section \<open>The other files\<close>

definition sub_makefile :: "make_params \<Rightarrow> string list \<Rightarrow> target_table \<Rightarrow> pyval list \<Rightarrow> string
    \<Rightarrow> (string \<times> string) list res" where
  "sub_makefile p target_list target_dicts needed_targets file =
     (let build_file = path_join (relative p (opt_depth p) (mp_cwd p)) [file];
          members = filter (\<lambda>t. prefix build_file t \<and> PStr t \<in> set needed_targets) target_list in
      rbind (rmap (\<lambda>t. rbind (dlookup target_dicts t) (\<lambda>spec. text_field spec ''target_name'')) members) (\<lambda>gyp_targets.
        if gyp_targets = [] then Inr []
        else
          case generator_flag p ''output_dir'' (TextValue ''out'') of
            TextValue builddir_name \<Rightarrow>
              (let (base_path, output_file) =
                     CalculateMakefilePath p build_file (fst (splitext (basename build_file)) @ ''.Makefile'');
                   makefile_rel_path = relative p (dirname (root_makefile_path p)) (dirname output_file) in
               Inr [(output_file, WriteSubMake output_file makefile_rel_path gyp_targets builddir_name)])
          | _ \<Rightarrow> Inl (AttributeError ''object has no attribute startswith'')))"

definition include_lines :: "string \<Rightarrow> string" where
  "include_lines include_file = text_lines
     [''ifeq ($(strip $(foreach prefix,$(NO_LOAD),'' @ [CHR 0x5C],
      ''    $(findstring $(join ^,$(prefix)),'' @ [CHR 0x5C],
      ''                 $(join ^,'' @ include_file @ '')))),)'',
      ''  include '' @ include_file,
      ''endif'']"

definition WriteAutoRegenerationRule :: "make_params \<Rightarrow> string list \<Rightarrow> string res" where
  "WriteAutoRegenerationRule p build_files =
     rbind (RegenerateFlags (mp_realpath p) (mp_environ p) (mp_options p) (mp_metadata p)) (\<lambda>flags.
       (let build_files_args = map (\<lambda>f. relative p f (opt_toplevel_dir p)) (mp_build_files_arg p);
            fixed = FixIfRelativePath (mp_realpath p) (mp_gyp_binary p) (opt_toplevel_dir p);
            gyp_binary = (if prefix ''/'' fixed then fixed else path_join ''.'' [fixed]) in
        Inr (text_lines
          [''quiet_cmd_regen_makefile = ACTION Regenerating $@'',
           ''cmd_regen_makefile = cd $(srcdir); ''
             @ EncodePOSIXShellList (map PStr ([gyp_binary, ''-fmake''] @ flags @ build_files_args)),
           makefile_name p @ '': '' @ join_str '' '' (map (Sourceify (source_prefix_of p)) build_files),
           [CHR 0x09] @ ''$(call do_cmd,regen_makefile)'',
           []])))"

section \<open>GenerateOutput\<close>

definition GenerateOutput :: "make_params \<Rightarrow> string list \<Rightarrow> target_table \<Rightarrow> pydict \<Rightarrow> (string \<times> string) list res" where
  "GenerateOutput p target_list target_dicts data =
     rbind (root_header p target_list target_dicts data) (\<lambda>head.
     rbind (list_index target_list 0) (\<lambda>first.
     rbind (global_settings data (case BuildFile first of Some f \<Rightarrow> f | None \<Rightarrow> [])) (\<lambda>settings.
     rbind (needed_targets_of p target_list target_dicts) (\<lambda>needed_targets.
     rbind (write_target_files p target_list target_dicts data needed_targets settings) (\<lambda>st.
     rbind (rmap (sub_makefile p target_list target_dicts needed_targets) (os_build_files st)) (\<lambda>subs.
     rbind (if \<not> has_flag p ''standalone'' \<and> named_truthy (generator_flag p ''auto_regeneration'' TrueValue)
            then WriteAutoRegenerationRule p (os_build_files st) else Inr []) (\<lambda>regeneration.
       Inr (os_files st @ concat subs @
         [(root_makefile_path p,
           head @ line_end @ concat (map include_lines (sort (os_includes st))) @ line_end @ regeneration
           @ SHARED_FOOTER)]))))))))"

end
