(* ===== verification/Gyp_Make_Rules.thy ===== *)
theory Gyp_Make_Rules
  imports Gyp_Make_Output
begin

text \<open>
  What make reads from the files of the make generator: the rules of \<open>WriteMakeRule\<close>.
\<close>

section \<open>Names in a rule\<close>

text \<open>How make splits names: at spaces that no backslash precedes (\<open>w\<close> is the name read so far).\<close>

fun make_words :: "string \<Rightarrow> string \<Rightarrow> string list" where
  "make_words w [] = (if w = [] then [] else [w])"
| "make_words w (c # s) =
     (if c = CHR 0x5C then
        (case s of
           [] \<Rightarrow> [w @ [c]]
         | d # s' \<Rightarrow> if d = CHR '' '' then make_words (w @ [d]) s' else make_words (w @ [c]) s)
      else if c = CHR '' '' then (if w = [] then make_words [] s else w # make_words [] s)
      else make_words (w @ [c]) s)"

definition rule_name :: "string \<Rightarrow> bool" where
  "rule_name n \<longleftrightarrow> n \<noteq> [] \<and> set n \<inter> {CHR '':'', CHR ''='', CHR 0x5C, CHR ''#'', CHR ''|'', CHR '';'', CHR 0x09, CHR 0x0A} = {}"

lemma quoted_name: "QuoteSpaces n backslash_space = concat (map (\<lambda>c. if c = CHR '' '' then backslash_space else [c]) n)"
  by (simp add: QuoteSpaces_def replace_char)

lemma quoted_name_ne: "n \<noteq> [] \<Longrightarrow> QuoteSpaces n backslash_space \<noteq> []"
  unfolding quoted_name by (cases n) (simp_all add: backslash_space_def)

lemma make_words_name:
  assumes "CHR 0x5C \<notin> set n"
  shows "make_words w (QuoteSpaces n backslash_space @ s) = make_words (w @ n) s"
  using assms unfolding quoted_name
  by (induction n arbitrary: w) (auto simp: backslash_space_def)

definition quoted_names :: "string list \<Rightarrow> string" where
  "quoted_names ns = join_str '' '' (map (\<lambda>n. QuoteSpaces n backslash_space) ns)"

lemma quoted_names_Nil: "quoted_names [] = []"
  by (simp add: quoted_names_def)

lemma quoted_names_Cons:
  "quoted_names (n # ns) = QuoteSpaces n backslash_space @ (if ns = [] then [] else CHR '' '' # quoted_names ns)"
  by (cases ns) (simp_all add: quoted_names_def)

lemma make_words_list:
  assumes "\<And>n. n \<in> set ns \<Longrightarrow> n \<noteq> [] \<and> CHR 0x5C \<notin> set n"
  shows "make_words [] (quoted_names ns @ CHR '' '' # s) = ns @ make_words [] s" "make_words [] (quoted_names ns) = ns"
  using assms
proof (induction ns)
  case (Cons n ns)
  {
    case 1
    then have n: "n \<noteq> []" "CHR 0x5C \<notin> set n" by auto
    from 1 Cons.IH(1) have "make_words [] (quoted_names ns @ CHR '' '' # s) = ns @ make_words [] s" by simp
    with n show ?case by (cases "ns = []") (simp_all add: quoted_names_Cons quoted_names_Nil make_words_name)
  next
    case 2
    then have n: "n \<noteq> []" "CHR 0x5C \<notin> set n" by auto
    from 2 Cons.IH(2) have "make_words [] (quoted_names ns) = ns" by simp
    with n make_words_name[OF n(2), of "[]" "[]"] show ?case by (simp add: quoted_names_Cons make_words_name)
  }
qed (simp_all add: quoted_names_def)

section \<open>Rules\<close>

text \<open>A line of a makefile as a rule: targets, prerequisites, and prerequisites that only have to be
  built before (behind \<open>|\<close>).  Comments, recipe lines and assignments, also those of a variable to a
  target, are no rules; a recipe on the same line (behind \<open>;\<close>) is not read.  Names are read as they are
  spelled: variables in them are not expanded.\<close>

definition cut_colon :: "string \<Rightarrow> (string \<times> string) option" where
  "cut_colon l =
     (if CHR '':'' \<in> set l
      then Some (takeWhile (\<lambda>c. c \<noteq> CHR '':'') l, tl (dropWhile (\<lambda>c. c \<noteq> CHR '':'') l)) else None)"

definition read_rule :: "string \<Rightarrow> (string list \<times> string list \<times> string list) option" where
  "read_rule l =
     (if l = [] \<or> hd l \<in> {CHR 0x09, CHR ''#''} \<or> CHR ''='' \<in> set l then None
      else case cut_colon l of
        None \<Rightarrow> None
      | Some (a, b) \<Rightarrow>
          (let ws = takeWhile (\<lambda>w. w \<noteq> '';'') (make_words [] b) in
                Some (make_words [] a, takeWhile (\<lambda>w. w \<noteq> ''|'') ws, tl (dropWhile (\<lambda>w. w \<noteq> ''|'') ws))))"

lemma cut_colon_at: "CHR '':'' \<notin> set a \<Longrightarrow> cut_colon (a @ CHR '':'' # b) = Some (a, b)"
  by (induction a) (auto simp: cut_colon_def split: if_splits)

lemma set_quoted_names: "set (quoted_names ns) \<subseteq> \<Union> (set ` set ns) \<union> {CHR '' '', CHR 0x5C}"
proof (induction ns)
  case (Cons n ns)
  have "set (QuoteSpaces n backslash_space) \<subseteq> set n \<union> {CHR '' '', CHR 0x5C}"
    unfolding quoted_name by (auto simp: backslash_space_def split: if_splits)
  with Cons show ?case by (auto simp: quoted_names_Cons)
qed (simp add: quoted_names_def)

lemma rule_names_chars:
  assumes "\<forall>n \<in> set ns. rule_name n"
  shows "CHR '':'' \<notin> set (quoted_names ns) \<and> CHR ''='' \<notin> set (quoted_names ns)" "\<And>n. n \<in> set ns \<Longrightarrow> n \<noteq> [] \<and> CHR 0x5C \<notin> set n"
    "\<And>n. n \<in> set ns \<Longrightarrow> n \<noteq> '';'' \<and> n \<noteq> ''|''"
    "ns \<noteq> [] \<Longrightarrow> quoted_names ns \<noteq> [] \<and> hd (quoted_names ns) \<notin> {CHR 0x09, CHR ''#''}"
proof -
  show "CHR '':'' \<notin> set (quoted_names ns) \<and> CHR ''='' \<notin> set (quoted_names ns)"
    using assms set_quoted_names[of ns] by (auto simp: rule_name_def)
  show "\<And>n. n \<in> set ns \<Longrightarrow> n \<noteq> [] \<and> CHR 0x5C \<notin> set n" "\<And>n. n \<in> set ns \<Longrightarrow> n \<noteq> '';'' \<and> n \<noteq> ''|''"
    using assms by (auto simp: rule_name_def)
  show "quoted_names ns \<noteq> [] \<and> hd (quoted_names ns) \<notin> {CHR 0x09, CHR ''#''}" if "ns \<noteq> []"
  proof -
    obtain n ms where ns: "ns = n # ms" using \<open>ns \<noteq> []\<close> by (cases ns) auto
    with assms have "n \<noteq> []" by (auto simp: rule_name_def)
    then have ne: "quoted_names ns \<noteq> []"
      using quoted_name_ne by (simp add: ns quoted_names_Cons)
    then have "hd (quoted_names ns) \<in> \<Union> (set ` set ns) \<union> {CHR '' '', CHR 0x5C}"
      using set_quoted_names[of ns] by (meson hd_in_set subsetD)
    with assms ne show ?thesis by (auto simp: rule_name_def)
  qed
qed

lemma read_rule_line:
  assumes "\<forall>n \<in> set ts. rule_name n" "ts \<noteq> []" "CHR ''='' \<notin> set b"
  shows "read_rule (quoted_names ts @ CHR '':'' # b) =
    (let ws = takeWhile (\<lambda>w. w \<noteq> '';'') (make_words [] b) in
     Some (ts, takeWhile (\<lambda>w. w \<noteq> ''|'') ws, tl (dropWhile (\<lambda>w. w \<noteq> ''|'') ws)))"
  using rule_names_chars[OF assms(1)] assms(2,3)
  by (simp add: read_rule_def cut_colon_at make_words_list(2) hd_append Let_def)

lemma plain_words:
  assumes "\<forall>n \<in> set ps. rule_name n"
  shows "takeWhile (\<lambda>w. w \<noteq> '';'') (ps @ ws) = ps @ takeWhile (\<lambda>w. w \<noteq> '';'') ws"
    "takeWhile (\<lambda>w. w \<noteq> ''|'') (ps @ ws) = ps @ takeWhile (\<lambda>w. w \<noteq> ''|'') ws"
    "dropWhile (\<lambda>w. w \<noteq> ''|'') (ps @ ws) = dropWhile (\<lambda>w. w \<noteq> ''|'') ws"
    "takeWhile (\<lambda>w. w \<noteq> '';'') ps = ps" "takeWhile (\<lambda>w. w \<noteq> ''|'') ps = ps" "dropWhile (\<lambda>w. w \<noteq> ''|'') ps = []"
  using rule_names_chars(3)[OF assms]
  by (simp_all add: takeWhile_append2 dropWhile_append2 takeWhile_eq_all_conv dropWhile_eq_Nil_conv)

lemma read_plain_rule:
  assumes "\<forall>n \<in> set ts. rule_name n" "ts \<noteq> []" "\<forall>n \<in> set ps. rule_name n"
  shows "read_rule (quoted_names ts @ '': '' @ quoted_names ps) = Some (ts, ps, [])"
    "read_rule (quoted_names ts @ '': '' @ quoted_names ps @ '' FORCE_DO_CMD'') = Some (ts, ps @ [''FORCE_DO_CMD''], [])"
    "read_rule (quoted_names ts @ '': | '' @ quoted_names ps) = Some (ts, [], ps)"
    "read_rule (quoted_names ts @ '': | '' @ quoted_names ps @ '' FORCE_DO_CMD'') = Some (ts, [], ps @ [''FORCE_DO_CMD''])"
    "read_rule (quoted_names ts @ '': ;'') = Some (ts, [], [])"
proof -
  note line = read_rule_line[OF assms(1,2)]
  note ps = rule_names_chars[OF assms(3)]
  have force: "make_words [] (quoted_names ps @ '' FORCE_DO_CMD'') = ps @ [''FORCE_DO_CMD'']"
    using make_words_list(1)[of ps "''FORCE_DO_CMD''"] ps(2) by simp
  have words: "make_words [] (quoted_names ps) = ps" using make_words_list(2)[of ps] ps(2) by simp
  note w = plain_words[OF assms(3)] Let_def
  show "read_rule (quoted_names ts @ '': '' @ quoted_names ps) = Some (ts, ps, [])"
    using line[of "'' '' @ quoted_names ps"] ps(1) by (simp add: words w)
  show "read_rule (quoted_names ts @ '': '' @ quoted_names ps @ '' FORCE_DO_CMD'') = Some (ts, ps @ [''FORCE_DO_CMD''], [])"
    using line[of "'' '' @ quoted_names ps @ '' FORCE_DO_CMD''"] ps(1)
    by (simp add: force w)
  show "read_rule (quoted_names ts @ '': | '' @ quoted_names ps) = Some (ts, [], ps)"
    using line[of "'' | '' @ quoted_names ps"] ps(1) by (simp add: words w)
  show "read_rule (quoted_names ts @ '': | '' @ quoted_names ps @ '' FORCE_DO_CMD'') = Some (ts, [], ps @ [''FORCE_DO_CMD''])"
    using line[of "'' | '' @ quoted_names ps @ '' FORCE_DO_CMD''"] ps(1)
    by (simp add: force w)
  show "read_rule (quoted_names ts @ '': ;'') = Some (ts, [], [])"
    using line[of "'' ;''"] by simp
qed

lemma rule_lines_quoted:
  assumes "rule_lines (o1 # os) ins actions comment order_only force phony = Inr ls"
  shows "ls = (if comment \<noteq> [] then [''# '' @ comment] else [])
      @ (if phony then [''.PHONY: '' @ quoted_names (o1 # os)] else [])
      @ (if actions \<noteq> [] then [quoted_names [o1] @ '': TOOLSET := $(TOOLSET)''] else [])
      @ [(if order_only then quoted_names (o1 # os) else quoted_names [o1]) @ '': ''
         @ (if order_only then ''| '' else []) @ quoted_names ins @ (if force then '' FORCE_DO_CMD'' else [])]
      @ map ((#) (CHR 0x09)) actions
      @ (if \<not> order_only \<and> os \<noteq> []
         then [quoted_names os @ '': '' @ quoted_names [o1], quoted_names os @ '': ;''] else []) @ [[]]"
proof -
  have idx: "list_index (map (\<lambda>o'. QuoteSpaces o' backslash_space) (o1 # os)) 0 = Inr (quoted_names [o1])"
    by (simp add: list_index_def quoted_names_def)
  have rest: "join_str '' '' (tl (map (\<lambda>o'. QuoteSpaces o' backslash_space) (o1 # os))) = quoted_names os"
    "join_str '' '' (map (\<lambda>o'. QuoteSpaces o' backslash_space) ns) = quoted_names ns" for ns
    by (simp_all add: quoted_names_def)
  from assms show ?thesis
    unfolding rule_lines_def Let_def rest idx length_map by (auto split: if_splits)
qed

lemma map_filter_append:
  "List.map_filter f (xs @ ys) = List.map_filter f xs @ List.map_filter f ys"
  by (simp add: List.map_filter_def)

lemma recipes_no_rules: "List.map_filter read_rule (map ((#) (CHR 0x09)) actions) = []"
  by (induction actions) (simp_all add: map_filter_simps read_rule_def)

text \<open>C22.  The lines of a rule are read as the rule that was asked for, when its names hold no colon, no
  equals sign and none of the other characters that make takes apart (spaces they may hold).  Of several
  outputs only the first gets the inputs and the recipe; the others depend on the first, so that the
  recipe runs once.  What forces a rebuild stands with the inputs, behind the bar only in a rule that is
  order-only as a whole.\<close>

theorem rule_lines_read:
  assumes "rule_lines outs ins actions comment order_only force phony = Inr ls"
    and "\<forall>n \<in> set outs. rule_name n" "\<forall>n \<in> set ins. rule_name n" "outs \<noteq> []"
  shows "List.map_filter read_rule ls =
      (if phony then [([''.PHONY''], outs, [])] else [])
      @ (let needs = ins @ (if force then [''FORCE_DO_CMD''] else []) in
         if order_only then [(outs, [], needs)]
         else [([hd outs], needs, [])]
           @ (if 1 < length outs then [(tl outs, [hd outs], []), (tl outs, [], [])] else []))"
proof -
  obtain o1 os where outs: "outs = o1 # os" using assms(4) by (cases outs) auto
  with assms(2) have names: "\<forall>n \<in> set [o1]. rule_name n" "\<forall>n \<in> set os. rule_name n" by auto
  have no_rule: "read_rule [] = None" "read_rule (''# '' @ comment) = None"
    by (simp_all add: read_rule_def)
  have variable: "read_rule (quoted_names [o1] @ '': TOOLSET := $(TOOLSET)'') = None"
    by (simp add: read_rule_def)
  have phony_line: "read_rule (''.PHONY: '' @ quoted_names outs) = Some ([''.PHONY''], outs, [])"
    using read_plain_rule(1)[of "[''.PHONY'']" outs] assms(2) by (simp add: rule_name_def quoted_names_def QuoteSpaces_def)
  have line: "read_rule ((if order_only then quoted_names outs else quoted_names [o1]) @ '': ''
      @ (if order_only then ''| '' else []) @ quoted_names ins @ (if force then '' FORCE_DO_CMD'' else []))
    = Some (let needs = ins @ (if force then [''FORCE_DO_CMD''] else []) in
        if order_only then (outs, [], needs) else ([o1], needs, []))"
    using read_plain_rule[OF assms(2,4,3)] read_plain_rule[OF names(1) _ assms(3)] by simp
  have others: "read_rule (quoted_names os @ '': '' @ quoted_names [o1]) = Some (os, [o1], [])"
      "read_rule (quoted_names os @ '': ;'') = Some (os, [], [])" if "os \<noteq> []"
    using read_plain_rule(1)[OF names(2) that names(1)] read_plain_rule(5)[OF names(2) that, of "[]"] by simp_all
  have optional: "List.map_filter read_rule (if c then [l] else []) = (if c then (case read_rule l of None \<Rightarrow> [] | Some r \<Rightarrow> [r]) else [])"
    "List.map_filter read_rule (if c then [l, l'] else []) =
      (if c then List.map_filter read_rule [l] @ List.map_filter read_rule [l'] else [])" for c l l'
    by (simp_all add: map_filter_simps split: option.split)
  show ?thesis
    unfolding rule_lines_quoted[OF assms(1)[unfolded outs]] map_filter_append optional recipes_no_rules map_filter_simps
      line[unfolded outs] no_rule variable phony_line[unfolded outs] option.case
    using others by (simp add: outs Let_def)
qed

theorem rule_lines_read_witness:
  "\<exists>ls. rule_lines [''a b'', ''c''] [''d''] [''touch $@''] ''Make it.'' False True False = Inr ls
    \<and> List.map_filter read_rule ls =
        [([''a b''], [''d'', ''FORCE_DO_CMD''], []), ([''c''], [''a b''], []), ([''c''], [], [])]"
proof -
  obtain ls where ls: "rule_lines [''a b'', ''c''] [''d''] [''touch $@''] ''Make it.'' False True False = Inr ls"
    by (simp add: rule_lines_def list_index_def)
  have names: "\<forall>n \<in> set [''a b'', ''c'']. rule_name n" "\<forall>n \<in> set [''d'']. rule_name n"
    by (simp_all add: rule_name_def)
  from rule_lines_read[OF ls names] ls show ?thesis by simp
qed

end
