(* ===== verification/Gyp_Make_Order.thy ===== *)
theory Gyp_Make_Order
  imports Gyp_Make_Rules
begin

text \<open>
  The makefile of a target as it is written (\<open>tools/gyp/pylib/gyp/generator/make.py\<close>): every step of
  \<open>MakefileWriter.Write\<close> appends whole lines, so that a line that one step writes stands in the file.
  From this follows what the rules of a makefile wait for, and the order of the files of all targets.
\<close>

section \<open>Whole lines are appended\<close>

definition whole_lines :: "string \<Rightarrow> bool" where
  "whole_lines t \<longleftrightarrow> t \<noteq> [] \<and> List.last t = CHR 0x0A"

text \<open>What a target links besides libraries: its objects, and object files among its sources.\<close>

definition own_inputs :: "string set" where
  "own_inputs = insert ''$(OBJS)'' (Collect Linkable)"

definition writes_on :: "makefile_writer \<Rightarrow> makefile_writer \<Rightarrow> bool" where
  "writes_on w w' \<longleftrightarrow> self_type w' = self_type w \<and> self_output w' = self_output w
     \<and> prefix (fp w) (fp w') \<and> prefix (extra_outputs w) (extra_outputs w')
     \<and> (whole_lines (fp w) \<longrightarrow> whole_lines (fp w'))
     \<and> (set (extra_link_deps w) \<subseteq> own_inputs \<longrightarrow> set (extra_link_deps w') \<subseteq> own_inputs)"

lemma writes_on_refl [simp]: "writes_on w w"
  by (simp add: writes_on_def)

lemma writes_on_trans [trans]: "writes_on w u \<Longrightarrow> writes_on u v \<Longrightarrow> writes_on w v"
  unfolding writes_on_def by (auto intro: prefix_order.trans)

text \<open>A result reached from a writer, alone or beside another value.\<close>

definition grown :: "makefile_writer \<Rightarrow> makefile_writer res \<Rightarrow> bool" where
  "grown w r \<longleftrightarrow> (\<forall>w'. r = Inr w' \<longrightarrow> writes_on w w')"

definition grown_with :: "makefile_writer \<Rightarrow> ('a \<times> makefile_writer) res \<Rightarrow> bool" where
  "grown_with w r \<longleftrightarrow> (\<forall>x w'. r = Inr (x, w') \<longrightarrow> writes_on w w')"

named_theorems grows

lemma grown_trans: "writes_on w u \<Longrightarrow> grown u r \<Longrightarrow> grown w r"
  unfolding grown_def by (blast intro: writes_on_trans)

lemma grown_with_trans: "writes_on w u \<Longrightarrow> grown_with u r \<Longrightarrow> grown_with w r"
  unfolding grown_with_def by (blast intro: writes_on_trans)

lemma grown_bind [grows]: "(\<And>x. grown w (f x)) \<Longrightarrow> grown w (rbind r f)"
  by (auto simp: grown_def rbind_eq_Inr)

lemma grown_with_bind [grows]: "(\<And>x. grown_with w (f x)) \<Longrightarrow> grown_with w (rbind r f)"
  by (auto simp: grown_with_def rbind_eq_Inr)

lemma grown_after: "grown w r \<Longrightarrow> (\<And>u. grown u (f u)) \<Longrightarrow> grown w (rbind r f)"
  unfolding grown_def rbind_eq_Inr by (blast intro: writes_on_trans)

lemma grown_with_after: "grown w r \<Longrightarrow> (\<And>u. grown_with u (f u)) \<Longrightarrow> grown_with w (rbind r f)"
  unfolding grown_def grown_with_def rbind_eq_Inr by (blast intro: writes_on_trans)

lemma grown_after_pair: "grown_with w r \<Longrightarrow> (\<And>x u. grown u (f (x, u))) \<Longrightarrow> grown w (rbind r f)"
  unfolding grown_def grown_with_def rbind_eq_Inr by (force intro: writes_on_trans)

lemma grown_with_after_pair: "grown_with w r \<Longrightarrow> (\<And>x u. grown_with u (f (x, u))) \<Longrightarrow> grown_with w (rbind r f)"
  unfolding grown_with_def rbind_eq_Inr by (force intro: writes_on_trans)

lemma grown_Inr [simp]: "grown w (Inr u) \<longleftrightarrow> writes_on w u" "grown_with w (Inr (x, u)) \<longleftrightarrow> writes_on w u"
    "grown w (Inl e)" "grown_with w (Inl e)"
  by (simp_all add: grown_def grown_with_def)

lemma grown_if [grows]: "(c \<Longrightarrow> grown w a) \<Longrightarrow> (\<not> c \<Longrightarrow> grown w b) \<Longrightarrow> grown w (if c then a else b)"
  by simp

text \<open>Steps, and sequences of them.\<close>

abbreviation grows_by :: "mk_step \<Rightarrow> bool" where
  "grows_by m \<equiv> (\<forall>w. grown w (m w))"

lemma run_steps_grown:
  assumes "\<forall>m \<in> set ms. grows_by m"
  shows "grown w (run_steps ms w)"
  using assms unfolding run_steps_def by (induction ms arbitrary: w) (auto intro: grown_after)

lemma run_steps_append: "run_steps (xs @ ys) w = rbind (run_steps xs w) (run_steps ys)"
  by (simp add: run_steps_def rfold_append rbind_def fun_eq_iff split: sum.split)

lemma run_steps_Cons: "run_steps (m # ms) w = rbind (m w) (run_steps ms)"
  by (simp add: run_steps_def)

lemma run_steps_Nil_grown [grows]: "grown w (run_steps [] w)"
  by (simp add: run_steps_def)

lemma run_steps_Cons_grown [grows]: "grown w (m w) \<Longrightarrow> (\<And>u. grown u (run_steps ms u)) \<Longrightarrow> grown w (run_steps (m # ms) w)"
  unfolding run_steps_Cons by (rule grown_after)

lemma grown_if_step [grows]:
  "(c \<Longrightarrow> grown w (m w)) \<Longrightarrow> (\<not> c \<Longrightarrow> grown w (n w)) \<Longrightarrow> grown w ((if c then m else n) w)"
  by simp

lemma skip_grown [simp]: "grown w (skip w)"
  by (simp add: skip_def)

lemma fp_write_grown: "whole_lines t \<Longrightarrow> grown w (fp_write t w)"
  by (simp add: fp_write_def writes_on_def whole_lines_def)

lemma WriteLn_grown [simp]: "grown w (WriteLn t w)"
  unfolding WriteLn_def by (rule fp_write_grown) (simp add: whole_lines_def)

lemma WriteList_grown [simp]: "grown w (WriteList xs v p q w)" "grown w (plain_list xs v w)"
  unfolding plain_list_def WriteList_def Let_def
  by (rule fp_write_grown, simp add: whole_lines_def line_end_def)+

lemma add_grown [simp]:
  "grown w (add_outputs os w)" "grown w (add_sources os w)"
  "set os \<subseteq> own_inputs \<Longrightarrow> grown w (add_link_deps os w)"
  by (simp_all add: add_outputs_def add_sources_def add_link_deps_def writes_on_def)

lemma WriteMakeRule_grown [simp]: "grown w (WriteMakeRule os ins as c order_only force phony w)"
  "grown w (order_rule os ins c w)" "grown w (phony_rule os ins c w)"
  unfolding WriteMakeRule_def order_rule_def phony_rule_def by (intro grown_bind run_steps_grown; auto)+

lemma WriteDoCmd_grown [simp]: "grown w (WriteDoCmd os ins cmd c postbuilds w)"
  unfolding WriteDoCmd_def by (intro grown_bind run_steps_grown) auto

lemma WriteAction_grown [simp]: "grown w (WriteAction a w)"
  unfolding WriteAction_def Let_def by (intro grown_bind run_steps_grown) auto

lemma WriteActions_grown [simp]: "grown w (WriteActions v w)"
  unfolding WriteActions_def by (intro grown_bind run_steps_grown) auto

lemma WriteRuleSource_grown: "grown_with w (WriteRuleSource r n k s w)"
  unfolding WriteRuleSource_def Let_def case_prod_beta
  by (intro grown_with_bind grown_with_after run_steps_grown) auto

lemma WriteRuleSources_grown: "grown_with w (WriteRuleSources r n k os ss w)"
proof (induction ss arbitrary: k os w)
  case (Cons s ss)
  show ?case unfolding WriteRuleSources.simps
    by (rule grown_with_after_pair[OF WriteRuleSource_grown]) (simp add: Cons)
qed simp

lemma WriteRule_grown [simp]: "grown w (WriteRule r w)"
  unfolding WriteRule_def Let_def
  by (rule grown_bind, rule grown_bind, rule grown_bind, rule grown_after[OF WriteLn_grown],
      rule grown_after_pair[OF WriteRuleSources_grown], simp, rule run_steps_grown, simp)

lemma WriteRules_grown [simp]: "grown w (WriteRules v w)"
  unfolding WriteRules_def by (intro grown_bind run_steps_grown) auto

lemma WriteCopy_grown: "grown_with w (WriteCopy d f w)"
  unfolding WriteCopy_def Let_def by (intro grown_with_bind grown_with_after[OF WriteDoCmd_grown]) simp

lemma WriteCopyFiles_grown: "grown_with w (WriteCopyFiles d os fs w)"
proof (induction fs arbitrary: os w)
  case (Cons f fs)
  show ?case unfolding WriteCopyFiles.simps
    by (rule grown_with_after_pair[OF WriteCopy_grown]) (simp add: Cons)
qed simp

lemma WriteCopyGroups_grown: "grown_with w (WriteCopyGroups cs os w)"
proof (induction cs arbitrary: os w)
  case (Cons c cs)
  show ?case unfolding WriteCopyGroups.simps
    by (rule grown_with_bind, rule grown_with_bind, rule grown_with_bind,
        rule grown_with_after_pair[OF WriteCopyFiles_grown]) (simp add: Cons)
qed simp

lemma WriteCopies_grown [simp]: "grown w (WriteCopies v w)"
  unfolding WriteCopies_def Let_def
  by (rule grown_bind, rule grown_after[OF WriteLn_grown], rule grown_after_pair[OF WriteCopyGroups_grown],
      simp, rule run_steps_grown, simp)

lemma WriteConfiguration_grown [simp]: "grown w (WriteConfiguration c w)"
  unfolding WriteConfiguration_def Let_def case_prod_beta by (intro grown_bind run_steps_grown) auto

lemma object_flags_grown: "\<forall>m \<in> set object_flags. grows_by m"
  by (simp only: object_flags_def list.set ball_simps WriteLn_grown) simp

lemma WriteSources_grown [simp]: "grown w (WriteSources configs deps sources w)"
  unfolding WriteSources_def Let_def
  by (rule grown_after, rule run_steps_grown, simp, rule grown_bind, rule run_steps_grown)
    (use object_flags_grown in \<open>auto simp: own_inputs_def intro!: add_grown(3) split: if_splits\<close>)

lemma WriteLinkFlags_grown [simp]: "grown w (WriteLinkFlags deps c w)"
  unfolding WriteLinkFlags_def Let_def case_prod_beta by (intro grown_bind) auto

lemma WriteLinkSettings_grown [simp]: "grown w (WriteLinkSettings spec configs deps w)"
  unfolding WriteLinkSettings_def by (intro grown_bind run_steps_grown) auto

lemma write_ld_inputs_grown [simp]: "grown w (write_ld_inputs link_deps w)"
  by (simp add: write_ld_inputs_def)

lemma WriteLinkRule_grown [simp]: "grown w (WriteLinkRule deps link_deps w)"
  unfolding WriteLinkRule_def Let_def by (intro grown_if grown_bind run_steps_grown) auto

lemma WriteAliases_grown [simp]: "grown w (WriteAliases part w)"
  unfolding WriteAliases_def Let_def by (intro grows) simp_all

lemma WriteTarget_grown [simp]: "grown w (WriteTarget spec configs deps link_deps part w)"
  unfolding WriteTarget_def by (intro run_steps_grown) (auto intro!: run_steps_grown)

lemma WriteAndroid_grown [simp]: "grown w (WriteAndroidNdkModuleRule ss link_deps w)"
  unfolding WriteAndroidNdkModuleRule_def by (intro grown_if run_steps_grown) auto

lemma write_suffix_rules_grown [simp]: "grown w (write_suffix_rules ss w)"
  unfolding write_suffix_rules_def Let_def by (intro run_steps_grown) auto

lemma write_section_grown: "(\<And>v. grown w (m v w)) \<Longrightarrow> grown w (write_section spec key m w)"
  by (simp add: write_section_def split: option.split)

lemma write_sources_grown [simp]: "grown w (write_sources spec configs deps w)"
  unfolding write_sources_def Let_def by (intro grown_bind grown_if run_steps_grown) auto

section \<open>Lines of a makefile\<close>

definition has_line :: "string \<Rightarrow> string \<Rightarrow> bool" where
  "has_line l t \<longleftrightarrow> sublist (line_end @ l @ line_end) t"

lemma has_line_on: "has_line l (fp u) \<Longrightarrow> writes_on u v \<Longrightarrow> has_line l (fp v)"
  unfolding has_line_def writes_on_def by (auto simp: prefix_def intro: sublist_append_rightI sublist_order.order_trans)

lemma whole_lines_split: "whole_lines t \<longleftrightarrow> (\<exists>s. t = s @ line_end)"
  by (cases t rule: rev_cases) (auto simp: whole_lines_def line_end_def)

lemma has_line_written:
  "whole_lines t \<Longrightarrow> l \<in> set ls \<Longrightarrow> has_line l (t @ concat (map (\<lambda>l. l @ line_end) ls))"
proof (induction ls arbitrary: t)
  case (Cons x ls)
  show ?case
  proof (cases "l = x")
    case True
    from Cons.prems(1) obtain s where t: "t = s @ line_end" by (auto simp: whole_lines_split)
    have "t @ concat (map (\<lambda>l. l @ line_end) (x # ls)) = s @ (line_end @ l @ line_end) @ concat (map (\<lambda>l. l @ line_end) ls)"
      using True by (simp add: t)
    then show ?thesis unfolding has_line_def by (metis sublist_appendI)
  next
    case False
    have "whole_lines (t @ x @ line_end)" by (simp add: whole_lines_def line_end_def)
    from Cons.IH[OF this] False Cons.prems(2) show ?thesis by simp
  qed
qed simp

lemma run_WriteLn: "run_steps (map WriteLn ls) w = Inr (w\<lparr>fp := fp w @ concat (map (\<lambda>l. l @ line_end) ls)\<rparr>)"
  by (induction ls arbitrary: w) (simp_all add: run_steps_def WriteLn_def fp_write_def line_end_def)

lemma WriteMakeRule_line:
  assumes "WriteMakeRule outs ins actions comment order_only force phony w = Inr w'" "whole_lines (fp w)"
    and "\<And>ls. rule_lines outs ins actions comment order_only force phony = Inr ls \<Longrightarrow> l \<in> set ls"
  shows "has_line l (fp w')"
  using assms by (auto simp: WriteMakeRule_def rbind_eq_Inr run_WriteLn intro: has_line_written)

lemma order_rule_line:
  assumes "order_rule outs ins comment w = Inr w'" "whole_lines (fp w)" "outs \<noteq> []"
  shows "has_line (quoted_names outs @ '': | '' @ quoted_names ins) (fp w')"
proof -
  obtain o1 os where "outs = o1 # os" using assms(3) by (cases outs) auto
  then show ?thesis
    by (intro WriteMakeRule_line[OF assms(1)[unfolded order_rule_def] assms(2)]) (auto dest: rule_lines_quoted)
qed

lemma WriteDoCmd_line:
  assumes "WriteDoCmd [out] ins command comment postbuilds w = Inr w'" "whole_lines (fp w)"
  shows "has_line (quoted_names [out] @ '': '' @ quoted_names ins @ '' FORCE_DO_CMD'') (fp w')"
proof -
  from assms(1) obtain u actions where
    u: "WriteMakeRule [out] ins actions comment False True False w = Inr u"
    and on: "writes_on u w'"
    by (auto simp: WriteDoCmd_def rbind_eq_Inr run_steps_def intro: WriteLn_grown[unfolded grown_def, rule_format])
  have "has_line (quoted_names [out] @ '': '' @ quoted_names ins @ '' FORCE_DO_CMD'') (fp u)"
    by (rule WriteMakeRule_line[OF u assms(2)]) (auto dest: rule_lines_quoted)
  then show ?thesis by (rule has_line_on[OF _ on])
qed

lemma run_steps_step:
  assumes "run_steps ms w = Inr w'" "m \<in> set ms" "\<forall>m \<in> set ms. grows_by m"
  obtains u v where "writes_on w u" "m u = Inr v" "writes_on v w'"
proof -
  from assms(2) obtain xs ys where ms: "ms = xs @ m # ys" by (meson split_list)
  with assms(1) obtain u v where 1: "run_steps xs w = Inr u" "m u = Inr v" "run_steps ys v = Inr w'"
    by (auto simp: run_steps_append run_steps_Cons rbind_eq_Inr)
  from assms(3) have "grown w (run_steps xs w)" "grown v (run_steps ys v)" by (auto simp: ms intro!: run_steps_grown)
  with 1 that show thesis by (simp add: grown_def)
qed

lemma writes_on_whole: "writes_on u v \<Longrightarrow> whole_lines (fp u) \<Longrightarrow> whole_lines (fp v)"
  by (simp add: writes_on_def)

text \<open>The objects wait for the dependencies, in order only.\<close>

lemma write_sources_line:
  assumes "write_sources spec configs deps w = Inr w'" "whole_lines (fp w)"
    and "list_field spec ''sources'' = Inr sources" "sources \<noteq> []" "deps \<noteq> []"
  shows "has_line (''$(OBJS): | '' @ quoted_names deps) (fp w')"
proof -
  have grow: "\<forall>m \<in> set [WriteSources configs deps (sources @ extra_sources w),
      if c then write_suffix_rules (filter Compilable (sources @ extra_sources w)) else skip]. grows_by m" for c
    by simp
  from assms(1,3,4) obtain c where run: "run_steps [WriteSources configs deps (sources @ extra_sources w),
      if c then write_suffix_rules (filter Compilable (sources @ extra_sources w)) else skip] w = Inr w'"
    by (auto simp: write_sources_def Let_def)
  from run_steps_step[OF run _ grow] obtain u v where
    u: "writes_on w u" "WriteSources configs deps (sources @ extra_sources w) u = Inr v" "writes_on v w'" by auto
  let ?ss = "sources @ extra_sources w"
  from u(2) obtain u1 steps where
    u1: "run_steps (map WriteConfiguration (sorted_configs configs)) u = Inr u1"
    and steps: "run_steps steps u1 = Inr v" "\<forall>m \<in> set steps. grows_by m"
      "order_rule [''$(OBJS)''] deps ''Make sure our dependencies are built before any of us.'' \<in> set steps"
    unfolding WriteSources_def Let_def rbind_eq_Inr
    by (elim exE conjE) (rule that, assumption, assumption,
        use object_flags_grown assms(5) in \<open>auto simp: own_inputs_def intro!: add_grown(3) split: if_splits\<close>)
  from run_steps_step[OF steps(1,3,2)] obtain a b where
    a: "writes_on u1 a" "order_rule [''$(OBJS)''] deps ''Make sure our dependencies are built before any of us.'' a = Inr b"
      "writes_on b v" by blast
  have "grown u (run_steps (map WriteConfiguration (sorted_configs configs)) u)" by (rule run_steps_grown) simp
  with u1 have "writes_on u u1" by (simp add: grown_def)
  with assms(2) u(1) a(1) have "whole_lines (fp a)" by (meson writes_on_whole)
  from order_rule_line[OF a(2) this] have "has_line (''$(OBJS): | '' @ quoted_names deps) (fp b)"
    by (simp add: quoted_names_def QuoteSpaces_def)
  with a(3) u(3) show ?thesis by (meson has_line_on)
qed

text \<open>The rule for the output of the target.\<close>

lemma WriteLinkRule_line:
  assumes "WriteLinkRule deps link_deps w = Inr w'" "whole_lines (fp w)"
  shows "has_line (quoted_names [self_output w] @ '': '' @ quoted_names (if self_type w = ''none'' then deps else link_deps)
    @ '' FORCE_DO_CMD'') (fp w')"
proof -
  define line where "line ins = quoted_names [self_output w] @ '': '' @ quoted_names ins @ '' FORCE_DO_CMD''" for ins
  have plain: "has_line (line ins) (fp w')" if "WriteDoCmd [self_output w] ins c [] False w = Inr w'" for ins c
    unfolding line_def using that assms(2) by (rule WriteDoCmd_line)
  have behind: "has_line (line ins) (fp w')"
    if "run_steps [write_ld_inputs link_deps, WriteDoCmd [self_output w] ins c [] False] w = Inr w'" for ins c
  proof -
    from that obtain u where u: "write_ld_inputs link_deps w = Inr u" "WriteDoCmd [self_output w] ins c [] False u = Inr w'"
      by (auto simp: run_steps_def rbind_eq_Inr)
    from u(1) have "whole_lines (fp u)"
      using write_ld_inputs_grown[of w link_deps] writes_on_whole[of w u] assms(2) by (simp add: grown_def)
    with u(2) show ?thesis unfolding line_def by (rule WriteDoCmd_line)
  qed
  have "has_line (line (if self_type w = ''none'' then deps else link_deps)) (fp w')"
    using assms(1) unfolding WriteLinkRule_def Let_def
    by (auto simp: rbind_eq_Inr split: if_splits intro: plain behind)
  then show ?thesis by (simp add: line_def)
qed

lemma WriteTarget_lines:
  assumes "WriteTarget spec configs deps link_deps part w = Inr w'" "whole_lines (fp w)"
  shows "has_line (quoted_names [self_output w] @ '': '' @ quoted_names (if self_type w = ''none'' then deps else link_deps)
      @ '' FORCE_DO_CMD'') (fp w')"
    and "extra_outputs w \<noteq> [] \<Longrightarrow> has_line (quoted_names [self_output w] @ '': | '' @ quoted_names (extra_outputs w)) (fp w')
      \<and> has_line (quoted_names (extra_outputs w) @ '': | '' @ quoted_names deps) (fp w')"
proof -
  let ?special = "[order_rule [self_output w] (extra_outputs w) ''Build our special outputs first.'',
    order_rule (extra_outputs w) deps ''Preserve order dependency of special output on deps.'']"
  let ?steps = "[WriteLn ''### Rules for final target.'',
        if extra_outputs w \<noteq> [] then run_steps ?special else skip,
        if self_type w \<noteq> ''none'' then WriteLinkSettings spec configs deps else skip,
        WriteLinkRule deps link_deps, WriteAliases part]"
  have grow: "\<forall>m \<in> set ?special. grows_by m" "\<forall>m \<in> set ?steps. grows_by m"
    by (simp, auto intro!: run_steps_grown)
  from assms(1) have run: "run_steps ?steps w = Inr w'" by (simp add: WriteTarget_def)
  obtain u v where u: "writes_on w u" "WriteLinkRule deps link_deps u = Inr v" "writes_on v w'"
    using run_steps_step[OF run _ grow(2), of "WriteLinkRule deps link_deps"] by auto
  from u(1) have "self_output u = self_output w" "self_type u = self_type w" by (simp_all add: writes_on_def)
  with WriteLinkRule_line[OF u(2) writes_on_whole[OF u(1) assms(2)]] u(3)
  show "has_line (quoted_names [self_output w] @ '': '' @ quoted_names (if self_type w = ''none'' then deps else link_deps)
      @ '' FORCE_DO_CMD'') (fp w')" using has_line_on by (simp del: has_line_def)
  assume "extra_outputs w \<noteq> []"
  then obtain a b where a: "writes_on w a" "run_steps ?special a = Inr b" "writes_on b w'"
    using run_steps_step[OF run _ grow(2), of "run_steps ?special"] by auto
  have line: "has_line (quoted_names os @ '': | '' @ quoted_names ins) (fp w')"
    if one: "order_rule os ins c \<in> set ?special" "os \<noteq> []" for os ins c
  proof -
    from run_steps_step[OF a(2) one(1) grow(1)]
    obtain x y where x: "writes_on a x" "order_rule os ins c x = Inr y" "writes_on y b" by blast
    from order_rule_line[OF x(2) writes_on_whole[OF x(1) writes_on_whole[OF a(1) assms(2)]] one(2)] x(3) a(3)
    show ?thesis by (meson has_line_on)
  qed
  show "has_line (quoted_names [self_output w] @ '': | '' @ quoted_names (extra_outputs w)) (fp w')
      \<and> has_line (quoted_names (extra_outputs w) @ '': | '' @ quoted_names deps) (fp w')"
    by (intro conjI, rule line[where c = "''Build our special outputs first.''"], simp, simp,
        rule line[where c = "''Preserve order dependency of special output on deps.''"], simp, rule \<open>extra_outputs w \<noteq> []\<close>)
qed

section \<open>Dependencies between targets\<close>

text \<open>What a target provides, from its specification alone: the path that targets depending on it wait
  for, and the library they link, if it is one.\<close>

definition target_writer :: "make_params \<Rightarrow> target_table \<Rightarrow> string \<Rightarrow> (string \<times> makefile_writer) res" where
  "target_writer p target_dicts q =
     rbind (qualified_parts q) (\<lambda>(build_file, target, toolset).
     rbind (dlookup target_dicts q) (\<lambda>spec.
     rbind (new_writer (mp_flavor p) (source_prefix_of p) q
              (fst (CalculateMakefilePath p build_file (target @ ''.'' @ toolset @ opt_suffix p @ ''.mk''))) spec) (\<lambda>w.
       set_output spec w)))"

definition product :: "make_params \<Rightarrow> target_table \<Rightarrow> string \<Rightarrow> (string \<times> string list) res" where
  "product p target_dicts q =
     rbind (target_writer p target_dicts q) (\<lambda>(install_path, w).
       Inr (install_path,
         if self_type w \<in> {''static_library'', ''shared_library''} then [self_output w] else []))"

definition provides :: "make_outputs \<Rightarrow> string \<Rightarrow> string \<times> string list \<Rightarrow> bool" where
  "provides mo q r \<longleftrightarrow> dget (target_outputs mo) q = Some (fst r)
     \<and> (case dget (target_link_deps mo) q of None \<Rightarrow> [] | Some l \<Rightarrow> [l]) = snd r"

lemma Write_products:
  assumes "Write flavor ndk source_pre q base_path spec configs part_of_all mo = Inr (t, mo')"
  shows "\<exists>deps w ip w'. ComputeDeps mo spec = Inr deps \<and> new_writer flavor source_pre q base_path spec = Inr w
    \<and> set_output spec w = Inr (ip, w')
    \<and> mo' = mo\<lparr>target_outputs := dset q ip (target_outputs mo),
         target_link_deps :=
           (if self_type w' \<in> {''static_library'', ''shared_library''}
            then dset q (self_output w') (target_link_deps mo) else target_link_deps mo)\<rparr>"
  using assms unfolding Write_def rbind_eq_Inr
  by (elim exE conjE) (simp add: rbind_eq_Inr case_prod_beta, force)

lemma write_target_file_Write:
  assumes "write_target_file p data target_dicts needed settings q st = Inr st'"
  shows "\<exists>build_file target toolset spec configs part_of_all t.
    qualified_parts q = Inr (build_file, target, toolset) \<and> dlookup target_dicts q = Inr spec
    \<and> Write (mp_flavor p) (has_flag p ''android_ndk_version'') (source_prefix_of p) q
        (fst (CalculateMakefilePath p build_file (target @ ''.'' @ toolset @ opt_suffix p @ ''.mk''))) spec configs
        part_of_all (os_outputs st) = Inr (t, os_outputs st')"
  using assms unfolding write_target_file_def
  by (auto simp add: rbind_eq_Inr Let_def case_prod_beta) blast

lemma write_target_file_provides:
  assumes "write_target_file p data target_dicts needed settings q st = Inr st'"
  shows "dget (target_link_deps (os_outputs st)) q = None \<Longrightarrow>
      \<exists>r. product p target_dicts q = Inr r \<and> provides (os_outputs st') q r"
    and "q' \<noteq> q \<Longrightarrow> dget (target_outputs (os_outputs st')) q' = dget (target_outputs (os_outputs st)) q'
      \<and> dget (target_link_deps (os_outputs st')) q' = dget (target_link_deps (os_outputs st)) q'"
proof -
  from write_target_file_Write[OF assms] obtain build_file target toolset spec configs part_of_all t where
    1: "qualified_parts q = Inr (build_file, target, toolset)" "dlookup target_dicts q = Inr spec" and
    wr: "Write (mp_flavor p) (has_flag p ''android_ndk_version'') (source_prefix_of p) q
        (fst (CalculateMakefilePath p build_file (target @ ''.'' @ toolset @ opt_suffix p @ ''.mk''))) spec configs
        part_of_all (os_outputs st) = Inr (t, os_outputs st')"
    by blast
  from Write_products[OF wr] obtain w ip w' where
    2: "new_writer (mp_flavor p) (source_prefix_of p) q
        (fst (CalculateMakefilePath p build_file (target @ ''.'' @ toolset @ opt_suffix p @ ''.mk''))) spec = Inr w"
      "set_output spec w = Inr (ip, w')"
    and mo: "os_outputs st' = (os_outputs st)\<lparr>target_outputs := dset q ip (target_outputs (os_outputs st)),
         target_link_deps :=
           (if self_type w' \<in> {''static_library'', ''shared_library''}
            then dset q (self_output w') (target_link_deps (os_outputs st)) else target_link_deps (os_outputs st))\<rparr>"
    by blast
  show "\<exists>r. product p target_dicts q = Inr r \<and> provides (os_outputs st') q r"
    if "dget (target_link_deps (os_outputs st)) q = None"
    using that 1 2 by (auto simp: product_def target_writer_def provides_def mo)
  show "q' \<noteq> q \<Longrightarrow> dget (target_outputs (os_outputs st')) q' = dget (target_outputs (os_outputs st)) q'
      \<and> dget (target_link_deps (os_outputs st')) q' = dget (target_link_deps (os_outputs st)) q'"
    by (simp add: mo)
qed
lemma write_all_provides:
  assumes "rfold (write_target_file p data target_dicts needed settings) xs st = Inr st'" "distinct xs"
    and "\<forall>q \<in> set xs. dget (target_link_deps (os_outputs st)) q = None"
  shows "(\<forall>q \<in> set xs. \<exists>r. product p target_dicts q = Inr r \<and> provides (os_outputs st') q r)
    \<and> (\<forall>q. q \<notin> set xs \<longrightarrow> dget (target_outputs (os_outputs st')) q = dget (target_outputs (os_outputs st)) q
        \<and> dget (target_link_deps (os_outputs st')) q = dget (target_link_deps (os_outputs st)) q)"
  using assms
proof (induction xs arbitrary: st)
  case (Cons x xs)
  from Cons.prems(1) obtain s1 where one: "write_target_file p data target_dicts needed settings x st = Inr s1"
    and rest: "rfold (write_target_file p data target_dicts needed settings) xs s1 = Inr st'"
    by (auto simp: rbind_eq_Inr)
  note same = write_target_file_provides(2)[OF one]
  from Cons.prems(2,3) same have x: "x \<notin> set xs" and d: "distinct xs"
    and fresh: "\<forall>q \<in> set xs. dget (target_link_deps (os_outputs s1)) q = None"
    by (simp, simp, metis distinct.simps(2) list.set_intros(2))
  note later = Cons.IH[OF rest d fresh]
  from write_target_file_provides(1)[OF one] Cons.prems(3) obtain r where
    r: "product p target_dicts x = Inr r" "provides (os_outputs s1) x r" by auto
  from r(2) later x have "provides (os_outputs st') x r" by (simp add: provides_def)
  with r(1) later same show ?case by (cases r) auto
qed simp

lemma provides_lookups:
  assumes "\<forall>d \<in> set ds. \<exists>r. product p target_dicts d = Inr r \<and> provides mo d r"
  shows "\<exists>rs. rmap (product p target_dicts) ds = Inr rs \<and> rmap (dlookup (target_outputs mo)) ds = Inr (map fst rs)
    \<and> concat (map (\<lambda>d. case dget (target_link_deps mo) d of None \<Rightarrow> [] | Some l \<Rightarrow> [l]) ds) = concat (map snd rs)"
  using assms
proof (induction ds)
  case (Cons d ds)
  then obtain rs r where "rmap (product p target_dicts) ds = Inr rs" "rmap (dlookup (target_outputs mo)) ds = Inr (map fst rs)"
    "concat (map (\<lambda>d. case dget (target_link_deps mo) d of None \<Rightarrow> [] | Some l \<Rightarrow> [l]) ds) = concat (map snd rs)"
    "product p target_dicts d = Inr r" "provides mo d r"
    by auto
  moreover from this have "dlookup (target_outputs mo) d = Inr (fst r)" by (simp add: provides_def dlookup_def)
  ultimately show ?case
    by (intro exI[of _ "r # rs"]) (simp add: provides_def)
qed simp

section \<open>What a target waits for\<close>

text \<open>Targets with actions, rules or copies have outputs that are built apart from the sources.\<close>

definition special_outputs :: "pydict \<Rightarrow> bool" where
  "special_outputs spec \<longleftrightarrow> dhas spec ''copies''
     \<or> (\<exists>key \<in> {''actions'', ''rules''}. \<exists>v x xs. dget spec key = Some v \<and> py_iter v = Inr (x # xs))"

text \<open>The rules of a makefile in which the outputs of other targets stand.  The objects compiled from
  sources wait for all dependencies in order only; so do the outputs of actions, rules and copies, for
  which the output of the target waits; and the output of the target has its own objects and the
  libraries it links, or all dependencies when it links nothing, for prerequisites.\<close>

definition waits_for :: "pydict \<Rightarrow> makefile_writer \<Rightarrow> string list \<Rightarrow> string list \<Rightarrow> string \<Rightarrow> bool" where
  "waits_for spec w deps link_deps content \<longleftrightarrow>
     (\<forall>sources. list_field spec ''sources'' = Inr sources \<and> sources \<noteq> [] \<and> deps \<noteq> [] \<longrightarrow>
        has_line (''$(OBJS): | '' @ quoted_names deps) content)
     \<and> (special_outputs spec \<longrightarrow>
          (\<exists>special. special \<noteq> [] \<and> has_line (quoted_names [self_output w] @ '': | '' @ quoted_names special) content
             \<and> has_line (quoted_names special @ '': | '' @ quoted_names deps) content))
     \<and> (\<exists>own. set own \<subseteq> own_inputs \<and> has_line (quoted_names [self_output w] @ '': ''
          @ quoted_names (if self_type w = ''none'' then deps else own @ link_deps) @ '' FORCE_DO_CMD'') content)"

lemma run_steps_extra:
  assumes "run_steps ms w = Inr w'" "\<forall>m \<in> set ms. grows_by m"
    and "m \<in> set ms" "\<And>a b. m a = Inr b \<Longrightarrow> extra_outputs b \<noteq> []"
  shows "extra_outputs w' \<noteq> []"
proof -
  from run_steps_step[OF assms(1,3,2)] obtain u v where "m u = Inr v" "writes_on v w'" by blast
  with assms(4) show ?thesis by (fastforce simp: writes_on_def)
qed

lemma add_outputs_extra: "add_outputs (x # xs) a = Inr b \<Longrightarrow> extra_outputs b \<noteq> []"
  by (auto simp: add_outputs_def)

lemma add_step_extra:
  "run_steps ms w = Inr w' \<Longrightarrow> add_outputs (x # xs) \<in> set ms \<Longrightarrow> \<forall>m \<in> set ms. grows_by m \<Longrightarrow> extra_outputs w' \<noteq> []"
  by (erule run_steps_extra) (auto dest: add_outputs_extra)

lemma WriteAction_extra: "WriteAction x a = Inr b \<Longrightarrow> extra_outputs b \<noteq> []"
  unfolding WriteAction_def Let_def rbind_eq_Inr
  by (elim exE conjE, erule add_step_extra, (rule list.set_intros(1) | rule list.set_intros(2))+) simp

lemma WriteRule_extra: "WriteRule x a = Inr b \<Longrightarrow> extra_outputs b \<noteq> []"
  unfolding WriteRule_def Let_def rbind_eq_Inr case_prod_beta
  by (elim exE conjE, erule add_step_extra, (rule list.set_intros(1) | rule list.set_intros(2))+) simp

lemma WriteCopies_extra: "WriteCopies x a = Inr b \<Longrightarrow> extra_outputs b \<noteq> []"
  unfolding WriteCopies_def Let_def rbind_eq_Inr case_prod_beta
  by (elim exE conjE, erule add_step_extra, (rule list.set_intros(1) | rule list.set_intros(2))+) simp

lemma WriteActions_extra: "WriteActions v a = Inr b \<Longrightarrow> py_iter v = Inr (x # xs) \<Longrightarrow> extra_outputs b \<noteq> []"
  unfolding WriteActions_def by simp (erule run_steps_extra[where m = "WriteAction x"], auto dest: WriteAction_extra)

lemma WriteRules_extra: "WriteRules v a = Inr b \<Longrightarrow> py_iter v = Inr (x # xs) \<Longrightarrow> extra_outputs b \<noteq> []"
  unfolding WriteRules_def by simp (erule run_steps_extra[where m = "WriteRule x"], auto dest: WriteRule_extra)

text \<open>The text of \<open>Write\<close>.\<close>

lemma Write_waits:
  assumes "Write flavor ndk source_pre q base_path spec configs part_of_all mo = Inr (content, mo')"
    and "new_writer flavor source_pre q base_path spec = Inr w0" "set_output spec w0 = Inr (install_path, w)"
    and "ComputeDeps mo spec = Inr (deps, link_deps)"
  shows "waits_for spec w deps link_deps content"
proof -
  let ?sections = "[WriteLn (''TOOLSET := '' @ self_toolset w), WriteLn (''TARGET := '' @ self_target w),
    write_section spec ''actions'' WriteActions, write_section spec ''rules'' WriteRules,
    write_section spec ''copies'' WriteCopies]"
  let ?target = "\<lambda>w. WriteTarget spec configs deps (extra_link_deps w @ link_deps) part_of_all w"
  let ?android = "\<lambda>w. if \<not> ndk then Inr w else rbind (list_field spec ''sources'') (\<lambda>sources.
    WriteAndroidNdkModuleRule (sources @ extra_sources w) link_deps w)"
  have grow: "\<forall>m \<in> set ?sections. grows_by m" by (auto intro: write_section_grown)
  from assms obtain w' where "run_steps (?sections @ [write_sources spec configs deps, ?target, ?android]) w = Inr w'"
    and content: "content = fp w'"
    by (auto simp: Write_def rbind_eq_Inr)
  then obtain w1 w2 w3 where run: "run_steps ?sections w = Inr w1" "write_sources spec configs deps w1 = Inr w2"
    "?target w2 = Inr w3" "?android w3 = Inr w'"
    unfolding run_steps_append rbind_eq_Inr by (auto simp: run_steps_def rbind_eq_Inr)
  have on: "writes_on w w1" "writes_on w1 w2" "writes_on w2 w3" "writes_on w3 w'"
    using run_steps_grown[OF grow] write_sources_grown WriteTarget_grown run(1-3) unfolding grown_def by blast+
      (use run(4) WriteAndroid_grown[unfolded grown_def] in \<open>auto simp: rbind_eq_Inr split: if_splits\<close>)
  from assms(2,3) have "whole_lines (fp w)"
    by (auto simp: new_writer_def set_output_def rbind_eq_Inr Let_def whole_lines_def header_def line_end_def)
  from assms(2,3) have "set (extra_link_deps w) \<subseteq> own_inputs"
    by (auto simp: new_writer_def set_output_def rbind_eq_Inr Let_def)
  with on(1,2) have own: "set (extra_link_deps w2) \<subseteq> own_inputs" by (auto simp: writes_on_def)
  from \<open>whole_lines (fp w)\<close> on have whole: "whole_lines (fp w1)" "whole_lines (fp w2)" by (meson writes_on_whole)+
  have keep: "has_line l content" if "has_line l (fp w3)" for l
    using that on(4) unfolding content by (rule has_line_on)
  have out: "self_output w2 = self_output w" "self_type w2 = self_type w" using on(1,2) by (auto simp: writes_on_def)
  have objects: "has_line (''$(OBJS): | '' @ quoted_names deps) content"
    if "list_field spec ''sources'' = Inr sources" "sources \<noteq> []" "deps \<noteq> []" for sources
    using keep has_line_on[OF write_sources_line[OF run(2) whole(1) that] on(3)] by blast
  have extra: "extra_outputs w2 \<noteq> []" if "special_outputs spec"
  proof -
    have step: "extra_outputs w1 \<noteq> []"
      if "dget spec key = Some v" "write_section spec key m \<in> set ?sections"
        "\<And>a b. m v a = Inr b \<Longrightarrow> extra_outputs b \<noteq> []" for key v m
      using that by (intro run_steps_extra[OF run(1) grow, of "write_section spec key m"]) (auto simp: write_section_def)
    from that consider v where "dget spec ''copies'' = Some v"
      | v x xs where "dget spec ''actions'' = Some v" "py_iter v = Inr (x # xs)"
      | v x xs where "dget spec ''rules'' = Some v" "py_iter v = Inr (x # xs)"
      by (auto simp: special_outputs_def dhas_def)
    then have "extra_outputs w1 \<noteq> []"
    proof cases
      case (1 v)
      show ?thesis by (rule step[OF 1, of WriteCopies]) (auto dest: WriteCopies_extra)
    next
      case (2 v x xs)
      show ?thesis by (rule step[OF 2(1), of WriteActions]) (use 2(2) in \<open>auto dest: WriteActions_extra\<close>)
    next
      case (3 v x xs)
      show ?thesis by (rule step[OF 3(1), of WriteRules]) (use 3(2) in \<open>auto dest: WriteRules_extra\<close>)
    qed
    with on(2) show ?thesis by (auto simp: writes_on_def)
  qed
  note lines = WriteTarget_lines[OF run(3) whole(2), unfolded out]
  from objects keep[OF lines(1)] extra lines(2) keep own show ?thesis
    unfolding waits_for_def
    by (intro conjI allI impI exI[of _ "extra_link_deps w2"] exI[of _ "extra_outputs w2"]) blast+
qed

section \<open>The order of the targets\<close>

text \<open>The makefile of a target.\<close>

definition target_makefile :: "make_params \<Rightarrow> string \<Rightarrow> string option" where
  "target_makefile p q =
     (case qualified_parts q of
        Inl e \<Rightarrow> None
      | Inr (build_file, target, toolset) \<Rightarrow>
          Some (snd (CalculateMakefilePath p build_file (target @ ''.'' @ toolset @ opt_suffix p @ ''.mk''))))"

lemma write_target_file_waits:
  assumes "write_target_file p data target_dicts needed settings q st = Inr st'" "dlookup target_dicts q = Inr spec"
  shows "\<exists>deps link_deps install_path w path content. ComputeDeps (os_outputs st) spec = Inr (deps, link_deps)
    \<and> target_writer p target_dicts q = Inr (install_path, w) \<and> target_makefile p q = Some path
    \<and> os_files st' = os_files st @ [(path, content)] \<and> waits_for spec w deps link_deps content"
proof -
  from assms obtain build_file target toolset configs part_of_all content where
    1: "qualified_parts q = Inr (build_file, target, toolset)" and
    wr: "Write (mp_flavor p) (has_flag p ''android_ndk_version'') (source_prefix_of p) q
        (fst (CalculateMakefilePath p build_file (target @ ''.'' @ toolset @ opt_suffix p @ ''.mk''))) spec configs
        part_of_all (os_outputs st) = Inr (content, os_outputs st')" and
    files: "os_files st' = os_files st @
      [(snd (CalculateMakefilePath p build_file (target @ ''.'' @ toolset @ opt_suffix p @ ''.mk'')), content)]"
    unfolding write_target_file_def by (auto simp: rbind_eq_Inr Let_def case_prod_beta)
  from Write_products[OF wr] obtain deps link_deps w0 install_path w where
    2: "ComputeDeps (os_outputs st) spec = Inr (deps, link_deps)"
    "new_writer (mp_flavor p) (source_prefix_of p) q
        (fst (CalculateMakefilePath p build_file (target @ ''.'' @ toolset @ opt_suffix p @ ''.mk''))) spec = Inr w0"
    "set_output spec w0 = Inr (install_path, w)" by auto
  from Write_waits[OF wr 2(2,3,1)] files 1 2 assms(2) show ?thesis
    by (auto simp: target_writer_def target_makefile_def)
qed

lemma write_all_files:
  assumes "rfold (write_target_file p data target_dicts needed settings) xs st = Inr st'"
  shows "set (os_files st) \<subseteq> set (os_files st')"
  using assms
proof (induction xs arbitrary: st)
  case (Cons x xs)
  from Cons.prems obtain s1 where one: "write_target_file p data target_dicts needed settings x st = Inr s1"
    and rest: "rfold (write_target_file p data target_dicts needed settings) xs s1 = Inr st'"
    by (auto simp: rbind_eq_Inr)
  from one have "set (os_files st) \<subseteq> set (os_files s1)"
    unfolding write_target_file_def by (auto simp: rbind_eq_Inr Let_def case_prod_beta)
  with Cons.IH[OF rest] show ?case by blast
qed simp


text \<open>Two targets, of which the second depends on the first.\<close>

definition example_params :: make_params where
  "example_params =
     \<lparr>opt_depth = ''.'', opt_toplevel_dir = ''.'', opt_generator_output = [], opt_suffix = [],
      mp_flavor = ''linux'', mp_generator_flags = [], mp_build_files = [''a.gyp''], mp_build_files_arg = [''a.gyp''],
      mp_gyp_binary = ''gyp'', mp_home_dot_gyp = [], mp_environ = [], mp_cwd = ''/w'',
      mp_realpath = (\<lambda>p. normpath (path_join ''/w'' [p])), mp_pick = (\<lambda>xs ys. 0),
      mp_options = default_values gyp_options, mp_metadata = regeneration_metadata gyp_options\<rparr>"

definition example_spec :: "string \<Rightarrow> string \<Rightarrow> string list \<Rightarrow> pydict" where
  "example_spec name ty ds =
     [(''target_name'', PStr name), (''type'', PStr ty), (''toolset'', PStr ''target''),
      (''configurations'', PDict [(''Default'', PDict [])]), (''dependencies'', PList (map PStr ds))]"

definition example_targets :: target_table where
  "example_targets =
     [(''a.gyp:lib#target'', example_spec ''lib'' ''static_library'' []),
      (''a.gyp:prog#target'', example_spec ''prog'' ''executable'' [''a.gyp:lib#target''])]"

definition example_data :: pydict where
  "example_data = [(''a.gyp'', PDict [(''included_files'', PList [PStr ''a.gyp''])])]"

lemma write_target_file_eq:
  assumes "qualified_parts q = Inr (build_file, target, toolset)"
    and "global_settings data build_file = Inr settings"
    and "rbind (dlookup data build_file) (as_dict ''__getitem__'') = Inr build_file_dict"
    and "rbind (dlookup build_file_dict ''included_files'') texts = Inr included_files"
    and "dlookup target_dicts q = Inr spec"
    and "rbind (dlookup spec ''configurations'') (as_dict ''keys'') = Inr configs"
    and "Write (mp_flavor p) (has_flag p ''android_ndk_version'') (source_prefix_of p) q
        (fst (CalculateMakefilePath p build_file (target @ ''.'' @ toolset @ opt_suffix p @ ''.mk''))) spec configs
        (PStr q \<in> set needed) (os_outputs st) = Inr (t, mo)"
  shows "\<exists>st'. write_target_file p data target_dicts needed settings q st = Inr st' \<and> os_outputs st' = mo
    \<and> os_build_files st' = fold add_once
        (relative p build_file (opt_toplevel_dir p) # map (included_path p build_file) included_files) (os_build_files st)"
  using assms by (auto simp: write_target_file_def case_prod_beta Let_def rassert_def)

definition example_needed :: "pyval list" where
  "example_needed = [PStr ''a.gyp:prog#target'']"

abbreviation no_outputs :: make_outputs where
  "no_outputs \<equiv> \<lparr>target_outputs = [], target_link_deps = []\<rparr>"

lemma example_parts:
  "qualified_parts ''a.gyp:lib#target'' = Inr (''a.gyp'', ''lib'', ''target'')"
  "qualified_parts ''a.gyp:prog#target'' = Inr (''a.gyp'', ''prog'', ''target'')"
  "global_settings example_data ''a.gyp'' = Inr (PList [])"
  "rbind (dlookup example_data ''a.gyp'') (as_dict ''__getitem__'') = Inr [(''included_files'', PList [PStr ''a.gyp''])]"
  "rbind (dlookup [(''included_files'', PList [PStr ''a.gyp''])] ''included_files'') texts = Inr [''a.gyp'']"
  "dlookup example_targets ''a.gyp:lib#target'' = Inr (example_spec ''lib'' ''static_library'' [])"
  "dlookup example_targets ''a.gyp:prog#target'' = Inr (example_spec ''prog'' ''executable'' [''a.gyp:lib#target''])"
  "rbind (dlookup (example_spec name ty ds) ''configurations'') (as_dict ''keys'') = Inr [(''Default'', PDict [])]"
  by (code_simp, code_simp, code_simp, code_simp, code_simp, code_simp, code_simp) (simp add: example_spec_def)

lemma example_base_path: "fst (CalculateMakefilePath example_params ''a.gyp'' name) = []"
proof -
  have "relative example_params (dirname ''a.gyp'') (opt_toplevel_dir example_params) = []" by code_simp
  then show ?thesis by (simp add: CalculateMakefilePath_def Let_def)
qed

lemma Inr_pair: "(case x of Inl e \<Rightarrow> False | Inr (a, b) \<Rightarrow> P b) \<Longrightarrow> \<exists>a b. x = Inr (a, b) \<and> P b"
  by (cases x) auto

lemma example_Write:
  "case Write ''linux'' False [] ''a.gyp:lib#target'' [] (example_spec ''lib'' ''static_library'' []) [(''Default'', PDict [])]
      False no_outputs of Inl e \<Rightarrow> False
    | Inr (t, mo) \<Rightarrow> (case Write ''linux'' False [] ''a.gyp:prog#target'' []
        (example_spec ''prog'' ''executable'' [''a.gyp:lib#target'']) [(''Default'', PDict [])] True mo of
        Inl e \<Rightarrow> False | Inr (t', mo') \<Rightarrow> True)"
  by code_simp

lemma example_written:
  "\<exists>st. write_target_files example_params [''a.gyp:lib#target'', ''a.gyp:prog#target''] example_targets example_data
     example_needed (PList []) = Inr st"
proof -
  have params: "mp_flavor example_params = ''linux''" "\<not> has_flag example_params ''android_ndk_version''"
    "source_prefix_of example_params = []" "PStr ''a.gyp:lib#target'' \<notin> set example_needed"
    "PStr ''a.gyp:prog#target'' \<in> set example_needed"
    by (simp_all add: example_params_def has_flag_def source_prefix_of_def example_needed_def)
  obtain t mo t' mo' where
    wr: "Write ''linux'' False [] ''a.gyp:lib#target'' [] (example_spec ''lib'' ''static_library'' [])
      [(''Default'', PDict [])] False no_outputs = Inr (t, mo)"
    "Write ''linux'' False [] ''a.gyp:prog#target'' [] (example_spec ''prog'' ''executable'' [''a.gyp:lib#target''])
      [(''Default'', PDict [])] True mo = Inr (t', mo')"
    using Inr_pair[OF example_Write] by (blast dest: Inr_pair)
  note common = example_parts(3-5)
  obtain st where st: "write_target_file example_params example_data example_targets example_needed (PList [])
      ''a.gyp:lib#target'' \<lparr>os_files = [], os_outputs = no_outputs, os_build_files = [], os_includes = []\<rparr> = Inr st"
    "os_outputs st = mo"
    using write_target_file_eq[OF example_parts(1) common example_parts(6,8), of example_params example_needed
      "\<lparr>os_files = [], os_outputs = no_outputs, os_build_files = [], os_includes = []\<rparr>"] wr(1) params
    by (auto simp: example_base_path)
  obtain st' where "write_target_file example_params example_data example_targets example_needed (PList [])
      ''a.gyp:prog#target'' st = Inr st'"
    using write_target_file_eq[OF example_parts(2) common example_parts(7,8), of example_params example_needed st]
      wr(2) params st(2)
    by (auto simp: example_base_path)
  with st(1) show ?thesis by (simp add: write_target_files_def)
qed


end
