(* ===== verification/Gyp_Make_Files.thy ===== *)
theory Gyp_Make_Files
  imports Gyp_Make_Order
begin

text \<open>
  The files of the make generator: the header of the root makefile can always be filled in, every target
  has a makefile, and the root makefile includes it.
\<close>

section \<open>Templates\<close>

lemma format_key_append: "format_key n s = Some (k, r) \<Longrightarrow> format_key n (s @ t) = Some (k, r @ t)"
proof (induction n s arbitrary: k rule: format_key.induct)
  case (2 n c s)
  then show ?case by (fastforce split: if_splits)
qed simp


lemma py_format_append:
  "py_format d a = Inr x \<Longrightarrow> py_format d (a @ b) = rbind (py_format d b) (\<lambda>y. Inr (x @ y))"
proof (induction d a arbitrary: x rule: py_format.induct)
  case (2 d c s)
  show ?case
  proof (cases "c = CHR ''%''")
    case False
    with 2 show ?thesis by (auto simp: rbind_eq_Inr rbind_assoc)
  next
    case True
    with 2(5) obtain y s' where s: "s = y # s'" by (cases s) auto
    show ?thesis
    proof (cases "y = CHR ''(''")
      case P: True
      with 2(5) True s obtain k z r where k: "format_key 0 s' = Some (k, z # r)"
        by (auto split: option.splits list.splits)
      with 2(5) True s P obtain v t u where
        f: "dlookup d k = Inr v" "convert z v = Inr t" "py_format d r = Inr u" "x = t @ u"
        by (auto simp: rbind_eq_Inr)
      moreover have "py_format d (r @ b) = rbind (py_format d b) (\<lambda>y. Inr (u @ y))"
        using 2(3)[of y s' "(k, z # r)" k "z # r" z r v t u] True s P k f by simp
      ultimately show ?thesis using True s P f format_key_append[OF k, of b] by (simp add: rbind_assoc del: dlookup_eq)
    next
      case P: False
      show ?thesis
      proof (cases "y = CHR ''%''")
        case Q: True
        with 2(5) True s P obtain u where f: "py_format d s' = Inr u" "x = y # u" by (auto simp: rbind_eq_Inr)
        with 2(2)[of y s'] True s Q show ?thesis by (simp add: rbind_assoc)
      next
        case Q: False
        with 2(5) True s P obtain t u where f: "convert y (PDict d) = Inr t" "py_format d s' = Inr u" "x = t @ u"
          by (auto simp: rbind_eq_Inr)
        have "py_format d (s' @ b) = rbind (py_format d b) (\<lambda>v. Inr (u @ v))"
          using 2(4)[of y s' t] True s P Q f by simp
        with True s P Q f show ?thesis by (simp add: rbind_assoc)
      qed
    qed
  qed
qed (simp add: rbind_def split: sum.splits)

lemma py_format_plain: "CHR ''%'' \<notin> set l \<Longrightarrow> py_format d l = Inr l"
  by (induction l) auto

lemma py_format_lines:
  assumes "\<forall>l \<in> set (filter (\<lambda>l. CHR ''%'' \<in> set l) ls). \<exists>x. py_format d l = Inr x"
  shows "\<exists>x. py_format d (text_lines ls) = Inr x"
  using assms
proof (induction ls)
  case (Cons l ls)
  have "\<exists>x. py_format d l = Inr x" using Cons.prems by (cases "CHR ''%'' \<in> set l") (auto simp: py_format_plain)
  with Cons obtain x y where 1: "py_format d l = Inr x" "py_format d (text_lines ls) = Inr y" by (auto split: if_splits)
  have "py_format d (line_end @ text_lines ls) = Inr (line_end @ y)" using 1(2) by (simp add: line_end_def)
  with py_format_append[OF 1(1), of "line_end @ text_lines ls"] show ?case by (simp add: text_lines_def)
qed (simp add: text_lines_def)

definition template_lines :: "string list" where
  "template_lines =
    [''srcdir := %(srcdir)s'',
     ''builddir_name ?= %(builddir)s'',
     ''BUILDTYPE ?= %(default_configuration)s'',
     ''%(make_global_settings)s'',
     ''CC.target ?= %(CC.target)s'',
     ''CXX.target ?= %(CXX.target)s'',
     ''LINK.target ?= %(LINK.target)s'',
     ''LINK ?= %(flock)s $(builddir)/linker.lock $(CXX.target)'',
     ''CC.host ?= %(CC.host)s'',
     ''CXX.host ?= %(CXX.host)s'',
     ''LINK.host ?= %(LINK.host)s'',
     ''AR.host ?= %(AR.host)s'',
     ''%(extra_commands)s'',
     ''%(link_commands)s'',
     ''exact_echo = printf '' @ [CHR 0x27] @ ''%%s'' @ [CHR 0x5C] @ ''n'' @ [CHR 0x27] @ '' '' @ [CHR 0x27] @ ''$(call escape_quotes,$(1))'' @ [CHR 0x27],
     ''  $(if $(findstring flock,$(word %(flock_index)d,$(cmd_$1))),'',
     ''# Declare the '' @ [CHR 0x22] @ ''%(default_target)s'' @ [CHR 0x22] @ '' target first so it is the default,'',
     ''.PHONY: %(default_target)s'',
     ''%(default_target)s:'',
     ''%%.d: ;'']"

lemma template_lines_of:
  "\<exists>ls. SHARED_HEADER = text_lines ls \<and> filter (\<lambda>l. CHR ''%'' \<in> set l) ls = template_lines"
  unfolding SHARED_HEADER_def
  by (rule exI, rule conjI, rule refl) code_simp

lemma SHARED_HEADER_formats:
  assumes "\<forall>k \<in> set [''srcdir'', ''builddir'', ''default_configuration'', ''make_global_settings'', ''CC.target'',
      ''CXX.target'', ''LINK.target'', ''flock'', ''CC.host'', ''CXX.host'', ''LINK.host'', ''AR.host'',
      ''extra_commands'', ''link_commands'', ''default_target'']. \<exists>s. dlookup d k = Inr (PStr s)"
    and "dlookup d ''flock_index'' = Inr (PInt i)"
  shows "\<exists>x. py_format d SHARED_HEADER = Inr x"
proof -
  have "\<forall>l \<in> set template_lines. \<exists>x. py_format d l = Inr x"
    using assms by (auto simp: template_lines_def convert_def simp del: dlookup_eq)
  with template_lines_of py_format_lines show ?thesis by metis
qed
lemma flavor_params_keys:
  "\<exists>link flock i. flavor_params flavor =
     [(''flock'', PStr flock), (''flock_index'', PInt i), (''link_commands'', PStr link), (''extra_commands'', PStr [])]"
  by (simp add: flavor_params_def Let_def)

lemma header_params_format: "\<exists>x. py_format (header_params p dflt settings) SHARED_HEADER = Inr x"
proof -
  obtain link flock i where f: "flavor_params (mp_flavor p) =
     [(''flock'', PStr flock), (''flock_index'', PInt i), (''link_commands'', PStr link), (''extra_commands'', PStr [])]"
    using flavor_params_keys by blast
  show ?thesis
    by (rule SHARED_HEADER_formats[where i = i]) (simp_all add: header_params_def f Let_def)
qed

section \<open>All files\<close>

text \<open>The lines of the root makefile that include the makefile of a target.\<close>

definition included_in :: "make_params \<Rightarrow> string \<Rightarrow> string \<Rightarrow> bool" where
  "included_in p file root \<longleftrightarrow> sublist (include_lines (relative p file (dirname (root_makefile_path p)))) root"

lemma add_once_set: "set (add_once x xs) = insert x (set xs)"
  by (auto simp: add_once_def)

text \<open>The build files behind a target: its own and those it includes.\<close>

definition build_file_paths :: "make_params \<Rightarrow> pydict \<Rightarrow> string \<Rightarrow> string list res" where
  "build_file_paths p data q =
     rbind (qualified_parts q) (\<lambda>(build_file, target, toolset).
     rbind (rbind (dlookup data build_file) (as_dict ''__getitem__'')) (\<lambda>d.
     rbind (rbind (dlookup d ''included_files'') texts) (\<lambda>included.
       Inr (relative p build_file (opt_toplevel_dir p) # map (included_path p build_file) included))))"

text \<open>The makefile for a build file, in its directory, and the targets it builds: needed ones whose
  qualified name begins with the path of the build file.\<close>

definition depth_path :: "make_params \<Rightarrow> string \<Rightarrow> string" where
  "depth_path p file = path_join (relative p (opt_depth p) (mp_cwd p)) [file]"

definition directory_makefile :: "make_params \<Rightarrow> string \<Rightarrow> string" where
  "directory_makefile p file =
     snd (CalculateMakefilePath p (depth_path p file) (fst (splitext (basename (depth_path p file))) @ ''.Makefile''))"

definition builds_of_file :: "make_params \<Rightarrow> pyval list \<Rightarrow> string list \<Rightarrow> string \<Rightarrow> string list" where
  "builds_of_file p needed target_list file =
     filter (\<lambda>t. prefix (depth_path p file) t \<and> PStr t \<in> set needed) target_list"

lemma sub_makefile_names:
  assumes "sub_makefile p target_list target_dicts needed file = Inr fs"
  shows "map fst fs = (if builds_of_file p needed target_list file = [] then [] else [directory_makefile p file])"
proof -
  from assms obtain names where
    names: "rmap (\<lambda>t. rbind (dlookup target_dicts t) (\<lambda>spec. text_field spec ''target_name''))
        (builds_of_file p needed target_list file) = Inr names"
    and rest: "names = [] \<and> fs = [] \<or> names \<noteq> [] \<and> (\<exists>t. fs = [(directory_makefile p file, t)])"
    unfolding sub_makefile_def Let_def depth_path_def builds_of_file_def directory_makefile_def rbind_eq_Inr
    by (auto simp: case_prod_beta split: if_splits named_value.splits)
  have "names = [] \<longleftrightarrow> builds_of_file p needed target_list file = []"
    using rmap_length[OF names] by auto
  with rest show ?thesis by auto
qed

lemma sub_makefiles_names:
  assumes "rmap (sub_makefile p target_list target_dicts needed) files = Inr subs"
  shows "map fst (concat subs) =
    map (directory_makefile p) (filter (\<lambda>f. builds_of_file p needed target_list f \<noteq> []) files)"
  using assms
proof (induction files arbitrary: subs)
  case (Cons f files)
  then obtain fs rest where "sub_makefile p target_list target_dicts needed f = Inr fs" "subs = fs # rest"
    "rmap (sub_makefile p target_list target_dicts needed) files = Inr rest" by (auto simp: rbind_eq_Inr)
  with Cons.IH sub_makefile_names show ?case by simp
qed simp

lemma write_target_file_entry:
  assumes "write_target_file p data target_dicts needed settings q st = Inr st'"
  shows "\<exists>file t paths. target_makefile p q = Some file \<and> os_files st' = os_files st @ [(file, t)]
    \<and> os_includes st' = add_once (relative p file (dirname (root_makefile_path p))) (os_includes st)
    \<and> build_file_paths p data q = Inr paths \<and> os_build_files st' = fold add_once paths (os_build_files st)"
  using assms unfolding write_target_file_def target_makefile_def build_file_paths_def
  by (auto simp: rbind_eq_Inr Let_def case_prod_beta)

lemma add_once_all: "set (fold add_once xs ys) = set ys \<union> set xs" "distinct ys \<Longrightarrow> distinct (fold add_once xs ys)"
  by (induction xs arbitrary: ys) (auto simp: add_once_set, simp add: add_once_def)

lemma write_all_entries:
  assumes "rfold (write_target_file p data target_dicts needed settings) xs st = Inr st'"
  shows "\<exists>entries paths. os_files st' = os_files st @ entries
    \<and> map (target_makefile p) xs = map (\<lambda>(file, t). Some file) entries
    \<and> set (os_includes st') = set (os_includes st)
        \<union> (\<lambda>(file, t). relative p file (dirname (root_makefile_path p))) ` set entries
    \<and> rmap (build_file_paths p data) xs = Inr paths
    \<and> os_build_files st' = fold add_once (concat paths) (os_build_files st)"
  using assms
proof (induction xs arbitrary: st)
  case (Cons x xs)
  from Cons.prems obtain s1 where one: "write_target_file p data target_dicts needed settings x st = Inr s1"
    and rest: "rfold (write_target_file p data target_dicts needed settings) xs s1 = Inr st'"
    by (auto simp: rbind_eq_Inr)
  from write_target_file_entry[OF one] obtain f t path where
    1: "target_makefile p x = Some f" "os_files s1 = os_files st @ [(f, t)]"
      "os_includes s1 = add_once (relative p f (dirname (root_makefile_path p))) (os_includes st)"
      "build_file_paths p data x = Inr path" "os_build_files s1 = fold add_once path (os_build_files st)" by blast
  from Cons.IH[OF rest] obtain entries paths where
    "os_files st' = os_files s1 @ entries" "map (target_makefile p) xs = map (\<lambda>(file, t). Some file) entries"
    "set (os_includes st') = set (os_includes s1)
        \<union> (\<lambda>(file, t). relative p file (dirname (root_makefile_path p))) ` set entries"
    "rmap (build_file_paths p data) xs = Inr paths"
    "os_build_files st' = fold add_once (concat paths) (os_build_files s1)" by blast
  with 1 show ?case
    by (intro exI[of _ "(f, t) # entries"] exI[of _ "path # paths"]) (simp add: add_once_set)
qed simp

lemma sublist_concat: "x \<in> set xs \<Longrightarrow> sublist (f x) (concat (map f xs))"
  by (induction xs) (auto intro: sublist_appendI sublist_order.order_trans[OF _ sublist_append_leftI])

text \<open>The files of a run.  First one makefile per target, in the order of the list.  Then one per build
  file that a target of the list is in or includes, when it builds a needed target of the list.  Then the
  root makefile, which includes each makefile of a target.\<close>

definition output_files :: "make_params \<Rightarrow> string list \<Rightarrow> target_table \<Rightarrow> pydict \<Rightarrow> (string \<times> string) list \<Rightarrow> bool" where
  "output_files p target_list target_dicts data files \<longleftrightarrow>
     (\<exists>entries others root needed paths build_files. files = entries @ others @ [(root_makefile_path p, root)]
        \<and> map (target_makefile p) target_list = map (\<lambda>(file, t). Some file) entries
        \<and> (\<forall>(file, t) \<in> set entries. included_in p file root)
        \<and> needed_targets_of p target_list target_dicts = Inr needed
        \<and> rmap (build_file_paths p data) target_list = Inr paths
        \<and> distinct build_files \<and> set build_files = set (concat paths)
        \<and> map fst others =
            map (directory_makefile p) (filter (\<lambda>f. builds_of_file p needed target_list f \<noteq> []) build_files))"

lemma GenerateOutput_files:
  assumes "GenerateOutput p target_list target_dicts data = Inr files"
  shows "output_files p target_list target_dicts data files"
proof -
  from assms obtain head needed settings st subs regeneration where
    needed: "needed_targets_of p target_list target_dicts = Inr needed"
    and st: "write_target_files p target_list target_dicts data needed settings = Inr st"
    and subs: "rmap (sub_makefile p target_list target_dicts needed) (os_build_files st) = Inr subs"
    and files: "files = os_files st @ concat subs @ [(root_makefile_path p,
           head @ line_end @ concat (map include_lines (sort (os_includes st))) @ line_end @ regeneration
           @ SHARED_FOOTER)]"
    unfolding GenerateOutput_def rbind_eq_Inr sum.inject
    by (elim exE conjE) (rule that, assumption, assumption, assumption, rule sym)
  from write_all_entries[OF st[unfolded write_target_files_def]] obtain entries paths where
    entries: "os_files st = entries" "map (target_makefile p) target_list = map (\<lambda>(file, t). Some file) entries"
    "set (os_includes st) = (\<lambda>(file, t). relative p file (dirname (root_makefile_path p))) ` set entries"
    and paths: "rmap (build_file_paths p data) target_list = Inr paths" "os_build_files st = fold add_once (concat paths) []"
    by auto
  let ?root = "head @ line_end @ concat (map include_lines (sort (os_includes st))) @ line_end @ regeneration @ SHARED_FOOTER"
  have root: "included_in p f ?root" if "(f, t) \<in> set entries" for f t
  proof -
    have "relative p f (dirname (root_makefile_path p)) \<in> set (sort (os_includes st))"
      using that entries(3) by force
    from sublist_concat[OF this, of include_lines] have
      "sublist (include_lines (relative p f (dirname (root_makefile_path p))))
         ((head @ line_end) @ concat (map include_lines (sort (os_includes st))) @ line_end @ regeneration @ SHARED_FOOTER)"
      by (meson sublist_appendI sublist_order.order_trans)
    then show ?thesis by (simp add: included_in_def)
  qed
  have "distinct (os_build_files st) \<and> set (os_build_files st) = set (concat paths)"
    using add_once_all[where ys = "[]" and xs = "concat paths"] by (simp add: paths(2))
  with files entries(1,2) root needed paths(1) sub_makefiles_names[OF subs] show ?thesis
    unfolding output_files_def
    by (intro exI[of _ entries] exI[of _ "concat subs"] exI[of _ ?root] exI[of _ needed] exI[of _ paths]
        exI[of _ "os_build_files st"]) auto
qed

text \<open>The steps of \<open>GenerateOutput\<close> one by one, for files without global settings.\<close>

lemma root_header_plain:
  assumes "rmap (\<lambda>t. rbind (dlookup target_dicts t) (\<lambda>spec. text_field spec ''toolset'')) target_list = Inr toolsets"
    and "default_configuration target_dicts target_list = Inr dflt" "list_index target_list 0 = Inr first"
    and "global_settings data (case BuildFile first of Some f \<Rightarrow> f | None \<Rightarrow> []) = Inr (PList [])"
  shows "\<exists>h. root_header p target_list target_dicts data = Inr h"
proof -
  obtain h where "py_format (header_params p dflt []) SHARED_HEADER = Inr h" using header_params_format by blast
  moreover have "make_global_settings (mp_environ p) ''flock'' (PList []) = Inr []"
    by (simp add: make_global_settings_def setting_wrappers_def)
  ultimately show ?thesis using assms by (simp add: root_header_def del: dlookup_eq)
qed

lemma GenerateOutput_steps:
  assumes "root_header p target_list target_dicts data = Inr head" "list_index target_list 0 = Inr first"
    and "global_settings data (case BuildFile first of Some f \<Rightarrow> f | None \<Rightarrow> []) = Inr settings"
    and "needed_targets_of p target_list target_dicts = Inr needed"
    and "write_target_files p target_list target_dicts data needed settings = Inr st"
    and "rmap (sub_makefile p target_list target_dicts needed) (os_build_files st) = Inr subs"
    and "\<not> named_truthy (generator_flag p ''auto_regeneration'' TrueValue)"
  shows "\<exists>files. GenerateOutput p target_list target_dicts data = Inr files"
  using assms by (simp add: GenerateOutput_def)

end
