(* ===== verification/Gyp_Include.thy ===== *)
theory Gyp_Include
  imports Gyp_Load Gyp_Expand
begin

text \<open>
  Reading build files with what they include (\<open>tools/gyp/pylib/gyp/input.py\<close>): \<open>LoadOneBuildFile\<close>,
  \<open>LoadBuildFileIncludesIntoDict\<close> and \<open>LoadBuildFileIncludesIntoList\<close>.  A file that is being read is
  in \<open>data\<close> already, so that a file it includes can find it there half-read; the dictionaries of
  \<open>data\<close> are therefore objects of the store.  The contents of files and the parser are parameters.
\<close>

section \<open>The state of loading\<close>

text \<open>\<open>data\<close> without its key \<open>target_build_files\<close>, which is a field of its own; \<open>aux_data\<close>, and the
  variables given on the command line.  \<open>files_read\<close> lists the files whose contents were read, in order.\<close>

record load_state =
  outside :: world
  data_files :: "(string \<times> nat) list"
  target_build_files :: "string list"
  aux_files :: aux_data
  global_variables :: hdict
  files_read :: "string list"

record load_env =
  expansion :: expand_env
  current_dir :: string
  file_text :: "string \<Rightarrow> string option"
  file_eval :: "string \<Rightarrow> pyval res"
  file_parse :: "string \<Rightarrow> ast_module res"
  check_syntax :: bool

type_synonym 'a lact = "(load_state, 'a) act"

definition in_world :: "'a wact \<Rightarrow> 'a lact" where
  "in_world m = (\<lambda>s. obind (m (outside s)) (\<lambda>(x, w). Some (Inr (x, s\<lparr>outside := w\<rparr>))))"

text \<open>\<open>ExceptionAppend\<close> in an \<open>except\<close> clause that raises the exception again.\<close>

definition append_message :: "string \<Rightarrow> string \<Rightarrow> string" where
  "append_message s msg = (case ExceptionAppend [PStr s] msg of PStr t # _ \<Rightarrow> t | _ \<Rightarrow> s)"

fun exception_append :: "py_error \<Rightarrow> string \<Rightarrow> py_error" where
  "exception_append (GypError s) msg = GypError (append_message s msg)"
| "exception_append (CircularException s) msg = CircularException (append_message s msg)"
| "exception_append (TypeError s) msg = TypeError (append_message s msg)"
| "exception_append (ValueError s) msg = ValueError (append_message s msg)"
| "exception_append (KeyError s) msg = KeyError (append_message s msg)"
| "exception_append (AttributeError s) msg = AttributeError (append_message s msg)"
| "exception_append (NameError s) msg = NameError (append_message s msg)"
| "exception_append (RegexError s) msg = RegexError (append_message s msg)"
| "exception_append (SyntaxError s txt off) msg = SyntaxError (append_message s msg) txt off"
| "exception_append (RuntimeError s) msg = RuntimeError (append_message s msg)"
| "exception_append (ImportError s) msg = ImportError (append_message s msg)"
| "exception_append (OSError s) msg = OSError (append_message s msg)"
| "exception_append (Exception s) msg = Exception (append_message s msg)"
| "exception_append e msg = e"

definition annotate :: "string \<Rightarrow> 'a lact \<Rightarrow> 'a lact" where
  "annotate msg m = (\<lambda>s. case m s of Some (Inl e) \<Rightarrow> Some (Inl (exception_append e msg)) | r \<Rightarrow> r)"

definition write_tree :: "pyval \<Rightarrow> hval wact" where
  "write_tree t = abind state (\<lambda>w. let (v, h) = new_value t (objects w) in
     abind (change (\<lambda>w. w\<lparr>objects := h\<rparr>)) (\<lambda>_. ret v))"

definition load_items :: "nat \<Rightarrow> (string \<Rightarrow> hval \<Rightarrow> unit lact) \<Rightarrow> unit lact" where
  "load_items a body = abind (in_world (get_dict a)) (\<lambda>d0. let ks = dkeys d0 in
     abind (afold (\<lambda>k _. abind (in_world (check_keys a ks)) (\<lambda>_.
         abind (in_world (get_dict a)) (\<lambda>d. body k (the (dget d k))))) ks ())
       (\<lambda>_. in_world (check_keys a ks)))"

section \<open>Reading one file\<close>

datatype load_call =
    LoadFile string "string list option"
  | IncludesInDict nat string "string list option"
  | IncludesInList nat string

text \<open>The value of a file.  A \<open>SyntaxError\<close> is passed on, other errors say which file they are from.\<close>

definition file_value :: "load_env \<Rightarrow> string \<Rightarrow> string \<Rightarrow> pyval res" where
  "file_value env build_file_path contents =
     (case (if check_syntax env then CheckedEval (file_parse env) contents else file_eval env contents) of
        Inr v \<Rightarrow> Inr v
      | Inl (SyntaxError e txt off) \<Rightarrow> Inl (SyntaxError e txt off)
      | Inl e \<Rightarrow> Inl (exception_append e (''while reading '' @ build_file_path)))"

definition enter_file :: "string \<Rightarrow> pydict \<Rightarrow> nat lact" where
  "enter_file build_file_path d =
     abind (in_world (write_dict d)) (\<lambda>hd.
     abind state (\<lambda>s. let a = length (objects (outside s)) in
     abind (change (\<lambda>s. s\<lparr>outside := (outside s)\<lparr>objects := objects (outside s) @ [DObj hd]\<rparr>,
         data_files := dset build_file_path a (data_files s),
         aux_files := dset build_file_path [] (aux_files s),
         files_read := files_read s @ [build_file_path]\<rparr>)) (\<lambda>_. ret a)))"

text \<open>Without \<open>is_target\<close> the second argument is \<open>None\<close>.\<close>

definition LoadOneBuildFile_body :: "load_env \<Rightarrow> (load_call \<Rightarrow> unit lact) \<Rightarrow> string
    \<Rightarrow> string list option \<Rightarrow> unit lact" where
  "LoadOneBuildFile_body env self build_file_path includes =
     abind state (\<lambda>s.
       if dhas (data_files s) build_file_path then ret ()
       else
         case file_text env build_file_path of
           None \<Rightarrow>
             throw (GypError (build_file_path @ '' not found (cwd: '' @ current_dir env @ '')''))
         | Some contents \<Rightarrow>
             abind (of_res (file_value env build_file_path contents)) (\<lambda>v.
               case v of
                 PDict d \<Rightarrow>
                   abind (enter_file build_file_path d) (\<lambda>a.
                     if truthy (dget_default d ''skip_includes'' (PInt 0)) then ret ()
                     else annotate (''while reading includes of '' @ build_file_path)
                            (self (IncludesInDict a build_file_path includes)))
               | _ \<Rightarrow> throw (GypError (build_file_path @ '' does not evaluate to a dictionary.''))))"

section \<open>Includes\<close>

definition h_iter :: "store \<Rightarrow> hval \<Rightarrow> hval list res" where
  "h_iter h v =
     (case v of
        HList a \<Rightarrow> Inr (list_obj h a)
      | HDict a \<Rightarrow> Inr (map HStr (dkeys (dict_obj h a)))
      | HStr s \<Rightarrow> Inr (map (\<lambda>c. HStr [c]) s)
      | _ \<Rightarrow> Inl (TypeError ([CHR 0x27] @ h_class_name v @ [CHR 0x27] @ '' object is not iterable'')))"

text \<open>The paths in an \<open>includes\<close> section, relative to the file that holds it.\<close>

definition relative_include :: "string \<Rightarrow> hval \<Rightarrow> string res" where
  "relative_include subdict_path include =
     (case include of
        HStr s \<Rightarrow> Inr (normpath (path_join (dirname subdict_path) [s]))
      | _ \<Rightarrow> Inl (no_attribute (h_class_name include) ''startswith''))"

definition own_includes :: "string \<Rightarrow> store \<Rightarrow> hdict \<Rightarrow> string list res" where
  "own_includes subdict_path h subdict =
     (case dget subdict ''includes'' of
        None \<Rightarrow> Inr []
      | Some v \<Rightarrow> rbind (h_iter h v) (rmap (relative_include subdict_path)))"

definition add_included :: "string \<Rightarrow> string \<Rightarrow> unit lact" where
  "add_included subdict_path include =
     abind state (\<lambda>s.
     abind (of_res (dlookup (aux_files s) subdict_path)) (\<lambda>d.
       change (\<lambda>s. s\<lparr>aux_files :=
         dset subdict_path (dset ''included'' (dget_default d ''included'' [] @ [include]) d) (aux_files s)\<rparr>)))"

definition merge_into :: "load_env \<Rightarrow> nat \<Rightarrow> pydict \<Rightarrow> string \<Rightarrow> string \<Rightarrow> unit wact" where
  "merge_into env a d to_file fro_file =
     abind state (\<lambda>w.
     abind (of_res (h_MergeDicts (env_realpath (expansion env)) (env_globals (expansion env)) a d
                      to_file fro_file (objects w))) (\<lambda>h.
       change (\<lambda>w. w\<lparr>objects := h\<rparr>)))"

text \<open>One included file.  A file that includes itself would be merged into itself while it is walked;
  that case has no value here.\<close>

definition merge_include :: "load_env \<Rightarrow> (load_call \<Rightarrow> unit lact) \<Rightarrow> nat \<Rightarrow> string \<Rightarrow> string \<Rightarrow> unit lact" where
  "merge_include env self subdict subdict_path include =
     abind (add_included subdict_path include) (\<lambda>_.
     abind (self (LoadFile include None)) (\<lambda>_.
       if include = subdict_path then of_option None
       else
         abind state (\<lambda>s.
         abind (of_res (dlookup (data_files s) include)) (\<lambda>b.
         abind (in_world (abind (get_dict b) read_dict)) (\<lambda>d.
           in_world (merge_into env subdict d subdict_path include))))))"

definition includes_of_value :: "(load_call \<Rightarrow> unit lact) \<Rightarrow> string \<Rightarrow> hval \<Rightarrow> unit lact" where
  "includes_of_value self path v =
     (case v of
        HDict b \<Rightarrow> self (IncludesInDict b path None)
      | HList b \<Rightarrow> self (IncludesInList b path)
      | _ \<Rightarrow> ret ())"

definition LoadBuildFileIncludesIntoDict_body :: "load_env \<Rightarrow> (load_call \<Rightarrow> unit lact) \<Rightarrow> nat \<Rightarrow> string
    \<Rightarrow> string list option \<Rightarrow> unit lact" where
  "LoadBuildFileIncludesIntoDict_body env self subdict subdict_path includes =
     abind (in_world (get_dict subdict)) (\<lambda>d.
     abind state (\<lambda>s.
     abind (of_res (own_includes subdict_path (objects (outside s)) d)) (\<lambda>own.
     abind (in_world (set_dict subdict (ddel ''includes'' d))) (\<lambda>_.
     abind (afold (\<lambda>include _. merge_include env self subdict subdict_path include)
              ((case includes of None \<Rightarrow> [] | Some l \<Rightarrow> l) @ own) ()) (\<lambda>_.
       load_items subdict (\<lambda>k v. includes_of_value self subdict_path v))))))"

text \<open>Nothing that is called changes the list itself.\<close>

definition LoadBuildFileIncludesIntoList_body :: "(load_call \<Rightarrow> unit lact) \<Rightarrow> nat \<Rightarrow> string \<Rightarrow> unit lact" where
  "LoadBuildFileIncludesIntoList_body self the_list sublist_path =
     abind (in_world (get_list the_list)) (\<lambda>l.
       afold (\<lambda>item _. includes_of_value self sublist_path item) l ())"

definition load_body :: "load_env \<Rightarrow> (load_call \<Rightarrow> unit lact) \<Rightarrow> load_call \<Rightarrow> unit lact" where
  "load_body env self c =
     (case c of
        LoadFile path includes \<Rightarrow> LoadOneBuildFile_body env self path includes
      | IncludesInDict a path includes \<Rightarrow> LoadBuildFileIncludesIntoDict_body env self a path includes
      | IncludesInList a path \<Rightarrow> LoadBuildFileIncludesIntoList_body self a path)"

lemma annotate_mono [partial_function_mono]:
  assumes "\<And>s. mono_option (\<lambda>f. B f s)"
  shows "mono_option (\<lambda>f. annotate msg (B f) s)"
  using assms[of s] unfolding annotate_def monotone_def fun_ord_def flat_ord_def
  by (metis (no_types, lifting) option.case(1))

text \<open>Every body that takes \<open>self\<close> is monotone in it.\<close>

lemma includes_of_value_mono [call_mono]:
  assumes "\<And>c s. mono_option (\<lambda>f. S f c s)"
  shows "mono_option (\<lambda>f. includes_of_value (S f) path v s)"
  unfolding includes_of_value_def by (intro call_mono assms)

lemma merge_include_mono [call_mono]:
  assumes "\<And>c s. mono_option (\<lambda>f. S f c s)"
  shows "mono_option (\<lambda>f. merge_include env (S f) a path include s)"
  unfolding merge_include_def by (intro call_mono assms)

lemma load_items_mono [call_mono]:
  assumes "\<And>k v s. mono_option (\<lambda>f. B f k v s)"
  shows "mono_option (\<lambda>f. load_items a (B f) s)"
  unfolding load_items_def Let_def by (intro call_mono assms)

lemma LoadOneBuildFile_body_mono [call_mono]:
  assumes "\<And>c s. mono_option (\<lambda>f. S f c s)"
  shows "mono_option (\<lambda>f. LoadOneBuildFile_body env (S f) path includes s)"
  unfolding LoadOneBuildFile_body_def by (intro call_mono annotate_mono assms)

lemma LoadBuildFileIncludesIntoDict_body_mono [call_mono]:
  assumes "\<And>c s. mono_option (\<lambda>f. S f c s)"
  shows "mono_option (\<lambda>f. LoadBuildFileIncludesIntoDict_body env (S f) a path includes s)"
  unfolding LoadBuildFileIncludesIntoDict_body_def by (intro call_mono assms)

lemma LoadBuildFileIncludesIntoList_body_mono [call_mono]:
  assumes "\<And>c s. mono_option (\<lambda>f. S f c s)"
  shows "mono_option (\<lambda>f. LoadBuildFileIncludesIntoList_body (S f) a path s)"
  unfolding LoadBuildFileIncludesIntoList_body_def by (intro call_mono assms)

lemma load_body_mono [partial_function_mono]:
  assumes "\<And>c s. mono_option (\<lambda>f. S f c s)"
  shows "mono_option (\<lambda>f. load_body env (S f) c s)"
  unfolding load_body_def by (cases c) (auto intro!: call_mono assms)

partial_function (option) load_run :: "load_env \<Rightarrow> load_call \<Rightarrow> unit lact" where
  "load_run env c s = load_body env (\<lambda>c s. load_run env c s) c s"

declare load_run.simps [code]

section \<open>The functions\<close>

definition LoadOneBuildFile :: "load_env \<Rightarrow> string \<Rightarrow> string list \<Rightarrow> bool \<Rightarrow> nat lact" where
  "LoadOneBuildFile env build_file_path includes is_target =
     abind (load_run env (LoadFile build_file_path (if is_target then Some includes else None))) (\<lambda>_.
     abind state (\<lambda>s. of_res (dlookup (data_files s) build_file_path)))"

definition LoadBuildFileIncludesIntoDict :: "load_env \<Rightarrow> nat \<Rightarrow> string \<Rightarrow> string list option \<Rightarrow> unit lact" where
  "LoadBuildFileIncludesIntoDict env subdict subdict_path includes =
     load_run env (IncludesInDict subdict subdict_path includes)"

definition LoadBuildFileIncludesIntoList :: "load_env \<Rightarrow> nat \<Rightarrow> string \<Rightarrow> unit lact" where
  "LoadBuildFileIncludesIntoList env the_list sublist_path = load_run env (IncludesInList the_list sublist_path)"

end
