(* ===== verification/Gyp_Load_All.thy ===== *)
theory Gyp_Load_All
  imports Gyp_Include Gyp_Config Gyp_Filters Gyp_File_Graph Gyp_Validate
begin

text \<open>
  Loading everything (\<open>tools/gyp/pylib/gyp/input.py\<close>): \<open>LoadTargetBuildFile\<close> with the files of its
  dependencies, and \<open>Load\<close>, which ties the phases of all other theories together: it loads the build
  files one after the other, builds the table of targets, orders it, spreads dependent settings,
  expands the late references, sets up configurations, filters lists and validates the targets.
\<close>

section \<open>One target build file\<close>

text \<open>\<open>DEPTH\<close> is set in the dictionary of variables that all files share.\<close>

definition set_depth :: "load_env \<Rightarrow> string option \<Rightarrow> string \<Rightarrow> unit lact" where
  "set_depth env depth build_file_path =
     (case depth of
        None \<Rightarrow> ret ()
      | Some d \<Rightarrow>
          if d = [] then ret ()
          else change (\<lambda>s. s\<lparr>global_variables :=
            dset ''DEPTH'' (HStr (depth_variable (env_realpath (expansion env)) d build_file_path))
              (global_variables s)\<rparr>))"

text \<open>A step that computes a new dictionary from an old one, in place.\<close>

definition rewrite_dict :: "nat \<Rightarrow> (pydict \<Rightarrow> pydict res) \<Rightarrow> unit wact" where
  "rewrite_dict a f =
     abind (get_dict a) (\<lambda>d. abind (read_dict d) (\<lambda>t. abind (of_res (f t)) (\<lambda>r. abind (write_dict r) (set_dict a))))"

definition toolsets_of_dict :: "gyp_globals \<Rightarrow> pydict \<Rightarrow> pydict res" where
  "toolsets_of_dict g d = rbind (ProcessToolsets g (PDict d)) (\<lambda>v. case v of PDict r \<Rightarrow> Inr r | _ \<Rightarrow> Inr d)"

definition set_key :: "nat \<Rightarrow> string \<Rightarrow> hval \<Rightarrow> unit wact" where
  "set_key a k v = abind (get_dict a) (\<lambda>d. set_dict a (dset k v d))"

definition add_included_files :: "load_env \<Rightarrow> string \<Rightarrow> nat \<Rightarrow> string list \<Rightarrow> unit wact" where
  "add_included_files env build_file_path a included =
     abind (new_list (map (\<lambda>f. HStr (RelativePath (env_realpath (expansion env)) f (dirname build_file_path))) included))
       (set_key a ''included_files'')"

definition of_comp :: "'a comp \<Rightarrow> ('s, 'a) act" where
  "of_comp c = (case c of None \<Rightarrow> of_option None | Some r \<Rightarrow> of_res r)"

text \<open>What happens to the file behind its includes, up to the build files of its dependencies.\<close>

definition finish_file :: "load_env \<Rightarrow> string option \<Rightarrow> string \<Rightarrow> nat \<Rightarrow> string option list lact" where
  "finish_file env depth build_file_path a =
     (let x = expansion env; g = env_globals x; rp = env_realpath x in
      abind (in_world (set_key a ''_DEPTH'' (case depth of None \<Rightarrow> HNone | Some s \<Rightarrow> HStr s))) (\<lambda>_.
      abind (in_world (abind (get_dict a) (\<lambda>d.
          if dhas d ''included_files'' then throw (GypError (build_file_path @ '' must not contain included_files key''))
          else ret ()))) (\<lambda>_.
      abind state (\<lambda>s.
      abind (of_comp (GetIncludedBuildFiles build_file_path (aux_files s))) (\<lambda>included.
      abind (in_world (add_included_files env build_file_path a included)) (\<lambda>_.
      abind (in_world (rewrite_dict a (toolsets_of_dict g))) (\<lambda>_.
      abind (in_world (ProcessVariablesAndConditionsInDict x (HDict a) PHASE_EARLY (global_variables s)
               build_file_path None)) (\<lambda>_.
      abind (in_world (rewrite_dict a (toolsets_of_dict g))) (\<lambda>_.
      abind (in_world (rewrite_dict a (merge_target_defaults rp g build_file_path))) (\<lambda>_.
      abind (in_world (abind (get_dict a) read_dict)) (\<lambda>d.
        of_res (target_dependencies rp build_file_path d))))))))))))"

text \<open>\<open>LoadTargetBuildFile\<close> up to its dependencies: \<open>None\<close> when the file was loaded before.\<close>

definition load_target_file :: "load_env \<Rightarrow> string list \<Rightarrow> string option \<Rightarrow> string
    \<Rightarrow> string option list option lact" where
  "load_target_file env includes depth build_file_path =
     abind (set_depth env depth build_file_path) (\<lambda>_.
     abind state (\<lambda>s.
       if build_file_path \<in> set (target_build_files s) then ret None
       else
         abind (change (\<lambda>s. s\<lparr>target_build_files := target_build_files s @ [build_file_path]\<rparr>)) (\<lambda>_.
         abind (LoadOneBuildFile env build_file_path includes True) (\<lambda>a.
         abind (finish_file env depth build_file_path a) (\<lambda>deps. ret (Some deps))))))"

definition load_dependency :: "(string \<Rightarrow> unit lact) \<Rightarrow> string \<Rightarrow> string option \<Rightarrow> unit lact" where
  "load_dependency self build_file_path dependency =
     annotate (''while loading dependencies of '' @ build_file_path)
       (case dependency of
          Some d \<Rightarrow> self d
        | None \<Rightarrow> throw (TypeError ''coercing to Unicode: need string or buffer, NoneType found''))"

definition LoadTargetBuildFile_body :: "load_env \<Rightarrow> string list \<Rightarrow> string option \<Rightarrow> (string \<Rightarrow> unit lact)
    \<Rightarrow> string \<Rightarrow> unit lact" where
  "LoadTargetBuildFile_body env includes depth self build_file_path =
     abind (load_target_file env includes depth build_file_path) (\<lambda>r.
       case r of
         None \<Rightarrow> ret ()
       | Some deps \<Rightarrow> afold (\<lambda>dep _. load_dependency self build_file_path dep) deps ())"

lemma load_dependency_mono [call_mono]:
  assumes "\<And>p s. mono_option (\<lambda>f. S f p s)"
  shows "mono_option (\<lambda>f. load_dependency (S f) p d s)"
  unfolding load_dependency_def by (intro annotate_mono call_mono assms)

lemma LoadTargetBuildFile_body_mono [partial_function_mono]:
  assumes "\<And>p s. mono_option (\<lambda>f. S f p s)"
  shows "mono_option (\<lambda>f. LoadTargetBuildFile_body env includes depth (S f) p s)"
  unfolding LoadTargetBuildFile_body_def by (intro call_mono assms)

partial_function (option) LoadTargetBuildFile ::
    "load_env \<Rightarrow> string list \<Rightarrow> string option \<Rightarrow> string \<Rightarrow> unit lact" where
  "LoadTargetBuildFile env includes depth build_file_path s =
     LoadTargetBuildFile_body env includes depth
       (\<lambda>p s. LoadTargetBuildFile env includes depth p s) build_file_path s"

declare LoadTargetBuildFile.simps [code]

definition load_build_files :: "load_env \<Rightarrow> string list \<Rightarrow> string option \<Rightarrow> string list \<Rightarrow> unit lact" where
  "load_build_files env includes depth build_files =
     afold (\<lambda>build_file _. annotate (''while trying to load '' @ build_file)
       (LoadTargetBuildFile env includes depth build_file)) build_files ()"

section \<open>The phases behind loading\<close>

text \<open>\<open>data\<close> as a value: the dictionaries of the files that were read and the target build files.\<close>

definition loaded_data :: "pydict lact" where
  "loaded_data =
     abind state (\<lambda>s.
     abind (afold (\<lambda>(path, a) acc.
         abind (in_world (abind (get_dict a) read_dict)) (\<lambda>d. ret (acc @ [(path, PDict d)]))) (data_files s) [])
       (\<lambda>files. ret ((''target_build_files'', PList (map PStr (target_build_files s))) # files)))"

text \<open>The list filters of the dependency sections alone.\<close>

definition filter_dependency_sections :: "(string \<Rightarrow> (string \<Rightarrow> bool) option) \<Rightarrow> string \<Rightarrow> pydict \<Rightarrow> pydict res" where
  "filter_dependency_sections compile target_name target_dict =
     (let ks = filter (dhas target_dict) all_dependency_sections;
          tmp_dict = map (\<lambda>k. (k, the (dget target_dict k))) ks in
      rbind (ProcessListFiltersInDict compile target_name tmp_dict) (\<lambda>r.
        Inr (fold (\<lambda>(k, v). dset k v) r (fold ddel ks target_dict))))"

definition on_target :: "(string \<Rightarrow> pydict \<Rightarrow> pydict res) \<Rightarrow> string \<Rightarrow> target_table \<Rightarrow> target_table res" where
  "on_target f target targets =
     rbind (dlookup targets target) (\<lambda>d. rbind (f target d) (\<lambda>r. Inr (dset target r targets)))"

definition publish_settings :: "(string \<Rightarrow> string) \<Rightarrow> gyp_globals \<Rightarrow> string list \<Rightarrow> dep_graph
    \<Rightarrow> string \<Rightarrow> target_table \<Rightarrow> target_table comp" where
  "publish_settings rp g flat_list dependency_nodes settings_type targets =
     obind (DoDependentSettings rp g settings_type flat_list targets dependency_nodes) (\<lambda>targets.
       Some (rfold (on_target (\<lambda>_ d. Inr (ddel settings_type d))) flat_list targets))"

text \<open>One round of expansion over the finished targets, in the store and with the variables that
  loading left.\<close>

definition build_file_of :: "string \<Rightarrow> string" where
  "build_file_of target = (case BuildFile target of Some f \<Rightarrow> f | None \<Rightarrow> [])"

definition process_target :: "load_env \<Rightarrow> phase \<Rightarrow> string \<Rightarrow> target_table \<Rightarrow> target_table lact" where
  "process_target env phase target targets =
     abind state (\<lambda>s.
     abind (of_res (dlookup targets target)) (\<lambda>d.
     abind (in_world (write_tree (PDict d))) (\<lambda>v.
     abind (in_world (ProcessVariablesAndConditionsInDict (expansion env) v phase (global_variables s)
              (build_file_of target) None)) (\<lambda>_.
     abind (in_world (read_tree v)) (\<lambda>t.
       case t of PDict r \<Rightarrow> ret (dset target r targets) | _ \<Rightarrow> of_option None)))))"

definition h_contains :: "store \<Rightarrow> hval \<Rightarrow> string \<Rightarrow> bool res" where
  "h_contains h v x =
     (case v of
        HStr s \<Rightarrow> Inr (sublist x s)
      | HList a \<Rightarrow> Inr (HStr x \<in> set (list_obj h a))
      | HDict a \<Rightarrow> Inr (dhas (dict_obj h a) x)
      | _ \<Rightarrow> Inl (TypeError (''argument of type '' @ [CHR 0x27] @ h_class_name v @ [CHR 0x27] @ '' is not iterable'')))"

definition validate_target :: "generator_input_info \<Rightarrow> store \<Rightarrow> hdict \<Rightarrow> string \<Rightarrow> pydict \<Rightarrow> pydict res" where
  "validate_target gii h variables target d =
     rbind (ValidateTargetType target d) (\<lambda>_.
     rbind (h_contains h (dget_default variables ''target_arch'' (HStr [])) ''arm'') (\<lambda>arm.
     rbind (if arm then Inr () else ValidateSourcesInTarget target d (build_file_of target)) (\<lambda>_.
     rbind (ValidateRulesInTarget target d (gii_extra_sources_for_rules gii)) (\<lambda>d'.
     rbind (ValidateRunAsInTarget target d' (build_file_of target)) (\<lambda>_.
     rbind (ValidateActionsInTarget target d' (build_file_of target)) (\<lambda>_. Inr d'))))))"

section \<open>Load\<close>

definition resolve_dependencies :: "expand_env \<Rightarrow> pydict \<Rightarrow> target_table res" where
  "resolve_dependencies x data =
     rbind (BuildTargetsDict data) (\<lambda>targets.
     rbind (QualifyDependencies (env_realpath x) (env_globals x) targets) (\<lambda>targets.
     rbind (RemoveSelfDependencies targets) (\<lambda>targets.
     rbind (ExpandWildcardDependencies targets data) (\<lambda>targets.
     rbind (each_target (filter_dependency_sections (env_compile x)) targets)
       RemoveDuplicateDependencies))))"

text \<open>The checked and ordered targets, pruned to what the root targets need.\<close>

definition order_targets :: "(node_id list \<Rightarrow> node_id list \<Rightarrow> nat) \<Rightarrow> bool \<Rightarrow> string list \<Rightarrow> target_table
    \<Rightarrow> pydict \<Rightarrow> (target_table \<times> string list \<times> dep_graph \<times> pydict) comp" where
  "order_targets pick circular_check root_targets targets data =
     obind (if circular_check then VerifyNoGYPFileCircularDependencies pick targets else Some (Inr ())) (\<lambda>_.
     obind (BuildDependencyList pick targets) (\<lambda>(dependency_nodes, flat_list).
     obind (if root_targets = [] then Some (Inr (targets, flat_list, data))
            else PruneUnwantedTargets targets flat_list dependency_nodes root_targets data)
       (\<lambda>(targets, flat_list, data).
     obind (Some (VerifyNoCollidingTargets flat_list)) (\<lambda>_.
       Some (Inr (targets, flat_list, dependency_nodes, data))))))"

definition dependent_settings :: "string list" where
  "dependent_settings = [''all_dependent_settings'', ''direct_dependent_settings'', ''link_settings'']"

definition spread_settings :: "expand_env \<Rightarrow> generator_input_info \<Rightarrow> string list \<Rightarrow> dep_graph \<Rightarrow> target_table
    \<Rightarrow> target_table comp" where
  "spread_settings x gii flat_list dependency_nodes targets =
     obind (ofold (publish_settings (env_realpath x) (env_globals x) flat_list dependency_nodes)
              dependent_settings targets) (\<lambda>targets.
       if gii_adjust_static_libraries gii
       then AdjustStaticLibraryDependencies flat_list targets dependency_nodes (gii_sorted_dependencies gii)
       else Some (Inr targets))"

text \<open>The last phases work on one target after the other.\<close>

definition finish_targets :: "load_env \<Rightarrow> generator_input_info \<Rightarrow> string list \<Rightarrow> target_table \<Rightarrow> target_table lact" where
  "finish_targets env gii flat_list targets =
     (let x = expansion env in
      abind (afold (process_target env PHASE_LATE) flat_list targets) (\<lambda>targets.
      abind (of_res (rfold (on_target (SetUpConfigurations (env_realpath x) (env_globals x))) flat_list targets)) (\<lambda>targets.
      abind (of_res (rfold (on_target (ProcessListFiltersInDict (env_compile x))) flat_list targets)) (\<lambda>targets.
      abind (afold (process_target env PHASE_LATELATE) flat_list targets) (\<lambda>targets.
      abind state (\<lambda>s.
        of_res (rfold (on_target (validate_target gii (objects (outside s)) (global_variables s))) flat_list targets)))))))"

text \<open>The table and \<open>data\<close> share the dictionaries of the targets: what was done to the table shows in
  \<open>data\<close>.\<close>

definition share_target :: "target_table \<Rightarrow> string \<Rightarrow> pyval \<Rightarrow> pyval" where
  "share_target targets build_file v =
     (case rbind (py_getitem v (PStr ''target_name'')) (\<lambda>name.
           rbind (py_getitem v (PStr ''toolset'')) (qualified_name build_file name)) of
        Inl e \<Rightarrow> v
      | Inr n \<Rightarrow> (case dget targets n of Some d \<Rightarrow> PDict d | None \<Rightarrow> v))"

definition share_targets :: "target_table \<Rightarrow> string list \<Rightarrow> pydict \<Rightarrow> pydict" where
  "share_targets targets files data =
     map (\<lambda>(k, v). (k,
       if k \<in> set files then
         case v of
           PDict d \<Rightarrow>
             (case dget d ''targets'' of
                Some (PList l) \<Rightarrow> PDict (dset ''targets'' (PList (map (share_target targets k) l)) d)
              | _ \<Rightarrow> v)
         | _ \<Rightarrow> v
       else v)) data"

definition with_globals :: "generator_input_info \<Rightarrow> load_env \<Rightarrow> load_env" where
  "with_globals gii env = env\<lparr>expansion := (expansion env)\<lparr>env_globals := SetGeneratorGlobals gii\<rparr>\<rparr>"

text \<open>Everything behind the loading of the files, on what they hold: the ordered names, the table and
  \<open>data\<close>.\<close>

definition later_phases :: "load_env \<Rightarrow> (node_id list \<Rightarrow> node_id list \<Rightarrow> nat) \<Rightarrow> generator_input_info
    \<Rightarrow> bool \<Rightarrow> string list \<Rightarrow> pydict \<Rightarrow> (string list \<times> target_table \<times> pydict) lact" where
  "later_phases env pick gii circular_check root_targets data =
     (let x = expansion env in
      abind (of_res (resolve_dependencies x data)) (\<lambda>targets.
      abind (of_comp (order_targets pick circular_check root_targets targets data))
        (\<lambda>(targets, flat_list, dependency_nodes, data).
      abind (of_comp (spread_settings x gii flat_list dependency_nodes targets)) (\<lambda>targets.
      abind (finish_targets env gii flat_list targets) (\<lambda>targets.
      abind state (\<lambda>s.
        ret (flat_list, map (\<lambda>(t, d). (t, TurnIntIntoStrInDict d)) targets,
          TurnIntIntoStrInDict (share_targets targets (target_build_files s) data))))))))"

definition load_phases :: "load_env \<Rightarrow> (node_id list \<Rightarrow> node_id list \<Rightarrow> nat) \<Rightarrow> generator_input_info
    \<Rightarrow> bool \<Rightarrow> string list \<Rightarrow> (string list \<times> target_table \<times> pydict) lact" where
  "load_phases env pick gii circular_check root_targets =
     abind loaded_data (later_phases env pick gii circular_check root_targets)"

definition Load :: "load_env \<Rightarrow> (node_id list \<Rightarrow> node_id list \<Rightarrow> nat) \<Rightarrow> generator_input_info \<Rightarrow> string list
    \<Rightarrow> string list \<Rightarrow> string option \<Rightarrow> bool \<Rightarrow> string list \<Rightarrow> (string list \<times> target_table \<times> pydict) lact" where
  "Load env pick gii build_files includes depth circular_check root_targets =
     abind (load_build_files (with_globals gii env) includes depth (remdups (map normpath build_files)))
       (\<lambda>_. load_phases (with_globals gii env) pick gii circular_check root_targets)"

definition new_load_state :: load_state where
  "new_load_state = \<lparr>outside = new_world, data_files = [], target_build_files = [], aux_files = [],
     global_variables = [], files_read = []\<rparr>"

end
