(* ===== verification/Gyp_Expand_Commands.thy ===== *)
theory Gyp_Expand_Commands
  imports Gyp_Expand
begin

text \<open>
  What variable expansion does to the world outside the store: the induction rule for the calls, the
  invariants of the world that every call keeps as soon as running a command keeps them, and the
  command cache as one of them.
\<close>

section \<open>Induction over the calls\<close>

text \<open>What the bodies guarantee, given that the calls they make guarantee it, holds of every call that
  returns.\<close>

lemma process_spec:
  fixes pre :: "call \<Rightarrow> hdict \<Rightarrow> world \<Rightarrow> bool"
  assumes body: "\<And>self c variables w0.
      (\<And>c' v' w'. holds (\<lambda>w. w = w' \<and> pre c' v' w) (self c' v') (post c' v' w')) \<Longrightarrow>
      holds (\<lambda>w. w = w0 \<and> pre c variables w) (call_body env phase build_file self c variables) (post c variables w0)"
  shows "holds (\<lambda>w. w = w0 \<and> pre c variables w) (process env phase build_file c variables) (post c variables w0)"
proof (rule holdsI)
  fix w a w' assume w: "w = w0 \<and> pre c variables w" and run: "process env phase build_file c variables w = Some (Inr (a, w'))"
  define P where "P e p b c v w r \<longleftrightarrow> (e = env \<and> p = phase \<and> b = build_file \<and> pre c v w \<longrightarrow>
      (case r of Inl _ \<Rightarrow> True | Inr (a, w') \<Rightarrow> post c v w a w'))" for e p b c v w and r :: "(answer \<times> world) res"
  have "P env phase build_file c variables w (Inr (a, w'))"
  proof (rule process.raw_induct[of P, OF _ run])
    fix f e p b c v w r
    assume ih: "\<And>e p b c v w r. f e p b c v w = Some r \<Longrightarrow> P e p b c v w r"
      and r: "call_body e p b (\<lambda>c v w. f e p b c v w) c v w = Some r"
    show "P e p b c v w r"
      unfolding P_def
    proof (intro impI, elim conjE)
      assume eq: "e = env" "p = phase" "b = build_file" and pre: "pre c v w"
      have "holds (\<lambda>w. w = w' \<and> pre c' v' w) (f env phase build_file c' v') (post c' v' w')" for c' v' w'
        using ih[of env phase build_file c' v' w'] by (auto simp: holds_def P_def)
      then have "holds (\<lambda>u. u = w \<and> pre c v u)
          (call_body env phase build_file (\<lambda>c v w. f env phase build_file c v w) c v) (post c v w)"
        by (rule body)
      with pre r eq show "case r of Inl _ \<Rightarrow> True | Inr (a, w') \<Rightarrow> post c v w a w'"
        by (auto simp: holds_def split: sum.splits)
    qed
  qed
  with w show "post c variables w0 a w'" by (auto simp: P_def)
qed

section \<open>Invariants of the world\<close>

text \<open>An invariant that does not speak of the store, the files and the directories is kept by every
  call if it is kept when a command is run.\<close>

locale world_invariant =
  fixes env :: expand_env and J :: "world \<Rightarrow> bool"
  assumes J_objects: "J w \<Longrightarrow> J (w\<lparr>objects := h\<rparr>)"
    and J_files: "J w \<Longrightarrow> J (w\<lparr>written_files := fs\<rparr>)"
    and J_dirs: "J w \<Longrightarrow> J (w\<lparr>ensured_dirs := ds\<rparr>)"
    and J_run_command: "holds J (run_command env build_file m s) (\<lambda>_. J)"
begin

definition keeps :: "'a wact \<Rightarrow> bool" where
  "keeps m \<longleftrightarrow> holds J m (\<lambda>_. J)"

named_theorems keep

lemma keeps_bind [keep]: "keeps m \<Longrightarrow> (\<And>x. keeps (f x)) \<Longrightarrow> keeps (abind m f)"
  unfolding keeps_def by (rule holds_bind)

lemma keeps_basic [keep]:
  "keeps (ret x)" "keeps (throw e)" "keeps state" "keeps (of_res r)" "keeps (of_option v)"
  unfolding keeps_def by (simp_all add: holds_def)

lemma keeps_objects [keep]: "keeps (change (\<lambda>w. w\<lparr>objects := g w\<rparr>))"
  unfolding keeps_def by (rule holds_change) (rule J_objects)

lemma keeps_afold [keep]: "(\<And>x b. keeps (f x b)) \<Longrightarrow> keeps (afold f xs b)"
  unfolding keeps_def by (rule holds_afold[of _ "\<lambda>_. J"])

lemma keeps_if [keep]: "keeps m \<Longrightarrow> keeps n \<Longrightarrow> keeps (if b then m else n)"
  by simp

lemma keeps_case_option [keep]:
  "keeps m \<Longrightarrow> (\<And>x. keeps (f x)) \<Longrightarrow> keeps (case v of None \<Rightarrow> m | Some x \<Rightarrow> f x)"
  by (cases v) simp_all

lemma keeps_case_hval [keep]:
  "(\<And>s. keeps (A s)) \<Longrightarrow> (\<And>i. keeps (B i)) \<Longrightarrow> (\<And>a. keeps (C a)) \<Longrightarrow> (\<And>a. keeps (D a)) \<Longrightarrow> keeps E \<Longrightarrow>
    keeps (case v of HStr s \<Rightarrow> A s | HInt i \<Rightarrow> B i | HList a \<Rightarrow> C a | HDict a \<Rightarrow> D a | HNone \<Rightarrow> E)"
  by (cases v) simp_all

lemma keeps_case_pyval [keep]:
  "(\<And>s. keeps (A s)) \<Longrightarrow> (\<And>i. keeps (B i)) \<Longrightarrow> (\<And>a. keeps (C a)) \<Longrightarrow> (\<And>a. keeps (D a)) \<Longrightarrow> keeps E \<Longrightarrow>
    keeps (case v of PStr s \<Rightarrow> A s | PInt i \<Rightarrow> B i | PList a \<Rightarrow> C a | PDict a \<Rightarrow> D a | PNone \<Rightarrow> E)"
  by (cases v) simp_all

lemma keeps_case_expanded [keep]:
  "(\<And>s. keeps (A s)) \<Longrightarrow> (\<And>i. keeps (B i)) \<Longrightarrow> (\<And>l. keeps (C l)) \<Longrightarrow>
    keeps (case e of EStr s \<Rightarrow> A s | EInt i \<Rightarrow> B i | EList l \<Rightarrow> C l)"
  by (cases e) simp_all

lemma keeps_case_answer [keep]:
  "(\<And>e. keeps (A e)) \<Longrightarrow> keeps B \<Longrightarrow> keeps (case a of Expanded e \<Rightarrow> A e | Processed \<Rightarrow> B)"
  by (cases a) simp_all

lemma keeps_run_command [keep]: "keeps (run_command env build_file m s)"
  unfolding keeps_def by (rule J_run_command)

lemma keeps_store [keep]:
  "keeps (get_list a)" "keeps (get_dict a)" "keeps (set_list a l)" "keeps (set_dict a d)" "keeps (new_list l)"
  "keeps (read_tree v)" "keeps (read_trees vs)" "keeps (read_dict d)" "keeps (check_keys a ks)"
  unfolding get_list_def get_dict_def set_list_def set_dict_def new_list_def read_tree_def read_trees_def
    read_dict_def check_keys_def
  by (intro keep)+

lemma keeps_write_dict [keep]: "keeps (write_dict d)"
  unfolding write_dict_def Let_def case_prod_beta by (intro keep)

lemma keeps_for_items [keep]: "(\<And>k v. keeps (B k v)) \<Longrightarrow> keeps (for_items a B)"
  unfolding for_items_def Let_def by (intro keep)

lemma keeps_write_file_list [keep]: "keeps (write_file_list env build_file s)"
proof -
  have "keeps (EnsureDirExists p)" for p
    unfolding EnsureDirExists_def keeps_def by (rule holds_change) (rule J_dirs)
  moreover have "keeps (change (\<lambda>w. w\<lparr>written_files := g w\<rparr>))" for g
    unfolding keeps_def by (rule holds_change) (rule J_files)
  ultimately show ?thesis
    unfolding write_file_list_def file_list_path_def Let_def by (intro keep)
qed

lemma keeps_values [keep]:
  "keeps (str_of_value v)" "keeps (lookup_variable s build_file variables)"
  "keeps (filtered_variables env s variables)" "keeps (value_of_expanded e)"
  "keeps (canonical_integers e)" "keeps (eval_condition env build_file s variables)"
  "keeps (load_variables a key variables)" "keeps (automatic_variables a variables)"
  unfolding str_of_value_def lookup_variable_def filtered_variables_def value_of_expanded_def
    canonical_integers_def eval_condition_def load_variables_def automatic_variables_def
  by (intro keep)+

lemma keeps_replacements [keep]:
  "keeps (encode_replacement v)" "keeps (list_replacement v)" "keeps (set_item_at a l i v)"
  "keeps (reload_variables a key variables)"
  unfolding encode_replacement_def list_replacement_def set_item_at_def reload_variables_def
  by (intro keep)+

lemma keeps_find_replacement [keep]: "keeps (find_replacement env build_file variables m s)"
  unfolding find_replacement_def by (intro keep)

lemma keeps_put_replacement [keep]: "keeps (put_replacement b s t v)"
  unfolding put_replacement_def by (intro keep)

lemma keeps_expand_call [keep]:
  assumes "\<And>c v. keeps (self c v)"
  shows "keeps (expand_call self v variables)"
  unfolding expand_call_def Let_def case_prod_beta by (intro keep assms)

lemma keeps_process_call [keep]:
  assumes "\<And>c v. keeps (self c v)"
  shows "keeps (process_call self c variables)"
  unfolding process_call_def Let_def case_prod_beta by (intro keep assms)

lemma keeps_prepare_replacement [keep]:
  assumes "\<And>c v. keeps (self c v)"
  shows "keeps (prepare_replacement self s v variables)"
  unfolding prepare_replacement_def Let_def case_prod_beta by (intro keep assms)

lemma keeps_expand_match [keep]:
  assumes "\<And>c v. keeps (self c v)"
  shows "keeps (expand_match env build_file self variables m s)"
  unfolding expand_match_def Let_def case_prod_beta by (intro keep assms)

lemma keeps_replace_match [keep]:
  assumes "\<And>c v. keeps (self c v)"
  shows "keeps (replace_match env build_file self variables m out)"
  unfolding replace_match_def Let_def case_prod_beta by (intro keep assms)

lemma keeps_expand_again [keep]:
  assumes "\<And>c v. keeps (self c v)"
  shows "keeps (expand_again self variables out)"
  unfolding expand_again_def Let_def case_prod_beta by (intro keep assms)

lemma keeps_ExpandVariables_body [keep]:
  assumes "\<And>c v. keeps (self c v)"
  shows "keeps (ExpandVariables_body env phase build_file self v variables)"
  unfolding ExpandVariables_body_def Let_def case_prod_beta by (intro keep assms)

lemma keeps_merge_branch [keep]:
  assumes "\<And>c v. keeps (self c v)"
  shows "keeps (merge_branch env build_file self a v variables)"
  unfolding merge_branch_def by (intro keep assms)

lemma keeps_process_condition [keep]:
  assumes "\<And>c v. keeps (self c v)"
  shows "keeps (process_condition env build_file self key a condition variables)"
  unfolding process_condition_def Let_def case_prod_beta by (intro keep assms)

lemma keeps_ConditionsFrom_body [keep]:
  assumes "\<And>c v. keeps (self c v)"
  shows "keeps (ConditionsFrom_body env phase build_file self a l i variables)"
  unfolding ConditionsFrom_body_def Let_def case_prod_beta by (intro keep assms)

lemma keeps_ProcessConditionsInDict_body [keep]:
  assumes "\<And>c v. keeps (self c v)"
  shows "keeps (ProcessConditionsInDict_body phase self a variables)"
  unfolding ProcessConditionsInDict_body_def Let_def case_prod_beta by (intro keep assms)

lemma keeps_process_variables [keep]:
  assumes "\<And>c v. keeps (self c v)"
  shows "keeps (process_variables self a variables)"
  unfolding process_variables_def Let_def case_prod_beta by (intro keep assms)

lemma keeps_expand_item [keep]:
  assumes "\<And>c v. keeps (self c v)"
  shows "keeps (expand_item self a variables k v)"
  unfolding expand_item_def Let_def case_prod_beta by (intro keep assms)

lemma keeps_process_item [keep]:
  assumes "\<And>c v. keeps (self c v)"
  shows "keeps (process_item self variables k v)"
  unfolding process_item_def Let_def case_prod_beta by (intro keep assms)

lemma keeps_InDict_body [keep]:
  assumes "\<And>c v. keeps (self c v)"
  shows "keeps (InDict_body self v key variables)"
  unfolding InDict_body_def Let_def case_prod_beta by (intro keep assms)

lemma keeps_InList_body [keep]:
  assumes "\<And>c v. keeps (self c v)"
  shows "keeps (InList_body self a i variables)"
  unfolding InList_body_def Let_def case_prod_beta by (intro keep assms)

theorem process_keeps: "keeps (process env phase build_file c variables)"
proof -
  have "holds (\<lambda>w. w = w0 \<and> J w) (process env phase build_file c variables) (\<lambda>_. J)" for w0
  proof (rule process_spec[where pre = "\<lambda>_ _. J" and post = "\<lambda>_ _ _ _. J"])
    fix self :: caller and c variables w0
    assume "\<And>c' v' w'. holds (\<lambda>w. w = w' \<and> J w) (self c' v') (\<lambda>_. J)"
    then have self: "\<And>c v. keeps (self c v)" by (auto simp: keeps_def holds_def)
    then have "keeps (call_body env phase build_file self c variables)"
      unfolding call_body_def by (cases c; simp only: call.case; intro keep) (rule self)+
    then show "holds (\<lambda>w. w = w0 \<and> J w) (call_body env phase build_file self c variables) (\<lambda>_. J)"
      by (auto simp: keeps_def holds_def)
  qed
  then show ?thesis by (auto simp: keeps_def holds_def)
qed

end

section \<open>The command cache\<close>

definition command_key :: "command \<Rightarrow> string" where
  "command_key c = (case c of Popen use_shell contents d \<Rightarrow> py_str contents | DoMain contents d \<Rightarrow> py_str contents)"

lemma command_key_simps [simp]:
  "command_key (Popen use_shell contents d) = py_str contents"
  "command_key (DoMain contents d) = py_str contents"
  by (simp_all add: command_key_def)

text \<open>No two of the commands that were run have the same text, and each result is in the cache.\<close>

definition commands_once :: "world \<Rightarrow> bool" where
  "commands_once w \<longleftrightarrow> distinct (map command_key (commands_run w))
     \<and> command_key ` set (commands_run w) \<subseteq> set (dkeys (cached_command_results w))"

lemma call_command_logs:
  assumes "call_command env use_shell d contents w = Some (Inr (r, w'))"
  shows "w' = w\<lparr>commands_run := commands_run w @ [Popen use_shell contents d]\<rparr>"
  using assms by (auto simp: call_command_def log_command_def split: if_splits)

lemma pymod_do_main_logs:
  assumes "pymod_do_main env d contents w = Some (Inr (r, w'))"
  shows "w' = w\<lparr>commands_run := commands_run w @ [DoMain contents d]\<rparr>"
  using assms unfolding pymod_do_main_def log_command_def abind_Inr of_res_Inr
  by (auto split: list.splits simp: neq_Nil_conv)

lemma run_uncached_logs:
  assumes "run_uncached env d m contents w = Some (Inr (r, w'))"
  shows "\<exists>c. command_key c = py_str contents \<and> w' = w\<lparr>commands_run := commands_run w @ [c]\<rparr>"
proof (cases "m_command m")
  case None
  with assms call_command_logs[of env "m_is_array m = []" d contents w r w'] show ?thesis
    by (intro exI[of _ "Popen (m_is_array m = []) contents d"]) (simp add: run_uncached_def)
next
  case (Some command_string)
  with assms pymod_do_main_logs[of env d contents w r w'] show ?thesis
    by (intro exI[of _ "DoMain contents d"]) (simp add: run_uncached_def split: if_splits)
qed

lemma run_command_cases:
  assumes "run_command env build_file m s w = Some (Inr (r, w'))"
  shows "w' = w \<or> (\<exists>c. \<not> dhas (cached_command_results w) (command_key c)
    \<and> w' = w\<lparr>commands_run := commands_run w @ [c],
          cached_command_results := dset (command_key c) r (cached_command_results w)\<rparr>)"
proof -
  let ?d = "if dirname build_file = [] then None else Some (dirname build_file)"
  from assms obtain contents where
    run: "(case dget (cached_command_results w) (py_str contents) of
        Some cached_value \<Rightarrow> ret cached_value
      | None \<Rightarrow> abind (run_uncached env ?d m contents) (\<lambda>replacement.
          abind (change (\<lambda>w. w\<lparr>cached_command_results :=
            dset (py_str contents) replacement (cached_command_results w)\<rparr>)) (\<lambda>_. ret replacement))) w
      = Some (Inr (r, w'))"
    unfolding run_command_def Let_def abind_Inr of_res_Inr by auto
  show ?thesis
  proof (cases "dget (cached_command_results w) (py_str contents)")
    case None
    with run obtain u where u: "run_uncached env ?d m contents w = Some (Inr (r, u))"
      "w' = u\<lparr>cached_command_results := dset (py_str contents) r (cached_command_results u)\<rparr>" by auto
    from run_uncached_logs[OF u(1)] obtain c where
      c: "command_key c = py_str contents" "u = w\<lparr>commands_run := commands_run w @ [c]\<rparr>" by blast
    from c(1) None have "\<not> dhas (cached_command_results w) (command_key c)" by (simp add: dhas_def)
    moreover from u(2) c have "w' = w\<lparr>commands_run := commands_run w @ [c],
        cached_command_results := dset (command_key c) r (cached_command_results w)\<rparr>" by simp
    ultimately show ?thesis by blast
  next
    case (Some r')
    with run show ?thesis by simp
  qed
qed

interpretation once: world_invariant env commands_once for env
proof unfold_locales
  show "holds commands_once (run_command env build_file m s) (\<lambda>_. commands_once)" for build_file m s
  proof (rule holdsI)
    fix w r w' assume once: "commands_once w" and run: "run_command env build_file m s w = Some (Inr (r, w'))"
    from run_command_cases[OF run] show "commands_once w'"
    proof (elim disjE exE conjE)
      fix c assume "\<not> dhas (cached_command_results w) (command_key c)"
        "w' = w\<lparr>commands_run := commands_run w @ [c],
          cached_command_results := dset (command_key c) r (cached_command_results w)\<rparr>"
      with once show ?thesis by (auto simp: commands_once_def dhas_iff dkeys_dset)
    qed (use once in simp)
  qed
qed (simp_all add: commands_once_def)

text \<open>The log of commands only grows, and a result stays in the cache.\<close>

definition commands_extend :: "world \<Rightarrow> world \<Rightarrow> bool" where
  "commands_extend w0 w \<longleftrightarrow> prefix (commands_run w0) (commands_run w)
     \<and> (\<forall>k r. dget (cached_command_results w0) k = Some r \<longrightarrow> dget (cached_command_results w) k = Some r)"

interpretation extend: world_invariant env "commands_extend w0" for env w0
proof unfold_locales
  show "holds (commands_extend w0) (run_command env build_file m s) (\<lambda>_. commands_extend w0)" for build_file m s
  proof (rule holdsI)
    fix w r w' assume ext: "commands_extend w0 w" and run: "run_command env build_file m s w = Some (Inr (r, w'))"
    from run_command_cases[OF run] show "commands_extend w0 w'"
    proof (elim disjE exE conjE)
      fix c assume "\<not> dhas (cached_command_results w) (command_key c)"
        "w' = w\<lparr>commands_run := commands_run w @ [c],
          cached_command_results := dset (command_key c) r (cached_command_results w)\<rparr>"
      with ext show ?thesis by (auto simp: commands_extend_def dhas_def)
    qed (use ext in simp)
  qed
qed (simp_all add: commands_extend_def)

text \<open>C8.  However often and in whatever order a command is referred to, in strings, lists, conditions
  and nested references, expansion runs no two commands with the same text; what it ran before stays
  run, and every result stays in the cache.\<close>

theorem commands_run_once:
  assumes "ProcessVariablesAndConditionsInDict env the_dict phase variables_in build_file the_dict_key w
      = Some (Inr ((), w'))"
    and "commands_once w"
  shows "commands_once w' \<and> commands_extend w w'"
proof -
  from assms(1) obtain a where
    run: "process env phase build_file (InDict the_dict the_dict_key) variables_in w = Some (Inr (a, w'))"
    by (auto simp: ProcessVariablesAndConditionsInDict_def process_call_def)
  have "commands_extend w w" by (simp add: commands_extend_def)
  with assms(2) show ?thesis
    using holdsD[OF once.process_keeps[unfolded once.keeps_def] _ run]
      holdsD[OF extend.process_keeps[unfolded extend.keeps_def] _ run] by blast
qed

definition example_command_world :: world where
  "example_command_world = new_world\<lparr>objects := [DObj [(''k'', HStr ''<!(ls)<!(ls)'')]]\<rparr>"

theorem commands_run_once_witness:
  "\<exists>w'. ProcessVariablesAndConditionsInDict example_env (HDict 0) PHASE_EARLY [] ''a.gyp'' None
      example_command_world = Some (Inr ((), w'))
    \<and> objects w' = [DObj [(''k'', HStr ''!ls!!ls!'')]] \<and> commands_run w' = [Popen True (PStr ''ls'') None]
    \<and> commands_once w' \<and> commands_extend example_command_world w'"
proof -
  have run: "ProcessVariablesAndConditionsInDict example_env (HDict 0) PHASE_EARLY [] ''a.gyp'' None
      example_command_world = Some (Inr ((), example_command_world\<lparr>objects := [DObj [(''k'', HStr ''!ls!!ls!'')]],
        cached_command_results := [(''ls'', ''!ls!'')], commands_run := [Popen True (PStr ''ls'') None]\<rparr>))"
    by code_simp
  have "commands_once example_command_world"
    by (simp add: commands_once_def example_command_world_def new_world_def)
  from commands_run_once[OF run this] run show ?thesis by auto
qed

end
