(* ===== verification/Gyp_Load_Runs.thy ===== *)
theory Gyp_Load_Runs
  imports Gyp_Load_All Gyp_Expand_Commands
begin

text \<open>
  What holds across a whole run of \<open>Load\<close>: the invariants of the state of loading that every function
  keeps as soon as the few steps that write its fields keep them.  Two of them: no command runs twice
  in all files and phases together, and no file is read twice.
\<close>

section \<open>Induction over the calls\<close>

lemma load_run_spec:
  assumes body: "\<And>self c. (\<And>c'. holds I (self c') (\<lambda>_. I)) \<Longrightarrow> holds I (load_body env self c) (\<lambda>_. I)"
  shows "holds I (load_run env c) (\<lambda>_. I)"
proof (rule holdsI)
  fix s u s' assume s: "I s" and run: "load_run env c s = Some (Inr (u, s'))"
  define P where "P e c s r \<longleftrightarrow> (e = env \<and> I s \<longrightarrow> (case r of Inl _ \<Rightarrow> True | Inr (u, s') \<Rightarrow> I s'))"
    for e and c :: load_call and s and r :: "(unit \<times> load_state) res"
  have "P env c s (Inr (u, s'))"
  proof (rule load_run.raw_induct[of P, OF _ run])
    fix f e c s r
    assume ih: "\<And>e c s r. f e c s = Some r \<Longrightarrow> P e c s r"
      and r: "load_body e (\<lambda>c s. f e c s) c s = Some r"
    show "P e c s r"
      unfolding P_def
    proof (intro impI, elim conjE)
      assume e: "e = env" and s: "I s"
      have "holds I (f env c') (\<lambda>_. I)" for c' using ih[where e = env and c = c'] by (fastforce simp: holds_def P_def)
      then have "holds I (load_body env (\<lambda>c s. f env c s) c) (\<lambda>_. I)" by (rule body)
      with r e s show "case r of Inl _ \<Rightarrow> True | Inr (u, s') \<Rightarrow> I s'" by (auto simp: holds_def split: sum.splits)
    qed
  qed
  with s show "I s'" by (simp add: P_def)
qed

lemma LoadTargetBuildFile_spec:
  assumes body: "\<And>self p. (\<And>p'. holds I (self p') (\<lambda>_. I)) \<Longrightarrow>
    holds I (LoadTargetBuildFile_body env includes depth self p) (\<lambda>_. I)"
  shows "holds I (LoadTargetBuildFile env includes depth p) (\<lambda>_. I)"
proof (rule holdsI)
  fix s u s' assume s: "I s" and run: "LoadTargetBuildFile env includes depth p s = Some (Inr (u, s'))"
  define P where "P e i d p s r \<longleftrightarrow> (e = env \<and> i = includes \<and> d = depth \<and> I s \<longrightarrow>
      (case r of Inl _ \<Rightarrow> True | Inr (u, s') \<Rightarrow> I s'))" for e i d and p :: string and s and r :: "(unit \<times> load_state) res"
  have "P env includes depth p s (Inr (u, s'))"
  proof (rule LoadTargetBuildFile.raw_induct[of P, OF _ run])
    fix f e i d p s r
    assume ih: "\<And>e i d p s r. f e i d p s = Some r \<Longrightarrow> P e i d p s r"
      and r: "LoadTargetBuildFile_body e i d (\<lambda>p s. f e i d p s) p s = Some r"
    show "P e i d p s r"
      unfolding P_def
    proof (intro impI, elim conjE)
      assume eq: "e = env" "i = includes" "d = depth" and s: "I s"
      have "holds I (f env includes depth p') (\<lambda>_. I)" for p'
        using ih[where e = env and i = "includes" and d = depth and p = p'] by (fastforce simp: holds_def P_def)
      then have "holds I (LoadTargetBuildFile_body env includes depth (\<lambda>p s. f env includes depth p s) p) (\<lambda>_. I)"
        by (rule body)
      with r eq s show "case r of Inl _ \<Rightarrow> True | Inr (u, s') \<Rightarrow> I s'" by (auto simp: holds_def split: sum.splits)
    qed
  qed
  with s show "I s'" by (simp add: P_def)
qed

section \<open>Invariants of loading\<close>

text \<open>An invariant that reading files keeps, and one that the steps around them keep too.\<close>

locale file_invariant =
  fixes env :: load_env and I :: "load_state \<Rightarrow> bool"
  assumes I_world: "world_invariant (expansion env) (\<lambda>w. I (s\<lparr>outside := w\<rparr>))"
    and I_enter: "I s \<Longrightarrow> \<not> dhas (data_files s) path \<Longrightarrow>
      I (s\<lparr>data_files := dset path a (data_files s), aux_files := dset path [] (aux_files s),
        files_read := files_read s @ [path]\<rparr>)"
    and I_included: "I s \<Longrightarrow> dget (aux_files s) path = Some d \<Longrightarrow>
      I (s\<lparr>aux_files := dset path (dset ''included'' l d) (aux_files s)\<rparr>)"
begin

definition world_keeps :: "'a wact \<Rightarrow> bool" where
  "world_keeps m \<longleftrightarrow> (\<forall>s. holds (\<lambda>w. I (s\<lparr>outside := w\<rparr>)) m (\<lambda>_ w. I (s\<lparr>outside := w\<rparr>)))"

definition load_keeps :: "'a lact \<Rightarrow> bool" where
  "load_keeps m \<longleftrightarrow> holds I m (\<lambda>_. I)"

named_theorems wkeep
named_theorems lkeep

lemma world_keeps_bind [wkeep]: "world_keeps m \<Longrightarrow> (\<And>x. world_keeps (f x)) \<Longrightarrow> world_keeps (abind m f)"
  unfolding world_keeps_def by (blast intro: holds_bind)

lemma world_keeps_basic [wkeep]:
  "world_keeps (ret x)" "world_keeps (throw e)" "world_keeps state" "world_keeps (of_res r)" "world_keeps (of_option v)"
  unfolding world_keeps_def by (simp_all add: holds_def)

lemma world_keeps_objects [wkeep]: "world_keeps (change (\<lambda>w. w\<lparr>objects := g w\<rparr>))"
  unfolding world_keeps_def using world_invariant.J_objects[OF I_world] by (blast intro: holds_change)

lemma world_keeps_if [wkeep]: "world_keeps m \<Longrightarrow> world_keeps n \<Longrightarrow> world_keeps (if b then m else n)"
  by simp

lemma world_keeps_store [wkeep]:
  "world_keeps (get_list a)" "world_keeps (get_dict a)" "world_keeps (set_list a l)" "world_keeps (set_dict a d)"
  "world_keeps (new_list l)" "world_keeps (read_tree v)" "world_keeps (read_dict d)" "world_keeps (check_keys a ks)"
  "world_keeps (write_dict t)" "world_keeps (write_tree u)"
  unfolding get_list_def get_dict_def set_list_def set_dict_def new_list_def read_tree_def read_dict_def
    check_keys_def write_dict_def write_tree_def Let_def case_prod_beta
  by (intro wkeep)+

lemma world_keeps_steps [wkeep]:
  "world_keeps (merge_into e a d to_file fro_file)" "world_keeps (rewrite_dict a f)" "world_keeps (set_key a k v)"
  "world_keeps (add_included_files e path a l)"
  unfolding merge_into_def rewrite_dict_def set_key_def add_included_files_def
  by (intro wkeep)+

lemma world_keeps_process [wkeep]:
  "world_keeps (ProcessVariablesAndConditionsInDict (expansion env) v phase variables build_file key)"
  using world_invariant.process_keeps[OF I_world]
  unfolding world_keeps_def world_invariant.keeps_def[OF I_world] ProcessVariablesAndConditionsInDict_def process_call_def
  by (auto intro!: holds_bind[OF _ holds_ret])

lemma load_keeps_bind [lkeep]: "load_keeps m \<Longrightarrow> (\<And>x. load_keeps (f x)) \<Longrightarrow> load_keeps (abind m f)"
  unfolding load_keeps_def by (rule holds_bind)

lemma load_keeps_basic [lkeep]:
  "load_keeps (ret x)" "load_keeps (throw e)" "load_keeps state" "load_keeps (of_res r)" "load_keeps (of_option v)"
  unfolding load_keeps_def by (simp_all add: holds_def)

lemma load_keeps_afold [lkeep]: "(\<And>x b. load_keeps (f x b)) \<Longrightarrow> load_keeps (afold f xs b)"
  unfolding load_keeps_def by (rule holds_afold[of _ "\<lambda>_. I"])

lemma load_keeps_cases [lkeep]:
  "load_keeps m \<Longrightarrow> load_keeps n \<Longrightarrow> load_keeps (if b then m else n)"
  "load_keeps m \<Longrightarrow> (\<And>x. load_keeps (f x)) \<Longrightarrow> load_keeps (case v of None \<Rightarrow> m | Some x \<Rightarrow> f x)"
  "(\<And>s. load_keeps (A s)) \<Longrightarrow> (\<And>i. load_keeps (B i)) \<Longrightarrow> (\<And>a. load_keeps (C a)) \<Longrightarrow> (\<And>a. load_keeps (D a)) \<Longrightarrow>
    load_keeps E \<Longrightarrow>
    load_keeps (case v' of HStr s \<Rightarrow> A s | HInt i \<Rightarrow> B i | HList a \<Rightarrow> C a | HDict a \<Rightarrow> D a | HNone \<Rightarrow> E)"
  "(\<And>s. load_keeps (A s)) \<Longrightarrow> (\<And>i. load_keeps (B i)) \<Longrightarrow> (\<And>l. load_keeps (F l)) \<Longrightarrow> (\<And>d. load_keeps (G d)) \<Longrightarrow>
    load_keeps E \<Longrightarrow>
    load_keeps (case t of PStr s \<Rightarrow> A s | PInt i \<Rightarrow> B i | PList l \<Rightarrow> F l | PDict d \<Rightarrow> G d | PNone \<Rightarrow> E)"
  by (simp, simp split: option.split, cases v', simp_all, cases t, simp_all)

lemma load_keeps_in_world [lkeep]:
  assumes "world_keeps m"
  shows "load_keeps (in_world m)"
  unfolding load_keeps_def
proof (rule holdsI)
  fix s x s' assume I: "I s" and run: "in_world m s = Some (Inr (x, s'))"
  from run obtain w where w: "m (outside s) = Some (Inr (x, w))" "s' = s\<lparr>outside := w\<rparr>"
    by (auto simp: in_world_def)
  have "I (s\<lparr>outside := outside s\<rparr>)" using I by simp
  with assms w(1) show "I s'" unfolding w(2) world_keeps_def by (blast dest: holdsD)
qed

lemma load_keeps_annotate [lkeep]: "load_keeps m \<Longrightarrow> load_keeps (annotate msg m)"
  unfolding load_keeps_def holds_def annotate_def by (auto split: option.splits sum.splits)

lemma load_keeps_of_comp [lkeep]: "load_keeps (of_comp c)"
  unfolding of_comp_def by (intro lkeep)

lemma load_keeps_items [lkeep]: "(\<And>k v. load_keeps (B k v)) \<Longrightarrow> load_keeps (load_items a B)"
  unfolding load_items_def Let_def by (intro lkeep wkeep)

text \<open>Reading a file enters it where it was not before.\<close>

lemma enter_file_keeps:
  "holds (\<lambda>s. I s \<and> \<not> dhas (data_files s) path) (enter_file path d) (\<lambda>_. I)"
proof (rule holdsI)
  fix s a s' assume I: "I s \<and> \<not> dhas (data_files s) path" and run: "enter_file path d s = Some (Inr (a, s'))"
  from run obtain hd w where w: "write_dict d (outside s) = Some (Inr (hd, w))"
    and s': "s' = s\<lparr>outside := w\<lparr>objects := objects w @ [DObj hd]\<rparr>, data_files := dset path a (data_files s),
        aux_files := dset path [] (aux_files s), files_read := files_read s @ [path]\<rparr>"
    by (auto simp: enter_file_def in_world_def Let_def)
  have "I (s\<lparr>outside := outside s\<rparr>)" using I by simp
  with world_keeps_store(9)[of d] w have "I (s\<lparr>outside := w\<rparr>)" unfolding world_keeps_def by (blast dest: holdsD)
  then have "I (s\<lparr>outside := w\<lparr>objects := objects w @ [DObj hd]\<rparr>\<rparr>)"
    using world_invariant.J_objects[OF I_world] by blast
  from I_enter[OF this, of path a] I show "I s'" by (simp add: s')
qed

lemma LoadOneBuildFile_body_keeps:
  assumes "\<And>c. load_keeps (self c)"
  shows "load_keeps (LoadOneBuildFile_body env self path includes)"
  unfolding load_keeps_def
proof (rule holdsI)
  fix s u s' assume I: "I s" and run: "LoadOneBuildFile_body env self path includes s = Some (Inr (u, s'))"
  show "I s'"
  proof (cases "dhas (data_files s) path")
    case True
    with run I show ?thesis by (simp add: LoadOneBuildFile_body_def)
  next
    case False
    with run obtain v where
      "(case v of
          PDict d \<Rightarrow> abind (enter_file path d) (\<lambda>a. if truthy (dget_default d ''skip_includes'' (PInt 0)) then ret ()
            else annotate (''while reading includes of '' @ path) (self (IncludesInDict a path includes)))
        | _ \<Rightarrow> throw (GypError (path @ '' does not evaluate to a dictionary.''))) s = Some (Inr (u, s'))"
      by (auto simp: LoadOneBuildFile_body_def simp del: act_simps(3) simp: abind_Inr split: option.splits)
    then obtain d where
      rest: "abind (enter_file path d) (\<lambda>a. if truthy (dget_default d ''skip_includes'' (PInt 0)) then ret ()
         else annotate (''while reading includes of '' @ path) (self (IncludesInDict a path includes))) s = Some (Inr (u, s'))"
      by (cases v) (simp_all del: act_simps(3))
    have "holds (\<lambda>s. I s \<and> \<not> dhas (data_files s) path) (abind (enter_file path d)
        (\<lambda>a. if truthy (dget_default d ''skip_includes'' (PInt 0)) then ret ()
         else annotate (''while reading includes of '' @ path) (self (IncludesInDict a path includes)))) (\<lambda>_. I)"
      by (rule holds_bind[OF enter_file_keeps], fold load_keeps_def) (intro lkeep assms)
    from holdsD[OF this _ rest] I False show ?thesis by blast
  qed
qed

lemma add_included_keeps [lkeep]: "load_keeps (add_included path include)"
  unfolding load_keeps_def
proof (rule holdsI)
  fix s u s' assume "I s" "add_included path include s = Some (Inr (u, s'))"
  then show "I s'" using I_included by (fastforce simp: add_included_def)
qed

lemma load_body_keeps:
  assumes "\<And>c. load_keeps (self c)"
  shows "load_keeps (load_body env self c)"
proof (cases c)
  case (LoadFile p i)
  then show ?thesis using LoadOneBuildFile_body_keeps[OF assms] by (simp add: load_body_def)
next
  case (IncludesInDict a p i)
  have "load_keeps (merge_include env self a p x)" for x
    unfolding merge_include_def by (intro lkeep wkeep assms)
  moreover have "load_keeps (includes_of_value self p v)" for v
    unfolding includes_of_value_def by (intro lkeep assms)
  ultimately show ?thesis unfolding IncludesInDict load_body_def load_call.case LoadBuildFileIncludesIntoDict_body_def
    by (intro lkeep wkeep)
next
  case (IncludesInList a p)
  have "load_keeps (includes_of_value self p v)" for v
    unfolding includes_of_value_def by (intro lkeep assms)
  then show ?thesis unfolding IncludesInList load_body_def load_call.case LoadBuildFileIncludesIntoList_body_def
    by (intro lkeep wkeep)
qed

lemma load_run_keeps [lkeep]: "load_keeps (load_run env c)"
  unfolding load_keeps_def by (rule load_run_spec, fold load_keeps_def) (rule load_body_keeps)

lemma LoadOneBuildFile_keeps [lkeep]: "load_keeps (LoadOneBuildFile env path includes is_target)"
  unfolding LoadOneBuildFile_def by (intro lkeep)

lemma finish_file_keeps [lkeep]: "load_keeps (finish_file env depth path a)"
  unfolding finish_file_def Let_def by (intro lkeep wkeep)

lemma loaded_data_keeps [lkeep]: "load_keeps loaded_data"
  unfolding loaded_data_def case_prod_beta by (intro lkeep wkeep)

lemma process_target_keeps [lkeep]: "load_keeps (process_target env phase t targets)"
  unfolding process_target_def by (intro lkeep wkeep)

lemma finish_targets_keeps [lkeep]: "load_keeps (finish_targets env gii flat_list targets)"
  unfolding finish_targets_def Let_def by (intro lkeep)

lemma load_phases_keeps [lkeep]: "load_keeps (load_phases env pick gii circular_check root_targets)"
  unfolding load_phases_def later_phases_def Let_def case_prod_beta by (intro lkeep)

end

locale load_invariant = file_invariant +
  assumes I_variables: "I s \<Longrightarrow> I (s\<lparr>global_variables := v\<rparr>)"
    and I_target: "I s \<Longrightarrow> path \<notin> set (target_build_files s) \<Longrightarrow>
      I (s\<lparr>target_build_files := target_build_files s @ [path]\<rparr>)"
begin

lemma set_depth_keeps [lkeep]: "load_keeps (set_depth env depth path)"
proof -
  have "load_keeps (change (\<lambda>s. s\<lparr>global_variables := g s\<rparr>))" for g
    unfolding load_keeps_def by (rule holds_change) (rule I_variables)
  then show ?thesis unfolding set_depth_def by (intro lkeep)
qed

lemma load_target_file_keeps [lkeep]: "load_keeps (load_target_file env includes depth path)"
proof -
  have "load_keeps (abind state (\<lambda>s. if path \<in> set (target_build_files s) then ret None
       else
         abind (change (\<lambda>s. s\<lparr>target_build_files := target_build_files s @ [path]\<rparr>)) (\<lambda>_.
         abind (LoadOneBuildFile env path includes True) (\<lambda>a.
         abind (finish_file env depth path a) (\<lambda>deps. ret (Some deps))))))" (is "load_keeps ?m")
    unfolding load_keeps_def
  proof (rule holdsI)
    fix s u s' assume I: "I s" and run: "?m s = Some (Inr (u, s'))"
    let ?rest = "abind (LoadOneBuildFile env path includes True) (\<lambda>a.
         abind (finish_file env depth path a) (\<lambda>deps. ret (Some deps)))"
    have rest: "load_keeps ?rest" by (intro lkeep)
    show "I s'"
    proof (cases "path \<in> set (target_build_files s)")
      case True
      with run I show ?thesis by simp
    next
      case False
      with run have "?rest (s\<lparr>target_build_files := target_build_files s @ [path]\<rparr>) = Some (Inr (u, s'))" by simp
      with rest I_target[OF I False] show ?thesis unfolding load_keeps_def by (blast dest: holdsD)
    qed
  qed
  then show ?thesis unfolding load_target_file_def by (rule load_keeps_bind[OF set_depth_keeps])
qed

lemma LoadTargetBuildFile_keeps [lkeep]: "load_keeps (LoadTargetBuildFile env includes depth path)"
proof -
  have "load_keeps (LoadTargetBuildFile_body env includes depth self p)" if "\<And>p'. load_keeps (self p')" for self p
  proof -
    have "load_keeps (load_dependency self p d)" for d
      unfolding load_dependency_def by (intro lkeep that)
    then show ?thesis unfolding LoadTargetBuildFile_body_def by (intro lkeep)
  qed
  then show ?thesis unfolding load_keeps_def by (intro LoadTargetBuildFile_spec) blast
qed

lemma load_build_files_keeps [lkeep]: "load_keeps (load_build_files env includes depth build_files)"
  unfolding load_build_files_def by (intro lkeep)

end

text \<open>\<open>Load\<close> works with the generator's globals.\<close>

lemma Load_keeps:
  assumes "\<And>env. load_invariant env I"
    and "Load env pick gii build_files includes depth circular_check root_targets s = Some (Inr (r, s'))" "I s"
  shows "I s'"
proof -
  let ?env = "with_globals gii env"
  from assms(2) obtain s1 where 1: "load_build_files ?env includes depth (remdups (map normpath build_files)) s = Some (Inr ((), s1))"
    "load_phases ?env pick gii circular_check root_targets s1 = Some (Inr (r, s'))"
    by (auto simp: Load_def)
  note li = assms(1)[of ?env]
  note fi = load_invariant.axioms(1)[OF li]
  show ?thesis
    using holdsD[OF file_invariant.load_phases_keeps[OF fi, unfolded file_invariant.load_keeps_def[OF fi]]
      holdsD[OF load_invariant.load_build_files_keeps[OF li, unfolded file_invariant.load_keeps_def[OF fi]] assms(3) 1(1)] 1(2)] .
qed

section \<open>Commands\<close>

lemma world_invariant_conj:
  assumes "world_invariant e P" "world_invariant e Q"
  shows "world_invariant e (\<lambda>w. P w \<and> Q w)"
proof (rule world_invariant.intro)
  show "holds (\<lambda>w. P w \<and> Q w) (run_command e build_file m s) (\<lambda>_ w. P w \<and> Q w)" for build_file m s
    using world_invariant.J_run_command[OF assms(1)] world_invariant.J_run_command[OF assms(2)]
    unfolding holds_def by blast
qed (use assms in \<open>auto dest: world_invariant.J_objects world_invariant.J_files world_invariant.J_dirs\<close>)

interpretation commands: load_invariant env "\<lambda>s. commands_once (outside s) \<and> commands_extend w0 (outside s)" for env w0
proof (intro load_invariant.intro file_invariant.intro load_invariant_axioms.intro)
  show "world_invariant (expansion env) (\<lambda>w. commands_once (outside (s\<lparr>outside := w\<rparr>))
      \<and> commands_extend w0 (outside (s\<lparr>outside := w\<rparr>)))" for s
    using world_invariant_conj[OF once.world_invariant_axioms extend.world_invariant_axioms] by simp
qed simp_all

text \<open>C9.  In a whole run of \<open>Load\<close>, over all files, targets and phases of expansion, no two commands with
  the same text are run; the commands that ran before stay run, and every cached result is kept.\<close>

theorem Load_commands_once:
  assumes "Load env pick gii build_files includes depth circular_check root_targets s = Some (Inr (r, s'))"
    and "commands_once (outside s)"
  shows "commands_once (outside s') \<and> commands_extend (outside s) (outside s')"
proof -
  have "commands_extend (outside s) (outside s)" by (simp add: commands_extend_def)
  with assms(2) show ?thesis
    using Load_keeps[OF commands.load_invariant_axioms assms(1), of "outside s"] by blast
qed

section \<open>Files\<close>

text \<open>\<open>data\<close> and \<open>aux_data\<close> hold exactly the files that were read, each read once.\<close>

definition files_once :: "load_state \<Rightarrow> bool" where
  "files_once s \<longleftrightarrow> distinct (files_read s) \<and> dkeys (data_files s) = files_read s
     \<and> dkeys (aux_files s) = files_read s \<and> distinct (target_build_files s)"

interpretation files: load_invariant env files_once for env
proof unfold_locales
  fix s path d l assume "files_once s" "dget (aux_files s) path = Some d"
  moreover from this(2) have "path \<in> set (dkeys (aux_files s))" by (force dest: map_of_SomeD)
  ultimately show "files_once (s\<lparr>aux_files := dset path (dset ''included'' l d) (aux_files s)\<rparr>)"
    by (simp add: files_once_def dkeys_dset)
qed (auto simp: files_once_def dkeys_dset dhas_iff holds_def)

text \<open>Files that were loaded stay loaded.\<close>

interpretation grown: load_invariant env
    "\<lambda>s. ks \<subseteq> set (dkeys (data_files s)) \<and> ts \<subseteq> set (target_build_files s)" for env ks ts
  by unfold_locales (auto simp: dkeys_dset holds_def)

text \<open>Reading files does not touch the list of target build files.\<close>

interpretation pending: file_invariant env
    "\<lambda>s. set (target_build_files s) \<subseteq> X \<union> set (dkeys (data_files s))" for env X
  by unfold_locales (auto simp: dkeys_dset holds_def)

definition targets_read :: "string set \<Rightarrow> load_state \<Rightarrow> bool" where
  "targets_read X s \<longleftrightarrow> set (target_build_files s) \<subseteq> X \<union> set (dkeys (data_files s))"

lemma dget_in_dkeys: "dget d k = Some v \<Longrightarrow> k \<in> set (dkeys d)"
  by (force dest: map_of_SomeD)

lemma LoadOneBuildFile_has:
  "LoadOneBuildFile env p l b s = Some (Inr (a, s')) \<Longrightarrow> p \<in> set (dkeys (data_files s'))"
  by (auto simp: LoadOneBuildFile_def simp del: set_map intro: dget_in_dkeys)

lemma load_target_file_spec:
  assumes "load_target_file env l depth p s = Some (Inr (r, s'))" "targets_read X s"
  shows "targets_read X s'" "p \<in> set (target_build_files s')"
proof -
  from assms(1) obtain s0 where s0: "set_depth env depth p s = Some (Inr ((), s0))"
    and rest: "(if p \<in> set (target_build_files s0) then ret None
       else
         abind (change (\<lambda>s. s\<lparr>target_build_files := target_build_files s @ [p]\<rparr>)) (\<lambda>_.
         abind (LoadOneBuildFile env p l True) (\<lambda>a.
         abind (finish_file env depth p a) (\<lambda>deps. ret (Some deps))))) s0 = Some (Inr (r, s'))"
    by (auto simp: load_target_file_def)
  from s0 have same: "target_build_files s0 = target_build_files s" "data_files s0 = data_files s"
    by (auto simp: set_depth_def split: option.splits if_splits)
  show "targets_read X s'" "p \<in> set (target_build_files s')"
  proof (atomize (full), cases "p \<in> set (target_build_files s0)")
    case True
    with rest assms(2) same show "targets_read X s' \<and> p \<in> set (target_build_files s')" by (simp add: targets_read_def)
  next
    case False
    define s1 where "s1 = s0\<lparr>target_build_files := target_build_files s0 @ [p]\<rparr>"
    from False rest obtain a s2 deps where one: "LoadOneBuildFile env p l True s1 = Some (Inr (a, s2))"
      and fin: "finish_file env depth p a s2 = Some (Inr (deps, s'))" by (auto simp: s1_def)
    have "set (target_build_files s1) \<subseteq> insert p X \<union> set (dkeys (data_files s1))"
      using assms(2) same by (auto simp: s1_def targets_read_def)
    from holdsD[OF pending.LoadOneBuildFile_keeps[unfolded pending.load_keeps_def] this one]
    have "set (target_build_files s2) \<subseteq> X \<union> set (dkeys (data_files s2))"
      using LoadOneBuildFile_has[OF one] by auto
    from holdsD[OF pending.finish_file_keeps[unfolded pending.load_keeps_def] this fin]
    have "targets_read X s'" by (simp add: targets_read_def)
    moreover have "{} \<subseteq> set (dkeys (data_files s1)) \<and> {p} \<subseteq> set (target_build_files s1)" by (simp add: s1_def)
    from holdsD[OF grown.finish_file_keeps[unfolded grown.load_keeps_def]
        holdsD[OF grown.LoadOneBuildFile_keeps[unfolded grown.load_keeps_def] this one] fin]
    have "p \<in> set (target_build_files s')" by blast
    ultimately show "targets_read X s' \<and> p \<in> set (target_build_files s')" ..
  qed
qed

lemma pending_targets_read: "pending.load_keeps X m = holds (targets_read X) m (\<lambda>_. targets_read X)"
  unfolding pending.load_keeps_def targets_read_def by simp

lemma LoadTargetBuildFile_read: "pending.load_keeps X (LoadTargetBuildFile env l depth p)"
  unfolding pending_targets_read
proof (rule LoadTargetBuildFile_spec, fold pending_targets_read)
  fix self :: "string \<Rightarrow> unit lact" and p assume self: "\<And>p'. pending.load_keeps X (self p')"
  have "pending.load_keeps X (load_target_file env l depth p)"
    unfolding pending_targets_read using load_target_file_spec(1) by (blast intro: holdsI)
  moreover have "pending.load_keeps X (load_dependency self p d)" for d
    unfolding load_dependency_def by (intro pending.lkeep self)
  ultimately show "pending.load_keeps X (LoadTargetBuildFile_body env l depth self p)"
    unfolding LoadTargetBuildFile_body_def by (intro pending.lkeep)
qed

lemma LoadTargetBuildFile_has:
  assumes "LoadTargetBuildFile env l depth p s = Some (Inr (u, s'))"
  shows "p \<in> set (target_build_files s')"
proof -
  let ?self = "\<lambda>p s. LoadTargetBuildFile env l depth p s"
  from assms obtain r s1 where 1: "load_target_file env l depth p s = Some (Inr (r, s1))"
    and rest: "(case r of None \<Rightarrow> ret () | Some deps \<Rightarrow> afold (\<lambda>dep _. load_dependency ?self p dep) deps ()) s1 = Some (Inr (u, s'))"
    by (subst (asm) LoadTargetBuildFile.simps) (auto simp: LoadTargetBuildFile_body_def)
  have "targets_read (set (target_build_files s)) s" by (simp add: targets_read_def)
  with load_target_file_spec(2)[OF 1] have "{} \<subseteq> set (dkeys (data_files s1)) \<and> {p} \<subseteq> set (target_build_files s1)" by blast
  moreover have "grown.load_keeps {} {p} (case r of None \<Rightarrow> ret () | Some deps \<Rightarrow> afold (\<lambda>dep _. load_dependency ?self p dep) deps ())"
    unfolding load_dependency_def by (intro grown.lkeep)
  ultimately show ?thesis using rest unfolding grown.load_keeps_def by (blast dest: holdsD)
qed

lemma load_build_files_has:
  "load_build_files env l depth ps s = Some (Inr (u, s')) \<Longrightarrow> set ps \<subseteq> set (target_build_files s')"
proof (induction ps arbitrary: s)
  case (Cons p ps)
  let ?load = "\<lambda>p. annotate (''while trying to load '' @ p) (LoadTargetBuildFile env l depth p)"
  from Cons.prems obtain s1 where 1: "?load p s = Some (Inr ((), s1))" "load_build_files env l depth ps s1 = Some (Inr (u, s'))"
    by (auto simp: load_build_files_def)
  from 1(1) have "LoadTargetBuildFile env l depth p s = Some (Inr ((), s1))"
    by (auto simp: annotate_def split: option.splits sum.splits)
  from LoadTargetBuildFile_has[OF this] have "{} \<subseteq> set (dkeys (data_files s1)) \<and> {p} \<subseteq> set (target_build_files s1)" by simp
  from holdsD[OF grown.load_build_files_keeps[unfolded grown.load_keeps_def] this 1(2)] Cons.IH[OF 1(2)]
  show ?case by simp
qed simp

text \<open>C10.  \<open>Load\<close> reads no file twice, however often it is included or depended on: \<open>data\<close> and \<open>aux_data\<close>
  have exactly the files that were read, in that order.  Every build file it was asked for is a
  target build file afterwards, and every target build file was read.\<close>

theorem Load_files_once:
  assumes run: "Load env pick gii build_files includes depth circular_check root_targets s = Some (Inr (r, s'))"
    and "files_once s" "set (target_build_files s) \<subseteq> set (files_read s)"
  shows "files_once s' \<and> set (map normpath build_files) \<subseteq> set (target_build_files s')
    \<and> set (target_build_files s') \<subseteq> set (files_read s')"
proof -
  let ?env = "with_globals gii env"
  have once: "files_once s'" by (rule Load_keeps[OF files.load_invariant_axioms run assms(2)])
  from run obtain s1 where
    1: "load_build_files ?env includes depth (remdups (map normpath build_files)) s = Some (Inr ((), s1))"
    "load_phases ?env pick gii circular_check root_targets s1 = Some (Inr (r, s'))"
    by (auto simp: Load_def)
  have keep: "pending.load_keeps {} (load_build_files ?env includes depth (remdups (map normpath build_files)))"
    unfolding load_build_files_def by (intro pending.lkeep LoadTargetBuildFile_read)
  have pre: "set (target_build_files s) \<subseteq> {} \<union> set (dkeys (data_files s))"
    using assms(2,3) by (simp add: files_once_def del: set_map)
  from holdsD[OF keep[unfolded pending.load_keeps_def] pre 1(1)]
  have "set (target_build_files s1) \<subseteq> {} \<union> set (dkeys (data_files s1))" .
  from holdsD[OF pending.load_phases_keeps[unfolded pending.load_keeps_def] this 1(2)] once
  have "set (target_build_files s') \<subseteq> set (files_read s')" by (simp add: files_once_def del: set_map)
  moreover have "{} \<subseteq> set (dkeys (data_files s1)) \<and> set (map normpath build_files) \<subseteq> set (target_build_files s1)"
    using load_build_files_has[OF 1(1)] by simp
  from holdsD[OF grown.load_phases_keeps[unfolded grown.load_keeps_def] this 1(2)]
  have "set (map normpath build_files) \<subseteq> set (target_build_files s')" by blast
  ultimately show ?thesis using once by blast
qed

text \<open>A build file with one target that asks for the same command in two phases.\<close>

definition example_files :: "(string \<times> pyval) list" where
  "example_files =
     [(''a.gyp'', PDict [(''targets'', PList [PDict [(''target_name'', PStr ''x''), (''type'', PStr ''none''),
        (''n'', PStr ''<!(ls)>!(ls)'')]])])]"

definition example_load_env :: load_env where
  "example_load_env = \<lparr>expansion = example_env\<lparr>env_realpath := (\<lambda>p. ''/w/'' @ p)\<rparr>, current_dir = ''/w'',
     file_text = (\<lambda>p. map_option (\<lambda>_. p) (dget example_files p)),
     file_eval = (\<lambda>p. Inr (the (dget example_files p))),
     file_parse = (\<lambda>c. Inl (SyntaxError c c 0)), check_syntax = False\<rparr>"

lemma example_load:
  "\<exists>targets data s. Load example_load_env (\<lambda>flat zs. 0) plain_generator [''a.gyp''] [] (Some []) False [] new_load_state
     = Some (Inr (([''a.gyp:x#target''], targets, data), s))
     \<and> files_read s = [''a.gyp''] \<and> commands_run (outside s) = [Popen True (PStr ''ls'') None]"
proof -
  have "case Load example_load_env (\<lambda>flat zs. 0) plain_generator [''a.gyp''] [] (Some []) False [] new_load_state of
     Some (Inr ((flat_list, targets, data), s)) \<Rightarrow> flat_list = [''a.gyp:x#target'']
       \<and> files_read s = [''a.gyp''] \<and> commands_run (outside s) = [Popen True (PStr ''ls'') None]
   | _ \<Rightarrow> False"
    by code_simp
  then show ?thesis by (auto split: option.splits sum.splits)
qed

theorem Load_commands_once_witness:
  "\<exists>r s. Load example_load_env (\<lambda>flat zs. 0) plain_generator [''a.gyp''] [] (Some []) False [] new_load_state = Some (Inr (r, s))
     \<and> commands_run (outside s) = [Popen True (PStr ''ls'') None] \<and> commands_once (outside s)"
proof -
  from example_load obtain r s where
    run: "Load example_load_env (\<lambda>flat zs. 0) plain_generator [''a.gyp''] [] (Some []) False [] new_load_state = Some (Inr (r, s))"
    and s: "commands_run (outside s) = [Popen True (PStr ''ls'') None]" by blast
  have "commands_once (outside new_load_state)" by (simp add: commands_once_def new_load_state_def new_world_def)
  from Load_commands_once[OF run this] run s show ?thesis by blast
qed

theorem Load_files_once_witness:
  "\<exists>r s. Load example_load_env (\<lambda>flat zs. 0) plain_generator [''a.gyp''] [] (Some []) False [] new_load_state = Some (Inr (r, s))
     \<and> files_read s = [''a.gyp''] \<and> files_once s \<and> set (map normpath [''a.gyp'']) \<subseteq> set (target_build_files s)"
proof -
  from example_load obtain r s where
    run: "Load example_load_env (\<lambda>flat zs. 0) plain_generator [''a.gyp''] [] (Some []) False [] new_load_state = Some (Inr (r, s))"
    and s: "files_read s = [''a.gyp'']" by blast
  have "files_once new_load_state" "set (target_build_files new_load_state) \<subseteq> set (files_read new_load_state)"
    by (simp_all add: files_once_def new_load_state_def)
  from Load_files_once[OF run this] run s show ?thesis by blast
qed

end
