(* ===== verification/Gyp_Load_Result.thy ===== *)
theory Gyp_Load_Result
  imports Gyp_Load_Runs
begin

text \<open>
  What \<open>Load\<close> delivers, put together from the theorems on its phases: the targets in an order that
  respects their dependencies, pruned to what was asked for, each validated and free of integers.
\<close>

section \<open>The table\<close>

lemma each_target_keys: "each_target f ts = Inr ts' \<Longrightarrow> dkeys ts' = dkeys ts"
  unfolding each_target_Inr by (induction rule: list_all2_induct) auto

lemma resolve_dependencies_wf:
  assumes "resolve_dependencies x data = Inr resolved"
  shows "wf_dict resolved"
proof -
  from assms obtain t0 t1 t2 t3 t4 where t:
    "BuildTargetsDict data = Inr t0" "QualifyDependencies (env_realpath x) (env_globals x) t0 = Inr t1"
    "RemoveSelfDependencies t1 = Inr t2" "ExpandWildcardDependencies t2 data = Inr t3"
    "each_target (filter_dependency_sections (env_compile x)) t3 = Inr t4" "RemoveDuplicateDependencies t4 = Inr resolved"
    by (auto simp: resolve_dependencies_def)
  have "dkeys resolved = dkeys t0"
    using t(2-6) each_target_keys
    unfolding QualifyDependencies_def RemoveSelfDependencies_def ExpandWildcardDependencies_def
      RemoveDuplicateDependencies_def by metis
  moreover from BuildTargetsDict_table[OF t(1)] have "distinct (dkeys t0)" ..
  ultimately show ?thesis by (simp add: wf_dict_def)
qed

section \<open>The order\<close>

lemma BuildDependencyList_links:
  assumes "BuildDependencyList pick targets = Some (Inr (g, flat_list))"
  shows "link_targets targets = Inr g"
  using assms by (auto simp: BuildDependencyList_def Let_def split: sum.splits if_splits)

definition ordered :: "target_table \<Rightarrow> string list \<Rightarrow> bool" where
  "ordered targets flat_list \<longleftrightarrow>
     (\<forall>xs t ys spec. flat_list = xs @ t # ys \<and> dget targets t = Some spec \<longrightarrow> set (spec_deps spec) \<subseteq> set xs)"

text \<open>The names that the root targets ask for: all of them when no root is given.\<close>

definition asked_for :: "target_table \<Rightarrow> string list \<Rightarrow> string list \<Rightarrow> string set \<Rightarrow> bool" where
  "asked_for targets flat_list root_targets names \<longleftrightarrow>
     (if root_targets = [] then names = set (dkeys targets)
      else \<exists>roots. qualified_roots flat_list root_targets = Inr roots
        \<and> names = (table_relation targets)\<^sup>* `` set roots)"

lemma filter_split:
  "filter P l = xs @ t # ys \<Longrightarrow> \<exists>us vs. l = us @ t # vs \<and> filter P us = xs \<and> P t"
proof (induction xs arbitrary: l)
  case Nil
  then obtain us vs where "l = us @ t # vs" "\<forall>u \<in> set us. \<not> P u" "P t" by (auto simp: filter_eq_Cons_iff)
  then show ?case by (intro exI[of _ us] exI[of _ vs]) simp
next
  case (Cons x xs)
  then obtain us vs where 1: "l = us @ x # vs" "\<forall>u \<in> set us. \<not> P u" "P x" "filter P vs = xs @ t # ys"
    by (auto simp: filter_eq_Cons_iff)
  from Cons.IH[OF 1(4)] obtain us' vs' where "vs = us' @ t # vs'" "filter P us' = xs" "P t" by blast
  with 1 show ?case by (intro exI[of _ "us @ x # us'"] exI[of _ vs']) simp
qed

lemma ordered_filter:
  assumes "ordered targets flat" "\<And>t spec d. t \<in> names \<Longrightarrow> dget targets t = Some spec \<Longrightarrow> d \<in> set (spec_deps spec) \<Longrightarrow> d \<in> names"
  shows "ordered targets (filter (\<lambda>t. t \<in> names) flat)"
  unfolding ordered_def
proof (intro allI impI subsetI)
  fix xs t ys spec d
  assume t: "filter (\<lambda>t. t \<in> names) flat = xs @ t # ys \<and> dget targets t = Some spec" and d: "d \<in> set (spec_deps spec)"
  then have "filter (\<lambda>t. t \<in> names) flat = xs @ t # ys" by simp
  from filter_split[OF this] obtain us vs where
    us: "flat = us @ t # vs" "filter (\<lambda>t. t \<in> names) us = xs" "t \<in> names" by blast
  with assms(1) t d have "d \<in> set us" unfolding ordered_def by blast
  moreover have "d \<in> names" using assms(2) us(3) t d by blast
  ultimately show "d \<in> set xs" using us(2) by auto
qed

lemma order_targets_spec:
  assumes run: "order_targets pick circular_check root_targets targets data = Some (Inr (targets', flat_list, g, data'))"
    and wf: "wf_dict targets"
  shows "\<exists>full. set full = set (dkeys targets) \<and> asked_for targets full root_targets (set flat_list)
    \<and> distinct flat_list \<and> ordered targets flat_list"
proof -
  from run obtain full where full: "BuildDependencyList pick targets = Some (Inr (g, full))"
    and prune: "(if root_targets = [] then Some (Inr (targets, full, data))
      else PruneUnwantedTargets targets full g root_targets data) = Some (Inr (targets', flat_list, data'))"
    by (auto simp: order_targets_def split: prod.splits)
  from BuildDependencyList_ordered[OF full wf] have
    f: "distinct full" "set full = set (dkeys targets)" "ordered targets full" unfolding ordered_def by blast+
  show ?thesis
  proof (cases "root_targets = []")
    case True
    with prune f show ?thesis by (intro exI[of _ full]) (simp add: asked_for_def)
  next
    case False
    with prune obtain roots where roots: "qualified_roots full root_targets = Inr roots"
      by (auto simp: PruneUnwantedTargets_def)
    let ?names = "(table_relation targets)\<^sup>* `` set roots"
    from PruneUnwantedTargets_picks[OF BuildDependencyList_links[OF full] wf roots, of data] prune False
    have p: "\<forall>t \<in> ?names. dhas targets t" "flat_list = filter (\<lambda>t. t \<in> ?names) full" by (simp_all add: Let_def)
    have "?names \<subseteq> set full" using p(1) f(2) by (auto simp: dhas_iff)
    then have names: "set flat_list = ?names" using p(2) by auto
    have "ordered targets flat_list" unfolding p(2)
    proof (rule ordered_filter[OF f(3)])
      fix t spec d assume t: "t \<in> ?names" and d: "dget targets t = Some spec" "d \<in> set (spec_deps spec)"
      have "(t, d) \<in> table_relation targets" using d map_of_SomeD by (fastforce simp: table_relation_def)
      with t show "d \<in> ?names" by (auto intro: rtrancl_into_rtrancl)
    qed
    moreover have "asked_for targets full root_targets (set flat_list)" using False roots names by (simp add: asked_for_def)
    ultimately show ?thesis using f p(2) by (intro exI[of _ full]) simp
  qed
qed

section \<open>The targets\<close>

lemma rfold_on_target:
  assumes "rfold (on_target f) l ts = Inr ts'" "distinct l" "t \<in> set l"
  shows "\<exists>d r. f t d = Inr r \<and> dget ts' t = Some r"
  using assms
proof (induction l arbitrary: ts)
  case (Cons x l)
  have keep: "dget us' u = dget us u" if "rfold (on_target f) l us = Inr us'" "u \<notin> set l" for u us us'
    using that by (induction l arbitrary: us) (auto simp: on_target_def)
  from Cons.prems(1) obtain us where us: "on_target f x ts = Inr us" "rfold (on_target f) l us = Inr ts'" by auto
  then obtain d r where 1: "f x d = Inr r" "us = dset x r ts" by (auto simp: on_target_def)
  show ?case
  proof (cases "t = x")
    case True
    with Cons.prems(2) keep[OF us(2)] 1(2) have "dget ts' t = Some r" by simp
    with 1(1) True show ?thesis by blast
  next
    case False
    with Cons.prems Cons.IH[OF us(2)] show ?thesis by simp
  qed
qed simp

lemma validated_type:
  assumes "validate_target gii h variables t d = Inr r"
  shows "\<exists>ty \<in> set VALID_TARGET_TYPES. dget r ''type'' = Some (PStr ty)"
proof -
  from assms have type: "ValidateTargetType t d = Inr ()" and
    rules: "ValidateRulesInTarget t d (gii_extra_sources_for_rules gii) = Inr r"
    by (auto simp: validate_target_def)
  from rules have "dget r ''type'' = dget d ''type''" by (auto simp: ValidateRulesInTarget_def)
  moreover from type have "dget_default d ''type'' PNone \<in> PStr ` set VALID_TARGET_TYPES"
    by (auto simp: ValidateTargetType_def Let_def split: if_splits)
  ultimately show ?thesis by (auto simp: dget_default_def split: option.splits)
qed

lemma dget_map: "dget (map (\<lambda>(k, v). (k, f v)) d) k = map_option f (dget d k)"
  by (induction d) auto

lemma later_phases_result:
  assumes "later_phases env pick gii circular_check root_targets loaded s1 = Some (Inr ((flat_list, targets, data), s'))"
  shows "\<exists>resolved full. resolve_dependencies (expansion env) loaded = Inr resolved
    \<and> set full = set (dkeys resolved) \<and> asked_for resolved full root_targets (set flat_list)
    \<and> distinct flat_list \<and> ordered resolved flat_list
    \<and> (\<forall>t \<in> set flat_list. \<exists>d. dget targets t = Some d \<and> no_ints (PDict d)
         \<and> (\<exists>ty \<in> set VALID_TARGET_TYPES. dget d ''type'' = Some (PStr ty)))"
proof -
  from assms obtain resolved ts g data' ts1 ts2 s2 where
    1: "resolve_dependencies (expansion env) loaded = Inr resolved"
      "order_targets pick circular_check root_targets resolved loaded = Some (Inr (ts, flat_list, g, data'))"
    and 2: "finish_targets env gii flat_list ts1 s1 = Some (Inr (ts2, s2))"
      "targets = map (\<lambda>(t, d). (t, TurnIntIntoStrInDict d)) ts2"
    by (auto simp: later_phases_def Let_def of_comp_def split: option.splits prod.splits)
  from order_targets_spec[OF 1(2) resolve_dependencies_wf[OF 1(1)]] obtain full where
    full: "set full = set (dkeys resolved)" "asked_for resolved full root_targets (set flat_list)"
      "distinct flat_list" "ordered resolved flat_list" by blast
  from 2(1) obtain ts3 h variables where v: "rfold (on_target (validate_target gii h variables)) flat_list ts3 = Inr ts2"
    by (auto simp: finish_targets_def Let_def)
  have "\<exists>d. dget targets t = Some d \<and> no_ints (PDict d) \<and> (\<exists>ty \<in> set VALID_TARGET_TYPES. dget d ''type'' = Some (PStr ty))"
    if "t \<in> set flat_list" for t
  proof -
    from rfold_on_target[OF v full(3) that] obtain d r where r: "validate_target gii h variables t d = Inr r" "dget ts2 t = Some r"
      by blast
    have "dget targets t = Some (TurnIntIntoStrInDict r)" using r(2) by (simp add: 2(2) dget_map)
    moreover have "no_ints (PDict (TurnIntIntoStrInDict r))" using turn_item_type[of "PDict r"] by simp
    moreover from validated_type[OF r(1)] have
      "\<exists>ty \<in> set VALID_TARGET_TYPES. dget (TurnIntIntoStrInDict r) ''type'' = Some (PStr ty)"
      by (auto simp: turn_maps dget_map)
    ultimately show ?thesis by blast
  qed
  with 1(1) full show ?thesis by auto
qed

text \<open>C2.  When \<open>Load\<close> returns, its list names exactly the targets asked for (all targets of the loaded
  files, or those that the root targets reach), each once and after all its dependencies, and every
  one of them has a dictionary with a permitted type and without an integer at any depth.\<close>

theorem Load_result:
  assumes "Load env pick gii build_files includes depth circular_check root_targets s
      = Some (Inr ((flat_list, targets, data), s'))"
  shows "\<exists>loaded s1 resolved full.
    abind (load_build_files (with_globals gii env) includes depth (remdups (map normpath build_files)))
      (\<lambda>_. loaded_data) s = Some (Inr (loaded, s1))
    \<and> resolve_dependencies (expansion (with_globals gii env)) loaded = Inr resolved
    \<and> set full = set (dkeys resolved) \<and> asked_for resolved full root_targets (set flat_list)
    \<and> distinct flat_list \<and> ordered resolved flat_list
    \<and> (\<forall>t \<in> set flat_list. \<exists>d. dget targets t = Some d \<and> no_ints (PDict d)
         \<and> (\<exists>ty \<in> set VALID_TARGET_TYPES. dget d ''type'' = Some (PStr ty)))"
proof -
  from assms obtain s0 loaded s1 where
    "load_build_files (with_globals gii env) includes depth (remdups (map normpath build_files)) s = Some (Inr ((), s0))"
    "loaded_data s0 = Some (Inr (loaded, s1))"
    "later_phases (with_globals gii env) pick gii circular_check root_targets loaded s1
      = Some (Inr ((flat_list, targets, data), s'))"
    by (auto simp: Load_def load_phases_def)
  with later_phases_result[OF this(3)] show ?thesis by auto
qed

theorem Load_result_witness:
  "\<exists>targets data s. Load example_load_env (\<lambda>flat zs. 0) plain_generator [''a.gyp''] [] (Some []) False [] new_load_state
      = Some (Inr (([''a.gyp:x#target''], targets, data), s))
    \<and> (\<exists>d. dget targets ''a.gyp:x#target'' = Some d \<and> no_ints (PDict d))"
proof -
  from example_load obtain targets data s where
    run: "Load example_load_env (\<lambda>flat zs. 0) plain_generator [''a.gyp''] [] (Some []) False [] new_load_state
      = Some (Inr (([''a.gyp:x#target''], targets, data), s))" by blast
  have "\<exists>d. dget targets ''a.gyp:x#target'' = Some d \<and> no_ints (PDict d)"
    using Load_result[OF run] by auto
  with run show ?thesis by blast
qed

end
