(* ===== verification/Gyp_Load_Worker.thy ===== *)
theory Gyp_Load_Worker
  imports Gyp_Parallel Gyp_Load_Runs
begin

text \<open>
  The worker processes of parallel loading (\<open>tools/gyp/pylib/gyp/input.py\<close>):
  \<open>CallLoadTargetBuildFile\<close> loads one build file without the files of its dependencies and sends back
  what it added to \<open>data\<close> and \<open>aux_data\<close>.  Together with \<open>Gyp_Parallel\<close> this gives what the main
  process holds when all workers have answered.
\<close>

section \<open>A worker\<close>

text \<open>The dictionaries of the files that were not in \<open>data\<close> before, as they are sent through the pipe.\<close>

definition read_file :: "nat \<Rightarrow> pydict wact" where
  "read_file a = abind (get_dict a) read_dict"

fun send_file :: "string \<times> nat \<Rightarrow> (string \<times> pydict) list \<Rightarrow> (string \<times> pydict) list lact" where
  "send_file (key, a) data_out = abind (in_world (read_file a)) (\<lambda>d. ret (data_out @ [(key, d)]))"

definition new_data :: "string list \<Rightarrow> (string \<times> pydict) list lact" where
  "new_data data_keys =
     abind state (\<lambda>s. afold send_file (filter (\<lambda>(key, a). key \<notin> set data_keys) (data_files s)) [])"

definition new_aux_data :: "string list \<Rightarrow> aux_data lact" where
  "new_aux_data aux_data_keys =
     abind state (\<lambda>s. ret (filter (\<lambda>(key, d). key \<notin> set aux_data_keys) (aux_files s)))"

text \<open>The answer for one file in the state of the worker process.  \<open>Some None\<close> stands for every result
  the callback counts as an error: an exception, which the worker prints, or \<open>False\<close> for a file that
  is a target build file already.  \<open>None\<close> is a worker that does not return.\<close>

definition CallLoadTargetBuildFile :: "load_env \<Rightarrow> generator_input_info \<Rightarrow> string list \<Rightarrow> string option
    \<Rightarrow> string \<Rightarrow> load_state \<Rightarrow> load_result option option" where
  "CallLoadTargetBuildFile env gii includes depth build_file_path s =
     (case abind (load_target_file (with_globals gii env) includes depth build_file_path) (\<lambda>result.
         case result of
           None \<Rightarrow> ret None
         | Some deps \<Rightarrow>
             abind (new_data (dkeys (data_files s))) (\<lambda>data_out.
             abind (new_aux_data (dkeys (aux_files s))) (\<lambda>aux_data_out.
               ret (Some (build_file_path, data_out, aux_data_out, map the deps))))) s of
        None \<Rightarrow> None
      | Some (Inl e) \<Rightarrow> Some None
      | Some (Inr (answer, s')) \<Rightarrow> Some answer)"

section \<open>What a worker answers\<close>

lemma ResolveTarget_named: "\<exists>f'. fst (ResolveTarget rp (Some f) dep toolset) = Some f'"
  by (auto simp: ResolveTarget_def Let_def split: option.splits prod.splits)

lemma rmap_all:
  assumes "rmap f xs = Inr ys" "\<And>x y. f x = Inr y \<Longrightarrow> P y"
  shows "\<forall>y \<in> set ys. P y"
  using assms(1)
proof (induction xs arbitrary: ys)
  case (Cons x xs)
  then show ?case using assms(2) by (auto simp: rbind_eq_Inr)
qed simp

lemma dependency_files_named:
  assumes "dependency_files rp p t = Inr l"
  shows "None \<notin> set l"
proof (cases "py_contains t ''dependencies''")
  case (Inr b)
  show ?thesis
  proof (cases b)
    case True
    with assms Inr obtain vs where "rmap (\<lambda>dependency. rbind (as_str ''rsplit'' dependency) (\<lambda>dep.
        Inr (fst (ResolveTarget rp (Some p) dep None)))) vs = Inr l"
      by (auto simp: dependency_files_def rbind_eq_Inr)
    then have "\<forall>x \<in> set l. x \<noteq> None"
      by (rule rmap_all) (use ResolveTarget_named in \<open>auto simp: rbind_eq_Inr simp del: not_None_eq\<close>)
    then show ?thesis by blast
  qed (use assms Inr in \<open>simp add: dependency_files_def\<close>)
qed (use assms in \<open>simp add: dependency_files_def\<close>)

lemma target_dependencies_named:
  assumes "target_dependencies rp p d = Inr l"
  shows "map Some (map the l) = l"
proof (cases "dget d ''targets''")
  case (Some v)
  with assms obtain ts fs where fs: "rmap (dependency_files rp p) ts = Inr fs" "l = concat fs"
    by (auto simp: target_dependencies_def rbind_eq_Inr)
  have "\<forall>x \<in> set fs. None \<notin> set x" using fs(1) by (rule rmap_all) (rule dependency_files_named)
  then have "\<forall>x \<in> set l. Some (the x) = x" using fs(2) by (metis UN_iff option.collapse set_concat)
  then show ?thesis by (simp add: map_idI)
qed (use assms in \<open>simp add: target_dependencies_def\<close>)

text \<open>Looking at a file changes nothing.\<close>

lemma read_file_same: "read_file a w = Some (Inr (d, w')) \<Longrightarrow> w' = w"
  by (auto simp: read_file_def get_dict_def read_dict_def of_option_def split: option.splits)

text \<open>A file as it is sent from a state.\<close>

definition sent_from :: "load_state \<Rightarrow> string \<times> nat \<Rightarrow> string \<times> pydict \<Rightarrow> bool" where
  "sent_from s = (\<lambda>(k, a) (k', d). k' = k \<and> read_file a (outside s) = Some (Inr (d, outside s)))"

lemma send_files:
  "afold send_file xs acc s = Some (Inr (data_out, s')) \<Longrightarrow>
    s' = s \<and> (\<exists>ds. data_out = acc @ ds \<and> list_all2 (sent_from s) xs ds)"
proof (induction xs arbitrary: acc)
  case (Cons x xs)
  obtain k a where x: "x = (k, a)" by (cases x)
  from Cons.prems obtain d w where r: "read_file a (outside s) = Some (Inr (d, w))"
    and 2: "afold send_file xs (acc @ [(k, d)]) (s\<lparr>outside := w\<rparr>) = Some (Inr (data_out, s'))"
    by (auto simp: x in_world_def)
  note w = read_file_same[OF r]
  from 2 have 2: "afold send_file xs (acc @ [(k, d)]) s = Some (Inr (data_out, s'))" by (simp add: w)
  from r have 1: "read_file a (outside s) = Some (Inr (d, outside s))" by (simp add: w)
  from Cons.IH[OF 2] obtain ds where "s' = s" "data_out = acc @ (k, d) # ds" "list_all2 (sent_from s) xs ds" by auto
  with 1 show ?case by (auto simp: x sent_from_def intro!: exI[of _ "(k, d) # ds"])
qed simp

lemma sent_keys: "list_all2 (sent_from s) xs ds \<Longrightarrow> dkeys ds = dkeys xs"
  by (induction rule: list_all2_induct) (auto simp: sent_from_def)

lemma sent_file:
  "list_all2 (sent_from s) xs ds \<Longrightarrow> dget xs k = Some a \<Longrightarrow>
    \<exists>d. dget ds k = Some d \<and> read_file a (outside s) = Some (Inr (d, outside s))"
  by (induction rule: list_all2_induct) (auto simp: sent_from_def split: if_splits)

section \<open>Files stay where they were entered\<close>

interpretation entered: file_invariant env "\<lambda>s. dget (data_files s) p = Some a" for env p a
  by unfold_locales (auto simp: holds_def dhas_def)

lemma of_res_result: "of_res r s = Some (Inr (x, s')) \<longleftrightarrow> r = Inr x \<and> s' = s"
  by (cases r) auto

lemma finish_file_kept:
  assumes "finish_file env depth p a s = Some (Inr (deps, s'))"
  shows "\<exists>d. read_file a (outside s') = Some (Inr (d, outside s'))
    \<and> target_dependencies (env_realpath (expansion env)) p d = Inr deps"
proof -
  from assms obtain s1 d where
    1: "in_world (read_file a) s1 = Some (Inr (d, s'))"
    and d: "target_dependencies (env_realpath (expansion env)) p d = Inr deps"
    by (auto simp: finish_file_def Let_def read_file_def[symmetric] simp del: act_simps(3)
        simp: abind_Inr of_res_result)
  from 1 have "read_file a (outside s') = Some (Inr (d, outside s'))"
    using read_file_same by (fastforce simp: in_world_def)
  with d show ?thesis by blast
qed

lemma load_target_file_entered:
  assumes "load_target_file env includes depth p s = Some (Inr (Some deps, s'))"
  shows "\<exists>a d. dget (data_files s') p = Some a \<and> read_file a (outside s') = Some (Inr (d, outside s'))
    \<and> target_dependencies (env_realpath (expansion env)) p d = Inr deps"
proof -
  from assms obtain s1 a s2 where one: "LoadOneBuildFile env p includes True s1 = Some (Inr (a, s2))"
    and fin: "finish_file env depth p a s2 = Some (Inr (deps, s'))"
    by (auto simp: load_target_file_def simp del: act_simps(3) simp: abind_Inr split: if_splits)
  from one have "dget (data_files s2) p = Some a"
    by (auto simp: LoadOneBuildFile_def of_res_result dlookup_def split: option.splits)
  from holdsD[OF entered.finish_file_keeps[unfolded entered.load_keeps_def] this fin]
  have "dget (data_files s') p = Some a" .
  with finish_file_kept[OF fin] show ?thesis by blast
qed

text \<open>A worker answers for its own file: it sends that file and the files it included, each once, and
  the build files that the file it sends depends on.\<close>

lemma CallLoadTargetBuildFile_answer:
  assumes "CallLoadTargetBuildFile env gii includes depth p s = Some (Some (f, data_out, aux_out, deps))"
    and "files_once s" "data_files s = []"
  shows "f = p \<and> distinct (dkeys data_out) \<and> dkeys aux_out = dkeys data_out
    \<and> (\<exists>d. dget data_out p = Some d
         \<and> target_dependencies (env_realpath (expansion env)) p d = Inr (map Some deps))"
proof -
  let ?env = "with_globals gii env"
  from assms(2,3) have aux: "aux_files s = []" by (cases "aux_files s") (auto simp: files_once_def)
  from assms(1,3) obtain ds s1 s2 where load: "load_target_file ?env includes depth p s = Some (Inr (Some ds, s1))"
    and data: "new_data [] s1 = Some (Inr (data_out, s2))"
    and out2: "aux_out = aux_files s2" "f = p" "deps = map the ds"
    by (auto simp: CallLoadTargetBuildFile_def new_aux_data_def aux split: option.splits sum.splits)
  from data have s2: "s2 = s1" by (auto simp: new_data_def dest: send_files)
  note data = data[unfolded s2] and out = out2[unfolded s2]
  from load_target_file_entered[OF load] obtain a d where d: "dget (data_files s1) p = Some a"
    "read_file a (outside s1) = Some (Inr (d, outside s1))"
    "target_dependencies (env_realpath (expansion env)) p d = Inr ds"
    by (auto simp: with_globals_def)
  have once: "files_once s1"
    using holdsD[OF files.load_target_file_keeps[unfolded files.load_keeps_def] assms(2) load] .
  from data have sent: "list_all2 (sent_from s1) (data_files s1) data_out"
    by (auto simp: new_data_def dest: send_files)
  from sent_file[OF sent d(1)] d(2) have "dget data_out p = Some d" by auto
  with d(3) target_dependencies_named[OF d(3)] sent_keys[OF sent] once out show ?thesis
    by (auto simp: files_once_def)
qed

section \<open>All workers together\<close>

text \<open>The workers that answer are runs of \<open>CallLoadTargetBuildFile\<close>; the state of a worker process
  (what it cached for earlier files) may differ from file to file.\<close>

definition real_workers :: "load_env \<Rightarrow> generator_input_info \<Rightarrow> string list \<Rightarrow> string option
    \<Rightarrow> (string \<Rightarrow> load_state) \<Rightarrow> (string \<Rightarrow> load_result option) \<Rightarrow> bool" where
  "real_workers env gii includes depth worker_state load \<longleftrightarrow>
     (\<forall>p r. load p = Some r \<longrightarrow> CallLoadTargetBuildFile env gii includes depth p (worker_state p) = Some (Some r))
     \<and> (\<forall>p. files_once (worker_state p) \<and> data_files (worker_state p) = [])"

lemma real_workers_answer: "real_workers env gii includes depth worker_state load \<Longrightarrow> answers_for_file load"
  unfolding real_workers_def answers_for_file_def using CallLoadTargetBuildFile_answer by blast

lemma reachable_files_closed:
  "q \<in> reachable_files load bfs \<Longrightarrow> load q = Some (q, d, a, deps) \<Longrightarrow> set deps \<subseteq> reachable_files load bfs"
  unfolding reachable_files_def
  by (rule subsetI, erule ImageE, rule ImageI, erule rtrancl_into_rtrancl) (simp_all add: file_dependencies_def)

text \<open>What the main process holds at the end, for a build file \<open>p\<close>: its targets depend on build files that
  are there too, and its entry in \<open>data\<close> is what a worker sent for it; the worker that loaded it did
  when no other worker read it, as a file it includes.\<close>

definition loaded_file :: "(string \<Rightarrow> string) \<Rightarrow> (string \<Rightarrow> load_result option) \<Rightarrow> parallel_state \<Rightarrow> string \<Rightarrow> bool" where
  "loaded_file rp load st p \<longleftrightarrow>
     (\<exists>d deps. dget (file_contents load p) p = Some d
        \<and> target_dependencies rp p d = Inr (map Some deps)
        \<and> set deps \<subseteq> set (parallel_state.target_build_files st)
        \<and> (\<exists>q \<in> set (parallel_state.target_build_files st). dget (file_data st) p \<noteq> None
             \<and> dget (file_data st) p = dget (file_contents load q) p)
        \<and> ((\<forall>q \<in> set (parallel_state.target_build_files st). q \<noteq> p \<longrightarrow> \<not> dhas (file_contents load q) p)
             \<longrightarrow> dget (file_data st) p = Some d))"

lemma parallel_run_closed:
  assumes "(parallel_step load)\<^sup>*\<^sup>* (parallel_start build_files) r" "parallel_outcome_of r = Some (Loaded st)"
    and "distinct build_files" and workers: "real_workers env gii includes depth worker_state load"
  shows "set build_files \<subseteq> set (parallel_state.target_build_files st)
    \<and> (\<forall>p \<in> set (parallel_state.target_build_files st). loaded_file (env_realpath (expansion env)) load st p)"
proof -
  from parallel_outcome_loads[OF assms(1-3) real_workers_answer[OF workers]]
  have files: "set (parallel_state.target_build_files st) = reachable_files load build_files"
    and loaded: "\<And>p. p \<in> reachable_files load build_files \<Longrightarrow> load p \<noteq> None"
    and keys: "set (dkeys (file_data st)) = (\<Union>p \<in> reachable_files load build_files. set (dkeys (file_contents load p)))"
    and sub: "set (file_data st) \<subseteq> (\<Union>p \<in> reachable_files load build_files. set (file_contents load p))"
    by simp_all
  have answer: "\<exists>d a deps t. load p = Some (p, d, a, deps) \<and> file_contents load p = d \<and> distinct (dkeys d)
      \<and> dget d p = Some t \<and> target_dependencies (env_realpath (expansion env)) p t = Inr (map Some deps)"
    if p: "p \<in> reachable_files load build_files" for p
  proof -
    from loaded[OF p] obtain f d a deps where l: "load p = Some (f, d, a, deps)" by auto
    with workers have "CallLoadTargetBuildFile env gii includes depth p (worker_state p) = Some (Some (f, d, a, deps))"
      "files_once (worker_state p)" "data_files (worker_state p) = []" unfolding real_workers_def by blast+
    from CallLoadTargetBuildFile_answer[OF this] l show ?thesis by (auto simp: file_contents_def)
  qed
  have "loaded_file (env_realpath (expansion env)) load st p" if p: "p \<in> reachable_files load build_files" for p
  proof -
    from answer[OF p] obtain d a deps t where l: "load p = Some (p, d, a, deps)" "file_contents load p = d"
      "dget d p = Some t" "target_dependencies (env_realpath (expansion env)) p t = Inr (map Some deps)" by blast
    from dget_in_dkeys[OF l(3)] p l(2) have "p \<in> set (dkeys (file_data st))" unfolding keys by blast
    then obtain d' where d': "dget (file_data st) p = Some d'" by (metis dhas_iff dhas_def option.exhaust)
    then have "(p, d') \<in> set (file_data st)" by (rule map_of_SomeD)
    with sub obtain q where q: "q \<in> reachable_files load build_files" "(p, d') \<in> set (file_contents load q)" by blast
    with answer[OF q(1)] have dq: "dget (file_contents load q) p = Some d'" by (auto intro: map_of_is_SomeI)
    then have "dhas (file_contents load q) p" by (simp add: dhas_def)
    moreover have "set deps \<subseteq> reachable_files load build_files" using reachable_files_closed[OF p] l(1) by blast
    ultimately show ?thesis
      unfolding loaded_file_def files using l(2-4) d' dq q(1) by (metis option.distinct(1))
  qed
  moreover have "set build_files \<subseteq> reachable_files load build_files" by (auto simp: reachable_files_def)
  ultimately show ?thesis using files by simp
qed

text \<open>C7.  When parallel loading ends well, with workers that run \<open>CallLoadTargetBuildFile\<close>, its target
  build files contain the files it was asked for and, for each of them, all files its targets depend
  on.  The entry of each in \<open>data\<close> is a dictionary that a worker read for it, and the one its own worker
  finished when no other worker read the file.\<close>

theorem LoadTargetBuildFilesParallel_closed:
  assumes "(parallel_step load)\<^sup>*\<^sup>* (parallel_start build_files) r" "parallel_outcome_of r = Some (Loaded st)"
    and "distinct build_files" and workers: "real_workers env gii includes depth worker_state load"
  shows "set build_files \<subseteq> set (parallel_state.target_build_files st)
    \<and> (\<forall>p \<in> set (parallel_state.target_build_files st). loaded_file (env_realpath (expansion env)) load st p)"
  using assms by (rule parallel_run_closed)

definition example_answer :: load_result where
  "example_answer =
     (case CallLoadTargetBuildFile example_load_env plain_generator [] (Some []) ''a.gyp'' new_load_state of
        Some (Some r) \<Rightarrow> r | _ \<Rightarrow> ([], [], [], []))"

definition example_workers :: "string \<Rightarrow> load_result option" where
  "example_workers p = (if p = ''a.gyp'' then Some example_answer else None)"

lemma example_answers:
  "CallLoadTargetBuildFile example_load_env plain_generator [] (Some []) ''a.gyp'' new_load_state = Some (Some example_answer)
     \<and> (case example_answer of (f, d, a, deps) \<Rightarrow> f = ''a.gyp'' \<and> deps = [])"
proof -
  have "case CallLoadTargetBuildFile example_load_env plain_generator [] (Some []) ''a.gyp'' new_load_state of
      Some (Some (f, d, a, deps)) \<Rightarrow> f = ''a.gyp'' \<and> deps = [] | _ \<Rightarrow> False"
    by code_simp
  then show ?thesis by (auto simp: example_answer_def split: option.splits prod.splits)
qed

theorem LoadTargetBuildFilesParallel_closed_witness:
  "\<exists>d a t. example_workers ''a.gyp'' = Some (''a.gyp'', d, a, [])
     \<and> dget d ''a.gyp'' = Some t
     \<and> dget (file_data (parallel_run.state (one_file_run ''a.gyp'' d a))) ''a.gyp'' = Some t"
proof -
  obtain d a where e: "example_answer = (''a.gyp'', d, a, [])"
    and run: "CallLoadTargetBuildFile example_load_env plain_generator [] (Some []) ''a.gyp'' new_load_state = Some (Some example_answer)"
    using example_answers by (cases example_answer) auto
  have load: "example_workers ''a.gyp'' = Some (''a.gyp'', d, a, [])" by (simp add: example_workers_def e)
  have "real_workers example_load_env plain_generator [] (Some []) (\<lambda>_. new_load_state) example_workers"
    using run by (auto simp: real_workers_def example_workers_def files_once_def new_load_state_def split: if_splits)
  from LoadTargetBuildFilesParallel_closed[where load = example_workers, OF one_file_steps[of example_workers, OF load] one_file_outcome _ this] load
  show ?thesis by (auto simp: one_file_run_def loaded_file_def file_contents_def)
qed

section \<open>Running the loop\<close>

text \<open>A run of the loop under the choices of the operating system: which call the pool
  answers next, and whether a notified loop gets the lock first (choice 0).  A worker that does not
  return lets the program wait for ever.\<close>

definition parallel_next :: "(string \<Rightarrow> load_result option option) \<Rightarrow> nat \<Rightarrow> parallel_run \<Rightarrow> parallel_run option" where
  "parallel_next answer choice r =
     (let st = parallel_run.state r in
      if position r = Running then
        Some (if \<not> work_left st \<or> error st then r\<lparr>position := Finished\<rparr>
              else if to_load st = [] then r\<lparr>position := Waiting\<rparr> else hand_out r)
      else if position r = Notified \<and> (choice = 0 \<or> jobs r = []) then Some (r\<lparr>position := Running\<rparr>)
      else if jobs r = [] then None
      else
        (let job = jobs r ! (choice mod length (jobs r)) in
         case answer job of
           None \<Rightarrow> None
         | Some result \<Rightarrow>
             Some (r\<lparr>parallel_run.state := LoadTargetBuildFileCallback result st, jobs := remove1 job (jobs r),
                     position := (if position r = Waiting then Notified else position r)\<rparr>)))"

partial_function (option) parallel_loop :: "(string \<Rightarrow> load_result option option) \<Rightarrow> (nat \<Rightarrow> nat) \<Rightarrow> nat
    \<Rightarrow> parallel_run \<Rightarrow> parallel_outcome option" where
  "parallel_loop answer choices n r =
     (case parallel_outcome_of r of
        Some res \<Rightarrow> Some res
      | None \<Rightarrow> Option.bind (parallel_next answer (choices n) r) (\<lambda>r'. parallel_loop answer choices (Suc n) r'))"

declare parallel_loop.simps [code]

text \<open>The state a worker process starts a call in: its own caches, and new dictionaries.  The copy of the
  target build files that the call is given is asked for the file itself only, which is not in it: each
  file is handed out once.\<close>

definition worker_start :: "hdict \<Rightarrow> load_state \<Rightarrow> load_state" where
  "worker_start variables s = s\<lparr>data_files := [], aux_files := [], files_read := [], target_build_files := [], global_variables := variables\<rparr>"

definition LoadTargetBuildFilesParallel :: "load_env \<Rightarrow> generator_input_info \<Rightarrow> hdict \<Rightarrow> string list \<Rightarrow> string option
    \<Rightarrow> (string \<Rightarrow> load_state) \<Rightarrow> (nat \<Rightarrow> nat) \<Rightarrow> string list \<Rightarrow> parallel_outcome option" where
  "LoadTargetBuildFilesParallel env gii variables includes depth worker choices build_files =
     parallel_loop (\<lambda>f. CallLoadTargetBuildFile env gii includes depth f (worker_start variables (worker f)))
       choices 0 (parallel_start build_files)"

lemma parallel_next_callback:
  assumes "position r \<noteq> Running" "job \<in> set (jobs r)" "answer job = Some result"
  shows "parallel_step (\<lambda>f. case answer f of Some x \<Rightarrow> x | None \<Rightarrow> None) r
    (r\<lparr>parallel_run.state := LoadTargetBuildFileCallback result (parallel_run.state r), jobs := remove1 job (jobs r),
       position := (if position r = Waiting then Notified else position r)\<rparr>)"
  using parallel_step.callback[OF assms(1,2), of "\<lambda>f. case answer f of Some x \<Rightarrow> x | None \<Rightarrow> None"] assms(3) by simp

lemma parallel_next_step:
  assumes "parallel_next answer choice r = Some r'"
  shows "parallel_step (\<lambda>f. case answer f of Some x \<Rightarrow> x | None \<Rightarrow> None) r r'"
proof (cases "position r = Running \<or> (position r = Notified \<and> (choice = 0 \<or> jobs r = []))")
  case True
  with assms show ?thesis
    by (auto simp: parallel_next_def Let_def work_left_def split: if_splits intro: parallel_step.intros)
next
  case False
  let ?job = "jobs r ! (choice mod length (jobs r))"
  from False assms have jobs: "jobs r \<noteq> []" by (auto simp: parallel_next_def Let_def split: if_splits)
  from False assms jobs obtain result where r: "answer ?job = Some result"
    "r' = r\<lparr>parallel_run.state := LoadTargetBuildFileCallback result (parallel_run.state r), jobs := remove1 ?job (jobs r),
            position := (if position r = Waiting then Notified else position r)\<rparr>"
    unfolding parallel_next_def Let_def by (auto split: option.splits)
  have "?job \<in> set (jobs r)" using jobs by simp
  with False r(1) show ?thesis unfolding r(2) by (intro parallel_next_callback) auto
qed

lemma parallel_loop_run:
  assumes "parallel_loop answer choices n r = Some res"
  shows "\<exists>r'. (parallel_step (\<lambda>f. case answer f of Some x \<Rightarrow> x | None \<Rightarrow> None))\<^sup>*\<^sup>* r r' \<and> parallel_outcome_of r' = Some res"
  using assms
proof (induction rule: parallel_loop.raw_induct[rotated, consumes 1])
  case (1 loop answer choices n r res)
  then show ?case
  proof (cases "parallel_outcome_of r")
    case None
    with 1(2) obtain u where u: "parallel_next answer (choices n) r = Some u" "loop answer choices (Suc n) u = Some res"
      by (auto simp: bind_eq_Some_conv)
    from parallel_next_step[OF u(1)] 1(1)[OF u(2)] show ?thesis by (meson converse_rtranclp_into_rtranclp)
  qed auto
qed

lemma LoadTargetBuildFilesParallel_run:
  assumes "LoadTargetBuildFilesParallel env gii variables includes depth worker choices build_files = Some res"
  obtains load r where "real_workers env gii includes depth (\<lambda>f. worker_start variables (worker f)) load"
    "(parallel_step load)\<^sup>*\<^sup>* (parallel_start build_files) r" "parallel_outcome_of r = Some res"
proof -
  let ?answer = "\<lambda>f. CallLoadTargetBuildFile env gii includes depth f (worker_start variables (worker f))"
  let ?load = "\<lambda>f. case ?answer f of Some x \<Rightarrow> x | None \<Rightarrow> None"
  have "real_workers env gii includes depth (\<lambda>f. worker_start variables (worker f)) ?load"
    by (auto simp: real_workers_def files_once_def worker_start_def split: option.splits)
  with parallel_loop_run[OF assms[unfolded LoadTargetBuildFilesParallel_def]] that show thesis by blast
qed

end
