(* ===== verification/Gyp_Main.thy ===== *)
theory Gyp_Main
  imports Gyp_Make_Files Gyp_Load_Result Gyp_Load_Worker
begin

text \<open>
  The program (\<open>tools/gyp/pylib/gyp/__init__.py\<close>): \<open>gyp_main\<close> reads the options, finds build files,
  the depth and the user's includes, and for every requested format loads the build files and lets the
  generator write its output.  The make generator is one of the modules that can be imported; its
  \<open>CalculateVariables\<close>, \<open>CalculateGeneratorInputInfo\<close> and \<open>PerformBuild\<close> are here.  Debug output is left out.
\<close>

section \<open>Generators\<close>

text \<open>\<open>params\<close> is the record of the make generator.  Of a generator module the program uses its default
  variables and four functions; what \<open>PerformBuild\<close> runs is a list of command lines.\<close>

type_synonym params = make_params

record generator_module =
  gen_default_variables :: "(string \<times> string) list"
  gen_calculate_variables :: "params \<Rightarrow> hdict \<Rightarrow> hdict"
  gen_input_info :: "params \<Rightarrow> generator_input_info res"
  gen_output :: "params \<Rightarrow> string list \<Rightarrow> target_table \<Rightarrow> pydict \<Rightarrow> (string \<times> string) list res"
  gen_build :: "params \<Rightarrow> string list \<Rightarrow> string list list"

definition set_default :: "string \<Rightarrow> hval \<Rightarrow> hdict \<Rightarrow> hdict" where
  "set_default key val d = (if dhas d key then d else dset key val d)"

subsection \<open>The make generator as a module\<close>

definition make_default_variables :: "(string \<times> string) list" where
  "make_default_variables =
     [(''EXECUTABLE_PREFIX'', []), (''EXECUTABLE_SUFFIX'', []), (''STATIC_LIB_PREFIX'', ''lib''),
      (''SHARED_LIB_PREFIX'', ''lib''), (''STATIC_LIB_SUFFIX'', ''.a''),
      (''INTERMEDIATE_DIR'', ''$(obj).$(TOOLSET)/$(TARGET)/geni''), (''SHARED_INTERMEDIATE_DIR'', ''$(obj)/gen''),
      (''PRODUCT_DIR'', ''$(builddir)''), (''RULE_INPUT_ROOT'', ''%(INPUT_ROOT)s''),
      (''RULE_INPUT_DIRNAME'', ''%(INPUT_DIRNAME)s''), (''RULE_INPUT_PATH'', ''$(abspath $<)''),
      (''RULE_INPUT_EXT'', ''$(suffix $<)''), (''RULE_INPUT_NAME'', ''$(notdir $<)''),
      (''CONFIGURATION_NAME'', ''$(BUILDTYPE)'')]"

text \<open>Every flavor but \<open>mac\<close>.\<close>

definition CalculateVariables :: "params \<Rightarrow> hdict \<Rightarrow> hdict" where
  "CalculateVariables p default_variables =
     (let operating_system = (if mp_flavor p = ''android'' then ''linux'' else mp_flavor p) in
      set_default ''LIB_DIR'' (HStr ''$(obj).$(TOOLSET)'')
        (set_default ''SHARED_LIB_DIR'' (HStr ''$(builddir)/lib.$(TOOLSET)'')
          (set_default ''SHARED_LIB_SUFFIX'' (HStr ''.so'')
            (set_default ''OS'' (HStr operating_system) default_variables))))"

definition CalculateGeneratorInputInfo :: "params \<Rightarrow> generator_input_info res" where
  "CalculateGeneratorInputInfo p =
     (let output_dir = (if opt_generator_output p \<noteq> [] then opt_generator_output p else opt_toplevel_dir p) in
      case generator_flag p ''output_dir'' (TextValue ''out'') of
        TextValue builddir_name \<Rightarrow>
          Inr \<lparr>gii_path_sections = [], gii_non_configuration_keys = [], gii_multiple_toolsets = True,
            gii_filelist_paths = Some
              [(''toplevel'', PStr (opt_toplevel_dir p)),
               (''qualified_out_dir'', PStr (normpath (path_join output_dir [builddir_name, ''gypfiles''])))],
            gii_extra_sources_for_rules = [], gii_adjust_static_libraries = True,
            gii_sorted_dependencies = has_flag p ''android_ndk_version''\<rparr>
      | _ \<Rightarrow> Inl (AttributeError ''object has no attribute startswith''))"

definition PerformBuild :: "params \<Rightarrow> string list \<Rightarrow> string list list" where
  "PerformBuild p configurations =
     map (\<lambda>config. [''make'']
         @ (if opt_toplevel_dir p \<noteq> [] \<and> opt_toplevel_dir p \<noteq> ''.'' then [''-C'', opt_toplevel_dir p] else [])
         @ [''BUILDTYPE='' @ config]) configurations"

definition make_module :: generator_module where
  "make_module =
     \<lparr>gen_default_variables = make_default_variables, gen_calculate_variables = CalculateVariables,
      gen_input_info = CalculateGeneratorInputInfo, gen_output = GenerateOutput, gen_build = PerformBuild\<rparr>"

section \<open>The process\<close>

text \<open>What the program finds around it: the environment, the file system, the modules it can import,
  and whether a command it calls succeeds.  For parallel loading, \<open>p_worker\<close> is the world in which a
  worker of the pool starts to load a file (its cache of commands is that of its process), and
  \<open>p_choices\<close> are the choices of the operating system in a run of the loop.\<close>

record process =
  p_env :: load_env
  p_environ :: "(string \<times> string) list"
  p_argv0 :: string
  p_listdir :: "string list"
  p_exists :: "string \<Rightarrow> bool"
  p_expanduser :: "string \<Rightarrow> string"
  p_import :: "string option \<Rightarrow> string \<Rightarrow> generator_module res"
  p_pick :: "node_id list \<Rightarrow> node_id list \<Rightarrow> nat"
  p_set_pick :: "pyval list \<Rightarrow> pyval list \<Rightarrow> nat"
  p_worker :: "string \<Rightarrow> load_state"
  p_choices :: "nat \<Rightarrow> nat"
  p_call :: "string list \<Rightarrow> bool"

definition sys_platform :: "process \<Rightarrow> string" where
  "sys_platform p = env_platform (expansion (p_env p))"

text \<open>A computation that may end the process with a status.\<close>

datatype 'a run = Completed 'a | SystemExit nat

definition run_bind :: "('s, 'a run) act \<Rightarrow> ('a \<Rightarrow> ('s, 'b run) act) \<Rightarrow> ('s, 'b run) act" where
  "run_bind m f = abind m (\<lambda>r. case r of Completed x \<Rightarrow> f x | SystemExit n \<Rightarrow> ret (SystemExit n))"

lemma run_bind_Completed:
  "run_bind m f s = Some (Inr (Completed y, s')) \<longleftrightarrow>
     (\<exists>x s1. m s = Some (Inr (Completed x, s1)) \<and> f x s1 = Some (Inr (Completed y, s')))"
proof -
  have "(case r of Completed x \<Rightarrow> f x | SystemExit n \<Rightarrow> ret (SystemExit n)) s1 = Some (Inr (Completed y, s'))
      \<longleftrightarrow> (\<exists>x. r = Completed x \<and> f x s1 = Some (Inr (Completed y, s')))" for r s1
    by (cases r) (auto simp: ret_def)
  then show ?thesis by (auto simp: run_bind_def abind_Inr)
qed

section \<open>The options\<close>

definition given :: "option_values \<Rightarrow> string \<Rightarrow> string" where
  "given options name = text_value (option_value options name)"

definition FindBuildFiles :: "process \<Rightarrow> string list" where
  "FindBuildFiles p = filter (suffix ''.gyp'') (p_listdir p)"

text \<open>The directory of the user's files, on a platform where only \<open>HOME\<close> names the home directory.\<close>

definition home_dot_gyp :: "process \<Rightarrow> option_values \<Rightarrow> string option" where
  "home_dot_gyp p options =
     (let from_home =
            (case dget (p_environ p) ''HOME'' of
               None \<Rightarrow> None
             | Some home \<Rightarrow>
                 (let d = path_join home [''.gyp''] in if p_exists p d then Some d else None));
          dir =
            (if given options ''config_dir'' \<noteq> [] then Some (p_expanduser p (given options ''config_dir''))
             else
               (let d = (if uses_environment options
                         then map_option (\<lambda>d. if d \<noteq> [] then p_expanduser p d else d) (dget (p_environ p) ''GYP_CONFIG_DIR'')
                         else None) in
                if d \<noteq> None \<and> d \<noteq> Some [] then d
                else if dget (p_environ p) ''HOME'' \<noteq> None then from_home else d)) in
      case dir of
        None \<Rightarrow> None
      | Some d \<Rightarrow> if d \<noteq> [] \<and> \<not> p_exists p d then None else Some d)"

definition split_formats :: "string \<Rightarrow> string list" where
  "split_formats s = split_on CHR '','' (map (\<lambda>c. if is_space c then CHR '','' else c) s)"

definition formats_of :: "process \<Rightarrow> option_values \<Rightarrow> string list" where
  "formats_of p options =
     (let formats = list_value (option_value options ''formats'');
          from_environ = (if uses_environment options then dget_default (p_environ p) ''GYP_GENERATORS'' [] else []) in
      if formats \<noteq> [] then formats
      else if from_environ \<noteq> [] then split_formats from_environ
      else if sys_platform p = ''darwin'' then [''xcode'']
      else if sys_platform p \<in> {''win32'', ''cygwin''} then [''msvs''] else [''make''])"

text \<open>The path of a build file up to its last component \<open>src\<close>; empty when it has none.\<close>

definition src_dir :: "string \<Rightarrow> string \<Rightarrow> string" where
  "src_dir cwd build_file =
     join_str ''/'' (rev (dropWhile (\<lambda>c. c \<noteq> ''src'')
       (rev (split_on CHR ''/'' (normpath (path_join cwd [dirname build_file]))))))"

definition find_depth :: "string \<Rightarrow> string list \<Rightarrow> string" where
  "find_depth cwd build_files =
     (case find (\<lambda>f. src_dir cwd f \<noteq> []) build_files of None \<Rightarrow> [] | Some f \<Rightarrow> src_dir cwd f)"

text \<open>The options as the rest of the program finds them, and what was computed from them.\<close>

record gyp_setup =
  su_options :: option_values
  su_build_files :: "string list"
  su_build_files_arg :: "string list"
  su_formats :: "string list"
  su_includes :: "string list"
  su_home_dot_gyp :: "string option"
  su_variables :: "(string \<times> named_value) list"
  su_generator_flags :: "(string \<times> named_value) list"

definition no_build_file :: "process \<Rightarrow> py_error" where
  "no_build_file p =
     (let my_name = basename (p_argv0 p) in
      GypError (''usage: '' @ my_name @ '' [options ...] [build_file ...]'' @ [CHR 0x0A, CHR 0x0A] @ my_name
        @ '': error: no build_file''))"

definition with_environment :: "process \<Rightarrow> option_values \<Rightarrow> option_values" where
  "with_environment p options =
     (let options = dset ''formats'' (OptList (formats_of p options)) options;
          g_o = dget_default (p_environ p) ''GYP_GENERATOR_OUTPUT'' [];
          options = (if given options ''generator_output'' = [] \<and> uses_environment options \<and> g_o \<noteq> []
                     then dset ''generator_output'' (OptText g_o) options else options) in
      dset ''parallel'' (OptBool (option_value options ''no_parallel'' \<noteq> OptBool True)) options)"

definition with_depth :: "string \<Rightarrow> string list \<Rightarrow> option_values \<Rightarrow> option_values res" where
  "with_depth cwd build_files options =
     (let depth = (if given options ''depth'' \<noteq> [] then given options ''depth'' else find_depth cwd build_files) in
      if depth = []
      then Inl (GypError (''Could not automatically locate src directory.  This is'' @
        ''a temporary Chromium feature that will be removed.  Use'' @ ''--depth as a workaround.''))
      else
        (let options = dset ''depth'' (OptText depth) options in
         Inr (if given options ''toplevel_dir'' = [] then dset ''toplevel_dir'' (OptText depth) options else options)))"

definition include_files :: "process \<Rightarrow> option_values \<Rightarrow> string option \<Rightarrow> string list" where
  "include_files p options home =
     (case home of
        None \<Rightarrow> []
      | Some h \<Rightarrow> let default_include = path_join h [''include.gypi''] in
          if p_exists p default_include then [default_include] else [])
     @ list_value (option_value options ''includes'')"

definition setup_of :: "process \<Rightarrow> option_values \<Rightarrow> string list \<Rightarrow> gyp_setup res" where
  "setup_of p parsed build_files_arg =
     (let home = home_dot_gyp p parsed;
          options = with_environment p parsed;
          build_files = (if build_files_arg = [] then FindBuildFiles p else build_files_arg) in
      rbind (if build_files = [] then Inl (no_build_file p) else Inr ()) (\<lambda>_.
      rbind (with_depth (current_dir (p_env p)) build_files options) (\<lambda>options.
      rbind (cmdline_default_variables (p_environ p) options) (\<lambda>variables.
      rbind (cmdline_generator_flags (p_environ p) options) (\<lambda>generator_flags.
        Inr \<lparr>su_options = options, su_build_files = build_files, su_build_files_arg = build_files_arg,
             su_formats = formats_of p parsed, su_includes = include_files p options home,
             su_home_dot_gyp = home, su_variables = variables, su_generator_flags = generator_flags\<rparr>)))))"
section \<open>Loading for a generator\<close>

text \<open>\<open>Load\<close> of the package: the generator module, its variables and what it wants of the input.\<close>

definition named_hval :: "named_value \<Rightarrow> hval" where
  "named_hval v = (case v of IntValue i \<Rightarrow> HInt i | TextValue s \<Rightarrow> HStr s | TrueValue \<Rightarrow> HNone)"

definition params_of :: "process \<Rightarrow> gyp_setup \<Rightarrow> string option \<Rightarrow> params" where
  "params_of p su flavor =
     \<lparr>opt_depth = given (su_options su) ''depth'', opt_toplevel_dir = given (su_options su) ''toplevel_dir'',
      opt_generator_output = given (su_options su) ''generator_output'', opt_suffix = given (su_options su) ''suffix'',
      mp_flavor = GetFlavor (case flavor of None \<Rightarrow> [] | Some f \<Rightarrow> [(''flavor'', f)]) (sys_platform p), mp_generator_flags = su_generator_flags su,
      mp_build_files = su_build_files su, mp_build_files_arg = su_build_files_arg su, mp_gyp_binary = p_argv0 p,
      mp_home_dot_gyp = (case su_home_dot_gyp su of None \<Rightarrow> [] | Some h \<Rightarrow> h), mp_environ = p_environ p,
      mp_cwd = current_dir (p_env p), mp_realpath = env_realpath (expansion (p_env p)), mp_pick = p_set_pick p,
      mp_options = su_options su, mp_metadata = regeneration_metadata gyp_options\<rparr>"

definition split_format :: "string \<Rightarrow> string \<times> string option" where
  "split_format fmt =
     (case split1 CHR ''-'' fmt of [name, flavor] \<Rightarrow> (name, Some flavor) | _ \<Rightarrow> (fmt, None))"

definition import_generator :: "process \<Rightarrow> string \<Rightarrow> generator_module res" where
  "import_generator p name =
     (if suffix ''.py'' name then
        (let (path, generator_name) = path_split (fst (splitext name)) in
         p_import p (Some (normpath (path_join (current_dir (p_env p)) [path]))) generator_name)
      else p_import p None (''gyp.generator.'' @ name))"

text \<open>A definition without a value is the value \<open>True\<close> in the program, which is of none of the classes that
  variables may have: here it is \<open>HNone\<close>, and the value of conditions on it is up to the environment.\<close>

definition generator_variables :: "generator_module \<Rightarrow> params \<Rightarrow> string \<Rightarrow> (string \<times> named_value) list \<Rightarrow> hdict" where
  "generator_variables g params name default_variables =
     gen_calculate_variables g params
       (fold (\<lambda>(key, val). set_default key (HStr val)) (gen_default_variables g)
         (dset ''GENERATOR'' (HStr name) (map (\<lambda>(key, val). (key, named_hval val)) default_variables)))"

text \<open>What parallel loading leaves in \<open>data\<close> of the main process.\<close>

definition parallel_data :: "parallel_state \<Rightarrow> pydict lact" where
  "parallel_data st =
     abind (change (\<lambda>s. s\<lparr>load_state.target_build_files := parallel_state.target_build_files st\<rparr>)) (\<lambda>_.
       ret ((''target_build_files'', PList (map PStr (parallel_state.target_build_files st)))
            # map (\<lambda>(path, d). (path, PDict d)) (file_data st)))"

definition load_data :: "process \<Rightarrow> load_env \<Rightarrow> generator_input_info \<Rightarrow> gyp_setup \<Rightarrow> hdict \<Rightarrow> pydict run lact" where
  "load_data p env gii su variables =
     (let depth = Some (given (su_options su) ''depth'');
          files = remdups (map normpath (su_build_files su)) in
      if option_value (su_options su) ''parallel'' = OptBool True then
        (case LoadTargetBuildFilesParallel env gii variables (su_includes su) depth (p_worker p) (p_choices p) files of
           None \<Rightarrow> (\<lambda>s. None)
         | Some (Loaded st) \<Rightarrow> abind (parallel_data st) (\<lambda>data. ret (Completed data))
         | Some (Exit n) \<Rightarrow> ret (SystemExit n)
         | Some NoPool \<Rightarrow> throw (AttributeError ''close''))
      else
        abind (load_build_files (with_globals gii env) (su_includes su) depth files) (\<lambda>_.
        abind loaded_data (\<lambda>data. ret (Completed data))))"

definition input_Load :: "process \<Rightarrow> load_env \<Rightarrow> generator_input_info \<Rightarrow> gyp_setup \<Rightarrow> hdict
    \<Rightarrow> (string list \<times> target_table \<times> pydict) run lact" where
  "input_Load p env gii su variables =
     run_bind (load_data p env gii su variables) (\<lambda>data.
           abind (later_phases (with_globals gii env) (p_pick p) gii
             (option_value (su_options su) ''circular_check'' = OptBool True)
             (list_value (option_value (su_options su) ''root_targets'')) data) (\<lambda>x. ret (Completed x)))"

text \<open>The cache of commands is a variable of the module; everything else of a load is new.\<close>

definition fresh_load :: "hdict \<Rightarrow> 'a lact \<Rightarrow> 'a wact" where
  "fresh_load variables m =
     (\<lambda>w. obind (m (new_load_state\<lparr>outside := w, global_variables := variables\<rparr>)) (\<lambda>(x, s).
            Some (Inr (x, outside s))))"

section \<open>One format\<close>

record gyp_output =
  out_format :: string
  out_files :: "(string \<times> string) list"
  out_calls :: "string list list"

definition build_calls :: "process \<Rightarrow> generator_module \<Rightarrow> params \<Rightarrow> string list \<Rightarrow> string list \<Rightarrow> target_table
    \<Rightarrow> string list list res" where
  "build_calls p g params configs flat_list targets =
     (if configs = [] then Inr []
      else
        rbind (list_index flat_list 0) (\<lambda>first.
        rbind (dlookup targets first) (\<lambda>spec.
        rbind (rbind (dlookup spec ''configurations'') (as_dict ''keys'')) (\<lambda>valid.
        rbind (case find (\<lambda>conf. \<not> dhas valid conf) configs of
                 Some conf \<Rightarrow> Inl (GypError (''Invalid config specified via --build: '' @ conf))
               | None \<Rightarrow> Inr ()) (\<lambda>_.
          (let calls = gen_build g params configs in
           if list_all (p_call p) calls then Inr calls else Inl (Exception ''CalledProcessError'')))))))"

definition format_env :: "process \<Rightarrow> gyp_setup \<Rightarrow> load_env" where
  "format_env p su = (p_env p)\<lparr>check_syntax := option_value (su_options su) ''check'' = OptBool True\<rparr>"

definition run_format :: "process \<Rightarrow> gyp_setup \<Rightarrow> string \<Rightarrow> gyp_output run wact" where
  "run_format p su fmt =
     (let (name, flavor) = split_format fmt;
          params = params_of p su flavor in
      abind (of_res (import_generator p name)) (\<lambda>g.
      abind (of_res (gen_input_info g params)) (\<lambda>gii.
        (let variables = generator_variables g params name (su_variables su) in
         run_bind (fresh_load variables (input_Load p (format_env p su) gii su variables))
           (\<lambda>(flat_list, targets, data).
               abind (of_res (gen_output g params flat_list targets data)) (\<lambda>files.
               abind (of_res (build_calls p g params (list_value (option_value (su_options su) ''configs''))
                   flat_list targets)) (\<lambda>calls.
                 ret (Completed \<lparr>out_format = fmt, out_files = files, out_calls = calls\<rparr>))))))))"

section \<open>The program\<close>

fun run_formats :: "process \<Rightarrow> gyp_setup \<Rightarrow> string list \<Rightarrow> gyp_output list \<Rightarrow> gyp_output list run wact" where
  "run_formats p su [] outs = ret (Completed outs)"
| "run_formats p su (fmt # fmts) outs =
     run_bind (run_format p su fmt) (\<lambda>out. run_formats p su fmts (outs @ [out]))"

definition gyp_main :: "process \<Rightarrow> string list \<Rightarrow> gyp_output list run wact" where
  "gyp_main p args =
     (case parse_args gyp_options args of
        ParseExit n \<Rightarrow> ret (SystemExit n)
      | Parsed options build_files_arg \<Rightarrow>
          abind (of_res (setup_of p options build_files_arg)) (\<lambda>su.
            run_formats p su (set_of (su_formats su)) []))"

text \<open>The status of the process: \<open>main\<close> turns a \<open>GypError\<close> into 1, and so does the interpreter with any
  other exception.\<close>

definition script_main :: "process \<Rightarrow> string list \<Rightarrow> nat option" where
  "script_main p args =
     (case gyp_main p args new_world of
        None \<Rightarrow> None
      | Some (Inl e) \<Rightarrow> Some 1
      | Some (Inr (Completed outs, w)) \<Rightarrow> Some 0
      | Some (Inr (SystemExit n, w)) \<Rightarrow> Some n)"

section \<open>What the program writes\<close>

lemma set_of_set: "set (set_of xs) = set xs"
proof -
  have "set (fold (\<lambda>x acc. if x \<in> set acc then acc else acc @ [x]) xs acc) = set acc \<union> set xs" for acc :: "string list"
    by (induction xs arbitrary: acc) auto
  then show ?thesis by (simp add: set_of_def)
qed

lemma run_formats_outputs:
  assumes "run_formats p su fmts outs w = Some (Inr (Completed outs', w'))" "fmt \<in> set fmts"
  shows "\<exists>out w1 w2. out \<in> set outs' \<and> run_format p su fmt w1 = Some (Inr (Completed out, w2))"
proof -
  have "set outs \<subseteq> set outs' \<and> (\<forall>fmt \<in> set fmts. \<exists>out w1 w2. out \<in> set outs'
      \<and> run_format p su fmt w1 = Some (Inr (Completed out, w2)))"
    using assms(1)
  proof (induction fmts arbitrary: outs w)
    case (Cons f fmts)
    from Cons.prems obtain out w1 where one: "run_format p su f w = Some (Inr (Completed out, w1))"
      and rest: "run_formats p su fmts (outs @ [out]) w1 = Some (Inr (Completed outs', w'))"
      by (auto simp: run_bind_Completed ret_def)
    from Cons.IH[OF rest] one show ?case by auto
  qed (simp add: ret_def)
  with assms(2) show ?thesis by blast
qed

lemma input_Load_result:
  assumes "input_Load p env gii su variables s = Some (Inr (Completed (flat_list, targets, data), s'))"
  shows "\<exists>loaded s1 resolved full. load_data p env gii su variables s = Some (Inr (Completed loaded, s1))
    \<and> later_phases (with_globals gii env) (p_pick p) gii
        (option_value (su_options su) ''circular_check'' = OptBool True)
        (list_value (option_value (su_options su) ''root_targets'')) loaded s1 = Some (Inr ((flat_list, targets, data), s'))
    \<and> resolve_dependencies (expansion (with_globals gii env)) loaded = Inr resolved
    \<and> set full = set (dkeys resolved)
    \<and> asked_for resolved full (list_value (option_value (su_options su) ''root_targets'')) (set flat_list)
    \<and> distinct flat_list \<and> ordered resolved flat_list"
proof -
  from assms obtain loaded s1 where 1: "load_data p env gii su variables s = Some (Inr (Completed loaded, s1))"
    and 2: "later_phases (with_globals gii env) (p_pick p) gii
        (option_value (su_options su) ''circular_check'' = OptBool True)
        (list_value (option_value (su_options su) ''root_targets'')) loaded s1 = Some (Inr ((flat_list, targets, data), s'))"
    by (auto simp: input_Load_def abind_Inr run_bind_Completed ret_def)
  from later_phases_result[OF 2] 1 2 show ?thesis by blast
qed

lemma run_format_result:
  assumes "run_format p su fmt w = Some (Inr (Completed out, w'))" "split_format fmt = (name, flavor)"
  shows "\<exists>g gii flat_list targets data s'. import_generator p name = Inr g
    \<and> gen_input_info g (params_of p su flavor) = Inr gii
    \<and> (let variables = generator_variables g (params_of p su flavor) name (su_variables su) in
       input_Load p (format_env p su) gii su variables (new_load_state\<lparr>outside := w, global_variables := variables\<rparr>)
         = Some (Inr (Completed (flat_list, targets, data), s')))
    \<and> gen_output g (params_of p su flavor) flat_list targets data = Inr (out_files out) \<and> out_format out = fmt"
  using assms
  by (auto simp: run_format_def Let_def abind_Inr run_bind_Completed ret_def fresh_load_def split: prod.split_asm)

text \<open>What a make format leaves: the build files are loaded, the targets asked for are settled by the
  later phases, and the files are those of the generator for the list, the targets and the data these
  phases end with.\<close>

definition format_result :: "process \<Rightarrow> gyp_setup \<Rightarrow> params \<Rightarrow> hdict \<Rightarrow> gyp_output \<Rightarrow> bool" where
  "format_result p su params variables out \<longleftrightarrow>
     (\<exists>gii w0 loaded s1 s' resolved full flat_list targets data.
      (let env = format_env p su; roots = list_value (option_value (su_options su) ''root_targets'') in
      CalculateGeneratorInputInfo params = Inr gii
      \<and> load_data p env gii su variables (new_load_state\<lparr>outside := w0, global_variables := variables\<rparr>)
          = Some (Inr (Completed loaded, s1))
      \<and> later_phases (with_globals gii env) (p_pick p) gii
          (option_value (su_options su) ''circular_check'' = OptBool True) roots loaded s1
          = Some (Inr ((flat_list, targets, data), s'))
      \<and> resolve_dependencies (expansion (with_globals gii env)) loaded = Inr resolved
      \<and> set full = set (dkeys resolved) \<and> asked_for resolved full roots (set flat_list)
      \<and> distinct flat_list \<and> ordered resolved flat_list
      \<and> output_files params flat_list targets data (out_files out)))"


section \<open>Parallel loading\<close>

text \<open>What is loaded in parallel holds the build files and all files that their targets depend on.\<close>

lemma load_data_parallel_closed:
  assumes "option_value (su_options su) ''parallel'' = OptBool True"
    and "load_data p env gii su variables s = Some (Inr (Completed data, s1))"
  shows "\<exists>load st. real_workers env gii (su_includes su) (Some (given (su_options su) ''depth''))
        (\<lambda>f. worker_start variables (p_worker p f)) load
    \<and> load_state.target_build_files s1 = parallel_state.target_build_files st
    \<and> set (map normpath (su_build_files su)) \<subseteq> set (load_state.target_build_files s1)
    \<and> (\<forall>f \<in> set (load_state.target_build_files s1). loaded_file (env_realpath (expansion env)) load st f)
    \<and> data = (''target_build_files'', PList (map PStr (parallel_state.target_build_files st)))
              # map (\<lambda>(path, d). (path, PDict d)) (file_data st)"
proof -
  let ?files = "remdups (map normpath (su_build_files su))" and ?depth = "Some (given (su_options su) ''depth'')"
  from assms obtain st where
    run: "LoadTargetBuildFilesParallel env gii variables (su_includes su) ?depth (p_worker p) (p_choices p) ?files = Some (Loaded st)"
    and st: "load_state.target_build_files s1 = parallel_state.target_build_files st"
      "data = (''target_build_files'', PList (map PStr (parallel_state.target_build_files st)))
              # map (\<lambda>(path, d). (path, PDict d)) (file_data st)"
    by (auto simp: load_data_def Let_def parallel_data_def abind_Inr ret_def throw_def change_def
        split: option.split_asm parallel_outcome.split_asm)
  from run obtain load r where w: "real_workers env gii (su_includes su) ?depth (\<lambda>f. worker_start variables (p_worker p f)) load"
    and r: "(parallel_step load)\<^sup>*\<^sup>* (parallel_start ?files) r" "parallel_outcome_of r = Some (Loaded st)"
    by (rule LoadTargetBuildFilesParallel_run)
  from parallel_run_closed[OF r _ w] w st show ?thesis by auto
qed

text \<open>A run on the build file of the loading example, which has one target.\<close>

definition example_process :: process where
  "example_process =
     \<lparr>p_env = example_load_env, p_environ = [], p_argv0 = ''gyp'', p_listdir = [''a.gyp''], p_exists = (\<lambda>d. False),
      p_expanduser = id,
      p_import = (\<lambda>path name. if name = ''gyp.generator.make'' then Inr make_module else Inl (ImportError name)),
      p_pick = (\<lambda>xs ys. 0), p_set_pick = (\<lambda>xs ys. 0),
      p_worker = (\<lambda>f. new_load_state), p_choices = (\<lambda>n. 0), p_call = (\<lambda>args. True)\<rparr>"

definition main_args :: "string list" where
  "main_args = [''--no-parallel'', ''--no-circular-check'', ''--depth=.'', ''-Gauto_regeneration=0'',
     ''-Dtarget_arch=x'', ''a.gyp'']"

definition main_options :: option_values where
  "main_options = (case parse_args gyp_options main_args of Parsed v l \<Rightarrow> v | ParseExit n \<Rightarrow> [])"

definition main_setup :: gyp_setup where
  "main_setup =
     \<lparr>su_options = dset ''toplevel_dir'' (OptText ''.'') (dset ''depth'' (OptText ''.'')
        (with_environment example_process main_options)),
      su_build_files = [''a.gyp''], su_build_files_arg = [''a.gyp''], su_formats = [''make''], su_includes = [],
      su_home_dot_gyp = None, su_variables = [(''target_arch'', TextValue ''x'')], su_generator_flags = [(''auto_regeneration'', IntValue 0)]\<rparr>"

definition main_params :: params where
  "main_params = params_of example_process main_setup None"

definition main_info :: generator_input_info where
  "main_info = (case CalculateGeneratorInputInfo main_params of Inr gii \<Rightarrow> gii | Inl e \<Rightarrow> plain_generator)"

definition main_variables :: hdict where
  "main_variables = generator_variables make_module main_params ''make'' [(''target_arch'', TextValue ''x'')]"

definition main_target :: pydict where
  "main_target =
     [(''target_name'', PStr ''x''), (''type'', PStr ''none''), (''toolset'', PStr ''target''),
      (''configurations'', PDict [(''Default'', PDict [(''n'', PStr ''!ls!!ls!'')])]),
      (''default_configuration'', PStr ''Default'')]"

lemma main_setup_of:
  "parse_args gyp_options main_args = Parsed main_options [''a.gyp'']"
  "setup_of example_process main_options [''a.gyp''] = Inr main_setup"
  by code_simp+

lemma input_Load_sequential:
  assumes "option_value (su_options su) ''parallel'' \<noteq> OptBool True"
  shows "input_Load p env gii su variables =
    abind (Load env (p_pick p) gii (su_build_files su) (su_includes su) (Some (given (su_options su) ''depth''))
      (option_value (su_options su) ''circular_check'' = OptBool True)
      (list_value (option_value (su_options su) ''root_targets''))) (\<lambda>x. ret (Completed x))"
  using assms by (simp add: input_Load_def load_data_def Load_def load_phases_def run_bind_def Let_def abind_def ret_def
      obind_def fun_eq_iff split: option.split sum.split prod.split)

lemma main_parts:
  "format_env example_process main_setup = example_load_env"
  "option_value (su_options main_setup) ''parallel'' = OptBool False"
  "given (su_options main_setup) ''depth'' = ''.''"
  "option_value (su_options main_setup) ''circular_check'' = OptBool False"
  "option_value (su_options main_setup) ''root_targets'' = OptNone"
  by (simp add: format_env_def example_process_def example_load_env_def main_setup_def) code_simp+

definition main_result :: "(string list \<times> target_table \<times> pydict) \<Rightarrow> bool" where
  "main_result r \<longleftrightarrow> r = ([''a.gyp:x#target''], [(''a.gyp:x#target'', main_target)],
     [(''target_build_files'', PList [PStr ''a.gyp'']),
      (''a.gyp'', PDict [(''targets'', PList [PDict main_target]), (''_DEPTH'', PStr ''.''),
        (''included_files'', PList [PStr ''../a.gyp''])])])"

lemma main_Load:
  "case Load example_load_env (\<lambda>xs ys. 0) main_info [''a.gyp''] [] (Some ''.'') False []
      (new_load_state\<lparr>outside := new_world, global_variables := (''target_arch'', HStr ''x'') # vars\<rparr>) of
    Some (Inr (r, s)) \<Rightarrow> main_result r | _ \<Rightarrow> False"
  by code_simp
lemma main_variables_arch: "\<exists>vars. main_variables = (''target_arch'', HStr ''x'') # vars"
proof -
  have "main_variables \<noteq> [] \<and> hd main_variables = (''target_arch'', HStr ''x'')" by code_simp
  then show ?thesis by (metis list.collapse)
qed

definition main_data :: pydict where
  "main_data = [(''target_build_files'', PList [PStr ''a.gyp'']),
      (''a.gyp'', PDict [(''targets'', PList [PDict main_target]), (''_DEPTH'', PStr ''.''),
        (''included_files'', PList [PStr ''../a.gyp''])])]"

abbreviation main_table :: target_table where
  "main_table \<equiv> [(''a.gyp:x#target'', main_target)]"

lemma main_input:
  "\<exists>s. input_Load example_process (format_env example_process main_setup) main_info main_setup main_variables
      (new_load_state\<lparr>outside := new_world, global_variables := main_variables\<rparr>)
    = Some (Inr (Completed ([''a.gyp:x#target''], main_table, main_data), s))"
proof -
  obtain vars where vars: "main_variables = (''target_arch'', HStr ''x'') # vars" using main_variables_arch by blast
  from main_Load[of vars] obtain s where
    "Load example_load_env (\<lambda>xs ys. 0) main_info [''a.gyp''] [] (Some ''.'') False []
      (new_load_state\<lparr>outside := new_world, global_variables := main_variables\<rparr>)
     = Some (Inr (([''a.gyp:x#target''], main_table, main_data), s))"
    unfolding vars main_data_def by (auto simp: main_result_def split: option.split_asm sum.split_asm prod.split_asm)
  then show ?thesis
    using main_parts by (subst input_Load_sequential)
      (simp_all add: abind_def ret_def main_setup_def list_value_def example_process_def)
qed

lemma main_target_parts:
  "rmap (\<lambda>t. rbind (dlookup main_table t) (\<lambda>spec. text_field spec ''toolset'')) [''a.gyp:x#target''] = Inr [''target'']"
  "default_configuration main_table [''a.gyp:x#target''] = Inr ''Default''"
  "list_index [''a.gyp:x#target''] 0 = Inr ''a.gyp:x#target''"
  "global_settings main_data (case BuildFile ''a.gyp:x#target'' of Some f \<Rightarrow> f | None \<Rightarrow> []) = Inr (PList [])"
  "needed_targets_of main_params [''a.gyp:x#target''] main_table = Inr [PStr ''a.gyp:x#target'']"
  "\<not> named_truthy (generator_flag main_params ''auto_regeneration'' TrueValue)"
  "qualified_parts ''a.gyp:x#target'' = Inr (''a.gyp'', ''x'', ''target'')"
  "global_settings main_data ''a.gyp'' = Inr (PList [])"
  "dlookup main_table ''a.gyp:x#target'' = Inr main_target"
  by code_simp+

lemma main_sub_makefiles:
  "case rmap (sub_makefile main_params [''a.gyp:x#target''] main_table [PStr ''a.gyp:x#target''])
      (fold add_once (relative main_params ''a.gyp'' (opt_toplevel_dir main_params)
        # map (included_path main_params ''a.gyp'') [''../a.gyp'']) []) of Inr subs \<Rightarrow> True | Inl e \<Rightarrow> False"
  by code_simp

lemma main_Write:
  "case Write (mp_flavor main_params) (has_flag main_params ''android_ndk_version'') (source_prefix_of main_params)
      ''a.gyp:x#target'' (fst (CalculateMakefilePath main_params ''a.gyp'' (''x'' @ ''.'' @ ''target'' @ opt_suffix main_params @ ''.mk'')))
      main_target [(''Default'', PDict [(''n'', PStr ''!ls!!ls!'')])] True no_outputs of
    Inl e \<Rightarrow> False | Inr (t, mo) \<Rightarrow> True"
  by code_simp

lemma main_generated: "\<exists>files. GenerateOutput main_params [''a.gyp:x#target''] main_table main_data = Inr files"
proof -
  obtain h where h: "root_header main_params [''a.gyp:x#target''] main_table main_data = Inr h"
    using root_header_plain[OF main_target_parts(1-4)] by blast
  obtain t mo where wr: "Write (mp_flavor main_params) (has_flag main_params ''android_ndk_version'')
      (source_prefix_of main_params) ''a.gyp:x#target''
      (fst (CalculateMakefilePath main_params ''a.gyp'' (''x'' @ ''.'' @ ''target'' @ opt_suffix main_params @ ''.mk'')))
      main_target [(''Default'', PDict [(''n'', PStr ''!ls!!ls!'')])] True no_outputs = Inr (t, mo)"
    using Inr_pair[OF main_Write] by blast
  have "rbind (dlookup main_data ''a.gyp'') (as_dict ''__getitem__'') = Inr [(''targets'', PList [PDict main_target]),
      (''_DEPTH'', PStr ''.''), (''included_files'', PList [PStr ''../a.gyp''])]"
    "rbind (dlookup [(''targets'', PList [PDict main_target]), (''_DEPTH'', PStr ''.''),
      (''included_files'', PList [PStr ''../a.gyp''])] ''included_files'') texts = Inr [''../a.gyp'']"
    "rbind (dlookup main_target ''configurations'') (as_dict ''keys'')
      = Inr [(''Default'', PDict [(''n'', PStr ''!ls!!ls!'')])]"
    by code_simp+
  from write_target_file_eq[OF main_target_parts(7,8) this(1,2) main_target_parts(9) this(3),
      of main_params "[PStr ''a.gyp:x#target'']" "\<lparr>os_files = [], os_outputs = no_outputs, os_build_files = [], os_includes = []\<rparr>" t mo]
    wr obtain st where st: "write_target_file main_params main_data main_table [PStr ''a.gyp:x#target''] (PList [])
      ''a.gyp:x#target'' \<lparr>os_files = [], os_outputs = no_outputs, os_build_files = [], os_includes = []\<rparr> = Inr st"
    "os_build_files st = fold add_once (relative main_params ''a.gyp'' (opt_toplevel_dir main_params)
        # map (included_path main_params ''a.gyp'') [''../a.gyp'']) []" by auto
  obtain subs where "rmap (sub_makefile main_params [''a.gyp:x#target''] main_table [PStr ''a.gyp:x#target''])
      (os_build_files st) = Inr subs"
    using main_sub_makefiles unfolding st(2) by (auto split: sum.split_asm)
  with h main_target_parts(3-6) st(1) show ?thesis
    by (intro GenerateOutput_steps) (simp_all add: write_target_files_def)
qed

lemma main_run:
  "\<exists>outs w'. gyp_main example_process main_args new_world = Some (Inr (Completed outs, w'))"
proof -
  obtain files where files: "GenerateOutput main_params [''a.gyp:x#target''] main_table main_data = Inr files"
    using main_generated by blast
  obtain s where load: "input_Load example_process (format_env example_process main_setup) main_info main_setup
      main_variables (new_load_state\<lparr>outside := new_world, global_variables := main_variables\<rparr>)
    = Some (Inr (Completed ([''a.gyp:x#target''], main_table, main_data), s))" using main_input by blast
  have info: "CalculateGeneratorInputInfo main_params = Inr main_info"
  proof -
    have "case CalculateGeneratorInputInfo main_params of Inr gii \<Rightarrow> True | Inl e \<Rightarrow> False" by code_simp
    then show ?thesis by (auto simp: main_info_def split: sum.splits)
  qed
  have parts: "split_format ''make'' = (''make'', None)" "set_of (su_formats main_setup) = [''make'']"
    "su_variables main_setup = [(''target_arch'', TextValue ''x'')]"
    "list_value (option_value (su_options main_setup) ''configs'') = []"
    by code_simp+
  have "import_generator example_process ''make'' = Inr make_module"
    by (simp add: import_generator_def example_process_def suffix_def)
  then have "\<exists>out w'. run_format example_process main_setup ''make'' new_world = Some (Inr (Completed out, w'))"
    using info files load unfolding main_variables_def main_params_def
    by (simp add: run_format_def parts Let_def abind_def of_res_def run_bind_def fresh_load_def make_module_def
        build_calls_def ret_def)
  then obtain out w' where out: "run_format example_process main_setup ''make'' new_world = Some (Inr (Completed out, w'))"
    by blast
  then show ?thesis
    by (simp add: gyp_main_def main_setup_of parts(2) abind_def of_res_def run_bind_def ret_def)
qed


end
