(* ===== verification/Gyp_Expand_Trees.thy ===== *)
theory Gyp_Expand_Trees
  imports Gyp_Expand
begin

text \<open>
  Trees all of whose strings satisfy a predicate, whose dictionaries hold each key once and whose keys
  do not ask for a prepending merge: merging (within one build file) and filtering keep them.
\<close>

fun tree_ok :: "(string \<Rightarrow> bool) \<Rightarrow> pyval \<Rightarrow> bool" where
  "tree_ok T (PStr s) = T s"
| "tree_ok T (PInt i) = True"
| "tree_ok T (PList l) = (\<forall>v \<in> set l. tree_ok T v)"
| "tree_ok T (PDict d) =
     (distinct (dkeys d) \<and> (\<forall>kv \<in> set d. CHR ''+'' \<notin> set (fst kv) \<and> tree_ok T (snd kv)))"
| "tree_ok T PNone = True"

abbreviation dict_ok :: "(string \<Rightarrow> bool) \<Rightarrow> pydict \<Rightarrow> bool" where
  "dict_ok T d \<equiv> tree_ok T (PDict d)"

lemma dict_ok_dset: "dict_ok T d \<Longrightarrow> tree_ok T v \<Longrightarrow> CHR ''+'' \<notin> set k \<Longrightarrow> dict_ok T (dset k v d)"
  using set_dset[of k v d] wf_dict_dset[of d k v] by (auto simp: wf_dict_def)

lemma dict_ok_ddel: "dict_ok T d \<Longrightarrow> dict_ok T (ddel k d)"
  using set_ddel[of k d] wf_dict_ddel[of d k] by (auto simp: wf_dict_def)

lemma dict_ok_dget: "dict_ok T d \<Longrightarrow> dget d k = Some v \<Longrightarrow> tree_ok T v \<and> CHR ''+'' \<notin> set k"
  by (auto dest!: map_of_SomeD)

section \<open>Merging\<close>

lemma policy_without_plus:
  assumes "CHR ''+'' \<notin> set k" "k \<noteq> []"
  shows "CHR ''+'' \<notin> set (list_base (merge_policy_of k))" "appends (merge_policy_of k)"
proof -
  have "List.last k \<noteq> CHR ''+''" using assms last_in_set[of k] by metis
  moreover have "set (butlast k) \<subseteq> set k" by (auto dest: in_set_butlastD)
  ultimately show "CHR ''+'' \<notin> set (list_base (merge_policy_of k))" "appends (merge_policy_of k)"
    using assms(1) by (auto simp: merge_policy_of_def Let_def)
qed

lemma MakePathRelative_same [simp]: "MakePathRelative rp f f v = Inr v"
  by (simp add: MakePathRelative_def)

lemma MergeLists_tree_ok:
  assumes "MergeLists rp g to fro f f ip app = Inr t" "\<And>x. x \<in> set to \<Longrightarrow> tree_ok T x"
    and c: "\<And>x y. x \<in> set fro \<Longrightarrow> copy_item rp g f f ip x = Inr y \<Longrightarrow> tree_ok T y"
  shows "\<forall>x \<in> set t. tree_ok T x"
proof -
  from assms(1) obtain st where st: "t = fst st"
    "rfold (\<lambda>item st. rbind (copy_item rp g f f ip item)
       (\<lambda>ti. Inr (place_item app (is_singleton item) (is_scalar ti) ti st))) fro (to, filter is_scalar to, 0) = Inr st"
    by (auto simp: MergeLists_def MergeLists_loop_rfold)
  have "\<forall>x \<in> set (fst st). tree_ok T x"
  proof (rule rfold_invariant[OF st(2)])
    fix x u v
    assume x: "x \<in> set fro" and u: "\<forall>x \<in> set (fst u). tree_ok T x"
      and "rbind (copy_item rp g f f ip x) (\<lambda>ti. Inr (place_item app (is_singleton x) (is_scalar ti) ti u)) = Inr v"
    then obtain y where "copy_item rp g f f ip x = Inr y" "v = place_item app (is_singleton x) (is_scalar y) y u"
      by auto
    with c[OF x] u set_place_item[of app "is_singleton x" "is_scalar y" y u] show "\<forall>x \<in> set (fst v). tree_ok T x"
      by blast
  qed (use assms(2) in simp)
  with st show ?thesis by simp
qed

lemma dict_ok_policy_base:
  "dict_ok T to \<Longrightarrow> CHR ''+'' \<notin> set k \<Longrightarrow> k \<noteq> [] \<Longrightarrow> dict_ok T (policy_base k to)"
  unfolding policy_base_def using dict_ok_dset[of T to "PList []"] policy_without_plus(1) by auto

lemma tree_ok_list_at: "dict_ok T to \<Longrightarrow> list_at to k = Some l \<Longrightarrow> tree_ok T (PList l)"
  using dict_ok_dget[of T to k] by (force simp: list_at_def split: option.splits pyval.splits)

lemma tree_ok_dict_at: "dict_ok T to \<Longrightarrow> dict_at to k = Some l \<Longrightarrow> dict_ok T l"
  using dict_ok_dget[of T to k] by (force simp: dict_at_def split: option.splits pyval.splits)

lemma merge_entry_tree_ok:
  assumes e: "merge_entry rp g f f fro (k, v) to = Inr t" and to: "dict_ok T to"
    and k: "CHR ''+'' \<notin> set k" and v: "tree_ok T v"
    and d: "\<And>d to t. v = PDict d \<Longrightarrow> dict_ok T to \<Longrightarrow> MergeDicts rp g to d f f = Inr t \<Longrightarrow> dict_ok T t"
    and l: "\<And>l to t ip app. v = PList l \<Longrightarrow> tree_ok T (PList to) \<Longrightarrow> MergeLists rp g to l f f ip app = Inr t
      \<Longrightarrow> tree_ok T (PList t)"
  shows "dict_ok T t"
proof -
  have scalar: ?thesis if sc: "is_scalar v"
    using e to v k by (auto simp: merge_entry_scalar[OF sc] intro: dict_ok_dset split: if_splits simp del: tree_ok.simps)
  show ?thesis
  proof (cases v)
    case (PDict m)
    from e PDict obtain t0 t1 where
      "dict_at to k = Some t0" "MergeDicts rp g t0 m f f = Inr t1" "t = dset k (PDict t1) to"
      by (auto simp: merge_entry_dict)
    then show ?thesis using d[OF PDict] to k tree_ok_dict_at dict_ok_dset by blast
  next
    case (PList m)
    let ?p = "merge_policy_of k" and ?b = "policy_base k to"
    from e PList have ne: "k \<noteq> []" by (auto simp: merge_entry_list)
    note plus = policy_without_plus(1)[OF k ne]
    from e PList consider "t = ?b"
      | t0 t1 where "list_at ?b (list_base ?p) = Some t0"
          "MergeLists rp g t0 m f f (IsPathSection g (list_base ?p)) (appends ?p) = Inr t1"
          "t = dset (list_base ?p) (PList t1) ?b"
      by (auto simp: merge_entry_list split: if_splits)
    then show ?thesis
      using l[OF PList] dict_ok_policy_base[OF to k ne] plus tree_ok_list_at dict_ok_dset by cases blast+
  next
    case PNone
    with e show ?thesis by (simp add: merge_entry_None)
  qed (use scalar in simp_all)
qed

lemma copy_tree_ok:
  assumes y: "copy_item rp g f f ip x = Inr y" and x: "tree_ok T x"
    and d: "\<And>d t. x = PDict d \<Longrightarrow> MergeDicts rp g [] d f f = Inr t \<Longrightarrow> dict_ok T t"
    and l: "\<And>l t. x = PList l \<Longrightarrow> MergeLists rp g [] l f f False True = Inr t \<Longrightarrow> tree_ok T (PList t)"
  shows "tree_ok T y"
proof (cases x)
  case (PDict m)
  with y d show ?thesis by (auto simp: copy_item_iff simp del: tree_ok.simps)
next
  case (PList m)
  with y l show ?thesis by (auto simp: copy_item_iff simp del: tree_ok.simps)
qed (use y x in \<open>auto simp: copy_item_iff split: if_splits\<close>)

lemma merge_tree_ok:
  "tree_ok T v \<longrightarrow>
     (\<forall>d to t. v = PDict d \<longrightarrow> dict_ok T to \<longrightarrow> MergeDicts rp g to d f f = Inr t \<longrightarrow> dict_ok T t)
   \<and> (\<forall>l to t ip app. v = PList l \<longrightarrow> tree_ok T (PList to)
        \<longrightarrow> MergeLists rp g to l f f ip app = Inr t \<longrightarrow> tree_ok T (PList t))"
proof (induction v)
  case (PList l)
  have copy: "tree_ok T y" if x: "x \<in> set l" "tree_ok T x" and y: "copy_item rp g f f ip x = Inr y" for x y ip
  proof (rule copy_tree_ok[OF y x(2)])
    note ih = mp[OF PList.IH[OF x(1)] x(2)]
    show "dict_ok T t" if "x = PDict d" "MergeDicts rp g [] d f f = Inr t" for d t
      by (rule ih[THEN conjunct1, rule_format, OF that(1) _ that(2)]) simp
    show "tree_ok T (PList t)" if "x = PList l" "MergeLists rp g [] l f f False True = Inr t" for l t
      by (rule ih[THEN conjunct2, rule_format, OF that(1) _ that(2)]) simp
  qed
  show ?case
  proof (intro impI conjI allI)
    fix m to t ip app
    assume ok: "tree_ok T (PList l)" and m: "PList l = PList m" "tree_ok T (PList to)"
      "MergeLists rp g to m f f ip app = Inr t"
    have "\<forall>x \<in> set t. tree_ok T x"
    proof (rule MergeLists_tree_ok[OF m(3)])
      show "tree_ok T x" if "x \<in> set to" for x using m(2) that by simp
      show "tree_ok T y" if "x \<in> set m" "copy_item rp g f f ip x = Inr y" for x y
        by (rule copy[OF _ _ that(2)]) (use m(1) ok that(1) in auto)
    qed
    then show "tree_ok T (PList t)" by simp
  qed simp
next
  case (PDict d)
  show ?case
  proof (intro impI conjI allI)
    fix e to t
    assume ok: "dict_ok T d" and e: "PDict d = PDict e" "dict_ok T to" "MergeDicts rp g to e f f = Inr t"
    have step: "dict_ok T t" if kv: "kv \<in> set d" and to: "dict_ok T to" and m: "merge_entry rp g f f d kv to = Inr t"
      for kv to t
    proof -
      obtain k v where p: "kv = (k, v)" by fastforce
      have "v \<in> Basic_BNFs.snds kv" by (simp add: p)
      note ih = PDict.IH[OF kv this]
      have kv_ok: "CHR ''+'' \<notin> set k" "tree_ok T v" using ok kv p by auto
      show ?thesis
        by (rule merge_entry_tree_ok[OF m[unfolded p] to kv_ok]) (use ih kv_ok in blast)+
    qed
    from e(3) show "dict_ok T t" unfolding MergeDicts_rfold
      by (rule rfold_invariant[where P = "dict_ok T"]) (use e(1,2) step in blast)+
  qed simp
qed simp_all

lemma MergeDicts_dict_ok:
  "MergeDicts rp g to d f f = Inr t \<Longrightarrow> dict_ok T to \<Longrightarrow> dict_ok T d \<Longrightarrow> dict_ok T t"
  using merge_tree_ok[of T "PDict d" rp g f] by blast

lemma MergeLists_list_ok:
  "MergeLists rp g to l f f ip app = Inr t \<Longrightarrow> tree_ok T (PList to) \<Longrightarrow> tree_ok T (PList l) \<Longrightarrow> tree_ok T (PList t)"
  using merge_tree_ok[of T "PList l" rp g f] by blast

lemma copy_item_tree_ok:
  assumes "copy_item rp g f f ip x = Inr y" "tree_ok T x"
  shows "tree_ok T y"
proof (rule copy_tree_ok[OF assms])
  show "dict_ok T t" if "x = PDict d" "MergeDicts rp g [] d f f = Inr t" for d t
    by (rule MergeDicts_dict_ok[OF that(2)]) (use assms(2) that(1) in simp_all)
  show "tree_ok T (PList t)" if "x = PList l" "MergeLists rp g [] l f f False True = Inr t" for l t
    by (rule MergeLists_list_ok[OF that(2)]) (use assms(2) that(1) in simp_all)
qed

section \<open>List filters\<close>

lemma filter_list_tree_ok:
  assumes "filter_list compile name lk d = Inr d'" "dict_ok T d"
  shows "dict_ok T d'"
proof -
  from assms(1) obtain l acts where f: "dget d lk = Some (PList l)"
    "d' = (let d3 = dset lk (PList (kept_items acts l)) (ddel (lk @ ''/'') (ddel (lk @ ''!'') d))
      in if excluded_items acts l = [] then d3
         else dset (lk @ ''_excluded'') (PList (excluded_items acts l)) d3)"
    by (rule filter_listE)
  have lk: "\<forall>v \<in> set l. tree_ok T v" "CHR ''+'' \<notin> set lk" using dict_ok_dget[OF assms(2) f(1)] by simp_all
  have "set (kept_items acts l) \<subseteq> set l" "set (excluded_items acts l) \<subseteq> set l"
    by (auto simp: kept_items_def excluded_items_def dest: set_zip_leftD)
  with lk have "tree_ok T (PList (kept_items acts l))" "tree_ok T (PList (excluded_items acts l))" by auto
  moreover have "CHR ''+'' \<notin> set (lk @ ''_excluded'')" using lk(2) by simp
  ultimately show ?thesis unfolding f(2) Let_def using assms(2) lk(2)
    by (auto intro!: dict_ok_dset dict_ok_ddel simp del: tree_ok.simps)
qed

lemma filter_lists_tree_ok:
  assumes "filter_lists compile name d = Inr d'" "dict_ok T d"
  shows "dict_ok T d'"
proof -
  from assms(1) obtain lsts dels where l: "rfold (filter_list compile name) lsts (fold ddel dels d) = Inr d'"
    by (auto simp: filter_lists_def)
  have "dict_ok T (fold ddel dels d)"
    using assms(2) by (induction dels arbitrary: d) (simp_all add: dict_ok_ddel del: tree_ok.simps)
  with l show ?thesis by (rule rfold_invariant) (rule filter_list_tree_ok)
qed

lemma filter_value_tree_ok:
  assumes "\<And>e r. v = PDict e \<Longrightarrow> ProcessListFiltersInDict compile name e = Inr r \<Longrightarrow> dict_ok T e \<Longrightarrow> dict_ok T r"
    and "\<And>l r. v = PList l \<Longrightarrow> ProcessListFiltersInList compile name l = Inr r \<Longrightarrow> tree_ok T (PList l)
      \<Longrightarrow> tree_ok T (PList r)"
    and "filter_value compile name v = Inr w" "tree_ok T v"
  shows "tree_ok T w"
  using assms by (cases v) (auto simp: filter_value_def simp del: tree_ok.simps(3,4))

lemma filter_tree_ok:
  "(\<forall>compile name d r. v = PDict d \<longrightarrow> ProcessListFiltersInDict compile name d = Inr r \<longrightarrow> dict_ok T d \<longrightarrow> dict_ok T r)
   \<and> (\<forall>compile name l r. v = PList l \<longrightarrow> ProcessListFiltersInList compile name l = Inr r \<longrightarrow> tree_ok T (PList l)
        \<longrightarrow> tree_ok T (PList r))"
proof (induction "size v" arbitrary: v rule: less_induct)
  case less
  have step: "tree_ok T w" if "size u < size v" "filter_value compile name u = Inr w" "tree_ok T u" for u w compile name
    by (rule filter_value_tree_ok[OF _ _ that(2,3)]) (use less[OF that(1)] in blast)+
  show ?case
  proof (intro conjI allI impI)
    fix compile name d r
    assume v: "v = PDict d" and r: "ProcessListFiltersInDict compile name d = Inr r" and ok: "dict_ok T d"
    from r obtain d1 where d1: "filter_lists compile name d = Inr d1" "rmap (filter_entry compile) d1 = Inr r"
      by (auto simp: ProcessListFiltersInDict_eq)
    have ok1: "dict_ok T d1" by (rule filter_lists_tree_ok[OF d1(1) ok])
    have "CHR ''+'' \<notin> set (fst kv) \<and> tree_ok T (snd kv)" if "kv \<in> set r" for kv
    proof -
      from rmap_member[OF d1(2) that] obtain kv1 where kv1: "kv1 \<in> set d1" "filter_entry compile kv1 = Inr kv" by blast
      from kv1(2) have "fst kv = fst kv1" "filter_value compile (fst kv1) (snd kv1) = Inr (snd kv)"
        by (auto simp: filter_entry_def)
      with step[OF filter_lists_below[OF d1(1) kv1(1), folded v]] ok1 kv1(1) show ?thesis by auto
    qed
    moreover have "dkeys r = dkeys d1" by (rule rmap_filter_entry_keys[OF d1(2)])
    ultimately show "dict_ok T r" using ok1 by simp
  next
    fix compile name l r
    assume v: "v = PList l" and r: "ProcessListFiltersInList compile name l = Inr r" and ok: "tree_ok T (PList l)"
    have "tree_ok T w" if w: "w \<in> set r" for w
    proof -
      from rmap_member[OF r[unfolded ProcessListFiltersInList_eq] w] obtain u where
        u: "u \<in> set l" "filter_value compile name u = Inr w" by blast
      from u(1) have "size u < size v" unfolding v by (induction l) auto
      from step[OF this u(2)] ok u(1) show ?thesis by simp
    qed
    then show "tree_ok T (PList r)" by simp
  qed
qed

lemma ProcessListFiltersInDict_tree_ok:
  "ProcessListFiltersInDict compile name d = Inr r \<Longrightarrow> dict_ok T d \<Longrightarrow> dict_ok T r"
  using filter_tree_ok[of "PDict d" T] by blast

end
