(* ===== verification/Gyp_Expand_Refs.thy ===== *)
theory Gyp_Expand_Refs
  imports Gyp_Expand_Commands Gyp_Expand_Trees
begin

text \<open>
  What is left after expansion: a dictionary that was processed holds no reference of the phase and no
  text that should be an integer, at any depth.  Objects are shared and change while they are walked,
  so the proof speaks of settled objects, which stay settled whatever is processed later.
\<close>

section \<open>Well-formed stores\<close>

definition is_lobj :: "store \<Rightarrow> nat \<Rightarrow> bool" where
  "is_lobj h a \<longleftrightarrow> a < length h \<and> (\<exists>l. h ! a = LObj l)"

definition is_dobj :: "store \<Rightarrow> nat \<Rightarrow> bool" where
  "is_dobj h a \<longleftrightarrow> a < length h \<and> (\<exists>d. h ! a = DObj d)"

fun valid :: "store \<Rightarrow> hval \<Rightarrow> bool" where
  "valid h (HList a) = is_lobj h a"
| "valid h (HDict a) = is_dobj h a"
| "valid h _ = True"

definition children :: "store \<Rightarrow> nat \<Rightarrow> hval set" where
  "children h a = set (list_obj h a) \<union> snd ` set (dict_obj h a)"

text \<open>Addresses lead to objects of their kind, dictionaries hold each key once, and no key asks for a
  prepending merge.\<close>

definition object_ok :: "store \<Rightarrow> nat \<Rightarrow> bool" where
  "object_ok h a \<longleftrightarrow> (\<forall>v \<in> children h a. valid h v) \<and> distinct (dkeys (dict_obj h a))
     \<and> (\<forall>k \<in> set (dkeys (dict_obj h a)). CHR ''+'' \<notin> set k)"

definition store_ok :: "store \<Rightarrow> bool" where
  "store_ok h \<longleftrightarrow> (\<forall>a. object_ok h a)"

lemma store_ok_children: "store_ok h \<Longrightarrow> v \<in> children h a \<Longrightarrow> valid h v"
  by (simp add: store_ok_def object_ok_def)

lemma store_ok_keys:
  assumes "store_ok h"
  shows "distinct (dkeys (dict_obj h a))" "k \<in> set (dkeys (dict_obj h a)) \<Longrightarrow> CHR ''+'' \<notin> set k"
  using assms by (auto simp: store_ok_def object_ok_def)

lemma children_dget: "dget (dict_obj h a) k = Some v \<Longrightarrow> v \<in> children h a"
  by (force simp: children_def dest: map_of_SomeD)

lemma children_list: "v \<in> set (list_obj h a) \<Longrightarrow> v \<in> children h a"
  by (simp add: children_def)

section \<open>Settled values\<close>

definition settled_text :: "phase \<Rightarrow> string \<Rightarrow> bool" where
  "settled_text phase s \<longleftrightarrow> \<not> IsStrCanonicalInt (PStr s) \<and> variable_re_finditer phase s = []"

text \<open>All strings that can be reached are settled (the store may hold cycles).\<close>

coinductive settled :: "phase \<Rightarrow> store \<Rightarrow> hval \<Rightarrow> bool" for phase h where
  HStr: "settled_text phase s \<Longrightarrow> settled phase h (HStr s)"
| HInt: "settled phase h (HInt i)"
| HNone: "settled phase h HNone"
| HList: "is_lobj h a \<Longrightarrow> (\<forall>v \<in> set (list_obj h a). settled phase h v) \<Longrightarrow> settled phase h (HList a)"
| HDict: "is_dobj h a \<Longrightarrow> (\<forall>kv \<in> set (dict_obj h a). settled phase h (snd kv)) \<Longrightarrow> settled phase h (HDict a)"

inductive_simps settled_simps [simp]:
  "settled phase h (HStr s)"
  "settled phase h (HInt i)"
  "settled phase h HNone"

inductive_cases settled_HListE: "settled phase h (HList a)"
inductive_cases settled_HDictE: "settled phase h (HDict a)"

lemma settled_valid: "settled phase h v \<Longrightarrow> valid h v"
  by (cases v) (auto elim: settled_HListE settled_HDictE)

lemma settled_item: "settled phase h (HList a) \<Longrightarrow> v \<in> set (list_obj h a) \<Longrightarrow> settled phase h v"
  by (auto elim: settled_HListE)

lemma settled_entry: "settled phase h (HDict a) \<Longrightarrow> kv \<in> set (dict_obj h a) \<Longrightarrow> settled phase h (snd kv)"
  by (erule settled_HDictE) blast

text \<open>A store whose settled objects got no other than settled children.\<close>

lemma settled_grow:
  assumes kinds: "\<And>a. is_lobj h a \<Longrightarrow> is_lobj h' a" "\<And>a. is_dobj h a \<Longrightarrow> is_dobj h' a"
    and list: "\<And>a v. settled phase h (HList a) \<Longrightarrow> v \<in> set (list_obj h' a) \<Longrightarrow> settled phase h v"
    and dict: "\<And>a kv. settled phase h (HDict a) \<Longrightarrow> kv \<in> set (dict_obj h' a) \<Longrightarrow> settled phase h (snd kv)"
    and "settled phase h v"
  shows "settled phase h' v"
  using assms(5)
proof (coinduction arbitrary: v)
  case settled
  show ?case
  proof (cases v)
    case (HList a)
    with settled have "is_lobj h' a" using settled_valid kinds(1) by fastforce
    with settled HList list show ?thesis by auto
  next
    case (HDict a)
    with settled have "is_dobj h' a" using settled_valid kinds(2) by fastforce
    with settled HDict dict show ?thesis by auto
  qed (use settled in auto)
qed

section \<open>How the store grows\<close>

text \<open>What stays true when more is processed: settled values stay settled, a dictionary gets no entries
  but settled ones, and a list only gets settled items at its end unless it became settled as a whole.\<close>

definition grows :: "phase \<Rightarrow> nat set \<Rightarrow> store \<Rightarrow> store \<Rightarrow> bool" where
  "grows phase X h h' \<longleftrightarrow>
     (\<forall>v. valid h v \<longrightarrow> valid h' v) \<and>
     (\<forall>v. settled phase h v \<longrightarrow> settled phase h' v) \<and>
     (\<forall>a k v. is_dobj h a \<longrightarrow> dget (dict_obj h' a) k = Some v \<longrightarrow>
        dget (dict_obj h a) k = Some v \<or> settled phase h' v) \<and>
     (\<forall>a. is_lobj h a \<longrightarrow> a \<notin> X \<longrightarrow> settled phase h' (HList a) \<or>
        (\<exists>ys. list_obj h' a = list_obj h a @ ys \<and> (\<forall>y \<in> set ys. settled phase h' y)))"

lemma grows_refl: "grows phase X h h"
  by (simp add: grows_def)

lemma grows_valid: "grows phase X h h' \<Longrightarrow> valid h v \<Longrightarrow> valid h' v"
  by (simp add: grows_def)

lemma grows_kind:
  "grows phase X h h' \<Longrightarrow> is_lobj h a \<Longrightarrow> is_lobj h' a"
  "grows phase X h h' \<Longrightarrow> is_dobj h a \<Longrightarrow> is_dobj h' a"
  using grows_valid[of phase X h h' "HList a"] grows_valid[of phase X h h' "HDict a"] by simp_all

lemma grows_settled: "grows phase X h h' \<Longrightarrow> settled phase h v \<Longrightarrow> settled phase h' v"
  by (simp add: grows_def)

lemma grows_entry:
  "grows phase X h h' \<Longrightarrow> is_dobj h a \<Longrightarrow> dget (dict_obj h' a) k = Some v \<Longrightarrow>
    dget (dict_obj h a) k = Some v \<or> settled phase h' v"
  by (simp add: grows_def)

lemma grows_list:
  "grows phase X h h' \<Longrightarrow> is_lobj h a \<Longrightarrow> a \<notin> X \<Longrightarrow>
    settled phase h' (HList a) \<or> (\<exists>ys. list_obj h' a = list_obj h a @ ys \<and> (\<forall>y \<in> set ys. settled phase h' y))"
  by (simp add: grows_def)

lemma grows_trans:
  assumes 1: "grows phase X h h1" and 2: "grows phase X h1 h2"
  shows "grows phase X h h2"
  unfolding grows_def
proof (intro conjI allI impI)
  show "valid h2 v" if "valid h v" for v by (rule grows_valid[OF 2 grows_valid[OF 1 that]])
  show "settled phase h2 v" if "settled phase h v" for v by (rule grows_settled[OF 2 grows_settled[OF 1 that]])
  show "dget (dict_obj h a) k = Some v \<or> settled phase h2 v"
    if "is_dobj h a" "dget (dict_obj h2 a) k = Some v" for a k v
    using grows_entry[OF 2 grows_kind(2)[OF 1 that(1)] that(2)] grows_entry[OF 1 that(1)] grows_settled[OF 2] by blast
  show "settled phase h2 (HList a) \<or> (\<exists>ys. list_obj h2 a = list_obj h a @ ys \<and> (\<forall>y \<in> set ys. settled phase h2 y))"
    if "is_lobj h a" "a \<notin> X" for a
  proof -
    from grows_list[OF 1 that] grows_list[OF 2 grows_kind(1)[OF 1 that(1)] that(2)] consider
      "settled phase h2 (HList a)" | "settled phase h1 (HList a)"
      | ys zs where "list_obj h1 a = list_obj h a @ ys" "\<forall>y \<in> set ys. settled phase h1 y"
          "list_obj h2 a = list_obj h1 a @ zs" "\<forall>y \<in> set zs. settled phase h2 y" by blast
    then show ?thesis
    proof cases
      case 3
      then show ?thesis using grows_settled[OF 2] by (intro disjI2 exI[of _ "ys @ zs"]) auto
    qed (use grows_settled[OF 2] in blast)+
  qed
qed

text \<open>A list that is settled in the end needed no care meanwhile.\<close>

lemma grows_except:
  assumes "grows phase {a} h h'" "settled phase h' (HList a)"
  shows "grows phase {} h h'"
  using assms unfolding grows_def by auto

text \<open>A step that changes old objects only by adding settled children.\<close>

lemma grows_step:
  assumes ok: "store_ok h"
    and kinds: "\<And>a. is_lobj h a \<Longrightarrow> is_lobj h' a" "\<And>a. is_dobj h a \<Longrightarrow> is_dobj h' a"
    and dict: "\<And>a kv. is_dobj h a \<Longrightarrow> kv \<in> set (dict_obj h' a) \<Longrightarrow>
      kv \<in> set (dict_obj h a) \<or> settled phase h (snd kv)"
    and list: "\<And>a v. is_lobj h a \<Longrightarrow> v \<in> set (list_obj h' a) \<Longrightarrow> v \<in> set (list_obj h a) \<or> settled phase h v"
    and app: "\<And>a. is_lobj h a \<Longrightarrow> a \<notin> X \<Longrightarrow>
      \<exists>ys. list_obj h' a = list_obj h a @ ys \<and> (\<forall>y \<in> set ys. settled phase h y)"
  shows "grows phase X h h'"
proof -
  have mono: "settled phase h' v" if "settled phase h v" for v
  proof (rule settled_grow[OF kinds _ _ that])
    show "settled phase h v" if "settled phase h (HList a)" "v \<in> set (list_obj h' a)" for a v
    proof -
      have "is_lobj h a" using settled_valid[OF that(1)] by simp
      from list[OF this that(2)] settled_item[OF that(1)] show ?thesis by blast
    qed
    show "settled phase h (snd kv)" if "settled phase h (HDict a)" "kv \<in> set (dict_obj h' a)" for a kv
    proof -
      have "is_dobj h a" using settled_valid[OF that(1)] by simp
      from dict[OF this that(2)] settled_entry[OF that(1)] show ?thesis by blast
    qed
  qed
  show ?thesis
    unfolding grows_def
  proof (intro conjI allI impI)
    show "valid h' v" if "valid h v" for v using that kinds by (cases v) auto
    show "dget (dict_obj h a) k = Some v \<or> settled phase h' v"
      if "is_dobj h a" "dget (dict_obj h' a) k = Some v" for a k v
      using dict[OF that(1) map_of_SomeD[OF that(2)]] mono store_ok_keys(1)[OF ok] by auto
    show "settled phase h' (HList a) \<or> (\<exists>ys. list_obj h' a = list_obj h a @ ys \<and> (\<forall>y \<in> set ys. settled phase h' y))"
      if "is_lobj h a" "a \<notin> X" for a
      using app[OF that] mono by blast
  qed (rule mono)
qed

section \<open>Steps on the store\<close>

lemma obj_append [simp]:
  "a < length h \<Longrightarrow> list_obj (h @ obs) a = list_obj h a"
  "a < length h \<Longrightarrow> dict_obj (h @ obs) a = dict_obj h a"
  "a < length h \<Longrightarrow> children (h @ obs) a = children h a"
  by (simp_all add: list_obj_def dict_obj_def children_def nth_append)

lemma obj_new [simp]:
  "list_obj (h @ [LObj l]) (length h) = l"
  "dict_obj (h @ [LObj l]) (length h) = []"
  "list_obj (h @ [DObj d]) (length h) = []"
  "dict_obj (h @ [DObj d]) (length h) = d"
  by (simp_all add: list_obj_def dict_obj_def)

lemma obj_update [simp]:
  "list_obj (h[a := LObj l]) b = (if b = a \<and> a < length h then l else list_obj h b)"
  "dict_obj (h[a := LObj l]) b = (if b = a \<and> a < length h then [] else dict_obj h b)"
  "list_obj (h[a := DObj d]) b = (if b = a \<and> a < length h then [] else list_obj h b)"
  "dict_obj (h[a := DObj d]) b = (if b = a \<and> a < length h then d else dict_obj h b)"
  by (auto simp: list_obj_def dict_obj_def nth_list_update)

lemma obj_outside: "length h \<le> a \<Longrightarrow> list_obj h a = []" "length h \<le> a \<Longrightarrow> dict_obj h a = []"
  by (simp_all add: list_obj_def dict_obj_def)

lemma lobj_below: "is_lobj h a \<Longrightarrow> a < length h"
  by (simp add: is_lobj_def)

lemma dobj_below: "is_dobj h a \<Longrightarrow> a < length h"
  by (simp add: is_dobj_def)

lemma kind_append:
  "is_lobj h a \<Longrightarrow> is_lobj (h @ obs) a" "is_dobj h a \<Longrightarrow> is_dobj (h @ obs) a"
  by (auto simp: is_lobj_def is_dobj_def nth_append)

lemma valid_append: "valid h v \<Longrightarrow> valid (h @ obs) v"
  by (cases v) (simp_all add: kind_append)

definition same_kind :: "store \<Rightarrow> nat \<Rightarrow> hobj \<Rightarrow> bool" where
  "same_kind h a ob = (case ob of LObj l \<Rightarrow> is_lobj h a | DObj d \<Rightarrow> is_dobj h a)"

lemma kind_update:
  "same_kind h a ob \<Longrightarrow> is_lobj (h[a := ob]) b = is_lobj h b"
  "same_kind h a ob \<Longrightarrow> is_dobj (h[a := ob]) b = is_dobj h b"
  by (auto simp: is_lobj_def is_dobj_def same_kind_def nth_list_update split: hobj.splits)

lemma valid_update: "same_kind h a ob \<Longrightarrow> valid (h[a := ob]) v = valid h v"
  by (cases v) (simp_all add: kind_update)

definition obj_ok :: "store \<Rightarrow> hobj \<Rightarrow> bool" where
  "obj_ok h ob = (case ob of
     LObj l \<Rightarrow> (\<forall>v \<in> set l. valid h v)
   | DObj d \<Rightarrow> (\<forall>v \<in> snd ` set d. valid h v) \<and> distinct (dkeys d) \<and> (\<forall>k \<in> set (dkeys d). CHR ''+'' \<notin> set k))"

lemma store_okI:
  assumes "\<And>a. a < length h \<Longrightarrow> object_ok h a"
  shows "store_ok h"
  unfolding store_ok_def
proof
  fix a
  have "object_ok h a" if "length h \<le> a" using that by (simp add: object_ok_def children_def obj_outside)
  with assms[of a] show "object_ok h a" by (cases "a < length h") simp_all
qed

lemma object_ok_same:
  assumes "store_ok h" "\<And>v. valid h v \<Longrightarrow> valid h' v" "list_obj h' a = list_obj h a" "dict_obj h' a = dict_obj h a"
  shows "object_ok h' a"
  using assms by (auto simp: store_ok_def object_ok_def children_def)

lemma grows_append: "store_ok h \<Longrightarrow> grows phase X h (h @ obs)"
  by (rule grows_step) (auto simp: kind_append lobj_below dobj_below)

lemma store_ok_append:
  assumes "store_ok h" "obj_ok h ob"
  shows "store_ok (h @ [ob])"
proof (rule store_okI)
  fix a assume "a < length (h @ [ob])"
  then consider "a < length h" | "a = length h" by fastforce
  then show "object_ok (h @ [ob]) a"
  proof cases
    case 1
    with assms(1) show ?thesis by (intro object_ok_same[OF assms(1) valid_append]) simp_all
  next
    case 2
    with assms(2) show ?thesis by (cases ob) (auto simp: object_ok_def obj_ok_def children_def valid_append)
  qed
qed

lemma store_ok_update:
  assumes "store_ok h" "obj_ok h ob" "same_kind h a ob"
  shows "store_ok (h[a := ob])"
proof (rule store_okI)
  fix b assume b: "b < length (h[a := ob])"
  note v = valid_update[OF assms(3)]
  show "object_ok (h[a := ob]) b"
  proof (cases "b = a")
    case True
    with b assms(2) v show ?thesis by (cases ob) (auto simp: object_ok_def obj_ok_def children_def)
  next
    case False
    then have "list_obj (h[a := ob]) b = list_obj h b" "dict_obj (h[a := ob]) b = dict_obj h b"
      by (cases ob; simp)+
    then show ?thesis by (intro object_ok_same[OF assms(1)]) (simp_all add: v)
  qed
qed

lemma dict_obj_ok:
  assumes "store_ok h"
  shows "obj_ok h (DObj (dict_obj h a))"
  using assms by (auto simp: store_ok_def object_ok_def obj_ok_def children_def)

lemma dict_update:
  assumes "store_ok h" "is_dobj h a" "obj_ok h (DObj d)"
    and "\<And>kv. kv \<in> set d \<Longrightarrow> kv \<in> set (dict_obj h a) \<or> settled phase h (snd kv)"
  shows "store_ok (h[a := DObj d])" "grows phase X h (h[a := DObj d])"
proof -
  have k: "same_kind h a (DObj d)" using assms(2) by (simp add: same_kind_def)
  show "store_ok (h[a := DObj d])" by (rule store_ok_update[OF assms(1,3) k])
  have "\<not> is_lobj h a" using assms(2) by (auto simp: is_lobj_def is_dobj_def)
  then have list: "list_obj (h[a := DObj d]) b = list_obj h b" if "is_lobj h b" for b using that by auto
  show "grows phase X h (h[a := DObj d])"
  proof (rule grows_step[OF assms(1)])
    show "kv \<in> set (dict_obj h b) \<or> settled phase h (snd kv)" if "kv \<in> set (dict_obj (h[a := DObj d]) b)" for b kv
      using that assms(4) by (simp split: if_splits)
  qed (simp_all add: list kind_update[OF k] del: obj_update)
qed

lemma dict_write:
  assumes "store_ok h" "is_dobj h a" "settled phase h x" "CHR ''+'' \<notin> set k"
  shows "store_ok (h[a := DObj (dset k x (dict_obj h a))])" "grows phase X h (h[a := DObj (dset k x (dict_obj h a))])"
proof -
  let ?d = "dict_obj h a"
  have "obj_ok h (DObj (dset k x ?d))"
    using dict_obj_ok[OF assms(1), of a] settled_valid[OF assms(3)] assms(4) set_dset[of k x ?d] wf_dict_dset[of ?d k x]
    by (auto simp: obj_ok_def wf_dict_def dkeys_dset)
  moreover have "kv \<in> set (dset k x ?d) \<Longrightarrow> kv \<in> set ?d \<or> settled phase h (snd kv)" for kv
    using set_dset[of k x ?d] assms(3) by auto
  ultimately show "store_ok (h[a := DObj (dset k x ?d)])" "grows phase X h (h[a := DObj (dset k x ?d)])"
    using dict_update[OF assms(1,2)] by blast+
qed

lemma dict_delete:
  assumes "store_ok h" "is_dobj h a"
  shows "store_ok (h[a := DObj (ddel k (dict_obj h a))])" "grows phase X h (h[a := DObj (ddel k (dict_obj h a))])"
proof -
  let ?d = "dict_obj h a"
  have "obj_ok h (DObj (ddel k ?d))"
    using dict_obj_ok[OF assms(1), of a] set_ddel[of k ?d] wf_dict_ddel[of ?d k]
    by (auto simp: obj_ok_def wf_dict_def)
  moreover have "kv \<in> set (ddel k ?d) \<Longrightarrow> kv \<in> set ?d \<or> settled phase h (snd kv)" for kv
    using set_ddel[of k ?d] by auto
  ultimately show "store_ok (h[a := DObj (ddel k ?d)])" "grows phase X h (h[a := DObj (ddel k ?d)])"
    using dict_update[OF assms] by blast+
qed

lemma list_write:
  assumes "store_ok h" "is_lobj h a" "\<And>v. v \<in> set l \<Longrightarrow> v \<in> set (list_obj h a) \<or> settled phase h v"
    and "a \<in> X \<or> (\<exists>ys. l = list_obj h a @ ys \<and> (\<forall>y \<in> set ys. settled phase h y))"
  shows "store_ok (h[a := LObj l])" "grows phase X h (h[a := LObj l])"
proof -
  have k: "same_kind h a (LObj l)" using assms(2) by (simp add: same_kind_def)
  have "valid h v" if "v \<in> set l" for v
    using assms(3)[OF that] settled_valid store_ok_children[OF assms(1) children_list] by blast
  then show "store_ok (h[a := LObj l])" by (intro store_ok_update[OF assms(1) _ k]) (simp add: obj_ok_def)
  have "\<not> is_dobj h a" using assms(2) by (auto simp: is_lobj_def is_dobj_def)
  then have dict: "dict_obj (h[a := LObj l]) b = dict_obj h b" if "is_dobj h b" for b using that by auto
  show "grows phase X h (h[a := LObj l])"
  proof (rule grows_step[OF assms(1)])
    show "v \<in> set (list_obj h b) \<or> settled phase h v" if "v \<in> set (list_obj (h[a := LObj l]) b)" for b v
      using that assms(3) by (simp split: if_splits)
    show "\<exists>ys. list_obj (h[a := LObj l]) b = list_obj h b @ ys \<and> (\<forall>y \<in> set ys. settled phase h y)"
      if "b \<notin> X" for b using that assms(4) by auto
  qed (simp_all add: dict kind_update[OF k] del: obj_update)
qed

section \<open>New objects\<close>

text \<open>\<open>extends h h'\<close>: objects were added at the end.\<close>

definition extends :: "store \<Rightarrow> store \<Rightarrow> bool" where
  "extends h h' \<longleftrightarrow> store_ok h \<and> (\<exists>obs. h' = h @ obs) \<and> store_ok h'"

lemma extends_refl: "store_ok h \<Longrightarrow> extends h h"
  by (simp add: extends_def)

lemma extends_grows: "extends h h' \<Longrightarrow> grows phase X h h'"
  by (auto simp: extends_def grows_append)

lemma extends_ok: "extends h h' \<Longrightarrow> store_ok h'"
  by (simp add: extends_def)

lemma extends_trans: "extends h h1 \<Longrightarrow> extends h1 h2 \<Longrightarrow> extends h h2"
  by (auto simp: extends_def)

lemma extends_obj:
  "extends h h' \<Longrightarrow> a < length h \<Longrightarrow> list_obj h' a = list_obj h a \<and> dict_obj h' a = dict_obj h a"
  by (auto simp: extends_def)

lemma new_values_spec:
  assumes f: "\<And>v h x h'. v \<in> set vs \<Longrightarrow> store_ok h \<Longrightarrow> f v h = (x, h') \<Longrightarrow>
      extends h h' \<and> valid h' x \<and> (set_ok \<longrightarrow> settled phase h' x)"
    and "store_ok h" "new_values f vs h = (xs, h')"
  shows "extends h h' \<and> length xs = length vs \<and> (\<forall>x \<in> set xs. valid h' x \<and> (set_ok \<longrightarrow> settled phase h' x))"
  using assms
proof (induction vs arbitrary: h xs)
  case Nil
  then show ?case by (auto simp: extends_refl)
next
  case (Cons v vs)
  from Cons.prems(3) obtain x h1 ys where
    1: "f v h = (x, h1)" "new_values f vs h1 = (ys, h')" "xs = x # ys" by (auto split: prod.splits)
  from Cons.prems(1)[OF _ Cons.prems(2) 1(1)] have x: "extends h h1" "valid h1 x" "set_ok \<longrightarrow> settled phase h1 x" by auto
  have "store_ok h1" by (rule extends_ok[OF x(1)])
  then have "extends h1 h' \<and> length ys = length vs
      \<and> (\<forall>x \<in> set ys. valid h' x \<and> (set_ok \<longrightarrow> settled phase h' x))"
    by (rule Cons.IH[OF _ _ 1(2), rotated]) (rule Cons.prems(1), simp_all)
  then have ys: "extends h1 h'" "length ys = length vs"
    "\<forall>x \<in> set ys. valid h' x \<and> (set_ok \<longrightarrow> settled phase h' x)" by auto
  have "valid h' x" "set_ok \<longrightarrow> settled phase h' x"
    using x(2,3) grows_valid[OF extends_grows[OF ys(1)]] grows_settled[OF extends_grows[OF ys(1)]] by blast+
  with ys x(1) 1(3) show ?case by (auto intro: extends_trans)
qed

lemma new_object:
  assumes "store_ok h" "obj_ok h ob"
  shows "extends h (h @ [ob])"
  using assms store_ok_append[OF assms] by (auto simp: extends_def)

lemma new_kind [simp]: "is_lobj (h @ [LObj l]) (length h)" "is_dobj (h @ [DObj d]) (length h)"
  by (simp_all add: is_lobj_def is_dobj_def)

definition ref_to :: "nat \<Rightarrow> hobj \<Rightarrow> hval" where
  "ref_to a ob = (case ob of LObj l \<Rightarrow> HList a | DObj d \<Rightarrow> HDict a)"

lemma settled_appended:
  assumes "store_ok h" "\<And>v. v \<in> (case ob of LObj l \<Rightarrow> set l | DObj d \<Rightarrow> snd ` set d) \<Longrightarrow> settled phase h v"
  shows "settled phase (h @ [ob]) (ref_to (length h) ob)"
proof (cases ob)
  case (LObj l)
  with assms(2) have "settled phase (h @ [ob]) v" if "v \<in> set l" for v
    using that grows_settled[OF grows_append[OF assms(1)]] by simp
  then show ?thesis by (auto simp: LObj ref_to_def intro: settled.HList)
next
  case (DObj d)
  with assms(2) have "settled phase (h @ [ob]) (snd kv)" if "kv \<in> set d" for kv
    using that grows_settled[OF grows_append[OF assms(1)]] by simp
  then show ?thesis by (auto simp: DObj ref_to_def intro: settled.HDict)
qed

lemma new_value_spec:
  assumes "tree_ok T v" "store_ok h" "new_value v h = (x, h')"
  shows "extends h h' \<and> valid h' x \<and> ((\<forall>s. T s \<longrightarrow> settled_text phase s) \<longrightarrow> settled phase h' x)"
  using assms
proof (induction v arbitrary: h x h')
  case (PList l)
  from PList.prems(3) obtain vs h1 where
    n: "new_values new_value l h = (vs, h1)" "x = HList (length h1)" "h' = h1 @ [LObj vs]" by (auto split: prod.splits)
  have vs: "extends h h1 \<and> length vs = length l
      \<and> (\<forall>x \<in> set vs. valid h1 x \<and> ((\<forall>s. T s \<longrightarrow> settled_text phase s) \<longrightarrow> settled phase h1 x))"
    by (rule new_values_spec[OF _ PList.prems(2) n(1)]) (use PList.IH PList.prems(1) in auto)
  then have "extends h1 h'" unfolding n(3) by (intro new_object) (auto simp: extends_def obj_ok_def)
  moreover have "(\<forall>s. T s \<longrightarrow> settled_text phase s) \<longrightarrow> settled phase h' x"
    unfolding n(2,3) using settled_appended[of h1 "LObj vs" phase] vs extends_ok by (auto simp: ref_to_def)
  ultimately show ?case using vs extends_trans[of h h1 h'] by (simp add: n(2,3))
next
  case (PDict d)
  from PDict.prems(3) obtain vs h1 where
    n: "new_values (\<lambda>kv. new_value (snd kv)) d h = (vs, h1)" "x = HDict (length h1)" "h' = h1 @ [DObj (zip (dkeys d) vs)]"
    by (auto split: prod.splits)
  have vs: "extends h h1 \<and> length vs = length d
      \<and> (\<forall>x \<in> set vs. valid h1 x \<and> ((\<forall>s. T s \<longrightarrow> settled_text phase s) \<longrightarrow> settled phase h1 x))"
  proof (rule new_values_spec[OF _ PDict.prems(2) n(1)])
    fix kv g y g' assume kv: "kv \<in> set d" "store_ok g" "new_value (snd kv) g = (y, g')"
    have "snd kv \<in> Basic_BNFs.snds kv" by (cases kv) simp
    from PDict.IH[OF kv(1) this _ kv(2,3)] PDict.prems(1) kv(1)
    show "extends g g' \<and> valid g' y \<and> ((\<forall>s. T s \<longrightarrow> settled_text phase s) \<longrightarrow> settled phase g' y)" by simp
  qed
  have keys: "dkeys (zip (dkeys d) vs) = dkeys d" "snd ` set (zip (dkeys d) vs) = set vs"
    using vs by (simp_all flip: set_map)
  have "obj_ok h1 (DObj (zip (dkeys d) vs))"
    using vs PDict.prems(1) by (simp add: obj_ok_def keys)
  with vs have "extends h1 h'" unfolding n(3) by (intro new_object) (auto simp: extends_def)
  moreover have "(\<forall>s. T s \<longrightarrow> settled_text phase s) \<longrightarrow> settled phase h' x"
    unfolding n(2,3) using settled_appended[of h1 "DObj (zip (dkeys d) vs)" phase] vs extends_ok by (auto simp: ref_to_def keys)
  ultimately show ?case using vs extends_trans[of h h1 h'] by (simp add: n(2,3))
qed (auto simp: extends_refl)

section \<open>Reading\<close>

lemma osequence_map [simp]: "osequence (map Some ys) = Some ys"
  by (induction ys) simp_all

lemma osequence_Some: "osequence xs = Some ys \<longleftrightarrow> xs = map Some ys"
proof
  show "osequence xs = Some ys \<Longrightarrow> xs = map Some ys"
    by (induction xs arbitrary: ys) (auto split: option.splits)
qed simp

lemma read_value_ok:
  assumes ok: "store_ok h"
    and strs: "\<And>s. P (HStr s) \<Longrightarrow> T s"
    and items: "\<And>a v. P (HList a) \<Longrightarrow> v \<in> set (list_obj h a) \<Longrightarrow> P v"
    and entries: "\<And>a kv. P (HDict a) \<Longrightarrow> kv \<in> set (dict_obj h a) \<Longrightarrow> P (snd kv)"
  shows "P v \<Longrightarrow> read_value n h v = Some t \<Longrightarrow> tree_ok T t"
proof (induction n arbitrary: v t)
  case 0
  then show ?case using strs by (cases v) auto
next
  case (Suc n)
  show ?case
  proof (cases v)
    case (HList a)
    from Suc.prems(2) HList obtain l ts where
      l: "a < length h" "h ! a = LObj l" "map (read_value n h) l = map Some ts" "t = PList ts"
      by (auto simp: osequence_Some split: if_splits hobj.splits)
    have "tree_ok T u" if "u \<in> set ts" for u
    proof -
      from that have "Some u \<in> set (map (read_value n h) l)" unfolding l(3) by simp
      then obtain x where x: "x \<in> set l" "read_value n h x = Some u" by force
      from l(1,2) x(1) have "x \<in> set (list_obj h a)" by (simp add: list_obj_def)
      with items Suc.prems(1) HList have "P x" by blast
      from Suc.IH[OF this x(2)] show ?thesis .
    qed
    then show ?thesis by (simp add: l(4))
  next
    case (HDict a)
    from Suc.prems(2) HDict obtain d ts where
      d: "a < length h" "h ! a = DObj d" "map (\<lambda>kv. read_value n h (snd kv)) d = map Some ts"
        "t = PDict (zip (dkeys d) ts)"
      by (auto simp: osequence_Some split: if_splits hobj.splits)
    have obj: "dict_obj h a = d" using d(1,2) by (simp add: dict_obj_def)
    have len: "length ts = length d" using d(3) by (metis length_map)
    have "tree_ok T u" if "u \<in> set ts" for u
    proof -
      from that have "Some u \<in> set (map (\<lambda>kv. read_value n h (snd kv)) d)" unfolding d(3) by simp
      then obtain x where x: "x \<in> snd ` set d" "read_value n h x = Some u" by force
      from x(1) obtain kv where "kv \<in> set (dict_obj h a)" "x = snd kv" using obj by blast
      with entries Suc.prems(1) HDict have "P x" by blast
      from Suc.IH[OF this x(2)] show ?thesis .
    qed
    moreover have "dkeys (zip (dkeys d) ts) = dkeys d" using len by simp
    moreover have "distinct (dkeys d)" "\<forall>k \<in> set (dkeys d). CHR ''+'' \<notin> set k"
      using ok obj by (auto simp: store_ok_def object_ok_def)
    moreover have "fst kv \<in> set (dkeys d) \<and> snd kv \<in> set ts" if "kv \<in> set (zip (dkeys d) ts)" for kv
      using that by (metis prod.collapse set_zip_leftD set_zip_rightD)
    ultimately show ?thesis by (simp only: d(4) tree_ok.simps) blast
  qed (use Suc.prems strs in auto)
qed

lemma read_settled:
  assumes "store_ok h" "settled phase h v" "value_of h v = Some t"
  shows "tree_ok (settled_text phase) t"
  by (rule read_value_ok[OF assms(1), where P = "settled phase h" and v = v])
    (use assms(2,3) settled_item settled_entry in \<open>auto simp: value_of_def\<close>)

lemma read_any: "store_ok h \<Longrightarrow> value_of h v = Some t \<Longrightarrow> tree_ok (\<lambda>_. True) t"
  by (rule read_value_ok[where P = "\<lambda>_. True" and v = v]) (simp_all add: value_of_def)

section \<open>Merging\<close>

lemma place_item_append:
  "fst (place_item True sg hs x st) = fst st \<or> fst (place_item True sg hs x st) = fst st @ [x]"
  by (cases st) (simp add: place_item_def Let_def)

lemma h_MergeLists_loop_spec:
  assumes "store_ok h" "tree_ok (settled_text phase) (PList fro)"
    and "h_MergeLists_loop rp g f f ip True fro st h = Inr (l, h')"
  shows "extends h h' \<and> (\<exists>ys. l = fst st @ ys \<and> (\<forall>y \<in> set ys. settled phase h' y))"
  using assms
proof (induction fro arbitrary: st h)
  case Nil
  then show ?case by (auto simp: extends_def)
next
  case (Cons item fro)
  from Cons.prems(3) obtain ti where ti: "copy_item rp g f f ip item = Inr ti" by auto
  obtain x h1 where x: "new_value ti h = (x, h1)" by fastforce
  let ?st = "place_item True (is_singleton item) (h_is_scalar x) x st"
  from Cons.prems(3) ti x have rest: "h_MergeLists_loop rp g f f ip True fro ?st h1 = Inr (l, h')" by simp
  have "tree_ok (settled_text phase) item" using Cons.prems(2) by simp
  with ti have "tree_ok (settled_text phase) ti" by (rule copy_item_tree_ok)
  from new_value_spec[OF this Cons.prems(1) x, of phase] have h1: "extends h h1" "settled phase h1 x" by auto
  have "tree_ok (settled_text phase) (PList fro)" using Cons.prems(2) by simp
  from Cons.IH[OF _ this rest] h1(1) obtain ys where
    ys: "extends h1 h'" "l = fst ?st @ ys" "\<forall>y \<in> set ys. settled phase h' y" by (auto simp: extends_def)
  have x': "settled phase h' x" by (rule grows_settled[OF extends_grows[OF ys(1)] h1(2)])
  from place_item_append[of "is_singleton item" "h_is_scalar x" x st]
  have "\<exists>ys. l = fst st @ ys \<and> (\<forall>y \<in> set ys. settled phase h' y)"
  proof
    assume "fst ?st = fst st"
    with ys(2,3) show ?thesis by auto
  next
    assume "fst ?st = fst st @ [x]"
    with ys(2,3) x' show ?thesis by (intro exI[of _ "x # ys"]) simp
  qed
  with extends_trans[OF h1(1) ys(1)] show ?case by blast
qed

lemma h_MergeLists_spec:
  assumes "store_ok h" "is_lobj h t" "tree_ok (settled_text phase) (PList fro)"
    and "h_MergeLists rp g t fro f f ip True h = Inr h'"
  shows "store_ok h' \<and> grows phase {} h h'"
proof -
  from assms(4) obtain l h1 where loop: "h_MergeLists_loop rp g f f ip True fro
      (list_obj h t, filter h_is_scalar (list_obj h t), 0) h = Inr (l, h1)" "h' = h1[t := LObj l]"
    by (auto simp: h_MergeLists_def)
  from h_MergeLists_loop_spec[OF assms(1,3) loop(1)] obtain ys where
    ys: "extends h h1" "l = list_obj h t @ ys" "\<forall>y \<in> set ys. settled phase h1 y" by auto
  have old: "list_obj h t = list_obj h1 t" using extends_obj[OF ys(1) lobj_below[OF assms(2)]] by simp
  have kind: "is_lobj h1 t" by (rule grows_kind(1)[OF extends_grows[OF ys(1)] assms(2)])
  have ok: "store_ok h1" using ys(1) by (simp add: extends_def)
  have items: "v \<in> set (list_obj h1 t) \<or> settled phase h1 v" if "v \<in> set l" for v
    using that ys(2,3) old by auto
  have pre: "t \<in> {} \<or> (\<exists>ys. l = list_obj h1 t @ ys \<and> (\<forall>y \<in> set ys. settled phase h1 y))"
    using ys(2,3) old by auto
  note w = list_write[OF ok kind items pre]
  show ?thesis using w grows_trans[OF extends_grows[OF ys(1)] w(2)] by (simp add: loop(2))
qed

text \<open>\<open>changes h h'\<close>: what every step of a merge does.\<close>

abbreviation (input) changes :: "phase \<Rightarrow> store \<Rightarrow> store \<Rightarrow> bool" where
  "changes phase h h' \<equiv> store_ok h' \<and> grows phase {} h h'"

lemma changes_trans: "changes phase h h1 \<Longrightarrow> changes phase h1 h2 \<Longrightarrow> changes phase h h2"
  by (blast intro: grows_trans)

lemma h_set_item_spec:
  assumes "store_ok h" "is_dobj h a" "CHR ''+'' \<notin> set k" "settled phase h x"
  shows "changes phase h (h_set_item a k x h)"
  using dict_write[OF assms(1,2,4,3)] by (simp add: h_set_item_def)

lemma h_set_new_spec:
  assumes "store_ok h" "is_dobj h a" "CHR ''+'' \<notin> set k" "ob \<in> {LObj [], DObj []}"
    and "h_set_new a k ob h = (t, h')"
  shows "changes phase h h'" "valid h' (ref_to t ob)"
proof -
  have "obj_ok h ob" using assms(4) by (auto simp: obj_ok_def)
  note ext = new_object[OF assms(1) this]
  note g = extends_grows[OF ext]
  have x: "settled phase (h @ [ob]) (ref_to (length h) ob)"
    by (rule settled_appended[OF assms(1)]) (use assms(4) in auto)
  have h': "t = length h" "h' = h_set_item a k (ref_to t ob) (h @ [ob])"
    using assms(5) by (auto simp: h_set_new_def ref_to_def)
  have c: "changes phase (h @ [ob]) h'"
    unfolding h' by (rule h_set_item_spec[OF extends_ok[OF ext] grows_kind(2)[OF g assms(2)] assms(3) x])
  with extends_ok[OF ext] g show "changes phase h h'" by (blast intro: grows_trans)
  show "valid h' (ref_to t ob)" using c grows_valid settled_valid[OF x] h'(1) by blast
qed

lemma dget_valid: "store_ok h \<Longrightarrow> dget (dict_obj h a) k = Some v \<Longrightarrow> valid h v"
  by (rule store_ok_children[OF _ children_dget])

text \<open>The merge of one list into the entry \<open>b\<close> of the dictionary.\<close>

lemma merge_list_entry_spec:
  assumes "store_ok h" "is_dobj h to" "tree_ok (settled_text phase) (PList l)" "CHR ''+'' \<notin> set b"
    and "(case dget (dict_obj h to) b of
        Some (HList t) \<Rightarrow> h_MergeLists rp g t l f f ip True h
      | Some old \<Rightarrow> Inl (e old)
      | None \<Rightarrow> (let (t, h2) = h_set_new to b (LObj []) h in h_MergeLists rp g t l f f ip True h2)) = Inr h'"
  shows "changes phase h h'"
proof (cases "dget (dict_obj h to) b")
  case None
  obtain t h2 where t: "h_set_new to b (LObj []) h = (t, h2)" by fastforce
  with assms(5) None have m: "h_MergeLists rp g t l f f ip True h2 = Inr h'" by simp
  have new: "changes phase h h2" "is_lobj h2 t"
    using h_set_new_spec[OF assms(1,2,4) _ t] by (simp_all add: ref_to_def)
  with h_MergeLists_spec[OF _ new(2) assms(3) m] show ?thesis using changes_trans[where h = h and ?h1.0 = h2 and ?h2.0 = h'] by blast
next
  case (Some old)
  with assms(5) obtain t where t: "old = HList t" "h_MergeLists rp g t l f f ip True h = Inr h'"
    by (cases old) auto
  have "is_lobj h t" using dget_valid[OF assms(1) Some] t(1) by simp
  from h_MergeLists_spec[OF assms(1) this assms(3) t(2)] show ?thesis .
qed

lemma h_MergeDicts_loop_spec:
  assumes "store_ok h" "is_dobj h to" "dict_ok (settled_text phase) rest"
    and "h_MergeDicts_loop rp g f f fro rest to h = Inr h'"
  shows "changes phase h h'"
  using assms
proof (induction "size (PDict rest)" arbitrary: rest fro to h h' rule: less_induct)
  case less
  show ?case
  proof (cases rest)
    case Nil
    with less.prems show ?thesis by (simp add: grows_refl)
  next
    case (Cons kv rest')
    obtain k v where kv: "kv = (k, v)" by fastforce
    have k: "CHR ''+'' \<notin> set k" and v: "tree_ok (settled_text phase) v"
      and rest': "dict_ok (settled_text phase) rest'"
      using less.prems(3) by (auto simp: Cons kv)
    note ih = less.hyps[of rest'] and ihv = less.hyps
    have smaller: "size (PDict rest') < size (PDict rest)" by (simp add: Cons kv)
    from less.prems(4) obtain h1 where
      rest: "h_MergeDicts_loop rp g f f fro rest' to h1 = Inr h'"
      and step: "(case v of
             PDict d \<Rightarrow>
               (case dget (dict_obj h to) k of
                  Some (HDict t) \<Rightarrow> h_MergeDicts_loop rp g f f d d t h
                | _ \<Rightarrow>
                    (let (t, h1) = h_set_new to k (DObj []) h
                     in h_MergeDicts_loop rp g f f d d t h1))
           | PList l \<Rightarrow>
               if k = [] then Inl IndexError
               else
                 let p = merge_policy_of k;
                     b = list_base p;
                     h1 = (if replaces p then snd (h_set_new to b (LObj []) h) else h)
                 in case find (dhas fro) (lists_incompatible p) of
                      Some i \<Rightarrow> Inl (GypError (''Incompatible list policies '' @ k @ '' and '' @ i))
                    | None \<Rightarrow>
                        if dhas (dict_obj h1 to) b \<and> only_if_absent p then Inr h1
                        else
                          (case dget (dict_obj h1 to) b of
                             Some (HList t) \<Rightarrow>
                               h_MergeLists rp g t l f f (IsPathSection g b) (appends p) h1
                           | Some old \<Rightarrow> Inl (h_incompatible_type v old (b @ ''('' @ k @ '')''))
                           | None \<Rightarrow>
                               (let (t, h2) = h_set_new to b (LObj []) h1
                                in h_MergeLists rp g t l f f (IsPathSection g b) (appends p) h2))
           | PNone \<Rightarrow>
               Inl (TypeError (''Attempt to merge dict value of unsupported type ''
                 @ class_name v @ '' for key '' @ k))
           | _ \<Rightarrow>
               rbind (if IsPathSection g k then MakePathRelative rp f f v else Inr v)
                 (\<lambda>w. let (x, h1) = new_value w h in Inr (h_set_item to k x h1))) = Inr h1"
      unfolding Cons kv h_MergeDicts_loop.simps rbind_eq_Inr by blast
    have "changes phase h h1"
    proof (cases v)
      case (PDict d)
      have d: "size (PDict d) < size (PDict rest)" by (simp add: Cons kv PDict)
      show ?thesis
      proof (cases "\<exists>t. dget (dict_obj h to) k = Some (HDict t)")
        case True
        then obtain t where t: "dget (dict_obj h to) k = Some (HDict t)" ..
        have "is_dobj h t" using dget_valid[OF less.prems(1) t] by simp
        from ihv[OF d less.prems(1) this] v step t show ?thesis by (simp add: PDict)
      next
        case False
        obtain t h2 where t: "h_set_new to k (DObj []) h = (t, h2)" by fastforce
        with step False have m: "h_MergeDicts_loop rp g f f d d t h2 = Inr h1"
          by (auto simp: PDict split: option.splits hval.splits)
        have new: "changes phase h h2" "is_dobj h2 t"
          using h_set_new_spec[OF less.prems(1,2) k _ t] by (simp_all add: ref_to_def)
        from ihv[OF d _ new(2) _ m] new(1) v have "changes phase h2 h1" by (simp add: PDict)
        with new(1) show ?thesis by (rule changes_trans)
      qed
    next
      case (PList l)
      let ?p = "merge_policy_of k"
      from step have ne: "k \<noteq> []" by (auto simp: PList)
      note pol = policy_without_plus[OF k ne]
      define h2 where "h2 = (if replaces ?p then snd (h_set_new to (list_base ?p) (LObj []) h) else h)"
      have h2: "changes phase h h2"
      proof (cases "replaces ?p")
        case True
        obtain t h3 where t: "h_set_new to (list_base ?p) (LObj []) h = (t, h3)" by fastforce
        from h_set_new_spec(1)[OF less.prems(1,2) pol(1) _ t] True t show ?thesis by (simp add: h2_def)
      qed (simp add: h2_def less.prems(1) grows_refl)
      note body = step[unfolded PList pyval.case Let_def if_not_P[OF ne], folded h2_def]
      have "find (dhas fro) (lists_incompatible ?p) = None"
        using body by (cases "find (dhas fro) (lists_incompatible ?p)") simp_all
      note body1 = body[unfolded this option.case]
      consider "h1 = h2"
        | "(case dget (dict_obj h2 to) (list_base ?p) of
             Some (HList t) \<Rightarrow> h_MergeLists rp g t l f f (IsPathSection g (list_base ?p)) True h2
           | Some old \<Rightarrow> Inl (h_incompatible_type (PList l) old (list_base ?p @ ''('' @ k @ '')''))
           | None \<Rightarrow> (let (t, h3) = h_set_new to (list_base ?p) (LObj []) h2
                      in h_MergeLists rp g t l f f (IsPathSection g (list_base ?p)) True h3)) = Inr h1"
      proof (cases "dhas (dict_obj h2 to) (list_base ?p) \<and> only_if_absent ?p")
        case True
        from body1[unfolded if_P[OF True]] that(1) show thesis by blast
      next
        case False
        show thesis by (rule that(2)) (use body1[unfolded if_not_P[OF False]] in \<open>simp only: Let_def pol(2)\<close>)
      qed
      then show ?thesis
      proof cases
        case 1
        with h2 show ?thesis by simp
      next
        case 2
        have "changes phase h2 h1"
          by (rule merge_list_entry_spec[OF _ _ _ pol(1) 2]) (use h2 v PList grows_kind(2) less.prems(2) in auto)
        with h2 show ?thesis by (rule changes_trans)
      qed
    next
      case (PStr s)
      with step v show ?thesis using h_set_item_spec[OF less.prems(1,2) k, where phase = phase and x = "HStr s"]
        by (auto split: if_splits)
    next
      case (PInt i)
      with step show ?thesis using h_set_item_spec[OF less.prems(1,2) k, where phase = phase and x = "HInt i"]
        by (auto split: if_splits)
    next
      case PNone
      with step show ?thesis by simp
    qed
    moreover from this have "changes phase h1 h'"
      by (intro less.hyps[OF smaller _ _ rest' rest]) (use less.prems(2) grows_kind(2) in blast)+
    ultimately show ?thesis by (rule changes_trans)
  qed
qed

end
