(* ===== verification/Gyp_Expand_Settles.thy ===== *)
theory Gyp_Expand_Settles
  imports Gyp_Expand_Refs
begin

text \<open>
  The calls of variable expansion, one after the other: what each leaves settled.  The result is
  \<open>expansion_settles\<close>: a processed dictionary holds no reference of the phase.
\<close>

section \<open>What the calls guarantee\<close>

definition steps :: "phase \<Rightarrow> world \<Rightarrow> world \<Rightarrow> bool" where
  "steps phase w w' \<longleftrightarrow> store_ok (objects w') \<and> grows phase {} (objects w) (objects w')"

text \<open>The variables are a dictionary as the dictionaries of the store are.\<close>

abbreviation vars_ok :: "world \<Rightarrow> hdict \<Rightarrow> bool" where
  "vars_ok w variables \<equiv> obj_ok (objects w) (DObj variables)"

definition good_expanded :: "phase \<Rightarrow> world \<Rightarrow> expanded \<Rightarrow> bool" where
  "good_expanded phase w e =
     (case e of
        EStr s \<Rightarrow> settled_text phase s
      | EInt i \<Rightarrow> True
      | EList l \<Rightarrow> (\<forall>v \<in> set l. settled phase (objects w) v))"

definition good_prefix :: "phase \<Rightarrow> store \<Rightarrow> nat \<Rightarrow> nat \<Rightarrow> bool" where
  "good_prefix phase h a n \<longleftrightarrow> (\<forall>v \<in> set (take n (list_obj h a)). settled phase h v)"

definition call_pre :: "phase \<Rightarrow> call \<Rightarrow> hdict \<Rightarrow> world \<Rightarrow> bool" where
  "call_pre phase c variables w \<longleftrightarrow> store_ok (objects w) \<and> vars_ok w variables \<and>
     (case c of
        Expand v \<Rightarrow> valid (objects w) v
      | InDict v key \<Rightarrow> valid (objects w) v
      | Conditions a \<Rightarrow> is_dobj (objects w) a
      | ConditionsFrom a l i \<Rightarrow> is_dobj (objects w) a \<and> is_lobj (objects w) l
      | InList a i \<Rightarrow> is_lobj (objects w) a \<and> good_prefix phase (objects w) a i)"

definition call_post :: "phase \<Rightarrow> call \<Rightarrow> hdict \<Rightarrow> world \<Rightarrow> answer \<Rightarrow> world \<Rightarrow> bool" where
  "call_post phase c variables w0 a w \<longleftrightarrow> steps phase w0 w \<and>
     (case c of
        Expand v \<Rightarrow> (\<exists>e. a = Expanded e \<and> good_expanded phase w e)
      | InDict v key \<Rightarrow> settled phase (objects w) v
      | InList b i \<Rightarrow> settled phase (objects w) (HList b)
      | _ \<Rightarrow> True)"

text \<open>The calls that a body makes guarantee all this.\<close>

definition caller_ok :: "phase \<Rightarrow> caller \<Rightarrow> bool" where
  "caller_ok phase self \<longleftrightarrow>
     (\<forall>c variables w a w'. call_pre phase c variables w \<longrightarrow> self c variables w = Some (Inr (a, w')) \<longrightarrow>
        call_post phase c variables w a w')"

lemma steps_refl: "store_ok (objects w) \<Longrightarrow> steps phase w w"
  by (simp add: steps_def grows_refl)

lemma steps_trans: "steps phase w w1 \<Longrightarrow> steps phase w1 w2 \<Longrightarrow> steps phase w w2"
  unfolding steps_def by (blast intro: grows_trans)

lemma steps_ok: "steps phase w w' \<Longrightarrow> store_ok (objects w')"
  by (simp add: steps_def)

lemma steps_valid: "steps phase w w' \<Longrightarrow> valid (objects w) v \<Longrightarrow> valid (objects w') v"
  using grows_valid by (auto simp: steps_def)

lemma steps_kind:
  "steps phase w w' \<Longrightarrow> is_lobj (objects w) a \<Longrightarrow> is_lobj (objects w') a"
  "steps phase w w' \<Longrightarrow> is_dobj (objects w) a \<Longrightarrow> is_dobj (objects w') a"
  using grows_kind by (auto simp: steps_def)

lemma steps_settled: "steps phase w w' \<Longrightarrow> settled phase (objects w) v \<Longrightarrow> settled phase (objects w') v"
  using grows_settled by (auto simp: steps_def)

lemma steps_vars: "steps phase w w' \<Longrightarrow> vars_ok w variables \<Longrightarrow> vars_ok w' variables"
  by (auto simp: obj_ok_def intro: steps_valid)

lemma steps_entry:
  "steps phase w w' \<Longrightarrow> is_dobj (objects w) a \<Longrightarrow> dget (dict_obj (objects w') a) k = Some v \<Longrightarrow>
    dget (dict_obj (objects w) a) k = Some v \<or> settled phase (objects w') v"
  unfolding steps_def by (blast dest: grows_entry)

lemma steps_list:
  assumes "steps phase w w'" "is_lobj (objects w) a"
  shows "settled phase (objects w') (HList a) \<or> (\<exists>ys. list_obj (objects w') a = list_obj (objects w) a @ ys
    \<and> (\<forall>y \<in> set ys. settled phase (objects w') y))"
  using assms grows_list unfolding steps_def by blast

lemma vars_ok_dget: "vars_ok w variables \<Longrightarrow> dget variables k = Some v \<Longrightarrow> valid (objects w) v"
  by (force simp: obj_ok_def dest: map_of_SomeD)

lemmas steps_keep = steps_ok steps_valid steps_kind steps_settled steps_vars

section \<open>Single actions\<close>

lemma store_acts [simp]:
  "get_list a w = Some (Inr (list_obj (objects w) a, w))"
  "get_dict a w = Some (Inr (dict_obj (objects w) a, w))"
  "set_list a l w = Some (Inr ((), w\<lparr>objects := (objects w)[a := LObj l]\<rparr>))"
  "set_dict a d w = Some (Inr ((), w\<lparr>objects := (objects w)[a := DObj d]\<rparr>))"
  "new_list l w = Some (Inr (HList (length (objects w)), w\<lparr>objects := objects w @ [LObj l]\<rparr>))"
  "read_tree v w = of_option (value_of (objects w) v) w"
  "read_trees vs w = of_option (osequence (map (value_of (objects w)) vs)) w"
  "read_dict d w = of_option (dict_of (objects w) d) w"
  by (simp_all add: get_list_def get_dict_def set_list_def set_dict_def new_list_def read_tree_def
      read_trees_def read_dict_def)

lemma str_of_value_world: "str_of_value v w = Some (Inr (s, w')) \<Longrightarrow> w' = w \<and> (\<forall>t. v = HStr t \<longrightarrow> s = t)"
  by (cases v) (auto simp: str_of_value_def)

lemma steps_objects: "store_ok (objects w) \<Longrightarrow> objects w' = objects w \<Longrightarrow> steps phase w w'"
  by (simp add: steps_def grows_refl)

lemma run_command_steps:
  "run_command env build_file m s w = Some (Inr (r, w')) \<Longrightarrow> store_ok (objects w) \<Longrightarrow> steps phase w w'"
  by (drule run_command_cases) (auto intro: steps_objects)

lemma write_file_list_steps:
  assumes "write_file_list env build_file s w = Some (Inr (r, w'))" "store_ok (objects w)"
  shows "steps phase w w'"
proof (rule steps_objects[OF assms(2)])
  have p: "objects u' = objects u" if "file_list_path env d n u = Some (Inr (x, u'))" for d n u x u'
    using that by (auto simp: file_list_path_def EnsureDirExists_def Let_def split: if_splits)
  from assms(1) show "objects w' = objects w"
    by (auto simp: write_file_list_def Let_def dest!: p split: if_splits)
qed

lemma new_list_steps:
  assumes "store_ok (objects w)" "\<And>v. v \<in> set l \<Longrightarrow> settled phase (objects w) v"
    and "new_list l w = Some (Inr (x, w'))"
  shows "steps phase w w'" "settled phase (objects w') x"
proof -
  have "obj_ok (objects w) (LObj l)" using assms(2) settled_valid by (auto simp: obj_ok_def)
  note ext = new_object[OF assms(1) this]
  from assms(3) have w': "x = HList (length (objects w))" "objects w' = objects w @ [LObj l]" by auto
  show "steps phase w w'" using ext by (simp add: steps_def w'(2) extends_ok extends_grows)
  show "settled phase (objects w') x"
    using settled_appended[OF assms(1), of "LObj l" phase] assms(2) by (simp add: w' ref_to_def)
qed

lemma value_of_expanded_steps:
  assumes "value_of_expanded e w = Some (Inr (x, w'))" "store_ok (objects w)" "good_expanded phase w e"
  shows "steps phase w w'" "settled phase (objects w') x"
proof -
  have "steps phase w w' \<and> settled phase (objects w') x"
  proof (cases e)
    case (EList l)
    with assms show ?thesis
      using new_list_steps[of w l phase x w'] by (simp add: value_of_expanded_def good_expanded_def)
  qed (use assms in \<open>auto simp: value_of_expanded_def good_expanded_def steps_refl\<close>)
  then show "steps phase w w'" "settled phase (objects w') x" by blast+
qed

lemma zip_keys: "length xs = length ks \<Longrightarrow> map fst (zip ks xs) = ks"
  by simp

lemma zip_values: "kv \<in> set (zip ks xs) \<Longrightarrow> fst kv \<in> set ks \<and> snd kv \<in> set xs"
  by (metis prod.collapse set_zip_leftD set_zip_rightD)

lemma dict_of_ok:
  assumes "store_ok h" "dict_of h d = Some t" "obj_ok h (DObj d)"
  shows "dict_ok (\<lambda>_. True) t"
proof -
  from assms(2) obtain vs where vs: "map (\<lambda>kv. value_of h (snd kv)) d = map Some vs" "t = zip (dkeys d) vs"
    by (auto simp: dict_of_def osequence_Some)
  have len: "length vs = length (dkeys d)" using vs(1) by (metis length_map)
  have "tree_ok (\<lambda>_. True) x" if "x \<in> set vs" for x
  proof -
    from that have "Some x \<in> set (map (\<lambda>kv. value_of h (snd kv)) d)" unfolding vs(1) by simp
    then show ?thesis using read_any[OF assms(1)] by auto
  qed
  then show ?thesis
    using assms(3) zip_values[of _ "dkeys d" vs]
    unfolding tree_ok.simps vs(2) zip_keys[OF len] obj_ok_def hobj.case by blast
qed

lemma new_dict_spec:
  assumes "dict_ok T t" "store_ok h" "new_dict t h = (d, h')"
  shows "extends h h' \<and> obj_ok h' (DObj d)"
proof -
  from assms(3) obtain vs where n: "new_values (\<lambda>kv. new_value (snd kv)) t h = (vs, h')" "d = zip (dkeys t) vs"
    by (auto simp: new_dict_def split: prod.splits)
  have vs: "extends h h' \<and> length vs = length t \<and> (\<forall>x \<in> set vs. valid h' x \<and> (False \<longrightarrow> settled PHASE_EARLY h' x))"
    by (rule new_values_spec[OF _ assms(2) n(1)]) (use assms(1) new_value_spec[where T = T] in fastforce)
  then have len: "length vs = length (dkeys t)" by simp
  show ?thesis
    unfolding n(2) obj_ok_def hobj.case zip_keys[OF len]
  proof (intro conjI ballI)
    show "valid h' x" if "x \<in> snd ` set (zip (dkeys t) vs)" for x
      using that vs zip_values[of _ "dkeys t" vs] by blast
    show "CHR ''+'' \<notin> set k" if "k \<in> set (dkeys t)" for k using that assms(1) by auto
  qed (use assms(1) vs in auto)
qed

lemma filtered_variables_steps:
  assumes "filtered_variables env name variables w = Some (Inr (vars, w'))" "store_ok (objects w)" "vars_ok w variables"
  shows "steps phase w w'" "vars_ok w' vars"
proof -
  from assms(1) obtain t r where t: "dict_of (objects w) variables = Some t"
    "ProcessListFiltersInDict (env_compile env) name t = Inr r" "write_dict r w = Some (Inr (vars, w'))"
    by (auto simp: filtered_variables_def)
  have ok: "dict_ok (\<lambda>_. True) r"
    by (rule ProcessListFiltersInDict_tree_ok[OF t(2)]) (rule dict_of_ok[OF assms(2) t(1) assms(3)])
  obtain d h where n: "new_dict r (objects w) = (d, h)" by fastforce
  with t(3) have "vars = d" "objects w' = h" by (auto simp: write_dict_def)
  with new_dict_spec[OF ok assms(2) n] show "steps phase w w'" "vars_ok w' vars"
    by (auto simp: steps_def extends_ok extends_grows)
qed

section \<open>References\<close>

text \<open>Calls, as the bodies make them.\<close>

lemma expand_call_ok:
  assumes "caller_ok phase self" "expand_call self v variables w = Some (Inr (e, w'))"
    and "store_ok (objects w)" "vars_ok w variables" "valid (objects w) v"
  shows "steps phase w w'" "good_expanded phase w' e"
proof -
  from assms(2) obtain a u where a: "self (Expand v) variables w = Some (Inr (a, u))"
    "(case a of Expanded e \<Rightarrow> ret e | Processed \<Rightarrow> of_option None) u = Some (Inr (e, w'))"
    unfolding expand_call_def abind_Inr by blast
  then have "self (Expand v) variables w = Some (Inr (Expanded e, w'))" by (cases a) auto
  moreover have "call_pre phase (Expand v) variables w" using assms(3-5) by (simp add: call_pre_def)
  ultimately have "call_post phase (Expand v) variables w (Expanded e) w'"
    using assms(1) unfolding caller_ok_def by blast
  then show "steps phase w w'" "good_expanded phase w' e" by (auto simp: call_post_def)
qed

lemma process_call_ok:
  assumes "caller_ok phase self" "process_call self c variables w = Some (Inr (u, w'))" "call_pre phase c variables w"
  shows "\<exists>a. call_post phase c variables w a w'"
  using assms unfolding caller_ok_def process_call_def by (auto; blast)

lemma in_list_ok:
  assumes "caller_ok phase self" "process_call self (InList a i) variables w = Some (Inr (u, w'))"
    and "store_ok (objects w)" "vars_ok w variables" "is_lobj (objects w) a" "good_prefix phase (objects w) a i"
  shows "steps phase w w'" "settled phase (objects w') (HList a)"
  using process_call_ok[OF assms(1,2)] assms(3-) by (auto simp: call_pre_def call_post_def)

lemma in_dict_ok:
  assumes "caller_ok phase self" "process_call self (InDict v key) variables w = Some (Inr (u, w'))"
    and "store_ok (objects w)" "vars_ok w variables" "valid (objects w) v"
  shows "steps phase w w'" "settled phase (objects w') v"
  using process_call_ok[OF assms(1,2)] assms(3-) by (auto simp: call_pre_def call_post_def)

lemma lookup_variable_ok:
  assumes "lookup_variable s build_file variables w = Some (Inr (v, w'))" "store_ok (objects w)" "vars_ok w variables"
  shows "steps phase w w'" "valid (objects w') v"
proof -
  have "steps phase w w' \<and> valid (objects w') v"
  proof (cases "dget variables s")
    case None
    with assms(1) have n: "new_list [] w = Some (Inr (v, w'))"
      by (auto simp: lookup_variable_def simp del: store_acts split: if_splits)
    show ?thesis using new_list_steps[OF assms(2) _ n] settled_valid by auto
  next
    case (Some u)
    with assms show ?thesis using vars_ok_dget by (auto simp: lookup_variable_def steps_refl)
  qed
  then show "steps phase w w'" "valid (objects w') v" by blast+
qed

lemma find_replacement_ok:
  assumes "find_replacement env build_file variables m s w = Some (Inr (v, w'))" "store_ok (objects w)" "vars_ok w variables"
  shows "steps phase w w'" "valid (objects w') v"
proof -
  have "steps phase w w' \<and> valid (objects w') v"
    using assms write_file_list_steps[of env build_file s w _ w'] run_command_steps[of env build_file m s w _ w']
      lookup_variable_ok[of s build_file variables w v w']
    by (auto simp: find_replacement_def split: if_splits)
  then show "steps phase w w'" "valid (objects w') v" by blast+
qed

text \<open>A list is settled before it is put in.\<close>

lemma prepare_replacement_ok:
  assumes "caller_ok phase self" "prepare_replacement self s v variables w = Some (Inr (u, w'))"
    and "store_ok (objects w)" "vars_ok w variables" "valid (objects w) v"
  shows "steps phase w w'" "\<And>a. v = HList a \<Longrightarrow> settled phase (objects w') v"
proof -
  have "steps phase w w' \<and> (\<forall>a. v = HList a \<longrightarrow> settled phase (objects w') v)"
  proof (cases v)
    case (HList a)
    with assms(2) have c: "process_call self (InList a 0) variables w = Some (Inr (u, w'))"
      by (auto simp: prepare_replacement_def)
    have "is_lobj (objects w) a" "good_prefix phase (objects w) a 0" using assms(5) HList by (simp_all add: good_prefix_def)
    from in_list_ok[OF assms(1) c assms(3,4) this] HList show ?thesis by simp
  qed (use assms in \<open>auto simp: prepare_replacement_def steps_refl\<close>)
  then show "steps phase w w'" "\<And>a. v = HList a \<Longrightarrow> settled phase (objects w') v" by blast+
qed

text \<open>What goes into the next round: a list with lists in it is settled already.\<close>

definition raw_ok :: "phase \<Rightarrow> world \<Rightarrow> expanded \<Rightarrow> bool" where
  "raw_ok phase w e =
     (case e of
        EList l \<Rightarrow> (\<forall>v \<in> set l. valid (objects w) v)
          \<and> ((\<exists>v \<in> set l. h_is_list v) \<longrightarrow> (\<forall>v \<in> set l. settled phase (objects w) v))
      | _ \<Rightarrow> True)"

lemma put_replacement_ok:
  assumes "put_replacement b s t v w = Some (Inr (e, w'))" "\<And>a. v = HList a \<Longrightarrow> settled phase (objects w) v"
  shows "w' = w" "raw_ok phase w e"
proof -
  have "w' = w \<and> raw_ok phase w e"
  proof (cases v)
    case (HList a)
    note items = settled_item[OF assms(2)[OF HList, unfolded HList]]
    with assms(1) HList settled_valid[of phase "objects w"] show ?thesis
      by (auto simp: put_replacement_def list_replacement_def encode_replacement_def raw_ok_def split: if_splits)
  qed (use assms(1) in \<open>auto simp: put_replacement_def list_replacement_def encode_replacement_def raw_ok_def
      h_is_list_def dest!: str_of_value_world split: if_splits\<close>)
  then show "w' = w" "raw_ok phase w e" by blast+
qed

lemma expand_match_ok:
  assumes "caller_ok phase self" "expand_match env build_file self variables m s w = Some (Inr (e, w'))"
    and "store_ok (objects w)" "vars_ok w variables"
  shows "steps phase w w'" "raw_ok phase w' e"
proof -
  obtain c_start c_end where g: "FindEnclosingBracketGroup (drop (m_start m) s) = (c_start, c_end)" by fastforce
  let ?e = "int (m_start m) + c_end"
  let ?contents = "slice s (int (m_start m) + c_start + 1) (?e - 1)"
  from assms(2) obtain vars w1 contents1 w2 where
    f: "(if CHR ''|'' \<in> set (m_type m) then filtered_variables env ?contents variables else ret variables) w
        = Some (Inr (vars, w1))"
    and c: "expand_call self (HStr ?contents) vars w1 = Some (Inr (contents1, w2))"
    and r: "(case contents1 of
          EStr s' \<Rightarrow>
            abind (find_replacement env build_file variables m (strip s')) (\<lambda>replacement.
            abind (prepare_replacement self (strip s') replacement variables) (\<lambda>_.
              put_replacement (CHR ''@'' \<in> set (m_type m) \<and> s = slice s (int (m_start m)) ?e) (take (m_start m) s)
                (slice s ?e (int (length s))) replacement))
        | EInt i \<Rightarrow> throw (no_attribute (e_class_name contents1) ''strip'')
        | EList l \<Rightarrow> throw (no_attribute (e_class_name contents1) ''strip'')) w2 = Some (Inr (e, w'))"
    unfolding expand_match_def g Let_def prod.case abind_Inr by blast
  have 1: "steps phase w w1 \<and> vars_ok w1 vars"
    using f assms(3,4) filtered_variables_steps(1)[of env ?contents variables w vars w1 phase]
      filtered_variables_steps(2)[of env ?contents variables w vars w1]
    by (auto simp: steps_refl split: if_splits)
  have 2: "steps phase w1 w2" by (rule expand_call_ok[OF assms(1) c]) (use 1 steps_ok in auto)
  from r obtain s' where s': "contents1 = EStr s'" by (cases contents1) auto
  from r s' obtain v w3 w4 where
    v: "find_replacement env build_file variables m (strip s') w2 = Some (Inr (v, w3))"
    and p: "prepare_replacement self (strip s') v variables w3 = Some (Inr ((), w4))"
    and q: "put_replacement (CHR ''@'' \<in> set (m_type m) \<and> s = slice s (int (m_start m)) ?e) (take (m_start m) s)
        (slice s ?e (int (length s))) v w4 = Some (Inr (e, w'))"
    by auto
  have s2: "steps phase w w2" using 1 2 steps_trans by blast
  note w2 = steps_ok[OF s2] steps_vars[OF s2 assms(4)]
  note 3 = find_replacement_ok[OF v w2]
  note s3 = steps_trans[OF s2 3(1)]
  note 4 = prepare_replacement_ok[OF assms(1) p steps_ok[OF s3] steps_vars[OF s3 assms(4)] 3(2)]
  note 5 = put_replacement_ok[OF q 4(2)]
  show "steps phase w w'" using steps_trans[OF s3 4(1)] 5(1) by simp
  show "raw_ok phase w' e" using 5 by simp
qed

text \<open>The loop over the matches, and the second round.\<close>

lemma matches_ok:
  assumes "caller_ok phase self" "afold (replace_match env build_file self variables) ms (EStr s) w = Some (Inr (e, w'))"
    and "store_ok (objects w)" "vars_ok w variables"
  shows "steps phase w w'" "raw_ok phase w' e"
proof -
  have "steps phase w w' \<and> raw_ok phase w' e"
  proof (rule afold_invariant[OF assms(2), where P = "\<lambda>e u. steps phase w u \<and> raw_ok phase u e"])
    show "steps phase w w \<and> raw_ok phase w (EStr s)" using assms(3) by (simp add: steps_refl raw_ok_def)
  next
    fix m c u c' u'
    assume p: "steps phase w u \<and> raw_ok phase u c"
      and r: "replace_match env build_file self variables m c u = Some (Inr (c', u'))"
    show "steps phase w u' \<and> raw_ok phase u' c'"
    proof (cases c)
      case (EStr t)
      with r have m: "expand_match env build_file self variables m t u = Some (Inr (c', u'))" by (simp add: replace_match_def)
      from p have "store_ok (objects u)" "vars_ok u variables" using steps_ok steps_vars assms(4) by blast+
      from expand_match_ok[OF assms(1) m this] p show ?thesis using steps_trans by blast
    qed (use p r in \<open>simp_all add: replace_match_def\<close>)
  qed
  then show "steps phase w w'" "raw_ok phase w' e" by blast+
qed

lemma expand_items_ok:
  assumes "caller_ok phase self" "vars_ok w variables" "store_ok (objects w)" "\<forall>v \<in> set l. valid (objects w) v"
    and "afold (\<lambda>item new_output. abind (expand_call self item variables) (\<lambda>e.
        abind (value_of_expanded e) (\<lambda>v. ret (new_output @ [v])))) l [] w = Some (Inr (l', w'))"
  shows "steps phase w w' \<and> (\<forall>v \<in> set l'. settled phase (objects w') v)"
proof (rule afold_invariant[OF assms(5), where P = "\<lambda>l u. steps phase w u \<and> (\<forall>v \<in> set l. settled phase (objects u) v)"])
  fix item acc u acc' u'
  assume item: "item \<in> set l" and p: "steps phase w u \<and> (\<forall>v \<in> set acc. settled phase (objects u) v)"
    and "abind (expand_call self item variables) (\<lambda>e. abind (value_of_expanded e) (\<lambda>v. ret (acc @ [v]))) u
      = Some (Inr (acc', u'))"
  then obtain e u1 x where e: "expand_call self item variables u = Some (Inr (e, u1))"
    and x: "value_of_expanded e u1 = Some (Inr (x, u'))" and acc': "acc' = acc @ [x]" by auto
  from p item have "store_ok (objects u)" "vars_ok u variables" "valid (objects u) item"
    using steps_ok steps_vars steps_valid assms(2,4) by blast+
  note 1 = expand_call_ok[OF assms(1) e this]
  note 2 = value_of_expanded_steps[OF x steps_ok[OF 1(1)] 1(2)]
  have "steps phase u u'" by (rule steps_trans[OF 1(1) 2(1)])
  with p 2(2) show "steps phase w u' \<and> (\<forall>v \<in> set acc'. settled phase (objects u') v)"
    unfolding acc' using steps_trans steps_settled by auto
qed (use assms(3) in \<open>simp add: steps_refl\<close>)

lemma expand_again_ok:
  assumes "caller_ok phase self" "expand_again self variables e w = Some (Inr (e', w'))"
    and "store_ok (objects w)" "vars_ok w variables" "raw_ok phase w e"
  shows "steps phase w w'" "good_expanded phase w' e'"
proof -
  have "steps phase w w' \<and> good_expanded phase w' e'"
  proof (cases e)
    case (EStr s)
    with assms expand_call_ok[OF assms(1), of "HStr s" variables w e' w'] show ?thesis by (simp add: expand_again_def)
  next
    case (EInt i)
    with assms show ?thesis by (auto simp: expand_again_def good_expanded_def steps_refl)
  next
    case (EList l)
    note ok = assms(5)[unfolded EList raw_ok_def expanded.case]
    show ?thesis
    proof (cases "l \<noteq> [] \<and> h_is_list (hd l)")
      case True
      then have "\<exists>v \<in> set l. h_is_list v" using hd_in_set by blast
      with ok True assms(2,3) EList show ?thesis by (auto simp: expand_again_def good_expanded_def steps_refl)
    next
      case False
      with assms(2) EList obtain l' where l': "e' = EList l'"
        "afold (\<lambda>item new_output. abind (expand_call self item variables) (\<lambda>e.
          abind (value_of_expanded e) (\<lambda>v. ret (new_output @ [v])))) l [] w = Some (Inr (l', w'))"
        by (auto simp: expand_again_def simp del: act_simps(3) simp: abind_Inr)
      from ok have valid: "\<forall>v \<in> set l. valid (objects w) v" by blast
      from expand_items_ok[OF assms(1,4,3) valid l'(2)] show ?thesis by (simp add: l'(1) good_expanded_def)
    qed
  qed
  then show "steps phase w w'" "good_expanded phase w' e'" by blast+
qed

lemma canonical_value_ok: "canonical_value v = Inr x \<Longrightarrow> settled phase h v \<Longrightarrow> settled phase h x"
  by (cases v) (auto simp: canonical_value_def split: if_splits)

lemma canonical_integers_ok:
  assumes "canonical_integers e w = Some (Inr (e', w'))" "good_expanded phase w e"
  shows "w' = w" "good_expanded phase w e'"
proof -
  have "w' = w \<and> good_expanded phase w e'"
  proof (cases e)
    case (EList l)
    with assms(1) obtain l' where l': "e' = EList l'" "w' = w" "rmap canonical_value l = Inr l'"
      by (auto simp: canonical_integers_def)
    have "settled phase (objects w) x" if "x \<in> set l'" for x
      using rmap_member[OF l'(3) that] canonical_value_ok assms(2) by (auto simp: EList good_expanded_def)
    then show ?thesis by (simp add: l' good_expanded_def)
  qed (use assms in \<open>auto simp: canonical_integers_def good_expanded_def split: if_splits\<close>)
  then show "w' = w" "good_expanded phase w e'" by blast+
qed

lemma no_symbol_no_match: "symbol \<notin> set s \<Longrightarrow> find_matches symbol i s = []"
  by (induction s arbitrary: i) auto

lemma ExpandVariables_body_ok:
  assumes "caller_ok phase self" "ExpandVariables_body env phase build_file self v variables w = Some (Inr (e, w'))"
    and "store_ok (objects w)" "vars_ok w variables"
  shows "steps phase w w'" "good_expanded phase w' e"
proof -
  from assms(2) obtain s where s: "str_of_value v w = Some (Inr (s, w))" and
    r: "(if IsStrCanonicalInt (PStr s) then abind (of_res (py_int (PStr s))) (\<lambda>i. ret (EInt i))
       else if expansion_symbol phase \<notin> set s then ret (EStr s)
       else if variable_re_finditer phase s = [] then ret (EStr s)
       else abind (afold (replace_match env build_file self variables) (rev (variable_re_finditer phase s)) (EStr s))
         (\<lambda>output. abind (expand_again self variables output) canonical_integers)) w = Some (Inr (e, w'))"
    unfolding ExpandVariables_body_def abind_Inr Let_def by (blast dest: str_of_value_world)
  consider i where "e = EInt i" "w' = w" | "e = EStr s" "w' = w" "settled_text phase s"
    | out w1 out2 w2 where
        "afold (replace_match env build_file self variables) (rev (variable_re_finditer phase s)) (EStr s) w
          = Some (Inr (out, w1))"
        "expand_again self variables out w1 = Some (Inr (out2, w2))" "canonical_integers out2 w2 = Some (Inr (e, w'))"
    using r by (auto simp: settled_text_def variable_re_finditer_def no_symbol_no_match split: if_splits)
  then have "steps phase w w' \<and> good_expanded phase w' e"
  proof cases
    case 3
    note 1 = matches_ok[OF assms(1) 3(1) assms(3,4)]
    note 2 = expand_again_ok[OF assms(1) 3(2) steps_ok[OF 1(1)] steps_vars[OF 1(1) assms(4)] 1(2)]
    note c = canonical_integers_ok[OF 3(3) 2(2)]
    from steps_trans[OF 1(1) 2(1)] c show ?thesis by simp
  qed (use assms(3) in \<open>simp_all add: good_expanded_def steps_refl\<close>)
  then show "steps phase w w'" "good_expanded phase w' e" by blast+
qed

section \<open>Conditions\<close>

lemma eval_condition_world: "eval_condition env build_file s variables w = Some (Inr (b, w')) \<Longrightarrow> w' = w"
  by (auto simp: eval_condition_def)

lemma merge_steps:
  assumes "h_MergeDicts rp g a d f f (objects w) = Inr h" "store_ok (objects w)" "is_dobj (objects w) a"
    and "settled phase (objects w) v" "value_of (objects w) v = Some (PDict d)"
  shows "steps phase w (w\<lparr>objects := h\<rparr>)"
  using h_MergeDicts_loop_spec[OF assms(2,3) read_settled[OF assms(2,4,5)] assms(1)[unfolded h_MergeDicts_def]]
  by (simp add: steps_def)

lemma merge_branch_ok:
  assumes "caller_ok phase self" "merge_branch env build_file self a md variables w = Some (Inr (u, w'))"
    and "store_ok (objects w)" "vars_ok w variables" "is_dobj (objects w) a" "valid (objects w) md"
  shows "steps phase w w'"
proof (cases "md = HNone")
  case True
  with assms(2,3) show ?thesis by (simp add: merge_branch_def steps_refl)
next
  case False
  with assms(2) obtain w1 fro where
    p: "process_call self (InDict md None) variables w = Some (Inr ((), w1))" and
    t: "value_of (objects w1) md = Some fro" and
    m: "(case fro of
          PDict d \<Rightarrow>
            abind state (\<lambda>w.
            abind (of_res (h_MergeDicts (env_realpath env) (env_globals env) a d
                             build_file build_file (objects w))) (\<lambda>h.
              change (\<lambda>w. w\<lparr>objects := h\<rparr>)))
        | _ \<Rightarrow> throw (no_attribute (class_name fro) ''iteritems'')) w1 = Some (Inr (u, w'))"
    unfolding merge_branch_def if_not_P[OF False] by auto
  note 1 = in_dict_ok[OF assms(1) p assms(3,4,6)]
  from m obtain d h where d: "fro = PDict d" and
    h: "h_MergeDicts (env_realpath env) (env_globals env) a d build_file build_file (objects w1) = Inr h"
      "w' = w1\<lparr>objects := h\<rparr>" by (cases fro) auto
  from merge_steps[OF h(1) steps_ok[OF 1(1)] steps_kind(2)[OF 1(1) assms(5)] 1(2) t[unfolded d]] h(2)
  show ?thesis using steps_trans[OF 1(1)] by simp
qed

lemma process_condition_ok:
  assumes "caller_ok phase self" "process_condition env build_file self key a cond variables w = Some (Inr (u, w'))"
    and "store_ok (objects w)" "vars_ok w variables" "is_dobj (objects w) a" "\<forall>v \<in> set cond. valid (objects w) v"
  shows "steps phase w w'"
proof -
  define false_dict where "false_dict = (if length cond = 3 then cond ! 2 else HNone)"
  from assms(2) have len: "length cond = 2 \<or> length cond = 3"
    by (cases "length cond = 2 \<or> length cond = 3") (auto simp: process_condition_def)
  then have v: "valid (objects w) (cond ! 0)" "valid (objects w) (cond ! 1)" "valid (objects w) false_dict"
    using assms(6) by (auto simp: false_dict_def)
  from len have "\<not> (length cond \<noteq> 2 \<and> length cond \<noteq> 3)" by blast
  from assms(2)[unfolded process_condition_def if_not_P[OF this] Let_def false_dict_def[symmetric] abind_Inr]
  obtain e w1 where
    e: "expand_call self (cond ! 0) variables w = Some (Inr (e, w1))" and
    r: "(case e of
            EList l \<Rightarrow> throw (NameError ''expanded'')
          | EInt i \<Rightarrow> throw (TypeError ''compile() arg 1 must be a string'')
          | EStr s \<Rightarrow>
              abind (eval_condition env build_file s variables) (\<lambda>b.
                merge_branch env build_file self a (if b then cond ! 1 else false_dict) variables)) w1
        = Some (Inr (u, w'))"
    by blast
  note 1 = expand_call_ok(1)[OF assms(1) e assms(3,4) v(1)]
  from r obtain s where "e = EStr s" by (cases e) auto
  with r obtain b where
    m: "merge_branch env build_file self a (if b then cond ! 1 else false_dict) variables w1 = Some (Inr (u, w'))"
    by (auto simp del: act_simps(3) simp: abind_Inr dest!: eval_condition_world)
  have "valid (objects w1) (if b then cond ! 1 else false_dict)" using steps_valid[OF 1] v by simp
  from merge_branch_ok[OF assms(1) m steps_ok[OF 1] steps_vars[OF 1 assms(4)] steps_kind(2)[OF 1 assms(5)] this]
  show ?thesis using steps_trans[OF 1] by blast
qed

lemma ConditionsFrom_body_ok:
  assumes "caller_ok phase self"
    and "ConditionsFrom_body env phase build_file self a l i variables w = Some (Inr (u, w'))"
    and "store_ok (objects w)" "vars_ok w variables" "is_dobj (objects w) a" "is_lobj (objects w) l"
  shows "steps phase w w'"
proof (cases "i < length (list_obj (objects w) l)")
  case False
  with assms(2,3) show ?thesis by (simp add: ConditionsFrom_body_def Let_def steps_refl)
next
  case True
  then have item: "list_obj (objects w) l ! i \<in> set (list_obj (objects w) l)" by simp
  from True assms(2) obtain c where c: "list_obj (objects w) l ! i = HList c"
    by (cases "list_obj (objects w) l ! i") (auto simp: ConditionsFrom_body_def Let_def)
  from True assms(2) c obtain key w1 where
    p: "process_condition env build_file self key a (list_obj (objects w) c) variables w = Some (Inr ((), w1))" and
    r: "process_call self (ConditionsFrom a l (Suc i)) variables w1 = Some (Inr (u, w'))"
    by (auto simp: ConditionsFrom_body_def Let_def)
  have "\<forall>v \<in> set (list_obj (objects w) c). valid (objects w) v"
    using store_ok_children[OF assms(3) children_list] by blast
  note 1 = process_condition_ok[OF assms(1) p assms(3-5) this]
  from process_call_ok[OF assms(1) r] steps_ok[OF 1] steps_vars[OF 1 assms(4)] steps_kind[OF 1] assms(5,6)
  have "steps phase w1 w'" by (auto simp: call_pre_def call_post_def)
  with 1 show ?thesis by (rule steps_trans)
qed

lemma ProcessConditionsInDict_body_ok:
  assumes "caller_ok phase self" "ProcessConditionsInDict_body phase self a variables w = Some (Inr (u, w'))"
    and "store_ok (objects w)" "vars_ok w variables" "is_dobj (objects w) a"
  shows "steps phase w w'"
proof (cases "\<exists>key v. conditions_key phase = Some key \<and> dget (dict_obj (objects w) a) key = Some v")
  case False
  with assms(2,3) show ?thesis
    by (auto simp: ProcessConditionsInDict_body_def steps_refl split: option.splits)
next
  case True
  then obtain key v where key: "conditions_key phase = Some key" "dget (dict_obj (objects w) a) key = Some v" by blast
  let ?w = "w\<lparr>objects := (objects w)[a := DObj (ddel key (dict_obj (objects w) a))]\<rparr>"
  have 1: "steps phase w ?w" using dict_delete[OF assms(3,5)] by (simp add: steps_def)
  show ?thesis
  proof (cases "\<exists>l. v = HList l")
    case True
    then obtain l where l: "v = HList l" ..
    with assms(2) key have r: "process_call self (ConditionsFrom a l 0) variables ?w = Some (Inr (u, w'))"
      by (simp add: ProcessConditionsInDict_body_def)
    have "is_lobj (objects w) l" using dget_valid[OF assms(3) key(2)] l by simp
    with process_call_ok[OF assms(1) r] steps_ok[OF 1] steps_vars[OF 1 assms(4)] steps_kind[OF 1] assms(5)
    have "steps phase ?w w'" by (auto simp: call_pre_def call_post_def)
    with 1 show ?thesis by (rule steps_trans)
  next
    case False
    with assms(2) key have "w' = ?w"
      by (cases v) (auto simp: ProcessConditionsInDict_body_def split: if_splits)
    with 1 show ?thesis by simp
  qed
qed

section \<open>Variables\<close>

lemma obj_ok_dset:
  assumes "obj_ok h (DObj d)" "valid h v" "CHR ''+'' \<notin> set k"
  shows "obj_ok h (DObj (dset k v d))"
  using assms set_dset[of k v d] wf_dict_dset[of d k v] by (auto simp: obj_ok_def wf_dict_def dkeys_dset)

lemma obj_ok_member:
  "obj_ok h (DObj d) \<Longrightarrow> kv \<in> set d \<Longrightarrow> valid h (snd kv) \<and> CHR ''+'' \<notin> set (fst kv)"
  by (auto simp: obj_ok_def)

lemma obj_ok_fold:
  assumes "\<And>kv vars. kv \<in> set d \<Longrightarrow> obj_ok h (DObj vars) \<Longrightarrow> obj_ok h (DObj (f kv vars))" "obj_ok h (DObj variables)"
  shows "obj_ok h (DObj (fold f d variables))"
  using assms by (induction d arbitrary: variables) auto

lemma automatics_ok:
  assumes "obj_ok h (DObj variables)" "obj_ok h (DObj d)"
  shows "obj_ok h (DObj (LoadAutomaticVariablesFromDict P variables d))"
  unfolding LoadAutomaticVariablesFromDict_def
proof (rule obj_ok_fold[OF _ assms(1)])
  fix kv vars assume "kv \<in> set d" "obj_ok h (DObj vars)"
  then show "obj_ok h (DObj (automatic_variable P kv vars))"
    using obj_ok_member[OF assms(2)] obj_ok_dset by (auto simp: automatic_variable_def)
qed

lemma load_variable_ok:
  assumes "obj_ok h (DObj variables)" "obj_ok h (DObj the_dict)" "valid h (snd kv)" "CHR ''+'' \<notin> set (fst kv)"
  shows "obj_ok h (DObj (load_variable P the_dict key kv variables))"
proof -
  obtain k v where kv: "kv = (k, v)" by fastforce
  have k: "CHR ''+'' \<notin> set (butlast k)" using assms(4) kv by (auto dest: in_set_butlastD)
  have "valid h (the (dget the_dict n))" if "dhas the_dict n" for n
    using that assms(2) obj_ok_member[of h the_dict] by (force simp: dhas_def dest: map_of_SomeD)
  with assms k show ?thesis by (auto simp: load_variable_def kv Let_def intro!: obj_ok_dset)
qed

lemma load_variables_ok:
  assumes "load_variables a key variables w = Some (Inr (vars, w'))" "store_ok (objects w)" "vars_ok w variables"
  shows "w' = w" "vars_ok w vars"
proof -
  let ?d = "dict_obj (objects w) a"
  from assms(1) obtain items where
    i: "(case dget ?d ''variables'' of None \<Rightarrow> Inr [] | Some v \<Rightarrow> h_items (objects w) v) = Inr items"
    and v: "w' = w" "vars = fold (load_variable h_variable_value ?d key) items variables"
    by (auto simp: load_variables_def LoadVariablesFromVariablesDict_def)
  have "items = [] \<or> (\<exists>b. items = dict_obj (objects w) b)"
    using i by (auto simp: h_items_def split: option.splits hval.splits)
  then have "obj_ok (objects w) (DObj items)" using dict_obj_ok[OF assms(2)] by (auto simp: obj_ok_def)
  then show "w' = w" "vars_ok w vars"
    unfolding v using obj_ok_member load_variable_ok dict_obj_ok[OF assms(2)]
    by (auto intro!: obj_ok_fold[OF _ assms(3)])
qed

lemma automatic_variables_ok:
  assumes "automatic_variables a variables w = Some (Inr (vars, w'))" "store_ok (objects w)" "vars_ok w variables"
  shows "w' = w" "vars_ok w vars"
  using assms automatics_ok[OF assms(3) dict_obj_ok[OF assms(2)]] by (auto simp: automatic_variables_def)

lemma reload_variables_ok:
  assumes "reload_variables a key variables w = Some (Inr (vars, w'))" "store_ok (objects w)" "vars_ok w variables"
  shows "w' = w" "vars_ok w vars"
proof -
  from assms(1) obtain v1 w1 where 1: "automatic_variables a variables w = Some (Inr (v1, w1))"
    and 2: "load_variables a key v1 w1 = Some (Inr (vars, w'))"
    unfolding reload_variables_def abind_Inr by blast
  note a = automatic_variables_ok[OF 1 assms(2,3)]
  show "w' = w" "vars_ok w vars" using load_variables_ok[OF 2] a assms(2) by auto
qed

text \<open>Entries that are settled, and entries that are settled if they are texts.\<close>

definition good_entry :: "phase \<Rightarrow> world \<Rightarrow> nat \<Rightarrow> string \<Rightarrow> bool" where
  "good_entry phase w a k \<longleftrightarrow> (\<forall>v. dget (dict_obj (objects w) a) k = Some v \<longrightarrow> settled phase (objects w) v)"

definition good_text :: "phase \<Rightarrow> world \<Rightarrow> nat \<Rightarrow> string \<Rightarrow> bool" where
  "good_text phase w a k \<longleftrightarrow> (\<forall>s. dget (dict_obj (objects w) a) k = Some (HStr s) \<longrightarrow> settled_text phase s)"

lemma steps_good_entry:
  "steps phase w w' \<Longrightarrow> is_dobj (objects w) a \<Longrightarrow> good_entry phase w a k \<Longrightarrow> good_entry phase w' a k"
  unfolding good_entry_def using steps_entry steps_settled by blast

lemma steps_good_text:
  "steps phase w w' \<Longrightarrow> is_dobj (objects w) a \<Longrightarrow> good_text phase w a k \<Longrightarrow> good_text phase w' a k"
  unfolding good_text_def using steps_entry settled_simps(1) by blast

lemma process_variables_ok:
  assumes "caller_ok phase self" "process_variables self a variables w = Some (Inr (vars, w'))"
    and "store_ok (objects w)" "vars_ok w variables" "is_dobj (objects w) a"
  shows "steps phase w w'" "vars_ok w' vars" "good_entry phase w' a ''variables''"
proof -
  have "steps phase w w' \<and> vars_ok w' vars \<and> good_entry phase w' a ''variables''"
  proof (cases "dget (dict_obj (objects w) a) ''variables''")
    case None
    with assms show ?thesis by (simp add: process_variables_def steps_refl good_entry_def)
  next
    case (Some v)
    with assms(2) obtain items where
      items: "h_items (objects w) v = Inr items" "vars = fold (\<lambda>(k, x). dset k x) items variables" and
      p: "process_call self (InDict v (Some ''variables'')) vars w = Some (Inr ((), w'))"
      by (auto simp: process_variables_def Let_def)
    from items(1) obtain b where b: "items = dict_obj (objects w) b" by (cases v) (auto simp: h_items_def)
    have vars: "vars_ok w vars"
      unfolding items(2)
      by (rule obj_ok_fold[OF _ assms(4)]) (use obj_ok_member[OF dict_obj_ok[OF assms(3)]] b in \<open>auto intro!: obj_ok_dset\<close>)
    note 1 = in_dict_ok[OF assms(1) p assms(3) vars dget_valid[OF assms(3) Some]]
    have "good_entry phase w' a ''variables''"
      unfolding good_entry_def using steps_entry[OF 1(1) assms(5)] Some 1(2) by fastforce
    with 1(1) steps_vars[OF 1(1) vars] show ?thesis by blast
  qed
  then show "steps phase w w'" "vars_ok w' vars" "good_entry phase w' a ''variables''" by blast+
qed

section \<open>Loops over the items of a dictionary\<close>

lemma check_keys_Inr [simp]: "check_keys a ks w = Some (Inr (u, w')) \<longleftrightarrow> dkeys (dict_obj (objects w) a) = ks \<and> w' = w"
  by (auto simp: check_keys_def)

lemma for_items_ok:
  assumes run: "for_items a body w = Some (Inr (u, w'))" and I: "I w"
    and body: "\<And>k v u u'. I u \<Longrightarrow> dget (dict_obj (objects u) a) k = Some v \<Longrightarrow> body k v u = Some (Inr ((), u')) \<Longrightarrow>
      I u' \<and> G k u' \<and> (\<forall>k'. G k' u \<longrightarrow> G k' u')"
  shows "I w' \<and> (\<forall>k \<in> set (dkeys (dict_obj (objects w') a)). G k w')"
proof -
  let ?ks = "dkeys (dict_obj (objects w) a)"
  let ?body = "\<lambda>k (_ :: unit). abind (check_keys a ?ks) (\<lambda>_. abind (get_dict a) (\<lambda>d. body k (the (dget d k))))"
  from run obtain x where loop: "afold ?body ?ks () w = Some (Inr (x, w'))" and
    last_check: "dkeys (dict_obj (objects w') a) = ?ks"
    by (auto simp: for_items_def Let_def)
  have step: "I u' \<and> G k u' \<and> (\<forall>k'. G k' u \<longrightarrow> G k' u')"
    if "k \<in> set ?ks" "I u" "?body k y u = Some (Inr (z, u'))" for k u u' y z
  proof -
    from that(3) have b: "dkeys (dict_obj (objects u) a) = ?ks"
      "body k (the (dget (dict_obj (objects u) a) k)) u = Some (Inr ((), u'))" by auto
    from b(1) that(1) have "dhas (dict_obj (objects u) a) k" by (simp only: dhas_iff)
    then have "dget (dict_obj (objects u) a) k = Some (the (dget (dict_obj (objects u) a) k))" by (auto simp: dhas_def)
    from body[OF that(2) this b(2)] show ?thesis .
  qed
  have "set ks \<subseteq> set ?ks \<Longrightarrow> afold ?body ks y u = Some (Inr (x, w')) \<Longrightarrow> I u \<Longrightarrow>
      I w' \<and> (\<forall>k. k \<in> set ks \<or> G k u \<longrightarrow> G k w')" for ks y u
  proof (induction ks arbitrary: y u)
    case (Cons k ks)
    from Cons.prems(2) obtain z u1 where 1: "?body k y u = Some (Inr (z, u1))" and
      2: "afold ?body ks z u1 = Some (Inr (x, w'))" unfolding afold.simps abind_Inr by blast
    from step[OF _ Cons.prems(3) 1] Cons.prems(1) have s: "I u1" "G k u1" "\<forall>k'. G k' u \<longrightarrow> G k' u1" by auto
    from Cons.IH[OF _ 2 s(1)] Cons.prems(1) s(2,3) show ?case by auto
  qed auto
  from this[OF _ loop I] last_check show ?thesis by simp
qed

section \<open>Dictionaries and lists\<close>

lemma dict_write_steps:
  assumes "store_ok (objects w)" "is_dobj (objects w) a" "settled phase (objects w) x" "CHR ''+'' \<notin> set k"
  shows "steps phase w (w\<lparr>objects := (objects w)[a := DObj (dset k x (dict_obj (objects w) a))]\<rparr>)"
  using dict_write[OF assms] by (simp add: steps_def)

lemma expand_item_ok:
  assumes "caller_ok phase self" "expand_item self a variables k v w = Some (Inr (u, w'))"
    and "store_ok (objects w)" "vars_ok w variables" "is_dobj (objects w) a"
    and v: "dget (dict_obj (objects w) a) k = Some v"
  shows "steps phase w w'" "k \<noteq> ''variables'' \<Longrightarrow> good_text phase w' a k"
proof -
  have "steps phase w w' \<and> (k \<noteq> ''variables'' \<longrightarrow> good_text phase w' a k)"
  proof (cases "k \<noteq> ''variables'' \<and> (\<exists>s. v = HStr s)")
    case False
    with assms show ?thesis by (cases v) (auto simp: expand_item_def steps_refl good_text_def)
  next
    case True
    then obtain s where s: "v = HStr s" by blast
    from assms(2) True s obtain e w1 where
      e: "expand_call self (HStr s) variables w = Some (Inr (e, w1))" and
      r: "(case e of
              EList l \<Rightarrow>
                throw (ValueError (''Variable expansion in this context permits str and int only, found ''
                  @ e_class_name e @ '' for '' @ k))
            | _ \<Rightarrow>
                abind (value_of_expanded e) (\<lambda>x.
                abind (get_dict a) (\<lambda>d. set_dict a (dset k x d)))) w1 = Some (Inr (u, w'))"
      unfolding expand_item_def by auto
    have "valid (objects w) (HStr s)" by simp
    note 1 = expand_call_ok[OF assms(1) e assms(3,4) this]
    from r obtain x w2 where x: "value_of_expanded e w1 = Some (Inr (x, w2))" and
      w': "w' = w2\<lparr>objects := (objects w2)[a := DObj (dset k x (dict_obj (objects w2) a))]\<rparr>"
      by (cases e) auto
    note 2 = value_of_expanded_steps[OF x steps_ok[OF 1(1)] 1(2)]
    note s2 = steps_trans[OF 1(1) 2(1)]
    have k: "CHR ''+'' \<notin> set k"
      by (rule store_ok_keys(2)[OF assms(3), of _ a]) (use map_of_SomeD[OF v] in force)
    have a: "is_dobj (objects w2) a" by (rule steps_kind(2)[OF s2 assms(5)])
    have 3: "steps phase w2 w'" unfolding w' by (rule dict_write_steps[OF steps_ok[OF s2] a 2(2) k])
    have "good_text phase w' a k"
      using 2(2) a by (auto simp: good_text_def w' dobj_below)
    with steps_trans[OF s2 3] show ?thesis by blast
  qed
  then show "steps phase w w'" "k \<noteq> ''variables'' \<Longrightarrow> good_text phase w' a k" by blast+
qed

lemma process_item_ok:
  assumes "caller_ok phase self" "process_item self variables k v w = Some (Inr (u, w'))"
    and "store_ok (objects w)" "vars_ok w variables" "is_dobj (objects w) a"
    and v: "dget (dict_obj (objects w) a) k = Some v" and k: "k \<noteq> ''variables'' \<Longrightarrow> good_text phase w a k"
  shows "steps phase w w'" "k \<noteq> ''variables'' \<Longrightarrow> good_entry phase w' a k"
proof -
  have later: "good_entry phase u' a k" if "steps phase w u'" "settled phase (objects u') v" for u'
    unfolding good_entry_def using steps_entry[OF that(1) assms(5)] v that(2) by fastforce
  note valid = dget_valid[OF assms(3) v]
  have "steps phase w w' \<and> (k \<noteq> ''variables'' \<longrightarrow> good_entry phase w' a k)"
  proof (cases "k = ''variables''")
    case True
    with assms(2,3) show ?thesis by (simp add: process_item_def steps_refl)
  next
    case False
    show ?thesis
    proof (cases v)
      case (HDict b)
      with assms(2) False have p: "process_call self (InDict v (Some k)) variables w = Some (Inr (u, w'))"
        by (simp add: process_item_def)
      from in_dict_ok[OF assms(1) p assms(3,4) valid] later show ?thesis by blast
    next
      case (HList b)
      with assms(2) False have p: "process_call self (InList b 0) variables w = Some (Inr (u, w'))"
        by (simp add: process_item_def)
      have "is_lobj (objects w) b" "good_prefix phase (objects w) b 0" using valid HList by (simp_all add: good_prefix_def)
      from in_list_ok[OF assms(1) p assms(3,4) this] later HList show ?thesis by blast
    next
      case (HStr s)
      with assms(2,3) False k v later[of w] show ?thesis
        by (auto simp: process_item_def steps_refl good_text_def)
    next
      case (HInt i)
      with assms(2,3) False later[of w] show ?thesis by (auto simp: process_item_def steps_refl)
    next
      case HNone
      with assms(2) False show ?thesis by (simp add: process_item_def)
    qed
  qed
  then show "steps phase w w'" "k \<noteq> ''variables'' \<Longrightarrow> good_entry phase w' a k" by blast+
qed

text \<open>The first loop settles the texts, the second one the lists and dictionaries.\<close>

lemma expand_items_of_dict_ok:
  assumes self: "caller_ok phase self"
    and run: "for_items a (expand_item self a variables) w = Some (Inr (u, w'))"
    and pre: "store_ok (objects w)" "vars_ok w variables" "is_dobj (objects w) a"
  shows "steps phase w w'" "\<And>k. k \<noteq> ''variables'' \<Longrightarrow> good_text phase w' a k"
proof -
  let ?I = "\<lambda>u. steps phase w u" and ?G = "\<lambda>k u. k \<noteq> ''variables'' \<longrightarrow> good_text phase u a k"
  have "?I w' \<and> (\<forall>k \<in> set (dkeys (dict_obj (objects w') a)). ?G k w')"
  proof (rule for_items_ok[OF run, where I = ?I and G = ?G])
    fix k v u u' assume I: "?I u" and v: "dget (dict_obj (objects u) a) k = Some v"
      and e: "expand_item self a variables k v u = Some (Inr ((), u'))"
    note a = steps_kind(2)[OF I pre(3)]
    note s = expand_item_ok[OF self e steps_ok[OF I] steps_vars[OF I pre(2)] a v]
    show "?I u' \<and> ?G k u' \<and> (\<forall>k'. ?G k' u \<longrightarrow> ?G k' u')"
      using s steps_trans[OF I s(1)] steps_good_text[OF s(1) a] by blast
  qed (use pre in \<open>simp add: steps_refl\<close>)
  moreover have "good_text phase w' a k" if "k \<notin> set (dkeys (dict_obj (objects w') a))" for k
  proof -
    from that have "dget (dict_obj (objects w') a) k = None" by (simp add: map_of_eq_None_iff)
    then show ?thesis by (simp add: good_text_def)
  qed
  ultimately show "steps phase w w'" "\<And>k. k \<noteq> ''variables'' \<Longrightarrow> good_text phase w' a k" by blast+
qed

lemma process_items_of_dict_ok:
  assumes self: "caller_ok phase self"
    and run: "for_items a (process_item self variables) w = Some (Inr (u, w'))"
    and pre: "store_ok (objects w)" "vars_ok w variables" "is_dobj (objects w) a"
    and texts: "\<And>k. k \<noteq> ''variables'' \<Longrightarrow> good_text phase w a k" "good_entry phase w a ''variables''"
  shows "steps phase w w'" "settled phase (objects w') (HDict a)"
proof -
  let ?I = "\<lambda>u. steps phase w u"
    and ?G = "\<lambda>k u. k \<noteq> ''variables'' \<longrightarrow> good_entry phase u a k"
  have G: "?I w' \<and> (\<forall>k \<in> set (dkeys (dict_obj (objects w') a)). ?G k w')"
  proof (rule for_items_ok[OF run, where I = ?I and G = ?G])
    fix k v u u' assume I: "?I u" and v: "dget (dict_obj (objects u) a) k = Some v"
      and e: "process_item self variables k v u = Some (Inr ((), u'))"
    note a = steps_kind(2)[OF I pre(3)]
    have t: "k \<noteq> ''variables'' \<Longrightarrow> good_text phase u a k" by (rule steps_good_text[OF I pre(3) texts(1)])
    note s = process_item_ok[OF self e steps_ok[OF I] steps_vars[OF I pre(2)] a v t]
    show "?I u' \<and> ?G k u' \<and> (\<forall>k'. ?G k' u \<longrightarrow> ?G k' u')"
      using s steps_trans[OF I s(1)] steps_good_entry[OF s(1) a] by blast
  qed (use pre in \<open>simp add: steps_refl\<close>)
  then show steps: "steps phase w w'" by blast
  have "settled phase (objects w') (snd kv)" if "kv \<in> set (dict_obj (objects w') a)" for kv
  proof -
    have "good_entry phase w' a (fst kv)"
      using G that steps_good_entry[OF steps pre(3) texts(2)] by (cases "fst kv = ''variables''") auto
    moreover have "dget (dict_obj (objects w') a) (fst kv) = Some (snd kv)"
      using that store_ok_keys(1)[OF steps_ok[OF steps]] by simp
    ultimately show ?thesis by (simp add: good_entry_def)
  qed
  then show "settled phase (objects w') (HDict a)"
    using steps_kind(2)[OF steps pre(3)] by (auto intro: settled.HDict)
qed

lemma InDict_body_ok:
  assumes self: "caller_ok phase self" and run: "InDict_body self v key variables w = Some (Inr (u, w'))"
    and pre: "store_ok (objects w)" "vars_ok w variables" "valid (objects w) v"
  shows "steps phase w w'" "settled phase (objects w') v"
proof -
  from run obtain a where v: "v = HDict a" by (cases v) (auto simp: InDict_body_def)
  with pre have a: "is_dobj (objects w) a" by simp
  from run[unfolded InDict_body_def v hval.case abind_Inr] obtain va wa vl wl v1 w1 w2 v2 w2' w3 v3 w3' where
    1: "automatic_variables a variables w = Some (Inr (va, wa))" and
    2: "process_variables self a va wa = Some (Inr (vl, wl))" and
    3: "load_variables a key vl wl = Some (Inr (v1, w1))" and
    4: "for_items a (expand_item self a v1) w1 = Some (Inr ((), w2))" and
    5: "reload_variables a key variables w2 = Some (Inr (v2, w2'))" and
    6: "process_call self (Conditions a) v2 w2' = Some (Inr ((), w3))" and
    7: "reload_variables a key variables w3 = Some (Inr (v3, w3'))" and
    8: "for_items a (process_item self v3) w3' = Some (Inr (u, w'))"
    by auto
  note r1 = automatic_variables_ok[OF 1 pre(1,2)]
  have r2: "steps phase w wl" "vars_ok wl vl" "good_entry phase wl a ''variables''"
    using process_variables_ok[OF self 2] r1 pre(1) a by simp_all
  note r3 = load_variables_ok[OF 3 steps_ok[OF r2(1)] r2(2)]
  have r4: "steps phase wl w2" "\<And>k. k \<noteq> ''variables'' \<Longrightarrow> good_text phase w2 a k"
    using expand_items_of_dict_ok[OF self 4] r3 steps_ok[OF r2(1)] steps_kind(2)[OF r2(1) a] by simp_all
  note s2 = steps_trans[OF r2(1) r4(1)]
  note r5 = reload_variables_ok[OF 5 steps_ok[OF s2] steps_vars[OF s2 pre(2)]]
  have r6: "steps phase w2 w3"
    using process_call_ok[OF self 6] r5 steps_ok[OF s2] steps_kind(2)[OF s2 a]
    by (auto simp: call_pre_def call_post_def)
  note s3 = steps_trans[OF s2 r6]
  note r7 = reload_variables_ok[OF 7 steps_ok[OF s3] steps_vars[OF s3 pre(2)]]
  have texts: "good_text phase w3 a k" if "k \<noteq> ''variables''" for k
    by (rule steps_good_text[OF r6 steps_kind(2)[OF s2 a] r4(2)[OF that]])
  have entry: "good_entry phase w3 a ''variables''"
    by (rule steps_good_entry[OF steps_trans[OF r4(1) r6] steps_kind(2)[OF r2(1) a] r2(3)])
  have r8: "steps phase w3 w'" "settled phase (objects w') (HDict a)"
    using process_items_of_dict_ok[OF self 8] r7 steps_ok[OF s3] steps_kind(2)[OF s3 a] texts entry by simp_all
  show "steps phase w w'" by (rule steps_trans[OF s3 r8(1)])
  show "settled phase (objects w') v" using r8(2) v by simp
qed

lemma take_Suc_settled:
  "good_prefix phase h a i \<Longrightarrow> i < length (list_obj h a) \<Longrightarrow> settled phase h (list_obj h a ! i) \<Longrightarrow>
    good_prefix phase h a (Suc i)"
  by (simp add: good_prefix_def take_Suc_conv_app_nth)

text \<open>While one item is processed, the list stays as it is up to that item, or is settled as a whole.\<close>

lemma steps_prefix:
  assumes st: "steps phase w w'" and a: "is_lobj (objects w) a" and i: "i < length (list_obj (objects w) a)"
    and pre: "good_prefix phase (objects w) a i"
  shows "good_prefix phase (objects w') a i"
    and "settled phase (objects w') (list_obj (objects w) a ! i) \<Longrightarrow> good_prefix phase (objects w') a (Suc i)"
proof -
  have all: "good_prefix phase (objects w') a n" if "settled phase (objects w') (HList a)" for n
    using settled_item[OF that] by (auto simp: good_prefix_def dest: in_set_takeD)
  from steps_list[OF st a] consider "settled phase (objects w') (HList a)"
    | ys where "list_obj (objects w') a = list_obj (objects w) a @ ys" by blast
  then have "good_prefix phase (objects w') a i
    \<and> (settled phase (objects w') (list_obj (objects w) a ! i) \<longrightarrow> good_prefix phase (objects w') a (Suc i))"
  proof cases
    case 2
    have "good_prefix phase (objects w') a i"
      using pre i steps_settled[OF st] by (auto simp: good_prefix_def 2)
    with take_Suc_settled[of phase "objects w'" a i] i show ?thesis by (simp add: 2 nth_append)
  qed (use all in blast)
  then show "good_prefix phase (objects w') a i"
    and "settled phase (objects w') (list_obj (objects w) a ! i) \<Longrightarrow> good_prefix phase (objects w') a (Suc i)"
    by blast+
qed

text \<open>Replacing the item of a list by settled items, and going on behind them.\<close>

lemma splice_ok:
  assumes self: "caller_ok phase self" and st: "steps phase w w1"
    and pre: "vars_ok w variables" "is_lobj (objects w) a" "i < length (list_obj (objects w) a)"
      "good_prefix phase (objects w) a i"
    and l: "\<forall>x \<in> set l. settled phase (objects w1) x"
    and w2: "w2 = w1\<lparr>objects := (objects w1)[a := LObj (take i (list_obj (objects w1) a) @ l @ drop (Suc i) (list_obj (objects w1) a))]\<rparr>"
    and r: "process_call self (InList a (i + length l)) variables w2 = Some (Inr (u, w'))"
  shows "steps phase w w'" "settled phase (objects w') (HList a)"
proof -
  let ?l1 = "list_obj (objects w1) a"
  let ?l2 = "take i ?l1 @ l @ drop (Suc i) ?l1"
  have a1: "is_lobj (objects w1) a" by (rule steps_kind(1)[OF st pre(2)])
  have items: "v \<in> set ?l1 \<or> settled phase (objects w1) v" if "v \<in> set ?l2" for v
    using that l by (auto dest: in_set_takeD in_set_dropD)
  have lw: "store_ok (objects w2)" "grows phase {a} (objects w1) (objects w2)"
  proof -
    have "objects w2 = (objects w1)[a := LObj ?l2]" by (simp add: w2)
    then show "store_ok (objects w2)" "grows phase {a} (objects w1) (objects w2)"
      using list_write[where h = "objects w1" and a = a and l = ?l2 and X = "{a}", OF steps_ok[OF st] a1 items]
      by (simp_all only: insert_iff simp_thms)
  qed
  have l2: "list_obj (objects w2) a = ?l2" using lobj_below[OF a1] by (simp add: w2)
  have len1: "i \<le> length ?l1 \<or> settled phase (objects w1) (HList a)"
    using steps_list[OF st pre(2)] pre(3) by auto
  have p1: "good_prefix phase (objects w1) a i" by (rule steps_prefix(1)[OF st pre(2-4)])
  have "good_prefix phase (objects w2) a (i + length l)"
    unfolding good_prefix_def
  proof
    fix v assume v: "v \<in> set (take (i + length l) (list_obj (objects w2) a))"
    have "settled phase (objects w1) v"
      using len1
    proof
      assume "i \<le> length ?l1"
      then have "take (i + length l) ?l2 = take i ?l1 @ l" by simp
      with v l2 p1 l show ?thesis by (auto simp: good_prefix_def)
    next
      assume "settled phase (objects w1) (HList a)"
      with v l2 items settled_item show ?thesis by (metis in_set_takeD)
    qed
    then show "settled phase (objects w2) v" by (rule grows_settled[OF lw(2)])
  qed
  have vars: "vars_ok w2 variables"
    using steps_vars[OF st pre(1)] grows_valid[OF lw(2)] by (auto simp: obj_ok_def)
  note il = in_list_ok[OF self r lw(1) vars grows_kind(1)[OF lw(2) a1] \<open>good_prefix phase (objects w2) a (i + length l)\<close>]
  show "settled phase (objects w') (HList a)" by (rule il(2))
  have "grows phase {a} (objects w2) (objects w')" using il(1) by (auto simp: steps_def grows_def)
  from grows_except[OF grows_trans[OF lw(2) this] il(2)] st il(1) show "steps phase w w'"
    unfolding steps_def by (blast intro: grows_trans)
qed

lemma InList_body_ok:
  assumes self: "caller_ok phase self" and run: "InList_body self a i variables w = Some (Inr (u, w'))"
    and pre: "store_ok (objects w)" "vars_ok w variables" "is_lobj (objects w) a" "good_prefix phase (objects w) a i"
  shows "steps phase w w'" "settled phase (objects w') (HList a)"
proof -
  let ?l = "list_obj (objects w) a"
  have "steps phase w w' \<and> settled phase (objects w') (HList a)"
  proof (cases "i < length ?l")
    case False
    with run pre(4) have "w' = w" "\<forall>v \<in> set ?l. settled phase (objects w) v"
      by (simp_all add: InList_body_def good_prefix_def)
    with pre(1,3) show ?thesis by (simp add: steps_refl settled.HList)
  next
    case i: True
    note prefix = steps_prefix[OF _ pre(3) i pre(4)]
    have item: "valid (objects w) (?l ! i)" by (rule store_ok_children[OF pre(1) children_list, of _ a]) (use i in simp)
    have next_item: ?thesis
      if st: "steps phase w w1" "settled phase (objects w1) (?l ! i)"
        and r: "process_call self (InList a (Suc i)) variables w1 = Some (Inr (u, w'))" for w1
      using in_list_ok[OF self r steps_ok[OF st(1)] steps_vars[OF st(1) pre(2)] steps_kind(1)[OF st(1) pre(3)] prefix(2)[OF st]]
        steps_trans[OF st(1)] by blast
    show ?thesis
    proof (cases "?l ! i")
      case (HInt n)
      with i run next_item[OF steps_refl[OF pre(1)]] show ?thesis by (simp add: InList_body_def)
    next
      case HNone
      with i run show ?thesis by (simp add: InList_body_def)
    next
      case (HDict b)
      with i run obtain w1 where
        1: "process_call self (InDict (?l ! i) None) variables w = Some (Inr ((), w1))" and
        2: "process_call self (InList a (Suc i)) variables w1 = Some (Inr (u, w'))"
        by (auto simp: InList_body_def)
      show ?thesis by (rule next_item[OF in_dict_ok[OF self 1 pre(1,2) item] 2])
    next
      case (HList b)
      with i run obtain w1 where
        1: "process_call self (InList b 0) variables w = Some (Inr ((), w1))" and
        2: "process_call self (InList a (Suc i)) variables w1 = Some (Inr (u, w'))"
        by (auto simp: InList_body_def)
      have b: "is_lobj (objects w) b" "good_prefix phase (objects w) b 0" using item HList by (simp_all add: good_prefix_def)
      note s = in_list_ok[OF self 1 pre(1,2) b]
      show ?thesis by (rule next_item[OF s(1) _ 2]) (use s(2) HList in simp)
    next
      case (HStr t)
      with i run obtain e w1 where
        1: "expand_call self (HStr t) variables w = Some (Inr (e, w1))" and
        2: "(case e of
              EStr s \<Rightarrow>
                abind (set_item_at a (list_obj (objects w1) a) i (HStr s)) (\<lambda>_. process_call self (InList a (Suc i)) variables)
            | EInt n \<Rightarrow>
                abind (set_item_at a (list_obj (objects w1) a) i (HInt n)) (\<lambda>_. process_call self (InList a (Suc i)) variables)
            | EList l \<Rightarrow>
                abind (set_list a (take i (list_obj (objects w1) a) @ l @ drop (Suc i) (list_obj (objects w1) a)))
                  (\<lambda>_. process_call self (InList a (i + length l)) variables)) w1 = Some (Inr (u, w'))"
        by (auto simp: InList_body_def)
      note st = expand_call_ok[OF self 1 pre(1,2)]
      have g: "steps phase w w1" "good_expanded phase w1 e" using st by simp_all
      have one: ?thesis
        if x: "settled phase (objects w1) x" and
          r: "abind (set_item_at a (list_obj (objects w1) a) i x) (\<lambda>_. process_call self (InList a (Suc i)) variables) w1
            = Some (Inr (u, w'))" for x
      proof -
        from r have "i < length (list_obj (objects w1) a)" by (auto simp: set_item_at_def split: if_splits)
        with r have "process_call self (InList a (i + length [x])) variables (w1\<lparr>objects := (objects w1)[a :=
            LObj (take i (list_obj (objects w1) a) @ [x] @ drop (Suc i) (list_obj (objects w1) a))]\<rparr>) = Some (Inr (u, w'))"
          by (simp add: set_item_at_def upd_conv_take_nth_drop)
        from splice_ok[OF self g(1) pre(2,3) i pre(4) _ refl this] x show ?thesis by simp
      qed
      show ?thesis
      proof (cases e)
        case (EStr s)
        with 2 g(2) one[of "HStr s"] show ?thesis by (simp add: good_expanded_def)
      next
        case (EInt n)
        with 2 one[of "HInt n"] show ?thesis by simp
      next
        case (EList l)
        with 2 g(2) splice_ok[OF self g(1) pre(2,3) i pre(4) _ refl, of l] show ?thesis
          by (simp add: good_expanded_def)
      qed
    qed
  qed
  then show "steps phase w w'" "settled phase (objects w') (HList a)" by blast+
qed

section \<open>What expansion leaves\<close>

lemma process_ok:
  "holds (\<lambda>w. w = w0 \<and> call_pre phase c variables w) (process env phase build_file c variables)
    (call_post phase c variables w0)"
proof (rule process_spec)
  fix self :: caller and c variables w0
  assume "\<And>c' v' w'. holds (\<lambda>w. w = w' \<and> call_pre phase c' v' w) (self c' v') (call_post phase c' v' w')"
  then have self: "caller_ok phase self" by (auto simp: caller_ok_def holds_def)
  show "holds (\<lambda>w. w = w0 \<and> call_pre phase c variables w) (call_body env phase build_file self c variables)
    (call_post phase c variables w0)"
  proof (rule holdsI, elim conjE)
    fix w a w'
    assume w: "w = w0" and pre: "call_pre phase c variables w"
      and run: "call_body env phase build_file self c variables w = Some (Inr (a, w'))"
    show "call_post phase c variables w0 a w'"
    proof (cases c)
      case (Expand v)
      with run obtain e where "ExpandVariables_body env phase build_file self v variables w = Some (Inr (e, w'))"
        "a = Expanded e" by (auto simp: call_body_def)
      with ExpandVariables_body_ok[OF self] pre show ?thesis by (simp add: Expand w call_pre_def call_post_def)
    next
      case (InDict v key)
      with run have "InDict_body self v key variables w = Some (Inr ((), w'))" by (auto simp: call_body_def)
      from InDict_body_ok[OF self this] pre show ?thesis by (simp add: InDict w call_pre_def call_post_def)
    next
      case (Conditions b)
      with run have "ProcessConditionsInDict_body phase self b variables w = Some (Inr ((), w'))"
        by (auto simp: call_body_def)
      from ProcessConditionsInDict_body_ok[OF self this] pre show ?thesis
        by (simp add: Conditions w call_pre_def call_post_def)
    next
      case (ConditionsFrom b l i)
      with run have "ConditionsFrom_body env phase build_file self b l i variables w = Some (Inr ((), w'))"
        by (auto simp: call_body_def)
      from ConditionsFrom_body_ok[OF self this] pre show ?thesis
        by (simp add: ConditionsFrom w call_pre_def call_post_def)
    next
      case (InList b i)
      with run have "InList_body self b i variables w = Some (Inr ((), w'))" by (auto simp: call_body_def)
      from InList_body_ok[OF self this] pre show ?thesis by (simp add: InList w call_pre_def call_post_def)
    qed
  qed
qed

lemma ProcessVariablesAndConditionsInDict_settles:
  assumes "ProcessVariablesAndConditionsInDict env v phase variables build_file key w = Some (Inr ((), w'))"
    and "store_ok (objects w)" "vars_ok w variables" "valid (objects w) v"
  shows "steps phase w w'" "settled phase (objects w') v"
proof -
  from assms(1) obtain a where
    run: "process env phase build_file (InDict v key) variables w = Some (Inr (a, w'))"
    by (auto simp: ProcessVariablesAndConditionsInDict_def process_call_def)
  have "w = w \<and> call_pre phase (InDict v key) variables w" using assms(2-4) by (simp add: call_pre_def)
  from holdsD[OF process_ok this run] show "steps phase w w'" "settled phase (objects w') v"
    by (simp_all add: call_post_def)
qed

text \<open>C5.  When the processing of a dictionary returns, no string at any depth of it matches the phase's
  regular expression any more or is the canonical form of an integer: every reference was expanded,
  in values, in lists spliced in, in the branches that conditions merged and in what commands
  printed.  (No key may ask for a prepending merge: such a merge can shorten a list that is being
  walked.)\<close>

theorem expansion_leaves_no_reference:
  assumes "process_dict env phase variables build_file d w = Some (Inr (r, w'))"
    and "dict_ok (\<lambda>_. True) d" "dict_ok (\<lambda>_. True) variables" "store_ok (objects w)"
  shows "dict_ok (\<lambda>s. \<not> IsStrCanonicalInt (PStr s) \<and> variable_re_finditer phase s = []) r"
proof -
  obtain vars h1 where n1: "new_dict variables (objects w) = (vars, h1)" by fastforce
  obtain v h2 where n2: "new_value (PDict d) h1 = (v, h2)" by fastforce
  from assms(1) n1 n2 have "abind (ProcessVariablesAndConditionsInDict env v phase vars build_file None) (\<lambda>_.
      abind (read_tree v) (\<lambda>t. case t of PDict r \<Rightarrow> ret r | _ \<Rightarrow> of_option None)) (w\<lparr>objects := h2\<rparr>) = Some (Inr (r, w'))"
    by (simp add: process_dict_def write_dict_def del: new_value.simps)
  from iffD1[OF abind_Inr this] obtain u w2 where
    "ProcessVariablesAndConditionsInDict env v phase vars build_file None (w\<lparr>objects := h2\<rparr>) = Some (Inr (u, w2))"
    and rest: "abind (read_tree v) (\<lambda>t. case t of PDict r \<Rightarrow> ret r | _ \<Rightarrow> of_option None) w2 = Some (Inr (r, w'))"
    by blast
  then have run: "ProcessVariablesAndConditionsInDict env v phase vars build_file None (w\<lparr>objects := h2\<rparr>)
      = Some (Inr ((), w2))" by simp
  from iffD1[OF abind_Inr rest] obtain t where "value_of (objects w2) v = Some t"
    "(case t of PDict r \<Rightarrow> ret r | _ \<Rightarrow> of_option None) w2 = Some (Inr (r, w'))"
    by (auto simp: read_tree_def)
  then have t: "value_of (objects w2) v = Some (PDict r)" by (cases t) auto
  from new_dict_spec[OF assms(3,4) n1] have 1: "extends (objects w) h1" "obj_ok h1 (DObj vars)" by blast+
  from new_value_spec[OF assms(2) extends_ok[OF 1(1)] n2] have 2: "extends h1 h2" "valid h2 v" by blast+
  have "obj_ok h2 (DObj vars)" using 1(2) grows_valid[OF extends_grows[OF 2(1)]] by (auto simp: obj_ok_def)
  with ProcessVariablesAndConditionsInDict_settles[OF run] extends_ok[OF 2(1)] 2(2)
  have "steps phase (w\<lparr>objects := h2\<rparr>) w2" "settled phase (objects w2) v" by simp_all
  then have "dict_ok (settled_text phase) r" using read_settled[OF _ _ t] steps_ok by blast
  then show ?thesis by (simp add: settled_text_def[abs_def])
qed

definition example_dict :: pydict where
  "example_dict =
     [(''s'', PStr ''-<(x)-''), (''l'', PList [PStr ''<@(y)'', PStr ''<(y)'', PStr ''c'']),
      (''conditions'', PList [PList [PStr ''mac'', PDict [(''l'', PList [PStr ''<(x)''])]]])]"

definition example_variables :: pydict where
  "example_variables = [(''OS'', PStr ''mac''), (''x'', PStr ''1''), (''y'', PList [PStr ''a b'', PStr ''<(x)''])]"

theorem expansion_leaves_no_reference_witness:
  "\<exists>r w'. process_dict example_env PHASE_EARLY example_variables ''d/a.gyp'' example_dict new_world = Some (Inr (r, w'))
    \<and> dget r ''s'' = Some (PStr ''-1-'')
    \<and> dict_ok (\<lambda>s. \<not> IsStrCanonicalInt (PStr s) \<and> variable_re_finditer PHASE_EARLY s = []) r"
proof -
  have "case process_dict example_env PHASE_EARLY example_variables ''d/a.gyp'' example_dict new_world of
      Some (Inr (r, w')) \<Rightarrow> dget r ''s'' = Some (PStr ''-1-'') | _ \<Rightarrow> False" by code_simp
  then obtain r w' where
    run: "process_dict example_env PHASE_EARLY example_variables ''d/a.gyp'' example_dict new_world = Some (Inr (r, w'))"
    and s: "dget r ''s'' = Some (PStr ''-1-'')" by (auto split: option.splits sum.splits)
  have "dict_ok (\<lambda>_. True) example_dict" "dict_ok (\<lambda>_. True) example_variables" by code_simp+
  moreover have "store_ok (objects new_world)" by (rule store_okI) (simp add: new_world_def)
  ultimately show ?thesis using expansion_leaves_no_reference[OF run] run s by blast
qed

end
