(* ===== verification/Gyp_Expand_Text.thy ===== *)
theory Gyp_Expand_Text
  imports Gyp_Expand_Settles
begin

text \<open>
  What expansion does to text: a list put into a string is split into the same list again, a
  reference between other text is replaced by its variable's value, and dictionaries without
  references come back unchanged.
\<close>

section \<open>Lists in strings\<close>

lemma shlex_quoted:
  assumes "CHR 0x60 \<notin> set s"
  shows "shlex_words (Quoted CHR 0x22) q t (escape_sub s @ CHR 0x22 # r) = shlex_words Word True (t @ s) r"
  using assms
proof (induction s arbitrary: q t)
  case (Cons c s)
  have ih: "\<And>q t. shlex_words (Quoted CHR 0x22) q t (escape_sub s @ CHR 0x22 # r) = shlex_words Word True (t @ s) r"
    using Cons by simp
  have nb: "c \<noteq> CHR 0x60" using Cons.prems by auto
  show ?case
  proof (cases "c \<in> escape_chars")
    case True
    with nb show ?thesis using ih[of True "t @ [c]"] by (auto simp: escape_sub_def escape_chars_def)
  next
    case False
    then show ?thesis using ih[of True "t @ [c]"] by (auto simp: escape_sub_def escape_chars_def)
  qed
qed (simp add: escape_sub_def)

definition shlex_special :: "char set" where
  "shlex_special = shlex_whitespace \<union> shlex_quotes \<union> {CHR 0x5C}"

lemma unquoted_not_special:
  "c \<notin> quote_chars \<Longrightarrow> c \<notin> escape_chars \<Longrightarrow> c \<noteq> CHR 0x0D \<Longrightarrow> c \<notin> shlex_special"
  by (auto simp: quote_chars_def escape_chars_def shlex_special_def shlex_whitespace_def shlex_quotes_def)

lemma special_iff [simp]:
  "c \<notin> shlex_special \<longleftrightarrow> c \<notin> shlex_whitespace \<and> c \<notin> shlex_quotes \<and> c \<noteq> CHR 0x5C"
  by (auto simp: shlex_special_def)

lemma backslash_not_special [simp]: "CHR 0x5C \<notin> shlex_whitespace" "CHR 0x5C \<notin> shlex_quotes"
  "CHR 0x22 \<notin> shlex_whitespace" "CHR 0x22 \<in> shlex_quotes" "CHR '' '' \<in> shlex_whitespace"
  by (auto simp: shlex_whitespace_def shlex_quotes_def)

lemma shlex_plain:
  assumes "\<forall>c \<in> set s. c \<notin> quote_chars \<and> c \<noteq> CHR 0x0D"
  shows "shlex_words Word q t (escape_sub s @ r) = shlex_words Word q (t @ s) r"
  using assms
proof (induction s arbitrary: t)
  case (Cons c s)
  have ih: "shlex_words Word q (t @ [c]) (escape_sub s @ r) = shlex_words Word q (t @ c # s) r"
    using Cons by simp
  show ?case
  proof (cases "c \<in> escape_chars")
    case True
    with ih show ?thesis by (simp add: escape_sub_def)
  next
    case False
    with Cons.prems have "c \<notin> shlex_special" using unquoted_not_special by auto
    with False ih show ?thesis by (simp add: escape_sub_def)
  qed
qed (simp add: escape_sub_def)

lemma shlex_argument:
  assumes "CHR 0x60 \<notin> set (py_str a)" "CHR 0x0D \<notin> set (py_str a)"
  shows "\<exists>q. (q \<or> py_str a \<noteq> []) \<and> (\<forall>r.
    shlex_words Blank False [] (EncodePOSIXShellArgument a @ r) = shlex_words Word q (py_str a) r)"
proof (cases "py_str a = [] \<or> (\<exists>c \<in> set (py_str a). c \<in> quote_chars)")
  case True
  then show ?thesis using shlex_quoted[OF assms(1), of False "[]"]
    by (auto simp: EncodePOSIXShellArgument_def Let_def)
next
  case False
  then obtain c s where s: "py_str a = c # s" by (cases "py_str a") auto
  with False assms(2) have plain: "\<forall>d \<in> set s. d \<notin> quote_chars \<and> d \<noteq> CHR 0x0D" and c: "c \<notin> quote_chars" "c \<noteq> CHR 0x0D"
    by auto
  have e: "EncodePOSIXShellArgument a = (if c \<in> escape_chars then [CHR 0x5C, c] else [c]) @ escape_sub s"
    using False s by (simp add: EncodePOSIXShellArgument_def Let_def escape_sub_def)
  show ?thesis
  proof (cases "c \<in> escape_chars")
    case True
    then show ?thesis unfolding e s using shlex_plain[OF plain, of False "[c]"] by auto
  next
    case False
    with c have "c \<notin> shlex_special" using unquoted_not_special by auto
    with False show ?thesis unfolding e s using shlex_plain[OF plain, of False "[c]"] by auto
  qed
qed

text \<open>A list that is put into a string (as \<open><(x)\<close> does) and split again (as \<open><@(x)\<close> does) is the
  same list, whatever its items hold (spaces, quotes, dollar signs, backslashes, nothing at all), but
  for backticks, which \<open>shlex\<close> leaves escaped, and carriage returns, which it takes for separators.\<close>

theorem shlex_split_roundtrip:
  assumes "\<forall>a \<in> set args. CHR 0x60 \<notin> set (py_str a) \<and> CHR 0x0D \<notin> set (py_str a)"
  shows "shlex_split (EncodePOSIXShellList args) = Inr (map py_str args)"
  using assms
proof (induction args)
  case (Cons a args)
  from Cons.prems shlex_argument[of a] obtain q where q: "q \<or> py_str a \<noteq> []"
    "\<And>r. shlex_words Blank False [] (EncodePOSIXShellArgument a @ r) = shlex_words Word q (py_str a) r"
    by auto
  show ?case
  proof (cases "args = []")
    case True
    with q(1) q(2)[of "[]"] show ?thesis
      by (auto simp: EncodePOSIXShellList_def shlex_split_def shlex_emit_def)
  next
    case False
    then have "EncodePOSIXShellList (a # args) = EncodePOSIXShellArgument a @ CHR '' '' # EncodePOSIXShellList args"
      by (simp add: EncodePOSIXShellList_def join_str_Cons)
    with q(1) q(2)[of "CHR '' '' # EncodePOSIXShellList args"] Cons show ?thesis by (auto simp: shlex_split_def)
  qed
qed (simp add: EncodePOSIXShellList_def shlex_split_def shlex_emit_def)

theorem shlex_split_roundtrip_witness:
  "shlex_split (EncodePOSIXShellList [PStr ''a b'', PStr [], PStr ''$x'', PInt 7]) = Inr [''a b'', [], ''$x'', ''7'']"
proof -
  have p: "map py_str [PStr ''a b'', PStr [], PStr ''$x'', PInt 7] = [''a b'', [], ''$x'', ''7'']" by code_simp
  have "\<forall>a \<in> set [PStr ''a b'', PStr [], PStr ''$x'', PInt 7].
      CHR 0x60 \<notin> set (py_str a) \<and> CHR 0x0D \<notin> set (py_str a)" by code_simp
  from shlex_split_roundtrip[OF this] show ?thesis unfolding p .
qed

section \<open>Names of variables\<close>

text \<open>What a text without references expands to.\<close>

definition expanded_text :: "string \<Rightarrow> expanded" where
  "expanded_text s =
     (if IsStrCanonicalInt (PStr s) then (case py_int (PStr s) of Inr i \<Rightarrow> EInt i | Inl e \<Rightarrow> EStr s) else EStr s)"

lemma canonical_int_chars:
  assumes "IsStrCanonicalInt (PStr s)" "c \<in> set s"
  shows "is_digit c \<or> c = CHR ''-'' \<or> c = CHR 0x0A"
proof -
  from assms(1) obtain n where "s = str_of_int n \<or> s = str_of_int n @ [CHR 0x0A]"
    by (auto simp: IsStrCanonicalInt_iff)
  moreover have "is_digit d \<or> d = CHR ''-''" if "d \<in> set (str_of_int n)" for d
    using that str_of_nat_digits by (auto simp: str_of_int_def split: if_splits)
  ultimately show ?thesis using assms(2) by fastforce
qed

lemma symbol_not_canonical: "expansion_symbol phase \<in> set s \<Longrightarrow> \<not> IsStrCanonicalInt (PStr s)"
  using canonical_int_chars[of s "expansion_symbol phase"]
  by (cases phase) (auto simp: is_digit_def less_eq_char_def)

lemma expand_plain:
  assumes "expansion_symbol phase \<notin> set s"
  shows "process env phase build_file (Expand (HStr s)) variables w = Some (Inr (Expanded (expanded_text s), w))"
proof (cases "IsStrCanonicalInt (PStr s)")
  case True
  then obtain i where "py_int (PStr s) = Inr i" by (blast dest: iffD1[OF IsStrCanonicalInt_iff])
  with True show ?thesis
    by (subst process.simps) (simp add: call_body_def ExpandVariables_body_def str_of_value_def expanded_text_def)
next
  case False
  with assms show ?thesis
    by (subst process.simps) (simp add: call_body_def ExpandVariables_body_def str_of_value_def expanded_text_def)
qed

lemma canonical_integers_text: "canonical_integers (expanded_text s) w = Some (Inr (expanded_text s, w))"
proof (cases "IsStrCanonicalInt (PStr s)")
  case True
  then obtain i where "py_int (PStr s) = Inr i" by (blast dest: iffD1[OF IsStrCanonicalInt_iff])
  with True show ?thesis by (simp add: canonical_integers_def expanded_text_def)
qed (simp add: canonical_integers_def expanded_text_def)

lemma find_matches_skip:
  "symbol \<notin> set p \<Longrightarrow> find_matches symbol i (p @ s) = find_matches symbol (i + length p) s"
  by (induction p arbitrary: i) auto

text \<open>A variable's name is made of the characters that a command string may have.\<close>

definition variable_name :: "string \<Rightarrow> bool" where
  "variable_name x \<longleftrightarrow> x \<noteq> [] \<and> (\<forall>c \<in> set x. command_char c) \<and> \<not> IsStrCanonicalInt (PStr x)"

lemma command_char_plain:
  assumes "command_char c"
  shows "\<not> is_space c" "c \<noteq> CHR ''[''" "content_char c" "\<not> is_lbracket c" "opening_of c = None"
    "c \<noteq> expansion_symbol phase"
  using assms by (cases phase; auto simp: command_char_def is_space_def content_char_def is_lbracket_def
    opening_of_def is_alpha_def is_digit_def less_eq_char_def)+

lemma parenthesis_no_command [simp]: "\<not> command_char CHR ''(''"
  by (simp add: command_char_def is_alpha_def is_digit_def less_eq_char_def)

lemma match_variable:
  assumes "variable_name x"
  shows "match_rest (CHR ''('' # x @ CHR '')'' # post) = Some ([], [], [], length x + 2)"
proof -
  from assms obtain c y where x: "x = c # y" "\<forall>d \<in> set x. command_char d"
    by (cases x) (auto simp: variable_name_def)
  have content: "takeWhile content_char (x @ CHR '')'' # post) = x" "dropWhile content_char (x @ CHR '')'' # post) = CHR '')'' # post"
    using x(2) command_char_plain(3) by (auto simp: takeWhile_append2 dropWhile_append2 content_char_def)
  have "takeWhile is_space (x @ CHR '')'' # post) = []" "dropWhile is_space (x @ CHR '')'' # post) = x @ CHR '')'' # post"
    "\<not> prefix ''['' (x @ CHR '')'' # post)"
    using x command_char_plain(1,2)[of c] by auto
  with content show ?thesis by (simp add: match_rest_def match_type_def)
qed

lemma variable_bracket_group:
  assumes "variable_name x"
  shows "FindEnclosingBracketGroup (expansion_symbol phase # CHR ''('' # x @ CHR '')'' # post) = (1, int (length x) + 3)"
proof -
  have skip: "find_group (y @ rest) st start i = find_group rest st start (i + length y)"
    if "\<forall>c \<in> set y. command_char c" for y rest st start i
    using that command_char_plain(4,5) by (induction y arbitrary: i) auto
  have sym: "\<not> is_lbracket (expansion_symbol phase)" "opening_of (expansion_symbol phase) = None"
    by (cases phase; simp add: is_lbracket_def opening_of_def)+
  from assms have "\<forall>c \<in> set x. command_char c" by (simp add: variable_name_def)
  from skip[OF this] sym show ?thesis
    by (simp add: FindEnclosingBracketGroup_def is_lbracket_def opening_of_def)
qed

section \<open>Dictionaries without references\<close>

fun plain_value :: "phase \<Rightarrow> pyval \<Rightarrow> bool" where
  "plain_value phase (PStr s) = settled_text phase s"
| "plain_value phase (PInt i) = True"
| "plain_value phase PNone = False"
| "plain_value phase (PList l) = (\<forall>v \<in> set l. plain_value phase v)"
| "plain_value phase (PDict d) = (\<forall>kv \<in> set d. plain_value phase (snd kv) \<and> Some (fst kv) \<noteq> conditions_key phase
     \<and> (fst kv = ''variables'' \<longrightarrow> class_name (snd kv) = ''dict''))"

lemma class_dict [simp]: "class_name v = ''dict'' \<longleftrightarrow> (\<exists>d. v = PDict d)"
  by (cases v) simp_all

text \<open>An action that returns and changes nothing.\<close>

definition quiet :: "'a wact \<Rightarrow> world \<Rightarrow> bool" where
  "quiet m w \<longleftrightarrow> (\<exists>x. m w = Some (Inr (x, w)))"

lemma quietI: "m w = Some (Inr (x, w)) \<Longrightarrow> quiet m w"
  by (auto simp: quiet_def)

lemma quiet_unit: "quiet m w \<longleftrightarrow> m w = Some (Inr ((), w))"
  by (simp add: quiet_def)

lemma quiet_bind:
  "quiet m w \<Longrightarrow> (\<And>x. m w = Some (Inr (x, w)) \<Longrightarrow> quiet (f x) w) \<Longrightarrow> quiet (abind m f) w"
  by (fastforce simp: quiet_def)

lemma quiet_afold: "(\<And>x b. x \<in> set xs \<Longrightarrow> quiet (f x b) w) \<Longrightarrow> quiet (afold f xs b) w"
  by (induction xs arbitrary: b) (fastforce simp: quiet_def)+

lemma expand_settled_text:
  assumes "settled_text phase s"
  shows "expand_call (process env phase build_file) (HStr s) variables w = Some (Inr (EStr s, w))"
proof -
  have "process env phase build_file (Expand (HStr s)) variables w = Some (Inr (Expanded (EStr s), w))"
    using assms
    by (subst process.simps) (simp add: call_body_def ExpandVariables_body_def str_of_value_def settled_text_def)
  then show ?thesis by (simp add: expand_call_def)
qed

lemma quiet_for_items:
  assumes "\<And>k v. dget (dict_obj (objects w) a) k = Some v \<Longrightarrow> quiet (body k v) w"
  shows "quiet (for_items a body) w"
proof -
  let ?d = "dict_obj (objects w) a"
  have check: "check_keys a (dkeys ?d) w = Some (Inr ((), w))" by simp
  have "quiet (afold (\<lambda>k _. abind (check_keys a (dkeys ?d)) (\<lambda>_. abind (get_dict a) (\<lambda>d. body k (the (dget d k))))) (dkeys ?d) ()) w"
  proof (rule quiet_afold)
    fix k and u :: unit assume "k \<in> set (dkeys ?d)"
    then obtain v where "dget ?d k = Some v" by (metis dhas_def dhas_iff not_None_eq)
    with assms[OF this] check
    show "quiet (abind (check_keys a (dkeys ?d)) (\<lambda>_. abind (get_dict a) (\<lambda>d. body k (the (dget d k))))) w"
      by (simp add: quiet_def get_dict_def del: check_keys_Inr)
  qed
  with check show ?thesis by (simp add: for_items_def get_dict_def Let_def quiet_unit del: check_keys_Inr)
qed

lemma dset_current: "dget d k = Some v \<Longrightarrow> dset k v d = d"
  by (induction d) (auto simp: dset_def split: if_splits)

lemma rewrite_object: "objects w ! a = ob \<Longrightarrow> w\<lparr>objects := (objects w)[a := ob]\<rparr> = w"
  by (metis list_update_id world.surjective world.update_convs(1))

text \<open>What reading an object says about its parts.\<close>

lemma read_list:
  assumes "read_value (Suc m) h (HList a) = Some t" "plain_value phase t"
  obtains l where "a < length h" "h ! a = LObj l"
    "\<And>x. x \<in> set l \<Longrightarrow> \<exists>u. read_value m h x = Some u \<and> plain_value phase u"
proof -
  from assms(1) obtain l ts where l: "a < length h" "h ! a = LObj l" "t = PList ts"
    "map (read_value m h) l = map Some ts"
    by (auto simp: osequence_Some split: if_splits hobj.splits)
  have "\<exists>u. read_value m h x = Some u \<and> plain_value phase u" if "x \<in> set l" for x
  proof -
    from that have "read_value m h x \<in> set (map (read_value m h) l)" by simp
    with l(4) assms(2) l(3) show ?thesis by auto
  qed
  with l(1,2) show ?thesis by (rule that)
qed

lemma read_dict:
  assumes "read_value (Suc m) h (HDict a) = Some t" "plain_value phase t"
  obtains d where "a < length h" "h ! a = DObj d"
    "\<And>k x. (k, x) \<in> set d \<Longrightarrow> Some k \<noteq> conditions_key phase
      \<and> (\<exists>u. read_value m h x = Some u \<and> plain_value phase u \<and> (k = ''variables'' \<longrightarrow> (\<exists>e. u = PDict e)))"
proof -
  from assms(1) obtain d ts where d: "a < length h" "h ! a = DObj d" "t = PDict (zip (map fst d) ts)"
    "map (\<lambda>kv. read_value m h (snd kv)) d = map Some ts"
    by (auto simp: osequence_Some split: if_splits hobj.splits)
  have "Some k \<noteq> conditions_key phase
      \<and> (\<exists>u. read_value m h x = Some u \<and> plain_value phase u \<and> (k = ''variables'' \<longrightarrow> (\<exists>e. u = PDict e)))"
    if "(k, x) \<in> set d" for k x
  proof -
    from that obtain i where i: "i < length d" "d ! i = (k, x)" by (meson in_set_conv_nth)
    have len: "length ts = length d" using arg_cong[OF d(4), of length] by simp
    have "read_value m h x = Some (ts ! i)" using arg_cong[OF d(4), of "\<lambda>xs. xs ! i"] i len by simp
    moreover have "(k, ts ! i) \<in> set (zip (map fst d) ts)" using i len by (force simp: set_zip)
    ultimately show ?thesis using assms(2) d(3) by auto
  qed
  with d(1,2) show ?thesis by (rule that)
qed

lemma dict_value_not_scalar: "read_value m h x = Some (PDict e) \<Longrightarrow> \<exists>b. x = HDict b"
  by (cases x; cases m) (auto split: if_splits hobj.splits)

definition rests :: "expand_env \<Rightarrow> phase \<Rightarrow> string \<Rightarrow> world \<Rightarrow> hval \<Rightarrow> bool" where
  "rests env phase build_file w v \<longleftrightarrow>
     (\<forall>a variables key i.
        (v = HDict a \<longrightarrow> quiet (process_call (process env phase build_file) (InDict v key) variables) w)
        \<and> (v = HList a \<longrightarrow> quiet (process_call (process env phase build_file) (InList a i) variables) w))"

lemma process_callI:
  assumes "quiet (call_body env phase build_file (\<lambda>c variables w. process env phase build_file c variables w) c variables) w"
  shows "quiet (process_call (process env phase build_file) c variables) w"
  unfolding process_call_def
  by (rule quiet_bind) (use assms in \<open>simp_all add: quiet_def process.simps[of env phase build_file c]\<close>)

lemma quiet_in_list:
  assumes ob: "objects w ! a = LObj l" "a < length (objects w)"
    and parts: "\<And>x. x \<in> set l \<Longrightarrow> rests env phase build_file w x"
    and texts: "\<And>s. HStr s \<in> set l \<Longrightarrow> settled_text phase s" and none: "HNone \<notin> set l"
  shows "quiet (process_call (process env phase build_file) (InList a i) variables) w"
proof (induction "length l - i" arbitrary: i rule: less_induct)
  case less
  let ?self = "process env phase build_file"
  have l: "list_obj (objects w) a = l" using ob by (simp add: list_obj_def)
  have "quiet (InList_body ?self a i variables) w"
  proof (cases "length l \<le> i")
    case True
    then show ?thesis by (simp add: quiet_def InList_body_def get_list_def l)
  next
    case False
    then have mem: "l ! i \<in> set l" and i: "i < length l" by simp_all
    from less[of "Suc i"] i have next_: "quiet (process_call ?self (InList a (Suc i)) variables) w" by simp
    show ?thesis
    proof (cases "l ! i")
      case (HStr s)
      with texts[of s] mem have "settled_text phase s" by simp
      moreover have "w\<lparr>objects := (objects w)[a := LObj (l[i := HStr s])]\<rparr> = w"
        using HStr ob by (metis list_update_id rewrite_object)
      ultimately show ?thesis using next_ i HStr
        by (simp add: quiet_def InList_body_def get_list_def l expand_settled_text set_item_at_def set_list_def)
    next
      case (HList b)
      from parts[OF mem] have "quiet (process_call ?self (InList b 0) variables) w" by (auto simp: rests_def HList)
      with next_ i HList show ?thesis by (simp add: quiet_def InList_body_def get_list_def l)
    next
      case (HDict b)
      from parts[OF mem] have "quiet (process_call ?self (InDict (HDict b) None) variables) w"
        by (auto simp: rests_def HDict)
      with next_ i HDict show ?thesis by (simp add: quiet_def InList_body_def get_list_def l)
    qed (use next_ i mem none in \<open>auto simp: quiet_def InList_body_def get_list_def l\<close>)
  qed
  then show ?case by (intro process_callI) (simp add: call_body_def quiet_def)
qed

lemma quiet_load:
  assumes "dget (dict_obj (objects w) a) ''variables'' = None \<or> (\<exists>b. dget (dict_obj (objects w) a) ''variables'' = Some (HDict b))"
  shows "quiet (load_variables a key variables) w" "quiet (reload_variables a key variables) w"
proof -
  have load: "quiet (load_variables a key vs) w" for vs
    using assms by (auto simp: load_variables_def LoadVariablesFromVariablesDict_def quiet_def h_items_def)
  then show "quiet (load_variables a key variables) w" .
  show "quiet (reload_variables a key variables) w" unfolding reload_variables_def
    by (rule quiet_bind) (auto simp: automatic_variables_def get_dict_def quiet_def load[unfolded quiet_def])
qed

lemma quiet_in_dict:
  assumes ob: "objects w ! a = DObj d" "a < length (objects w)"
    and parts: "\<And>k x. (k, x) \<in> set d \<Longrightarrow> rests env phase build_file w x"
    and texts: "\<And>k s. (k, HStr s) \<in> set d \<Longrightarrow> settled_text phase s" and none: "\<And>k. (k, HNone) \<notin> set d"
    and conds: "\<And>k x. (k, x) \<in> set d \<Longrightarrow> Some k \<noteq> conditions_key phase"
    and vars: "\<And>x. (''variables'', x) \<in> set d \<Longrightarrow> \<exists>b. x = HDict b"
  shows "quiet (process_call (process env phase build_file) (InDict (HDict a) key) variables) w"
proof -
  let ?self = "process env phase build_file"
  have d: "dict_obj (objects w) a = d" using ob by (simp add: dict_obj_def)
  have v: "dget d ''variables'' = None \<or> (\<exists>b. dget d ''variables'' = Some (HDict b))"
    using vars map_of_SomeD by (metis not_None_eq)
  have 1: "quiet (process_variables ?self a vs) w" for vs
  proof (cases "dget d ''variables''")
    case (Some x)
    with v obtain b where x: "x = HDict b" by auto
    from parts[OF map_of_SomeD[OF Some]] have "quiet (process_call ?self (InDict (HDict b) (Some ''variables'')) vs') w" for vs'
      by (auto simp: rests_def x)
    then show ?thesis using Some by (simp add: process_variables_def get_dict_def d x h_items_def Let_def quiet_def)
  qed (simp add: process_variables_def get_dict_def d quiet_def)
  have 2: "quiet (expand_item ?self a vs k x) w" if "dget d k = Some x" for vs k x
  proof (cases "\<exists>s. x = HStr s \<and> k \<noteq> ''variables''")
    case True
    then obtain s where s: "x = HStr s" "k \<noteq> ''variables''" by blast
    with texts map_of_SomeD[OF that] have "settled_text phase s" by blast
    moreover have "w\<lparr>objects := (objects w)[a := DObj (dset k x d)]\<rparr> = w"
      using ob dset_current[OF that] by (metis rewrite_object)
    ultimately show ?thesis using s
      by (simp add: expand_item_def expand_settled_text value_of_expanded_def get_dict_def d set_dict_def quiet_def)
  qed (auto simp: expand_item_def quiet_def split: hval.split)
  have 3: "quiet (process_item ?self vs k x) w" if "dget d k = Some x" for vs k x
    using parts[OF map_of_SomeD[OF that]] none[of k] map_of_SomeD[OF that]
    by (cases x) (auto simp: process_item_def rests_def quiet_def)
  have 4: "quiet (process_call ?self (Conditions a) vs) w" for vs
  proof (rule process_callI)
    have "dget d k = None" if "conditions_key phase = Some k" for k
      using conds map_of_SomeD that by (metis not_None_eq)
    then show "quiet (call_body env phase build_file (\<lambda>c variables w. ?self c variables w) (Conditions a) vs) w"
      by (simp add: call_body_def ProcessConditionsInDict_body_def get_dict_def d quiet_def split: option.split)
  qed
  note loads = quiet_load[of w a, unfolded d, OF v]
  have items: "quiet (for_items a body) w" if "\<And>k x. dget d k = Some x \<Longrightarrow> quiet (body k x) w" for body
    using quiet_for_items[of w a body] that by (simp add: d)
  have "quiet (InDict_body ?self (HDict a) key variables) w"
    unfolding InDict_body_def hval.case
    by (intro quiet_bind 1 4 loads items 2 3) (simp_all add: automatic_variables_def get_dict_def quiet_def)
  then show ?thesis by (intro process_callI) (simp add: call_body_def quiet_def)
qed

lemma plain_rests:
  "read_value n (objects w) v = Some t \<Longrightarrow> plain_value phase t \<Longrightarrow> rests env phase build_file w v"
proof (induction n arbitrary: v t)
  case 0
  then show ?case by (cases v) (auto simp: rests_def)
next
  case (Suc n)
  have str: "settled_text phase s" if "read_value m (objects w) (HStr s) = Some u" "plain_value phase u" for m s u
    using that by auto
  have none: "False" if "read_value m (objects w) HNone = Some u" "plain_value phase u" for m u
    using that by auto
  show ?case
  proof (cases v)
    case (HList a)
    from read_list[OF Suc.prems[unfolded HList]] obtain l where l: "a < length (objects w)" "objects w ! a = LObj l"
      "\<And>x. x \<in> set l \<Longrightarrow> \<exists>u. read_value n (objects w) x = Some u \<and> plain_value phase u" by blast
    have "rests env phase build_file w x" if "x \<in> set l" for x using l(3)[OF that] Suc.IH by blast
    moreover have "settled_text phase s" if "HStr s \<in> set l" for s using l(3)[OF that] str by blast
    moreover have "HNone \<notin> set l" using l(3) none by blast
    ultimately show ?thesis using quiet_in_list[OF l(2,1)] by (simp add: rests_def HList)
  next
    case (HDict a)
    from read_dict[OF Suc.prems[unfolded HDict]] obtain d where d: "a < length (objects w)" "objects w ! a = DObj d"
      "\<And>k x. (k, x) \<in> set d \<Longrightarrow> Some k \<noteq> conditions_key phase
        \<and> (\<exists>u. read_value n (objects w) x = Some u \<and> plain_value phase u \<and> (k = ''variables'' \<longrightarrow> (\<exists>e. u = PDict e)))"
      by blast
    have "rests env phase build_file w x" if "(k, x) \<in> set d" for k x using d(3)[OF that] Suc.IH by blast
    moreover have "settled_text phase s" if "(k, HStr s) \<in> set d" for k s using d(3)[OF that] str by blast
    moreover have "(k, HNone) \<notin> set d" for k using d(3) none by blast
    moreover have "\<exists>b. x = HDict b" if "(''variables'', x) \<in> set d" for x
      using d(3)[OF that] dict_value_not_scalar by blast
    ultimately show ?thesis using quiet_in_dict[OF d(2,1)] d(3) by (simp add: rests_def HDict)
  qed (simp_all add: rests_def)
qed

text \<open>A tree that was put into the store is read back.\<close>

lemma read_values_new:
  assumes "new_values f vs h = (xs, h')"
    and "\<And>v g x g'. v \<in> set vs \<Longrightarrow> f v g = (x, g') \<Longrightarrow>
      \<exists>obs. g' = g @ obs \<and> (\<forall>ext n. length obs \<le> n \<longrightarrow> read_value n (g' @ ext) x = Some (tree v))"
  shows "\<exists>obs. h' = h @ obs \<and> length xs = length vs
    \<and> (\<forall>ext n. length obs \<le> n \<longrightarrow> map (read_value n (h' @ ext)) xs = map (\<lambda>v. Some (tree v)) vs)"
  using assms
proof (induction vs arbitrary: h xs)
  case (Cons v vs)
  from Cons.prems(1) obtain x h1 ys where
    1: "f v h = (x, h1)" "new_values f vs h1 = (ys, h')" "xs = x # ys" by (auto split: prod.splits)
  from Cons.prems(2)[of v, OF _ 1(1)] obtain o1 where
    o1: "h1 = h @ o1" "\<And>ext n. length o1 \<le> n \<Longrightarrow> read_value n (h1 @ ext) x = Some (tree v)" by auto
  from Cons.IH[OF 1(2) Cons.prems(2)] obtain o2 where
    o2: "h' = h1 @ o2" "length ys = length vs"
      "\<And>ext n. length o2 \<le> n \<Longrightarrow> map (read_value n (h' @ ext)) ys = map (\<lambda>v. Some (tree v)) vs" by auto
  have "map (read_value n (h' @ ext)) xs = map (\<lambda>v. Some (tree v)) (v # vs)" if "length (o1 @ o2) \<le> n" for ext n
    using that o1(2)[of n "o2 @ ext"] o2(3)[of n ext] by (simp add: 1(3) o2(1))
  with o1(1) o2(1,2) 1(3) show ?case by (intro exI[of _ "o1 @ o2"]) simp
qed simp

lemma read_new:
  "new_value t h = (v, h') \<Longrightarrow>
    \<exists>obs. h' = h @ obs \<and> (\<forall>ext n. length obs \<le> n \<longrightarrow> read_value n (h' @ ext) v = Some t)"
proof (induction t arbitrary: h v h')
  case (PList l)
  from PList.prems obtain xs h1 where 1: "new_values new_value l h = (xs, h1)" "v = HList (length h1)"
    "h' = h1 @ [LObj xs]" by (auto split: prod.splits)
  from read_values_new[OF 1(1), of "\<lambda>t. t"] PList.IH obtain obs where
    obs: "h1 = h @ obs" "\<And>ext n. length obs \<le> n \<Longrightarrow> map (read_value n (h1 @ ext)) xs = map Some l" by blast
  have "read_value n (h' @ ext) v = Some (PList l)" if "length (obs @ [LObj xs]) \<le> n" for ext n
    using that obs(2)[of "n - 1" "LObj xs # ext"] by (cases n) (simp_all add: 1(2,3) nth_append)
  with obs(1) 1(3) show ?case by (intro exI[of _ "obs @ [LObj xs]"]) simp
next
  case (PDict d)
  from PDict.prems obtain xs h1 where 1: "new_values (\<lambda>kv. new_value (snd kv)) d h = (xs, h1)" "v = HDict (length h1)"
    "h' = h1 @ [DObj (zip (map fst d) xs)]" by (auto split: prod.splits)
  have ih: "\<exists>obs. g' = g @ obs \<and> (\<forall>ext n. length obs \<le> n \<longrightarrow> read_value n (g' @ ext) x = Some (snd kv))"
    if "kv \<in> set d" "new_value (snd kv) g = (x, g')" for kv g x g'
    using PDict.IH[of kv "snd kv" g x g'] that by (cases kv) auto
  from read_values_new[OF 1(1), of snd, OF ih] obtain obs where
    obs: "h1 = h @ obs" "length xs = length d"
      "\<And>ext n. length obs \<le> n \<Longrightarrow> map (read_value n (h1 @ ext)) xs = map (\<lambda>kv. Some (snd kv)) d" by blast
  let ?ob = "DObj (zip (map fst d) xs)"
  have "read_value n (h' @ ext) v = Some (PDict d)" if "length (obs @ [?ob]) \<le> n" for ext n
  proof -
    from that obtain m where n: "n = Suc m" "length obs \<le> m" by (cases n) auto
    have keys: "map fst (zip (map fst d) xs) = map fst d" using obs(2) by simp
    have "map (\<lambda>kv. read_value m (h' @ ext) (snd kv)) (zip (map fst d) xs)
        = map (read_value m (h' @ ext)) (map snd (zip (map fst d) xs))" by simp
    also have "\<dots> = map (read_value m (h' @ ext)) xs" using obs(2) by simp
    also have "\<dots> = map Some (map snd d)" using obs(3)[OF n(2), of "?ob # ext"] by (simp add: 1(3))
    finally have "osequence (map (\<lambda>kv. read_value m (h' @ ext) (snd kv)) (zip (map fst d) xs)) = Some (map snd d)"
      by (simp only: osequence_map)
    then show ?thesis using keys by (simp add: n(1) 1(2,3) nth_append zip_map_fst_snd)
  qed
  with obs(1) 1(3) show ?case by (intro exI[of _ "obs @ [?ob]"]) simp
qed simp_all

text \<open>C23.  A dictionary whose strings hold no reference and no canonical integer, and that has no
  conditions, is already expanded: processing it returns, raises nothing, runs no command, writes
  no file and gives back the same dictionary.\<close>

theorem expanded_dict_rests:
  assumes "plain_value phase (PDict d)"
  shows "\<exists>h. process_dict env phase variables build_file d w = Some (Inr (d, w\<lparr>objects := h\<rparr>))"
proof -
  obtain vars h1 where n1: "new_dict variables (objects w) = (vars, h1)" by fastforce
  obtain v h2 where n2: "new_value (PDict d) h1 = (v, h2)" by fastforce
  from read_new[OF n2] obtain obs where obs: "h2 = h1 @ obs"
    "\<And>ext n. length obs \<le> n \<Longrightarrow> read_value n (h2 @ ext) v = Some (PDict d)" by blast
  let ?w = "w\<lparr>objects := h2\<rparr>"
  have read: "value_of h2 v = Some (PDict d)" using obs(2)[of "length h2" "[]"] obs(1) by (simp add: value_of_def)
  moreover from n2 obtain a where v: "v = HDict a" by (auto split: prod.splits)
  from read have "read_value (length h2) (objects ?w) v = Some (PDict d)" by (simp add: value_of_def)
  from plain_rests[OF this assms] have
    "ProcessVariablesAndConditionsInDict env v phase vars build_file None ?w = Some (Inr ((), ?w))"
    by (simp add: rests_def v ProcessVariablesAndConditionsInDict_def quiet_unit)
  ultimately have "process_dict env phase variables build_file d w = Some (Inr (d, ?w))"
    using n1 n2 by (simp add: process_dict_def write_dict_def read_tree_def del: new_value.simps)
  then show ?thesis by blast
qed

definition example_plain :: pydict where
  "example_plain = [(''variables'', PDict [(''x'', PStr ''a<b'')]),
     (''l'', PList [PStr ''-> >(late)'', PInt 3, PDict [(''k'', PStr ''<'')]])]"

theorem expanded_dict_rests_witness:
  "plain_value PHASE_EARLY (PDict example_plain)
   \<and> (\<exists>h. process_dict example_env PHASE_EARLY [] ''a.gyp'' example_plain new_world
       = Some (Inr (example_plain, new_world\<lparr>objects := h\<rparr>)))"
proof -
  have p: "plain_value PHASE_EARLY (PDict example_plain)" by code_simp
  from p expanded_dict_rests[OF p] show ?thesis by blast
qed

section \<open>References in a string\<close>

text \<open>The text that the value of a variable is replaced by: a list of settled strings and integers is
  quoted for the shell.\<close>

definition plain_item :: "phase \<Rightarrow> hval \<Rightarrow> bool" where
  "plain_item phase v = (case v of HStr s \<Rightarrow> settled_text phase s | HInt i \<Rightarrow> True | _ \<Rightarrow> False)"

definition item_value :: "hval \<Rightarrow> pyval" where
  "item_value v = (case v of HStr s \<Rightarrow> PStr s | HInt i \<Rightarrow> PInt i | _ \<Rightarrow> PNone)"

definition value_text :: "phase \<Rightarrow> world \<Rightarrow> hval \<Rightarrow> string option" where
  "value_text phase w v =
     (case v of
        HStr s \<Rightarrow> Some s
      | HInt i \<Rightarrow> Some (str_of_int i)
      | HList a \<Rightarrow>
          if a < length (objects w) then
            (case objects w ! a of
               LObj l \<Rightarrow> if list_all (plain_item phase) l then Some (EncodePOSIXShellList (map item_value l)) else None
             | _ \<Rightarrow> None)
          else None
      | _ \<Rightarrow> None)"

text \<open>A string as a sequence of texts and references to variables.\<close>

datatype piece = Plain string | Reference string

fun written :: "phase \<Rightarrow> piece \<Rightarrow> string" where
  "written phase (Plain t) = t"
| "written phase (Reference x) = expansion_symbol phase # CHR ''('' # x @ '')''"

fun replaced :: "phase \<Rightarrow> world \<Rightarrow> hdict \<Rightarrow> piece \<Rightarrow> string option" where
  "replaced phase w variables (Plain t) = (if expansion_symbol phase \<in> set t then None else Some t)"
| "replaced phase w variables (Reference x) =
     (if variable_name x then Option.bind (dget variables x) (value_text phase w) else None)"

definition substituted :: "phase \<Rightarrow> world \<Rightarrow> hdict \<Rightarrow> string \<Rightarrow> string \<Rightarrow> bool" where
  "substituted phase w variables s t \<longleftrightarrow>
     (\<exists>ps ts. s = concat (map (written phase) ps) \<and> map (replaced phase w variables) ps = map Some ts \<and> t = concat ts)"

lemma plain_list_replacement:
  assumes l: "a < length (objects w)" "objects w ! a = LObj l" "list_all (plain_item phase) l" and x: "contents \<noteq> []"
  shows "prepare_replacement (process env phase build_file) contents (HList a) variables w = Some (Inr ((), w))"
    "encode_replacement (HList a) w = Some (Inr (EncodePOSIXShellList (map item_value l), w))"
proof -
  have item: "plain_item phase v" if "v \<in> set l" for v using that l(3) by (simp add: list_all_iff)
  have "quiet (process_call (process env phase build_file) (InList a 0) variables) w"
  proof (rule quiet_in_list[OF l(2,1)])
    show "rests env phase build_file w v" if "v \<in> set l" for v
      using item[OF that] by (cases v) (simp_all add: plain_item_def rests_def)
    show "settled_text phase s" if "HStr s \<in> set l" for s using item[OF that] by (simp add: plain_item_def)
    show "HNone \<notin> set l" using item[of HNone] by (auto simp: plain_item_def)
  qed
  moreover have "\<forall>v \<in> set l. h_is_scalar v"
  proof
    show "h_is_scalar v" if "v \<in> set l" for v
      using item[OF that] by (cases v) (simp_all add: plain_item_def h_is_scalar_def)
  qed
  from this x have "rfold (\<lambda>item _. rbind (last_char_in contents {CHR ''/''}) (\<lambda>b.
      if \<not> b \<and> \<not> h_is_scalar item then Inl (must_expand contents (''list contains a '' @ h_class_name item))
      else Inr ())) l () = Inr ()"
    by (induction l) (simp_all add: last_char_in_def)
  ultimately show "prepare_replacement (process env phase build_file) contents (HList a) variables w = Some (Inr ((), w))"
    using l(2) by (simp add: prepare_replacement_def quiet_unit list_obj_def)
  have "value_of (objects w) v = Some (item_value v)" if "v \<in> set l" for v
    using item[OF that] by (cases v) (simp_all add: plain_item_def value_of_def item_value_def)
  then have "map (value_of (objects w)) l = map Some (map item_value l)" by simp
  then show "encode_replacement (HList a) w = Some (Inr (EncodePOSIXShellList (map item_value l), w))"
    using l(1,2) by (simp add: encode_replacement_def list_obj_def osequence_map del: map_map)
qed

lemma value_replacement:
  assumes "value_text phase w v = Some val" "contents \<noteq> []"
  shows "prepare_replacement (process env phase build_file) contents v variables w = Some (Inr ((), w))"
    "put_replacement False pre post v w = Some (Inr (EStr (pre @ val @ post), w))"
proof -
  from assms consider "v = HStr val" | i where "v = HInt i" "val = str_of_int i"
    | a l where "v = HList a" "a < length (objects w)" "objects w ! a = LObj l" "list_all (plain_item phase) l"
        "val = EncodePOSIXShellList (map item_value l)"
    by (cases v) (auto simp: value_text_def split: if_splits hobj.splits)
  then have "prepare_replacement (process env phase build_file) contents v variables w = Some (Inr ((), w))
    \<and> put_replacement False pre post v w = Some (Inr (EStr (pre @ val @ post), w))"
  proof cases
    case (3 a l)
    with plain_list_replacement[OF 3(2-4) assms(2)] show ?thesis by (simp add: put_replacement_def)
  qed (simp_all add: prepare_replacement_def put_replacement_def encode_replacement_def str_of_value_def
      read_tree_def value_of_def py_str_def)
  then show "prepare_replacement (process env phase build_file) contents v variables w = Some (Inr ((), w))"
    "put_replacement False pre post v w = Some (Inr (EStr (pre @ val @ post), w))" by blast+
qed

abbreviation reference_at :: "nat \<Rightarrow> var_match" where
  "reference_at i \<equiv> \<lparr>m_start = i, m_type = [], m_command = None, m_is_array = []\<rparr>"

lemma expand_reference:
  assumes x: "variable_name x" and v: "dget variables x = Some v" "value_text phase w v = Some val"
    and s: "s = pre @ expansion_symbol phase # CHR ''('' # x @ CHR '')'' # post"
  shows "expand_match env build_file (process env phase build_file) variables (reference_at (length pre)) s w
    = Some (Inr (EStr (pre @ val @ post), w))"
proof -
  have drop: "drop (length pre) s = expansion_symbol phase # CHR ''('' # x @ CHR '')'' # post" by (simp add: s)
  have contents: "take (length pre) s = pre"
    "slice s (2 + int (length pre)) (2 + (int (length pre) + int (length x))) = x"
    "slice s (int (length pre) + (int (length x) + 3)) (int (length s)) = post"
    by (simp_all add: s slice_def slice_bound_def nat_add_distrib nat_diff_distrib' eval_nat_numeral)
  have "expansion_symbol phase \<notin> set x" "strip x = x" "\<not> IsStrCanonicalInt (PStr x)" "x \<noteq> []"
    using x command_char_plain(1)[of _] command_char_plain(6)[of "expansion_symbol phase" phase] strip_id[of x]
    by (auto simp: variable_name_def)
  with expand_plain[of phase x env build_file variables w] have
    "expand_call (process env phase build_file) (HStr x) variables w = Some (Inr (EStr x, w))"
    by (simp add: expand_call_def expanded_text_def)
  with value_replacement[OF v(2) \<open>x \<noteq> []\<close>] v(1) \<open>strip x = x\<close> show ?thesis
    by (simp add: expand_match_def drop variable_bracket_group[OF x] contents find_replacement_def
      lookup_variable_def Let_def)
qed

text \<open>The references of a sequence, each with its place.\<close>

fun references :: "phase \<Rightarrow> nat \<Rightarrow> piece list \<Rightarrow> var_match list" where
  "references phase i [] = []"
| "references phase i (Plain t # ps) = references phase (i + length t) ps"
| "references phase i (Reference x # ps) = reference_at i # references phase (i + length x + 3) ps"

lemma references_found:
  assumes "map (replaced phase w variables) ps = map Some ts"
  shows "find_matches (expansion_symbol phase) i (concat (map (written phase) ps)) = references phase i ps"
  using assms
proof (induction ps arbitrary: i ts)
  case (Cons p ps)
  from Cons.prems obtain t ts' where t: "replaced phase w variables p = Some t" "map (replaced phase w variables) ps = map Some ts'"
    by (cases ts) auto
  note ih = Cons.IH[OF t(2)]
  show ?case
  proof (cases p)
    case (Plain u)
    with t(1) have "expansion_symbol phase \<notin> set u" by (simp split: if_splits)
    then show ?thesis using ih by (simp add: Plain find_matches_skip)
  next
    case (Reference x)
    with t(1) have "variable_name x" by (simp split: if_splits)
    from match_variable[OF this] show ?thesis using ih by (simp add: Reference add.assoc numeral_eq_Suc)
  qed
qed simp

lemma afold_append: "afold f (xs @ ys) b = abind (afold f xs b) (afold f ys)"
  by (induction xs arbitrary: b) (simp_all add: abind_def ret_def obind_def fun_eq_iff split: option.split sum.split prod.split)

text \<open>The references are replaced from the right to the left, each at the place it was found at.\<close>

lemma replace_references:
  assumes "map (replaced phase w variables) ps = map Some ts"
  shows "afold (replace_match env build_file (process env phase build_file) variables) (rev (references phase (length pre) ps))
      (EStr (pre @ concat (map (written phase) ps))) w
    = Some (Inr (EStr (pre @ concat ts), w))"
  using assms
proof (induction ps arbitrary: pre ts)
  case (Cons p ps)
  from Cons.prems obtain t ts' where t: "replaced phase w variables p = Some t" "map (replaced phase w variables) ps = map Some ts'"
    "ts = t # ts'" by (cases ts) auto
  show ?case
  proof (cases p)
    case (Plain u)
    with t(1) have "t = u" by (simp split: if_splits)
    with Cons.IH[OF t(2), of "pre @ u"] show ?thesis by (simp add: Plain t(3))
  next
    case (Reference x)
    with t(1) obtain v where x: "variable_name x" "dget variables x = Some v" "value_text phase w v = Some t"
      by (auto simp: bind_eq_Some_conv split: if_splits)
    have "expand_match env build_file (process env phase build_file) variables (reference_at (length pre))
        (pre @ expansion_symbol phase # CHR ''('' # x @ CHR '')'' # concat ts') w = Some (Inr (EStr (pre @ t @ concat ts'), w))"
      by (rule expand_reference[OF x refl])
    moreover have "afold (replace_match env build_file (process env phase build_file) variables)
        (rev (references phase (length pre + length x + 3) ps))
        (EStr (pre @ expansion_symbol phase # CHR ''('' # x @ CHR '')'' # concat (map (written phase) ps))) w
      = Some (Inr (EStr (pre @ expansion_symbol phase # CHR ''('' # x @ CHR '')'' # concat ts'), w))"
      using Cons.IH[OF t(2), of "pre @ written phase (Reference x)"] by (simp add: add.assoc numeral_eq_Suc)
    ultimately have "replace_match env build_file (process env phase build_file) variables (reference_at (length pre))
        (EStr (pre @ expansion_symbol phase # CHR ''('' # x @ CHR '')'' # concat ts')) w = Some (Inr (EStr (pre @ t @ concat ts'), w))"
      "afold (replace_match env build_file (process env phase build_file) variables)
        (rev (references phase (length pre + length x + 3) ps))
        (EStr (pre @ expansion_symbol phase # CHR ''('' # x @ CHR '')'' # concat (map (written phase) ps))) w
      = Some (Inr (EStr (pre @ expansion_symbol phase # CHR ''('' # x @ CHR '')'' # concat ts'), w))"
      by (simp_all add: replace_match_def)
    then show ?thesis by (simp add: Reference t(3) afold_append)
  qed
qed simp

lemma substituted_same:
  assumes "substituted phase w variables s t" "expansion_symbol phase \<notin> set s"
  shows "s = t"
proof -
  from assms(1) obtain ps ts where ps: "s = concat (map (written phase) ps)" "map (replaced phase w variables) ps = map Some ts"
    "t = concat ts" by (auto simp: substituted_def)
  have "map (written phase) ps = ts"
    using ps(2) assms(2)[unfolded ps(1)]
  proof (induction ps arbitrary: ts)
    case (Cons p ps)
    then show ?case by (cases p; cases ts) (auto split: if_splits)
  qed simp
  with ps show ?thesis by simp
qed

lemma no_references:
  assumes "map (replaced phase w variables) ps = map Some ts" "references phase i ps = []"
  shows "expansion_symbol phase \<notin> set (concat (map (written phase) ps))"
  using assms
proof (induction ps arbitrary: i ts)
  case (Cons p ps)
  then show ?case by (cases p; cases ts) (auto split: if_splits)
qed simp

text \<open>One round of replacement is followed by the next.\<close>

lemma expand_round:
  assumes sub: "substituted phase w variables s t"
    and again: "process env phase build_file (Expand (HStr t)) variables w = Some (Inr (Expanded (expanded_text u), w))"
  shows "process env phase build_file (Expand (HStr s)) variables w = Some (Inr (Expanded (expanded_text u), w))"
proof (cases "expansion_symbol phase \<in> set s")
  case True
  let ?self = "process env phase build_file"
  from sub obtain ps ts where ps: "s = concat (map (written phase) ps)" "map (replaced phase w variables) ps = map Some ts"
    "t = concat ts" by (auto simp: substituted_def)
  have plain: "\<not> IsStrCanonicalInt (PStr s)" using True by (rule symbol_not_canonical)
  note matches = references_found[OF ps(2), of 0, folded ps(1)]
  have rounds: "afold (replace_match env build_file ?self variables) (rev (references phase 0 ps)) (EStr s) w = Some (Inr (EStr t, w))"
    using replace_references[OF ps(2), of env build_file "[]"] ps(1,3) by simp
  have "references phase 0 ps \<noteq> []"
    using no_references[OF ps(2), of 0] True ps(1) by auto
  with plain True matches rounds again canonical_integers_text[of u] show ?thesis
    by (subst process.simps)
      (simp add: call_body_def ExpandVariables_body_def str_of_value_def variable_re_finditer_def expand_again_def expand_call_def)
next
  case False
  with substituted_same[OF sub] again show ?thesis by simp
qed

text \<open>C17.  The references in a string are replaced by the values of their variables between unchanged
  text, wherever they stand and however many they are: strings and integers by their text, lists of
  settled items as words for the shell.  References in the replaced text are replaced in turn, and when
  none is left the result that is the canonical form of an integer becomes that integer.  Nothing else
  changes, and no command runs.\<close>

theorem ExpandVariables_substitutes:
  assumes "(substituted phase w variables)\<^sup>*\<^sup>* s t" "expansion_symbol phase \<notin> set t"
  shows "ExpandVariables env (HStr s) phase variables build_file w = Some (Inr (expanded_text t, w))"
proof -
  have "process env phase build_file (Expand (HStr s)) variables w = Some (Inr (Expanded (expanded_text t), w))"
    using assms(1)
    by (induction rule: converse_rtranclp_induct) (use expand_plain[OF assms(2)] expand_round in blast)+
  then show ?thesis by (simp add: ExpandVariables_def expand_call_def)
qed

theorem ExpandVariables_substitutes_witness:
  "ExpandVariables example_env (HStr ''<(n)<(x).a'') PHASE_EARLY [(''x'', HStr ''z<(n)>(y)''), (''n'', HInt 2)] ''a.gyp'' new_world
     = Some (Inr (EStr ''2z2>(y).a'', new_world))
   \<and> ExpandVariables example_env (HStr ''4<(n)'') PHASE_EARLY [(''n'', HInt 2)] ''a.gyp'' new_world
     = Some (Inr (EInt 42, new_world))
   \<and> ExpandVariables example_env (HStr ''ls <(l)'') PHASE_EARLY [(''l'', HList 0)] ''a.gyp''
       (new_world\<lparr>objects := [LObj [HStr ''a b'', HInt 3]]\<rparr>)
     = Some (Inr (EStr (''ls '' @ [CHR 0x22] @ ''a b'' @ [CHR 0x22] @ '' 3''), new_world\<lparr>objects := [LObj [HStr ''a b'', HInt 3]]\<rparr>))"
proof (intro conjI)
  let ?vars = "[(''x'', HStr ''z<(n)>(y)''), (''n'', HInt 2)]"
  have one: "substituted PHASE_EARLY new_world ?vars ''<(n)<(x).a'' ''2z<(n)>(y).a''"
    unfolding substituted_def
    by (intro exI[of _ "[Reference ''n'', Reference ''x'', Plain ''.a'']"] exI[of _ "[''2'', ''z<(n)>(y)'', ''.a'']"] conjI; code_simp)
  have two: "substituted PHASE_EARLY new_world ?vars ''2z<(n)>(y).a'' ''2z2>(y).a''"
    unfolding substituted_def
    by (intro exI[of _ "[Plain ''2z'', Reference ''n'', Plain ''>(y).a'']"] exI[of _ "[''2z'', ''2'', ''>(y).a'']"] conjI; code_simp)
  have none: "expansion_symbol PHASE_EARLY \<notin> set ''2z2>(y).a''" and e: "expanded_text ''2z2>(y).a'' = EStr ''2z2>(y).a''" by code_simp+
  have steps: "(substituted PHASE_EARLY new_world ?vars)\<^sup>*\<^sup>* ''<(n)<(x).a'' ''2z2>(y).a''"
    by (rule converse_rtranclp_into_rtranclp, rule one, rule r_into_rtranclp, rule two)
  from ExpandVariables_substitutes[OF steps none, of example_env "''a.gyp''"] e show "ExpandVariables example_env (HStr ''<(n)<(x).a'') PHASE_EARLY ?vars ''a.gyp'' new_world
     = Some (Inr (EStr ''2z2>(y).a'', new_world))" by (simp only:)
next
  have one: "substituted PHASE_EARLY new_world [(''n'', HInt 2)] ''4<(n)'' ''42''"
    unfolding substituted_def
    by (intro exI[of _ "[Plain ''4'', Reference ''n'']"] exI[of _ "[''4'', ''2'']"] conjI; code_simp)
  have none: "expansion_symbol PHASE_EARLY \<notin> set ''42''" and e: "expanded_text ''42'' = EInt 42" by code_simp+
  have steps: "(substituted PHASE_EARLY new_world [(''n'', HInt 2)])\<^sup>*\<^sup>* ''4<(n)'' ''42''" by (rule r_into_rtranclp, rule one)
  from ExpandVariables_substitutes[OF steps none, of example_env "''a.gyp''"] e show "ExpandVariables example_env (HStr ''4<(n)'') PHASE_EARLY [(''n'', HInt 2)] ''a.gyp'' new_world
     = Some (Inr (EInt 42, new_world))" by (simp only:)
next
  let ?w = "new_world\<lparr>objects := [LObj [HStr ''a b'', HInt 3]]\<rparr>"
  let ?t = "''ls '' @ [CHR 0x22] @ ''a b'' @ [CHR 0x22] @ '' 3''"
  have one: "substituted PHASE_EARLY ?w [(''l'', HList 0)] ''ls <(l)'' ?t"
    unfolding substituted_def
    by (intro exI[of _ "[Plain ''ls '', Reference ''l'']"] exI[of _ "[''ls '', [CHR 0x22] @ ''a b'' @ [CHR 0x22] @ '' 3'']"] conjI; code_simp)
  have none: "expansion_symbol PHASE_EARLY \<notin> set ?t" and e: "expanded_text ?t = EStr ?t" by code_simp+
  have steps: "(substituted PHASE_EARLY ?w [(''l'', HList 0)])\<^sup>*\<^sup>* ''ls <(l)'' ?t" by (rule r_into_rtranclp, rule one)
  from ExpandVariables_substitutes[OF steps none, of example_env "''a.gyp''"] e show "ExpandVariables example_env (HStr ''ls <(l)'') PHASE_EARLY [(''l'', HList 0)] ''a.gyp'' ?w = Some (Inr (EStr ?t, ?w))"
    by (simp only:)
qed

end
