(* ===== verification/Ordered_Dict.thy ===== *)
theory Ordered_Dict
  imports Py_Prelude
begin

text \<open>
  \<open>tools/gyp/pylib/gyp/ordered_dict.py\<close>: the dictionary that remembers insertion order.  The model
  keeps the representation of the source: an inherited dictionary, a dictionary from keys to links,
  and the links as cells of a store that form a doubly linked ring through the sentinel, the cell
  at address 0.  A cell without contents is a list that \<open>clear\<close> emptied.  The abstract
  specification is an association list, and the theorems at the end say that the ring implements
  it.
\<close>

section \<open>The representation\<close>

record link =
  link_prev :: nat
  link_next :: nat
  link_key :: "string option"

record 'v odict =
  links :: "nat \<Rightarrow> link option"
  fresh :: nat
  link_map :: "(string \<times> nat) list"
  dict_items :: "(string \<times> 'v) list"

definition link_at :: "'v odict \<Rightarrow> nat \<Rightarrow> link res" where
  "link_at od a = (case links od a of None \<Rightarrow> Inl IndexError | Some l \<Rightarrow> Inr l)"

definition put_link :: "nat \<Rightarrow> link \<Rightarrow> 'v odict \<Rightarrow> 'v odict" where
  "put_link a l od = od\<lparr>links := (links od)(a := Some l)\<rparr>"

definition set_next :: "nat \<Rightarrow> nat \<Rightarrow> 'v odict \<Rightarrow> 'v odict res" where
  "set_next a b od = rbind (link_at od a) (\<lambda>l. Inr (put_link a (l\<lparr>link_next := b\<rparr>) od))"

definition set_prev :: "nat \<Rightarrow> nat \<Rightarrow> 'v odict \<Rightarrow> 'v odict res" where
  "set_prev a b od = rbind (link_at od a) (\<lambda>l. Inr (put_link a (l\<lparr>link_prev := b\<rparr>) od))"

section \<open>Items\<close>

text \<open>\<open>__init__\<close> before its update; \<open>__setitem__\<close>; \<open>__delitem__\<close>.\<close>

definition od_empty :: "'v odict" where
  "od_empty = \<lparr> links = (\<lambda>_. None)(0 := Some \<lparr> link_prev = 0, link_next = 0, link_key = None \<rparr>),
     fresh = 1, link_map = [], dict_items = [] \<rparr>"

definition add_link :: "string \<Rightarrow> 'v odict \<Rightarrow> 'v odict res" where
  "add_link key od =
     rbind (link_at od 0) (\<lambda>root.
       let tail = link_prev root;
           new = fresh od;
           od1 = put_link new \<lparr> link_prev = tail, link_next = 0, link_key = Some key \<rparr> (od\<lparr>fresh := Suc new\<rparr>)
       in rbind (set_next tail new od1) (\<lambda>od2.
          rbind (set_prev 0 new od2) (\<lambda>od3.
            Inr (od3\<lparr>link_map := dset key new (link_map od3)\<rparr>))))"

definition setitem :: "string \<Rightarrow> 'v \<Rightarrow> 'v odict \<Rightarrow> 'v odict res" where
  "setitem key value od =
     rbind (if dhas (dict_items od) key then Inr od else add_link key od) (\<lambda>od.
       Inr (od\<lparr>dict_items := dset key value (dict_items od)\<rparr>))"

definition delitem :: "string \<Rightarrow> 'v odict \<Rightarrow> 'v odict res" where
  "delitem key od =
     (if \<not> dhas (dict_items od) key then Inl (KeyError key)
      else
        rbind (dlookup (link_map od) key) (\<lambda>a.
        rbind (link_at od a) (\<lambda>l.
        rbind (set_next (link_prev l) (link_next l)
                 (od\<lparr>dict_items := ddel key (dict_items od), link_map := ddel key (link_map od)\<rparr>))
          (set_prev (link_next l) (link_prev l)))))"

section \<open>Iteration\<close>

text \<open>\<open>__iter__\<close> and \<open>__reversed__\<close> walk the ring until they are back at the sentinel.\<close>

partial_function (option) walk_ring :: "(link \<Rightarrow> nat) \<Rightarrow> 'v odict \<Rightarrow> nat \<Rightarrow> string option list comp" where
  "walk_ring step od node =
     (if node = 0 then Some (Inr [])
      else
        obind (Some (link_at od node)) (\<lambda>l.
        obind (walk_ring step od (step l)) (\<lambda>ks. Some (Inr (link_key l # ks)))))"

declare walk_ring.simps [code]

definition od_iter :: "'v odict \<Rightarrow> string option list comp" where
  "od_iter od = obind (Some (link_at od 0)) (\<lambda>root. walk_ring link_next od (link_next root))"

definition od_reversed :: "'v odict \<Rightarrow> string option list comp" where
  "od_reversed od = obind (Some (link_at od 0)) (\<lambda>root. walk_ring link_prev od (link_prev root))"

definition key_value :: "'v odict \<Rightarrow> string option \<Rightarrow> (string \<times> 'v) res" where
  "key_value od k =
     (case k of
        None \<Rightarrow> Inl (KeyError ''None'')
      | Some k \<Rightarrow> rbind (dlookup (dict_items od) k) (\<lambda>v. Inr (k, v)))"

definition od_items :: "'v odict \<Rightarrow> (string \<times> 'v) list comp" where
  "od_items od = obind (od_iter od) (\<lambda>ks. Some (rmap (key_value od) ks))"

definition od_keys :: "'v odict \<Rightarrow> string option list comp" where
  "od_keys od = od_iter od"

definition od_values :: "'v odict \<Rightarrow> 'v list comp" where
  "od_values od = obind (od_iter od) (\<lambda>ks. Some (rmap (\<lambda>k. rbind (key_value od k) (\<lambda>p. Inr (snd p))) ks))"

section \<open>Other methods\<close>

definition od_clear :: "'v odict \<Rightarrow> 'v odict" where
  "od_clear od =
     (let emptied = fold (\<lambda>(k, a) ls. ls(a := None)) (link_map od) (links od)
      in od\<lparr> links := emptied(0 := Some \<lparr> link_prev = 0, link_next = 0, link_key = None \<rparr>),
             link_map := [], dict_items := [] \<rparr>)"

definition popitem :: "bool \<Rightarrow> 'v odict \<Rightarrow> ((string \<times> 'v) \<times> 'v odict) res" where
  "popitem at_end od =
     (if dict_items od = [] then Inl (KeyError ''dictionary is empty'')
      else
        rbind (link_at od 0) (\<lambda>root.
        let a = (if at_end then link_prev root else link_next root) in
        rbind (link_at od a) (\<lambda>l.
        rbind (if at_end
               then rbind (set_next (link_prev l) 0 od) (set_prev 0 (link_prev l))
               else rbind (set_next 0 (link_next l) od) (set_prev (link_next l) 0)) (\<lambda>od.
        case link_key l of
          None \<Rightarrow> Inl (KeyError ''None'')
        | Some key \<Rightarrow>
            rbind (dlookup (link_map od) key) (\<lambda>_.
            rbind (dlookup (dict_items od) key) (\<lambda>value.
              Inr ((key, value), od\<lparr> link_map := ddel key (link_map od),
                                     dict_items := ddel key (dict_items od) \<rparr>)))))))"

text \<open>\<open>pop\<close> with its optional default; \<open>setdefault\<close>.\<close>

definition od_pop :: "string \<Rightarrow> 'v option \<Rightarrow> 'v odict \<Rightarrow> ('v \<times> 'v odict) res" where
  "od_pop key dflt od =
     (case dget (dict_items od) key of
        Some result \<Rightarrow> rbind (delitem key od) (\<lambda>od. Inr (result, od))
      | None \<Rightarrow> (case dflt of None \<Rightarrow> Inl (KeyError key) | Some d \<Rightarrow> Inr (d, od)))"

definition setdefault :: "string \<Rightarrow> 'v \<Rightarrow> 'v odict \<Rightarrow> ('v \<times> 'v odict) res" where
  "setdefault key dflt od =
     (case dget (dict_items od) key of
        Some v \<Rightarrow> Inr (v, od)
      | None \<Rightarrow> rbind (setitem key dflt od) (\<lambda>od. Inr (dflt, od)))"

text \<open>\<open>update\<close>: the positional arguments after \<open>self\<close>, each given as the pairs it yields, and the
  keyword arguments.\<close>

definition od_update :: "(string \<times> 'v) list list \<Rightarrow> (string \<times> 'v) list \<Rightarrow> 'v odict \<Rightarrow> 'v odict res" where
  "od_update args kwds od =
     (if 1 < length args
      then Inl (TypeError (''update() takes at most 2 positional arguments (''
             @ str_of_nat (Suc (length args)) @ '' given)''))
      else rfold (\<lambda>(k, v). setitem k v) (concat args @ kwds) od)"

definition od_init :: "(string \<times> 'v) list list \<Rightarrow> (string \<times> 'v) list \<Rightarrow> 'v odict res" where
  "od_init args kwds =
     (if 1 < length args
      then Inl (TypeError (''expected at most 1 arguments, got '' @ str_of_nat (length args)))
      else od_update args kwds od_empty)"

definition od_copy :: "'v odict \<Rightarrow> 'v odict comp" where
  "od_copy od = obind (od_items od) (\<lambda>items. Some (od_init [items] []))"

definition fromkeys :: "string list \<Rightarrow> 'v \<Rightarrow> 'v odict res" where
  "fromkeys iterable value = rfold (\<lambda>key. setitem key value) iterable od_empty"

text \<open>\<open>__eq__\<close> against another ordered dictionary, and against a plain one.\<close>

definition od_eq :: "'v odict \<Rightarrow> 'v odict \<Rightarrow> bool comp" where
  "od_eq od other =
     (if length (dict_items od) \<noteq> length (dict_items other) then Some (Inr False)
      else obind (od_items od) (\<lambda>a. obind (od_items other) (\<lambda>b. Some (Inr (a = b)))))"

definition dict_eq :: "'v odict \<Rightarrow> (string \<times> 'v) list \<Rightarrow> bool" where
  "dict_eq od other =
     (length (dict_items od) = length other
      \<and> (\<forall>(k, v) \<in> set (dict_items od). dget other k = Some v))"

section \<open>The ring\<close>

text \<open>The cells of \<open>as\<close>, in this order, carry the entries \<open>xs\<close>; the dictionaries agree.\<close>

definition nxt :: "'v odict \<Rightarrow> nat \<Rightarrow> nat" where
  "nxt od a = link_next (the (links od a))"

definition prv :: "'v odict \<Rightarrow> nat \<Rightarrow> nat" where
  "prv od a = link_prev (the (links od a))"

definition ky :: "'v odict \<Rightarrow> nat \<Rightarrow> string option" where
  "ky od a = link_key (the (links od a))"

definition ring :: "(nat \<Rightarrow> nat) \<Rightarrow> (nat \<Rightarrow> nat) \<Rightarrow> nat list \<Rightarrow> bool" where
  "ring n p as = successively (\<lambda>x y. n x = y \<and> p y = x) (0 # as @ [0])"

definition shows_items :: "'v odict \<Rightarrow> nat list \<Rightarrow> (string \<times> 'v) list \<Rightarrow> bool" where
  "shows_items od as xs \<longleftrightarrow>
     distinct (0 # as) \<and> length as = length xs \<and> (\<forall>a \<in> set (0 # as). a < fresh od \<and> links od a \<noteq> None)
     \<and> ring (nxt od) (prv od) as
     \<and> map (ky od) as = map (\<lambda>x. Some (fst x)) xs
     \<and> wf_dict xs \<and> wf_dict (dict_items od)
     \<and> map_of (link_map od) = map_of (zip (map fst xs) as)
     \<and> map_of (dict_items od) = map_of xs"

lemma successively_frame:
  assumes "successively (\<lambda>x y. n x = y \<and> p y = x) xs"
    and "\<And>x. x \<in> set (butlast xs) \<Longrightarrow> n' x = n x" "\<And>y. y \<in> set (tl xs) \<Longrightarrow> p' y = p y"
  shows "successively (\<lambda>x y. n' x = y \<and> p' y = x) xs"
  using assms
proof (induction xs rule: induct_list012)
  case (3 x y zs)
  have "n' x = n x" "p' y = p y" using 3(4)[of x] 3(5)[of y] by simp_all
  moreover have "successively (\<lambda>x y. n' x = y \<and> p' y = x) (y # zs)"
    using 3(3-5) by (intro 3(2)) (auto split: if_splits dest: in_set_butlastD)
  ultimately show ?case using 3(3) by simp
qed simp_all

text \<open>Cutting a part out of the ring, and closing one with a new cell before the sentinel.\<close>

lemma ring_cut:
  assumes r: "ring n p (xs @ a # ys)" and d: "distinct (0 # xs @ a # ys)"
  shows "n a = hd (ys @ [0])" "p a = last (0 # xs)"
    and "ring (n(last (0 # xs) := hd (ys @ [0]))) (p(hd (ys @ [0]) := last (0 # xs))) (xs @ ys)"
proof -
  let ?P = "\<lambda>n p x y. n x = y \<and> p y = (x :: nat)"
  let ?u = "last (0 # xs)" and ?v = "hd (ys @ [0])"
  have "successively (?P n p) ((0 # xs) @ a # (ys @ [0]))" using r by (simp add: ring_def)
  then have s: "successively (?P n p) (0 # xs)" "successively (?P n p) (a # ys @ [0])"
    "?P n p ?u a" by (simp_all only: successively_append_iff) auto
  from s(2) have t: "?P n p a ?v" "successively (?P n p) (ys @ [0])"
    by (cases ys; simp)+
  from s(3) t(1) show "n a = ?v" "p a = ?u" by simp_all
  have v: "?v \<in> insert 0 (set ys)" by (cases ys) auto
  have u: "?u \<in> insert 0 (set xs)" by (cases xs rule: rev_cases) auto
  have dl: "?u \<notin> set (butlast (0 # xs))"
    using d by (cases xs rule: rev_cases) auto
  have dv: "?v \<notin> set (tl (ys @ [0]))" using d by (cases ys) auto
  have "successively (?P (n(?u := ?v)) (p(?v := ?u))) (0 # xs)"
  proof (rule successively_frame[OF s(1)])
    fix x assume "x \<in> set (butlast (0 # xs))"
    with dl show "(n(?u := ?v)) x = n x" by auto
  next
    fix y assume "y \<in> set (tl (0 # xs))"
    with v d show "(p(?v := ?u)) y = p y" by auto
  qed
  moreover have "successively (?P (n(?u := ?v)) (p(?v := ?u))) (ys @ [0])"
  proof (rule successively_frame[OF t(2)])
    fix x assume "x \<in> set (butlast (ys @ [0]))"
    then have "x \<in> set ys" by simp
    with u d have "x \<noteq> ?u" by auto
    then show "(n(?u := ?v)) x = n x" by simp
  next
    fix y assume "y \<in> set (tl (ys @ [0]))"
    with dv show "(p(?v := ?u)) y = p y" by auto
  qed
  ultimately have "successively (?P (n(?u := ?v)) (p(?v := ?u))) ((0 # xs) @ (ys @ [0]))"
    by (subst successively_append_iff) simp
  then show "ring (n(?u := ?v)) (p(?v := ?u)) (xs @ ys)" by (simp add: ring_def)
qed

lemma ring_snoc:
  assumes r: "ring n p as" and d: "distinct (0 # as)" and a: "a \<notin> set (0 # as)"
  shows "p 0 = last (0 # as)"
    and "ring (n(a := 0, last (0 # as) := a)) (p(a := last (0 # as), 0 := a)) (as @ [a])"
proof -
  let ?P = "\<lambda>n p x y. n x = y \<and> p y = (x :: nat)"
  let ?u = "last (0 # as)"
  have "successively (?P n p) ((0 # as) @ [0])" using r by (simp add: ring_def)
  then have s: "successively (?P n p) (0 # as)" "?P n p ?u 0"
    by (simp_all only: successively_append_iff) auto
  from s(2) show "p 0 = ?u" by simp
  have dl: "?u \<notin> set (butlast (0 # as))"
    using d by (cases as rule: rev_cases) auto
  let ?n = "n(a := 0, ?u := a)" and ?p = "p(a := ?u, 0 := a)"
  have "successively (?P ?n ?p) (0 # as)"
  proof (rule successively_frame[OF s(1)])
    fix x assume x: "x \<in> set (butlast (0 # as))"
    from in_set_butlastD[OF x] a have "x \<noteq> a" by auto
    with x dl show "?n x = n x" by auto
  next
    fix y assume "y \<in> set (tl (0 # as))"
    with a d show "?p y = p y" by auto
  qed
  moreover have "?u \<in> set (0 # as)" by (rule last_in_set) simp
  then have "?u \<noteq> a" "a \<noteq> 0" using a by auto
  then have "successively (?P ?n ?p) [a, 0]" "?P ?n ?p ?u a" by auto
  ultimately have "successively (?P ?n ?p) ((0 # as) @ [a, 0])"
    by (subst successively_append_iff) simp
  then show "ring ?n ?p (as @ [a])" by (simp add: ring_def)
qed
lemma put_link_cells [simp]:
  "nxt (put_link a l od) = (nxt od)(a := link_next l)"
  "prv (put_link a l od) = (prv od)(a := link_prev l)"
  "ky (put_link a l od) = (ky od)(a := link_key l)"
  "fresh (put_link a l od) = fresh od" "link_map (put_link a l od) = link_map od"
  "dict_items (put_link a l od) = dict_items od"
  "links (put_link a l od) = (links od)(a := Some l)"
  by (simp_all add: put_link_def nxt_def prv_def ky_def fun_eq_iff)

lemma other_fields [simp]:
  "nxt (od\<lparr>fresh := n\<rparr>) = nxt od" "prv (od\<lparr>fresh := n\<rparr>) = prv od" "ky (od\<lparr>fresh := n\<rparr>) = ky od"
  "nxt (od\<lparr>link_map := m\<rparr>) = nxt od" "prv (od\<lparr>link_map := m\<rparr>) = prv od"
  "ky (od\<lparr>link_map := m\<rparr>) = ky od"
  "nxt (od\<lparr>dict_items := d\<rparr>) = nxt od" "prv (od\<lparr>dict_items := d\<rparr>) = prv od"
  "ky (od\<lparr>dict_items := d\<rparr>) = ky od"
  by (simp_all add: nxt_def prv_def ky_def fun_eq_iff)

lemma set_next_eq:
  assumes "links od a \<noteq> None"
  shows "\<exists>od'. set_next a b od = Inr od' \<and> nxt od' = (nxt od)(a := b) \<and> prv od' = prv od \<and> ky od' = ky od
    \<and> (\<forall>x. links od' x = None \<longleftrightarrow> links od x = None) \<and> fresh od' = fresh od
    \<and> link_map od' = link_map od \<and> dict_items od' = dict_items od"
  using assms by (auto simp: set_next_def link_at_def put_link_def nxt_def prv_def ky_def fun_eq_iff)

lemma set_prev_eq:
  assumes "links od a \<noteq> None"
  shows "\<exists>od'. set_prev a b od = Inr od' \<and> nxt od' = nxt od \<and> prv od' = (prv od)(a := b) \<and> ky od' = ky od
    \<and> (\<forall>x. links od' x = None \<longleftrightarrow> links od x = None) \<and> fresh od' = fresh od
    \<and> link_map od' = link_map od \<and> dict_items od' = dict_items od"
  using assms by (auto simp: set_prev_def link_at_def put_link_def nxt_def prv_def ky_def fun_eq_iff)

lemma shows_itemsD:
  assumes "shows_items od as xs"
  shows "distinct (0 # as)" "length as = length xs" "ring (nxt od) (prv od) as"
    "map (ky od) as = map (\<lambda>x. Some (fst x)) xs" "wf_dict xs" "wf_dict (dict_items od)"
    "map_of (link_map od) = map_of (zip (map fst xs) as)" "map_of (dict_items od) = map_of xs"
    "\<And>a. a \<in> set (0 # as) \<Longrightarrow> a < fresh od \<and> links od a \<noteq> None"
  using assms unfolding shows_items_def by blast+

lemma dset_old: "dhas xs k \<Longrightarrow> map fst (dset k v xs) = map fst xs \<and> length (dset k v xs) = length xs"
  by (induction xs) (auto simp: dset_def dhas_def split: if_splits)

lemma add_link_shows:
  assumes s: "shows_items od as xs" and k: "\<not> dhas xs k"
  shows "\<exists>od'. add_link k od = Inr od' \<and> dict_items od' = dict_items od
    \<and> shows_items (od'\<lparr>dict_items := dset k v (dict_items od')\<rparr>) (as @ [fresh od]) (xs @ [(k, v)])"
proof -
  note D = shows_itemsD[OF s]
  let ?new = "fresh od"
  have new: "?new \<notin> set (0 # as)" using D(9)[of ?new] by (meson less_irrefl)
  note ring' = ring_snoc[OF D(3,1) new]
  from D(9)[of 0] obtain root where root: "links od 0 = Some root" by auto
  define u where "u = last (0 # as)"
  have u: "link_prev root = u" using ring'(1) root by (simp add: prv_def u_def)
  have u_in: "u \<in> set (0 # as)" unfolding u_def by (rule last_in_set) simp
  define od1 where "od1 = put_link ?new \<lparr> link_prev = u, link_next = 0, link_key = Some k \<rparr> (od\<lparr>fresh := Suc ?new\<rparr>)"
  have od1: "nxt od1 = (nxt od)(?new := 0)" "prv od1 = (prv od)(?new := u)"
    "ky od1 = (ky od)(?new := Some k)" "fresh od1 = Suc ?new" "link_map od1 = link_map od"
    "dict_items od1 = dict_items od" "\<And>x. links od1 x = None \<longleftrightarrow> x \<noteq> ?new \<and> links od x = None"
    by (simp_all add: od1_def)
  have "links od1 u \<noteq> None" using D(9)[OF u_in] by (simp add: od1(7))
  from set_next_eq[OF this, of ?new] obtain od2 where od2: "set_next u ?new od1 = Inr od2"
    "nxt od2 = (nxt od1)(u := ?new)" "prv od2 = prv od1" "ky od2 = ky od1"
    "\<forall>x. links od2 x = None \<longleftrightarrow> links od1 x = None" "fresh od2 = fresh od1"
    "link_map od2 = link_map od1" "dict_items od2 = dict_items od1" by blast
  have "links od2 0 \<noteq> None" using root by (simp add: od2(5) od1(7))
  from set_prev_eq[OF this, of ?new] obtain od3 where od3: "set_prev 0 ?new od2 = Inr od3"
    "nxt od3 = nxt od2" "prv od3 = (prv od2)(0 := ?new)" "ky od3 = ky od2"
    "\<forall>x. links od3 x = None \<longleftrightarrow> links od2 x = None" "fresh od3 = fresh od2"
    "link_map od3 = link_map od2" "dict_items od3 = dict_items od2" by blast
  let ?od = "od3\<lparr>link_map := dset k ?new (link_map od3)\<rparr>"
  have add: "add_link k od = Inr ?od"
    by (simp add: add_link_def link_at_def root Let_def u od1_def[symmetric] od2(1) od3(1))
  let ?od' = "?od\<lparr>dict_items := dset k v (dict_items ?od)\<rparr>"
  have cells: "nxt ?od' = nxt od3" "prv ?od' = prv od3" "ky ?od' = ky od3" "links ?od' = links od3"
    by simp_all
  have "distinct (0 # as @ [?new])" "length (as @ [?new]) = length (xs @ [(k, v)])"
    using D(1,2) new by auto
  moreover have "\<forall>a \<in> set (0 # as @ [?new]). a < fresh ?od' \<and> links ?od' a \<noteq> None"
    using D(9) od1(4,7) od2(5,6) od3(5,6) by (auto simp: less_Suc_eq)
  moreover have "ring (nxt ?od') (prv ?od') (as @ [?new])"
    unfolding cells od3(2,3) od2(2,3) od1(1,2) using ring'(2) unfolding u_def .
  moreover have "map (ky ?od') (as @ [?new]) = map (\<lambda>x. Some (fst x)) (xs @ [(k, v)])"
  proof -
    have "map (ky ?od') as = map (ky od) as"
      unfolding cells od3(4) od2(4) od1(3) using new by (intro map_cong) auto
    then show ?thesis unfolding D(4) by (simp add: cells(3) od3(4) od2(4) od1(3))
  qed
  moreover have "wf_dict (xs @ [(k, v)])" using D(5) k by (auto simp: wf_dict_def dhas_iff)
  moreover have "wf_dict (dict_items ?od')" using D(6) od1(6) od2(8) od3(8) by (auto intro: wf_dict_dset)
  moreover have "map_of (link_map ?od') = map_of (zip (map fst (xs @ [(k, v)])) (as @ [?new]))"
  proof -
    have m: "map_of (link_map ?od') = (map_of (link_map od))(k \<mapsto> ?new)"
      by (simp add: fun_eq_iff od3(7) od2(7) od1(5))
    have "zip (map fst (xs @ [(k, v)])) (as @ [?new]) = zip (map fst xs) as @ [(k, ?new)]"
      using D(2) by simp
    moreover have "map_of (zip (map fst xs) as) k = None"
      using k by (auto simp: map_of_eq_None_iff dhas_iff dest!: set_zip_leftD)
    ultimately show ?thesis unfolding m D(7) by (auto simp: fun_eq_iff map_add_def split: option.split)
  qed
  moreover have "map_of (dict_items ?od') = map_of (xs @ [(k, v)])"
  proof -
    have "map_of (dict_items ?od') = (map_of xs)(k \<mapsto> v)"
      using D(8) by (simp add: fun_eq_iff od3(8) od2(8) od1(6))
    moreover have "map_of xs k = None" using k by (simp add: dhas_def)
    ultimately show ?thesis by (auto simp: fun_eq_iff map_add_def split: option.split)
  qed
  ultimately have "shows_items ?od' (as @ [?new]) (xs @ [(k, v)])" unfolding shows_items_def by blast
  then show ?thesis using add od3(8) od2(8) od1(6) by (intro exI[of _ ?od]) simp
qed

lemma dhas_shows: "shows_items od as xs \<Longrightarrow> dhas (dict_items od) k = dhas xs k"
  by (simp add: dhas_def shows_itemsD(8))

lemma setitem_shows:
  assumes s: "shows_items od as xs"
  shows "\<exists>od' as'. setitem k v od = Inr od' \<and> shows_items od' as' (dset k v xs)"
proof (cases "dhas xs k")
  case False
  from add_link_shows[OF s this, of v] obtain od' where "add_link k od = Inr od'"
    "shows_items (od'\<lparr>dict_items := dset k v (dict_items od')\<rparr>) (as @ [fresh od]) (xs @ [(k, v)])" by blast
  then show ?thesis using False dset_new[OF False] dhas_shows[OF s] by (auto simp: setitem_def)
next
  case True
  note D = shows_itemsD[OF s]
  let ?od = "od\<lparr>dict_items := dset k v (dict_items od)\<rparr>"
  have keys: "map fst (dset k v xs) = map fst xs" "length (dset k v xs) = length xs"
    using dset_old[OF True] by simp_all
  have ks: "map (\<lambda>x. Some (fst x)) (dset k v xs) = map (\<lambda>x. Some (fst x)) xs"
    using arg_cong[OF keys(1), of "map Some"] by (simp add: comp_def)
  have cells: "nxt ?od = nxt od" "prv ?od = prv od" "ky ?od = ky od" "links ?od = links od" "fresh ?od = fresh od"
    by simp_all
  have "map_of (dict_items ?od) = map_of (dset k v xs)" using D(8) by (auto simp: fun_eq_iff)
  then have "shows_items ?od as (dset k v xs)"
    unfolding shows_items_def cells keys ks using D by (auto intro: wf_dict_dset)
  then show ?thesis using True dhas_shows[OF s] by (auto simp: setitem_def)
qed

text \<open>Removing the entry at a given place, as \<open>__delitem__\<close> and \<open>popitem\<close> do.\<close>

lemma cut_shows:
  assumes s: "shows_items od (as1 @ a # as2) (xs1 @ (k, v) # xs2)" and len: "length as1 = length xs1"
  shows "ky od a = Some k" "dget (link_map od) k = Some a" "dget (dict_items od) k = Some v"
    "nxt od a = hd (as2 @ [0])" "prv od a = last (0 # as1)"
    "hd (as2 @ [0]) \<in> set (0 # as1 @ as2)" "last (0 # as1) \<in> set (0 # as1 @ as2)"
    and "nxt od' = (nxt od)(last (0 # as1) := hd (as2 @ [0])) \<Longrightarrow>
      prv od' = (prv od)(hd (as2 @ [0]) := last (0 # as1)) \<Longrightarrow> ky od' = ky od \<Longrightarrow>
      (\<forall>x. links od' x = None \<longleftrightarrow> links od x = None) \<Longrightarrow> fresh od' = fresh od \<Longrightarrow>
      link_map od' = ddel k (link_map od) \<Longrightarrow> dict_items od' = ddel k (dict_items od) \<Longrightarrow>
      shows_items od' (as1 @ as2) (xs1 @ xs2)"
proof -
  note D = shows_itemsD[OF s]
  have len2: "length as2 = length xs2" using D(2) len by simp
  have k: "k \<notin> fst ` set xs1" "k \<notin> fst ` set xs2" using D(5) by (auto simp: wf_dict_def)
  show "ky od a = Some k" using D(4) len by simp
  have z: "zip (map fst (xs1 @ (k, v) # xs2)) (as1 @ a # as2)
      = zip (map fst xs1) as1 @ (k, a) # zip (map fst xs2) as2" using len by simp
  have none: "map_of (zip (map fst xs1) as1) k = None"
    using k(1) by (auto simp: map_of_eq_None_iff dest!: set_zip_leftD)
  have none2: "map_of (zip (map fst xs2) as2) k = None"
    using k(2) by (auto simp: map_of_eq_None_iff dest!: set_zip_leftD)
  show "dget (link_map od) k = Some a"
    unfolding D(7) z using none none2 by (simp add: map_add_def)
  have xn: "map_of xs1 k = None" "map_of xs2 k = None" using k by (simp_all add: map_of_eq_None_iff)
  show "dget (dict_items od) k = Some v" unfolding D(8) using xn by (simp add: map_add_def)
  note cut = ring_cut[OF D(3,1)]
  show "nxt od a = hd (as2 @ [0])" "prv od a = last (0 # as1)" by (fact cut(1), fact cut(2))
  show "hd (as2 @ [0]) \<in> set (0 # as1 @ as2)" by (cases as2) auto
  show "last (0 # as1) \<in> set (0 # as1 @ as2)" by (cases as1 rule: rev_cases) auto
  assume n: "nxt od' = (nxt od)(last (0 # as1) := hd (as2 @ [0]))"
    and p: "prv od' = (prv od)(hd (as2 @ [0]) := last (0 # as1))"
    and rest: "ky od' = ky od" "\<forall>x. links od' x = None \<longleftrightarrow> links od x = None" "fresh od' = fresh od"
      "link_map od' = ddel k (link_map od)" "dict_items od' = ddel k (dict_items od)"
  have "ring (nxt od') (prv od') (as1 @ as2)" unfolding n p by (rule cut(3))
  moreover have "map (ky od') (as1 @ as2) = map (\<lambda>x. Some (fst x)) (xs1 @ xs2)"
    using D(4) len unfolding rest(1) by simp
  moreover have "map_of (link_map od') = map_of (zip (map fst (xs1 @ xs2)) (as1 @ as2))"
  proof
    fix x
    have z': "zip (map fst (xs1 @ xs2)) (as1 @ as2) = zip (map fst xs1) as1 @ zip (map fst xs2) as2"
      using len by simp
    show "map_of (link_map od') x = map_of (zip (map fst (xs1 @ xs2)) (as1 @ as2)) x"
      unfolding rest(4) z' dget_ddel D(7) z using none none2
      by (auto simp: map_add_def split: option.split)
  qed
  moreover have "map_of (dict_items od') = map_of (xs1 @ xs2)"
  proof
    fix x
    show "map_of (dict_items od') x = map_of (xs1 @ xs2) x"
      unfolding rest(5) dget_ddel D(8) using xn by (auto simp: map_add_def split: option.split)
  qed
  moreover have "wf_dict (dict_items od')" using D(6) rest(5) by (auto intro: wf_dict_ddel)
  moreover have "distinct (0 # as1 @ as2)" "wf_dict (xs1 @ xs2)" "length (as1 @ as2) = length (xs1 @ xs2)"
    using D(1,2,5) len by (auto simp: wf_dict_def)
  moreover have "\<forall>b \<in> set (0 # as1 @ as2). b < fresh od' \<and> links od' b \<noteq> None"
    using D(9) rest(2,3) by auto
  ultimately show "shows_items od' (as1 @ as2) (xs1 @ xs2)" unfolding shows_items_def by blast
qed
lemma split_key:
  assumes "shows_items od as xs" "dhas xs k"
  shows "\<exists>as1 a as2 xs1 v xs2. as = as1 @ a # as2 \<and> xs = xs1 @ (k, v) # xs2 \<and> length as1 = length xs1
    \<and> ddel k xs = xs1 @ xs2 \<and> dget xs k = Some v"
proof -
  from assms(2) obtain v where v: "dget xs k = Some v" by (auto simp: dhas_def)
  then obtain xs1 xs2 where xs: "xs = xs1 @ (k, v) # xs2" by (meson map_of_SomeD split_list)
  have len: "length as = length xs" by (rule shows_itemsD(2)[OF assms(1)])
  have "k \<notin> fst ` set xs1" "k \<notin> fst ` set xs2"
    using shows_itemsD(5)[OF assms(1)] xs by (auto simp: wf_dict_def)
  then have "filter (\<lambda>(k', _). k \<noteq> k') xs1 = xs1" "filter (\<lambda>(k', _). k \<noteq> k') xs2 = xs2"
    by (intro filter_True; force)+
  then have "ddel k xs = xs1 @ xs2" by (simp add: xs ddel_def AList.delete_eq)
  moreover have "as = take (length xs1) as @ as ! length xs1 # drop (Suc (length xs1)) as"
    using len xs by (simp add: id_take_nth_drop)
  moreover have "length (take (length xs1) as) = length xs1" using len xs by simp
  ultimately show ?thesis using xs v by blast
qed

lemma delitem_shows:
  assumes s: "shows_items od as xs" and k: "dhas xs k"
  shows "\<exists>od' as'. delitem k od = Inr od' \<and> shows_items od' as' (ddel k xs)"
proof -
  from split_key[OF s k] obtain as1 a as2 xs1 v xs2 where
    e: "as = as1 @ a # as2" "xs = xs1 @ (k, v) # xs2" "length as1 = length xs1" "ddel k xs = xs1 @ xs2" by blast
  note C = cut_shows[OF s[unfolded e(1,2)] e(3)]
  note D = shows_itemsD[OF s]
  from D(9)[of a] e(1) obtain l where l: "links od a = Some l" by auto
  have pn: "link_prev l = last (0 # as1)" "link_next l = hd (as2 @ [0])"
    using C(4,5) l by (simp_all add: nxt_def prv_def)
  let ?od = "od\<lparr>dict_items := ddel k (dict_items od), link_map := ddel k (link_map od)\<rparr>"
  have cell: "links od x \<noteq> None" if "x \<in> set (0 # as1 @ as2)" for x
    using that D(9)[of x] e(1) by auto
  have "links ?od (last (0 # as1)) \<noteq> None" using cell[OF C(7)] by simp
  from set_next_eq[OF this, of "hd (as2 @ [0])"] obtain od1 where
    od1: "set_next (last (0 # as1)) (hd (as2 @ [0])) ?od = Inr od1"
      "nxt od1 = (nxt ?od)(last (0 # as1) := hd (as2 @ [0]))" "prv od1 = prv ?od" "ky od1 = ky ?od"
      "\<forall>x. links od1 x = None \<longleftrightarrow> links ?od x = None" "fresh od1 = fresh ?od"
      "link_map od1 = link_map ?od" "dict_items od1 = dict_items ?od" by blast
  have "links od1 (hd (as2 @ [0])) \<noteq> None" using cell[OF C(6)] od1(5) by simp
  from set_prev_eq[OF this, of "last (0 # as1)"] obtain od2 where
    od2: "set_prev (hd (as2 @ [0])) (last (0 # as1)) od1 = Inr od2" "nxt od2 = nxt od1"
      "prv od2 = (prv od1)(hd (as2 @ [0]) := last (0 # as1))" "ky od2 = ky od1"
      "\<forall>x. links od2 x = None \<longleftrightarrow> links od1 x = None" "fresh od2 = fresh od1"
      "link_map od2 = link_map od1" "dict_items od2 = dict_items od1" by blast
  have "shows_items od2 (as1 @ as2) (xs1 @ xs2)"
    by (rule C(8)) (simp_all add: od1(2-8) od2(2-8))
  moreover have "dhas (dict_items od) k" using k dhas_shows[OF s] by simp
  then have "delitem k od = Inr od2"
    using C(2) l pn od1(1) od2(1) by (simp add: delitem_def dlookup_def link_at_def del: last.simps)
  ultimately show ?thesis using e(4) by metis
qed

lemma popitem_shows:
  assumes s: "shows_items od as xs" and ne: "xs \<noteq> []"
  shows "\<exists>od' as'. popitem b od = Inr (if b then last xs else hd xs, od')
    \<and> shows_items od' as' (if b then butlast xs else tl xs)"
proof -
  note D = shows_itemsD[OF s]
  obtain as1 a as2 xs1 k v xs2 where
    e: "as = as1 @ a # as2" "xs = xs1 @ (k, v) # xs2" "length as1 = length xs1"
    and ends: "b \<Longrightarrow> as2 = [] \<and> xs2 = []" "\<not> b \<Longrightarrow> as1 = [] \<and> xs1 = []"
  proof (cases b)
    case True
    from ne obtain xs1 kv where "xs = xs1 @ [kv]" by (cases xs rule: rev_cases) auto
    moreover from this D(2) obtain as1 a where "as = as1 @ [a]" by (cases as rule: rev_cases) auto
    ultimately show thesis using that[of as1 a "[]" xs1 "fst kv" "snd kv" "[]"] D(2) True by simp
  next
    case False
    from ne obtain kv xs2 where "xs = kv # xs2" by (cases xs) auto
    moreover from this D(2) obtain a as2 where "as = a # as2" by (cases as) auto
    ultimately show thesis using that[of "[]" a as2 "[]" "fst kv" "snd kv" xs2] D(2) False by simp
  qed
  note C = cut_shows[OF s[unfolded e(1,2)] e(3)]
  let ?u = "last (0 # as1)" and ?v = "hd (as2 @ [0])"
  from D(9)[of a] e(1) obtain l where l: "links od a = Some l" by auto
  have pn: "link_prev l = ?u" "link_next l = ?v" "link_key l = Some k"
    using C(1,4,5) l by (simp_all add: nxt_def prv_def ky_def)
  from D(9)[of 0] obtain root where root: "links od 0 = Some root" by auto
  have r: "successively (\<lambda>x y. nxt od x = y \<and> prv od y = x) (0 # as @ [0])"
    using D(3) by (simp add: ring_def)
  have at_end: "(if b then link_prev root else link_next root) = a"
  proof (cases b)
    case True
    then have "successively (\<lambda>x y. nxt od x = y \<and> prv od y = x) ((0 # as1 @ [a]) @ [0])"
      using r e(1) ends(1) by simp
    then have "prv od 0 = a" by (simp only: successively_append_iff) simp
    with True root show ?thesis by (simp add: prv_def)
  next
    case False
    with r e(1) ends(2) have "nxt od 0 = a" by simp
    with False root show ?thesis by (simp add: nxt_def)
  qed
  have uv: "b \<Longrightarrow> ?v = 0" "\<not> b \<Longrightarrow> ?u = 0" using ends by simp_all
  have cell: "links od x \<noteq> None" if "x \<in> set (0 # as1 @ as2)" for x
    using that D(9)[of x] e(1) by auto
  from set_next_eq[OF cell[OF C(7)], of ?v] obtain od1 where
    od1: "set_next ?u ?v od = Inr od1"
      "nxt od1 = (nxt od)(?u := ?v)" "prv od1 = prv od" "ky od1 = ky od"
      "\<forall>x. links od1 x = None \<longleftrightarrow> links od x = None" "fresh od1 = fresh od"
      "link_map od1 = link_map od" "dict_items od1 = dict_items od" by blast
  have "links od1 ?v \<noteq> None" using cell[OF C(6)] od1(5) by simp
  from set_prev_eq[OF this, of ?u] obtain od2 where
    od2: "set_prev ?v ?u od1 = Inr od2" "nxt od2 = nxt od1" "prv od2 = (prv od1)(?v := ?u)" "ky od2 = ky od1"
      "\<forall>x. links od2 x = None \<longleftrightarrow> links od1 x = None" "fresh od2 = fresh od1"
      "link_map od2 = link_map od1" "dict_items od2 = dict_items od1" by blast
  let ?od = "od2\<lparr>link_map := ddel k (link_map od2), dict_items := ddel k (dict_items od2)\<rparr>"
  have shown: "shows_items ?od (as1 @ as2) (xs1 @ xs2)"
    by (rule C(8)) (simp_all add: od1(2-8) od2(2-8))
  have rest: "(if b then butlast xs else tl xs) = xs1 @ xs2" "(if b then last xs else hd xs) = (k, v)"
    using ends e(2) by (cases b; simp)+
  have cut: "(if b then rbind (set_next (link_prev l) 0 od) (set_prev 0 (link_prev l))
       else rbind (set_next 0 (link_next l) od) (set_prev (link_next l) 0)) = Inr od2"
  proof (cases b)
    case True
    from od1(1) od2(1) uv(1)[OF True] have "set_next ?u 0 od = Inr od1" "set_prev 0 ?u od1 = Inr od2" by metis+
    with True pn(1) show ?thesis by simp
  next
    case False
    from od1(1) od2(1) uv(2)[OF False] have "set_next 0 ?v od = Inr od1" "set_prev ?v 0 od1 = Inr od2" by metis+
    with False pn(2) show ?thesis by simp
  qed
  have nonempty: "dict_items od \<noteq> []" using C(3) by auto
  have "link_at od 0 = Inr root" "link_at od a = Inr l" "dlookup (link_map od2) k = Inr a"
    "dlookup (dict_items od2) k = Inr v"
    using root l C(2,3) by (simp_all add: link_at_def od1(7,8) od2(7,8))
  note step = this
  have "popitem b od = Inr ((k, v), ?od)"
    unfolding popitem_def if_not_P[OF nonempty] step(1) rbind_simps Let_def at_end step(2) cut pn(3)
      option.case step(3,4) ..
  with shown show ?thesis unfolding rest by blast
qed

lemma od_clear_shows:
  assumes "shows_items od as xs"
  shows "shows_items (od_clear od) [] []"
proof -
  have "0 < fresh od" using shows_itemsD(9)[OF assms, of 0] by simp
  then show ?thesis
    by (simp add: shows_items_def od_clear_def Let_def ring_def nxt_def prv_def wf_dict_def)
qed

lemma od_empty_shows: "shows_items od_empty [] []"
  by (simp add: shows_items_def od_empty_def ring_def nxt_def prv_def wf_dict_def)

section \<open>Iteration: theorems\<close>

lemma walk_next:
  assumes "successively (\<lambda>x y. nxt od x = y \<and> prv od y = x) (p # as @ [0])"
    and "\<And>a. a \<in> set as \<Longrightarrow> a \<noteq> 0 \<and> links od a \<noteq> None"
  shows "walk_ring link_next od (nxt od p) = Some (Inr (map (ky od) as))"
  using assms
proof (induction as arbitrary: p)
  case (Cons a as)
  from Cons.prems(2)[of a] obtain l where l: "links od a = Some l" "a \<noteq> 0" by auto
  have "nxt od p = a" using Cons.prems(1) by simp
  moreover have "walk_ring link_next od (nxt od a) = Some (Inr (map (ky od) as))"
    using Cons.prems by (intro Cons.IH) simp_all
  ultimately show ?case using l
    by (subst walk_ring.simps) (simp add: link_at_def nxt_def ky_def)
qed (subst walk_ring.simps, simp)

lemma walk_prev:
  assumes "successively (\<lambda>x y. nxt od x = y \<and> prv od y = x) (0 # as @ [q])"
    and "\<And>a. a \<in> set as \<Longrightarrow> a \<noteq> 0 \<and> links od a \<noteq> None"
  shows "walk_ring link_prev od (prv od q) = Some (Inr (rev (map (ky od) as)))"
  using assms
proof (induction as arbitrary: q rule: rev_induct)
  case (snoc a as)
  from snoc.prems(2)[of a] obtain l where l: "links od a = Some l" "a \<noteq> 0" by auto
  have "successively (\<lambda>x y. nxt od x = y \<and> prv od y = x) ((0 # as @ [a]) @ [q])"
    using snoc.prems(1) by simp
  then have s: "successively (\<lambda>x y. nxt od x = y \<and> prv od y = x) (0 # as @ [a])" "prv od q = a"
    by (simp_all only: successively_append_iff) simp_all
  have "walk_ring link_prev od (prv od a) = Some (Inr (rev (map (ky od) as)))"
    using snoc.prems(2) by (intro snoc.IH[OF s(1)]) simp
  then show ?case using l s(2)
    by (subst walk_ring.simps) (simp add: link_at_def prv_def ky_def)
qed (subst walk_ring.simps, simp)

lemma iteration_shows:
  assumes s: "shows_items od as xs"
  shows "od_iter od = Some (Inr (map (\<lambda>x. Some (fst x)) xs))"
    and "od_reversed od = Some (Inr (rev (map (\<lambda>x. Some (fst x)) xs)))"
    and "od_items od = Some (Inr xs)"
proof -
  note D = shows_itemsD[OF s]
  have r: "successively (\<lambda>x y. nxt od x = y \<and> prv od y = x) (0 # as @ [0])"
    using D(3) by (simp add: ring_def)
  have cells: "a \<noteq> 0 \<and> links od a \<noteq> None" if "a \<in> set as" for a
  proof
    show "a \<noteq> 0" using D(1) that by (metis distinct.simps(2))
    show "links od a \<noteq> None" using D(9)[of a] that by simp
  qed
  from D(9)[of 0] obtain root where root: "links od 0 = Some root" by auto
  show it: "od_iter od = Some (Inr (map (\<lambda>x. Some (fst x)) xs))"
    using walk_next[OF r cells] root D(4) by (simp add: od_iter_def link_at_def nxt_def)
  show "od_reversed od = Some (Inr (rev (map (\<lambda>x. Some (fst x)) xs)))"
    using walk_prev[OF r cells] root D(4) by (simp add: od_reversed_def link_at_def prv_def)
  have "rmap (key_value od) (map (\<lambda>x. Some (fst x)) ys) = Inr ys" if "set ys \<subseteq> set xs" for ys
    using that
  proof (induction ys)
    case (Cons y ys)
    have "dget xs (fst y) = Some (snd y)"
      using D(5) Cons.prems by (simp add: wf_dict_def)
    then have "dget (dict_items od) (fst y) = Some (snd y)" unfolding D(8) .
    with Cons show ?case by (simp add: key_value_def dlookup_def)
  qed simp
  then show "od_items od = Some (Inr xs)" by (simp add: od_items_def it)
qed
section \<open>Refinement\<close>

text \<open>One call of a method; a call that raises leaves the dictionary as it was.\<close>

datatype 'v od_op =
    SetItem string 'v
  | DelItem string
  | PopItem bool
  | Pop string "'v option"
  | SetDefault string 'v
  | Update "(string \<times> 'v) list"
  | Clear

datatype 'v reply =
    Done
  | Value 'v
  | Item string 'v
  | Raised py_error

definition outcome :: "('a \<Rightarrow> 'v reply \<times> 's) \<Rightarrow> 's \<Rightarrow> 'a res \<Rightarrow> 'v reply \<times> 's" where
  "outcome f s r = (case r of Inl e \<Rightarrow> (Raised e, s) | Inr x \<Rightarrow> f x)"

definition od_step :: "'v od_op \<Rightarrow> 'v odict \<Rightarrow> 'v reply \<times> 'v odict" where
  "od_step call od =
     (case call of
        SetItem k v \<Rightarrow> outcome (\<lambda>od. (Done, od)) od (setitem k v od)
      | DelItem k \<Rightarrow> outcome (\<lambda>od. (Done, od)) od (delitem k od)
      | PopItem b \<Rightarrow> outcome (\<lambda>((k, v), od). (Item k v, od)) od (popitem b od)
      | Pop k d \<Rightarrow> outcome (\<lambda>(v, od). (Value v, od)) od (od_pop k d od)
      | SetDefault k v \<Rightarrow> outcome (\<lambda>(v, od). (Value v, od)) od (setdefault k v od)
      | Update ps \<Rightarrow> outcome (\<lambda>od. (Done, od)) od (od_update [ps] [] od)
      | Clear \<Rightarrow> (Done, od_clear od))"

text \<open>The same call on the list of items, in order.\<close>

fun items_step :: "'v od_op \<Rightarrow> (string \<times> 'v) list \<Rightarrow> 'v reply \<times> (string \<times> 'v) list" where
  "items_step (SetItem k v) xs = (Done, dset k v xs)"
| "items_step (DelItem k) xs = (if dhas xs k then (Done, ddel k xs) else (Raised (KeyError k), xs))"
| "items_step (PopItem b) xs =
     (if xs = [] then (Raised (KeyError ''dictionary is empty''), xs)
      else if b then (Item (fst (last xs)) (snd (last xs)), butlast xs)
      else (Item (fst (hd xs)) (snd (hd xs)), tl xs))"
| "items_step (Pop k d) xs =
     (case dget xs k of
        Some v \<Rightarrow> (Value v, ddel k xs)
      | None \<Rightarrow> (case d of None \<Rightarrow> (Raised (KeyError k), xs) | Some w \<Rightarrow> (Value w, xs)))"
| "items_step (SetDefault k v) xs =
     (case dget xs k of Some w \<Rightarrow> (Value w, xs) | None \<Rightarrow> (Value v, xs @ [(k, v)]))"
| "items_step (Update ps) xs = (Done, fold (\<lambda>(k, v). dset k v) ps xs)"
| "items_step Clear xs = (Done, [])"

definition od_run :: "('v od_op \<Rightarrow> 's \<Rightarrow> 'v reply \<times> 's) \<Rightarrow> 'v od_op list \<Rightarrow> 's \<Rightarrow> 'v reply list \<times> 's" where
  "od_run f ops s = fold (\<lambda>call (rs, s). case f call s of (r, s') \<Rightarrow> (rs @ [r], s')) ops ([], s)"
lemma update_shows:
  assumes "shows_items od as xs"
  shows "\<exists>od' as'. rfold (\<lambda>(k, v). setitem k v) ps od = Inr od'
    \<and> shows_items od' as' (fold (\<lambda>(k, v). dset k v) ps xs)"
  using assms
proof (induction ps arbitrary: od as xs)
  case (Cons p ps)
  obtain k v where p: "p = (k, v)" by fastforce
  from setitem_shows[OF Cons.prems, of k v] obtain od1 as1 where
    "setitem k v od = Inr od1" "shows_items od1 as1 (dset k v xs)" by blast
  with Cons.IH[OF this(2)] p show ?case by simp
qed auto

lemma no_items: "shows_items od as xs \<Longrightarrow> dict_items od = [] \<longleftrightarrow> xs = []"
proof -
  have "l = [] \<longleftrightarrow> map_of l = Map.empty" for l :: "(string \<times> 'v) list" by simp
  then show "shows_items od as xs \<Longrightarrow> dict_items od = [] \<longleftrightarrow> xs = []"
    by (metis shows_itemsD(8))
qed

lemma od_step_shows:
  assumes s: "shows_items od as xs"
  shows "fst (od_step call od) = fst (items_step call xs)
    \<and> (\<exists>as'. shows_items (snd (od_step call od)) as' (snd (items_step call xs)))"
proof -
  have get: "dget (dict_items od) k = dget xs k" for k using shows_itemsD(8)[OF s] by simp
  show ?thesis
  proof (cases call)
    case (SetItem k v)
    from setitem_shows[OF s, of k v] obtain od' as' where
      "setitem k v od = Inr od'" "shows_items od' as' (dset k v xs)" by blast
    then show ?thesis by (auto simp: SetItem od_step_def outcome_def)
  next
    case (DelItem k)
    show ?thesis
    proof (cases "dhas xs k")
      case True
      from delitem_shows[OF s True] obtain od' as' where
        "delitem k od = Inr od'" "shows_items od' as' (ddel k xs)" by blast
      then show ?thesis using True by (auto simp: DelItem od_step_def outcome_def)
    next
      case False
      then have "delitem k od = Inl (KeyError k)" using dhas_shows[OF s] by (simp add: delitem_def)
      then show ?thesis using False s by (auto simp: DelItem od_step_def outcome_def)
    qed
  next
    case (PopItem b)
    show ?thesis
    proof (cases "xs = []")
      case True
      then have "popitem b od = Inl (KeyError ''dictionary is empty'')"
        using no_items[OF s] by (simp add: popitem_def)
      then show ?thesis using True s by (auto simp: PopItem od_step_def outcome_def)
    next
      case False
      from popitem_shows[OF s this, of b] obtain od' as' where
        "popitem b od = Inr (if b then last xs else hd xs, od')"
        "shows_items od' as' (if b then butlast xs else tl xs)" by blast
      then show ?thesis using False
        by (cases b) (auto simp: PopItem od_step_def outcome_def case_prod_beta)
    qed
  next
    case (Pop k d)
    show ?thesis
    proof (cases "dget xs k")
      case None
      then show ?thesis using s
        by (cases d) (auto simp: Pop od_step_def outcome_def od_pop_def get)
    next
      case (Some v)
      then have "dhas xs k" by (simp add: dhas_def)
      from delitem_shows[OF s this] obtain od' as' where
        "delitem k od = Inr od'" "shows_items od' as' (ddel k xs)" by blast
      then show ?thesis using Some by (auto simp: Pop od_step_def outcome_def od_pop_def get)
    qed
  next
    case (SetDefault k v)
    show ?thesis
    proof (cases "dget xs k")
      case None
      then have "dset k v xs = xs @ [(k, v)]" by (intro dset_new) (simp add: dhas_def)
      moreover from setitem_shows[OF s, of k v] obtain od' as' where
        "setitem k v od = Inr od'" "shows_items od' as' (dset k v xs)" by blast
      ultimately show ?thesis using None
        by (auto simp: SetDefault od_step_def outcome_def setdefault_def get)
    next
      case (Some w)
      then show ?thesis using s by (auto simp: SetDefault od_step_def outcome_def setdefault_def get)
    qed
  next
    case (Update ps)
    from update_shows[OF s, of ps] obtain od' as' where
      "rfold (\<lambda>(k, v). setitem k v) ps od = Inr od'" "shows_items od' as' (fold (\<lambda>(k, v). dset k v) ps xs)"
      by blast
    then show ?thesis by (auto simp: Update od_step_def outcome_def od_update_def)
  next
    case Clear
    then show ?thesis using od_clear_shows[OF s] by (auto simp: od_step_def)
  qed
qed

lemma od_run_snoc: "od_run f (calls @ [call]) s =
    (case f call (snd (od_run f calls s)) of (r, s') \<Rightarrow> (fst (od_run f calls s) @ [r], s'))"
  by (simp add: od_run_def case_prod_beta)

lemma od_run_shows:
  assumes "shows_items od as xs"
  shows "fst (od_run od_step calls od) = fst (od_run items_step calls xs)
    \<and> (\<exists>as'. shows_items (snd (od_run od_step calls od)) as' (snd (od_run items_step calls xs)))"
proof (induction calls rule: rev_induct)
  case (snoc call calls)
  from conjunct2[OF snoc] obtain as' where
    s: "shows_items (snd (od_run od_step calls od)) as' (snd (od_run items_step calls xs))" by blast
  show ?case unfolding od_run_snoc using od_step_shows[OF s, of call] conjunct1[OF snoc]
    by (simp add: case_prod_beta)
qed (use assms in \<open>auto simp: od_run_def\<close>)

text \<open>C13.  The ring implements a list of items in insertion order: after any sequence of calls on a new
  ordered dictionary (items set, deleted, popped from either end or by key, defaults set, updates,
  clears, and calls that raise) every reply is that of the list, and iterating forwards and
  backwards ends and yields exactly the list and its reverse.\<close>

theorem OrderedDict_refines:
  "fst (od_run od_step calls od_empty) = fst (od_run items_step calls [])
    \<and> od_items (snd (od_run od_step calls od_empty)) = Some (Inr (snd (od_run items_step calls [])))
    \<and> od_reversed (snd (od_run od_step calls od_empty))
        = Some (Inr (rev (map (\<lambda>x. Some (fst x)) (snd (od_run items_step calls [])))))"
proof -
  from od_run_shows[OF od_empty_shows] obtain as' where
    "fst (od_run od_step calls od_empty) = fst (od_run items_step calls [])"
    "shows_items (snd (od_run od_step calls od_empty)) as' (snd (od_run items_step calls []))" by blast
  with iteration_shows(2,3)[OF this(2)] show ?thesis by simp
qed

text \<open>Two ordered dictionaries are equal exactly when they hold the same items in the same order;
  against a plain dictionary the order does not matter.\<close>

theorem OrderedDict_eq:
  assumes "shows_items od as xs" "shows_items other bs ys" "wf_dict zs"
  shows "od_eq od other = Some (Inr (xs = ys)) \<and> dict_eq od zs = (map_of xs = map_of zs)"
proof -
  have len: "length (dict_items d) = card (dom (map_of x))" if "shows_items d cs x" for d :: "'a odict" and cs x
    using shows_itemsD(6,8)[OF that] distinct_card[of "map fst (dict_items d)"]
    by (simp add: wf_dict_def dom_map_of_conv_image_fst flip: dom_map_of_conv_image_fst)
  have "od_eq od other = Some (Inr (xs = ys))"
    using iteration_shows(3)[OF assms(1)] iteration_shows(3)[OF assms(2)] len[OF assms(1)] len[OF assms(2)]
    by (auto simp: od_eq_def)
  moreover have "dict_eq od zs = (map_of xs = map_of zs)"
  proof
    assume e: "dict_eq od zs"
    have sub: "map_of xs \<subseteq>\<^sub>m map_of zs"
    proof (unfold map_le_def, clarify)
      fix k v assume "dget xs k = Some v"
      then have "dget (dict_items od) k = Some v" using shows_itemsD(8)[OF assms(1)] by simp
      then have "(k, v) \<in> set (dict_items od)" by (rule map_of_SomeD)
      with e \<open>dget xs k = Some v\<close> show "dget xs k = dget zs k" by (auto simp: dict_eq_def)
    qed
    have "card (dom (map_of zs)) = length zs"
      using assms(3) distinct_card[of "map fst zs"] by (simp add: wf_dict_def dom_map_of_conv_image_fst)
    then have "dom (map_of xs) = dom (map_of zs)"
      using e len[OF assms(1)] map_le_implies_dom_le[OF sub]
      by (intro card_subset_eq) (simp_all add: dict_eq_def finite_dom_map_of)
    with sub show "map_of xs = map_of zs" by (metis map_le_antisym map_le_def)
  next
    assume e: "map_of xs = map_of zs"
    have "card (dom (map_of zs)) = length zs"
      using assms(3) distinct_card[of "map fst zs"] by (simp add: wf_dict_def dom_map_of_conv_image_fst)
    moreover have "dget zs k = Some v" if "(k, v) \<in> set (dict_items od)" for k v
      using that shows_itemsD(6,8)[OF assms(1)] e by (metis map_of_is_SomeI wf_dict_def)
    ultimately show "dict_eq od zs" using e len[OF assms(1)] by (auto simp: dict_eq_def)
  qed
  ultimately show ?thesis ..
qed

theorem OrderedDict_eq_witness:
  "od_eq od_empty (od_empty :: nat odict) = Some (Inr True)"
proof -
  have "wf_dict ([] :: (string \<times> nat) list)" by (simp add: wf_dict_def)
  from OrderedDict_eq[OF od_empty_shows od_empty_shows this] show ?thesis by simp
qed

end
