(* ===== verification/Ninja_Syntax.thy ===== *)
theory Ninja_Syntax
  imports Py_Prelude
begin

text \<open>
  \<open>tools/gyp/pylib/gyp/ninja_syntax.py\<close>: the writer of ninja build files.  A method takes the
  text written so far and returns it with its own output appended; \<open>width\<close> is the attribute of the
  writer.  String searches are those of Python, negative positions included.  \<open>comment\<close> is left out:
  it prints what \<open>textwrap\<close> returns.
\<close>

section \<open>Searching\<close>

definition clip :: "string \<Rightarrow> int \<Rightarrow> int" where
  "clip s i = (if i < 0 then max 0 (i + int (length s)) else min i (int (length s)))"

text \<open>\<open>s.rfind(c, 0, e)\<close> and \<open>s.find(c, b)\<close> for a character.\<close>

fun last_index :: "char \<Rightarrow> string \<Rightarrow> nat \<Rightarrow> int" where
  "last_index c s 0 = -1"
| "last_index c s (Suc n) = (if s ! n = c then int n else last_index c s n)"

definition py_rfind :: "string \<Rightarrow> char \<Rightarrow> int \<Rightarrow> int" where
  "py_rfind s c e = last_index c s (nat (clip s e))"

definition py_find :: "string \<Rightarrow> char \<Rightarrow> int \<Rightarrow> int" where
  "py_find s c b =
     (case find (\<lambda>i. s ! i = c) [nat (clip s b)..<length s] of Some i \<Rightarrow> int i | None \<Rightarrow> -1)"

lemma last_index_bounds: "n \<le> length s \<Longrightarrow> 0 \<le> last_index c s n \<Longrightarrow>
    last_index c s n < int n \<and> s ! nat (last_index c s n) = c"
  by (induction n) (auto split: if_splits)

lemma last_index_none: "last_index c s n < 0 \<Longrightarrow> i < n \<Longrightarrow> s ! i \<noteq> c"
  by (induction n) (auto simp: less_Suc_eq split: if_splits)

lemma clip_bounds: "0 \<le> clip s i" "clip s i \<le> int (length s)"
  by (auto simp: clip_def)

lemma py_rfind_bounds:
  assumes "0 \<le> py_rfind s c e"
  shows "py_rfind s c e < clip s e" "s ! nat (py_rfind s c e) = c"
  using last_index_bounds[of "nat (clip s e)" s c] assms clip_bounds[of s e]
  by (simp_all add: py_rfind_def nat_le_iff)

lemma py_find_bounds:
  assumes "0 \<le> py_find s c b"
  shows "clip s b \<le> py_find s c b" "py_find s c b < int (length s)" "s ! nat (py_find s c b) = c"
proof -
  from assms obtain i where i: "find (\<lambda>i. s ! i = c) [nat (clip s b)..<length s] = Some i"
    by (auto simp: py_find_def split: option.splits)
  then have "i \<in> set [nat (clip s b)..<length s]" "s ! i = c"
    by (auto simp: find_Some_iff)
  with i show "clip s b \<le> py_find s c b" "py_find s c b < int (length s)" "s ! nat (py_find s c b) = c"
    by (auto simp: py_find_def)
qed

section \<open>Lines\<close>

text \<open>The loop of \<open>_count_dollars_before_index\<close>: it stops at position 0 without looking there.\<close>

fun count_dollars :: "string \<Rightarrow> nat \<Rightarrow> nat" where
  "count_dollars s 0 = 0"
| "count_dollars s (Suc n) = (if s ! Suc n = CHR ''$'' then Suc (count_dollars s n) else 0)"

definition count_dollars_before_index :: "string \<Rightarrow> nat \<Rightarrow> nat" where
  "count_dollars_before_index s i = (case i of 0 \<Rightarrow> 0 | Suc j \<Rightarrow> count_dollars s j)"

text \<open>The two searches for a space to break at: from a position to the left, and to the right.\<close>

function break_left :: "string \<Rightarrow> int \<Rightarrow> int" where
  "break_left s space =
     (let space' = py_rfind s CHR '' '' space
      in if space' < 0 \<or> even (count_dollars_before_index s (nat space')) then space'
         else break_left s space')"
  by pat_completeness auto
termination
proof (relation "measure (\<lambda>(s, space). nat (clip s space))")
  fix s space space'
  assume e: "space' = py_rfind s CHR '' '' space"
    and n: "\<not> (space' < 0 \<or> even (count_dollars_before_index s (nat space')))"
  then have "0 \<le> space'" "space' < clip s space" using py_rfind_bounds(1)[of s "CHR '' ''" space] by auto
  then have "clip s space' = space'" using clip_bounds(2)[of s space] by (simp add: clip_def)
  with \<open>space' < clip s space\<close> \<open>0 \<le> space'\<close>
  show "((s, space'), s, space) \<in> measure (\<lambda>(s, space). nat (clip s space))" by simp
qed simp

function break_right :: "string \<Rightarrow> int \<Rightarrow> int" where
  "break_right s space =
     (let space' = py_find s CHR '' '' (space + 1)
      in if space' < 0 \<or> even (count_dollars_before_index s (nat space')) then space'
         else break_right s space')"
  by pat_completeness auto
termination
proof (relation "measure (\<lambda>(s, space). length s - nat (clip s (space + 1)))")
  fix s space space'
  assume e: "space' = py_find s CHR '' '' (space + 1)"
    and n: "\<not> (space' < 0 \<or> even (count_dollars_before_index s (nat space')))"
  then have "0 \<le> space'" "clip s (space + 1) \<le> space'" "space' < int (length s)"
    using py_find_bounds(1,2)[of s "CHR '' ''" "space + 1"] by auto
  moreover from this have "clip s (space' + 1) = space' + 1" by (simp add: clip_def)
  ultimately show "((s, space'), s, space) \<in> measure (\<lambda>(s, space). length s - nat (clip s (space + 1)))"
    using clip_bounds(1)[of s "space + 1"] by simp
qed simp

declare break_left.simps [simp del] break_right.simps [simp del]

lemma break_left_bounds:
  "0 \<le> break_left s e \<Longrightarrow> break_left s e < clip s e \<and> s ! nat (break_left s e) = CHR '' ''
     \<and> even (count_dollars_before_index s (nat (break_left s e)))"
proof (induction s e rule: break_left.induct)
  case (1 s e)
  let ?r = "py_rfind s CHR '' '' e"
  show ?case
  proof (cases "?r < 0 \<or> even (count_dollars_before_index s (nat ?r))")
    case True
    then have "break_left s e = ?r" by (simp add: break_left.simps[of s e] Let_def)
    with 1(2) True py_rfind_bounds[of s "CHR '' ''" e] show ?thesis by auto
  next
    case False
    then have b: "break_left s e = break_left s ?r" by (simp add: break_left.simps[of s e] Let_def)
    have "?r < clip s e" using False py_rfind_bounds(1)[of s "CHR '' ''" e] by simp
    moreover have "clip s ?r \<le> ?r" using False by (simp add: clip_def)
    ultimately show ?thesis using 1(1)[OF refl False] 1(2) b by auto
  qed
qed

lemma break_right_bounds:
  "0 \<le> break_right s b \<Longrightarrow> break_right s b < int (length s) \<and> s ! nat (break_right s b) = CHR '' ''
     \<and> even (count_dollars_before_index s (nat (break_right s b)))"
proof (induction s b rule: break_right.induct)
  case (1 s b)
  let ?r = "py_find s CHR '' '' (b + 1)"
  show ?case
  proof (cases "?r < 0 \<or> even (count_dollars_before_index s (nat ?r))")
    case True
    then have "break_right s b = ?r" by (simp add: break_right.simps[of s b] Let_def)
    with 1(2) True py_find_bounds[of s "CHR '' ''" "b + 1"] show ?thesis by auto
  next
    case False
    then have "break_right s b = break_right s ?r" by (simp add: break_right.simps[of s b] Let_def)
    with 1(1)[OF refl False] 1(2) show ?thesis by simp
  qed
qed

text \<open>The position at which a line is broken, negative when there is none.\<close>

definition break_at :: "int \<Rightarrow> string \<Rightarrow> string \<Rightarrow> int" where
  "break_at width leading_space body =
     (let available_space = width - int (length leading_space) - 2;
          space = break_left body available_space
      in if space < 0 then break_right body (available_space - 1) else space)"

lemma break_at_bounds:
  assumes "0 \<le> break_at width leading body"
  shows "break_at width leading body < int (length body)"
    "body ! nat (break_at width leading body) = CHR '' ''"
    "even (count_dollars_before_index body (nat (break_at width leading body)))"
proof -
  let ?a = "width - int (length leading) - 2"
  have "break_at width leading body < int (length body)
      \<and> body ! nat (break_at width leading body) = CHR '' ''
      \<and> even (count_dollars_before_index body (nat (break_at width leading body)))"
  proof (cases "break_left body ?a < 0")
    case True
    with assms break_right_bounds[of body "?a - 1"] show ?thesis by (simp add: break_at_def Let_def)
  next
    case False
    with break_left_bounds[of body ?a] clip_bounds(2)[of body ?a] show ?thesis
      by (simp add: break_at_def Let_def)
  qed
  then show "break_at width leading body < int (length body)"
    "body ! nat (break_at width leading body) = CHR '' ''"
    "even (count_dollars_before_index body (nat (break_at width leading body)))" by blast+
qed

function line_loop :: "int \<Rightarrow> nat \<Rightarrow> string \<Rightarrow> string \<Rightarrow> string" where
  "line_loop width indent leading_space body =
     (if width < int (length leading_space) + int (length body)
      then
        let space = break_at width leading_space body in
        if space < 0 then leading_space @ body @ [CHR 0x0A]
        else leading_space @ take (nat space) body @ '' $'' @ [CHR 0x0A]
             @ line_loop width indent (replicate (2 * (indent + 2)) CHR '' '') (drop (nat space + 1) body)
      else leading_space @ body @ [CHR 0x0A])"
  by pat_completeness auto
termination
proof (relation "measure (\<lambda>(width, indent, leading, body). length body)")
  fix width indent leading body space
  assume "space = break_at width leading body" "\<not> space < 0"
  with break_at_bounds(1)[of width leading body]
  show "((width, indent, replicate (2 * (indent + 2)) CHR '' '', drop (nat space + 1) body),
      width, indent, leading, body) \<in> measure (\<lambda>(width, indent, leading, body). length body)" by simp
qed simp

declare line_loop.simps [simp del]

definition line :: "int \<Rightarrow> string \<Rightarrow> nat \<Rightarrow> string \<Rightarrow> string" where
  "line width body indent output =
     output @ line_loop width indent (replicate (2 * indent) CHR '' '') body"

section \<open>The writer\<close>

definition escape_path :: "string \<Rightarrow> string" where
  "escape_path word = replace_str '':'' ''$:'' (replace_str '' '' ''$ '' (replace_str ''$ '' ''$$ '' word))"

definition ninja_escape :: "string \<Rightarrow> string res" where
  "ninja_escape s = (if CHR 0x0A \<in> set s then Inl AssertionError else Inr (replace_str ''$'' ''$$'' s))"

definition newline :: "string \<Rightarrow> string" where
  "newline output = output @ [CHR 0x0A]"

definition join_item :: "pyval \<Rightarrow> string res" where
  "join_item v = (case v of PStr s \<Rightarrow> Inr s
     | _ \<Rightarrow> Inl (TypeError (''sequence item: expected string, '' @ class_name v @ '' found'')))"

definition variable :: "int \<Rightarrow> string \<Rightarrow> pyval \<Rightarrow> nat \<Rightarrow> string \<Rightarrow> string res" where
  "variable width key val indent output =
     (case val of
        PNone \<Rightarrow> Inr output
      | PList l \<Rightarrow>
          rbind (rmap join_item (filter truthy l)) (\<lambda>ws.
            Inr (line width (key @ '' = '' @ join_str '' '' ws) indent output))
      | _ \<Rightarrow> Inr (line width (key @ '' = '' @ py_str val) indent output))"

definition pool :: "int \<Rightarrow> string \<Rightarrow> pyval \<Rightarrow> string \<Rightarrow> string res" where
  "pool width name depth output =
     variable width ''depth'' depth 1 (line width (''pool '' @ name) 0 output)"

record rule_args =
  description :: pyval
  depfile :: pyval
  generator :: pyval
  rule_pool :: pyval
  restat :: pyval
  rspfile :: pyval
  rspfile_content :: pyval
  deps :: pyval

definition rule_variables :: "rule_args \<Rightarrow> (string \<times> pyval) list" where
  "rule_variables a =
     filter (\<lambda>kv. truthy (snd kv))
       [(''description'', description a), (''depfile'', depfile a),
        (''generator'', if truthy (generator a) then PStr ''1'' else PNone),
        (''pool'', rule_pool a), (''restat'', if truthy (restat a) then PStr ''1'' else PNone),
        (''rspfile'', rspfile a), (''rspfile_content'', rspfile_content a), (''deps'', deps a)]"

definition ninja_rule :: "int \<Rightarrow> string \<Rightarrow> pyval \<Rightarrow> rule_args \<Rightarrow> string \<Rightarrow> string res" where
  "ninja_rule width name command a output =
     rbind (variable width ''command'' command 1 (line width (''rule '' @ name) 0 output))
       (rfold (\<lambda>(k, v). variable width k v 1) (rule_variables a))"

definition ninja_as_list :: "pyval \<Rightarrow> pyval list" where
  "ninja_as_list v = (case v of PNone \<Rightarrow> [] | PList l \<Rightarrow> l | _ \<Rightarrow> [v])"

definition escaped_paths :: "pyval \<Rightarrow> string list res" where
  "escaped_paths v = rmap (\<lambda>w. rbind (as_str ''replace'' w) (\<lambda>s. Inr (escape_path s))) (ninja_as_list v)"

definition more_inputs :: "string \<Rightarrow> pyval \<Rightarrow> string list \<Rightarrow> string list res" where
  "more_inputs mark v all_inputs =
     (if truthy v then rbind (escaped_paths v) (\<lambda>ws. Inr (all_inputs @ mark # ws)) else Inr all_inputs)"

text \<open>\<open>variables\<close> is a dictionary or a list of pairs; either way, its items in order.\<close>

definition build :: "int \<Rightarrow> pyval \<Rightarrow> string \<Rightarrow> pyval \<Rightarrow> pyval \<Rightarrow> pyval \<Rightarrow> (string \<times> pyval) list \<Rightarrow> string
    \<Rightarrow> (pyval list \<times> string) res" where
  "build width outputs rule inputs implicit order_only variables output =
     rbind (escaped_paths outputs) (\<lambda>out_outputs.
     rbind (escaped_paths inputs) (\<lambda>all_inputs.
     rbind (more_inputs ''|'' implicit all_inputs) (\<lambda>all_inputs.
     rbind (more_inputs ''||'' order_only all_inputs) (\<lambda>all_inputs.
     rbind (rfold (\<lambda>(k, v). variable width k v 1) variables
              (line width (''build '' @ join_str '' '' out_outputs @ '': ''
                             @ join_str '' '' (rule # all_inputs)) 0 output))
       (\<lambda>output. Inr (ninja_as_list outputs, output))))))"

definition ninja_include :: "int \<Rightarrow> string \<Rightarrow> string \<Rightarrow> string" where
  "ninja_include width path output = line width (''include '' @ path) 0 output"

definition subninja :: "int \<Rightarrow> string \<Rightarrow> string \<Rightarrow> string" where
  "subninja width path output = line width (''subninja '' @ path) 0 output"

definition ninja_default :: "int \<Rightarrow> pyval \<Rightarrow> string \<Rightarrow> string res" where
  "ninja_default width paths output =
     rbind (rmap join_item (ninja_as_list paths)) (\<lambda>ws.
       Inr (line width (''default '' @ join_str '' '' ws) 0 output))"
section \<open>Wrapping: theorems\<close>

text \<open>What the dollar count computes: the dollars right before the position, but never one at the
  very beginning.\<close>

lemma count_dollars_eq:
  "i \<le> length s \<Longrightarrow>
    count_dollars_before_index s i = length (takeWhile (\<lambda>c. c = CHR ''$'') (rev (tl (take i s))))"
proof (induction i)
  case (Suc n)
  then have n: "n < length s" by simp
  show ?case
  proof (cases n)
    case 0
    then show ?thesis by (cases s) (simp_all add: count_dollars_before_index_def)
  next
    case (Suc m)
    then have t: "tl (take (Suc n) s) = tl (take n s) @ [s ! n]"
      using n by (simp add: take_Suc_conv_app_nth tl_append split: list.splits)
    have "count_dollars_before_index s (Suc n)
        = (if s ! n = CHR ''$'' then Suc (count_dollars_before_index s n) else 0)"
      by (simp add: count_dollars_before_index_def Suc)
    then show ?thesis using Suc.IH n unfolding t by simp
  qed
qed (simp add: count_dollars_before_index_def)

text \<open>So a space that a leading dollar escapes counts as a place to break.\<close>

lemma leading_dollar_not_counted:
  "count_dollars_before_index ''$ a'' 1 = 0"
  "line 4 ''$ abcd'' 0 [] = ''$ $'' @ [CHR 0x0A] @ ''    abcd'' @ [CHR 0x0A]"
  by (code_simp, code_simp)

lemma count_dollars_take: "i < n \<Longrightarrow> count_dollars_before_index (take n s) i = count_dollars_before_index s i"
proof -
  have "j < n \<Longrightarrow> count_dollars (take n s) j = count_dollars s j" for j by (induction j) auto
  then show "i < n \<Longrightarrow> ?thesis" by (cases i) (simp_all add: count_dollars_before_index_def)
qed

text \<open>A line that offers no space to break at.\<close>

definition open_space :: "string \<Rightarrow> nat \<Rightarrow> bool" where
  "open_space s i = (s ! i = CHR '' '' \<and> even (count_dollars_before_index s i))"

text \<open>The same, stated on the text: a space that an odd number of dollars stands right in front of is
  escaped.  A dollar at the very beginning of the text is not counted.\<close>

definition escapes_next :: "string \<Rightarrow> bool" where
  "escapes_next p = odd (length (takeWhile (\<lambda>c. c = CHR ''$'') (rev (tl p))))"

definition unbreakable :: "string \<Rightarrow> bool" where
  "unbreakable s = (\<forall>i < length s. s ! i = CHR '' '' \<longrightarrow> escapes_next (take i s))"

lemma open_space_iff: "i \<le> length s \<Longrightarrow> open_space s i \<longleftrightarrow> s ! i = CHR '' '' \<and> \<not> escapes_next (take i s)"
  by (simp add: open_space_def escapes_next_def count_dollars_eq)

lemma unbreakable_open: "unbreakable s = (\<forall>i < length s. \<not> open_space s i)"
  by (auto simp: unbreakable_def open_space_iff)

lemma unbreakable_take: "n \<le> length s \<Longrightarrow> (\<And>i. i < n \<Longrightarrow> \<not> open_space s i) \<Longrightarrow> unbreakable (take n s)"
  by (auto simp: unbreakable_open open_space_def count_dollars_take)

lemma py_rfind_all:
  assumes "i < nat (clip s e)" "py_rfind s c e < int i"
  shows "s ! i \<noteq> c"
proof -
  have "last_index c s n < int i \<Longrightarrow> i < n \<Longrightarrow> s ! i \<noteq> c" for n
    by (induction n) (auto simp: less_Suc_eq split: if_splits)
  then show ?thesis using assms by (simp add: py_rfind_def)
qed

lemma break_left_none:
  "break_left s e < 0 \<Longrightarrow> i < nat (clip s e) \<Longrightarrow> \<not> open_space s i"
proof (induction s e rule: break_left.induct)
  case (1 s e)
  let ?r = "py_rfind s CHR '' '' e"
  show ?case
  proof (cases "?r < 0 \<or> even (count_dollars_before_index s (nat ?r))")
    case True
    then have "break_left s e = ?r" by (simp add: break_left.simps[of s e] Let_def)
    then have "?r < 0" using 1(2) by simp
    then show ?thesis using py_rfind_all[OF 1(3), of "CHR '' ''"] by (simp add: open_space_def)
  next
    case False
    then have b: "break_left s ?r < 0" using 1(2) by (simp add: break_left.simps[of s e] Let_def)
    have "?r < clip s e" using False py_rfind_bounds(1)[of s "CHR '' ''" e] by simp
    then have clip: "clip s ?r = ?r" using False clip_bounds(2)[of s e] by (simp add: clip_def)
    show ?thesis
    proof (cases "int i < ?r")
      case True
      then show ?thesis using 1(1)[OF refl False b] clip by simp
    next
      case no: False
      show ?thesis
      proof (cases "int i = ?r")
        case True
        then have "nat ?r = i" by simp
        with False show ?thesis by (simp add: open_space_def)
      next
        case neq: False
        with no have "?r < int i" by simp
        from py_rfind_all[OF 1(3) this] show ?thesis by (simp add: open_space_def)
      qed
    qed
  qed
qed

lemma py_find_all:
  assumes "nat (clip s b) \<le> i" "i < length s" "py_find s c b < 0 \<or> int i < py_find s c b"
  shows "s ! i \<noteq> c"
proof (cases "find (\<lambda>i. s ! i = c) [nat (clip s b)..<length s]")
  case None
  then show ?thesis using assms(1,2) by (auto simp: find_None_iff)
next
  case (Some j)
  then obtain k where k: "k < length [nat (clip s b)..<length s]" "[nat (clip s b)..<length s] ! k = j"
    "\<forall>m < k. s ! ([nat (clip s b)..<length s] ! m) \<noteq> c" by (auto simp: find_Some_iff)
  then have j: "j = nat (clip s b) + k" by simp
  have "i < j" using Some assms(3) by (simp add: py_find_def)
  then have "i - nat (clip s b) < k" using j assms(1) by simp
  with k(3) have "s ! ([nat (clip s b)..<length s] ! (i - nat (clip s b))) \<noteq> c" by blast
  then show ?thesis using assms(1,2) by simp
qed

lemma break_right_first:
  "nat (clip s (b + 1)) \<le> i \<Longrightarrow> i < length s \<Longrightarrow> break_right s b < 0 \<or> int i < break_right s b \<Longrightarrow>
    \<not> open_space s i"
proof (induction s b rule: break_right.induct)
  case (1 s b)
  let ?r = "py_find s CHR '' '' (b + 1)"
  show ?case
  proof (cases "?r < 0 \<or> even (count_dollars_before_index s (nat ?r))")
    case True
    then have "break_right s b = ?r" by (simp add: break_right.simps[of s b] Let_def)
    then have "?r < 0 \<or> int i < ?r" using 1(4) by simp
    from py_find_all[OF 1(2,3) this] show ?thesis by (simp add: open_space_def)
  next
    case False
    then have b: "break_right s b = break_right s ?r" by (simp add: break_right.simps[of s b] Let_def)
    have "?r < int (length s)" using False py_find_bounds(2)[of s "CHR '' ''" "b + 1"] by simp
    then have clip: "clip s (?r + 1) = ?r + 1" using False by (simp add: clip_def)
    consider "int i < ?r" | "int i = ?r" | "?r < int i" by linarith
    then show ?thesis
    proof cases
      case 1
      then show ?thesis using py_find_all[OF \<open>nat (clip s (b + 1)) \<le> i\<close> \<open>i < length s\<close>, of "CHR '' ''"]
        by (simp add: open_space_def)
    next
      case 2
      then have "nat ?r = i" by simp
      with False show ?thesis by (simp add: open_space_def)
    next
      case 3
      then have "nat (clip s (?r + 1)) \<le> i" using clip by simp
      from "1.IH"[OF refl False this \<open>i < length s\<close>] 1(4) b show ?thesis by simp
    qed
  qed
qed

lemma break_at_best:
  assumes "int (length lead) + 2 \<le> width"
  shows "break_at width lead s < 0 \<Longrightarrow> unbreakable s"
    and "0 \<le> break_at width lead s \<Longrightarrow>
      int (length lead) + break_at width lead s + 2 \<le> width \<or> unbreakable (take (nat (break_at width lead s)) s)"
proof -
  let ?a = "width - int (length lead) - 2"
  let ?l = "break_left s ?a" and ?r = "break_right s (?a - 1)"
  have left: "?l < clip s ?a" if "0 \<le> ?l" using break_left_bounds[OF that] by simp
  have clip: "clip s ?a \<le> ?a" using assms by (simp add: clip_def)
  show "unbreakable s" if "break_at width lead s < 0"
  proof -
    from that have n: "?l < 0" "?r < 0" by (auto simp: break_at_def Let_def split: if_splits)
    have "\<not> open_space s i" if "i < length s" for i
      using break_left_none[OF n(1), of i] break_right_first[of s "?a - 1" i] n(2) that
      by (cases "i < nat (clip s ?a)") simp_all
    then show ?thesis by (simp add: unbreakable_open)
  qed
  assume b: "0 \<le> break_at width lead s"
  show "int (length lead) + break_at width lead s + 2 \<le> width
      \<or> unbreakable (take (nat (break_at width lead s)) s)"
  proof (cases "0 \<le> ?l")
    case True
    then have "break_at width lead s = ?l" by (simp add: break_at_def Let_def)
    with left[OF True] clip show ?thesis by simp
  next
    case False
    then have r: "break_at width lead s = ?r" by (simp add: break_at_def Let_def)
    have n: "?l < 0" using False by simp
    have "?r < int (length s)" using b r break_right_bounds[of s "?a - 1"] by simp
    then have "unbreakable (take (nat ?r) s)"
    proof (intro unbreakable_take)
      fix i assume "i < nat ?r"
      then have "int i < ?r" "i < length s" using \<open>?r < int (length s)\<close> by linarith+
      then show "\<not> open_space s i"
        using break_left_none[OF n, of i] break_right_first[of s "?a - 1" i]
        by (cases "i < nat (clip s ?a)") simp_all
    qed simp
    then show ?thesis using r by simp
  qed
qed

text \<open>The lines a list of pieces is printed as, and what the wrapping promises of them.\<close>

fun emit :: "string \<Rightarrow> string \<Rightarrow> string list \<Rightarrow> string" where
  "emit lead cont [] = []"
| "emit lead cont [p] = lead @ p @ [CHR 0x0A]"
| "emit lead cont (p # q # ps) = lead @ p @ '' $'' @ [CHR 0x0A] @ emit cont cont (q # ps)"

fun wrapped :: "int \<Rightarrow> string \<Rightarrow> string \<Rightarrow> string list \<Rightarrow> bool" where
  "wrapped width lead cont [] = True"
| "wrapped width lead cont [p] = (int (length lead) + int (length p) \<le> width \<or> unbreakable p)"
| "wrapped width lead cont (p # q # ps) =
     (\<not> escapes_next p \<and> (int (length lead) + int (length p) + 2 \<le> width \<or> unbreakable p)
      \<and> wrapped width cont cont (q # ps))"

lemma line_loop_wraps:
  assumes "int (length lead) + 2 \<le> width" "cont = replicate (2 * (indent + 2)) CHR '' ''"
    "int (length cont) + 2 \<le> width"
  shows "\<exists>ps. ps \<noteq> [] \<and> body = join_str '' '' ps \<and> line_loop width indent lead body = emit lead cont ps
    \<and> wrapped width lead cont ps"
  using assms
proof (induction width indent lead body rule: line_loop.induct)
  case (1 width indent lead body)
  let ?space = "break_at width lead body"
  show ?case
  proof (cases "width < int (length lead) + int (length body) \<and> 0 \<le> ?space")
    case False
    then have e: "line_loop width indent lead body = emit lead cont [body]"
      by (subst line_loop.simps) (auto simp: Let_def)
    have "wrapped width lead cont [body]"
      using False break_at_best(1)[OF 1(2), of body] by auto
    with e show ?thesis by (intro exI[of _ "[body]"]) simp
  next
    case True
    let ?p = "take (nat ?space) body" and ?rest = "drop (nat ?space + 1) body"
    have b: "?space < int (length body)" "body ! nat ?space = CHR '' ''"
      using break_at_bounds[of width lead body] True by simp_all
    from "1.IH"[OF _ refl, of] True 1(3,4) obtain ps where
      ps: "ps \<noteq> []" "?rest = join_str '' '' ps" "line_loop width indent cont ?rest = emit cont cont ps"
        "wrapped width cont cont ps" by auto
    have len: "length ?p = nat ?space" using b(1) by simp
    have "nat ?space < length body" using b(1) True by linarith
    then have "body = ?p @ body ! nat ?space # ?rest"
      using id_take_nth_drop[of "nat ?space" body] by simp
    then have body: "body = join_str '' '' (?p # ps)" using b(2) ps(1,2) by (simp add: join_str_Cons)
    from ps(1) obtain q qs where q: "ps = q # qs" by (cases ps) auto
    have e: "line_loop width indent lead body = emit lead cont (?p # ps)"
      using True ps(3) 1(3) by (subst line_loop.simps) (simp add: Let_def q)
    have "\<not> escapes_next ?p"
      using break_at_bounds(1,3)[of width lead body] True by (simp add: escapes_next_def count_dollars_eq)
    then have "wrapped width lead cont (?p # ps)"
      using break_at_best(2)[OF 1(2), of body] True ps(4) len by (simp add: q)
    with body e show ?thesis by blast
  qed
qed

text \<open>C40.  A line the writer prints is the text cut at spaces, each cut printed as a continuation: joining
  the pieces with spaces gives the text back.  No cut is at a space that an odd number of dollars
  escapes (where a dollar that begins the piece is not counted, as the code does), and no line is
  wider than the width of the writer unless it offers no other place to break.\<close>

theorem line_wraps:
  assumes "int (2 * (indent + 2)) + 2 \<le> width"
  shows "\<exists>ps. body = join_str '' '' ps
    \<and> line width body indent output
        = output @ emit (replicate (2 * indent) CHR '' '') (replicate (2 * (indent + 2)) CHR '' '') ps
    \<and> wrapped width (replicate (2 * indent) CHR '' '') (replicate (2 * (indent + 2)) CHR '' '') ps"
proof -
  let ?lead = "replicate (2 * indent) CHR '' ''" and ?cont = "replicate (2 * (indent + 2)) CHR '' ''"
  have "int (length ?lead) + 2 \<le> width" "int (length ?cont) + 2 \<le> width" using assms by simp_all
  from line_loop_wraps[OF this(1) refl this(2), of body] show ?thesis
    unfolding line_def by blast
qed

theorem line_wraps_witness:
  "\<exists>ps. ''build a$ b c'' = join_str '' '' ps \<and> line 8 ''build a$ b c'' 0 [] = emit [] ''    '' ps
    \<and> wrapped 8 [] ''    '' ps"
  using line_wraps[of 0 8 "''build a$ b c''" "[]"] by (auto simp: numeral_eq_Suc)

end
