(* ===== verification/Easy_Xml.thy ===== *)
theory Easy_Xml
  imports Py_Prelude
begin

text \<open>
  The XML writers of the generators: \<open>tools/gyp/pylib/gyp/easy_xml.py\<close>, which prints nested lists
  as XML elements, and \<open>tools/gyp/pylib/gyp/xml_fix.py\<close>, which replaces two functions of
  \<open>xml.dom.minidom\<close>.  The list of parts that the source collects is their concatenation here.
\<close>

section \<open>Escaping\<close>

definition xml_escape_map :: "(char \<times> string) list" where
  "xml_escape_map =
     [(CHR 0x22, ''&quot;''), (CHR 0x27, ''&apos;''), (CHR ''<'', ''&lt;''), (CHR ''>'', ''&gt;''),
      (CHR ''&'', ''&amp;''), (CHR 0x0A, ''&#xA;''), (CHR 0x0D, ''&#xD;'')]"

definition escape_match :: "bool \<Rightarrow> char \<Rightarrow> string" where
  "escape_match attr m =
     (if attr \<and> m = CHR 0x27 then [m]
      else case map_of xml_escape_map m of Some e \<Rightarrow> e | None \<Rightarrow> [m])"

definition XmlEscape :: "bool \<Rightarrow> string \<Rightarrow> string" where
  "XmlEscape attr s = concat (map (escape_match attr) s)"

section \<open>Elements\<close>

text \<open>The parts of a specification: its name, its attributes, its content.\<close>

definition spec_parts :: "pyval \<Rightarrow> (string \<times> pydict \<times> pyval list) res" where
  "spec_parts specification =
     (case specification of
        PList [] \<Rightarrow> Inl IndexError
      | PList (PStr name # PDict attributes # rest) \<Rightarrow> Inr (name, attributes, rest)
      | PList (PStr name # rest) \<Rightarrow> Inr (name, [], rest)
      | PList (_ # rest) \<Rightarrow>
          Inl (Exception (''The first item of an EasyXml specification should be a string.  ''
            @ ''Specification was '' @ py_str specification))
      | PStr [] \<Rightarrow> Inl IndexError
      | PStr (c # cs) \<Rightarrow> Inr ([c], [], map (\<lambda>x. PStr [x]) cs)
      | PDict d \<Rightarrow> Inl (KeyError ''0'')
      | _ \<Rightarrow> Inl (TypeError (class_name specification @ '' object is not subscriptable'')))"

definition attribute_text :: "string \<times> pyval \<Rightarrow> string res" where
  "attribute_text kv =
     (case kv of (at, val) \<Rightarrow>
        (case val of
           PStr s \<Rightarrow> Inr ('' '' @ at @ ''='' @ [CHR 0x22] @ XmlEscape True s @ [CHR 0x22])
         | _ \<Rightarrow> Inl (TypeError ''expected string or buffer'')))"

definition is_text :: "pyval \<Rightarrow> bool" where
  "is_text v = (case v of PStr s \<Rightarrow> True | _ \<Rightarrow> False)"

lemma spec_parts_smaller:
  "spec_parts v = Inr (name, attrs, rest) \<Longrightarrow> child \<in> set rest \<Longrightarrow> \<not> is_text child \<Longrightarrow> size child < size v"
proof (cases v)
  case (PList l)
  assume p: "spec_parts v = Inr (name, attrs, rest)" and c: "child \<in> set rest"
  then have "child \<in> set l" using PList
    by (auto simp: spec_parts_def split: list.splits pyval.splits)
  then have "size child < size_list size l" by (induction l) auto
  then show ?thesis using PList by simp
qed (auto simp: spec_parts_def is_text_def split: list.splits)

function construct_content :: "bool \<Rightarrow> nat \<Rightarrow> pyval \<Rightarrow> string res" where
  "construct_content pretty level specification =
     (let indentation = (if pretty then replicate (2 * level) CHR '' '' else []);
          new_line = (if pretty then [CHR 0x0A] else [])
      in rbind (spec_parts specification) (\<lambda>(name, attributes, rest).
         rbind (rmap attribute_text (sort_key fst attributes)) (\<lambda>ats.
           let start = indentation @ ''<'' @ name @ concat ats;
               multi_line = (\<not> list_all is_text rest)
           in if rest = [] then Inr (start @ ''/>'' @ new_line)
              else
                rbind (rmap (\<lambda>child. if is_text child then Inr (XmlEscape False (py_str child))
                                      else construct_content pretty (Suc level) child) rest) (\<lambda>cs.
                  Inr (start @ ''>'' @ (if multi_line then new_line else []) @ concat cs
                       @ (if multi_line then indentation else []) @ ''</'' @ name @ ''>'' @ new_line)))))"
  by pat_completeness auto
termination
  by (relation "measure (\<lambda>(pretty, level, v). size v)") (auto dest: spec_parts_smaller)

declare construct_content.simps [simp del]

definition XmlToString :: "pyval \<Rightarrow> string \<Rightarrow> bool \<Rightarrow> string res" where
  "XmlToString content encoding pretty =
     rbind (construct_content pretty 0 content) (\<lambda>s.
       Inr (''<?xml version='' @ [CHR 0x22] @ ''1.0'' @ [CHR 0x22] @ '' encoding='' @ [CHR 0x22] @ encoding
            @ [CHR 0x22] @ ''?>'' @ (if pretty then [CHR 0x0A] else []) @ s))"

text \<open>The file before and after \<open>WriteXmlIfChanged\<close>, and whether it was written; \<open>os.linesep\<close> is
  that of POSIX.\<close>

definition WriteXmlIfChanged :: "pyval \<Rightarrow> string \<Rightarrow> bool \<Rightarrow> bool \<Rightarrow> string option \<Rightarrow> (string option \<times> bool) res" where
  "WriteXmlIfChanged content encoding pretty win32 existing =
     rbind (XmlToString content encoding pretty) (\<lambda>s.
       let xml_string = (if win32 then replace_str [CHR 0x0A] [CHR 0x0D, CHR 0x0A] s else s)
       in if existing \<noteq> Some xml_string then Inr (Some xml_string, True) else Inr (existing, False))"

section \<open>The replacements in \<open>xml.dom.minidom\<close>\<close>

definition replacement_write_data :: "bool \<Rightarrow> string \<Rightarrow> string" where
  "replacement_write_data is_attrib str_data =
     (let d1 = replace_str ''<'' ''&lt;'' (replace_str ''&'' ''&amp;'' str_data);
          d2 = replace_str ''>'' ''&gt;'' (replace_str [CHR 0x22] ''&quot;'' d1)
      in if is_attrib
         then replace_str [CHR 0x09] ''&#x9;'' (replace_str [CHR 0x0A] ''&#xA;''
                (replace_str [CHR 0x0D] ''&#xD;'' d2))
         else d2)"

datatype dom_node =
    Element string "(string \<times> string) list" "dom_node list"
  | Text string

fun replacement_writexml :: "string \<Rightarrow> string \<Rightarrow> string \<Rightarrow> dom_node \<Rightarrow> string" where
  "replacement_writexml indent addindent newl (Text d) =
     replacement_write_data False (indent @ d @ newl)"
| "replacement_writexml indent addindent newl (Element tag attrs nodes) =
     indent @ ''<'' @ tag
     @ concat (map (\<lambda>(a, v). '' '' @ a @ ''='' @ [CHR 0x22] @ replacement_write_data True v @ [CHR 0x22])
         (sort_key fst attrs))
     @ (if nodes \<noteq> []
        then ''>'' @ newl @ concat (map (replacement_writexml (indent @ addindent) addindent newl) nodes)
             @ indent @ ''</'' @ tag @ ''>'' @ newl
        else ''/>'' @ newl)"

section \<open>Theorems\<close>

text \<open>What a reader of XML makes of character data: the five named entities and the character
  references of the writers.\<close>

definition xml_entities :: "(string \<times> char) list" where
  "xml_entities = [(''quot'', CHR 0x22), (''apos'', CHR 0x27), (''lt'', CHR ''<''), (''gt'', CHR ''>''),
     (''amp'', CHR ''&''), (''#xA'', CHR 0x0A), (''#xD'', CHR 0x0D), (''#x9'', CHR 0x09)]"

function xml_read :: "string \<Rightarrow> string option" where
  "xml_read [] = Some []"
| "xml_read (c # cs) =
     (if c = CHR ''&'' then
        (case dropWhile (\<lambda>x. x \<noteq> CHR '';'') cs of
           [] \<Rightarrow> None
         | _ # rest \<Rightarrow>
             (case map_of xml_entities (takeWhile (\<lambda>x. x \<noteq> CHR '';'') cs) of
                None \<Rightarrow> None
              | Some e \<Rightarrow> map_option (\<lambda>s. e # s) (xml_read rest)))
      else map_option (\<lambda>s. c # s) (xml_read cs))"
  by pat_completeness auto
termination
proof (relation "measure length")
  fix c cs x21 rest e
  assume "dropWhile (\<lambda>x. x \<noteq> CHR '';'') cs = (x21 :: char) # rest"
  then have "length (x21 # rest) \<le> length cs" by (metis length_dropWhile_le)
  then show "(rest, c # cs) \<in> measure length" by simp
qed auto

lemma xml_read_escape_match:
  "xml_read (escape_match attr c @ s) = map_option (\<lambda>s. c # s) (xml_read s)"
proof (cases "map_of xml_escape_map c")
  case None
  then have "c \<noteq> CHR ''&''" by (auto simp: xml_escape_map_def split: if_splits)
  then show ?thesis using None by (simp add: escape_match_def)
next
  case (Some e)
  then show ?thesis
    by (auto simp: escape_match_def xml_escape_map_def xml_entities_def split: if_splits)
qed

text \<open>Escaped text, in content or in an attribute, reads back as the text it was made from, and
  holds no bracket, no double quote and no line break.\<close>

theorem XmlEscape_roundtrip:
  "xml_read (XmlEscape attr s) = Some s
    \<and> set (XmlEscape attr s) \<inter> {CHR ''<'', CHR ''>'', CHR 0x22, CHR 0x0A, CHR 0x0D} = {}"
proof
  show "xml_read (XmlEscape attr s) = Some s"
    by (induction s) (simp_all add: XmlEscape_def xml_read_escape_match)
  have "set (escape_match attr c) \<inter> {CHR ''<'', CHR ''>'', CHR 0x22, CHR 0x0A, CHR 0x0D} = {}" for c
    by (auto simp: escape_match_def xml_escape_map_def split: if_splits)
  then show "set (XmlEscape attr s) \<inter> {CHR ''<'', CHR ''>'', CHR 0x22, CHR 0x0A, CHR 0x0D} = {}"
    by (auto simp: XmlEscape_def)
qed

lemma write_data_append:
  "replacement_write_data b (xs @ ys) = replacement_write_data b xs @ replacement_write_data b ys"
  by (simp add: replacement_write_data_def Let_def replace_append)

definition write_data_char :: "bool \<Rightarrow> char \<Rightarrow> string" where
  "write_data_char is_attrib c =
     (if c = CHR ''&'' then ''&amp;'' else if c = CHR ''<'' then ''&lt;''
      else if c = CHR 0x22 then ''&quot;'' else if c = CHR ''>'' then ''&gt;''
      else if is_attrib \<and> c = CHR 0x0D then ''&#xD;''
      else if is_attrib \<and> c = CHR 0x0A then ''&#xA;''
      else if is_attrib \<and> c = CHR 0x09 then ''&#x9;'' else [c])"

lemma write_data_one: "replacement_write_data b [c] = write_data_char b c"
proof (cases "c \<in> {CHR ''&'', CHR ''<'', CHR 0x22, CHR ''>'', CHR 0x0D, CHR 0x0A, CHR 0x09}")
  case False
  then have n: "CHR ''&'' \<noteq> c" "CHR ''<'' \<noteq> c" "CHR 0x22 \<noteq> c" "CHR ''>'' \<noteq> c" "CHR 0x0D \<noteq> c"
    "CHR 0x0A \<noteq> c" "CHR 0x09 \<noteq> c" by auto
  then show ?thesis
    by (simp add: replacement_write_data_def write_data_char_def Let_def replace_one n[symmetric])
next
  case True
  then show ?thesis
    by (cases b) (elim insertE emptyE; simp; code_simp)+
qed

text \<open>The chain of replacements in \<open>_write_data\<close> is a single pass over the characters: no
  replacement touches what an earlier one wrote.\<close>

theorem replacement_write_data_pass:
  "replacement_write_data is_attrib s = concat (map (write_data_char is_attrib) s)"
proof (induction s)
  case (Cons c s)
  have "replacement_write_data is_attrib (c # s)
      = replacement_write_data is_attrib [c] @ replacement_write_data is_attrib s"
    using write_data_append[of is_attrib "[c]" s] by simp
  then show ?case using Cons by (simp add: write_data_one)
qed (simp add: replacement_write_data_def)

end
