(* ===== verification/Msvs_Settings.thy ===== *)
theory Msvs_Settings
  imports Py_Prelude
begin

text \<open>
  \<open>tools/gyp/pylib/gyp/MSVSSettings.py\<close>: validation of the settings of Visual Studio tools and
  their conversion to MSBuild.  The module fills four dictionaries by one call per setting; these
  calls are the values of type \<open>registration\<close>, in the order of the source, and \<open>register\<close> is
  what a call does.  The closures that the source stores as converters are values of \<open>converter\<close>.
  A warning printed to \<open>stderr\<close> is an element of the list of warnings.
\<close>

section \<open>Types of settings\<close>

record tool =
  msvs_name :: string
  msbuild_name :: string

datatype setting_type =
    TString
  | TStringList
  | TBoolean
  | TInteger nat
  | TEnumeration "string option list" "string list"

definition newly_boolean :: setting_type where
  "newly_boolean = TEnumeration [Some '''', Some ''false'', Some ''true''] []"

text \<open>Macros in strings.\<close>

definition vc_macros :: "string list" where
  "vc_macros = [''$(IntDir)'', ''$(OutDir)'']"

definition is_slash :: "char \<Rightarrow> bool" where
  "is_slash c = (c = CHR ''/'' \<or> c = CHR 0x5C)"

definition slashed_macro :: "string \<Rightarrow> string option" where
  "slashed_macro s =
     find (\<lambda>m. prefix m s \<and> drop (length m) s \<noteq> [] \<and> is_slash (hd (drop (length m) s))) vc_macros"

function FixVCMacroSlashes :: "string \<Rightarrow> string" where
  "FixVCMacroSlashes [] = []"
| "FixVCMacroSlashes (x # xs) =
     (case slashed_macro (x # xs) of
        Some m \<Rightarrow> m @ FixVCMacroSlashes (dropWhile is_slash (drop (length m) (x # xs)))
      | None \<Rightarrow> x # FixVCMacroSlashes xs)"
  by pat_completeness auto
termination
proof (relation "measure length")
  fix x xs m assume "slashed_macro (x # xs) = Some m"
  then have "m \<in> set vc_macros" by (auto simp: slashed_macro_def find_Some_iff)
  then have "0 < length m" by (auto simp: vc_macros_def)
  moreover have "length (dropWhile is_slash (drop (length m) (x # xs))) \<le> length (drop (length m) (x # xs))"
    by (rule length_dropWhile_le)
  moreover have "length (drop (length m) (x # xs)) = length (x # xs) - length m" by (rule length_drop)
  ultimately have "length (dropWhile is_slash (drop (length m) (x # xs))) < length (x # xs)"
    using length_Cons[of x xs] by linarith
  then show "(dropWhile is_slash (drop (length m) (x # xs)), x # xs) \<in> measure length" by simp
qed auto

definition replace_map :: "(string \<times> string) list" where
  "replace_map =
     [(''$(ConfigurationName)'', ''$(Configuration)''),
      (''$(InputDir)'', ''%(RootDir)%(Directory)''),
      (''$(InputExt)'', ''%(Extension)''),
      (''$(InputFileName)'', ''%(Filename)%(Extension)''),
      (''$(InputName)'', ''%(Filename)''),
      (''$(InputPath)'', ''%(FullPath)''),
      (''$(ParentName)'', ''$(ProjectFileName)''),
      (''$(PlatformName)'', ''$(Platform)''),
      (''$(SafeInputName)'', ''%(Filename)'')]"

definition ConvertVCMacrosToMSBuild :: "pyval \<Rightarrow> pyval res" where
  "ConvertVCMacrosToMSBuild v =
     rbind (py_contains v ''$'') (\<lambda>b.
       if \<not> b then Inr v
       else rbind (as_str ''replace'' v) (\<lambda>s.
              Inr (PStr (FixVCMacroSlashes (fold (\<lambda>(old, new). replace_str old new) replace_map s)))))"

text \<open>\<open>'0x%04x' % n\<close>.\<close>

fun hex_of_nat :: "nat \<Rightarrow> string" where
  "hex_of_nat n = (if n < 16 then [hex_char n] else hex_of_nat (n div 16) @ [hex_char (n mod 16)])"

declare hex_of_nat.simps [simp del]

definition hex4 :: "int \<Rightarrow> string" where
  "hex4 i =
     (let s = hex_of_nat (nat \<bar>i\<bar>); sign = (if i < 0 then ''-'' else [])
      in sign @ replicate (4 - length sign - length s) CHR ''0'' @ s)"

definition boolean_error :: "pyval \<Rightarrow> py_error" where
  "boolean_error v = ValueError (''expected bool; got '' @ py_repr v)"

definition ConvertToMSBuild :: "setting_type \<Rightarrow> pyval \<Rightarrow> pyval res" where
  "ConvertToMSBuild ty v =
     (case ty of
        TString \<Rightarrow> ConvertVCMacrosToMSBuild v
      | TStringList \<Rightarrow>
          (case v of
             PList l \<Rightarrow> rbind (rmap ConvertVCMacrosToMSBuild l) (\<lambda>l. Inr (PList l))
           | _ \<Rightarrow> ConvertVCMacrosToMSBuild v)
      | TBoolean \<Rightarrow> if v \<in> {PStr ''true'', PStr ''false''} then Inr v else Inl (boolean_error v)
      | TInteger base \<Rightarrow>
          rbind (py_int v) (\<lambda>n. Inr (PStr (if base = 10 then str_of_int n else ''0x'' @ hex4 n)))
      | TEnumeration labels new \<Rightarrow>
          rbind (py_int v) (\<lambda>index.
            if index < 0 \<or> int (length labels) \<le> index
            then Inl (ValueError (''index value ('' @ str_of_int index @ '') not in expected range [0, ''
                   @ str_of_nat (length labels) @ '')''))
            else
              (case labels ! nat index of
                 None \<Rightarrow> Inl (ValueError (''converted value for '' @ py_str v @ '' not specified.''))
               | Some label \<Rightarrow> Inr (PStr label))))"

definition ValidateMSVS :: "setting_type \<Rightarrow> pyval \<Rightarrow> unit res" where
  "ValidateMSVS ty v =
     (case ty of
        TString \<Rightarrow>
          if class_name v = ''str'' then Inr ()
          else Inl (ValueError (''expected string; got '' @ py_repr v))
      | TStringList \<Rightarrow>
          if class_name v \<in> {''str'', ''list''} then Inr ()
          else Inl (ValueError (''expected string list; got '' @ py_repr v))
      | TBoolean \<Rightarrow> if v \<in> {PStr ''true'', PStr ''false''} then Inr () else Inl (boolean_error v)
      | _ \<Rightarrow> rbind (ConvertToMSBuild ty v) (\<lambda>_. Inr ()))"

definition ValidateMSBuild :: "setting_type \<Rightarrow> pyval \<Rightarrow> unit res" where
  "ValidateMSBuild ty v =
     (case ty of
        TInteger base \<Rightarrow> rbind (py_int_base base v) (\<lambda>_. Inr ())
      | TEnumeration labels new \<Rightarrow>
          if class_name v \<in> {''list'', ''dict''}
          then Inl (TypeError (''unhashable type: '' @ class_name v))
          else if v \<in> set (map PStr (concat (map (\<lambda>l. case l of None \<Rightarrow> [] | Some x \<Rightarrow> [x]) labels) @ new)) then Inr ()
          else Inl (ValueError (''unrecognized enumerated value '' @ py_str v))
      | _ \<Rightarrow> ValidateMSVS ty v)"

section \<open>Registration\<close>

text \<open>The translation closures: a setting converted and stored under a name of MSBuild, nothing, a
  flag appended to the additional options, and the special case of \<open>GeneratePreprocessedFile\<close>.\<close>

datatype converter =
    Translate string string setting_type
  | NoTranslation
  | AddOption string string
  | Preprocess string

record settings_tables =
  msvs_validators :: "(string \<times> (string \<times> setting_type) list) list"
  msbuild_validators :: "(string \<times> (string \<times> setting_type) list) list"
  converters :: "(string \<times> (string \<times> converter) list) list"
  msbuild_name_of_tool :: "(string \<times> string) list"

definition AddTool :: "tool \<Rightarrow> settings_tables \<Rightarrow> settings_tables" where
  "AddTool tool tabs =
     tabs\<lparr> msvs_validators := dset (msvs_name tool) [] (msvs_validators tabs),
           msbuild_validators := dset (msbuild_name tool) [] (msbuild_validators tabs),
           converters := dset (msvs_name tool) [] (converters tabs),
           msbuild_name_of_tool := dset (msvs_name tool) (msbuild_name tool) (msbuild_name_of_tool tabs) \<rparr>"

text \<open>\<open>d[k1][k2] = v\<close>.\<close>

definition put_entry :: "string \<Rightarrow> string \<Rightarrow> 'v \<Rightarrow> (string \<times> (string \<times> 'v) list) list
    \<Rightarrow> (string \<times> (string \<times> 'v) list) list res" where
  "put_entry k1 k2 v d = rbind (dlookup d k1) (\<lambda>e. Inr (dset k1 (dset k2 v e) d))"

definition put_msvs :: "tool \<Rightarrow> string \<Rightarrow> setting_type \<Rightarrow> settings_tables \<Rightarrow> settings_tables res" where
  "put_msvs tool name ty tabs =
     rbind (put_entry (msvs_name tool) name ty (msvs_validators tabs)) (\<lambda>d. Inr (tabs\<lparr> msvs_validators := d \<rparr>))"

definition put_msbuild :: "string \<Rightarrow> string \<Rightarrow> setting_type \<Rightarrow> settings_tables \<Rightarrow> settings_tables res" where
  "put_msbuild tool_name name ty tabs =
     rbind (put_entry tool_name name ty (msbuild_validators tabs)) (\<lambda>d. Inr (tabs\<lparr> msbuild_validators := d \<rparr>))"

definition put_converter :: "tool \<Rightarrow> string \<Rightarrow> converter \<Rightarrow> settings_tables \<Rightarrow> settings_tables res" where
  "put_converter tool name c tabs =
     rbind (put_entry (msvs_name tool) name c (converters tabs)) (\<lambda>d. Inr (tabs\<lparr> converters := d \<rparr>))"

datatype registration =
    Same tool string setting_type
  | Renamed tool string string setting_type
  | Moved tool string string setting_type
  | MovedAndRenamed tool string string string setting_type
  | MSVSOnly tool string setting_type
  | MSBuildOnly tool string setting_type
  | ConvertedToAdditionalOption tool string string
  | CustomGeneratePreprocessedFile tool string

definition define_moved :: "tool \<Rightarrow> string \<Rightarrow> string \<Rightarrow> string \<Rightarrow> setting_type \<Rightarrow> settings_tables
    \<Rightarrow> settings_tables res" where
  "define_moved tool msvs_setting msbuild_tool msbuild_setting ty tabs =
     rbind (put_msvs tool msvs_setting ty tabs) (\<lambda>tabs.
     rbind (put_msbuild msbuild_tool msbuild_setting ty tabs)
       (put_converter tool msvs_setting (Translate msbuild_tool msbuild_setting ty)))"

definition define_renamed :: "tool \<Rightarrow> string \<Rightarrow> string \<Rightarrow> setting_type \<Rightarrow> settings_tables
    \<Rightarrow> settings_tables res" where
  "define_renamed tool msvs_setting msbuild_setting ty tabs =
     rbind (put_msvs tool msvs_setting ty tabs) (\<lambda>tabs.
     rbind (put_msbuild (msbuild_name tool) msbuild_setting ty tabs)
       (put_converter tool msvs_setting (Translate (msbuild_name tool) msbuild_setting ty)))"

definition define_msvs_only :: "tool \<Rightarrow> string \<Rightarrow> setting_type \<Rightarrow> settings_tables \<Rightarrow> settings_tables res" where
  "define_msvs_only tool name ty tabs =
     rbind (put_msvs tool name ty tabs) (put_converter tool name NoTranslation)"

definition define_option :: "tool \<Rightarrow> string \<Rightarrow> string \<Rightarrow> settings_tables \<Rightarrow> settings_tables res" where
  "define_option tool name flag tabs =
     rbind (put_msvs tool name TBoolean tabs) (put_converter tool name (AddOption (msbuild_name tool) flag))"

definition define_preprocess :: "tool \<Rightarrow> string \<Rightarrow> settings_tables \<Rightarrow> settings_tables res" where
  "define_preprocess tool name tabs =
     rbind (put_msvs tool name (TEnumeration [Some ''a'', Some ''b'', Some ''c''] []) tabs) (\<lambda>tabs.
     rbind (put_msbuild (msbuild_name tool) ''PreprocessToFile'' TBoolean tabs) (\<lambda>tabs.
     rbind (put_msbuild (msbuild_name tool) ''PreprocessSuppressLineNumbers'' TBoolean tabs)
       (put_converter tool name (Preprocess (msbuild_name tool)))))"

definition register :: "registration \<Rightarrow> settings_tables \<Rightarrow> settings_tables res" where
  "register r tabs =
     (case r of
        Same tool name ty \<Rightarrow> define_renamed tool name name ty tabs
      | Renamed tool a b ty \<Rightarrow> define_renamed tool a b ty tabs
      | Moved tool name msbuild_tool ty \<Rightarrow> define_moved tool name msbuild_tool name ty tabs
      | MovedAndRenamed tool a msbuild_tool b ty \<Rightarrow> define_moved tool a msbuild_tool b ty tabs
      | MSVSOnly tool name ty \<Rightarrow> define_msvs_only tool name ty tabs
      | MSBuildOnly tool name ty \<Rightarrow> put_msbuild (msbuild_name tool) name ty tabs
      | ConvertedToAdditionalOption tool name flag \<Rightarrow> define_option tool name flag tabs
      | CustomGeneratePreprocessedFile tool name \<Rightarrow> define_preprocess tool name tabs)"

section \<open>Conversion\<close>

type_synonym msbuild_settings = "(string \<times> pydict) list"

definition tool_settings :: "string \<Rightarrow> msbuild_settings \<Rightarrow> msbuild_settings" where
  "tool_settings tool_name ms = (if dhas ms tool_name then ms else dset tool_name [] ms)"

definition put_setting :: "string \<Rightarrow> string \<Rightarrow> pyval \<Rightarrow> msbuild_settings \<Rightarrow> msbuild_settings" where
  "put_setting tool_name name v ms = dset tool_name (dset name v (dget_default ms tool_name [])) ms"

definition add_option :: "string \<Rightarrow> string \<Rightarrow> pyval \<Rightarrow> msbuild_settings \<Rightarrow> msbuild_settings" where
  "add_option tool_name flag v ms =
     (if v = PStr ''true''
      then put_setting tool_name ''AdditionalOptions''
             (case dget (dget_default ms tool_name []) ''AdditionalOptions'' of
                Some old \<Rightarrow> PStr (py_str old @ '' '' @ flag)
              | None \<Rightarrow> PStr flag) ms
      else ms)"

definition preprocess_setting :: "string \<Rightarrow> pyval \<Rightarrow> msbuild_settings \<Rightarrow> msbuild_settings \<times> unit res" where
  "preprocess_setting tool_name v ms0 =
     (let ms = tool_settings tool_name ms0;
          both = (\<lambda>a b. put_setting tool_name ''PreprocessSuppressLineNumbers'' (PStr b)
                          (put_setting tool_name ''PreprocessToFile'' (PStr a) ms))
      in if v = PStr ''0'' then (both ''false'' ''false'', Inr ())
         else if v = PStr ''1'' then (both ''true'' ''false'', Inr ())
         else if v = PStr ''2'' then (both ''true'' ''true'', Inr ())
         else (ms, Inl (ValueError (''value must be one of [0, 1, 2]; got '' @ py_str v))))"

text \<open>What a converter leaves of the settings, also when it raises.\<close>

definition run_converter :: "converter \<Rightarrow> pyval \<Rightarrow> msbuild_settings \<Rightarrow> msbuild_settings \<times> unit res" where
  "run_converter c v ms =
     (case c of
        Translate tool_name name ty \<Rightarrow>
          (case ConvertToMSBuild ty v of
             Inl e \<Rightarrow> (tool_settings tool_name ms, Inl e)
           | Inr w \<Rightarrow> (put_setting tool_name name w ms, Inr ()))
      | NoTranslation \<Rightarrow> (ms, Inr ())
      | AddOption tool_name flag \<Rightarrow> (add_option tool_name flag v ms, Inr ())
      | Preprocess tool_name \<Rightarrow> preprocess_setting tool_name v ms)"

type_synonym warnings = "string list"

definition convert_setting :: "string \<Rightarrow> (string \<times> converter) list \<Rightarrow> string \<times> pyval
    \<Rightarrow> msbuild_settings \<times> warnings \<Rightarrow> (msbuild_settings \<times> warnings) res" where
  "convert_setting tool_name msvs_tool = (\<lambda>(setting, v) (ms, ws).
     (case dget msvs_tool setting of
        None \<Rightarrow> Inr (ms, ws @ [''Warning: unrecognized setting '' @ tool_name @ ''/'' @ setting
                            @ '' while converting to MSBuild.''])
      | Some c \<Rightarrow>
          (case run_converter c v ms of
             (ms', Inr _) \<Rightarrow> Inr (ms', ws)
           | (ms', Inl (ValueError e)) \<Rightarrow>
               Inr (ms', ws @ [''Warning: while converting '' @ tool_name @ ''/'' @ setting
                          @ '' to MSBuild, '' @ e])
           | (ms', Inl e) \<Rightarrow> Inl e)))"

definition convert_tool :: "settings_tables \<Rightarrow> string \<times> pyval \<Rightarrow> msbuild_settings \<times> warnings
    \<Rightarrow> (msbuild_settings \<times> warnings) res" where
  "convert_tool tabs = (\<lambda>(tool_name, v) (ms, ws).
     (case dget (converters tabs) tool_name of
        None \<Rightarrow> Inr (ms, ws @ [''Warning: unrecognized tool '' @ tool_name @ '' while converting to MSBuild.''])
      | Some msvs_tool \<Rightarrow>
          rbind (as_dict ''iteritems'' v) (\<lambda>d. rfold (convert_setting tool_name msvs_tool) d (ms, ws))))"

definition ConvertToMSBuildSettings :: "settings_tables \<Rightarrow> pydict \<Rightarrow> (msbuild_settings \<times> warnings) res" where
  "ConvertToMSBuildSettings tabs msvs_settings = rfold (convert_tool tabs) msvs_settings ([], [])"

section \<open>Validation\<close>

definition validate_setting :: "(setting_type \<Rightarrow> pyval \<Rightarrow> unit res) \<Rightarrow> string
    \<Rightarrow> (string \<times> setting_type) list \<Rightarrow> string \<times> pyval \<Rightarrow> warnings \<Rightarrow> warnings res" where
  "validate_setting validate tool_name validators = (\<lambda>(setting, v) ws.
     (case dget validators setting of
        None \<Rightarrow> Inr (ws @ [''Warning: unrecognized setting '' @ tool_name @ ''/'' @ setting])
      | Some ty \<Rightarrow>
          (case validate ty v of
             Inr _ \<Rightarrow> Inr ws
           | Inl (ValueError e) \<Rightarrow> Inr (ws @ [''Warning: for '' @ tool_name @ ''/'' @ setting @ '', '' @ e])
           | Inl e \<Rightarrow> Inl e)))"

definition validate_tool :: "(setting_type \<Rightarrow> pyval \<Rightarrow> unit res)
    \<Rightarrow> (string \<times> (string \<times> setting_type) list) list \<Rightarrow> string \<times> pyval \<Rightarrow> warnings \<Rightarrow> warnings res" where
  "validate_tool validate validators = (\<lambda>(tool_name, v) ws.
     (case dget validators tool_name of
        None \<Rightarrow> Inr (ws @ [''Warning: unrecognized tool '' @ tool_name])
      | Some tool_validators \<Rightarrow>
          rbind (as_dict ''iteritems'' v) (\<lambda>d. rfold (validate_setting validate tool_name tool_validators) d ws)))"

definition ValidateSettings :: "(setting_type \<Rightarrow> pyval \<Rightarrow> unit res)
    \<Rightarrow> (string \<times> (string \<times> setting_type) list) list \<Rightarrow> pydict \<Rightarrow> warnings res" where
  "ValidateSettings validate validators settings = rfold (validate_tool validate validators) settings []"

definition ValidateMSVSSettings :: "settings_tables \<Rightarrow> pydict \<Rightarrow> warnings res" where
  "ValidateMSVSSettings tabs settings = ValidateSettings ValidateMSVS (msvs_validators tabs) settings"

definition ValidateMSBuildSettings :: "settings_tables \<Rightarrow> pydict \<Rightarrow> warnings res" where
  "ValidateMSBuildSettings tabs settings = ValidateSettings ValidateMSBuild (msbuild_validators tabs) settings"

section \<open>The tables\<close>

definition compile_tool :: tool where
  "compile_tool = \<lparr> msvs_name = ''VCCLCompilerTool'', msbuild_name = ''ClCompile'' \<rparr>"

definition link_tool :: tool where
  "link_tool = \<lparr> msvs_name = ''VCLinkerTool'', msbuild_name = ''Link'' \<rparr>"

definition midl_tool :: tool where
  "midl_tool = \<lparr> msvs_name = ''VCMIDLTool'', msbuild_name = ''Midl'' \<rparr>"

definition rc_tool :: tool where
  "rc_tool = \<lparr> msvs_name = ''VCResourceCompilerTool'', msbuild_name = ''ResourceCompile'' \<rparr>"

definition lib_tool :: tool where
  "lib_tool = \<lparr> msvs_name = ''VCLibrarianTool'', msbuild_name = ''Lib'' \<rparr>"

definition manifest_tool :: tool where
  "manifest_tool = \<lparr> msvs_name = ''VCManifestTool'', msbuild_name = ''Manifest'' \<rparr>"

definition initial_tables :: settings_tables where
  "initial_tables =
     (let tabs = fold AddTool [compile_tool, link_tool, midl_tool, rc_tool, lib_tool, manifest_tool]
                   \<lparr> msvs_validators = [], msbuild_validators = [], converters = [], msbuild_name_of_tool = [] \<rparr>
      in tabs\<lparr> msbuild_validators :=
                 fold (\<lambda>k. dset k []) ['''', ''ProjectReference'', ''ManifestResourceCompile'']
                   (msbuild_validators tabs) \<rparr>)"

definition subsystem_enumeration :: setting_type where
  "subsystem_enumeration =
    TEnumeration [Some ''NotSet'', Some ''Console'', Some ''Windows'', Some ''Native'',
         Some ''EFI Application'', Some ''EFI Boot Service Driver'', Some ''EFI ROM'',
         Some ''EFI Runtime'', Some ''WindowsCE''] [''POSIX'']"

definition target_machine_enumeration :: setting_type where
  "target_machine_enumeration =
    TEnumeration [Some ''NotSet'', Some ''MachineX86'', None, Some ''MachineARM'',
         Some ''MachineEBC'', Some ''MachineIA64'', None, Some ''MachineMIPS'',
         Some ''MachineMIPS16'', Some ''MachineMIPSFPU'', Some ''MachineMIPSFPU16'', None, None,
         None, Some ''MachineSH4'', None, Some ''MachineTHUMB'', Some ''MachineX64''] []"

definition compile_same :: "registration list" where
  "compile_same =
    [Same compile_tool ''AdditionalIncludeDirectories'' TStringList,
     Same compile_tool ''AdditionalOptions'' TStringList,
     Same compile_tool ''AdditionalUsingDirectories'' TStringList,
     Same compile_tool ''AssemblerListingLocation'' TString,
     Same compile_tool ''BrowseInformationFile'' TString,
     Same compile_tool ''BufferSecurityCheck'' TBoolean,
     Same compile_tool ''DisableLanguageExtensions'' TBoolean,
     Same compile_tool ''DisableSpecificWarnings'' TStringList,
     Same compile_tool ''EnableFiberSafeOptimizations'' TBoolean,
     Same compile_tool ''EnablePREfast'' TBoolean,
     Same compile_tool ''ExpandAttributedSource'' TBoolean,
     Same compile_tool ''FloatingPointExceptions'' TBoolean,
     Same compile_tool ''ForceConformanceInForLoopScope'' TBoolean,
     Same compile_tool ''ForcedIncludeFiles'' TStringList,
     Same compile_tool ''ForcedUsingFiles'' TStringList,
     Same compile_tool ''GenerateXMLDocumentationFiles'' TBoolean,
     Same compile_tool ''IgnoreStandardIncludePath'' TBoolean,
     Same compile_tool ''MinimalRebuild'' TBoolean,
     Same compile_tool ''OmitDefaultLibName'' TBoolean,
     Same compile_tool ''OmitFramePointers'' TBoolean,
     Same compile_tool ''PreprocessorDefinitions'' TStringList,
     Same compile_tool ''ProgramDataBaseFileName'' TString,
     Same compile_tool ''RuntimeTypeInfo'' TBoolean,
     Same compile_tool ''ShowIncludes'' TBoolean,
     Same compile_tool ''SmallerTypeCheck'' TBoolean,
     Same compile_tool ''StringPooling'' TBoolean,
     Same compile_tool ''SuppressStartupBanner'' TBoolean,
     Same compile_tool ''TreatWChar_tAsBuiltInType'' TBoolean,
     Same compile_tool ''UndefineAllPreprocessorDefinitions'' TBoolean,
     Same compile_tool ''UndefinePreprocessorDefinitions'' TStringList,
     Same compile_tool ''UseFullPaths'' TBoolean,
     Same compile_tool ''WholeProgramOptimization'' TBoolean,
     Same compile_tool ''XMLDocumentationFileName'' TString]"

definition compile_enumerations :: "registration list" where
  "compile_enumerations =
    [Same compile_tool ''AssemblerOutput'' (TEnumeration [Some ''NoListing'', Some ''AssemblyCode'',
         Some ''All'', Some ''AssemblyAndMachineCode'', Some ''AssemblyAndSourceCode''] []),
     Same compile_tool ''BasicRuntimeChecks'' (TEnumeration [Some ''Default'',
         Some ''StackFrameRuntimeCheck'', Some ''UninitializedLocalUsageCheck'',
         Some ''EnableFastChecks''] []),
     Same compile_tool ''BrowseInformation'' (TEnumeration [Some ''false'', Some ''true'',
         Some ''true''] []),
     Same compile_tool ''CallingConvention'' (TEnumeration [Some ''Cdecl'', Some ''FastCall'',
         Some ''StdCall''] []),
     Same compile_tool ''CompileAs'' (TEnumeration [Some ''Default'', Some ''CompileAsC'',
         Some ''CompileAsCpp''] []),
     Same compile_tool ''DebugInformationFormat'' (TEnumeration [Some '''', Some ''OldStyle'', None,
         Some ''ProgramDatabase'', Some ''EditAndContinue''] []),
     Same compile_tool ''EnableEnhancedInstructionSet'' (TEnumeration [Some ''NotSet'',
         Some ''StreamingSIMDExtensions'', Some ''StreamingSIMDExtensions2''] []),
     Same compile_tool ''ErrorReporting'' (TEnumeration [Some ''None'', Some ''Prompt'',
         Some ''Queue''] [''Send'']),
     Same compile_tool ''ExceptionHandling'' (TEnumeration [Some ''false'', Some ''Sync'',
         Some ''Async''] [''SyncCThrow'']),
     Same compile_tool ''FavorSizeOrSpeed'' (TEnumeration [Some ''Neither'', Some ''Speed'',
         Some ''Size''] []),
     Same compile_tool ''FloatingPointModel'' (TEnumeration [Some ''Precise'', Some ''Strict'',
         Some ''Fast''] []),
     Same compile_tool ''InlineFunctionExpansion'' (TEnumeration [Some ''Default'',
         Some ''OnlyExplicitInline'', Some ''AnySuitable''] [''Disabled'']),
     Same compile_tool ''Optimization'' (TEnumeration [Some ''Disabled'', Some ''MinSpace'',
         Some ''MaxSpeed'', Some ''Full''] []),
     Same compile_tool ''RuntimeLibrary'' (TEnumeration [Some ''MultiThreaded'',
         Some ''MultiThreadedDebug'', Some ''MultiThreadedDLL'', Some ''MultiThreadedDebugDLL''] []),
     Same compile_tool ''StructMemberAlignment'' (TEnumeration [Some ''Default'', Some ''1Byte'',
         Some ''2Bytes'', Some ''4Bytes'', Some ''8Bytes'', Some ''16Bytes''] []),
     Same compile_tool ''WarningLevel'' (TEnumeration [Some ''TurnOffAllWarnings'', Some ''Level1'',
         Some ''Level2'', Some ''Level3'', Some ''Level4''] [''EnableAllWarnings''])]"

definition compile_other :: "registration list" where
  "compile_other =
    [Renamed compile_tool ''EnableFunctionLevelLinking'' ''FunctionLevelLinking'' TBoolean,
     Renamed compile_tool ''EnableIntrinsicFunctions'' ''IntrinsicFunctions'' TBoolean,
     Renamed compile_tool ''KeepComments'' ''PreprocessKeepComments'' TBoolean,
     Renamed compile_tool ''ObjectFile'' ''ObjectFileName'' TString,
     Renamed compile_tool ''OpenMP'' ''OpenMPSupport'' TBoolean,
     Renamed compile_tool ''PrecompiledHeaderThrough'' ''PrecompiledHeaderFile'' TString,
     Renamed compile_tool ''PrecompiledHeaderFile'' ''PrecompiledHeaderOutputFile'' TString,
     Renamed compile_tool ''UsePrecompiledHeader'' ''PrecompiledHeader'' (TEnumeration [Some ''NotUsing'', Some ''Create'', Some ''Use''] []),
     Renamed compile_tool ''WarnAsError'' ''TreatWarningAsError'' TBoolean,
     ConvertedToAdditionalOption compile_tool ''DefaultCharIsUnsigned'' ''/J'',
     MSVSOnly compile_tool ''Detect64BitPortabilityProblems'' TBoolean,
     MSVSOnly compile_tool ''UseUnicodeResponseFiles'' TBoolean,
     MSBuildOnly compile_tool ''BuildingInIDE'' TBoolean,
     MSBuildOnly compile_tool ''CompileAsManaged'' (TEnumeration [] [''false'', ''true'', ''Pure'',
         ''Safe'', ''OldSyntax'']),
     MSBuildOnly compile_tool ''CreateHotpatchableImage'' TBoolean,
     MSBuildOnly compile_tool ''MultiProcessorCompilation'' TBoolean,
     MSBuildOnly compile_tool ''PreprocessOutputPath'' TString,
     MSBuildOnly compile_tool ''ProcessorNumber'' (TInteger 10),
     MSBuildOnly compile_tool ''TrackerLogDirectory'' TString,
     MSBuildOnly compile_tool ''TreatSpecificWarningsAsErrors'' TStringList,
     MSBuildOnly compile_tool ''UseUnicodeForAssemblerListing'' TBoolean,
     CustomGeneratePreprocessedFile compile_tool ''GeneratePreprocessedFile'']"

definition link_same :: "registration list" where
  "link_same =
    [Same link_tool ''AdditionalDependencies'' TStringList,
     Same link_tool ''AdditionalLibraryDirectories'' TStringList,
     Same link_tool ''AdditionalManifestDependencies'' TStringList,
     Same link_tool ''AdditionalOptions'' TStringList,
     Same link_tool ''AddModuleNamesToAssembly'' TStringList,
     Same link_tool ''AllowIsolation'' TBoolean,
     Same link_tool ''AssemblyLinkResource'' TStringList,
     Same link_tool ''BaseAddress'' TString,
     Same link_tool ''CLRUnmanagedCodeCheck'' TBoolean,
     Same link_tool ''DelayLoadDLLs'' TStringList,
     Same link_tool ''DelaySign'' TBoolean,
     Same link_tool ''EmbedManagedResourceFile'' TStringList,
     Same link_tool ''EnableUAC'' TBoolean,
     Same link_tool ''EntryPointSymbol'' TString,
     Same link_tool ''ForceSymbolReferences'' TStringList,
     Same link_tool ''FunctionOrder'' TString,
     Same link_tool ''GenerateDebugInformation'' TBoolean,
     Same link_tool ''GenerateMapFile'' TBoolean,
     Same link_tool ''HeapCommitSize'' TString,
     Same link_tool ''HeapReserveSize'' TString,
     Same link_tool ''IgnoreAllDefaultLibraries'' TBoolean,
     Same link_tool ''IgnoreEmbeddedIDL'' TBoolean,
     Same link_tool ''ImportLibrary'' TString,
     Same link_tool ''KeyContainer'' TString,
     Same link_tool ''KeyFile'' TString,
     Same link_tool ''ManifestFile'' TString,
     Same link_tool ''MapExports'' TBoolean,
     Same link_tool ''MapFileName'' TString,
     Same link_tool ''MergedIDLBaseFileName'' TString,
     Same link_tool ''MergeSections'' TString,
     Same link_tool ''MidlCommandFile'' TString,
     Same link_tool ''ModuleDefinitionFile'' TString,
     Same link_tool ''OutputFile'' TString,
     Same link_tool ''PerUserRedirection'' TBoolean,
     Same link_tool ''Profile'' TBoolean,
     Same link_tool ''ProfileGuidedDatabase'' TString,
     Same link_tool ''ProgramDatabaseFile'' TString,
     Same link_tool ''RegisterOutput'' TBoolean,
     Same link_tool ''SetChecksum'' TBoolean,
     Same link_tool ''StackCommitSize'' TString,
     Same link_tool ''StackReserveSize'' TString,
     Same link_tool ''StripPrivateSymbols'' TString,
     Same link_tool ''SupportUnloadOfDelayLoadedDLL'' TBoolean,
     Same link_tool ''SuppressStartupBanner'' TBoolean,
     Same link_tool ''SwapRunFromCD'' TBoolean,
     Same link_tool ''TurnOffAssemblyGeneration'' TBoolean,
     Same link_tool ''TypeLibraryFile'' TString,
     Same link_tool ''TypeLibraryResourceID'' (TInteger 10),
     Same link_tool ''UACUIAccess'' TBoolean,
     Same link_tool ''Version'' TString,
     Same link_tool ''EnableCOMDATFolding'' newly_boolean,
     Same link_tool ''FixedBaseAddress'' newly_boolean,
     Same link_tool ''LargeAddressAware'' newly_boolean,
     Same link_tool ''OptimizeReferences'' newly_boolean,
     Same link_tool ''RandomizedBaseAddress'' newly_boolean,
     Same link_tool ''TerminalServerAware'' newly_boolean]"

definition link_enumerations :: "registration list" where
  "link_enumerations =
    [Same link_tool ''AssemblyDebug'' (TEnumeration [Some '''', Some ''true'', Some ''false''] []),
     Same link_tool ''CLRImageType'' (TEnumeration [Some ''Default'', Some ''ForceIJWImage'',
         Some ''ForcePureILImage'', Some ''ForceSafeILImage''] []),
     Same link_tool ''CLRThreadAttribute'' (TEnumeration [Some ''DefaultThreadingAttribute'',
         Some ''MTAThreadingAttribute'', Some ''STAThreadingAttribute''] []),
     Same link_tool ''DataExecutionPrevention'' (TEnumeration [Some '''', Some ''false'',
         Some ''true''] []),
     Same link_tool ''Driver'' (TEnumeration [Some ''NotSet'', Some ''Driver'', Some ''UpOnly'',
         Some ''WDM''] []),
     Same link_tool ''LinkTimeCodeGeneration'' (TEnumeration [Some ''Default'',
         Some ''UseLinkTimeCodeGeneration'', Some ''PGInstrument'', Some ''PGOptimization'',
         Some ''PGUpdate''] []),
     Same link_tool ''ShowProgress'' (TEnumeration [Some ''NotSet'', Some ''LinkVerbose'',
         Some ''LinkVerboseLib''] [''LinkVerboseICF'', ''LinkVerboseREF'', ''LinkVerboseSAFESEH'',
         ''LinkVerboseCLR'']),
     Same link_tool ''SubSystem'' subsystem_enumeration,
     Same link_tool ''TargetMachine'' target_machine_enumeration,
     Same link_tool ''UACExecutionLevel'' (TEnumeration [Some ''AsInvoker'', Some ''HighestAvailable'',
         Some ''RequireAdministrator''] [])]"

definition link_other :: "registration list" where
  "link_other =
    [Same link_tool ''MinimumRequiredVersion'' TString,
     Same link_tool ''TreatLinkerWarningAsErrors'' TBoolean,
     Renamed link_tool ''ErrorReporting'' ''LinkErrorReporting'' (TEnumeration [Some ''NoErrorReport'',
         Some ''PromptImmediately'', Some ''QueueForNextLogin''] [''SendErrorReport'']),
     Renamed link_tool ''IgnoreDefaultLibraryNames'' ''IgnoreSpecificDefaultLibraries'' TStringList,
     Renamed link_tool ''ResourceOnlyDLL'' ''NoEntryPoint'' TBoolean,
     Renamed link_tool ''SwapRunFromNet'' ''SwapRunFromNET'' TBoolean,
     Moved link_tool ''GenerateManifest'' '''' TBoolean,
     Moved link_tool ''IgnoreImportLibrary'' '''' TBoolean,
     Moved link_tool ''LinkIncremental'' '''' newly_boolean,
     Moved link_tool ''LinkLibraryDependencies'' ''ProjectReference'' TBoolean,
     Moved link_tool ''UseLibraryDependencyInputs'' ''ProjectReference'' TBoolean,
     MSVSOnly link_tool ''OptimizeForWindows98'' newly_boolean,
     MSVSOnly link_tool ''UseUnicodeResponseFiles'' TBoolean,
     MSVSOnly link_tool ''AdditionalLibraryDirectories_excluded'' TStringList,
     MSVSOnly link_tool ''DelayLoadDLLs_excluded'' TStringList,
     MSVSOnly link_tool ''AdditionalDependencies_excluded'' TStringList,
     MSBuildOnly link_tool ''BuildingInIDE'' TBoolean,
     MSBuildOnly link_tool ''ImageHasSafeExceptionHandlers'' TBoolean,
     MSBuildOnly link_tool ''LinkDLL'' TBoolean,
     MSBuildOnly link_tool ''LinkStatus'' TBoolean,
     MSBuildOnly link_tool ''PreventDllBinding'' TBoolean,
     MSBuildOnly link_tool ''SupportNobindOfDelayLoadedDLL'' TBoolean,
     MSBuildOnly link_tool ''TrackerLogDirectory'' TString,
     MSBuildOnly link_tool ''MSDOSStubFileName'' TString,
     MSBuildOnly link_tool ''SectionAlignment'' (TInteger 10),
     MSBuildOnly link_tool ''SpecifySectionAttributes'' TString,
     MSBuildOnly link_tool ''ForceFileOutput'' (TEnumeration [] [''Enabled'',
         ''MultiplyDefinedSymbolOnly'', ''UndefinedSymbolOnly'']),
     MSBuildOnly link_tool ''CreateHotPatchableImage'' (TEnumeration [] [''Enabled'', ''X86Image'',
         ''X64Image'', ''ItaniumImage'']),
     MSBuildOnly link_tool ''CLRSupportLastError'' (TEnumeration [] [''Enabled'', ''Disabled'',
         ''SystemDlls''])]"

definition rc_settings :: "registration list" where
  "rc_settings =
    [Same rc_tool ''AdditionalOptions'' TStringList,
     Same rc_tool ''AdditionalIncludeDirectories'' TStringList,
     Same rc_tool ''Culture'' (TInteger 16),
     Same rc_tool ''IgnoreStandardIncludePath'' TBoolean,
     Same rc_tool ''PreprocessorDefinitions'' TStringList,
     Same rc_tool ''ResourceOutputFileName'' TString,
     Same rc_tool ''ShowProgress'' TBoolean,
     Same rc_tool ''SuppressStartupBanner'' TBoolean,
     Same rc_tool ''UndefinePreprocessorDefinitions'' TStringList,
     MSBuildOnly rc_tool ''NullTerminateStrings'' TBoolean,
     MSBuildOnly rc_tool ''TrackerLogDirectory'' TString]"

definition midl_settings :: "registration list" where
  "midl_settings =
    [Same midl_tool ''AdditionalIncludeDirectories'' TStringList,
     Same midl_tool ''AdditionalOptions'' TStringList,
     Same midl_tool ''CPreprocessOptions'' TString,
     Same midl_tool ''ErrorCheckAllocations'' TBoolean,
     Same midl_tool ''ErrorCheckBounds'' TBoolean,
     Same midl_tool ''ErrorCheckEnumRange'' TBoolean,
     Same midl_tool ''ErrorCheckRefPointers'' TBoolean,
     Same midl_tool ''ErrorCheckStubData'' TBoolean,
     Same midl_tool ''GenerateStublessProxies'' TBoolean,
     Same midl_tool ''GenerateTypeLibrary'' TBoolean,
     Same midl_tool ''HeaderFileName'' TString,
     Same midl_tool ''IgnoreStandardIncludePath'' TBoolean,
     Same midl_tool ''InterfaceIdentifierFileName'' TString,
     Same midl_tool ''MkTypLibCompatible'' TBoolean,
     Same midl_tool ''OutputDirectory'' TString,
     Same midl_tool ''PreprocessorDefinitions'' TStringList,
     Same midl_tool ''ProxyFileName'' TString,
     Same midl_tool ''RedirectOutputAndErrors'' TString,
     Same midl_tool ''SuppressStartupBanner'' TBoolean,
     Same midl_tool ''TypeLibraryName'' TString,
     Same midl_tool ''UndefinePreprocessorDefinitions'' TStringList,
     Same midl_tool ''WarnAsError'' TBoolean,
     Same midl_tool ''DefaultCharType'' (TEnumeration [Some ''Unsigned'', Some ''Signed'',
         Some ''Ascii''] []),
     Same midl_tool ''TargetEnvironment'' (TEnumeration [Some ''NotSet'', Some ''Win32'',
         Some ''Itanium'', Some ''X64''] []),
     Same midl_tool ''EnableErrorChecks'' (TEnumeration [Some ''EnableCustom'', Some ''None'',
         Some ''All''] []),
     Same midl_tool ''StructMemberAlignment'' (TEnumeration [Some ''NotSet'', Some ''1'', Some ''2'',
         Some ''4'', Some ''8''] []),
     Same midl_tool ''WarningLevel'' (TEnumeration [Some ''0'', Some ''1'', Some ''2'', Some ''3'',
         Some ''4''] []),
     Renamed midl_tool ''DLLDataFileName'' ''DllDataFileName'' TString,
     Renamed midl_tool ''ValidateParameters'' ''ValidateAllParameters'' TBoolean,
     MSBuildOnly midl_tool ''ApplicationConfigurationMode'' TBoolean,
     MSBuildOnly midl_tool ''ClientStubFile'' TString,
     MSBuildOnly midl_tool ''GenerateClientFiles'' (TEnumeration [] [''Stub'', ''None'']),
     MSBuildOnly midl_tool ''GenerateServerFiles'' (TEnumeration [] [''Stub'', ''None'']),
     MSBuildOnly midl_tool ''LocaleID'' (TInteger 10),
     MSBuildOnly midl_tool ''ServerStubFile'' TString,
     MSBuildOnly midl_tool ''SuppressCompilerWarnings'' TBoolean,
     MSBuildOnly midl_tool ''TrackerLogDirectory'' TString,
     MSBuildOnly midl_tool ''TypeLibFormat'' (TEnumeration [] [''NewFormat'', ''OldFormat''])]"

definition lib_settings :: "registration list" where
  "lib_settings =
    [Same lib_tool ''AdditionalDependencies'' TStringList,
     Same lib_tool ''AdditionalLibraryDirectories'' TStringList,
     Same lib_tool ''AdditionalOptions'' TStringList,
     Same lib_tool ''ExportNamedFunctions'' TStringList,
     Same lib_tool ''ForceSymbolReferences'' TString,
     Same lib_tool ''IgnoreAllDefaultLibraries'' TBoolean,
     Same lib_tool ''IgnoreSpecificDefaultLibraries'' TStringList,
     Same lib_tool ''ModuleDefinitionFile'' TString,
     Same lib_tool ''OutputFile'' TString,
     Same lib_tool ''SuppressStartupBanner'' TBoolean,
     Same lib_tool ''UseUnicodeResponseFiles'' TBoolean,
     Same lib_tool ''LinkTimeCodeGeneration'' TBoolean,
     Same lib_tool ''TargetMachine'' target_machine_enumeration,
     Moved lib_tool ''LinkLibraryDependencies'' ''ProjectReference'' TBoolean,
     MSVSOnly lib_tool ''AdditionalLibraryDirectories_excluded'' TStringList,
     MSBuildOnly lib_tool ''DisplayLibrary'' TString,
     MSBuildOnly lib_tool ''ErrorReporting'' (TEnumeration [] [''PromptImmediately'',
         ''QueueForNextLogin'', ''SendErrorReport'', ''NoErrorReport'']),
     MSBuildOnly lib_tool ''MinimumRequiredVersion'' TString,
     MSBuildOnly lib_tool ''Name'' TString,
     MSBuildOnly lib_tool ''RemoveObjects'' TStringList,
     MSBuildOnly lib_tool ''SubSystem'' subsystem_enumeration,
     MSBuildOnly lib_tool ''TrackerLogDirectory'' TString,
     MSBuildOnly lib_tool ''TreatLibWarningAsErrors'' TBoolean,
     MSBuildOnly lib_tool ''Verbose'' TBoolean]"

definition manifest_settings :: "registration list" where
  "manifest_settings =
    [Same manifest_tool ''AdditionalManifestFiles'' TStringList,
     Same manifest_tool ''AdditionalOptions'' TStringList,
     Same manifest_tool ''AssemblyIdentity'' TString,
     Same manifest_tool ''ComponentFileName'' TString,
     Same manifest_tool ''GenerateCatalogFiles'' TBoolean,
     Same manifest_tool ''InputResourceManifests'' TString,
     Same manifest_tool ''OutputManifestFile'' TString,
     Same manifest_tool ''RegistrarScriptFile'' TString,
     Same manifest_tool ''ReplacementsFile'' TString,
     Same manifest_tool ''SuppressStartupBanner'' TBoolean,
     Same manifest_tool ''TypeLibraryFile'' TString,
     Same manifest_tool ''UpdateFileHashes'' TBoolean,
     Same manifest_tool ''UpdateFileHashesSearchPath'' TString,
     Same manifest_tool ''VerboseOutput'' TBoolean,
     MovedAndRenamed manifest_tool ''ManifestResourceFile'' ''ManifestResourceCompile'' ''ResourceOutputFileName'' TString,
     Moved manifest_tool ''EmbedManifest'' '''' TBoolean,
     MSVSOnly manifest_tool ''DependencyInformationFile'' TString,
     MSVSOnly manifest_tool ''UseFAT32Workaround'' TBoolean,
     MSVSOnly manifest_tool ''UseUnicodeResponseFiles'' TBoolean,
     MSBuildOnly manifest_tool ''EnableDPIAwareness'' TBoolean,
     MSBuildOnly manifest_tool ''GenerateCategoryTags'' TBoolean,
     MSBuildOnly manifest_tool ''ManifestFromManagedAssembly'' TString,
     MSBuildOnly manifest_tool ''OutputResourceManifests'' TString,
     MSBuildOnly manifest_tool ''SuppressDependencyElement'' TBoolean,
     MSBuildOnly manifest_tool ''TrackerLogDirectory'' TString]"

definition all_settings :: "registration list" where
  "all_settings = compile_same @ compile_enumerations @ compile_other @ link_same @ link_enumerations
     @ link_other @ rc_settings @ midl_settings @ lib_settings @ manifest_settings"

definition settings_table :: "settings_tables res" where
  "settings_table = rfold register all_settings initial_tables"
section \<open>Values: theorems\<close>

lemma ConvertToMSBuild_enumeration_iff:
  "ConvertToMSBuild (TEnumeration labels new) v = Inr w \<longleftrightarrow>
    (\<exists>i label. py_int v = Inr i \<and> 0 \<le> i \<and> i < int (length labels) \<and> labels ! nat i = Some label
       \<and> w = PStr label)"
proof (cases "py_int v")
  case (Inr i)
  then show ?thesis
    by (cases "i < 0 \<or> int (length labels) \<le> i"; cases "labels ! nat i") (auto simp: ConvertToMSBuild_def)
qed (simp add: ConvertToMSBuild_def)

text \<open>An enumeration converts exactly the integers that are an index of its label list, and only
  where the list has a label: the index is checked against both bounds before it is used.\<close>

theorem ConvertToMSBuild_enumeration:
  "ConvertToMSBuild (TEnumeration labels new) v = Inr w \<longleftrightarrow>
    (\<exists>i label. py_int v = Inr i \<and> 0 \<le> i \<and> i < int (length labels) \<and> labels ! nat i = Some label
       \<and> w = PStr label)"
  by (rule ConvertToMSBuild_enumeration_iff)

lemma digits_of_hex_char: "n < 16 \<Longrightarrow> digits_of 16 [hex_char n]"
proof -
  assume n: "n < 16"
  have c: "(of_char (hex_char n) :: nat) = (if n < 10 then 48 + n else 87 + n)"
    using n by (simp add: hex_char_def)
  then have "digit_value (hex_char n) = Some n" using n by (simp add: digit_value_def)
  then show ?thesis using n c by (simp add: digits_of_def base_digits_def)
qed

lemma digits_of_hex_of_nat: "digits_of 16 (hex_of_nat n)"
proof (induction n rule: hex_of_nat.induct)
  case (1 n)
  then show ?case
    by (cases "n < 16") (simp_all add: hex_of_nat.simps[of n] digits_of_hex_char digits_of_append)
qed

lemma py_int_base_10: "\<exists>i. py_int_base 10 (PStr (str_of_int n)) = Inr i"
proof -
  have d: "digits_of 10 (str_of_nat k)" for k by (rule digits_of_str_of_nat)
  then have b: "base_digits 10 (str_of_nat k)" for k by (simp add: digits_of_def)
  show ?thesis
    by (cases "n < 0") (simp_all add: str_of_int_def py_int_base_def split_sign_digits[OF d] b)
qed

lemma py_int_base_16:
  assumes "0 \<le> n"
  shows "\<exists>i. py_int_base 16 (PStr (''0x'' @ hex4 n)) = Inr i"
proof -
  let ?s = "replicate (4 - length (hex_of_nat (nat n))) CHR ''0'' @ hex_of_nat (nat n)"
  have "hex4 n = ?s" using assms by (simp add: hex4_def Let_def)
  moreover have d: "digits_of 16 ?s"
  proof -
    have "digits_of 16 (replicate k CHR ''0'' @ hex_of_nat m)" for k m
    proof (induction k)
      case (Suc k)
      have "digits_of 16 [CHR ''0'']" by (simp add: digits_of_def base_digits_def digit_value_def)
      from digits_of_append[OF this Suc] show ?case by simp
    qed (simp add: digits_of_hex_of_nat)
    then show ?thesis .
  qed
  moreover have "split_sign (strip (''0x'' @ ?s)) = (False, ''0x'' @ ?s)"
  proof -
    have "\<forall>c \<in> set (''0x'' @ ?s). (48::nat) \<le> of_char c" using d by (simp add: digits_of_def)
    then have "strip (''0x'' @ ?s) = ''0x'' @ ?s"
      using digit_not_special(1) by (intro strip_id) blast
    then show ?thesis by (simp add: split_sign_def)
  qed
  ultimately show ?thesis by (simp add: py_int_base_def digits_of_def)
qed

text \<open>A value that is valid for Visual Studio and converts is valid for MSBuild; the one exception are
  negative numbers in base 16.\<close>

lemma converted_value_valid:
  assumes v: "ValidateMSVS ty v = Inr ()" and w: "ConvertToMSBuild ty v = Inr w"
    and int: "\<And>b. ty = TInteger b \<Longrightarrow> b = 10 \<or> b = 16 \<and> (\<forall>n. py_int v = Inr n \<longrightarrow> 0 \<le> n)"
  shows "ValidateMSBuild ty w = Inr ()"
proof (cases ty)
  case TString
  with v obtain s where "v = PStr s"
    by (cases v) (simp_all add: ValidateMSVS_def)
  with w TString obtain t where "w = PStr t"
    by (auto simp: ConvertToMSBuild_def ConvertVCMacrosToMSBuild_def py_contains_def split: if_splits)
  with TString show ?thesis by (simp add: ValidateMSBuild_def ValidateMSVS_def)
next
  case TStringList
  show ?thesis
  proof (cases v)
    case (PStr s)
    with w TStringList obtain t where "w = PStr t"
      by (auto simp: ConvertToMSBuild_def ConvertVCMacrosToMSBuild_def py_contains_def split: if_splits)
    with TStringList show ?thesis by (simp add: ValidateMSBuild_def ValidateMSVS_def)
  next
    case (PList l)
    with w TStringList show ?thesis
      by (auto simp: ConvertToMSBuild_def ValidateMSBuild_def ValidateMSVS_def)
  qed (use v TStringList in \<open>simp_all add: ValidateMSVS_def\<close>)
next
  case TBoolean
  with w show ?thesis
    by (auto simp: ConvertToMSBuild_def ValidateMSBuild_def ValidateMSVS_def split: if_splits)
next
  case (TInteger b)
  with w obtain n where n: "py_int v = Inr n" "w = PStr (if b = 10 then str_of_int n else ''0x'' @ hex4 n)"
    by (auto simp: ConvertToMSBuild_def)
  show ?thesis
  proof (cases "b = 10")
    case True
    with n(2) py_int_base_10[of n] show ?thesis by (auto simp: TInteger ValidateMSBuild_def)
  next
    case False
    with int[OF TInteger] n have "b = 16" "0 \<le> n" by auto
    with False n(2) py_int_base_16[of n] show ?thesis by (auto simp: TInteger ValidateMSBuild_def)
  qed
next
  case (TEnumeration labels new)
  with w obtain i label where l: "i < int (length labels)" "0 \<le> i" "labels ! nat i = Some label" "w = PStr label"
    unfolding TEnumeration ConvertToMSBuild_enumeration_iff by blast
  then have "Some label \<in> set labels" by (metis nat_less_iff nth_mem)
  then have "label \<in> set (concat (map (\<lambda>l. case l of None \<Rightarrow> [] | Some x \<Rightarrow> [x]) labels))"
    by (force split: option.splits)
  with l(4) show ?thesis by (simp add: TEnumeration ValidateMSBuild_def)
qed

section \<open>Tables: theorems\<close>

definition entry :: "(string \<times> (string \<times> 'v) list) list \<Rightarrow> string \<Rightarrow> string \<Rightarrow> 'v option" where
  "entry d a b = Option.bind (dget d a) (\<lambda>e. dget e b)"

lemma put_entry_spec:
  "put_entry k1 k2 v d = Inr d' \<Longrightarrow>
    entry d' a b = (if a = k1 \<and> b = k2 then Some v else entry d a b) \<and> dhas d' a = dhas d a"
  by (auto simp: put_entry_def entry_def dhas_def split: if_splits)

lemma put_msbuild_eq:
  "put_msbuild a b ty tabs = Inr tabs' \<longleftrightarrow>
    (\<exists>d. put_entry a b ty (msbuild_validators tabs) = Inr d \<and> tabs' = tabs\<lparr> msbuild_validators := d \<rparr>)"
  by (auto simp: put_msbuild_def)

lemma rbind_rfold_Nil: "rbind m (rfold f []) = m"
  by (cases m) simp_all

lemma put_entry_total: "dhas d k1 \<Longrightarrow> \<exists>d'. put_entry k1 k2 v d = Inr d'"
  by (auto simp: put_entry_def dhas_def)

text \<open>What a registration stores: validators of MSBuild settings, and for a setting of Visual Studio
  its validator and its converter.\<close>

definition reg_sets :: "registration \<Rightarrow> (string \<times> string \<times> setting_type) list" where
  "reg_sets r =
     (case r of
        Same t n ty \<Rightarrow> [(msbuild_name t, n, ty)]
      | Renamed t a b ty \<Rightarrow> [(msbuild_name t, b, ty)]
      | Moved t n mt ty \<Rightarrow> [(mt, n, ty)]
      | MovedAndRenamed t a mt b ty \<Rightarrow> [(mt, b, ty)]
      | MSBuildOnly t n ty \<Rightarrow> [(msbuild_name t, n, ty)]
      | CustomGeneratePreprocessedFile t n \<Rightarrow>
          [(msbuild_name t, ''PreprocessToFile'', TBoolean),
           (msbuild_name t, ''PreprocessSuppressLineNumbers'', TBoolean)]
      | _ \<Rightarrow> [])"

definition reg_msvs :: "registration \<Rightarrow> (string \<times> string \<times> setting_type \<times> converter) option" where
  "reg_msvs r =
     (case r of
        Same t n ty \<Rightarrow> Some (msvs_name t, n, ty, Translate (msbuild_name t) n ty)
      | Renamed t a b ty \<Rightarrow> Some (msvs_name t, a, ty, Translate (msbuild_name t) b ty)
      | Moved t n mt ty \<Rightarrow> Some (msvs_name t, n, ty, Translate mt n ty)
      | MovedAndRenamed t a mt b ty \<Rightarrow> Some (msvs_name t, a, ty, Translate mt b ty)
      | MSVSOnly t n ty \<Rightarrow> Some (msvs_name t, n, ty, NoTranslation)
      | MSBuildOnly t n ty \<Rightarrow> None
      | ConvertedToAdditionalOption t n flag \<Rightarrow>
          Some (msvs_name t, n, TBoolean, AddOption (msbuild_name t) flag)
      | CustomGeneratePreprocessedFile t n \<Rightarrow>
          Some (msvs_name t, n, TEnumeration [Some ''a'', Some ''b'', Some ''c''] [], Preprocess (msbuild_name t)))"

text \<open>A registration as updates of the three tables.\<close>

definition put_all :: "(string \<times> string \<times> setting_type) list \<Rightarrow> settings_tables \<Rightarrow> settings_tables res" where
  "put_all xs tabs = rfold (\<lambda>(a, b, ty). put_msbuild a b ty) xs tabs"

lemma register_split:
  "register r tabs = (case reg_msvs r of
      None \<Rightarrow> put_all (reg_sets r) tabs
    | Some (t, n, ty, c) \<Rightarrow>
        rbind (rbind (put_entry t n ty (msvs_validators tabs)) (\<lambda>d. Inr (tabs\<lparr> msvs_validators := d \<rparr>))) (\<lambda>tabs.
        rbind (put_all (reg_sets r) tabs) (\<lambda>tabs.
        rbind (put_entry t n c (converters tabs)) (\<lambda>d. Inr (tabs\<lparr> converters := d \<rparr>)))))"
  by (cases r) (simp_all add: register_def define_renamed_def define_moved_def define_msvs_only_def
      define_option_def define_preprocess_def put_msvs_def put_converter_def[abs_def] put_all_def
      reg_msvs_def reg_sets_def rbind_assoc rbind_rfold_Nil)

lemma put_all_spec:
  assumes "put_all xs tabs = Inr tabs'"
  shows "msvs_validators tabs' = msvs_validators tabs \<and> converters tabs' = converters tabs
    \<and> (\<forall>a. dhas (msbuild_validators tabs') a = dhas (msbuild_validators tabs) a)
    \<and> (\<forall>a b. entry (msbuild_validators tabs') a b \<noteq> None
          \<longleftrightarrow> entry (msbuild_validators tabs) a b \<noteq> None \<or> (\<exists>ty. (a, b, ty) \<in> set xs))
    \<and> (\<forall>a b ty. entry (msbuild_validators tabs') a b = Some ty \<longrightarrow>
          entry (msbuild_validators tabs) a b = Some ty \<or> (a, b, ty) \<in> set xs)"
  using assms unfolding put_all_def
proof (induction xs arbitrary: tabs)
  case (Cons x xs)
  obtain a b ty where x: "x = (a, b, ty)" by (cases x)
  from Cons.prems x obtain d where d: "put_entry a b ty (msbuild_validators tabs) = Inr d"
    and r: "rfold (\<lambda>(a, b, ty). put_msbuild a b ty) xs (tabs\<lparr> msbuild_validators := d \<rparr>) = Inr tabs'"
    by (auto simp: put_msbuild_eq)
  note s = put_entry_spec[OF d]
  note ih = Cons.IH[OF r]
  have "entry (msbuild_validators tabs') p q \<noteq> None
      \<longleftrightarrow> entry (msbuild_validators tabs) p q \<noteq> None \<or> (\<exists>ty. (p, q, ty) \<in> set (x # xs))" for p q
  proof -
    have "entry (msbuild_validators tabs') p q \<noteq> None \<longleftrightarrow> entry d p q \<noteq> None \<or> (\<exists>ty. (p, q, ty) \<in> set xs)"
      using ih by simp
    then show ?thesis using s[of p q] x by auto
  qed
  moreover have "entry (msbuild_validators tabs) p q = Some t \<or> (p, q, t) \<in> set (x # xs)"
    if "entry (msbuild_validators tabs') p q = Some t" for p q t
  proof -
    have "entry d p q = Some t \<or> (p, q, t) \<in> set xs" using ih that by simp
    then show ?thesis using s[of p q] x by (auto split: if_splits)
  qed
  moreover have "dhas (msbuild_validators tabs') p = dhas (msbuild_validators tabs) p" for p
    using ih s[of p b] by simp
  ultimately show ?case using ih by simp
qed simp
text \<open>The tables after the registrations \<open>pre\<close>.\<close>

definition built :: "registration list \<Rightarrow> settings_tables \<Rightarrow> bool" where
  "built pre tabs \<longleftrightarrow>
     (\<forall>a. dhas (msvs_validators tabs) a = dhas (converters tabs) a)
     \<and> (\<forall>a b ty. entry (msbuild_validators tabs) a b = Some ty \<longrightarrow>
          (a, b, ty) \<in> set (concat (map reg_sets pre)) \<and> dhas (msbuild_validators tabs) a)
     \<and> (\<forall>a b ty. (a, b, ty) \<in> set (concat (map reg_sets pre)) \<longrightarrow> entry (msbuild_validators tabs) a b \<noteq> None)
     \<and> (\<forall>a b ty. entry (msvs_validators tabs) a b = Some ty \<longrightarrow>
          (\<exists>r \<in> set pre. \<exists>c. reg_msvs r = Some (a, b, ty, c) \<and> entry (converters tabs) a b = Some c))"

lemma builtD:
  assumes "built pre tabs"
  shows "dhas (msvs_validators tabs) a = dhas (converters tabs) a"
    and "entry (msbuild_validators tabs) a b = Some ty \<Longrightarrow> (a, b, ty) \<in> set (concat (map reg_sets pre))"
    and "(a, b, ty) \<in> set (concat (map reg_sets pre)) \<Longrightarrow> entry (msbuild_validators tabs) a b \<noteq> None"
    and "entry (msvs_validators tabs) a b = Some ty \<Longrightarrow>
      \<exists>r \<in> set pre. \<exists>c. reg_msvs r = Some (a, b, ty, c) \<and> entry (converters tabs) a b = Some c"
  using assms unfolding built_def by blast+

lemma entry_dhas: "entry d a b \<noteq> None \<Longrightarrow> dhas d a"
  by (cases "dget d a") (auto simp: entry_def dhas_def)

lemma built_initial: "built [] initial_tables"
proof -
  have none: "entry d a b = None" if "list_all (\<lambda>e. snd e = []) d" for d :: "(string \<times> (string \<times> 'a) list) list" and a b
  proof (cases "dget d a")
    case (Some e)
    then have "(a, e) \<in> set d" by (rule map_of_SomeD)
    with that have "e = []" by (auto simp: list_all_iff)
    with Some show ?thesis by (simp add: entry_def)
  qed (simp add: entry_def)
  have "list_all (\<lambda>e. snd e = []) (msbuild_validators initial_tables)"
    "list_all (\<lambda>e. snd e = []) (msvs_validators initial_tables)"
    by (simp_all add: initial_tables_def AddTool_def Let_def compile_tool_def link_tool_def midl_tool_def
        rc_tool_def lib_tool_def manifest_tool_def dset_def)
  note n = this[THEN none]
  have "map fst (msvs_validators initial_tables) = map fst (converters initial_tables)"
    by (simp add: initial_tables_def AddTool_def Let_def compile_tool_def link_tool_def midl_tool_def
        rc_tool_def lib_tool_def manifest_tool_def dset_def)
  then have "dhas (msvs_validators initial_tables) a = dhas (converters initial_tables) a" for a
    unfolding dhas_iff by simp
  then show ?thesis using n by (simp add: built_def)
qed

lemma built_put_all:
  assumes "built pre tabs" "put_all (reg_sets r) tabs = Inr tabs'" "reg_msvs r = None"
  shows "built (pre @ [r]) tabs'"
proof -
  note P = put_all_spec[OF assms(2)]
  note B = assms(1)[unfolded built_def]
  have m: "msvs_validators tabs' = msvs_validators tabs" "converters tabs' = converters tabs" using P by simp_all
  have 1: "(a, b, ty) \<in> set (concat (map reg_sets (pre @ [r]))) \<and> dhas (msbuild_validators tabs') a"
    if e: "entry (msbuild_validators tabs') a b = Some ty" for a b ty
  proof
    have "entry (msbuild_validators tabs) a b = Some ty \<or> (a, b, ty) \<in> set (reg_sets r)" using P e by simp
    then show "(a, b, ty) \<in> set (concat (map reg_sets (pre @ [r])))" using B by auto
    show "dhas (msbuild_validators tabs') a" by (rule entry_dhas[of _ _ b]) (simp add: e)
  qed
  have 2: "entry (msbuild_validators tabs') a b \<noteq> None"
    if "(a, b, ty) \<in> set (concat (map reg_sets (pre @ [r])))" for a b ty
  proof -
    have "(a, b, ty) \<in> set (concat (map reg_sets pre)) \<or> (a, b, ty) \<in> set (reg_sets r)" using that by simp
    then have "entry (msbuild_validators tabs) a b \<noteq> None \<or> (\<exists>ty. (a, b, ty) \<in> set (reg_sets r))"
      using B by blast
    then show ?thesis using P by simp
  qed
  have 3: "\<exists>x \<in> set (pre @ [r]). \<exists>c. reg_msvs x = Some (a, b, ty, c) \<and> entry (converters tabs') a b = Some c"
    if "entry (msvs_validators tabs') a b = Some ty" for a b ty
  proof -
    from builtD(4)[OF assms(1) that[unfolded m(1)]] show ?thesis unfolding m(2) set_append by blast
  qed
  have "dhas (msvs_validators tabs') a = dhas (converters tabs') a" for a using B m by simp
  with 1 2 3 show ?thesis unfolding built_def by blast
qed

lemma built_register:
  assumes b: "built pre tabs" and r: "register r tabs = Inr tabs'"
  shows "built (pre @ [r]) tabs'"
proof (cases "reg_msvs r")
  case None
  with r b show ?thesis by (intro built_put_all) (simp_all add: register_split)
next
  case (Some x)
  obtain t n ty c where x: "x = (t, n, ty, c)" by (cases x)
  from r Some x obtain d tabs1 e where
    d: "put_entry t n ty (msvs_validators tabs) = Inr d"
    and p: "put_all (reg_sets r) (tabs\<lparr> msvs_validators := d \<rparr>) = Inr tabs1"
    and e: "put_entry t n c (converters tabs1) = Inr e"
    and tabs': "tabs' = tabs1\<lparr> converters := e \<rparr>"
    by (auto simp: register_split)
  note P = put_all_spec[OF p]
  note B = b[unfolded built_def]
  note D = put_entry_spec[OF d] and E = put_entry_spec[OF e]
  have dh: "dhas (msvs_validators tabs') a = dhas (converters tabs') a" for a
    using P B D[of a n] E[of a n] by (simp add: tabs')
  have mb: "msbuild_validators tabs' = msbuild_validators tabs1" by (simp add: tabs')
  have 1: "(a, q, s) \<in> set (concat (map reg_sets (pre @ [r]))) \<and> dhas (msbuild_validators tabs') a"
    if e: "entry (msbuild_validators tabs') a q = Some s" for a q s
  proof
    have "entry (msbuild_validators tabs) a q = Some s \<or> (a, q, s) \<in> set (reg_sets r)" using P e mb by simp
    then show "(a, q, s) \<in> set (concat (map reg_sets (pre @ [r])))" using B by auto
    show "dhas (msbuild_validators tabs') a" by (rule entry_dhas[of _ _ q]) (simp add: e)
  qed
  have 2: "entry (msbuild_validators tabs') a q \<noteq> None"
    if "(a, q, s) \<in> set (concat (map reg_sets (pre @ [r])))" for a q s
  proof -
    have "(a, q, s) \<in> set (concat (map reg_sets pre)) \<or> (a, q, s) \<in> set (reg_sets r)" using that by simp
    then have "entry (msbuild_validators tabs) a q \<noteq> None \<or> (\<exists>s. (a, q, s) \<in> set (reg_sets r))"
      using B by blast
    then show ?thesis using P mb by simp
  qed
  have 3: "\<exists>x \<in> set (pre @ [r]). \<exists>c'. reg_msvs x = Some (a, q, s, c') \<and> entry (converters tabs') a q = Some c'"
    if m: "entry (msvs_validators tabs') a q = Some s" for a q s
  proof (cases "a = t \<and> q = n")
    case True
    have "entry d a q = Some s" using m P by (simp add: tabs')
    with True D[of a q] have "s = ty" by simp
    moreover have "entry (converters tabs') a q = Some c" using True E[of a q] by (simp add: tabs')
    ultimately show ?thesis using True Some x by auto
  next
    case False
    have "entry d a q = Some s" using m P by (simp add: tabs')
    with False D[of a q] have "entry (msvs_validators tabs) a q = Some s" by auto
    from builtD(4)[OF b this] obtain y c' where y: "y \<in> set pre" "reg_msvs y = Some (a, q, s, c')"
      "entry (converters tabs) a q = Some c'" by blast
    have "entry (converters tabs') a q = entry (converters tabs1) a q"
      using False E[of a q] by (auto simp: tabs')
    also have "\<dots> = entry (converters tabs) a q" using P by simp
    finally have "entry (converters tabs') a q = Some c'" using y(3) by simp
    with y(1,2) show ?thesis unfolding set_append by blast
  qed
  show ?thesis unfolding built_def using dh 1 2 3 by blast
qed

lemma built_all:
  assumes "settings_table = Inr tabs"
  shows "built all_settings tabs"
proof -
  have "rfold register rs tabs0 = Inr tabs1 \<Longrightarrow> built pre tabs0 \<Longrightarrow> built (pre @ rs) tabs1" for rs pre tabs0 tabs1
  proof (induction rs arbitrary: pre tabs0)
    case (Cons r rs)
    then obtain tabs2 where "register r tabs0 = Inr tabs2" "rfold register rs tabs2 = Inr tabs1" by auto
    with Cons.IH[OF this(2) built_register[OF Cons.prems(2) this(1)]] show ?case by simp
  qed simp
  from this[OF assms[unfolded settings_table_def] built_initial] show ?thesis by simp
qed
section \<open>Converted settings validate\<close>

text \<open>No name of MSBuild gets two validators of different types.  The settings of a tool have pairwise
  different names; the few that move elsewhere are listed.\<close>

definition moved_settings :: "(string \<times> string \<times> setting_type) list" where
  "moved_settings =
     [('''', ''GenerateManifest'', TBoolean), ('''', ''IgnoreImportLibrary'', TBoolean),
      ('''', ''LinkIncremental'', newly_boolean), ('''', ''EmbedManifest'', TBoolean),
      (''ProjectReference'', ''LinkLibraryDependencies'', TBoolean),
      (''ProjectReference'', ''UseLibraryDependencyInputs'', TBoolean),
      (''ManifestResourceCompile'', ''ResourceOutputFileName'', TString)]"

definition tool_groups :: "(string \<times> registration list) list" where
  "tool_groups =
     [(''ClCompile'', compile_same @ compile_enumerations @ compile_other),
      (''Link'', link_same @ link_enumerations @ link_other),
      (''ResourceCompile'', rc_settings), (''Midl'', midl_settings), (''Lib'', lib_settings),
      (''Manifest'', manifest_settings)]"

definition group_sets :: "registration list \<Rightarrow> (string \<times> string \<times> setting_type) list" where
  "group_sets rs = concat (map reg_sets rs)"

definition own_or_moved :: "string \<Rightarrow> registration list \<Rightarrow> bool" where
  "own_or_moved tool_name rs =
     (list_all (\<lambda>x. if fst x = tool_name then True else x \<in> set moved_settings) (group_sets rs)
      \<and> distinct (map (\<lambda>x. fst (snd x)) (group_sets rs)))"

lemma compile_group: "own_or_moved ''ClCompile'' (compile_same @ compile_enumerations @ compile_other)"
  by code_simp

lemma link_group: "own_or_moved ''Link'' (link_same @ link_enumerations @ link_other)"
  by code_simp

lemma other_groups:
  "own_or_moved ''ResourceCompile'' rc_settings" "own_or_moved ''Midl'' midl_settings"
  "own_or_moved ''Lib'' lib_settings" "own_or_moved ''Manifest'' manifest_settings"
  by code_simp+
lemma groups_own: "(t, rs) \<in> set tool_groups \<Longrightarrow> own_or_moved t rs"
  unfolding tool_groups_def using compile_group link_group other_groups by auto

lemma group_keys: "distinct (map fst tool_groups)" "map_of tool_groups '''' = None"
    "map_of tool_groups ''ProjectReference'' = None" "map_of tool_groups ''ManifestResourceCompile'' = None"
  by (simp_all add: tool_groups_def)

lemma moved_unique:
  "(a, b, ty) \<in> set moved_settings \<Longrightarrow> map_of tool_groups a = None"
  "(a, b, ty) \<in> set moved_settings \<Longrightarrow> (a, b, ty') \<in> set moved_settings \<Longrightarrow> ty = ty'"
proof -
  show "(a, b, ty) \<in> set moved_settings \<Longrightarrow> map_of tool_groups a = None"
    unfolding moved_settings_def using group_keys(2-4) by auto
  have "distinct (map (\<lambda>x. (fst x, fst (snd x))) moved_settings)"
    by (simp add: moved_settings_def)
  then have "inj_on (\<lambda>x. (fst x, fst (snd x))) (set moved_settings)" by (simp add: distinct_map)
  from inj_onD[OF this, of "(a, b, ty)" "(a, b, ty')"]
  show "(a, b, ty) \<in> set moved_settings \<Longrightarrow> (a, b, ty') \<in> set moved_settings \<Longrightarrow> ty = ty'" by simp
qed

lemma sets_group:
  assumes "x \<in> set (concat (map reg_sets all_settings))"
  shows "\<exists>t rs. (t, rs) \<in> set tool_groups \<and> x \<in> set (group_sets rs) \<and> (fst x = t \<or> x \<in> set moved_settings)"
proof -
  have all: "all_settings = concat (map snd tool_groups)" by (simp add: all_settings_def tool_groups_def)
  have "\<exists>g \<in> set tool_groups. x \<in> set (group_sets (snd g))"
    using assms unfolding all group_sets_def by auto
  then obtain t rs where g: "(t, rs) \<in> set tool_groups" "x \<in> set (group_sets rs)" by auto
  moreover have "fst x = t \<or> x \<in> set moved_settings"
    using groups_own[OF g(1)] g(2) by (auto simp: own_or_moved_def list_all_iff split: if_splits)
  ultimately show ?thesis by blast
qed

lemma sets_unique:
  assumes x: "(a, b, ty) \<in> set (concat (map reg_sets all_settings))"
    and y: "(a, b, ty') \<in> set (concat (map reg_sets all_settings))"
  shows "ty = ty'"
proof -
  from sets_group[OF x] obtain t rs where g: "(t, rs) \<in> set tool_groups" "(a, b, ty) \<in> set (group_sets rs)"
    "a = t \<or> (a, b, ty) \<in> set moved_settings" by auto
  from sets_group[OF y] obtain t' rs' where g': "(t', rs') \<in> set tool_groups" "(a, b, ty') \<in> set (group_sets rs')"
    "a = t' \<or> (a, b, ty') \<in> set moved_settings" by auto
  have key: "map_of tool_groups t = Some rs" "map_of tool_groups t' = Some rs'"
    using g(1) g'(1) group_keys(1) by simp_all
  show ?thesis
  proof (cases "(a, b, ty) \<in> set moved_settings")
    case True
    then have "a \<noteq> t'" using moved_unique(1)[OF True] key(2) by auto
    with g'(3) have "(a, b, ty') \<in> set moved_settings" by simp
    with True show ?thesis by (rule moved_unique(2))
  next
    case False
    with g(3) have a: "a = t" by simp
    then have "(a, b, ty') \<notin> set moved_settings" using moved_unique(1) key(1) by fastforce
    with g'(3) have "a = t'" by simp
    with a key have rs: "rs' = rs" by simp
    have "distinct (map (\<lambda>x. fst (snd x)) (group_sets rs))"
      using groups_own[OF g(1)] by (simp add: own_or_moved_def)
    then have "inj_on (\<lambda>x. fst (snd x)) (set (group_sets rs))" by (simp add: distinct_map)
    from inj_onD[OF this, of "(a, b, ty)" "(a, b, ty')"] g(2) g'(2) rs show ?thesis by simp
  qed
qed

text \<open>What the converters rely on.\<close>

definition good_registration :: "registration \<Rightarrow> bool" where
  "good_registration r =
     (case r of
        ConvertedToAdditionalOption t n flag \<Rightarrow> t = compile_tool
      | Same t n (TInteger b) \<Rightarrow> if b = 10 then True else b = 16 \<and> t = rc_tool \<and> n = ''Culture''
      | Renamed t n m (TInteger b) \<Rightarrow> b = 10
      | Moved t n m (TInteger b) \<Rightarrow> b = 10
      | MovedAndRenamed t n m p (TInteger b) \<Rightarrow> b = 10
      | _ \<Rightarrow> True)"

lemma good_registrations: "r \<in> set all_settings \<Longrightarrow> good_registration r"
proof -
  have "list_all good_registration compile_same" "list_all good_registration compile_enumerations"
    "list_all good_registration compile_other" "list_all good_registration link_same"
    "list_all good_registration link_enumerations" "list_all good_registration link_other"
    "list_all good_registration rc_settings" "list_all good_registration midl_settings"
    "list_all good_registration lib_settings" "list_all good_registration manifest_settings"
    by code_simp+
  then show "r \<in> set all_settings \<Longrightarrow> good_registration r"
    unfolding all_settings_def set_append list_all_iff by blast
qed

lemma converter_valid:
  assumes t: "settings_table = Inr tabs" and e: "entry (msvs_validators tabs) tool_name name = Some ty"
  shows "\<exists>c. entry (converters tabs) tool_name name = Some c
    \<and> (case c of
         Translate mt n ty' \<Rightarrow> ty' = ty \<and> entry (msbuild_validators tabs) mt n = Some ty
           \<and> (\<forall>b. ty = TInteger b \<longrightarrow> b = 10 \<or> b = 16 \<and> tool_name = ''VCResourceCompilerTool'' \<and> name = ''Culture'')
       | NoTranslation \<Rightarrow> True
       | AddOption mt flag \<Rightarrow> entry (msbuild_validators tabs) mt ''AdditionalOptions'' = Some TStringList
       | Preprocess mt \<Rightarrow> entry (msbuild_validators tabs) mt ''PreprocessToFile'' = Some TBoolean
           \<and> entry (msbuild_validators tabs) mt ''PreprocessSuppressLineNumbers'' = Some TBoolean)"
proof -
  note b = built_all[OF t]
  from builtD(4)[OF b e] obtain r c where r: "r \<in> set all_settings" "reg_msvs r = Some (tool_name, name, ty, c)"
    and c: "entry (converters tabs) tool_name name = Some c" by blast
  have final: "entry (msbuild_validators tabs) a q = Some s"
    if "(a, q, s) \<in> set (concat (map reg_sets all_settings))" for a q s
  proof -
    from builtD(3)[OF b that] obtain s' where s': "entry (msbuild_validators tabs) a q = Some s'" by blast
    with sets_unique[OF that builtD(2)[OF b s']] show ?thesis by simp
  qed
  have own: "x \<in> set (reg_sets r) \<Longrightarrow> x \<in> set (concat (map reg_sets all_settings))" for x
    using r(1) by auto
  have g: "good_registration r" by (rule good_registrations[OF r(1)])
  have add: "entry (msbuild_validators tabs) (msbuild_name compile_tool) ''AdditionalOptions'' = Some TStringList"
  proof (rule final)
    have "Same compile_tool ''AdditionalOptions'' TStringList \<in> set all_settings"
      by (simp add: all_settings_def compile_same_def)
    moreover have "(msbuild_name compile_tool, ''AdditionalOptions'', TStringList)
        \<in> set (reg_sets (Same compile_tool ''AdditionalOptions'' TStringList))" by (simp add: reg_sets_def)
    ultimately show "(msbuild_name compile_tool, ''AdditionalOptions'', TStringList)
        \<in> set (concat (map reg_sets all_settings))" unfolding set_concat set_map by blast
  qed
  show ?thesis
  proof (cases r)
    case (Same t n ty')
    have "(msbuild_name t, n, ty') \<in> set (reg_sets r)" by (simp add: Same reg_sets_def)
    from final[OF own[OF this]] show ?thesis using c r(2) g Same
      by (auto simp: reg_msvs_def good_registration_def rc_tool_def split: if_splits)
  next
    case (Renamed t n m ty')
    have "(msbuild_name t, m, ty') \<in> set (reg_sets r)" by (simp add: Renamed reg_sets_def)
    from final[OF own[OF this]] show ?thesis using c r(2) g Renamed
      by (auto simp: reg_msvs_def good_registration_def)
  next
    case (Moved t n mt ty')
    have "(mt, n, ty') \<in> set (reg_sets r)" by (simp add: Moved reg_sets_def)
    from final[OF own[OF this]] show ?thesis using c r(2) g Moved
      by (auto simp: reg_msvs_def good_registration_def)
  next
    case (MovedAndRenamed t n mt m ty')
    have "(mt, m, ty') \<in> set (reg_sets r)" by (simp add: MovedAndRenamed reg_sets_def)
    from final[OF own[OF this]] show ?thesis using c r(2) g MovedAndRenamed
      by (auto simp: reg_msvs_def good_registration_def)
  next
    case (CustomGeneratePreprocessedFile t n)
    have "(msbuild_name t, ''PreprocessToFile'', TBoolean) \<in> set (reg_sets r)"
      "(msbuild_name t, ''PreprocessSuppressLineNumbers'', TBoolean) \<in> set (reg_sets r)"
      by (simp_all add: CustomGeneratePreprocessedFile reg_sets_def)
    from this[THEN own, THEN final] show ?thesis using c r(2) CustomGeneratePreprocessedFile
      by (auto simp: reg_msvs_def)
  next
    case (ConvertedToAdditionalOption t n flag)
    then show ?thesis using c r(2) g add by (auto simp: reg_msvs_def good_registration_def)
  qed (use c r(2) in \<open>auto simp: reg_msvs_def\<close>)
qed
text \<open>Validation without a warning.\<close>

lemma quiet_loop:
  assumes "\<And>x ws ws'. f x ws = Inr ws' \<Longrightarrow> (\<exists>e. ws' = ws @ e) \<and> (ws' = ws \<longrightarrow> P x)"
    and "rfold f xs ws = Inr ws'"
  shows "(\<exists>e. ws' = ws @ e) \<and> (ws' = ws \<longrightarrow> (\<forall>x \<in> set xs. P x))"
  using assms(2)
proof (induction xs arbitrary: ws)
  case (Cons x xs)
  then obtain u where u: "f x ws = Inr u" "rfold f xs u = Inr ws'" by auto
  from assms(1)[OF u(1)] Cons.IH[OF u(2)] show ?case by auto
qed simp

lemma quiet_loop_conv:
  "(\<And>x ws. x \<in> set xs \<Longrightarrow> f x ws = Inr ws) \<Longrightarrow> rfold f xs ws = Inr ws"
  by (induction xs) auto

lemma quiet_setting:
  assumes "validate_setting f tool_name vt x ws = Inr ws'"
  shows "(\<exists>e. ws' = ws @ e)
    \<and> (ws' = ws \<longrightarrow> (\<exists>ty. dget vt (fst x) = Some ty \<and> f ty (snd x) = Inr ()))"
  using assms by (cases x) (auto simp: validate_setting_def split: option.splits sum.splits py_error.splits)

lemma quiet_tool:
  assumes "validate_tool f vs x ws = Inr ws'"
  shows "(\<exists>e. ws' = ws @ e)
    \<and> (ws' = ws \<longrightarrow> (\<exists>d. snd x = PDict d \<and> (\<forall>y \<in> set d. \<exists>ty. entry vs (fst x) (fst y) = Some ty \<and> f ty (snd y) = Inr ())))"
proof (cases "dget vs (fst x)")
  case None
  with assms show ?thesis by (cases x) (auto simp: validate_tool_def)
next
  case (Some vt)
  with assms obtain d where d: "snd x = PDict d" "rfold (validate_setting f (fst x) vt) d ws = Inr ws'"
    by (cases x) (auto simp: validate_tool_def)
  have "(\<exists>e. ws' = ws @ e) \<and> (ws' = ws \<longrightarrow> (\<forall>y \<in> set d. \<exists>ty. dget vt (fst y) = Some ty \<and> f ty (snd y) = Inr ()))"
    by (rule quiet_loop[OF _ d(2)]) (rule quiet_setting)
  with d(1) Some show ?thesis by (simp add: entry_def)
qed

lemma ValidateSettings_quiet:
  assumes "ValidateSettings f vs settings = Inr []" "x \<in> set settings"
  shows "\<exists>d. snd x = PDict d \<and> (\<forall>y \<in> set d. \<exists>ty. entry vs (fst x) (fst y) = Some ty \<and> f ty (snd y) = Inr ())"
proof -
  have "(\<exists>e. ([] :: warnings) = [] @ e) \<and> (([] :: warnings) = [] \<longrightarrow> (\<forall>x \<in> set settings.
      \<exists>d. snd x = PDict d \<and> (\<forall>y \<in> set d. \<exists>ty. entry vs (fst x) (fst y) = Some ty \<and> f ty (snd y) = Inr ())))"
    by (rule quiet_loop[OF _ assms(1)[unfolded ValidateSettings_def]]) (rule quiet_tool)
  with assms(2) show ?thesis by blast
qed

definition valid_settings :: "settings_tables \<Rightarrow> msbuild_settings \<Rightarrow> bool" where
  "valid_settings tabs ms \<longleftrightarrow>
     (\<forall>x \<in> set ms. dhas (msbuild_validators tabs) (fst x)
       \<and> (\<forall>y \<in> set (snd x). \<exists>ty. entry (msbuild_validators tabs) (fst x) (fst y) = Some ty
            \<and> ValidateMSBuild ty (snd y) = Inr ()))"

lemma valid_settings_quiet:
  assumes "valid_settings tabs ms"
  shows "ValidateMSBuildSettings tabs (map (\<lambda>(k, d). (k, PDict d)) ms) = Inr []"
  unfolding ValidateMSBuildSettings_def ValidateSettings_def
proof (rule quiet_loop_conv)
  fix x ws assume "x \<in> set (map (\<lambda>(k, d). (k, PDict d)) ms)"
  then obtain k d where x: "x = (k, PDict d)" "(k, d) \<in> set ms" by auto
  with assms obtain vt where vt: "dget (msbuild_validators tabs) k = Some vt"
    by (force simp: valid_settings_def dhas_def)
  have "rfold (validate_setting ValidateMSBuild k vt) d ws = Inr ws"
  proof (rule quiet_loop_conv)
    fix y ws assume "y \<in> set d"
    with assms x(2) obtain ty where "entry (msbuild_validators tabs) k (fst y) = Some ty"
      "ValidateMSBuild ty (snd y) = Inr ()" by (force simp: valid_settings_def)
    then show "validate_setting ValidateMSBuild k vt y ws = Inr ws"
      using vt by (cases y) (simp add: validate_setting_def entry_def)
  qed
  then show "validate_tool ValidateMSBuild (msbuild_validators tabs) x ws = Inr ws"
    using vt x(1) by (simp add: validate_tool_def)
qed

lemma put_setting_valid:
  assumes v: "valid_settings tabs ms" and e: "entry (msbuild_validators tabs) mt n = Some ty"
    and w: "ValidateMSBuild ty w = Inr ()"
  shows "valid_settings tabs (put_setting mt n w ms)"
proof -
  let ?d = "dget_default ms mt []"
  have dhas: "dhas (msbuild_validators tabs) mt" by (rule entry_dhas[of _ _ n]) (simp add: e)
  have old: "\<exists>ty. entry (msbuild_validators tabs) mt (fst y) = Some ty \<and> ValidateMSBuild ty (snd y) = Inr ()"
    if "y \<in> set ?d" for y
  proof (cases "dget ms mt")
    case None
    with that show ?thesis by (simp add: dget_default_def)
  next
    case (Some d)
    then have "(mt, d) \<in> set ms" by (rule map_of_SomeD)
    with v that Some show ?thesis by (auto simp: valid_settings_def dget_default_def)
  qed
  have new: "\<exists>ty. entry (msbuild_validators tabs) mt (fst y) = Some ty \<and> ValidateMSBuild ty (snd y) = Inr ()"
    if "y \<in> set (dset n w ?d)" for y
    using that set_dset[of n w ?d] old e w by (cases "y = (n, w)") auto
  show ?thesis unfolding valid_settings_def
  proof
    fix x assume "x \<in> set (put_setting mt n w ms)"
    then have "x = (mt, dset n w ?d) \<or> x \<in> set ms"
      using set_dset[of mt "dset n w ?d" ms] by (auto simp: put_setting_def)
    then show "dhas (msbuild_validators tabs) (fst x)
       \<and> (\<forall>y \<in> set (snd x). \<exists>ty. entry (msbuild_validators tabs) (fst x) (fst y) = Some ty
            \<and> ValidateMSBuild ty (snd y) = Inr ())"
      using new dhas v by (auto simp: valid_settings_def)
  qed
qed

lemma tool_settings_valid:
  "valid_settings tabs ms \<Longrightarrow> dhas (msbuild_validators tabs) mt \<Longrightarrow> valid_settings tabs (tool_settings mt ms)"
proof -
  assume v: "valid_settings tabs ms" and d: "dhas (msbuild_validators tabs) mt"
  have "x = (mt, []) \<or> x \<in> set ms" if "x \<in> set (tool_settings mt ms)" for x
    using that set_dset[of mt "[]" ms] by (auto simp: tool_settings_def split: if_splits)
  with v d show ?thesis unfolding valid_settings_def by fastforce
qed

lemma run_converter_valid:
  assumes t: "settings_table = Inr tabs" and v: "valid_settings tabs ms"
    and e: "entry (msvs_validators tabs) tool_name name = Some ty" "ValidateMSVS ty x = Inr ()"
    and c: "entry (converters tabs) tool_name name = Some c"
    and int: "tool_name = ''VCResourceCompilerTool'' \<Longrightarrow> name = ''Culture'' \<Longrightarrow> \<forall>n. py_int x = Inr n \<longrightarrow> 0 \<le> n"
  shows "valid_settings tabs (fst (run_converter c x ms))"
proof -
  from converter_valid[OF t e(1)] c have cv: "case c of
         Translate mt n ty' \<Rightarrow> ty' = ty \<and> entry (msbuild_validators tabs) mt n = Some ty
           \<and> (\<forall>b. ty = TInteger b \<longrightarrow> b = 10 \<or> b = 16 \<and> tool_name = ''VCResourceCompilerTool'' \<and> name = ''Culture'')
       | NoTranslation \<Rightarrow> True
       | AddOption mt flag \<Rightarrow> entry (msbuild_validators tabs) mt ''AdditionalOptions'' = Some TStringList
       | Preprocess mt \<Rightarrow> entry (msbuild_validators tabs) mt ''PreprocessToFile'' = Some TBoolean
           \<and> entry (msbuild_validators tabs) mt ''PreprocessSuppressLineNumbers'' = Some TBoolean" by simp
  have str: "ValidateMSBuild TStringList (PStr s) = Inr ()" for s
    by (simp add: ValidateMSBuild_def ValidateMSVS_def)
  show ?thesis
  proof (cases c)
    case (Translate mt m ty')
    with cv have m: "ty' = ty" "entry (msbuild_validators tabs) mt m = Some ty"
      "\<And>b. ty = TInteger b \<Longrightarrow> b = 10 \<or> b = 16 \<and> tool_name = ''VCResourceCompilerTool'' \<and> name = ''Culture''"
      by auto
    show ?thesis
    proof (cases "ConvertToMSBuild ty x")
      case (Inl err)
      have "dhas (msbuild_validators tabs) mt" by (rule entry_dhas[of _ _ m]) (simp add: m(2))
      then show ?thesis using Inl m(1) v by (simp add: Translate run_converter_def tool_settings_valid)
    next
      case (Inr w)
      have "ValidateMSBuild ty w = Inr ()"
      proof (rule converted_value_valid[OF e(2) Inr])
        fix b assume "ty = TInteger b"
        from m(3)[OF this] int show "b = 10 \<or> b = 16 \<and> (\<forall>n. py_int x = Inr n \<longrightarrow> 0 \<le> n)" by auto
      qed
      from put_setting_valid[OF v m(2) this] show ?thesis using Inr m(1)
        by (simp add: Translate run_converter_def)
    qed
  next
    case (AddOption mt flag)
    with cv v put_setting_valid[OF v _ str] show ?thesis
      by (auto simp: run_converter_def add_option_def split: option.split)
  next
    case (Preprocess mt)
    with cv have b: "entry (msbuild_validators tabs) mt ''PreprocessToFile'' = Some TBoolean"
      "entry (msbuild_validators tabs) mt ''PreprocessSuppressLineNumbers'' = Some TBoolean" by simp_all
    have tf: "ValidateMSBuild TBoolean (PStr ''true'') = Inr ()" "ValidateMSBuild TBoolean (PStr ''false'') = Inr ()"
      by (simp_all add: ValidateMSBuild_def ValidateMSVS_def)
    have d: "dhas (msbuild_validators tabs) mt" by (rule entry_dhas[of _ _ "''PreprocessToFile''"]) (simp add: b)
    note base = tool_settings_valid[OF v d]
    have "valid_settings tabs (put_setting mt ''PreprocessSuppressLineNumbers'' (PStr p)
        (put_setting mt ''PreprocessToFile'' (PStr q) (tool_settings mt ms)))"
      if "p \<in> {''true'', ''false''}" "q \<in> {''true'', ''false''}" for p q
      using that tf by (intro put_setting_valid[OF _ b(2)] put_setting_valid[OF base b(1)]) auto
    with base show ?thesis
      by (simp add: Preprocess run_converter_def preprocess_setting_def Let_def)
  qed (use v in \<open>simp add: run_converter_def\<close>)
qed
lemma convert_setting_valid:
  assumes t: "settings_table = Inr tabs" and v: "valid_settings tabs (fst st)"
    and vt: "dget (converters tabs) tool_name = Some vt"
    and e: "entry (msvs_validators tabs) tool_name (fst y) = Some ty" "ValidateMSVS ty (snd y) = Inr ()"
    and int: "tool_name = ''VCResourceCompilerTool'' \<Longrightarrow> fst y = ''Culture'' \<Longrightarrow>
      \<forall>n. py_int (snd y) = Inr n \<longrightarrow> 0 \<le> n"
    and r: "convert_setting tool_name vt y st = Inr st'"
  shows "valid_settings tabs (fst st')"
proof -
  from converter_valid[OF t e(1)] obtain c where c: "entry (converters tabs) tool_name (fst y) = Some c" by blast
  obtain ms ws where st: "st = (ms, ws)" by (cases st)
  have "dget vt (fst y) = Some c" using c vt by (simp add: entry_def)
  with r st have "fst st' = fst (run_converter c (snd y) ms)"
    by (cases y) (auto simp: convert_setting_def split: prod.splits sum.splits py_error.splits)
  with run_converter_valid[OF t _ e c int, of ms] v st show ?thesis by simp
qed

text \<open>C14.  The registered tables fit together: when the settings of a Visual Studio project validate
  without a warning and their conversion to MSBuild returns, the converted settings validate
  without a warning too, for every tool and setting of the tables.  The one exception is excluded by
  the last hypothesis: a negative \<open>Culture\<close> of the resource compiler, which converts to a text that
  is no number in base 16.\<close>

theorem ConvertToMSBuildSettings_validates:
  assumes "settings_table = Inr tabs"
    and "ValidateMSVSSettings tabs settings = Inr []"
    and "ConvertToMSBuildSettings tabs settings = Inr (ms, ws)"
    and "\<forall>d v n. (''VCResourceCompilerTool'', PDict d) \<in> set settings \<and> (''Culture'', v) \<in> set d
           \<and> py_int v = Inr n \<longrightarrow> 0 \<le> n"
  shows "ValidateMSBuildSettings tabs (map (\<lambda>(k, d). (k, PDict d)) ms) = Inr []"
proof -
  have "valid_settings tabs (fst (ms, ws))"
    using assms(3)[unfolded ConvertToMSBuildSettings_def]
  proof (rule rfold_invariant[where P = "\<lambda>st. valid_settings tabs (fst st)"])
    fix x st st'
    assume x: "x \<in> set settings" and v: "valid_settings tabs (fst st)" and r: "convert_tool tabs x st = Inr st'"
    from ValidateSettings_quiet[OF assms(2)[unfolded ValidateMSVSSettings_def] x] obtain d where
      d: "snd x = PDict d" "\<And>y. y \<in> set d \<Longrightarrow>
        \<exists>ty. entry (msvs_validators tabs) (fst x) (fst y) = Some ty \<and> ValidateMSVS ty (snd y) = Inr ()" by blast
    show "valid_settings tabs (fst st')"
    proof (cases "dget (converters tabs) (fst x)")
      case None
      with r v show ?thesis by (cases x; cases st) (auto simp: convert_tool_def)
    next
      case (Some vt)
      with r d(1) have "rfold (convert_setting (fst x) vt) d st = Inr st'"
        by (cases x; cases st) (simp add: convert_tool_def)
      then show ?thesis
      proof (rule rfold_invariant[where P = "\<lambda>st. valid_settings tabs (fst st)"])
        fix y u u'
        assume y: "y \<in> set d" and u: "valid_settings tabs (fst u)" and c: "convert_setting (fst x) vt y u = Inr u'"
        from d(2)[OF y] obtain ty where
          ty: "entry (msvs_validators tabs) (fst x) (fst y) = Some ty" "ValidateMSVS ty (snd y) = Inr ()" by blast
        show "valid_settings tabs (fst u')"
        proof (rule convert_setting_valid[OF assms(1) u Some ty _ c])
          assume n: "fst x = ''VCResourceCompilerTool''" "fst y = ''Culture''"
          have "x = (''VCResourceCompilerTool'', PDict d)" "y = (''Culture'', snd y)"
            using n d(1) by (simp_all add: prod_eq_iff)
          with x y assms(4) show "\<forall>n. py_int (snd y) = Inr n \<longrightarrow> 0 \<le> n" by metis
        qed
      qed (fact v)
    qed
  qed (simp add: valid_settings_def)
  then show ?thesis by (simp add: valid_settings_quiet)
qed
text \<open>Every registration of the source succeeds.\<close>

definition tools_known :: "string list \<Rightarrow> string list \<Rightarrow> registration \<Rightarrow> bool" where
  "tools_known msvs msbuild r =
     ((case reg_msvs r of Some (t, _) \<Rightarrow> t \<in> set msvs | None \<Rightarrow> True)
      \<and> list_all (\<lambda>x. fst x \<in> set msbuild) (reg_sets r))"

definition has_tools :: "string list \<Rightarrow> string list \<Rightarrow> settings_tables \<Rightarrow> bool" where
  "has_tools msvs msbuild tabs \<longleftrightarrow>
     (\<forall>t \<in> set msvs. dhas (msvs_validators tabs) t \<and> dhas (converters tabs) t)
     \<and> (\<forall>t \<in> set msbuild. dhas (msbuild_validators tabs) t)"

lemma put_all_total:
  "\<forall>x \<in> set xs. dhas (msbuild_validators tabs) (fst x) \<Longrightarrow> \<exists>tabs'. put_all xs tabs = Inr tabs'"
  unfolding put_all_def
proof (induction xs arbitrary: tabs)
  case (Cons x xs)
  obtain a b ty where x: "x = (a, b, ty)" by (cases x)
  from Cons.prems x put_entry_total[of "msbuild_validators tabs" a b ty] obtain d where
    d: "put_entry a b ty (msbuild_validators tabs) = Inr d" by auto
  have "\<forall>y \<in> set xs. dhas d (fst y)" using Cons.prems put_entry_spec[OF d] by simp
  with Cons.IH[of "tabs\<lparr> msbuild_validators := d \<rparr>"] show ?case using d x by (auto simp: put_msbuild_def)
qed simp

lemma register_total:
  assumes k: "tools_known msvs msbuild r" and h: "has_tools msvs msbuild tabs"
  shows "\<exists>tabs'. register r tabs = Inr tabs' \<and> has_tools msvs msbuild tabs'"
proof (cases "reg_msvs r")
  case None
  from k h have "\<forall>x \<in> set (reg_sets r). dhas (msbuild_validators tabs) (fst x)"
    by (auto simp: tools_known_def has_tools_def list_all_iff)
  from put_all_total[OF this] obtain tabs' where t: "put_all (reg_sets r) tabs = Inr tabs'" by blast
  with put_all_spec[OF t] h None show ?thesis by (simp add: register_split has_tools_def)
next
  case (Some x)
  obtain t n ty c where x: "x = (t, n, ty, c)" by (cases x)
  have t: "t \<in> set msvs" using k Some x by (simp add: tools_known_def)
  from put_entry_total[of "msvs_validators tabs" t n ty] h t obtain d where
    d: "put_entry t n ty (msvs_validators tabs) = Inr d" by (auto simp: has_tools_def)
  let ?tabs = "tabs\<lparr> msvs_validators := d \<rparr>"
  from k h have "\<forall>x \<in> set (reg_sets r). dhas (msbuild_validators ?tabs) (fst x)"
    by (auto simp: tools_known_def has_tools_def list_all_iff)
  from put_all_total[OF this] obtain tabs1 where p: "put_all (reg_sets r) ?tabs = Inr tabs1" by blast
  note P = put_all_spec[OF p]
  have "dhas (converters tabs1) t" using P h t by (simp add: has_tools_def)
  from put_entry_total[OF this, of n c] obtain e where e: "put_entry t n c (converters tabs1) = Inr e" by blast
  have "register r tabs = Inr (tabs1\<lparr> converters := e \<rparr>)" by (simp add: register_split Some x d p e)
  moreover have "has_tools msvs msbuild (tabs1\<lparr> converters := e \<rparr>)"
    using h P put_entry_spec[OF d] put_entry_spec[OF e] by (simp add: has_tools_def)
  ultimately show ?thesis by blast
qed

lemma register_all_total:
  "list_all (tools_known msvs msbuild) rs \<Longrightarrow> has_tools msvs msbuild tabs \<Longrightarrow>
    \<exists>tabs'. rfold register rs tabs = Inr tabs'"
proof (induction rs arbitrary: tabs)
  case (Cons r rs)
  then have "tools_known msvs msbuild r" by simp
  from register_total[OF this Cons.prems(2)] obtain tabs1 where
    "register r tabs = Inr tabs1" "has_tools msvs msbuild tabs1" by blast
  with Cons show ?case by simp
qed simp

definition msvs_tools :: "string list" where
  "msvs_tools = map msvs_name [compile_tool, link_tool, rc_tool, midl_tool, lib_tool, manifest_tool]"

definition msbuild_tools :: "string list" where
  "msbuild_tools = map msbuild_name [compile_tool, link_tool, rc_tool, midl_tool, lib_tool, manifest_tool]
     @ ['''', ''ProjectReference'', ''ManifestResourceCompile'']"

lemma all_tools_known: "list_all (tools_known msvs_tools msbuild_tools) all_settings"
proof -
  have "list_all (tools_known msvs_tools msbuild_tools) compile_same"
    "list_all (tools_known msvs_tools msbuild_tools) compile_enumerations"
    "list_all (tools_known msvs_tools msbuild_tools) compile_other"
    "list_all (tools_known msvs_tools msbuild_tools) link_same"
    "list_all (tools_known msvs_tools msbuild_tools) link_enumerations"
    "list_all (tools_known msvs_tools msbuild_tools) link_other"
    "list_all (tools_known msvs_tools msbuild_tools) rc_settings"
    "list_all (tools_known msvs_tools msbuild_tools) midl_settings"
    "list_all (tools_known msvs_tools msbuild_tools) lib_settings"
    "list_all (tools_known msvs_tools msbuild_tools) manifest_settings"
    by (simp_all add: tools_known_def msvs_tools_def msbuild_tools_def reg_msvs_def reg_sets_def
        compile_same_def compile_enumerations_def compile_other_def link_same_def link_enumerations_def
        link_other_def rc_settings_def midl_settings_def lib_settings_def manifest_settings_def)
  then show ?thesis by (simp add: all_settings_def)
qed

lemma settings_table_defined: "\<exists>tabs. settings_table = Inr tabs"
proof -
  have "has_tools msvs_tools msbuild_tools initial_tables"
    by (simp add: has_tools_def initial_tables_def msvs_tools_def msbuild_tools_def AddTool_def Let_def
        compile_tool_def link_tool_def midl_tool_def rc_tool_def lib_tool_def manifest_tool_def dhas_def)
  from register_all_total[OF all_tools_known this] show ?thesis by (simp add: settings_table_def)
qed

text \<open>A setting that is not registered again keeps its validator.\<close>

lemma register_frame:
  assumes "register r tabs = Inr tabs'"
  shows "entry (msvs_validators tabs') a b = (case reg_msvs r of
      Some (t, n, ty, c) \<Rightarrow> if a = t \<and> b = n then Some ty else entry (msvs_validators tabs) a b
    | None \<Rightarrow> entry (msvs_validators tabs) a b)"
proof (cases "reg_msvs r")
  case None
  with assms have "put_all (reg_sets r) tabs = Inr tabs'" by (simp add: register_split)
  from put_all_spec[OF this] None show ?thesis by simp
next
  case (Some x)
  obtain t n ty c where x: "x = (t, n, ty, c)" by (cases x)
  from assms Some x obtain d tabs1 e where
    d: "put_entry t n ty (msvs_validators tabs) = Inr d"
    and p: "put_all (reg_sets r) (tabs\<lparr> msvs_validators := d \<rparr>) = Inr tabs1"
    and tabs': "tabs' = tabs1\<lparr> converters := e \<rparr>"
    by (auto simp: register_split)
  show ?thesis using put_entry_spec[OF d, of a b] put_all_spec[OF p] Some x tabs' by simp
qed

lemma registered_entry:
  assumes "rfold register (xs @ r # ys) tabs0 = Inr tabs" "reg_msvs r = Some (a, b, ty, c)"
    and "list_all (\<lambda>r. case reg_msvs r of Some (t, n, _) \<Rightarrow> \<not> (a = t \<and> b = n) | None \<Rightarrow> True) ys"
  shows "entry (msvs_validators tabs) a b = Some ty"
proof -
  from assms(1) obtain u v where r: "register r u = Inr v" "rfold register ys v = Inr tabs"
    by (auto simp: rfold_append)
  have "entry (msvs_validators v) a b = Some ty" using register_frame[OF r(1), of a b] assms(2) by simp
  with r(2) assms(3) show ?thesis
  proof (induction ys arbitrary: v)
    case (Cons y ys)
    then obtain w where w: "register y v = Inr w" "rfold register ys w = Inr tabs" by auto
    have "entry (msvs_validators w) a b = Some ty"
      using register_frame[OF w(1), of a b] Cons.prems by (auto split: option.splits)
    with Cons w(2) show ?case by simp
  qed simp
qed

theorem ConvertToMSBuildSettings_validates_witness:
  "\<exists>tabs ms ws. settings_table = Inr tabs
    \<and> ConvertToMSBuildSettings tabs [(''VCManifestTool'', PDict [(''VerboseOutput'', PStr ''true'')])] = Inr (ms, ws)
    \<and> ValidateMSBuildSettings tabs (map (\<lambda>(k, d). (k, PDict d)) ms) = Inr []"
proof -
  let ?s = "[(''VCManifestTool'', PDict [(''VerboseOutput'', PStr ''true'')])]"
  from settings_table_defined obtain tabs where t: "settings_table = Inr tabs" ..
  let ?r = "Same manifest_tool ''VerboseOutput'' TBoolean"
  have "\<exists>xs. all_settings = xs @ ?r # drop 14 manifest_settings"
  proof
    show "all_settings = (compile_same @ compile_enumerations @ compile_other @ link_same
        @ link_enumerations @ link_other @ rc_settings @ midl_settings @ lib_settings
        @ take 13 manifest_settings) @ ?r # drop 14 manifest_settings"
      by (simp add: all_settings_def manifest_settings_def)
  qed
  then obtain xs where split: "all_settings = xs @ ?r # drop 14 manifest_settings" ..
  have e: "entry (msvs_validators tabs) ''VCManifestTool'' ''VerboseOutput'' = Some TBoolean"
  proof (rule registered_entry[OF t[unfolded settings_table_def split]])
    show "reg_msvs ?r = Some (''VCManifestTool'', ''VerboseOutput'', TBoolean,
        Translate (msbuild_name manifest_tool) ''VerboseOutput'' TBoolean)"
      by (simp add: reg_msvs_def manifest_tool_def)
  qed (simp add: manifest_settings_def reg_msvs_def)
  have valid: "ValidateMSVS TBoolean (PStr ''true'') = Inr ()" by (simp add: ValidateMSVS_def)
  from e obtain vt where vt: "dget (msvs_validators tabs) ''VCManifestTool'' = Some vt"
    "dget vt ''VerboseOutput'' = Some TBoolean" by (auto simp: entry_def bind_eq_Some_conv)
  then have q: "ValidateMSVSSettings tabs ?s = Inr []"
    by (simp add: ValidateMSVSSettings_def ValidateSettings_def validate_tool_def validate_setting_def valid)
  from converter_valid[OF t e] obtain c where c: "entry (converters tabs) ''VCManifestTool'' ''VerboseOutput'' = Some c"
    and "case c of
         Translate mt n ty' \<Rightarrow> ty' = TBoolean \<and> entry (msbuild_validators tabs) mt n = Some TBoolean
           \<and> (\<forall>b. TBoolean = TInteger b \<longrightarrow> b = 10 \<or> b = 16 \<and> ''VCManifestTool'' = ''VCResourceCompilerTool'' \<and> ''VerboseOutput'' = ''Culture'')
       | NoTranslation \<Rightarrow> True
       | AddOption mt flag \<Rightarrow> entry (msbuild_validators tabs) mt ''AdditionalOptions'' = Some TStringList
       | Preprocess mt \<Rightarrow> entry (msbuild_validators tabs) mt ''PreprocessToFile'' = Some TBoolean
           \<and> entry (msbuild_validators tabs) mt ''PreprocessSuppressLineNumbers'' = Some TBoolean"
    by (elim exE conjE)
  then have cv: "case c of Translate mt n ty' \<Rightarrow> ty' = TBoolean | _ \<Rightarrow> True"
    by (cases c) simp_all
  from c obtain ct where ct: "dget (converters tabs) ''VCManifestTool'' = Some ct" "dget ct ''VerboseOutput'' = Some c"
    by (auto simp: entry_def bind_eq_Some_conv)
  have "\<exists>ms ws. convert_setting ''VCManifestTool'' ct (''VerboseOutput'', PStr ''true'') ([], []) = Inr (ms, ws)"
    using ct(2) cv by (cases c)
      (simp_all add: convert_setting_def run_converter_def ConvertToMSBuild_def preprocess_setting_def Let_def)
  then obtain ms ws where "convert_setting ''VCManifestTool'' ct (''VerboseOutput'', PStr ''true'') ([], []) = Inr (ms, ws)"
    by blast
  then have r: "ConvertToMSBuildSettings tabs ?s = Inr (ms, ws)"
    using ct(1) by (simp add: ConvertToMSBuildSettings_def convert_tool_def)
  have "\<forall>d v n. (''VCResourceCompilerTool'', PDict d) \<in> set ?s \<and> (''Culture'', v) \<in> set d
           \<and> py_int v = Inr n \<longrightarrow> 0 \<le> n" by simp
  from ConvertToMSBuildSettings_validates[OF t q r this] t r show ?thesis by blast
qed

text \<open>Where the conversion goes wrong: a negative number in base 16, and a flag that is lost or
  printed behind a list, depending on the order of the settings and on the type of the options.\<close>

lemma negative_culture:
  "ConvertToMSBuild (TInteger 16) (PInt (-5)) = Inr (PStr ''0x-005'')"
  "map_sum (\<lambda>_. ()) id (ValidateMSBuild (TInteger 16) (PStr ''0x-005'')) = Inl ()"
  by code_simp+

lemma flag_lost:
  "let option = run_converter (AddOption ''ClCompile'' ''/J'') (PStr ''true'');
       options = (\<lambda>v. run_converter (Translate ''ClCompile'' ''AdditionalOptions'' TStringList) v)
   in fst (options (PStr ''/O2'') (fst (option []))) = [(''ClCompile'', [(''AdditionalOptions'', PStr ''/O2'')])]
      \<and> fst (option (fst (options (PStr ''/O2'') []))) = [(''ClCompile'', [(''AdditionalOptions'', PStr ''/O2 /J'')])]
      \<and> fst (option (fst (options (PList [PStr ''/O2'']) [])))
          = [(''ClCompile'', [(''AdditionalOptions'', PStr ([CHR ''['', CHR 0x27] @ ''/O2'' @ [CHR 0x27] @ ''] /J''))])]"
  by code_simp

end
