(* ===== verification/Msvs_Util.thy ===== *)
theory Msvs_Util
  imports Gyp_Common Gyp_Load "HOL-Library.Multiset"
begin

text \<open>
  Helpers of the Windows generators (\<open>tools/gyp/pylib/gyp/MSVSUtil.py\<close>): splitting a target into
  shards (\<open>ShardTargets\<close>), and the shim targets that give a program its large PDB file
  (\<open>InsertLargePdbShims\<close>).  Both return the list and the table of targets, as the source does.
\<close>

section \<open>Names\<close>

text \<open>\<open>name.rsplit('#', 1)\<close>; the suffix goes in front of the last number sign.\<close>

definition SuffixName :: "string \<Rightarrow> string \<Rightarrow> string" where
  "SuffixName name suf =
     (case rsplit1 CHR ''#'' name of
        Some (base, toolset) \<Rightarrow> base @ ''_'' @ suf @ ''#'' @ toolset
      | None \<Rightarrow> name @ ''_'' @ suf)"

definition ShardName :: "string \<Rightarrow> nat \<Rightarrow> string" where
  "ShardName name number = SuffixName name (str_of_nat number)"

definition DeepCopySomeKeys :: "pydict \<Rightarrow> string list \<Rightarrow> pydict" where
  "DeepCopySomeKeys in_dict keys =
     fold (\<lambda>key d. case dget in_dict key of None \<Rightarrow> d | Some v \<Rightarrow> dset key v d) keys []"

section \<open>Shards\<close>

text \<open>\<open>range(n)\<close> is empty for a negative \<open>n\<close>.\<close>

definition py_range :: "int \<Rightarrow> nat list" where
  "py_range n = [0..<nat n]"

text \<open>The positions \<open>i\<close>, \<open>i + n\<close>, \<open>i + 2 * n\<close> and so on below \<open>len\<close> (\<open>range(i, len, n)\<close>, \<open>n\<close>
  positive), and the values there.\<close>

definition shard_positions :: "nat \<Rightarrow> nat \<Rightarrow> nat \<Rightarrow> nat list" where
  "shard_positions n i len = filter (\<lambda>p. i \<le> p \<and> (p - i) mod n = 0) [0..<len]"

definition shard_sources :: "nat \<Rightarrow> nat \<Rightarrow> pyval \<Rightarrow> pyval list res" where
  "shard_sources n i sources =
     rbind (py_len sources) (\<lambda>len. rmap (\<lambda>p. py_getitem sources (PInt (int p))) (shard_positions n i len))"

text \<open>The targets that have a setting other than 0, with its value.\<close>

definition int_setting :: "string \<Rightarrow> pydict \<Rightarrow> int res" where
  "int_setting key spec = py_int (dget_default spec key (PInt 0))"

definition targets_with :: "string \<Rightarrow> target_table \<Rightarrow> (string \<times> int) list res" where
  "targets_with key target_dicts =
     rbind (rmap (\<lambda>(t, spec). rbind (int_setting key spec) (\<lambda>n. Inr (t, n))) target_dicts)
       (\<lambda>settings. Inr (filter (\<lambda>(t, n). n \<noteq> 0) settings))"

definition targets_to_shard :: "target_table \<Rightarrow> (string \<times> int) list res" where
  "targets_to_shard target_dicts = targets_with ''msvs_shard'' target_dicts"

text \<open>A name with the names that stand for it.\<close>

definition shard_names :: "(string \<times> int) list \<Rightarrow> string \<Rightarrow> string list" where
  "shard_names shards t =
     (case dget shards t of None \<Rightarrow> [t] | Some n \<Rightarrow> map (ShardName t) (py_range n))"

definition shard :: "pydict \<Rightarrow> int \<Rightarrow> nat \<Rightarrow> pydict res" where
  "shard spec n i =
     rbind (rbind (dlookup spec ''target_name'') (as_str ''rsplit'')) (\<lambda>target_name.
     rbind (shard_sources (nat n) i (dget_default spec ''sources'' (PList []))) (\<lambda>new_sources.
       Inr (dset ''sources'' (PList new_sources)
             (dset ''target_name'' (PStr (ShardName target_name i)) spec))))"

definition add_shard :: "string \<Rightarrow> pydict \<Rightarrow> int \<Rightarrow> nat \<Rightarrow> target_table \<Rightarrow> target_table res" where
  "add_shard t spec n i new = rbind (shard spec n i) (\<lambda>d. Inr (dset (ShardName t i) d new))"

definition shard_target :: "(string \<times> int) list \<Rightarrow> string \<times> pydict \<Rightarrow> target_table \<Rightarrow> target_table res" where
  "shard_target shards entry new =
     (let (t, spec) = entry in
      case dget shards t of
        None \<Rightarrow> Inr (dset t spec new)
      | Some n \<Rightarrow> rfold (add_shard t spec n) (py_range n) new)"

definition shard_dependency :: "(string \<times> int) list \<Rightarrow> pyval \<Rightarrow> pyval list res" where
  "shard_dependency shards d =
     (case d of
        PStr name \<Rightarrow> Inr (map PStr (shard_names shards name))
      | PList l \<Rightarrow> Inl (TypeError ''unhashable type: list'')
      | PDict e \<Rightarrow> Inl (TypeError ''unhashable type: dict'')
      | _ \<Rightarrow> Inr [d])"

definition shard_dependencies :: "(string \<times> int) list \<Rightarrow> pydict \<Rightarrow> pydict res" where
  "shard_dependencies shards spec =
     rbind (py_iter (dget_default spec ''dependencies'' (PList []))) (\<lambda>dependencies.
     rbind (rmap (shard_dependency shards) dependencies) (\<lambda>new.
       Inr (dset ''dependencies'' (PList (concat new)) spec)))"

definition ShardTargets :: "string list \<Rightarrow> target_table \<Rightarrow> (string list \<times> target_table) res" where
  "ShardTargets target_list target_dicts =
     rbind (targets_to_shard target_dicts) (\<lambda>shards.
     rbind (rfold (shard_target shards) target_dicts []) (\<lambda>new_target_dicts.
     rbind (rmap (\<lambda>(t, spec). rbind (shard_dependencies shards spec) (\<lambda>d. Inr (t, d))) new_target_dicts)
       (\<lambda>new_target_dicts.
       Inr (concat (map (shard_names shards) target_list), new_target_dicts))))"

section \<open>Shims for large PDB files\<close>

definition TARGET_TYPE_EXT :: "(string \<times> string) list" where
  "TARGET_TYPE_EXT = [(''executable'', ''.exe''), (''loadable_module'', ''.dll''), (''shared_library'', ''.dll'')]"

text \<open>The dictionary \<open>d.get(key, {})\<close> or \<open>d.setdefault(key, {})\<close>, read by a method or by an assignment
  to one of its items.\<close>

definition item_dict :: "pyval \<Rightarrow> pydict res" where
  "item_dict v =
     (case v of
        PDict d \<Rightarrow> Inr d
      | PList l \<Rightarrow> Inl (TypeError ''list indices must be integers, not str'')
      | _ \<Rightarrow> Inl (TypeError (class_name v @ '' object does not support item assignment'')))"

definition sub_dict :: "(pyval \<Rightarrow> pydict res) \<Rightarrow> pydict \<Rightarrow> string \<Rightarrow> pydict res" where
  "sub_dict as d key = (case dget d key of None \<Rightarrow> Inr [] | Some v \<Rightarrow> as v)"

definition nested :: "(pyval \<Rightarrow> pydict res) \<Rightarrow> string \<Rightarrow> (pydict \<Rightarrow> pydict res) \<Rightarrow> pydict \<Rightarrow> pydict res" where
  "nested as key f d = rbind (sub_dict as d key) (\<lambda>e. rbind (f e) (\<lambda>e'. Inr (dset key (PDict e') d)))"

definition target_config :: "pydict \<Rightarrow> string \<Rightarrow> pydict res" where
  "target_config target_dict config_name =
     rbind (rbind (dlookup target_dict ''configurations'') (as_dict ''__getitem__'')) (\<lambda>configs.
       rbind (dlookup configs config_name) (as_dict ''setdefault''))"

definition GetPdbPath :: "pydict \<Rightarrow> string \<Rightarrow> pydict \<Rightarrow> pyval res" where
  "GetPdbPath target_dict config_name vars =
     rbind (target_config target_dict config_name) (\<lambda>config.
     rbind (sub_dict (as_dict ''get'') config ''msvs_settings'') (\<lambda>msvs.
     rbind (sub_dict (as_dict ''get'') msvs ''VCLinkerTool'') (\<lambda>linker.
       (let pdb_path = dget_default linker ''ProgramDatabaseFile'' PNone in
        if truthy pdb_path then Inr pdb_path
        else
          rbind (sub_dict (as_dict ''get'') target_dict ''variables'') (\<lambda>variables.
            (let pdb_path = dget_default variables ''msvs_large_pdb_path'' PNone in
             if truthy pdb_path then Inr pdb_path
             else
               rbind (dlookup target_dict ''target_name'') (\<lambda>target_name.
               rbind (rbind (dlookup target_dict ''type'') (as_str ''type'')) (\<lambda>ty.
               rbind (dlookup TARGET_TYPE_EXT ty) (\<lambda>ext.
               rbind (rbind (dlookup vars ''PRODUCT_DIR'') need_str) (\<lambda>product_dir.
                 Inr (PStr (product_dir @ ''/'' @ py_str (dget_default target_dict ''product_name'' target_name)
                   @ ext @ ''.pdb''))))))))))))"

text \<open>What a configuration of the shim target says, and what that of the target itself gains.\<close>

definition shim_config :: "pyval \<Rightarrow> pydict \<Rightarrow> pydict res" where
  "shim_config pdb_path config =
     nested (as_dict ''setdefault'') ''msvs_settings''
       (nested item_dict ''VCCLCompilerTool'' (\<lambda>compiler.
          Inr (dset ''ProgramDataBaseFileName'' pdb_path (dset ''DebugInformationFormat'' (PStr ''3'') compiler))))
       (ddel ''test'' (ddel ''msvs_precompiled_source'' (ddel ''msvs_precompiled_header'' config)))"

definition linked_config :: "pyval \<Rightarrow> pydict \<Rightarrow> pydict res" where
  "linked_config pdb_path =
     nested (as_dict ''setdefault'') ''msvs_settings''
       (nested item_dict ''VCLinkerTool'' (\<lambda>linker.
          Inr (dset ''ProgramDatabaseFile'' pdb_path (dset ''GenerateDebugInformation'' (PStr ''true'') linker))))"

definition change_config :: "string \<Rightarrow> (pydict \<Rightarrow> pydict res) \<Rightarrow> pydict \<Rightarrow> pydict res" where
  "change_config config_name f target_dict =
     rbind (rbind (dlookup target_dict ''configurations'') (as_dict ''__getitem__'')) (\<lambda>configs.
     rbind (rbind (dlookup configs config_name) (as_dict ''setdefault'')) (\<lambda>config.
     rbind (f config) (\<lambda>config'.
       Inr (dset ''configurations'' (PDict (dset config_name (PDict config') configs)) target_dict))))"

text \<open>One configuration: the shim, and the target.  Looking for the path gives the configuration of the
  target its \<open>msvs_settings\<close>.\<close>

definition shim_configuration :: "pydict \<Rightarrow> string \<Rightarrow> pydict \<times> pydict \<Rightarrow> (pydict \<times> pydict) res" where
  "shim_configuration vars config_name dicts =
     (let (shim_dict, target_dict) = dicts in
      rbind (GetPdbPath target_dict config_name vars) (\<lambda>pdb_path.
      rbind (change_config config_name (shim_config pdb_path) shim_dict) (\<lambda>shim_dict.
      rbind (change_config config_name (linked_config pdb_path) target_dict) (\<lambda>target_dict.
        Inr (shim_dict, target_dict)))))"

definition copy_suffix :: string where "copy_suffix = ''large_pdb_copy''"
definition shim_suffix :: string where "shim_suffix = ''large_pdb_shim''"

definition base_dict_of :: "pydict \<Rightarrow> pydict" where
  "base_dict_of target_dict = DeepCopySomeKeys target_dict [''configurations'', ''default_configuration'', ''toolset'']"

definition copy_dict_of :: "pydict \<Rightarrow> string \<Rightarrow> string \<Rightarrow> string \<Rightarrow> pydict" where
  "copy_dict_of base_dict copy_target_name shim_cc_dir large_pdb_shim_cc =
     dset ''copies'' (PList [PDict [(''destination'', PStr shim_cc_dir), (''files'', PList [PStr large_pdb_shim_cc])]])
      (dset ''sources'' (PList [PStr large_pdb_shim_cc])
       (dset ''type'' (PStr ''none'') (dset ''target_name'' (PStr copy_target_name) base_dict)))"

definition shim_dict_of :: "pydict \<Rightarrow> string \<Rightarrow> string \<Rightarrow> string \<Rightarrow> pydict" where
  "shim_dict_of base_dict shim_target_name shim_cc_path full_copy_target_name =
     dset ''dependencies'' (PList [PStr full_copy_target_name])
      (dset ''sources'' (PList [PStr shim_cc_path])
       (dset ''type'' (PStr ''static_library'') (dset ''target_name'' (PStr shim_target_name) base_dict)))"

text \<open>\<open>large_pdb_shim_cc\<close> is the path of the file beside the program (\<open>_GetLargePdbShimCcPath\<close>).\<close>

definition LargePdbShimCcPath :: "string \<Rightarrow> string \<Rightarrow> string" where
  "LargePdbShimCcPath cwd module_file =
     (let this_dir = normpath (path_join cwd [dirname module_file]);
          src_dir = normpath (path_join this_dir [''..'', ''..'']) in
      path_join (path_join src_dir [''data'', ''win'']) [''large-pdb-shim.cc''])"

definition insert_shim :: "string \<Rightarrow> pydict \<Rightarrow> string \<Rightarrow> string list \<times> target_table \<Rightarrow> (string list \<times> target_table) res" where
  "insert_shim large_pdb_shim_cc vars t tables =
     (let (target_list, target_dicts) = tables in
      rbind (dlookup target_dicts t) (\<lambda>target_dict.
      rbind (need_str (dget_default target_dict ''target_name'' PNone)) (\<lambda>target_name.
      rbind (rbind (dlookup vars ''SHARED_INTERMEDIATE_DIR'') need_str) (\<lambda>intermediate.
        (let base_dict = base_dict_of target_dict;
             copy_target_name = target_name @ ''_'' @ copy_suffix;
             full_copy_target_name = SuffixName t copy_suffix;
             full_shim_target_name = SuffixName t shim_suffix;
             shim_cc_dir = intermediate @ ''/'' @ copy_target_name;
             shim_cc_path = shim_cc_dir @ ''/'' @ basename large_pdb_shim_cc;
             copy_dict = copy_dict_of base_dict copy_target_name shim_cc_dir large_pdb_shim_cc;
             shim_dict = shim_dict_of base_dict (target_name @ ''_'' @ shim_suffix) shim_cc_path full_copy_target_name in
         rbind (as_dict ''iteritems'' (dget_default shim_dict ''configurations'' PNone)) (\<lambda>configs.
         rbind (rfold (shim_configuration vars) (dkeys configs) (shim_dict, target_dict)) (\<lambda>(shim_dict, target_dict).
         rbind (as_list ''append'' (dget_default target_dict ''dependencies'' (PList []))) (\<lambda>dependencies.
           Inr (full_shim_target_name # full_copy_target_name # target_list,
                dset t (dset ''dependencies'' (PList (dependencies @ [PStr full_shim_target_name])) target_dict)
                  (dset full_shim_target_name shim_dict (dset full_copy_target_name copy_dict target_dicts)))))))))))"

definition InsertLargePdbShims :: "string \<Rightarrow> string list \<Rightarrow> target_table \<Rightarrow> pydict \<Rightarrow> (string list \<times> target_table) res" where
  "InsertLargePdbShims large_pdb_shim_cc target_list target_dicts vars =
     rbind (targets_with ''msvs_large_pdb'' target_dicts) (\<lambda>targets_to_shim.
       rfold (insert_shim large_pdb_shim_cc vars) (dkeys targets_to_shim) (target_list, target_dicts))"

section \<open>What sharding keeps\<close>

text \<open>The entries that one entry becomes, before the dependencies are renamed.\<close>

definition shard_entries :: "(string \<times> int) list \<Rightarrow> string \<times> pydict \<Rightarrow> target_table res" where
  "shard_entries shards entry =
     (case dget shards (fst entry) of
        None \<Rightarrow> Inr [entry]
      | Some n \<Rightarrow> rbind (rmap (shard (snd entry) n) (py_range n))
                   (\<lambda>ds. Inr (zip (map (ShardName (fst entry)) (py_range n)) ds)))"

text \<open>Every dependency that is a name is an entry of the table.\<close>

definition named_dependencies :: "target_table \<Rightarrow> bool" where
  "named_dependencies table =
     list_all (\<lambda>(t, spec). case py_iter (dget_default spec ''dependencies'' (PList [])) of
         Inr ds \<Rightarrow> list_all (\<lambda>d. case d of PStr name \<Rightarrow> dhas table name | _ \<Rightarrow> True) ds
       | Inl _ \<Rightarrow> True) table"

lemma rfold_dset_end:
  assumes "rfold (\<lambda>i new. rbind (f i) (\<lambda>d. Inr (dset (g i) d new))) ks new = Inr new'"
    and "distinct (dkeys new @ map g ks)"
  shows "\<exists>ds. rmap f ks = Inr ds \<and> new' = new @ zip (map g ks) ds"
  using assms
proof (induction ks arbitrary: new)
  case (Cons k ks)
  from Cons.prems(1) obtain d where d: "f k = Inr d"
    and rest: "rfold (\<lambda>i new. rbind (f i) (\<lambda>d. Inr (dset (g i) d new))) ks (dset (g k) d new) = Inr new'"
    by auto
  have fresh: "dset (g k) d new = new @ [(g k, d)]" using Cons.prems(2) by (intro dset_new) (auto simp: dhas_iff)
  have "distinct (dkeys (dset (g k) d new) @ map g ks)" using Cons.prems(2) by (auto simp: fresh)
  from Cons.IH[OF rest this] show ?case by (auto simp: d fresh)
qed simp

lemma shard_entries_keys:
  "shard_entries shards (t, spec) = Inr es \<Longrightarrow> dkeys es = shard_names shards t"
  by (auto simp: shard_entries_def shard_names_def dest: rmap_length split: option.splits)

lemma shard_target_entries:
  assumes "shard_target shards (t, spec) new = Inr new'" "distinct (dkeys new @ shard_names shards t)"
  shows "\<exists>es. shard_entries shards (t, spec) = Inr es \<and> new' = new @ es"
proof (cases "dget shards t")
  case None
  then show ?thesis using assms by (auto simp: shard_target_def shard_entries_def shard_names_def dset_new dhas_iff)
next
  case (Some n)
  then show ?thesis using assms rfold_dset_end[of "shard spec n" "ShardName t" "py_range n" new new']
    by (auto simp: shard_target_def shard_entries_def shard_names_def add_shard_def[abs_def])
qed

lemma shard_targets_entries:
  assumes "rfold (shard_target shards) table new = Inr new'"
    and "distinct (dkeys new @ concat (map (shard_names shards) (dkeys table)))"
  shows "\<exists>ess. rmap (shard_entries shards) table = Inr ess \<and> new' = new @ concat ess"
  using assms
proof (induction table arbitrary: new)
  case (Cons entry table)
  obtain t spec where entry: "entry = (t, spec)" by (cases entry)
  from Cons.prems(1) obtain new1 where step: "shard_target shards (t, spec) new = Inr new1"
    and rest: "rfold (shard_target shards) table new1 = Inr new'" by (auto simp: entry)
  from Cons.prems(2) have "distinct (dkeys new @ shard_names shards t)" by (auto simp: entry)
  from shard_target_entries[OF step this] obtain es
    where es: "shard_entries shards (t, spec) = Inr es" "new1 = new @ es" by blast
  from Cons.prems(2) have "distinct (dkeys new1 @ concat (map (shard_names shards) (dkeys table)))"
    by (auto simp: entry es shard_entries_keys[OF es(1)])
  from Cons.IH[OF rest this] show ?case by (auto simp: entry es)
qed simp

lemma targets_with_Cons:
  "targets_with key ((u, e) # table) = Inr settings \<longleftrightarrow>
     (\<exists>m rest. int_setting key e = Inr m \<and> targets_with key table = Inr rest
        \<and> settings = (if m \<noteq> 0 then (u, m) # rest else rest))"
  by (auto simp: targets_with_def)

lemma targets_with_keys: "targets_with key table = Inr settings \<Longrightarrow> set (dkeys settings) \<subseteq> set (dkeys table)"
proof (induction table arbitrary: settings)
  case (Cons entry table)
  obtain u e where entry: "entry = (u, e)" by (cases entry)
  from Cons.prems obtain m rest where "targets_with key table = Inr rest"
    "settings = (if m \<noteq> 0 then (u, m) # rest else rest)" by (auto simp: targets_with_Cons entry)
  with Cons.IH[of rest] show ?case by (auto simp: entry split: if_splits)
qed (simp add: targets_with_def)

lemma targets_with_dget:
  assumes "targets_with key table = Inr settings" "distinct (dkeys table)" "(t, spec) \<in> set table"
  shows "\<exists>n. int_setting key spec = Inr n \<and> dget settings t = (if n \<noteq> 0 then Some n else None)"
  using assms
proof (induction table arbitrary: settings)
  case (Cons entry table)
  obtain u e where entry: "entry = (u, e)" by (cases entry)
  from Cons.prems(1) obtain m rest where m: "int_setting key e = Inr m"
    and rest: "targets_with key table = Inr rest" "settings = (if m \<noteq> 0 then (u, m) # rest else rest)"
    by (auto simp: targets_with_Cons entry)
  show ?case
  proof (cases "t = u")
    case True
    with Cons.prems(2,3) have "spec = e" "t \<notin> set (dkeys table)" by (force simp: entry)+
    then have "dget rest t = None" using targets_with_keys[OF rest(1)] by (auto simp: map_of_eq_None_iff)
    with True \<open>spec = e\<close> show ?thesis by (auto simp: m rest(2))
  next
    case False
    then show ?thesis using Cons.IH[OF rest(1)] Cons.prems(2,3) rest(2) by (auto simp: entry)
  qed
qed simp

lemma filter_classes: "mset (concat (map (\<lambda>i. filter (\<lambda>x. f x = i) ys) [0..<n])) = mset (filter (\<lambda>x. f x < n) ys)"
proof (induction n)
  case (Suc n)
  have "mset (filter (\<lambda>x. f x < n) ys) + mset (filter (\<lambda>x. f x = n) ys) = mset (filter (\<lambda>x. f x < Suc n) ys)"
    by (induction ys) (auto simp: less_Suc_eq)
  with Suc show ?case by simp
qed simp

lemma shard_positions_class: "i < n \<Longrightarrow> shard_positions n i len = filter (\<lambda>p. p mod n = i) [0..<len]"
proof -
  assume "i < n"
  have "(i \<le> p \<and> (p - i) mod n = 0) = (p mod n = i)" for p
    using mod_eq_dvd_iff_nat[of i p n] \<open>i < n\<close> by (cases "i \<le> p") (auto simp: mod_eq_0_iff_dvd)
  then show ?thesis by (simp add: shard_positions_def)
qed

lemma shard_positions_all:
  assumes "0 < n"
  shows "mset (concat (map (\<lambda>i. map ((!) xs) (shard_positions n i (length xs))) [0..<n])) = mset xs"
proof -
  have "concat (map (\<lambda>i. map ((!) xs) (shard_positions n i (length xs))) [0..<n])
      = map ((!) xs) (concat (map (\<lambda>i. filter (\<lambda>p. p mod n = i) [0..<length xs]) [0..<n]))"
    unfolding map_concat map_map o_def
    by (rule arg_cong[where f = concat], rule map_cong[OF refl]) (simp add: shard_positions_class)
  then have "mset (concat (map (\<lambda>i. map ((!) xs) (shard_positions n i (length xs))) [0..<n]))
      = image_mset ((!) xs) (mset (filter (\<lambda>p. p mod n < n) [0..<length xs]))"
    by (simp only: mset_map filter_classes)
  also have "\<dots> = mset (map ((!) xs) [0..<length xs])" using assms by simp
  finally show ?thesis by (simp add: map_nth)
qed

lemma shard_sources_list:
  "shard_sources n i (PList xs) = Inr (map ((!) xs) (shard_positions n i (length xs)))"
  unfolding shard_sources_def py_len_def
  by (simp, rule rmap_total) (auto simp: shard_positions_def py_getitem_def list_index_def)

lemma shard_dependencies_keeps:
  "shard_dependencies shards spec = Inr d \<Longrightarrow> k \<noteq> ''dependencies'' \<Longrightarrow> dget d k = dget spec k"
  by (auto simp: shard_dependencies_def)

lemma shard_keeps_dependencies:
  "shard spec n i = Inr d \<Longrightarrow> dget_default d ''dependencies'' v = dget_default spec ''dependencies'' v"
  by (auto simp: shard_def dget_default_eq)

lemma shard_entries_dependencies:
  assumes "shard_entries shards (t, spec) = Inr es" "(u, e) \<in> set es"
  shows "dget_default e ''dependencies'' v = dget_default spec ''dependencies'' v"
  using assms
  by (auto simp: shard_entries_def dest!: set_zip_rightD rmap_member dest: shard_keeps_dependencies
      split: option.splits)

lemma shard_dependency_names:
  assumes "shard_dependency shards d = Inr ds" "PStr name \<in> set ds"
  obtains name' where "d = PStr name'" "name \<in> set (shard_names shards name')"
  using assms by (auto simp: shard_dependency_def split: pyval.splits)

lemma shard_dependencies_named:
  assumes "shard_dependencies shards spec = Inr d" "py_iter (dget_default d ''dependencies'' (PList [])) = Inr new"
    and "PStr name \<in> set new"
  obtains ds name' where "py_iter (dget_default spec ''dependencies'' (PList [])) = Inr ds"
    "PStr name' \<in> set ds" "name \<in> set (shard_names shards name')"
proof -
  from assms(1) obtain ds lists where ds: "py_iter (dget_default spec ''dependencies'' (PList [])) = Inr ds"
    and lists: "rmap (shard_dependency shards) ds = Inr lists"
    and d: "d = dset ''dependencies'' (PList (concat lists)) spec"
    by (auto simp: shard_dependencies_def)
  from assms(2,3) have "PStr name \<in> set (concat lists)" by (simp add: d dget_default_eq py_iter_PList)
  then obtain l where l: "l \<in> set lists" "PStr name \<in> set l" by auto
  from rmap_member[OF lists l(1)] obtain x where "x \<in> set ds" "shard_dependency shards x = Inr l" by blast
  with l(2) show ?thesis by (metis shard_dependency_names that ds)
qed

lemma ShardTargets_runs:
  assumes "ShardTargets target_list target_dicts = Inr (new_list, new_dicts)"
    and "targets_to_shard target_dicts = Inr shards"
    and "distinct (concat (map (shard_names shards) (dkeys target_dicts)))"
  obtains ess where "rmap (shard_entries shards) target_dicts = Inr ess"
    "list_all2 (\<lambda>(t, spec) (u, d). u = t \<and> shard_dependencies shards spec = Inr d) (concat ess) new_dicts"
    "new_list = concat (map (shard_names shards) target_list)"
proof -
  from assms(1,2) obtain table where table: "rfold (shard_target shards) target_dicts [] = Inr table"
    and new: "rmap (\<lambda>(t, spec). rbind (shard_dependencies shards spec) (\<lambda>d. Inr (t, d))) table = Inr new_dicts"
    "new_list = concat (map (shard_names shards) target_list)"
    by (auto simp: ShardTargets_def)
  from shard_targets_entries[OF table] assms(3) obtain ess
    where ess: "rmap (shard_entries shards) target_dicts = Inr ess" "table = concat ess" by auto
  from new(1) have "list_all2 (\<lambda>(t, spec) (u, d). u = t \<and> shard_dependencies shards spec = Inr d) table new_dicts"
    unfolding rmap_list_all2 by (rule list_all2_mono) auto
  with ess new(2) that show ?thesis by blast
qed

lemma entries_keys:
  assumes "rmap (shard_entries shards) table = Inr ess"
    and "list_all2 (\<lambda>(t, spec) (u, d). u = t \<and> P spec d) (concat ess) new_dicts"
  shows "dkeys new_dicts = concat (map (shard_names shards) (dkeys table))"
proof -
  have "dkeys (concat ess) = concat (map (shard_names shards) (dkeys table))"
    using assms(1)
  proof (induction table arbitrary: ess)
    case (Cons entry table)
    then show ?case by (cases entry) (auto simp: shard_entries_keys)
  qed simp
  moreover have "dkeys new = dkeys old" if "list_all2 (\<lambda>(t, spec) (u, d). u = t \<and> P spec d) old new" for old new
    using that by (induction rule: list_all2_induct) auto
  ultimately show ?thesis using assms(2) by metis
qed

lemma renamed_right:
  "list_all2 (\<lambda>(t, e) (u, d). u = t \<and> P e d) old new \<Longrightarrow> (u, d) \<in> set new \<Longrightarrow> \<exists>e. (u, e) \<in> set old \<and> P e d"
  by (induction rule: list_all2_induct) auto

lemma renamed_left:
  "list_all2 (\<lambda>(t, e) (u, d). u = t \<and> P e d) old new \<Longrightarrow> (u, e) \<in> set old \<Longrightarrow> \<exists>d. (u, d) \<in> set new \<and> P e d"
  by (induction rule: list_all2_induct) auto

lemma named_dependencies_iff:
  "named_dependencies table \<longleftrightarrow>
     (\<forall>(t, spec) \<in> set table. \<forall>ds name. py_iter (dget_default spec ''dependencies'' (PList [])) = Inr ds
        \<longrightarrow> PStr name \<in> set ds \<longrightarrow> name \<in> set (dkeys table))"
  unfolding named_dependencies_def list_all_iff
  by (fastforce simp: dhas_iff split: sum.splits pyval.splits)

lemma sharding_keeps_named:
  assumes "rmap (shard_entries shards) table = Inr ess"
    and "list_all2 (\<lambda>(t, spec) (u, d). u = t \<and> shard_dependencies shards spec = Inr d) (concat ess) new_dicts"
    and "named_dependencies table"
  shows "named_dependencies new_dicts"
  unfolding named_dependencies_iff
proof (intro ballI, clarify)
  fix u d new name
  assume entry: "(u, d) \<in> set new_dicts"
    and new: "py_iter (dget_default d ''dependencies'' (PList [])) = Inr new" "PStr name \<in> set new"
  from renamed_right[OF assms(2) entry] obtain e
    where e: "(u, e) \<in> set (concat ess)" "shard_dependencies shards e = Inr d" by blast
  then obtain es where es: "es \<in> set ess" "(u, e) \<in> set es" by auto
  from rmap_member[OF assms(1) es(1)] obtain t spec
    where spec: "(t, spec) \<in> set table" "shard_entries shards (t, spec) = Inr es" by auto
  from shard_dependencies_named[OF e(2) new] obtain ds name'
    where "py_iter (dget_default e ''dependencies'' (PList [])) = Inr ds" "PStr name' \<in> set ds"
      "name \<in> set (shard_names shards name')" by blast
  moreover from this have "name' \<in> set (dkeys table)"
    using assms(3) spec shard_entries_dependencies[OF spec(2) es(2)] unfolding named_dependencies_iff by fastforce
  ultimately show "name \<in> set (dkeys new_dicts)" unfolding entries_keys[OF assms(1,2)] by auto
qed

lemma shards_share_sources:
  assumes "shard_entries shards (t, spec) = Inr es" "dget shards t = Some n" "0 < n"
    and "dget_default spec ''sources'' (PList []) = PList xs" "i < nat n"
  shows "\<exists>d. (ShardName t i, d) \<in> set es
    \<and> dget d ''sources'' = Some (PList (map ((!) xs) (shard_positions (nat n) i (length xs))))"
proof -
  from assms(1,2) obtain ds where ds: "rmap (shard spec n) [0..<nat n] = Inr ds"
    and es: "es = zip (map (ShardName t) [0..<nat n]) ds"
    by (auto simp: shard_entries_def py_range_def)
  from ds have "list_all2 (\<lambda>i d. shard spec n i = Inr d) [0..<nat n] ds" by (simp add: rmap_list_all2)
  with assms(5) have d: "shard spec n i = Inr (ds ! i)" "length ds = nat n"
    by (auto simp: list_all2_conv_all_nth)
  from d(2) assms(5) have "(ShardName t i, ds ! i) \<in> set es"
    unfolding es set_zip by (auto intro!: exI[of _ i])
  moreover from d(1) assms(4) have "dget (ds ! i) ''sources''
      = Some (PList (map ((!) xs) (shard_positions (nat n) i (length xs))))"
    by (auto simp: shard_def shard_sources_list dest!: sym[of "dset _ _ _"])
  ultimately show ?thesis by blast
qed

text \<open>C39. Sharding a table whose names, the new ones included, are distinct: the table and the list hold
  the shards of each target in its place.  A target with \<open>n > 0\<close> shards has its sources spread over
  them, each occurrence in exactly one.  If every dependency named a target of the table before, every
  dependency names one after it: a dependency on a sharded target has become those on all its shards.\<close>

theorem ShardTargets_splits:
  assumes "ShardTargets target_list target_dicts = Inr (new_list, new_dicts)"
    and "targets_to_shard target_dicts = Inr shards"
    and "distinct (dkeys target_dicts)"
    and "distinct (concat (map (shard_names shards) (dkeys target_dicts)))"
  shows "new_list = concat (map (shard_names shards) target_list)
    \<and> dkeys new_dicts = concat (map (shard_names shards) (dkeys target_dicts))
    \<and> (named_dependencies target_dicts \<longrightarrow> named_dependencies new_dicts)
    \<and> (\<forall>(t, spec) \<in> set target_dicts. \<forall>n xs. int_setting ''msvs_shard'' spec = Inr n \<and> 0 < n
          \<and> dget_default spec ''sources'' (PList []) = PList xs \<longrightarrow>
        (\<exists>parts. length parts = nat n \<and> mset (concat parts) = mset xs
           \<and> (\<forall>i < nat n. \<exists>d. dget new_dicts (ShardName t i) = Some d
                \<and> dget d ''sources'' = Some (PList (parts ! i)))))"
proof -
  from ShardTargets_runs[OF assms(1,2,4)] obtain ess where ess: "rmap (shard_entries shards) target_dicts = Inr ess"
    and deps: "list_all2 (\<lambda>(t, spec) (u, d). u = t \<and> shard_dependencies shards spec = Inr d) (concat ess) new_dicts"
    and new_list: "new_list = concat (map (shard_names shards) target_list)" .
  note keys = entries_keys[OF ess deps]
  have "\<exists>parts. length parts = nat n \<and> mset (concat parts) = mset xs
      \<and> (\<forall>i < nat n. \<exists>d. dget new_dicts (ShardName t i) = Some d \<and> dget d ''sources'' = Some (PList (parts ! i)))"
    if spec: "(t, spec) \<in> set target_dicts" "int_setting ''msvs_shard'' spec = Inr n" "0 < n"
      "dget_default spec ''sources'' (PList []) = PList xs" for t spec n xs
  proof -
    define parts where "parts = map (\<lambda>i. map ((!) xs) (shard_positions (nat n) i (length xs))) [0..<nat n]"
    have parts: "length parts = nat n" "mset (concat parts) = mset xs"
      using shard_positions_all[of "nat n" xs] spec(3) by (simp_all add: parts_def)
    from targets_with_dget[OF assms(2)[unfolded targets_to_shard_def] assms(3) spec(1)] spec(2,3)
    have n: "dget shards t = Some n" by auto
    from ess spec(1) obtain es where es: "es \<in> set ess" "shard_entries shards (t, spec) = Inr es"
      by (auto simp: rmap_list_all2 list_all2_conv_all_nth in_set_conv_nth) metis
    have "\<exists>d. dget new_dicts (ShardName t i) = Some d \<and> dget d ''sources'' = Some (PList (parts ! i))"
      if i: "i < nat n" for i
    proof -
      from shards_share_sources[OF es(2) n spec(3,4) i] obtain e where e: "(ShardName t i, e) \<in> set (concat ess)"
        "dget e ''sources'' = Some (PList (parts ! i))" using es(1) i by (auto simp: parts_def)
      from renamed_left[OF deps e(1)] obtain d
        where d: "(ShardName t i, d) \<in> set new_dicts" "shard_dependencies shards e = Inr d" by blast
      have "distinct (dkeys new_dicts)" using assms(4) by (simp add: keys)
      from map_of_is_SomeI[OF this d(1)] have "dget new_dicts (ShardName t i) = Some d" .
      with e(2) shard_dependencies_keeps[OF d(2)]
      show ?thesis by simp
    qed
    with parts show ?thesis by blast
  qed
  with new_list keys sharding_keeps_named[OF ess deps] show ?thesis by blast
qed

definition sharded_example :: target_table where
  "sharded_example =
     [(''a.gyp:x#target'', [(''target_name'', PStr ''x''), (''msvs_shard'', PInt 2),
        (''sources'', PList [PStr ''1.c'', PStr ''2.c'', PStr ''3.c''])]),
      (''a.gyp:y#target'', [(''target_name'', PStr ''y''), (''dependencies'', PList [PStr ''a.gyp:x#target''])])]"

theorem ShardTargets_splits_witness:
  "\<exists>new_list new_dicts. ShardTargets [''a.gyp:x#target'', ''a.gyp:y#target''] sharded_example = Inr (new_list, new_dicts)
    \<and> new_list = [''a.gyp:x_0#target'', ''a.gyp:x_1#target'', ''a.gyp:y#target'']
    \<and> named_dependencies new_dicts
    \<and> (\<exists>parts. length parts = 2 \<and> mset (concat parts) = {#PStr ''1.c'', PStr ''2.c'', PStr ''3.c''#})"
proof -
  define run where "run = ShardTargets [''a.gyp:x#target'', ''a.gyp:y#target''] sharded_example"
  have "\<not> isl run" unfolding run_def by code_simp
  then obtain new_list new_dicts where run: "run = Inr (new_list, new_dicts)" by (cases run) auto
  have shards: "targets_to_shard sharded_example = Inr [(''a.gyp:x#target'', 2)]"
    and names: "distinct (dkeys sharded_example)"
      "distinct (concat (map (shard_names [(''a.gyp:x#target'', 2)]) (dkeys sharded_example)))"
    and list: "concat (map (shard_names [(''a.gyp:x#target'', 2)]) [''a.gyp:x#target'', ''a.gyp:y#target''])
      = [''a.gyp:x_0#target'', ''a.gyp:x_1#target'', ''a.gyp:y#target'']"
    and named: "named_dependencies sharded_example"
    by code_simp+
  note splits = ShardTargets_splits[OF run[unfolded run_def] shards names]
  define spec where "spec = [(''target_name'', PStr ''x''), (''msvs_shard'', PInt 2),
    (''sources'', PList [PStr ''1.c'', PStr ''2.c'', PStr ''3.c''])]"
  have spec: "(''a.gyp:x#target'', spec) \<in> set sharded_example" "int_setting ''msvs_shard'' spec = Inr 2"
    "dget_default spec ''sources'' (PList []) = PList [PStr ''1.c'', PStr ''2.c'', PStr ''3.c'']"
    unfolding spec_def sharded_example_def by (simp_all add: int_setting_def py_int_def dget_default_eq dhas_iff)
  from splits have "\<forall>(t, spec) \<in> set sharded_example. \<forall>n xs. int_setting ''msvs_shard'' spec = Inr n \<and> 0 < n
      \<and> dget_default spec ''sources'' (PList []) = PList xs \<longrightarrow>
      (\<exists>parts. length parts = nat n \<and> mset (concat parts) = mset xs)" by fast
  from bspec[OF this spec(1)] spec(2,3)
  have "\<exists>parts. length parts = 2 \<and> mset (concat parts) = {#PStr ''1.c'', PStr ''2.c'', PStr ''3.c''#}"
    by simp
  moreover from splits list have "new_list = [''a.gyp:x_0#target'', ''a.gyp:x_1#target'', ''a.gyp:y#target'']"
    "named_dependencies new_dicts" using named by simp_all
  ultimately show ?thesis using run unfolding run_def by blast
qed

section \<open>What a shim changes\<close>

lemma insert_shim_cases:
  assumes "insert_shim cc vars t (target_list, target_dicts) = Inr (new_list, new_dicts)"
  obtains target_dict copy_dict shim_dict target_dict' deps
  where "dget target_dicts t = Some target_dict"
    "new_list = SuffixName t shim_suffix # SuffixName t copy_suffix # target_list"
    "new_dicts = dset t (dset ''dependencies'' (PList (deps @ [PStr (SuffixName t shim_suffix)])) target_dict')
       (dset (SuffixName t shim_suffix) shim_dict (dset (SuffixName t copy_suffix) copy_dict target_dicts))"
  using assms by (auto simp: insert_shim_def Let_def)

text \<open>The shim stands in front of the copy that it depends on, the target depends on the shim, and no other
  target changes.\<close>

lemma insert_shim_list:
  assumes "insert_shim cc vars t (target_list, target_dicts) = Inr (new_list, new_dicts)"
  shows "new_list = SuffixName t shim_suffix # SuffixName t copy_suffix # target_list"
  by (rule insert_shim_cases[OF assms])

lemma insert_shim_target:
  assumes "insert_shim cc vars t (target_list, target_dicts) = Inr (new_list, new_dicts)"
  shows "\<exists>d deps. dget new_dicts t = Some d
    \<and> dget d ''dependencies'' = Some (PList (deps @ [PStr (SuffixName t shim_suffix)]))"
  by (rule insert_shim_cases[OF assms]) simp

lemma insert_shim_frame:
  assumes "insert_shim cc vars t (target_list, target_dicts) = Inr (new_list, new_dicts)"
    and "u \<notin> {t, SuffixName t shim_suffix, SuffixName t copy_suffix}"
  shows "dget new_dicts u = dget target_dicts u"
  by (rule insert_shim_cases[OF assms(1)]) (use assms(2) in auto)

end
