(* ===== verification/Spec2Isabelle.thy ===== *)
theory Spec2Isabelle
  imports Gyp_Config Gyp_Filters Gyp_File_Graph Gyp_Validate Gyp_Load Gyp_Parallel Gyp_Common_Graph
    Gyp_Main Gyp_Expand_Text Ordered_Dict Ninja_Syntax Easy_Xml
    Msvs_Settings Msvs_Util
begin

text \<open>
  A verification development for the build system of this repository.

  The repository is a port of node.js to Native Client.  Its own program logic in Python is the
  project generator GYP under \<open>src/tools/gyp/pylib/gyp\<close>: it reads build files, expands and merges
  their dictionaries, builds the graph of targets, and hands the finished targets to a generator.
  The development follows that pipeline; each theory names its source files at its beginning.

  \<^bold>\<open>The parts and their theories\<close>

  \<^item> \<open>Py_Prelude\<close>, \<open>Os_Path\<close>: the Python 2 language and the part of its library the sources use:
    exceptions as values of \<open>py_error\<close>, computations that may raise (\<open>'a res\<close>) or may not return
    (\<open>'a comp\<close>), build-file values, dictionaries as association lists in iteration order, string
    methods, \<open>os.path\<close> on POSIX.
  \<^item> \<open>Gyp_Common\<close>, \<open>Gyp_Common_Graph\<close>: \<open>common.py\<close>.  Qualified target names, relative paths, shell
    quoting and \<open>memoize\<close> in the first; \<open>DeepDependencyTargets\<close>, \<open>AllTargets\<close> and
    \<open>TopologicallySorted\<close> in the second.
  \<^item> \<open>Gyp_Options\<close>: the command line (\<open>__init__.py\<close>): the options of \<open>gyp_main\<close>, their parsing, and the
    flags that regenerate them.
  \<^item> \<open>Gyp_Load\<close>: what is done with a build file that was read (\<open>input.py\<close>): \<open>CheckedEval\<close>, included
    files, toolsets, defaults of targets, build files of dependencies.
  \<^item> \<open>Gyp_Include\<close>, \<open>Gyp_Load_All\<close>: the loading itself: \<open>LoadOneBuildFile\<close> with the files it includes,
    \<open>LoadTargetBuildFile\<close> with the files of the dependencies, and \<open>Load\<close> with all its phases.
    \<open>Gyp_Load_Runs\<close> proves which files are read and which commands run, \<open>Gyp_Load_Result\<close> what \<open>Load\<close>
    returns.
  \<^item> \<open>Gyp_Parallel\<close>: \<open>ParallelState\<close> and the loop of \<open>LoadTargetBuildFilesParallel\<close>, as a step
    relation over all interleavings of the loop with the callbacks of the workers; \<open>Gyp_Load_Worker\<close>:
    \<open>CallLoadTargetBuildFile\<close>, which the workers run, and the loop as a function of the choices of
    the operating system, whose runs are runs of the step relation.
  \<^item> \<open>Gyp_Variables\<close>: bracket groups, canonical integers, automatic variables and variables
    dictionaries, over trees and over references.
  \<^item> \<open>Py_Heap\<close>, \<open>Gyp_Expand\<close>: lists and dictionaries with identity, and on them variable expansion and
    conditions: \<open>ExpandVariables\<close>, \<open>ProcessConditionsInDict\<close> and the two
    \<open>ProcessVariablesAndConditions\<close> functions with the command cache and generated file lists.
    \<open>Gyp_Expand_Commands\<close> proves what happens to commands, \<open>Gyp_Expand_Trees\<close>, \<open>Gyp_Expand_Refs\<close> and
    \<open>Gyp_Expand_Settles\<close> that no reference is left, \<open>Gyp_Expand_Text\<close> what references become.
  \<^item> \<open>Gyp_Merge\<close>, \<open>Gyp_Config\<close>, \<open>Gyp_Filters\<close>: \<open>MergeDicts\<close> and \<open>MergeLists\<close>, configurations with
    inheritance, list filters.
  \<^item> \<open>Gyp_Targets\<close>, \<open>Gyp_Graph\<close>, \<open>Gyp_File_Graph\<close>, \<open>Gyp_Link\<close>: the target table and its dependency
    lists, the dependency graph with its topological order, cycles between build files, link
    dependencies and the settings that follow from them.
  \<^item> \<open>Gyp_Validate\<close>: the checks and last transformations of \<open>Load\<close>.
  \<^item> \<open>Ordered_Dict\<close>, \<open>Ninja_Syntax\<close>, \<open>Easy_Xml\<close>, \<open>Msvs_Settings\<close>: what the generators build on: the
    ordered dictionary with its linked list, the writer of ninja files, the XML writers, and the
    tables and conversions of Visual Studio settings.
  \<^item> \<open>Msvs_Util\<close>: the helpers of the Windows generators (\<open>MSVSUtil.py\<close>): shards of targets and shims for
    large PDB files.
  \<^item> \<open>Gyp_Make_Text\<close>, \<open>Gyp_Make\<close>, \<open>Gyp_Make_Header\<close>, \<open>Gyp_Make_Output\<close>: the make generator
    (\<open>generator/make.py\<close>): escaping, \<open>MakefileWriter\<close>, the header of the root makefile, and
    \<open>GenerateOutput\<close>, which returns the files with their texts.  \<open>Gyp_Make_Rules\<close> proves what make
    reads, \<open>Gyp_Make_Order\<close> which lines a target's makefile has and in which order targets are
    written, \<open>Gyp_Make_Files\<close> which files there are.
  \<^item> \<open>Gyp_Main\<close>: the program (\<open>__init__.py\<close>): \<open>gyp_main\<close> from the arguments to the files, over all of the
    above.

  \<^bold>\<open>State and operations\<close>

  A function that changes a dictionary in place returns the new dictionary here.  Values are trees:
  two places of a build file never share an object in these theories, which the sources guarantee
  for what the modelled functions write (merging copies every list and dictionary it inserts).
  Objects with identity are kept in a store: the nodes of the dependency graph (a node is named by
  its \<open>ref\<close>), the links of the ordered dictionary (by address), and, during expansion, all lists and
  dictionaries (\<open>hval\<close>, \<open>store\<close>), because expanding a reference to a list changes the list that the
  variable names.  An action on a state (\<open>act\<close>) gives an error, or a result with the new state, or does
  not return.  \<open>process_dict\<close> puts a tree into the store, processes it and reads it back.  A raise is \<open>Inl\<close> of the error, and
  every raise, assertion and failing lookup of a modelled function is a branch of its model.

  \<^bold>\<open>Parameters\<close>

  Code that is not in the repository is an argument: \<open>os.path.realpath\<close> (its results are absolute
  normal paths, \<open>abs_normal\<close>), the regular-expression engine for patterns that build files contain
  (\<open>compile\<close>), the parser of the module \<open>compiler\<close> (\<open>parse\<close>), the element that \<open>set.pop\<close> takes (\<open>pick\<close>),
  and the scheduling of the parallel loop (\<open>choices\<close>).  The step relation of that loop is over any
  answers of workers (\<open>load\<close>), which \<open>real_workers\<close> ties to runs of \<open>CallLoadTargetBuildFile\<close>.  The surroundings of the expansion are the record
  \<open>expand_env\<close>: running a command (which may depend on the commands run before), \<open>eval\<close>, the value of a
  condition (which does not change the variables), importing a module and calling its \<open>DoMain\<close>, and
  changing the directory; those of loading are the record \<open>load_env\<close>: the texts of the files, \<open>eval\<close> of
  a text, the parser, the current directory.  What the make generator gets from the process is the
  record \<open>make_params\<close>, and what \<open>gyp_main\<close> finds around it the record \<open>process\<close>, with the state each
  worker process starts in and the choices for its parallel loop.  Patterns that are fixed in the source are written out.

  \<^bold>\<open>Loops\<close>

  Loops over data are structural or have a termination proof.  Walks over graphs that could be
  cyclic are partial functions with values in \<open>option\<close>, so that not returning is \<open>None\<close>, and the theorems
  say when they return: always for linked graphs, because every walk marks what it has seen.
  Expansion (\<open>process\<close>) is one partial function over the kinds of calls the functions make: a variable
  that refers to itself is expanded for ever, so its theorems say what holds when it returns, and
  that it does return on text without references and on plain references that do not go in circles.  Loading is one such function
  over the calls for files, dictionaries and lists; a file that includes itself has no value.  No definition uses fuel,
  but reading a tree back from the store is bounded by the size of the store.

  \<^bold>\<open>What the theorems show\<close>

  \<^item> Merging: what the entries about a key make of its value, and the order of merged lists.
  \<^item> Expansion: when it returns, no reference is left at any depth (of dictionaries without keys for
    prepending merges), no command ran twice, and what is expanded stays as it is; references become
    the values of their variables.
  \<^item> Graphs: lists in dependency order exist exactly for acyclic graphs; deep, link and imported
    dependencies are exactly the reachable ones; walks return on every graph of targets.
  \<^item> Tables and filters: configurations, filters, toolsets and pruning leave the shapes the later
    phases rely on.
  \<^item> Errors: the validations accept exactly the targets they should.
  \<^item> Sequential loading: no file is read twice, no command of the same text runs twice, and the list that \<open>Load\<close>
    returns names the targets asked for, each after its dependencies.
  \<^item> Parallel loading: no interleaving loses or repeats a file, gets stuck, or runs forever; what was
    loaded is closed under the dependencies of its targets.
  \<^item> Make: rules are read as they were meant, definitions reach the compiler, the files of targets are
    written in dependency order and name exactly the products of their dependencies as prerequisites; the flags in the rule
    that regenerates a makefile stand for the options GYP was called with.
  \<^item> The program: what \<open>gyp_main\<close> writes, in either mode of loading, are the makefiles of exactly the
    targets that were asked for and of the build files that build needed ones.
  \<^item> Output: escaping and quoting are inverted by the readers they are meant for; wrapped lines keep
    their text; valid Visual Studio settings convert to valid MSBuild settings; the ordered
    dictionary implements an association list.  Sharding a target keeps its sources, each in one shard,
    and no dependency is left without its target.

  The locales state the contracts the parts share: \<open>dict_spec\<close> for dictionaries, \<open>linked_graph\<close> for
  graphs whose edges are mirrored, \<open>dfs_walk\<close> for the recursive walks, \<open>world_invariant\<close> for what
  running a command keeps of the world and therefore the whole expansion, \<open>file_invariant\<close> and
  \<open>load_invariant\<close> for what loading a file keeps.  Each is interpreted on the definitions of the
  program.

  \<^bold>\<open>Not modelled\<close>

  The make generator for \<open>mac\<close> and the tools it copies, the other generators, the object model of Xcode
  projects, the emulation of platform settings, the test runner and the scripts of V8.
\<close>

end
